(* ===== verification/Prelude.thy ===== *)
theory Prelude
  imports Main "HOL-Library.AList"
begin

text \<open>
  Shared vocabulary of the development: results of fallible Python code as sums
  (\<open>Inl\<close> the exception, \<open>Inr\<close> the value), their sequencing, folds that stop at the
  first exception, and Python dictionaries as association lists in insertion order
  (\<^theory_text>\<open>AList.update\<close> overwrites a present key in place and appends a new one, which is
  what \<open>d[k] = v\<close> does).
\<close>

section \<open>Collections of facts\<close>

named_theorems result_simps \<open>equations and inversions of the result combinators\<close>
named_theorems dict_simps \<open>lookup, keys and values after dictionary updates\<close>

section \<open>Results\<close>

text \<open>Sequencing: an exception skips the rest.\<close>

definition rbind :: "'e + 'a \<Rightarrow> ('a \<Rightarrow> 'e + 'b) \<Rightarrow> 'e + 'b" where
  "rbind m f = (case m of Inl e \<Rightarrow> Inl e | Inr a \<Rightarrow> f a)"

text \<open>\<open>if not b: raise e\<close>.\<close>

definition require :: "bool \<Rightarrow> 'e \<Rightarrow> 'e + unit" where
  "require b e = (if b then Inr () else Inl e)"

definition is_ok :: "'e + 'a \<Rightarrow> bool" where
  "is_ok m = (case m of Inl _ \<Rightarrow> False | Inr _ \<Rightarrow> True)"

lemma rbind_Inl [simp, result_simps]: "rbind (Inl e) f = Inl e"
  by (simp add: rbind_def)

lemma rbind_Inr [simp, result_simps]: "rbind (Inr a) f = f a"
  by (simp add: rbind_def)

lemma rbind_eq_Inr [result_simps]:
  "rbind m f = Inr b \<longleftrightarrow> (\<exists>a. m = Inr a \<and> f a = Inr b)"
  by (cases m) auto

lemma rbind_eq_Inl [result_simps]:
  "rbind m f = Inl e \<longleftrightarrow> m = Inl e \<or> (\<exists>a. m = Inr a \<and> f a = Inl e)"
  by (cases m) auto

lemma rbind_cong [fundef_cong]:
  "m = m' \<Longrightarrow> (\<And>a. m' = Inr a \<Longrightarrow> f a = g a) \<Longrightarrow> rbind m f = rbind m' g"
  by (cases m') auto

lemma require_eq_Inr [simp, result_simps]: "require b e = Inr u \<longleftrightarrow> b"
  by (simp add: require_def)

lemma require_eq_Inl [simp, result_simps]: "require b e = Inl e' \<longleftrightarrow> \<not> b \<and> e' = e"
  by (auto simp: require_def)

lemma require_True [simp]: "require True e = Inr ()"
  by (simp add: require_def)

lemma require_False [simp]: "require False e = Inl e"
  by (simp add: require_def)

lemma is_ok_iff [result_simps]: "is_ok m \<longleftrightarrow> (\<exists>a. m = Inr a)"
  by (cases m) (auto simp: is_ok_def)

text \<open>A \<open>for\<close> loop over a list whose body may raise, and a comprehension that may.\<close>

fun rfold :: "('a \<Rightarrow> 's \<Rightarrow> 'e + 's) \<Rightarrow> 'a list \<Rightarrow> 's \<Rightarrow> 'e + 's" where
  "rfold f [] s = Inr s"
| "rfold f (x # xs) s = rbind (f x s) (rfold f xs)"

fun rmap :: "('a \<Rightarrow> 'e + 'b) \<Rightarrow> 'a list \<Rightarrow> 'e + 'b list" where
  "rmap f [] = Inr []"
| "rmap f (x # xs) = rbind (f x) (\<lambda>y. rbind (rmap f xs) (\<lambda>ys. Inr (y # ys)))"

lemma rfold_append: "rfold f (xs @ ys) s = rbind (rfold f xs s) (rfold f ys)"
proof (induction xs arbitrary: s)
  case (Cons x xs)
  then show ?case by (cases "f x s") auto
qed simp

lemma rfold_snoc: "rfold f (xs @ [x]) s = rbind (rfold f xs s) (f x)"
proof -
  have "rfold f [x] = f x"
  proof
    show "rfold f [x] s = f x s" for s by (cases "f x s") auto
  qed
  then show ?thesis by (simp add: rfold_append del: rfold.simps)
qed

text \<open>An invariant of the body is an invariant of the loop.\<close>

lemma rfold_invariant:
  assumes "\<And>x s s'. x \<in> set xs \<Longrightarrow> P s \<Longrightarrow> f x s = Inr s' \<Longrightarrow> P s'"
    and "P s" and "rfold f xs s = Inr s'"
  shows "P s'"
  using assms
proof (induction xs arbitrary: s)
  case (Cons x xs)
  from Cons.prems(3) obtain s1 where s1: "f x s = Inr s1" "rfold f xs s1 = Inr s'"
    by (auto simp: rbind_eq_Inr)
  from Cons.prems(1) [of x s s1] Cons.prems(2) s1(1) have "P s1" by simp
  show ?case
  proof (rule Cons.IH [OF _ \<open>P s1\<close> s1(2)])
    show "P t'" if "x' \<in> set xs" "P t" "f x' t = Inr t'" for x' t t'
      using Cons.prems(1) [of x' t t'] that by simp
  qed
qed simp

lemma rmap_eq_Inr: "rmap f xs = Inr ys \<longleftrightarrow> list_all2 (\<lambda>x y. f x = Inr y) xs ys"
  by (induction xs arbitrary: ys) (auto simp: rbind_eq_Inr list_all2_Cons1)

lemma rmap_length: "rmap f xs = Inr ys \<Longrightarrow> length ys = length xs"
  by (simp add: rmap_eq_Inr list_all2_lengthD)

section \<open>Dictionaries in insertion order\<close>

abbreviation keys :: "('k \<times> 'v) list \<Rightarrow> 'k list" where
  "keys d \<equiv> map fst d"

definition dict_of :: "('k \<times> 'v) list \<Rightarrow> ('k \<times> 'v) list" where
  "dict_of kvs = foldl (\<lambda>d kv. AList.update (fst kv) (snd kv) d) [] kvs"

lemma lookup_update [simp, dict_simps]:
  "map_of (AList.update k v d) = (map_of d)(k \<mapsto> v)"
  by (rule ext) (simp add: update_conv)

lemma keys_update [dict_simps]:
  "keys (AList.update k v d) = (if k \<in> set (keys d) then keys d else keys d @ [k])"
  by (rule update_keys)

lemma keys_update_new [simp]: "map_of d k = None \<Longrightarrow> keys (AList.update k v d) = keys d @ [k]"
  by (simp add: keys_update map_of_eq_None_iff)

lemma keys_update_old [simp]: "map_of d k = Some w \<Longrightarrow> keys (AList.update k v d) = keys d"
  by (metis keys_update map_of_eq_None_iff option.distinct(1) list.set_map)

lemma set_keys_update [simp]: "set (keys (AList.update k v d)) = insert k (set (keys d))"
  by (auto simp: keys_update)

lemma distinct_keys_update [simp]:
  "distinct (keys d) \<Longrightarrow> distinct (keys (AList.update k v d))"
  by (rule distinct_update)

lemma update_new: "map_of d k = None \<Longrightarrow> AList.update k v d = d @ [(k, v)]"
  by (induction d) (auto split: if_splits)

lemma in_set_update_distinct:
  "distinct (keys d) \<Longrightarrow> (x, y) \<in> set (AList.update k v d) \<longleftrightarrow>
     (if x = k then y = v else (x, y) \<in> set d)"
  using map_of_eq_Some_iff [of d] map_of_eq_Some_iff [of "AList.update k v d"]
  by (metis distinct_keys_update fun_upd_apply lookup_update option.inject)

lemma dict_of_distinct: "distinct (keys kvs) \<Longrightarrow> dict_of kvs = kvs"
proof -
  have "distinct (keys (d @ kvs)) \<Longrightarrow>
      foldl (\<lambda>d kv. AList.update (fst kv) (snd kv) d) d kvs = d @ kvs" for d
  proof (induction kvs arbitrary: d)
    case (Cons kv kvs)
    then have "map_of d (fst kv) = None" by (auto simp: map_of_eq_None_iff)
    then have "AList.update (fst kv) (snd kv) d = d @ [kv]" by (simp add: update_new)
    with Cons.IH [of "d @ [kv]"] Cons.prems show ?case by simp
  qed simp
  from this [of "[]"] show "distinct (keys kvs) \<Longrightarrow> dict_of kvs = kvs"
    by (simp add: dict_of_def)
qed

section \<open>Lists\<close>

text \<open>\<open>next((x for x in xs if P x), None)\<close> is the library's \<open>List.find\<close>.\<close>

lemma find_SomeD: "List.find P xs = Some x \<Longrightarrow> P x \<and> x \<in> set xs"
  by (auto simp: find_Some_iff)

lemma find_None_all: "List.find P xs = None \<longleftrightarrow> (\<forall>x \<in> set xs. \<not> P x)"
  by (auto simp: find_None_iff)

end
