(* ===== verification/PyStr.thy ===== *)
theory PyStr
  imports Prelude "HOL-Library.List_Lexorder" "HOL-Library.Char_ord"
begin

text \<open>
  The part of Python's \<open>str\<close> and \<open>int\<close> the modelled sources use. A Python string is a
  \<^typ>\<open>string\<close> whose characters are its code points; code points above 255 are outside the
  model (the line boundaries U+2028 and U+2029 and the wider Unicode spaces with them). White
  space and line boundaries are the complete lists of Python's \<open>str.isspace\<close> and
  \<open>str.splitlines\<close> below 256.
\<close>

section \<open>Characters\<close>

abbreviation LF :: char where "LF \<equiv> CHR 0x0A"
abbreviation CR :: char where "CR \<equiv> CHR 0x0D"
abbreviation SP :: char where "SP \<equiv> CHR 0x20"
abbreviation DQ :: char where "DQ \<equiv> CHR 0x22"
abbreviation BSL :: char where "BSL \<equiv> CHR 0x5C"

definition ord_of :: "char \<Rightarrow> nat" where
  "ord_of c = of_char c"

definition py_space :: "char \<Rightarrow> bool" where
  "py_space c \<longleftrightarrow> (let n = ord_of c in
     9 \<le> n \<and> n \<le> 13 \<or> 28 \<le> n \<and> n \<le> 32 \<or> n = 133 \<or> n = 160)"

definition line_boundary :: "char \<Rightarrow> bool" where
  "line_boundary c \<longleftrightarrow> (let n = ord_of c in 10 \<le> n \<and> n \<le> 13 \<or> 28 \<le> n \<and> n \<le> 30 \<or> n = 133)"

definition is_digit :: "char \<Rightarrow> bool" where
  "is_digit c \<longleftrightarrow> 48 \<le> ord_of c \<and> ord_of c \<le> 57"

definition is_upper :: "char \<Rightarrow> bool" where
  "is_upper c \<longleftrightarrow> 65 \<le> ord_of c \<and> ord_of c \<le> 90"

definition is_lower :: "char \<Rightarrow> bool" where
  "is_lower c \<longleftrightarrow> 97 \<le> ord_of c \<and> ord_of c \<le> 122"

definition is_alnum :: "char \<Rightarrow> bool" where
  "is_alnum c \<longleftrightarrow> is_digit c \<or> is_upper c \<or> is_lower c"

text \<open>\<open>str.lower\<close> below 256: ASCII capitals and the capitals of the upper half.\<close>

definition lower_char :: "char \<Rightarrow> char" where
  "lower_char c = (let n = ord_of c in
     if 65 \<le> n \<and> n \<le> 90 \<or> 192 \<le> n \<and> n \<le> 222 \<and> n \<noteq> 215 then char_of (n + 32) else c)"

lemmas char_class_defs = ord_of_def py_space_def line_boundary_def is_digit_def is_upper_def
  is_lower_def is_alnum_def lower_char_def Let_def

lemma line_boundary_space: "line_boundary c \<Longrightarrow> py_space c"
  by (auto simp: char_class_defs)

lemma alnum_not_space: "is_alnum c \<Longrightarrow> \<not> py_space c"
  by (auto simp: char_class_defs)

lemma digit_not_space: "is_digit c \<Longrightarrow> \<not> py_space c"
  by (auto simp: char_class_defs)

section \<open>Stripping, splitting and joining\<close>

definition lstrip :: "string \<Rightarrow> string" where
  "lstrip = dropWhile py_space"

definition rstrip :: "string \<Rightarrow> string" where
  "rstrip s = rev (dropWhile py_space (rev s))"

definition strip :: "string \<Rightarrow> string" where
  "strip s = rstrip (lstrip s)"

definition starts_with :: "string \<Rightarrow> string \<Rightarrow> bool" where
  "starts_with p s \<longleftrightarrow> take (length p) s = p"

definition lower :: "string \<Rightarrow> string" where
  "lower = map lower_char"

fun join :: "string \<Rightarrow> string list \<Rightarrow> string" where
  "join sep [] = []"
| "join sep [x] = x"
| "join sep (x # y # zs) = x @ sep @ join sep (y # zs)"

text \<open>\<open>s.split(c)\<close> for a single character \<open>c\<close>: never the empty list.\<close>

fun split_on :: "char \<Rightarrow> string \<Rightarrow> string list" where
  "split_on c [] = [[]]"
| "split_on c (x # xs) =
     (if x = c then [] # split_on c xs
      else (case split_on c xs of [] \<Rightarrow> [[x]] | p # ps \<Rightarrow> (x # p) # ps))"

text \<open>
  \<open>s.splitlines()\<close>: a carriage return followed by a line feed is one boundary, and a boundary at
  the end does not open a last empty line. The second argument is the current line, reversed.
\<close>

function splitlines_from :: "string \<Rightarrow> string \<Rightarrow> string list" where
  "splitlines_from [] acc = (if acc = [] then [] else [rev acc])"
| "splitlines_from (c # cs) acc =
     (if c = CR \<and> cs \<noteq> [] \<and> hd cs = LF then rev acc # splitlines_from (tl cs) []
      else if line_boundary c then rev acc # splitlines_from cs []
      else splitlines_from cs (c # acc))"
  by pat_completeness auto
termination
  by (relation "measure (length \<circ> fst)") auto

definition splitlines :: "string \<Rightarrow> string list" where
  "splitlines s = splitlines_from s []"

text \<open>The inverse: every line followed by a line feed.\<close>

definition unlines :: "string list \<Rightarrow> string" where
  "unlines ls = concat (map (\<lambda>l. l @ [LF]) ls)"

definition single_line :: "string \<Rightarrow> bool" where
  "single_line s \<longleftrightarrow> (\<forall>c \<in> set s. \<not> line_boundary c)"

lemma LF_boundary [simp]: "line_boundary LF"
  by (simp add: char_class_defs)

lemma CR_boundary [simp]: "line_boundary CR"
  by (simp add: char_class_defs)

lemma single_line_simps [simp]:
  "single_line []" "single_line (c # s) \<longleftrightarrow> \<not> line_boundary c \<and> single_line s"
  "single_line (s @ t) \<longleftrightarrow> single_line s \<and> single_line t"
  by (auto simp: single_line_def)

lemma splitlines_from_line:
  "single_line l \<Longrightarrow> splitlines_from (l @ LF # r) acc = (rev acc @ l) # splitlines_from r []"
proof (induction l arbitrary: acc)
  case (Cons c l)
  then have "c \<noteq> CR" by auto
  with Cons show ?case by simp
qed simp

text \<open>Splitting undoes \<open>unlines\<close> on lines without boundaries.\<close>

lemma splitlines_unlines: "\<forall>l \<in> set ls. single_line l \<Longrightarrow> splitlines (unlines ls) = ls"
  by (induction ls) (simp_all add: splitlines_def unlines_def splitlines_from_line)

lemma unlines_append: "unlines (xs @ ys) = unlines xs @ unlines ys"
  by (simp add: unlines_def)

lemma join_LF_unlines: "ls \<noteq> [] \<Longrightarrow> join [LF] ls @ [LF] = unlines ls"
  by (induction "[LF]" ls rule: join.induct) (simp_all add: unlines_def)

lemma single_line_splitlines_from:
  "single_line acc \<Longrightarrow> l \<in> set (splitlines_from s acc) \<Longrightarrow> single_line l"
proof (induction s acc rule: splitlines_from.induct)
  case (1 acc)
  then show ?case by (simp split: if_splits add: single_line_def)
next
  case (2 c cs acc)
  have rev: "single_line (rev acc)" using "2.prems"(1) by (simp add: single_line_def)
  consider "c = CR \<and> cs \<noteq> [] \<and> hd cs = LF" | "\<not> (c = CR \<and> cs \<noteq> [] \<and> hd cs = LF)" "line_boundary c"
    | "\<not> (c = CR \<and> cs \<noteq> [] \<and> hd cs = LF)" "\<not> line_boundary c" by blast
  then show ?case
  proof cases
    case 1
    then show ?thesis using "2.IH"(1) [OF 1] "2.prems" rev by (simp only: splitlines_from.simps if_True) auto
  next
    case 2
    then show ?thesis using "2.IH"(2) [OF 2] "2.prems" rev
      by (simp only: splitlines_from.simps if_True if_False) auto
  next
    case 3
    then show ?thesis using "2.IH"(3) [OF 3] "2.prems"
      by (simp only: splitlines_from.simps if_False single_line_simps) auto
  qed
qed

lemma single_line_splitlines: "l \<in> set (splitlines s) \<Longrightarrow> single_line l"
  using single_line_splitlines_from [of "[]" l s] by (simp add: splitlines_def)

subsection \<open>Facts about stripping\<close>

lemma strip_Nil [simp]: "strip [] = []"
  by (simp add: strip_def lstrip_def rstrip_def)

lemma dropWhile_id: "xs = [] \<or> \<not> P (hd xs) \<Longrightarrow> dropWhile P xs = xs"
  by (cases xs) auto

lemma rstrip_id: "s = [] \<or> \<not> py_space (last s) \<Longrightarrow> rstrip s = s"
  by (cases s rule: rev_cases) (auto simp: rstrip_def)

lemma strip_id:
  "s = [] \<or> \<not> py_space (hd s) \<and> \<not> py_space (last s) \<Longrightarrow> strip s = s"
  by (auto simp: strip_def lstrip_def dropWhile_id rstrip_id)

lemma rstrip_last: "rstrip s \<noteq> [] \<Longrightarrow> \<not> py_space (last (rstrip s))"
  by (metis hd_dropWhile last_rev rev_is_Nil_conv rstrip_def)

lemma rstrip_hd: "s \<noteq> [] \<Longrightarrow> \<not> py_space (hd s) \<Longrightarrow> rstrip s \<noteq> [] \<and> hd (rstrip s) = hd s"
proof (induction s rule: rev_induct)
  case (snoc x xs)
  show ?case
  proof (cases "py_space x")
    case True
    with snoc show ?thesis by (cases xs) (auto simp: rstrip_def)
  next
    case False
    then show ?thesis by (simp add: rstrip_def)
  qed
qed simp

lemma strip_ends: "strip s \<noteq> [] \<Longrightarrow> \<not> py_space (hd (strip s)) \<and> \<not> py_space (last (strip s))"
proof -
  assume ne: "strip s \<noteq> []"
  then have "lstrip s \<noteq> []" by (auto simp: strip_def rstrip_def)
  then have "\<not> py_space (hd (lstrip s))" by (simp add: lstrip_def hd_dropWhile)
  with \<open>lstrip s \<noteq> []\<close> ne show ?thesis
    using rstrip_hd [of "lstrip s"] rstrip_last [of "lstrip s"] by (simp add: strip_def)
qed

lemma strip_strip [simp]: "strip (strip s) = strip s"
  using strip_ends [of s] by (intro strip_id) auto

lemma strip_eq_self_iff:
  "strip s = s \<longleftrightarrow> s = [] \<or> \<not> py_space (hd s) \<and> \<not> py_space (last s)"
  by (metis strip_ends strip_id)

section \<open>Decimal numerals\<close>

definition digit :: "nat \<Rightarrow> char" where
  "digit d = char_of (48 + d)"

fun show_nat :: "nat \<Rightarrow> string" where
  "show_nat n = (if n < 10 then [digit n] else show_nat (n div 10) @ [digit (n mod 10)])"

declare show_nat.simps [simp del]

definition show_int :: "int \<Rightarrow> string" where
  "show_int i = (if i < 0 then CHR ''-'' # show_nat (nat (- i)) else show_nat (nat i))"

definition read_nat :: "string \<Rightarrow> nat" where
  "read_nat s = foldl (\<lambda>a c. 10 * a + (ord_of c - 48)) 0 s"

lemma ord_of_digit: "d < 10 \<Longrightarrow> ord_of (digit d) = 48 + d"
  by (simp add: ord_of_def digit_def of_char_of)

lemma is_digit_digit: "d < 10 \<Longrightarrow> is_digit (digit d)"
  by (simp add: is_digit_def ord_of_digit)

lemma show_nat_digits: "c \<in> set (show_nat n) \<Longrightarrow> is_digit c"
proof (induction n rule: show_nat.induct)
  case (1 n)
  then show ?case by (subst (asm) show_nat.simps) (auto split: if_splits simp: is_digit_digit)
qed

lemma show_nat_nonempty [simp]: "show_nat n \<noteq> []"
  by (subst show_nat.simps) simp

lemma read_show_nat [simp]: "read_nat (show_nat n) = n"
proof (induction n rule: show_nat.induct)
  case (1 n)
  then show ?case
    by (subst show_nat.simps) (auto simp: read_nat_def ord_of_digit)
qed

lemma show_nat_inj: "show_nat m = show_nat n \<longleftrightarrow> m = n"
  by (metis read_show_nat)

lemma show_nat_small: "n < 10 \<Longrightarrow> show_nat n = [digit n]"
  by (subst show_nat.simps) simp

lemma hd_show_nat: "0 < n \<Longrightarrow> hd (show_nat n) \<noteq> CHR ''0''"
proof (induction n rule: show_nat.induct)
  case (1 n)
  show ?case
  proof (cases "n < 10")
    case True
    then have "ord_of (digit n) \<noteq> ord_of CHR ''0''"
      using "1.prems" by (simp add: ord_of_digit) (simp add: ord_of_def)
    then have "digit n \<noteq> CHR ''0''" by metis
    with True show ?thesis by (subst show_nat.simps) simp
  next
    case False
    with "1.IH" have "hd (show_nat (n div 10)) \<noteq> CHR ''0''" by simp
    with False show ?thesis by (subst show_nat.simps) simp
  qed
qed

end
