(* ===== verification/Json.thy ===== *)
theory Json
  imports PyStr
begin

text \<open>
  The part of Python's \<open>json\<close> module the event log uses: \<open>json.dumps\<close> with sorted keys and
  compact separators, and \<open>json.loads\<close> of the resulting ASCII bytes. A number with a fraction or an
  exponent (and \<open>NaN\<close>, \<open>Infinity\<close>) is kept as its lexeme, the text \<open>json.dumps\<close> writes for the
  float. The reader follows CPython's scanner, white space and error cases included; escapes for
  code points above 255 and raw bytes above 126 are outside the model (\<open>Unmodelled\<close>).
  The fuel of the reader is the length of its input; \<open>loads_dumps\<close> shows that it is enough.
\<close>

section \<open>Values\<close>

datatype json =
    JNull
  | JBool bool
  | JInt int
  | JFloat string
  | JStr string
  | JArr "json list"
  | JObj "(string \<times> json) list"

datatype json_error = JSONDecodeError | Unmodelled

section \<open>Writing\<close>

definition hex_digit :: "nat \<Rightarrow> char" where
  "hex_digit d = (if d < 10 then char_of (48 + d) else char_of (87 + d))"

definition esc_char :: "char \<Rightarrow> string" where
  "esc_char c =
     (if c = DQ then [BSL, DQ]
      else if c = BSL then [BSL, BSL]
      else if c = LF then [BSL, CHR ''n'']
      else if c = CR then [BSL, CHR ''r'']
      else if c = CHR 0x09 then [BSL, CHR ''t'']
      else if c = CHR 0x0C then [BSL, CHR ''f'']
      else if c = CHR 0x08 then [BSL, CHR ''b'']
      else if 32 \<le> ord_of c \<and> ord_of c \<le> 126 then [c]
      else [BSL, CHR ''u'', CHR ''0'', CHR ''0'', hex_digit (ord_of c div 16), hex_digit (ord_of c mod 16)])"

definition dump_str :: "string \<Rightarrow> string" where
  "dump_str s = DQ # concat (map esc_char s) @ [DQ]"

text \<open>\<open>sort_keys=True\<close>, \<open>separators=(",", ":")\<close>.\<close>

primrec dumps :: "json \<Rightarrow> string" where
  "dumps JNull = ''null''"
| "dumps (JBool b) = (if b then ''true'' else ''false'')"
| "dumps (JInt i) = show_int i"
| "dumps (JFloat l) = l"
| "dumps (JStr s) = dump_str s"
| "dumps (JArr xs) = CHR ''['' # join '','' (map dumps xs) @ '']''"
| "dumps (JObj kvs) = CHR ''{'' # join '',''
     (map (\<lambda>(k, t). dump_str k @ CHR '':'' # t) (sort_key fst (map (map_prod id dumps) kvs))) @ ''}''"

section \<open>Reading\<close>

definition json_ws :: "char \<Rightarrow> bool" where
  "json_ws c \<longleftrightarrow> c = SP \<or> c = CHR 0x09 \<or> c = LF \<or> c = CR"

definition skip_ws :: "string \<Rightarrow> string" where
  "skip_ws = dropWhile json_ws"

definition hex_val :: "char \<Rightarrow> nat option" where
  "hex_val c =
     (if is_digit c then Some (ord_of c - 48)
      else if 97 \<le> ord_of c \<and> ord_of c \<le> 102 then Some (ord_of c - 87)
      else if 65 \<le> ord_of c \<and> ord_of c \<le> 70 then Some (ord_of c - 55)
      else None)"

text \<open>The four digits of a \<open>\\u\<close> escape.\<close>

definition read_u :: "string \<Rightarrow> json_error + (char \<times> string)" where
  "read_u s = (case s of
     a # b # c # d # r \<Rightarrow>
       (case (hex_val a, hex_val b, hex_val c, hex_val d) of
          (Some x, Some y, Some z, Some w) \<Rightarrow>
            if x = 0 \<and> y = 0 then Inr (char_of (16 * z + w), r) else Inl Unmodelled
        | _ \<Rightarrow> Inl JSONDecodeError)
   | _ \<Rightarrow> Inl JSONDecodeError)"

definition simple_escape :: "char \<Rightarrow> char option" where
  "simple_escape c =
     (if c = DQ then Some DQ
      else if c = BSL then Some BSL
      else if c = CHR ''/'' then Some (CHR ''/'')
      else if c = CHR ''b'' then Some (CHR 0x08)
      else if c = CHR ''f'' then Some (CHR 0x0C)
      else if c = CHR ''n'' then Some LF
      else if c = CHR ''r'' then Some CR
      else if c = CHR ''t'' then Some (CHR 0x09)
      else None)"

text \<open>The rest of a string after its opening quote; control characters are refused.\<close>

function read_str :: "string \<Rightarrow> json_error + (string \<times> string)" where
  "read_str [] = Inl JSONDecodeError"
| "read_str (c # cs) =
     (if c = DQ then Inr ([], cs)
      else if c = BSL then
        (case cs of
           [] \<Rightarrow> Inl JSONDecodeError
         | e # r \<Rightarrow>
             if e = CHR ''u'' then
               rbind (read_u r) (\<lambda>(ch, _). rbind (read_str (drop 4 r)) (\<lambda>(t, r'). Inr (ch # t, r')))
             else
               (case simple_escape e of
                  None \<Rightarrow> Inl JSONDecodeError
                | Some ch \<Rightarrow> rbind (read_str r) (\<lambda>(t, r'). Inr (ch # t, r'))))
      else if ord_of c < 32 then Inl JSONDecodeError
      else rbind (read_str cs) (\<lambda>(t, r'). Inr (c # t, r')))"
  by pat_completeness auto
termination
  by (relation "measure length") auto

text \<open>
  Numbers: an optional sign, \<open>0\<close> or a digit sequence without leading zero, an optional
  fraction, an optional exponent; an incomplete fraction or exponent is not part of the number.
\<close>

definition scan_frac :: "string \<Rightarrow> string \<times> string" where
  "scan_frac s = (case s of
     c # r \<Rightarrow> if c = CHR ''.'' \<and> takeWhile is_digit r \<noteq> []
              then (c # takeWhile is_digit r, dropWhile is_digit r) else ([], s)
   | [] \<Rightarrow> ([], s))"

definition scan_exp :: "string \<Rightarrow> string \<times> string" where
  "scan_exp s = (case s of
     c # r \<Rightarrow>
       if c = CHR ''e'' \<or> c = CHR ''E'' then
         (let sg = (if r \<noteq> [] \<and> (hd r = CHR ''+'' \<or> hd r = CHR ''-'') then [hd r] else []);
              r' = drop (length sg) r
          in if takeWhile is_digit r' \<noteq> []
             then (c # sg @ takeWhile is_digit r', dropWhile is_digit r') else ([], s))
       else ([], s)
   | [] \<Rightarrow> ([], s))"

definition scan_int :: "string \<Rightarrow> (string \<times> string) option" where
  "scan_int s = (case s of
     c # r \<Rightarrow> if c = CHR ''0'' then Some ([c], r)
              else if is_digit c then Some (takeWhile is_digit s, dropWhile is_digit s)
              else None
   | [] \<Rightarrow> None)"

definition read_number :: "string \<Rightarrow> (json \<times> string) option" where
  "read_number s =
     (let neg = (s \<noteq> [] \<and> hd s = CHR ''-''); s' = (if neg then tl s else s)
      in case scan_int s' of
           None \<Rightarrow> None
         | Some (ds, r) \<Rightarrow>
             let (fr, r1) = scan_frac r; (ex, r2) = scan_exp r1
             in if fr = [] \<and> ex = []
                then Some (JInt (if neg then - int (read_nat ds) else int (read_nat ds)), r)
                else Some (JFloat ((if neg then [CHR ''-''] else []) @ ds @ fr @ ex), r2))"

definition keyword_val :: "string \<Rightarrow> (json \<times> string) option" where
  "keyword_val s =
     (if starts_with ''null'' s then Some (JNull, drop 4 s)
      else if starts_with ''true'' s then Some (JBool True, drop 4 s)
      else if starts_with ''false'' s then Some (JBool False, drop 5 s)
      else if starts_with ''NaN'' s then Some (JFloat ''NaN'', drop 3 s)
      else if starts_with ''Infinity'' s then Some (JFloat ''Infinity'', drop 8 s)
      else if starts_with ''-Infinity'' s then Some (JFloat ''-Infinity'', drop 9 s)
      else None)"

definition expect :: "char \<Rightarrow> string \<Rightarrow> json_error + string" where
  "expect c s = (case s of d # r \<Rightarrow> if d = c then Inr r else Inl JSONDecodeError | [] \<Rightarrow> Inl JSONDecodeError)"

fun read_value :: "nat \<Rightarrow> string \<Rightarrow> json_error + (json \<times> string)"
and read_elems :: "nat \<Rightarrow> string \<Rightarrow> json_error + (json list \<times> string)"
and read_members :: "nat \<Rightarrow> string \<Rightarrow> json_error + ((string \<times> json) list \<times> string)" where
  "read_value 0 s = Inl JSONDecodeError"
| "read_value (Suc n) s =
     (case s of
        [] \<Rightarrow> Inl JSONDecodeError
      | c # r \<Rightarrow>
          if c = DQ then rbind (read_str r) (\<lambda>(t, r'). Inr (JStr t, r'))
          else if c = CHR ''{'' then
            (if skip_ws r \<noteq> [] \<and> hd (skip_ws r) = CHR ''}'' then Inr (JObj [], tl (skip_ws r))
             else rbind (read_members n (skip_ws r)) (\<lambda>(kvs, r'). Inr (JObj (dict_of kvs), r')))
          else if c = CHR ''['' then
            (if skip_ws r \<noteq> [] \<and> hd (skip_ws r) = CHR '']'' then Inr (JArr [], tl (skip_ws r))
             else rbind (read_elems n (skip_ws r)) (\<lambda>(xs, r'). Inr (JArr xs, r')))
          else
            (case read_number s of
               Some res \<Rightarrow> Inr res
             | None \<Rightarrow> (case keyword_val s of Some res \<Rightarrow> Inr res | None \<Rightarrow> Inl JSONDecodeError)))"
| "read_elems 0 s = Inl JSONDecodeError"
| "read_elems (Suc n) s =
     rbind (read_value n s) (\<lambda>(x, r).
       case skip_ws r of
         [] \<Rightarrow> Inl JSONDecodeError
       | c # r' \<Rightarrow>
           if c = CHR '']'' then Inr ([x], r')
           else if c = CHR '','' then
             rbind (read_elems n (skip_ws r')) (\<lambda>(xs, r''). Inr (x # xs, r''))
           else Inl JSONDecodeError)"
| "read_members 0 s = Inl JSONDecodeError"
| "read_members (Suc n) s =
     rbind (expect DQ s) (\<lambda>r0. rbind (read_str r0) (\<lambda>(k, r1).
     rbind (expect (CHR '':'') (skip_ws r1)) (\<lambda>r2. rbind (read_value n (skip_ws r2)) (\<lambda>(v, r).
       case skip_ws r of
         [] \<Rightarrow> Inl JSONDecodeError
       | c # r' \<Rightarrow>
           if c = CHR ''}'' then Inr ([(k, v)], r')
           else if c = CHR '','' then
             rbind (read_members n (skip_ws r')) (\<lambda>(kvs, r''). Inr ((k, v) # kvs, r''))
           else Inl JSONDecodeError))))"

text \<open>\<open>json.loads\<close> of a byte string: one value, white space around it, nothing else.\<close>

definition loads :: "string \<Rightarrow> json_error + json" where
  "loads s =
     (if \<exists>c \<in> set s. ord_of c = 0 \<or> 126 < ord_of c then Inl Unmodelled
      else rbind (read_value (length s) (skip_ws s))
        (\<lambda>(v, r). if skip_ws r = [] then Inr v else Inl JSONDecodeError))"

section \<open>What the writer writes, the reader reads\<close>

definition num_char :: "char \<Rightarrow> bool" where
  "num_char c \<longleftrightarrow> is_digit c \<or> c = CHR ''-'' \<or> c = CHR ''+'' \<or> c = CHR ''.'' \<or> c = CHR ''e'' \<or> c = CHR ''E''"

definition float_lexeme :: "string \<Rightarrow> bool" where
  "float_lexeme l \<longleftrightarrow>
     l = ''NaN'' \<or> l = ''Infinity'' \<or> l = ''-Infinity'' \<or>
     (\<forall>c \<in> set l. num_char c) \<and> read_number l = Some (JFloat l, [])"

text \<open>Values Python can hold: keys are distinct, floats are written as floats are.\<close>

primrec wf_json :: "json \<Rightarrow> bool" where
  "wf_json JNull = True"
| "wf_json (JBool b) = True"
| "wf_json (JInt i) = True"
| "wf_json (JFloat l) = float_lexeme l"
| "wf_json (JStr s) = True"
| "wf_json (JArr xs) = list_all id (map wf_json xs)"
| "wf_json (JObj kvs) = (distinct (keys kvs) \<and> list_all snd (map (map_prod id wf_json) kvs))"

text \<open>The value up to the order of keys, which \<open>sort_keys\<close> fixes.\<close>

primrec norm_json :: "json \<Rightarrow> json" where
  "norm_json JNull = JNull"
| "norm_json (JBool b) = JBool b"
| "norm_json (JInt i) = JInt i"
| "norm_json (JFloat l) = JFloat l"
| "norm_json (JStr s) = JStr s"
| "norm_json (JArr xs) = JArr (map norm_json xs)"
| "norm_json (JObj kvs) = JObj (sort_key fst (map (map_prod id norm_json) kvs))"

definition delim :: "string \<Rightarrow> bool" where
  "delim r \<longleftrightarrow> r = [] \<or> hd r = LF \<or> hd r = CHR '','' \<or> hd r = CHR '']'' \<or> hd r = CHR ''}''"

definition nonnum :: "string \<Rightarrow> bool" where
  "nonnum r \<longleftrightarrow> r = [] \<or> \<not> num_char (hd r)"

lemma delim_nonnum: "delim r \<Longrightarrow> nonnum r"
  by (auto simp: delim_def nonnum_def num_char_def is_digit_def ord_of_def)

lemma delim_simps [simp]:
  "delim []" "delim [LF]" "delim (CHR '','' # r)" "delim (CHR '']'' # r)" "delim (CHR ''}'' # r)"
  by (simp_all add: delim_def)

subsection \<open>Numbers\<close>

lemma nonnum_digits:
  assumes "nonnum r"
  shows "takeWhile is_digit (x @ r) = takeWhile is_digit x"
    and "dropWhile is_digit (x @ r) = dropWhile is_digit x @ r"
proof -
  have "r = [] \<or> \<not> is_digit (hd r)" using assms by (auto simp: nonnum_def num_char_def)
  then show "takeWhile is_digit (x @ r) = takeWhile is_digit x"
    and "dropWhile is_digit (x @ r) = dropWhile is_digit x @ r"
    by (induction x; cases r; simp)+
qed

lemma scan_int_append:
  assumes "nonnum r" and "s \<noteq> []"
  shows "scan_int (s @ r) = map_option (map_prod id (\<lambda>t. t @ r)) (scan_int s)"
proof -
  obtain c s' where s: "s = c # s'" using assms(2) by (cases s) auto
  then show ?thesis
    using nonnum_digits [OF assms(1), of s'] by (simp add: scan_int_def)
qed

lemma scan_frac_append:
  "nonnum r \<Longrightarrow> scan_frac (s @ r) = map_prod id (\<lambda>t. t @ r) (scan_frac s)"
proof (cases s)
  case Nil
  assume "nonnum r"
  with Nil show ?thesis by (cases r) (auto simp: scan_frac_def nonnum_def num_char_def)
next
  case (Cons c s')
  assume "nonnum r"
  with Cons show ?thesis using nonnum_digits [of r s'] by (simp add: scan_frac_def)
qed

lemma scan_exp_append:
  assumes "nonnum r"
  shows "scan_exp (s @ r) = map_prod id (\<lambda>t. t @ r) (scan_exp s)"
proof (cases s)
  case Nil
  with assms show ?thesis by (cases r) (auto simp: scan_exp_def nonnum_def num_char_def)
next
  case (Cons c s')
  show ?thesis
  proof (cases s')
    case Nil
    with Cons assms nonnum_digits [OF assms, of "[]"] show ?thesis
      by (cases r) (auto simp: scan_exp_def nonnum_def num_char_def Let_def)
  next
    case (Cons d s'')
    with \<open>s = c # s'\<close> show ?thesis
      using nonnum_digits [OF assms, of s''] nonnum_digits [OF assms, of s']
      by (simp add: scan_exp_def Let_def)
  qed
qed

lemma read_number_append:
  assumes "nonnum r" and "read_number s = Some (v, [])"
  shows "read_number (s @ r) = Some (v, r)"
proof -
  have s: "s \<noteq> []" using assms(2) by (auto simp: read_number_def scan_int_def)
  define neg where "neg \<longleftrightarrow> hd s = CHR ''-''"
  define s' where "s' = (if neg then tl s else s)"
  have app: "(if neg then tl (s @ r) else s @ r) = s' @ r" using s by (simp add: s'_def)
  obtain ds r0 where i: "scan_int s' = Some (ds, r0)"
    using assms(2) s by (fastforce simp: read_number_def s'_def neg_def Let_def split: option.splits)
  then have s'ne: "s' \<noteq> []" by (auto simp: scan_int_def)
  obtain fr r1 where f: "scan_frac r0 = (fr, r1)" by fastforce
  obtain ex r2 where e: "scan_exp r1 = (ex, r2)" by fastforce
  have "scan_int (s' @ r) = Some (ds, r0 @ r)" using scan_int_append [OF assms(1) s'ne] i by simp
  moreover have "scan_frac (r0 @ r) = (fr, r1 @ r)" using scan_frac_append [OF assms(1)] f by simp
  moreover have "scan_exp (r1 @ r) = (ex, r2 @ r)" using scan_exp_append [OF assms(1)] e by simp
  ultimately show ?thesis
    using assms(2) s i f e app
    by (auto simp: read_number_def Let_def neg_def [symmetric] s'_def [symmetric] split: if_splits)
qed

lemma scan_frac_Nil [simp]: "scan_frac [] = ([], [])"
  by (simp add: scan_frac_def)

lemma scan_exp_Nil [simp]: "scan_exp [] = ([], [])"
  by (simp add: scan_exp_def)

lemma scan_int_show_nat: "scan_int (show_nat n) = Some (show_nat n, [])"
proof (cases "n = 0")
  case True
  moreover have "digit 0 = CHR ''0''" by (simp add: digit_def char_of_eq_iff)
  ultimately show ?thesis by (simp add: show_nat_small scan_int_def)
next
  case False
  obtain c cs where s: "show_nat n = c # cs" by (cases "show_nat n") auto
  have "c \<noteq> CHR ''0''" using hd_show_nat [of n] False s by simp
  moreover have "takeWhile is_digit (show_nat n) = show_nat n"
    using show_nat_digits by (intro takeWhile_eq_all_conv [THEN iffD2]) auto
  moreover have "dropWhile is_digit (show_nat n) = []"
    using show_nat_digits by (intro dropWhile_eq_Nil_conv [THEN iffD2]) auto
  ultimately show ?thesis
    using s show_nat_digits [of c n] by (simp add: scan_int_def del: takeWhile.simps dropWhile.simps)
qed

lemma hd_show_nat_digit: "is_digit (hd (show_nat n))"
  using show_nat_digits [of "hd (show_nat n)" n] by simp

lemma digit_not_minus: "is_digit c \<Longrightarrow> c \<noteq> CHR ''-''"
  by (auto simp: is_digit_def ord_of_def)

lemma read_number_show_int: "read_number (show_int i) = Some (JInt i, [])"
proof (cases "i < 0")
  case True
  then show ?thesis by (simp add: show_int_def read_number_def scan_int_show_nat)
next
  case False
  then show ?thesis using hd_show_nat_digit [THEN digit_not_minus]
    by (simp add: show_int_def read_number_def scan_int_show_nat Let_def)
qed

subsection \<open>Strings\<close>

lemma hex_val_digit: "d < 16 \<Longrightarrow> hex_val (hex_digit d) = Some d"
  by (auto simp: hex_val_def hex_digit_def is_digit_def ord_of_def of_char_of)

lemma ord_of_less: "ord_of c < 256"
  by (simp add: ord_of_def)

lemma char_of_ord: "char_of (ord_of c) = c"
  by (simp add: ord_of_def)

declare read_str.simps [simp del]

lemma read_u_esc:
  "read_u (CHR ''0'' # CHR ''0'' # hex_digit (ord_of c div 16) # hex_digit (ord_of c mod 16) # r)
     = Inr (c, r)"
proof -
  have "ord_of c div 16 < 16" using ord_of_less [of c] by simp
  moreover have "hex_val CHR ''0'' = Some 0" by (simp add: hex_val_def is_digit_def ord_of_def)
  moreover have "ord_of c mod 16 < 16" by simp
  moreover have "16 * (ord_of c div 16) + ord_of c mod 16 = ord_of c" by simp
  ultimately show ?thesis by (simp add: read_u_def hex_val_digit char_of_ord)
qed

lemma read_str_esc:
  "read_str (esc_char c @ t) = rbind (read_str t) (\<lambda>(u, r). Inr (c # u, r))"
proof -
  consider "c \<in> {DQ, BSL, LF, CR, CHR 0x09, CHR 0x0C, CHR 0x08}"
    | "c \<notin> {DQ, BSL, LF, CR, CHR 0x09, CHR 0x0C, CHR 0x08}" "32 \<le> ord_of c \<and> ord_of c \<le> 126"
    | "c \<notin> {DQ, BSL, LF, CR, CHR 0x09, CHR 0x0C, CHR 0x08}" "\<not> (32 \<le> ord_of c \<and> ord_of c \<le> 126)"
    by blast
  then show ?thesis
  proof cases
    case 1
    then show ?thesis by (elim insertE) (simp_all add: esc_char_def read_str.simps simple_escape_def)
  next
    case 2
    then have "esc_char c = [c]" by (simp add: esc_char_def)
    with 2 show ?thesis by (simp add: read_str.simps)
  next
    case 3
    then have "esc_char c = [BSL, CHR ''u'', CHR ''0'', CHR ''0'',
        hex_digit (ord_of c div 16), hex_digit (ord_of c mod 16)]"
      unfolding esc_char_def by (auto simp del: hex_digit_def)
    then show ?thesis by (simp add: read_str.simps read_u_esc)
  qed
qed

lemma read_str_dump: "read_str (concat (map esc_char s) @ DQ # r) = Inr (s, r)"
  by (induction s) (simp_all add: read_str.simps(2) [of DQ] read_str_esc)

subsection \<open>Values\<close>

lemma skip_ws_id: "s = [] \<or> \<not> json_ws (hd s) \<Longrightarrow> skip_ws s = s"
  by (simp add: skip_ws_def dropWhile_id)

definition value_start :: "char \<Rightarrow> bool" where
  "value_start c \<longleftrightarrow> \<not> json_ws c \<and> c \<noteq> CHR '']'' \<and> c \<noteq> CHR ''}''"

lemma num_char_start: "num_char c \<Longrightarrow> value_start c \<and> c \<noteq> DQ \<and> c \<noteq> CHR ''{'' \<and> c \<noteq> CHR ''[''"
  by (auto simp: num_char_def value_start_def json_ws_def is_digit_def ord_of_def)

lemma show_int_hd: "num_char (hd (show_int i)) \<and> show_int i \<noteq> []"
  using hd_show_nat_digit by (auto simp: show_int_def num_char_def)

lemma read_number_ne: "read_number l = Some x \<Longrightarrow> l \<noteq> []"
  by (auto simp: read_number_def scan_int_def)

lemma float_lexeme_hd: "float_lexeme l \<Longrightarrow> l \<noteq> [] \<and> value_start (hd l)"
proof -
  assume l: "float_lexeme l"
  then consider "l = ''NaN'' \<or> l = ''Infinity'' \<or> l = ''-Infinity''"
    | "\<forall>c \<in> set l. num_char c" "read_number l = Some (JFloat l, [])"
    unfolding float_lexeme_def by blast
  then show ?thesis
  proof cases
    case 1
    then show ?thesis by (elim disjE) (simp_all add: value_start_def json_ws_def)
  next
    case 2
    then have "l \<noteq> []" using read_number_ne by blast
    with 2(1) show ?thesis by (simp add: num_char_start)
  qed
qed

lemma dumps_hd: "wf_json v \<Longrightarrow> dumps v \<noteq> [] \<and> value_start (hd (dumps v))"
  using float_lexeme_hd show_int_hd num_char_start
  by (cases v) (auto simp: dump_str_def value_start_def json_ws_def)

lemma read_value_number:
  "read_number s = Some (v, []) \<Longrightarrow> num_char (hd s) \<Longrightarrow> delim r \<Longrightarrow>
     read_value (Suc n) (s @ r) = Inr (v, r)"
  using read_number_append [of r s v] read_number_ne [of s] num_char_start [of "hd s"]
  by (cases s) (auto simp: delim_nonnum)

lemma read_value_float:
  assumes "float_lexeme l" and "delim r"
  shows "read_value (Suc n) (l @ r) = Inr (JFloat l, r)"
proof (cases "(\<forall>c \<in> set l. num_char c) \<and> read_number l = Some (JFloat l, [])")
  case True
  then have "num_char (hd l)" using read_number_ne [of l] by auto
  with True assms(2) show ?thesis by (intro read_value_number) auto
next
  case False
  with assms(1) have "l = ''NaN'' \<or> l = ''Infinity'' \<or> l = ''-Infinity''"
    by (simp add: float_lexeme_def)
  then show ?thesis
    by (elim disjE) (simp_all add: read_number_def scan_int_def is_digit_def ord_of_def
        keyword_val_def starts_with_def)
qed

definition member_text :: "string \<times> json \<Rightarrow> string" where
  "member_text kv = dump_str (fst kv) @ CHR '':'' # dumps (snd kv)"

lemma length_member_text: "length (member_text (k, v)) = Suc (length (dump_str k) + length (dumps v))"
  by (simp add: member_text_def)

lemma insort_key_map: "insort_key fst (map_prod id f x) (map (map_prod id f) xs)
    = map (map_prod id f) (insort_key fst x xs)"
  by (induction xs) (auto split: prod.splits)

lemma sort_key_map: "sort_key fst (map (map_prod id f) xs) = map (map_prod id f) (sort_key fst xs)"
  by (induction xs) (simp_all add: insort_key_map [unfolded id_def] id_def)

lemma dumps_JObj:
  "dumps (JObj kvs) = CHR ''{'' # join '','' (map member_text (sort_key fst kvs)) @ ''}''"
  by (simp add: sort_key_map member_text_def [abs_def] case_prod_beta' comp_def)

lemma norm_JObj: "norm_json (JObj kvs) = JObj (map (map_prod id norm_json) (sort_key fst kvs))"
  by (simp add: sort_key_map)

lemma join_Cons: "ys \<noteq> [] \<Longrightarrow> join sep (x # ys) = x @ sep @ join sep ys"
  by (cases ys) auto

lemma hd_join: "x \<noteq> [] \<Longrightarrow> hd (join sep (x # ys) @ r) = hd x"
  by (cases ys) auto

lemma join_ne: "x \<noteq> [] \<Longrightarrow> join sep (x # ys) \<noteq> []"
  by (cases ys) auto

definition reads_back :: "json \<Rightarrow> bool" where
  "reads_back v \<longleftrightarrow> (\<forall>n r. delim r \<longrightarrow> length (dumps v) \<le> n \<longrightarrow>
     read_value n (dumps v @ r) = Inr (norm_json v, r))"

lemma reads_backD:
  "reads_back v \<Longrightarrow> delim r \<Longrightarrow> length (dumps v) \<le> n \<Longrightarrow> read_value n (dumps v @ r) = Inr (norm_json v, r)"
  by (simp add: reads_back_def)

lemma skip_ws_delim: "skip_ws (CHR '','' # r) = CHR '','' # r" "skip_ws (CHR '']'' # r) = CHR '']'' # r"
    "skip_ws (CHR ''}'' # r) = CHR ''}'' # r" "skip_ws (CHR '':'' # r) = CHR '':'' # r"
  by (simp_all add: skip_ws_def json_ws_def)

lemma skip_ws_dumps: "wf_json v \<Longrightarrow> skip_ws (dumps v @ r) = dumps v @ r"
  using dumps_hd [of v] by (intro skip_ws_id) (auto simp: value_start_def)

lemma skip_ws_dump_str: "skip_ws (dump_str k @ r) = dump_str k @ r"
  by (simp add: dump_str_def skip_ws_def json_ws_def)

lemma skip_ws_elems:
  "xs \<noteq> [] \<Longrightarrow> wf_json (hd xs) \<Longrightarrow>
     skip_ws (join '','' (map dumps xs) @ r) = join '','' (map dumps xs) @ r"
proof (cases xs)
  case (Cons v vs)
  moreover assume "wf_json (hd xs)"
  ultimately show ?thesis
    using dumps_hd [of v] hd_join [of "dumps v" "'',''" "map dumps vs" r]
    by (intro skip_ws_id) (auto simp: value_start_def)
qed simp

lemma skip_ws_members:
  "kvs \<noteq> [] \<Longrightarrow> skip_ws (join '','' (map member_text kvs) @ r) = join '','' (map member_text kvs) @ r"
proof (cases kvs)
  case (Cons kv kvs')
  have "member_text kv \<noteq> []" "hd (member_text kv) = DQ"
    by (simp_all add: member_text_def dump_str_def)
  with Cons show ?thesis
    using hd_join [of "member_text kv" "'',''" "map member_text kvs'" r]
    by (intro skip_ws_id) (auto simp: json_ws_def)
qed simp

declare read_value.simps [simp del] read_elems.simps [simp del] read_members.simps [simp del]

lemma read_elems_join:
  "xs \<noteq> [] \<Longrightarrow> \<forall>v \<in> set xs. wf_json v \<and> reads_back v \<Longrightarrow>
   length (join '','' (map dumps xs)) < n \<Longrightarrow>
   read_elems n (join '','' (map dumps xs) @ CHR '']'' # r) = Inr (map norm_json xs, r)"
proof (induction xs arbitrary: n)
  case (Cons v vs)
  obtain m where n: "n = Suc m" using Cons.prems(3) by (cases n) auto
  have v: "reads_back v" using Cons.prems(2) by simp
  show ?case
  proof (cases "vs = []")
    case True
    with Cons.prems(3) n reads_backD [OF v, of "CHR '']'' # r" m] show ?thesis
      by (simp add: read_elems.simps skip_ws_delim)
  next
    case False
    let ?rest = "join '','' (map dumps vs) @ CHR '']'' # r"
    have len: "length (dumps v) \<le> m" "length (join '','' (map dumps vs)) < m"
      using Cons.prems(3) n False by (simp_all add: join_Cons)
    have "skip_ws ?rest = ?rest" using False Cons.prems(2) by (intro skip_ws_elems) auto
    moreover have "read_elems m ?rest = Inr (map norm_json vs, r)"
      using Cons.IH False Cons.prems(2) len(2) by simp
    moreover have "read_value m (dumps v @ CHR '','' # ?rest) = Inr (norm_json v, CHR '','' # ?rest)"
      using reads_backD [OF v _ len(1)] by simp
    ultimately show ?thesis
      using n False by (simp add: read_elems.simps join_Cons skip_ws_delim)
  qed
qed simp

lemma read_members_join:
  "kvs \<noteq> [] \<Longrightarrow> \<forall>kv \<in> set kvs. wf_json (snd kv) \<and> reads_back (snd kv) \<Longrightarrow>
   length (join '','' (map member_text kvs)) < n \<Longrightarrow>
   read_members n (join '','' (map member_text kvs) @ CHR ''}'' # r)
     = Inr (map (map_prod id norm_json) kvs, r)"
proof (induction kvs arbitrary: n)
  case (Cons kv kvs)
  obtain k v where kv: "kv = (k, v)" by (cases kv)
  obtain m where n: "n = Suc m" using Cons.prems(3) by (cases n) auto
  have v: "reads_back v" and wf: "wf_json v" using Cons.prems(2) kv by auto
  have key: "expect DQ (member_text kv @ t) = Inr (concat (map esc_char k) @ DQ # CHR '':'' # dumps v @ t)" for t
    by (simp add: expect_def kv member_text_def dump_str_def)
  have colon: "expect (CHR '':'') (CHR '':'' # t) = Inr t" for t
    by (simp add: expect_def)
  show ?case
  proof (cases "kvs = []")
    case True
    have "length (dumps v) \<le> m" using Cons.prems(3) n True kv by (simp add: member_text_def)
    then have "read_value m (dumps v @ CHR ''}'' # r) = Inr (norm_json v, CHR ''}'' # r)"
      using reads_backD [OF v] by simp
    with True n key [of "CHR ''}'' # r"] kv show ?thesis
      by (simp add: read_members.simps read_str_dump colon skip_ws_dumps [OF wf] skip_ws_delim)
  next
    case False
    let ?rest = "join '','' (map member_text kvs) @ CHR ''}'' # r"
    have len: "length (dumps v) \<le> m" "length (join '','' (map member_text kvs)) < m"
      using Cons.prems(3) n False kv by (simp_all add: join_Cons length_member_text)
    have "skip_ws ?rest = ?rest" using False by (intro skip_ws_members) auto
    moreover have "read_members m ?rest = Inr (map (map_prod id norm_json) kvs, r)"
      using Cons.IH False Cons.prems(2) len(2) by (simp add: id_def)
    moreover have "read_value m (dumps v @ CHR '','' # ?rest) = Inr (norm_json v, CHR '','' # ?rest)"
      using reads_backD [OF v _ len(1)] by simp
    ultimately show ?thesis
      using n False key [of "CHR '','' # ?rest"] kv
      by (simp add: read_members.simps join_Cons read_str_dump colon skip_ws_dumps [OF wf] skip_ws_delim id_def)
  qed
qed simp

lemma dump_str_reads: "read_value (Suc n) (dump_str s @ r) = Inr (JStr s, r)"
  by (simp add: read_value.simps dump_str_def read_str_dump)

lemma keyword_reads:
  "read_value (Suc n) (dumps JNull @ r) = Inr (JNull, r)"
  "read_value (Suc n) (dumps (JBool b) @ r) = Inr (JBool b, r)"
  by (simp_all add: read_value.simps read_number_def scan_int_def is_digit_def ord_of_def
      keyword_val_def starts_with_def)

lemma int_reads: "delim r \<Longrightarrow> read_value (Suc n) (dumps (JInt i) @ r) = Inr (JInt i, r)"
  using read_value_number [OF read_number_show_int] show_int_hd by simp

lemma reads_back_JArr:
  assumes "\<forall>v \<in> set xs. wf_json v \<and> reads_back v"
  shows "reads_back (JArr xs)"
  unfolding reads_back_def
proof (intro allI impI)
  fix n r assume n: "length (dumps (JArr xs)) \<le> n"
  then obtain m where m: "n = Suc m" by (cases n) auto
  show "read_value n (dumps (JArr xs) @ r) = Inr (norm_json (JArr xs), r)"
  proof (cases "xs = []")
    case True
    with m show ?thesis by (simp add: read_value.simps skip_ws_delim)
  next
    case False
    let ?s = "join '','' (map dumps xs) @ CHR '']'' # r"
    have ne: "wf_json (hd xs)" using False assms by simp
    have ws: "skip_ws ?s = ?s" using False ne by (rule skip_ws_elems)
    have "hd ?s = hd (dumps (hd xs))" and "?s \<noteq> []"
      using False dumps_hd [OF ne] hd_join [of "dumps (hd xs)" "'',''" "map dumps (tl xs)"]
      by (cases xs; simp)+
    then have "\<not> (?s \<noteq> [] \<and> hd ?s = CHR '']'')" using dumps_hd [OF ne] by (auto simp: value_start_def)
    moreover have "read_elems m ?s = Inr (map norm_json xs, r)"
      using False assms n m by (intro read_elems_join) auto
    ultimately show ?thesis using m ws by (simp add: read_value.simps)
  qed
qed

lemma reads_back_JObj:
  assumes "\<forall>kv \<in> set kvs. wf_json (snd kv) \<and> reads_back (snd kv)" and "distinct (keys kvs)"
  shows "reads_back (JObj kvs)"
  unfolding reads_back_def
proof (intro allI impI)
  fix n r assume n: "length (dumps (JObj kvs)) \<le> n"
  then obtain m where m: "n = Suc m" by (cases n) auto
  let ?kvs = "sort_key fst kvs"
  show "read_value n (dumps (JObj kvs) @ r) = Inr (norm_json (JObj kvs), r)"
  proof (cases "kvs = []")
    case True
    with m show ?thesis by (simp add: read_value.simps skip_ws_delim)
  next
    case False
    let ?s = "join '','' (map member_text ?kvs) @ CHR ''}'' # r"
    have ne: "?kvs \<noteq> []" using False by (metis set_empty set_sort)
    have ws: "skip_ws ?s = ?s" using ne by (rule skip_ws_members)
    obtain kv rest where sp: "?kvs = kv # rest" using ne by (cases ?kvs) auto
    have "member_text kv \<noteq> []" "hd (member_text kv) = DQ" by (simp_all add: member_text_def dump_str_def)
    then have "\<not> (?s \<noteq> [] \<and> hd ?s = CHR ''}'')"
      using hd_join [of "member_text kv" "'',''" "map member_text rest"] sp by simp
    moreover have "length (join '','' (map member_text ?kvs)) < m"
      using n m by (simp add: dumps_JObj del: dumps.simps)
    then have "read_members m ?s = Inr (map (map_prod id norm_json) ?kvs, r)"
      using ne assms(1) by (intro read_members_join) auto
    moreover have "distinct (keys ?kvs)"
      using assms(2) by (metis distinct_map distinct_sort set_sort)
    then have "dict_of (map (map_prod id norm_json) ?kvs) = map (map_prod id norm_json) ?kvs"
      by (intro dict_of_distinct) simp
    ultimately show ?thesis using m ws
      by (simp add: read_value.simps dumps_JObj norm_JObj del: dumps.simps norm_json.simps)
  qed
qed

lemma wf_JArr: "wf_json (JArr xs) \<longleftrightarrow> (\<forall>v \<in> set xs. wf_json v)"
  by (auto simp: list_all_iff)

lemma wf_JObj: "wf_json (JObj kvs) \<longleftrightarrow> distinct (keys kvs) \<and> (\<forall>kv \<in> set kvs. wf_json (snd kv))"
  by (auto simp: list_all_iff)

declare wf_json.simps(6,7) [simp del] wf_JArr [simp] wf_JObj [simp]

lemma wf_reads_back: "wf_json v \<Longrightarrow> reads_back v"
proof (induction v)
  case JNull
  show ?case unfolding reads_back_def
    by (metis Suc_le_D keyword_reads(1) length_greater_0_conv less_eq_Suc_le list.size(3)
        dumps.simps(1) norm_json.simps(1) list.distinct(1) le_trans)
next
  case (JBool b)
  show ?case unfolding reads_back_def
  proof (intro allI impI)
    fix n r assume "length (dumps (JBool b)) \<le> n"
    then obtain m where "n = Suc m" by (cases n) (auto split: if_splits)
    then show "read_value n (dumps (JBool b) @ r) = Inr (norm_json (JBool b), r)"
      by (simp only: keyword_reads norm_json.simps)
  qed
next
  case (JInt i)
  show ?case unfolding reads_back_def
  proof (intro allI impI)
    fix n r assume "delim r" "length (dumps (JInt i)) \<le> n"
    then obtain m where "n = Suc m" using show_int_hd [of i] by (cases n) auto
    with \<open>delim r\<close> show "read_value n (dumps (JInt i) @ r) = Inr (norm_json (JInt i), r)"
      by (simp only: int_reads norm_json.simps)
  qed
next
  case (JFloat l)
  show ?case unfolding reads_back_def
  proof (intro allI impI)
    fix n r assume "delim r" "length (dumps (JFloat l)) \<le> n"
    then obtain m where "n = Suc m" using JFloat float_lexeme_hd [of l] by (cases n) auto
    with \<open>delim r\<close> JFloat show "read_value n (dumps (JFloat l) @ r) = Inr (norm_json (JFloat l), r)"
      by (simp add: read_value_float)
  qed
next
  case (JStr s)
  show ?case unfolding reads_back_def
  proof (intro allI impI)
    fix n r assume "length (dumps (JStr s)) \<le> n"
    then obtain m where "n = Suc m" by (cases n) (auto simp: dump_str_def)
    then show "read_value n (dumps (JStr s) @ r) = Inr (norm_json (JStr s), r)"
      by (simp add: dump_str_reads)
  qed
next
  case (JArr xs)
  then show ?case by (intro reads_back_JArr) (auto simp: wf_JArr)
next
  case (JObj kvs)
  have "\<forall>kv \<in> set kvs. wf_json (snd kv) \<and> reads_back (snd kv)"
    using JObj.IH JObj.prems by (force simp: wf_JObj)
  then show ?case using JObj.prems by (intro reads_back_JObj) (auto simp: wf_JObj)
qed

text \<open>The bytes written are printable ASCII, so a line holds no line feed.\<close>

definition printable :: "char \<Rightarrow> bool" where
  "printable c \<longleftrightarrow> 32 \<le> ord_of c \<and> ord_of c \<le> 126"

lemma printable_esc: "x \<in> set (esc_char c) \<Longrightarrow> printable x"
proof -
  have h: "d < 16 \<Longrightarrow> printable (hex_digit d)" for d
    by (auto simp: printable_def hex_digit_def ord_of_def of_char_of)
  have "ord_of c div 16 < 16" "ord_of c mod 16 < 16" using ord_of_less [of c] by simp_all
  then have "printable (hex_digit (ord_of c div 16))" "printable (hex_digit (ord_of c mod 16))"
    using h by blast+
  then show "x \<in> set (esc_char c) \<Longrightarrow> printable x"
    by (auto simp: esc_char_def printable_def ord_of_def split: if_splits)
qed

lemma printable_dump_str: "x \<in> set (dump_str s) \<Longrightarrow> printable x"
  using printable_esc by (auto simp: dump_str_def) (auto simp: printable_def ord_of_def)

lemma set_join: "set (join sep xs) \<subseteq> set sep \<union> \<Union> (set ` set xs)"
  by (induction sep xs rule: join.induct) auto

lemma printable_num: "num_char c \<Longrightarrow> printable c"
  by (auto simp: num_char_def printable_def is_digit_def ord_of_def)

lemma show_int_num: "c \<in> set (show_int i) \<Longrightarrow> num_char c"
  using show_nat_digits by (auto simp: show_int_def num_char_def split: if_splits)

lemma printable_float: "float_lexeme l \<Longrightarrow> c \<in> set l \<Longrightarrow> printable c"
  unfolding float_lexeme_def using printable_num [of c]
  by (elim disjE conjE) (simp_all add: printable_def, (auto simp: ord_of_def)+)

lemma printable_dumps: "wf_json v \<Longrightarrow> c \<in> set (dumps v) \<Longrightarrow> printable c"
proof (induction v arbitrary: c)
  case (JArr xs)
  have "c \<in> {CHR '','', CHR ''['', CHR '']''} \<or> (\<exists>v \<in> set xs. c \<in> set (dumps v))"
    using JArr.prems(2) set_join [of "'',''" "map dumps xs"] by auto
  then show ?case
  proof (elim disjE bexE)
    assume "c \<in> {CHR '','', CHR ''['', CHR '']''}"
    then show ?thesis by (auto simp: printable_def ord_of_def)
  next
    fix v assume "v \<in> set xs" "c \<in> set (dumps v)"
    then show ?thesis using JArr.IH JArr.prems(1) by simp
  qed
next
  case (JObj kvs)
  have "set (join '','' (map member_text (sort_key fst kvs)))
      \<subseteq> {CHR '',''} \<union> (\<Union>kv \<in> set kvs. set (member_text kv))"
    using set_join [of "'',''" "map member_text (sort_key fst kvs)"] by auto
  then have "c \<in> {CHR '','', CHR ''{'', CHR ''}''} \<or> (\<exists>kv \<in> set kvs. c \<in> set (member_text kv))"
    using JObj.prems(2) by (auto simp: dumps_JObj simp del: dumps.simps)
  then show ?case
  proof (elim disjE bexE)
    assume "c \<in> {CHR '','', CHR ''{'', CHR ''}''}"
    then show ?thesis by (auto simp: printable_def ord_of_def)
  next
    fix kv assume kv: "kv \<in> set kvs" and c: "c \<in> set (member_text kv)"
    from kv JObj.prems(1) have "wf_json (snd kv)" by (simp add: wf_JObj)
    then have "d \<in> set (dumps (snd kv)) \<Longrightarrow> printable d" for d
      using JObj.IH [of kv "snd kv" d] kv by (cases kv) simp
    with c printable_dump_str [of c "fst kv"] show ?thesis
      by (auto simp: member_text_def) (auto simp: printable_def ord_of_def)
  qed
qed (auto simp: printable_dump_str printable_float printable_num show_int_num
      split: if_splits, (auto simp: printable_def ord_of_def)?)

text \<open>The trailing line feed of an event line is white space to the reader.\<close>

lemma loads_dumps_ws:
  assumes wf: "wf_json v" and t: "t = [] \<or> t = [LF]"
  shows "loads (dumps v @ t) = Inr (norm_json v)"
proof -
  have "\<not> (\<exists>c \<in> set (dumps v @ t). ord_of c = 0 \<or> 126 < ord_of c)"
    using t by (auto simp: printable_def ord_of_def dest!: printable_dumps [OF wf])
  moreover have "skip_ws (dumps v @ t) = dumps v @ t" using wf by (rule skip_ws_dumps)
  moreover have "read_value (length (dumps v @ t)) (dumps v @ t) = Inr (norm_json v, t)"
    using reads_backD [OF wf_reads_back [OF wf], of t "length (dumps v @ t)"] t by auto
  moreover have "skip_ws t = []" using t by (auto simp: skip_ws_def json_ws_def)
  ultimately show ?thesis unfolding loads_def by simp
qed

theorem loads_dumps: "wf_json v \<Longrightarrow> loads (dumps v) = Inr (norm_json v)"
  using loads_dumps_ws [of v "[]"] by simp

lemma loads_dumps_LF: "wf_json v \<Longrightarrow> loads (dumps v @ [LF]) = Inr (norm_json v)"
  using loads_dumps_ws [of v "[LF]"] by simp

lemma norm_json_idem: "wf_json v \<Longrightarrow> norm_json (norm_json v) = norm_json v"
proof (induction v)
  case (JObj kvs)
  have e: "map (map_prod id norm_json) (map (map_prod id norm_json) (sort_key fst kvs))
      = map (map_prod id norm_json) (sort_key fst kvs)"
  proof -
    have "map_prod id norm_json (map_prod id norm_json kv) = map_prod id norm_json kv"
      if "kv \<in> set kvs" for kv
      using JObj.IH [of kv "snd kv"] JObj.prems that by (cases kv) auto
    then show ?thesis by simp
  qed
  have "norm_json (norm_json (JObj kvs))
      = JObj (map (map_prod id norm_json) (sort_key fst (map (map_prod id norm_json) (sort_key fst kvs))))"
    by (simp only: norm_JObj)
  also have "\<dots> = JObj (map (map_prod id norm_json) (map (map_prod id norm_json) (sort_key fst (sort_key fst kvs))))"
    by (simp only: sort_key_map)
  also have "sort_key fst (sort_key fst kvs) = sort_key fst kvs"
    by (rule sort_key_id_if_sorted) simp
  finally show ?case using e by (simp only: norm_JObj)
qed auto

lemma wf_norm_json: "wf_json v \<Longrightarrow> wf_json (norm_json v)"
proof (induction v)
  case (JObj kvs)
  have "distinct (keys (sort_key fst kvs))"
    using JObj.prems by (metis distinct_map distinct_sort set_sort wf_JObj)
  moreover have "wf_json (norm_json (snd kv))" if "kv \<in> set kvs" for kv
    using JObj.IH [of kv "snd kv"] JObj.prems that by (cases kv) auto
  ultimately show ?case by (simp add: norm_JObj del: norm_json.simps)
qed auto

lemma sort_key_idem: "sort_key f (sort_key f xs) = sort_key f xs"
  by (rule sort_key_id_if_sorted) simp

text \<open>Writing does not depend on the order of the keys.\<close>

lemma dumps_norm: "dumps (norm_json v) = dumps v"
proof (induction v)
  case (JArr xs)
  then show ?case by (simp add: comp_def cong: map_cong)
next
  case (JObj kvs)
  have "map (map_prod id dumps) (map (map_prod id norm_json) (sort_key fst kvs)) =
      map (map_prod id dumps) (sort_key fst kvs)"
    using JObj by (auto simp: prod_set_simps)
  then show ?case
    unfolding norm_JObj by (simp only: dumps.simps sort_key_map sort_key_idem)
qed simp_all

lemma dumps_norm_values: "dumps (JObj (map (map_prod id norm_json) kvs)) = dumps (JObj kvs)"
proof -
  have "map (map_prod id dumps) (map (map_prod id norm_json) kvs) = map (map_prod id dumps) kvs"
    by (auto simp: dumps_norm)
  then show ?thesis by (simp only: dumps.simps)
qed

end
