(* ===== verification/PyFloat.thy ===== *)
theory PyFloat
  imports Complex_Main Json
begin

text \<open>
  Python's \<open>float\<close> as the sources use it: the double a JSON lexeme denotes (correctly rounded,
  ties to even, with subnormals and overflow to infinity), comparison, and addition as one rounded
  exact addition. Finite doubles are rationals; the sign of zero is not kept.
\<close>

datatype pyfloat = Fin rat | PInf | NInf | NotANumber

fun bitlen :: "nat \<Rightarrow> nat" where
  "bitlen n = (if n = 0 then 0 else Suc (bitlen (n div 2)))"

declare bitlen.simps [simp del]

definition pow2 :: "int \<Rightarrow> rat" where
  "pow2 e = (if 0 \<le> e then 2 ^ nat e else 1 / 2 ^ nat (- e))"

text \<open>The largest \<open>e\<close> with \<open>2\<^sup>e \<le> r\<close>, for a positive \<open>r\<close>.\<close>

definition floor_log2 :: "rat \<Rightarrow> int" where
  "floor_log2 r = (let (p, q) = quotient_of r;
       e = int (bitlen (nat p)) - int (bitlen (nat q))
     in if pow2 e \<le> r then e else e - 1)"

definition round_half_even :: "rat \<Rightarrow> int" where
  "round_half_even r = (let n = \<lfloor>r\<rfloor>; d = r - of_int n
     in if d < 1 / 2 then n else if 1 / 2 < d then n + 1 else if even n then n else n + 1)"

definition round_double :: "rat \<Rightarrow> pyfloat" where
  "round_double r =
     (if r = 0 then Fin 0
      else let a = \<bar>r\<bar>; u = max (floor_log2 a - 52) (- 1074);
               v = of_int (round_half_even (a / pow2 u)) * pow2 u
           in if 2 ^ 1024 \<le> v then (if 0 < r then PInf else NInf)
              else Fin (if 0 < r then v else - v))"

text \<open>The exact value of a numeric lexeme.\<close>

definition lexeme_rat :: "string \<Rightarrow> rat" where
  "lexeme_rat l =
     (let neg = (l \<noteq> [] \<and> hd l = CHR ''-''); l1 = (if neg then tl l else l);
          ip = takeWhile is_digit l1; l2 = dropWhile is_digit l1;
          fp = (if l2 \<noteq> [] \<and> hd l2 = CHR ''.'' then takeWhile is_digit (tl l2) else []);
          l3 = (if l2 \<noteq> [] \<and> hd l2 = CHR ''.'' then dropWhile is_digit (tl l2) else l2);
          ex = (if l3 = [] then 0
                else let s = tl l3 in
                  if s \<noteq> [] \<and> hd s = CHR ''-'' then - int (read_nat (tl s))
                  else if s \<noteq> [] \<and> hd s = CHR ''+'' then int (read_nat (tl s))
                  else int (read_nat s));
          m = of_nat (read_nat (ip @ fp));
          sc = ex - int (length fp);
          v = (if 0 \<le> sc then m * 10 ^ nat sc else m / 10 ^ nat (- sc))
      in if neg then - v else v)"

definition float_of_lexeme :: "string \<Rightarrow> pyfloat" where
  "float_of_lexeme l =
     (if l = ''NaN'' then NotANumber
      else if l = ''Infinity'' then PInf
      else if l = ''-Infinity'' then NInf
      else round_double (lexeme_rat l))"

text \<open>\<open>float(i)\<close>; an integer too large raises, which is \<open>None\<close>.\<close>

definition float_of_int :: "int \<Rightarrow> pyfloat option" where
  "float_of_int i = (case round_double (of_int i) of Fin r \<Rightarrow> Some (Fin r) | _ \<Rightarrow> None)"

fun float_add :: "pyfloat \<Rightarrow> pyfloat \<Rightarrow> pyfloat" where
  "float_add (Fin a) (Fin b) = round_double (a + b)"
| "float_add NotANumber y = NotANumber"
| "float_add x NotANumber = NotANumber"
| "float_add PInf NInf = NotANumber"
| "float_add NInf PInf = NotANumber"
| "float_add PInf y = PInf"
| "float_add NInf y = NInf"
| "float_add x PInf = PInf"
| "float_add x NInf = NInf"

text \<open>\<open>x \<le> y\<close>; every comparison with NaN is false.\<close>

fun float_le :: "pyfloat \<Rightarrow> pyfloat \<Rightarrow> bool" where
  "float_le NotANumber y = False"
| "float_le x NotANumber = False"
| "float_le NInf y = True"
| "float_le x PInf = True"
| "float_le PInf y = False"
| "float_le x NInf = False"
| "float_le (Fin a) (Fin b) = (a \<le> b)"

definition is_finite_float :: "pyfloat \<Rightarrow> bool" where
  "is_finite_float x = (case x of Fin _ \<Rightarrow> True | _ \<Rightarrow> False)"

text \<open>
  \<open>v == 1\<close> for a JSON value: \<open>True\<close> and \<open>1.0\<close> equal \<open>1\<close> in Python.
\<close>

definition py_eq_one :: "json \<Rightarrow> bool" where
  "py_eq_one v = (case v of
     JInt i \<Rightarrow> i = 1 | JBool b \<Rightarrow> b | JFloat l \<Rightarrow> float_of_lexeme l = Fin 1 | _ \<Rightarrow> False)"

end
