(* ===== verification/Schema.thy ===== *)
theory Schema
  imports PyFloat
begin

text \<open>
  \<open>src/runtime/events/schema.py\<close>: the event vocabulary, the intent/fact classification, the
  pairing of intents with the facts that resolve them, the envelope, and its line format.
  \<open>issue_id\<close>, \<open>execution_id\<close>, \<open>run_id\<close> and \<open>ts\<close> hold whatever JSON value the line had, as
  \<open>from_line\<close> does not check them.
\<close>

section \<open>Vocabulary\<close>

datatype kind = INTENT | FACT

datatype event_type =
    ISSUE_CREATED
  | ISSUE_ACTIVATED
  | EXECUTION_SPAWNED
  | EXECUTION_CONTAINMENT_PREPARED
  | EXECUTION_CONTAINMENT_ESTABLISHED
  | EXECUTION_TERMINATION_UNCONFIRMED
  | EXECUTION_CONTAINMENT_RELEASED
  | EXECUTION_FINISHED
  | EXECUTION_CRASHED
  | VALIDATION_PASSED
  | VALIDATION_FAILED
  | REVIEW_APPROVED
  | REVIEW_REJECTED
  | COMMIT_INTENT
  | COMMIT_CREATED
  | ISSUE_COMPLETED
  | ISSUE_ESCALATED
  | HUMAN_INTERVENTION
  | GUIDELINE_PROMOTED
  | RUN_STARTED
  | RUN_FINISHED

definition all_event_types :: "event_type list" where
  "all_event_types =
     [ISSUE_CREATED, ISSUE_ACTIVATED, EXECUTION_SPAWNED, EXECUTION_CONTAINMENT_PREPARED,
      EXECUTION_CONTAINMENT_ESTABLISHED, EXECUTION_TERMINATION_UNCONFIRMED,
      EXECUTION_CONTAINMENT_RELEASED, EXECUTION_FINISHED, EXECUTION_CRASHED, VALIDATION_PASSED,
      VALIDATION_FAILED, REVIEW_APPROVED, REVIEW_REJECTED, COMMIT_INTENT, COMMIT_CREATED,
      ISSUE_COMPLETED, ISSUE_ESCALATED, HUMAN_INTERVENTION, GUIDELINE_PROMOTED, RUN_STARTED,
      RUN_FINISHED]"

fun type_value :: "event_type \<Rightarrow> string" where
  "type_value ISSUE_CREATED = ''IssueCreated''"
| "type_value ISSUE_ACTIVATED = ''IssueActivated''"
| "type_value EXECUTION_SPAWNED = ''ExecutionSpawned''"
| "type_value EXECUTION_CONTAINMENT_PREPARED = ''ExecutionContainmentPrepared''"
| "type_value EXECUTION_CONTAINMENT_ESTABLISHED = ''ExecutionContainmentEstablished''"
| "type_value EXECUTION_TERMINATION_UNCONFIRMED = ''ExecutionTerminationUnconfirmed''"
| "type_value EXECUTION_CONTAINMENT_RELEASED = ''ExecutionContainmentReleased''"
| "type_value EXECUTION_FINISHED = ''ExecutionFinished''"
| "type_value EXECUTION_CRASHED = ''ExecutionCrashed''"
| "type_value VALIDATION_PASSED = ''ValidationPassed''"
| "type_value VALIDATION_FAILED = ''ValidationFailed''"
| "type_value REVIEW_APPROVED = ''ReviewApproved''"
| "type_value REVIEW_REJECTED = ''ReviewRejected''"
| "type_value COMMIT_INTENT = ''CommitIntent''"
| "type_value COMMIT_CREATED = ''CommitCreated''"
| "type_value ISSUE_COMPLETED = ''IssueCompleted''"
| "type_value ISSUE_ESCALATED = ''IssueEscalated''"
| "type_value HUMAN_INTERVENTION = ''HumanIntervention''"
| "type_value GUIDELINE_PROMOTED = ''GuidelinePromoted''"
| "type_value RUN_STARTED = ''RunStarted''"
| "type_value RUN_FINISHED = ''RunFinished''"

text \<open>\<open>EventType(v)\<close>: the member with that value; any other value raises.\<close>

definition type_of_value :: "json \<Rightarrow> event_type option" where
  "type_of_value v = (case v of
     JStr s \<Rightarrow> List.find (\<lambda>t. type_value t = s) all_event_types | _ \<Rightarrow> None)"

definition KIND_OF :: "event_type \<Rightarrow> kind" where
  "KIND_OF t = (if t \<in> {EXECUTION_SPAWNED, EXECUTION_CONTAINMENT_PREPARED, COMMIT_INTENT, RUN_STARTED}
     then INTENT else FACT)"

definition RESOLUTION_OF :: "event_type \<rightharpoonup> event_type set" where
  "RESOLUTION_OF =
     [EXECUTION_SPAWNED \<mapsto> {EXECUTION_FINISHED, EXECUTION_CRASHED},
      EXECUTION_CONTAINMENT_PREPARED \<mapsto>
        {EXECUTION_CONTAINMENT_ESTABLISHED, EXECUTION_CONTAINMENT_RELEASED},
      COMMIT_INTENT \<mapsto> {COMMIT_CREATED}]"

section \<open>The envelope\<close>

type_synonym payload = "(string \<times> json) list"

record event =
  etype :: event_type
  payload :: payload
  issue_id :: json
  execution_id :: json
  run_id :: json
  ts :: json
  event_id :: int
  schema_version :: int

text \<open>What \<open>from_line\<close> can raise: the checked refusals, and Python's own errors.\<close>

datatype schema_reason =
    Unparseable
  | UnknownType
  | UnsupportedSchemaVersion
  | InvalidEventId
  | PayloadNotObject

datatype line_error =
    SchemaError schema_reason
  | LineKeyError
  | LineTypeError
  | LineUnmodelled

definition event_obj :: "event \<Rightarrow> json" where
  "event_obj e = JObj
     [(''event_id'', JInt (event_id e)),
      (''schema_version'', JInt (schema_version e)),
      (''ts'', ts e),
      (''run_id'', run_id e),
      (''type'', JStr (type_value (etype e))),
      (''issue_id'', issue_id e),
      (''execution_id'', execution_id e),
      (''payload'', JObj (payload e))]"

definition to_line :: "event \<Rightarrow> string" where
  "to_line e = dumps (event_obj e) @ [LF]"

text \<open>\<open>obj.get(k)\<close>.\<close>

definition jget :: "payload \<Rightarrow> string \<Rightarrow> json" where
  "jget obj k = (case map_of obj k of None \<Rightarrow> JNull | Some v \<Rightarrow> v)"

text \<open>\<open>isinstance(v, int)\<close> with its value; a Python \<open>bool\<close> is an \<open>int\<close>.\<close>

definition int_value :: "json \<Rightarrow> int option" where
  "int_value v = (case v of JInt i \<Rightarrow> Some i | JBool b \<Rightarrow> Some (if b then 1 else 0) | _ \<Rightarrow> None)"

definition event_of_obj :: "payload \<Rightarrow> line_error + event" where
  "event_of_obj obj =
     (case map_of obj ''type'' of None \<Rightarrow> Inl (SchemaError UnknownType) | Some tv \<Rightarrow>
     (case type_of_value tv of None \<Rightarrow> Inl (SchemaError UnknownType) | Some t \<Rightarrow>
      if \<not> py_eq_one (jget obj ''schema_version'') then Inl (SchemaError UnsupportedSchemaVersion)
      else (case int_value (jget obj ''event_id'') of None \<Rightarrow> Inl (SchemaError InvalidEventId) | Some eid \<Rightarrow>
      if eid < 1 then Inl (SchemaError InvalidEventId)
      else (case jget obj ''payload'' of
        JObj p \<Rightarrow>
          (case map_of obj ''ts'' of None \<Rightarrow> Inl LineKeyError | Some tsv \<Rightarrow>
           Inr \<lparr>etype = t, payload = p, issue_id = jget obj ''issue_id'',
                execution_id = jget obj ''execution_id'', run_id = jget obj ''run_id'',
                ts = tsv, event_id = eid, schema_version = 1\<rparr>)
      | _ \<Rightarrow> Inl (SchemaError PayloadNotObject)))))"

definition from_line :: "string \<Rightarrow> line_error + event" where
  "from_line raw = (case loads raw of
     Inl JSONDecodeError \<Rightarrow> Inl (SchemaError Unparseable)
   | Inl Unmodelled \<Rightarrow> Inl LineUnmodelled
   | Inr (JObj obj) \<Rightarrow> event_of_obj obj
   | Inr _ \<Rightarrow> Inl LineTypeError)"

section \<open>Facts\<close>

lemma find_type_value: "List.find (\<lambda>u. type_value u = type_value t) all_event_types = Some t"
  by (cases t) (simp_all add: all_event_types_def)

lemma type_of_value_inverse [simp]: "type_of_value (JStr (type_value t)) = Some t"
  by (simp add: type_of_value_def find_type_value)

lemma type_value_inj: "type_value s = type_value t \<longleftrightarrow> s = t"
  by (metis option.inject type_of_value_inverse)

lemma all_event_types_complete: "t \<in> set all_event_types"
  by (cases t) (simp_all add: all_event_types_def)

text \<open>An event whose fields Python can hold, with the schema version the code writes.\<close>

definition wf_event :: "event \<Rightarrow> bool" where
  "wf_event e \<longleftrightarrow> 1 \<le> event_id e \<and> schema_version e = 1 \<and> wf_json (JObj (payload e)) \<and>
     wf_json (issue_id e) \<and> wf_json (execution_id e) \<and> wf_json (run_id e) \<and> wf_json (ts e)"

fun obj_of :: "json \<Rightarrow> payload" where
  "obj_of (JObj kvs) = kvs"
| "obj_of _ = []"

text \<open>The event with the keys of its payload sorted, as the line stores it.\<close>

definition norm_event :: "event \<Rightarrow> event" where
  "norm_event e = e\<lparr>payload := obj_of (norm_json (JObj (payload e))),
     issue_id := norm_json (issue_id e), execution_id := norm_json (execution_id e),
     run_id := norm_json (run_id e), ts := norm_json (ts e)\<rparr>"

lemma map_of_sort_key: "distinct (keys kvs) \<Longrightarrow> map_of (sort_key fst kvs) = map_of kvs"
proof -
  assume d: "distinct (keys kvs)"
  then have "distinct (keys (sort_key fst kvs))"
    by (metis distinct_map distinct_sort set_sort)
  with d show ?thesis by (simp add: map_of_inject_set)
qed

lemma wf_event_obj: "wf_event e \<Longrightarrow> wf_json (event_obj e)"
  by (simp add: event_obj_def wf_event_def)

lemma norm_event_obj:
  "\<exists>kvs. norm_json (event_obj e) = JObj kvs \<and>
     map_of kvs = map_of
      [(''event_id'', JInt (event_id e)), (''schema_version'', JInt (schema_version e)),
       (''ts'', norm_json (ts e)), (''run_id'', norm_json (run_id e)),
       (''type'', JStr (type_value (etype e))), (''issue_id'', norm_json (issue_id e)),
       (''execution_id'', norm_json (execution_id e)), (''payload'', norm_json (JObj (payload e)))]"
proof -
  let ?kvs = "map (map_prod id norm_json)
    [(''event_id'', JInt (event_id e)), (''schema_version'', JInt (schema_version e)),
     (''ts'', ts e), (''run_id'', run_id e), (''type'', JStr (type_value (etype e))),
     (''issue_id'', issue_id e), (''execution_id'', execution_id e), (''payload'', JObj (payload e))]"
  have "norm_json (event_obj e) = JObj (sort_key fst ?kvs)" by (simp only: event_obj_def norm_json.simps)
  moreover have "map_of (sort_key fst ?kvs) = map_of ?kvs" by (rule map_of_sort_key) simp
  ultimately show ?thesis by simp
qed

lemma from_line_to_line:
  assumes "wf_event e"
  shows "from_line (to_line e) = Inr (norm_event e)"
proof -
  have ok: "loads (to_line e) = Inr (norm_json (event_obj e))"
    unfolding to_line_def using assms by (simp add: loads_dumps_LF wf_event_obj)
  obtain kvs where n: "norm_json (event_obj e) = JObj kvs" and
    m: "map_of kvs = map_of
      [(''event_id'', JInt (event_id e)), (''schema_version'', JInt (schema_version e)),
       (''ts'', norm_json (ts e)), (''run_id'', norm_json (run_id e)),
       (''type'', JStr (type_value (etype e))), (''issue_id'', norm_json (issue_id e)),
       (''execution_id'', norm_json (execution_id e)), (''payload'', norm_json (JObj (payload e)))]"
    using norm_event_obj by blast
  have "event_of_obj kvs = Inr (norm_event e)"
    using assms unfolding event_of_obj_def jget_def m
    by (simp add: wf_event_def int_value_def py_eq_one_def norm_event_def)
  with ok n show ?thesis by (simp add: from_line_def)
qed

lemma LF_notin_dumps: "wf_json v \<Longrightarrow> LF \<notin> set (dumps v)"
  using printable_dumps [of v LF] by (auto simp: printable_def ord_of_def)

lemma to_line_shape: "wf_event e \<Longrightarrow> \<exists>l. to_line e = l @ [LF] \<and> LF \<notin> set l"
  unfolding to_line_def using LF_notin_dumps [OF wf_event_obj] by blast

lemma from_line_event: "from_line l = Inr e \<Longrightarrow> 1 \<le> event_id e \<and> schema_version e = 1"
  by (auto simp: from_line_def event_of_obj_def split: sum.splits json.splits json_error.splits
      option.splits if_splits)

lemma norm_JObj_obj: "JObj (obj_of (norm_json (JObj kvs))) = norm_json (JObj kvs)"
  unfolding norm_JObj by simp

text \<open>Normalising an event does not change its line.\<close>

lemma to_line_norm: "to_line (norm_event e) = to_line e"
proof -
  have "event_obj (norm_event e) = JObj (map (map_prod id norm_json) (obj_of (event_obj e)))"
    by (simp add: event_obj_def norm_event_def norm_JObj_obj del: norm_json.simps(7))
  then have "dumps (event_obj (norm_event e)) = dumps (JObj (obj_of (event_obj e)))"
    by (simp only: dumps_norm_values)
  then show ?thesis by (simp add: to_line_def event_obj_def)
qed

end
