(* ===== verification/EventLog.thy ===== *)
theory EventLog
  imports Schema
begin

text \<open>
  \<open>src/runtime/events/log.py\<close>: the append-only event log over the bytes of its file, the writer
  lease that guards it, torn-tail repair, and the two replay loops. A file is the list of its bytes
  (\<open>None\<close> if it does not exist); a crash during \<open>append\<close> leaves any prefix of the line it was
  writing. The mutex API of Windows is a parameter: the results its calls return.
\<close>

section \<open>Errors\<close>

datatype corruption = BadLine schema_reason | IdGap int int | TornSurvivedRepair

datatype log_error =
    CorruptionError corruption
  | IncompleteLogError
  | LineRaised line_error
  | LogFileNotFound
  | WriterClosed
  | EventLogUnavailable string
  | LeaseRuntimeError string

section \<open>The writer lease\<close>

datatype wait_result = WAIT_OBJECT_0 | WAIT_ABANDONED | WAIT_TIMEOUT | WAIT_FAILED

text \<open>What the mutex API answers during one acquisition.\<close>

record mutex_api =
  api_available :: bool
  create_mutex :: "nat option"
  clear_inherit :: bool
  is_inheritable :: "bool option"
  wait_zero :: wait_result

text \<open>Process-wide state: the names of held writers, and the mutex handles not yet closed.\<close>

record lease_world =
  held_names :: "string list"
  open_handles :: "nat list"

record writer_lease =
  lease_name :: string
  lease_handle :: nat
  lease_owner :: nat
  lease_closed :: bool

definition lease_acquire ::
  "string \<Rightarrow> mutex_api \<Rightarrow> nat \<Rightarrow> lease_world \<Rightarrow> (log_error + writer_lease) \<times> lease_world" where
  "lease_acquire name api thread w =
     (if name \<in> set (held_names w)
      then (Inl (EventLogUnavailable ''event log writer already owned by this process''), w)
      else if \<not> api_available api
      then (Inl (EventLogUnavailable ''event log writer mutex unavailable''), w)
      else case create_mutex api of
        None \<Rightarrow> (Inl (EventLogUnavailable ''CreateMutexW failed''), w)
      | Some h \<Rightarrow>
          let w1 = w\<lparr>open_handles := h # open_handles w\<rparr>;
              closed = w1\<lparr>open_handles := remove1 h (open_handles w1)\<rparr>
          in if \<not> clear_inherit api \<or> is_inheritable api \<noteq> Some False
             then (Inl (EventLogUnavailable ''event log writer mutex inheritance verification failed''), closed)
             else (case wait_zero api of
                 WAIT_TIMEOUT \<Rightarrow> (Inl (EventLogUnavailable ''event log writer already owned''), closed)
               | WAIT_FAILED \<Rightarrow> (Inl (EventLogUnavailable ''WaitForSingleObject failed''), closed)
               | _ \<Rightarrow> (Inr \<lparr>lease_name = name, lease_handle = h, lease_owner = thread, lease_closed = False\<rparr>,
                       w1\<lparr>held_names := name # held_names w1\<rparr>)))"

text \<open>
  \<open>close\<close>: \<open>release_ok\<close> and \<open>close_ok\<close> are what \<open>ReleaseMutex\<close> and \<open>CloseHandle\<close> return. The
  \<open>finally\<close> block runs whether or not the release raised; an error it raises replaces that one.
\<close>

definition lease_close ::
  "nat \<Rightarrow> bool \<Rightarrow> bool \<Rightarrow> writer_lease \<Rightarrow> lease_world \<Rightarrow> log_error option \<times> writer_lease \<times> lease_world" where
  "lease_close thread release_ok close_ok l w =
     (if lease_closed l then (None, l, w)
      else if lease_owner l \<noteq> thread
      then (Some (LeaseRuntimeError ''event log writer lease must be released by its owner thread''), l, w)
      else let l' = l\<lparr>lease_closed := True\<rparr>;
               w1 = w\<lparr>held_names := removeAll (lease_name l) (held_names w)\<rparr>
           in if \<not> close_ok then (Some (LeaseRuntimeError ''CloseHandle failed''), l', w1)
              else (if release_ok then None else Some (LeaseRuntimeError ''ReleaseMutex failed''), l',
                    w1\<lparr>open_handles := remove1 (lease_handle l) (open_handles w1)\<rparr>))"

section \<open>Lines\<close>

text \<open>Iterating a file opened in binary mode: lines keep their line feed.\<close>

function raw_lines :: "string \<Rightarrow> string list" where
  "raw_lines s =
     (if s = [] then []
      else let l = takeWhile (\<lambda>c. c \<noteq> LF) s; r = dropWhile (\<lambda>c. c \<noteq> LF) s
           in if r = [] then [l] else (l @ [LF]) # raw_lines (tl r))"
  by pat_completeness auto
termination
proof (relation "measure length", simp)
  fix s l r :: string
  assume r: "s \<noteq> []" "r = dropWhile (\<lambda>c. c \<noteq> LF) s" "r \<noteq> []"
  have "length r \<le> length s" unfolding r(2) by (rule length_dropWhile_le)
  moreover have "length (tl r) < length r" using \<open>r \<noteq> []\<close> by (cases r) auto
  ultimately have "length (tl r) < length s" by linarith
  then show "(tl r, s) \<in> measure length" by simp
qed

declare raw_lines.simps [simp del]

definition ends_with_LF :: "string \<Rightarrow> bool" where
  "ends_with_LF raw \<longleftrightarrow> raw \<noteq> [] \<and> last raw = LF"

section \<open>Replay\<close>

text \<open>
  A replay is a generator: the events yielded, and the exception that ended it, if any.
  \<open>replay_from True\<close> is the read-only replay, \<open>replay_from False\<close> stops silently at a torn line.
\<close>

fun replay_from :: "bool \<Rightarrow> int \<Rightarrow> string list \<Rightarrow> event list \<times> log_error option" where
  "replay_from incomplete_is_error expected [] = ([], None)"
| "replay_from incomplete_is_error expected (raw # rest) =
     (if \<not> ends_with_LF raw
      then ([], if incomplete_is_error then Some IncompleteLogError else None)
      else case from_line raw of
        Inl (SchemaError r) \<Rightarrow> ([], Some (CorruptionError (BadLine r)))
      | Inl e \<Rightarrow> ([], Some (LineRaised e))
      | Inr ev \<Rightarrow>
          if event_id ev \<noteq> expected
          then ([], Some (CorruptionError (IdGap expected (event_id ev))))
          else (let (evs, err) = replay_from incomplete_is_error (expected + 1) rest in (ev # evs, err)))"

definition replay_file :: "bool \<Rightarrow> string \<Rightarrow> event list \<times> log_error option" where
  "replay_file incomplete_is_error bytes = replay_from incomplete_is_error 1 (raw_lines bytes)"

text \<open>\<open>ReadOnlyEventLog\<close>: the constructor refuses a missing file, \<open>replay\<close> a torn tail.\<close>

definition read_only_replay :: "string option \<Rightarrow> event list \<times> log_error option" where
  "read_only_replay f = (case f of None \<Rightarrow> ([], Some LogFileNotFound) | Some b \<Rightarrow> replay_file True b)"

text \<open>\<open>EventLog.replay\<close> has its own copy of the loop.\<close>

fun log_replay_from :: "int \<Rightarrow> string list \<Rightarrow> event list \<times> log_error option" where
  "log_replay_from expected [] = ([], None)"
| "log_replay_from expected (raw # rest) =
     (if \<not> ends_with_LF raw then ([], None)
      else case from_line raw of
        Inl (SchemaError r) \<Rightarrow> ([], Some (CorruptionError (BadLine r)))
      | Inl e \<Rightarrow> ([], Some (LineRaised e))
      | Inr ev \<Rightarrow>
          if event_id ev \<noteq> expected
          then ([], Some (CorruptionError (IdGap expected (event_id ev))))
          else (let (evs, err) = log_replay_from (expected + 1) rest in (ev # evs, err)))"

section \<open>The writer\<close>

text \<open>The bytes up to and including the last line feed, and the torn bytes after it.\<close>

definition tail_start :: "string \<Rightarrow> nat" where
  "tail_start bytes = length bytes - length (takeWhile (\<lambda>c. c \<noteq> LF) (rev bytes))"

definition repair_torn_tail :: "string option \<Rightarrow> string option \<times> string option" where
  "repair_torn_tail f = (case f of
     None \<Rightarrow> (None, None)
   | Some b \<Rightarrow>
       if b = [] \<or> ends_with_LF b then (Some b, None)
       else (Some (take (tail_start b) b), Some (drop (tail_start b) b)))"

fun scan_from :: "int \<Rightarrow> int \<Rightarrow> string list \<Rightarrow> log_error + int" where
  "scan_from lastid expected [] = Inr lastid"
| "scan_from lastid expected (raw # rest) =
     (if \<not> ends_with_LF raw then Inl (CorruptionError TornSurvivedRepair)
      else case from_line raw of
        Inl (SchemaError r) \<Rightarrow> Inl (CorruptionError (BadLine r))
      | Inl e \<Rightarrow> Inl (LineRaised e)
      | Inr ev \<Rightarrow>
          if event_id ev \<noteq> expected then Inl (CorruptionError (IdGap expected (event_id ev)))
          else scan_from (event_id ev) (expected + 1) rest)"

definition scan_last_event_id :: "string option \<Rightarrow> log_error + int" where
  "scan_last_event_id f = (case f of None \<Rightarrow> Inr 0 | Some b \<Rightarrow> scan_from 0 1 (raw_lines b))"

record writer =
  w_bytes :: string
  w_last :: int
  w_closed :: bool

text \<open>
  \<open>EventLog.__init__\<close> once the lease is held: repair, scan, open for appending (which creates the
  file). The second component is the file after it, the third the sidecar with the torn bytes.
\<close>

definition open_owned :: "string option \<Rightarrow> (log_error + writer) \<times> string option \<times> string option" where
  "open_owned f =
     (let (f1, sidecar) = repair_torn_tail f
      in case scan_last_event_id f1 of
           Inl e \<Rightarrow> (Inl e, f1, sidecar)
         | Inr lastid \<Rightarrow>
             let b = (case f1 of None \<Rightarrow> [] | Some b \<Rightarrow> b)
             in (Inr \<lparr>w_bytes = b, w_last = lastid, w_closed = False\<rparr>, Some b, sidecar))"

text \<open>The whole constructor: the lease first, and released again if opening raises.\<close>

definition open_log ::
  "string \<Rightarrow> mutex_api \<Rightarrow> nat \<Rightarrow> bool \<Rightarrow> bool \<Rightarrow> string option \<Rightarrow> lease_world \<Rightarrow>
     (log_error + writer \<times> writer_lease) \<times> string option \<times> string option \<times> lease_world" where
  "open_log name api thread release_ok close_ok f world =
     (case lease_acquire name api thread world of
        (Inl e, world') \<Rightarrow> (Inl e, f, None, world')
      | (Inr l, world') \<Rightarrow>
          (case open_owned f of
             (Inr wr, f', sc) \<Rightarrow> (Inr (wr, l), f', sc, world')
           | (Inl e, f', sc) \<Rightarrow>
               (let (cerr, _, world'') = lease_close thread release_ok close_ok l world'
                in (Inl (case cerr of None \<Rightarrow> e | Some e' \<Rightarrow> e'), f', sc, world''))))"

definition stamp :: "event \<Rightarrow> int \<Rightarrow> event" where
  "stamp e eid = e\<lparr>event_id := eid, schema_version := 1\<rparr>"

definition append_event :: "event \<Rightarrow> writer \<Rightarrow> log_error + (int \<times> writer)" where
  "append_event e w =
     (if w_closed w then Inl WriterClosed
      else let eid = w_last w + 1
           in Inr (eid, w\<lparr>w_bytes := w_bytes w @ to_line (stamp e eid), w_last := eid\<rparr>))"

definition writer_replay :: "writer \<Rightarrow> event list \<times> log_error option" where
  "writer_replay w = log_replay_from 1 (raw_lines (w_bytes w))"

text \<open>\<open>EventLog.close\<close>: the file, then the lease, once.\<close>

definition close_log ::
  "nat \<Rightarrow> bool \<Rightarrow> bool \<Rightarrow> writer \<times> writer_lease \<Rightarrow> lease_world \<Rightarrow>
     log_error option \<times> (writer \<times> writer_lease) \<times> lease_world" where
  "close_log thread release_ok close_ok wl world =
     (if w_closed (fst wl) then (None, wl, world)
      else let (err, l', world') = lease_close thread release_ok close_ok (snd wl) world
           in (err, ((fst wl)\<lparr>w_closed := True\<rparr>, l'), world'))"

text \<open>A crash while the line of an append is being written: \<open>n\<close> of its bytes reached the disk.\<close>

definition crashed_append :: "event \<Rightarrow> nat \<Rightarrow> writer \<Rightarrow> string" where
  "crashed_append e n w = w_bytes w @ take n (to_line (stamp e (w_last w + 1)))"

section \<open>Framing\<close>

definition framed :: "string \<Rightarrow> bool" where
  "framed l \<longleftrightarrow> (\<exists>b. l = b @ [LF] \<and> LF \<notin> set b)"

lemma raw_lines_Nil [simp]: "raw_lines [] = []"
  by (subst raw_lines.simps) simp

lemma raw_lines_framed: "framed l \<Longrightarrow> raw_lines (l @ s) = l # raw_lines s"
proof -
  assume "framed l"
  then obtain b where l: "l = b @ [LF]" and b: "LF \<notin> set b" by (auto simp: framed_def)
  have b': "\<forall>c \<in> set b. c \<noteq> LF" using b by auto
  have "takeWhile (\<lambda>c. c \<noteq> LF) (l @ s) = b"
    using b' by (simp add: l)
  moreover have "dropWhile (\<lambda>c. c \<noteq> LF) (l @ s) = LF # s"
    using b' by (simp add: l)
  ultimately show ?thesis by (subst raw_lines.simps) (simp add: l)
qed

lemma raw_lines_torn: "t \<noteq> [] \<Longrightarrow> LF \<notin> set t \<Longrightarrow> raw_lines t = [t]"
proof -
  assume t: "t \<noteq> []" "LF \<notin> set t"
  then have "\<forall>c \<in> set t. c \<noteq> LF" by auto
  then have "takeWhile (\<lambda>c. c \<noteq> LF) t = t" "dropWhile (\<lambda>c. c \<noteq> LF) t = []" by simp_all
  with t show ?thesis by (subst raw_lines.simps) simp
qed

lemma raw_lines_concat: "\<forall>l \<in> set ls. framed l \<Longrightarrow> raw_lines (concat ls @ s) = ls @ raw_lines s"
  by (induction ls) (simp_all add: raw_lines_framed)

lemma framed_ends [simp]: "framed l \<Longrightarrow> ends_with_LF l"
  by (auto simp: framed_def ends_with_LF_def)

lemma concat_framed_ends: "\<forall>l \<in> set ls. framed l \<Longrightarrow> concat ls = [] \<or> ends_with_LF (concat ls)"
  by (induction ls rule: rev_induct) (auto simp: framed_def ends_with_LF_def)

lemma torn_no_end: "LF \<notin> set t \<Longrightarrow> t \<noteq> [] \<Longrightarrow> \<not> ends_with_LF (s @ t)"
  by (metis ends_with_LF_def last_appendR last_in_set)

lemma takeWhile_rev_torn:
  assumes "LF \<notin> set t" and "s = [] \<or> ends_with_LF s"
  shows "takeWhile (\<lambda>c. c \<noteq> LF) (rev (s @ t)) = rev t"
proof -
  have t: "\<forall>c \<in> set (rev t). c \<noteq> LF" using assms(1) by auto
  from assms(2) have "takeWhile (\<lambda>c. c \<noteq> LF) (rev s) = []"
    by (cases s rule: rev_cases) (auto simp: ends_with_LF_def)
  with t show ?thesis by (simp add: takeWhile_append)
qed

lemma repair_torn:
  assumes "LF \<notin> set t" and "t \<noteq> []" and "s = [] \<or> ends_with_LF s"
  shows "repair_torn_tail (Some (s @ t)) = (Some s, Some t)"
  using assms torn_no_end [OF assms(1,2), of s] takeWhile_rev_torn [OF assms(1,3)]
  by (simp add: repair_torn_tail_def tail_start_def)

lemma repair_whole: "s = [] \<or> ends_with_LF s \<Longrightarrow> repair_torn_tail (Some s) = (Some s, None)"
  by (auto simp: repair_torn_tail_def)

section \<open>A log the writer wrote\<close>

text \<open>Consecutive ids from \<open>k\<close>.\<close>

fun numbered :: "int \<Rightarrow> event list \<Rightarrow> bool" where
  "numbered k [] = True"
| "numbered k (e # es) = (event_id e = k \<and> numbered (k + 1) es)"

lemma numbered_append: "numbered k (xs @ ys) \<longleftrightarrow> numbered k xs \<and> numbered (k + int (length xs)) ys"
  by (induction k xs rule: numbered.induct) (auto simp: algebra_simps)

lemma numbered_nth: "numbered k es \<Longrightarrow> i < length es \<Longrightarrow> event_id (es ! i) = k + int i"
  by (induction k es arbitrary: i rule: numbered.induct) (auto simp: nth_Cons split: nat.splits)

text \<open>
  The bytes are the lines of well-formed events numbered from 1, and the writer knows how many.
  An event is canonical when its fields are in the form the line format stores (sorted keys).
\<close>

definition canonical :: "event \<Rightarrow> bool" where
  "canonical e \<longleftrightarrow> norm_event e = e"

definition good_event :: "event \<Rightarrow> bool" where
  "good_event e \<longleftrightarrow> wf_event (stamp e 1) \<and> canonical e"

definition holds_events :: "event list \<Rightarrow> writer \<Rightarrow> bool" where
  "holds_events es w \<longleftrightarrow>
     w_bytes w = concat (map to_line es) \<and> w_last w = int (length es) \<and> numbered 1 es \<and>
     (\<forall>e \<in> set es. wf_event e \<and> canonical e)"

lemma good_stamp: "good_event e \<Longrightarrow> 1 \<le> i \<Longrightarrow> wf_event (stamp e i) \<and> canonical (stamp e i)"
  by (cases e) (auto simp: good_event_def wf_event_def stamp_def canonical_def norm_event_def)

lemma to_line_framed: "wf_event e \<Longrightarrow> framed (to_line e)"
  using to_line_shape by (auto simp: framed_def)

lemma canonical_line: "wf_event e \<Longrightarrow> canonical e \<Longrightarrow> from_line (to_line e) = Inr e"
  by (simp add: from_line_to_line canonical_def)

lemma replay_from_lines:
  "numbered k es \<Longrightarrow> \<forall>e \<in> set es. wf_event e \<and> canonical e \<Longrightarrow>
   replay_from b k (map to_line es @ rest) =
     (es @ fst (replay_from b (k + int (length es)) rest), snd (replay_from b (k + int (length es)) rest))"
  by (induction es arbitrary: k)
    (auto simp: to_line_framed canonical_line Let_def case_prod_beta' algebra_simps)

lemma log_replay_eq: "log_replay_from k ls = replay_from False k ls"
  by (induction k ls rule: log_replay_from.induct)
    (auto split: sum.splits line_error.splits prod.splits)

lemma scan_from_lines:
  "numbered k es \<Longrightarrow> \<forall>e \<in> set es. wf_event e \<and> canonical e \<Longrightarrow>
   scan_from (k - 1) k (map to_line es) = Inr (k - 1 + int (length es))"
proof (induction es arbitrary: k)
  case (Cons e es)
  then show ?case using Cons.IH [of "k + 1"]
    by (simp add: to_line_framed canonical_line algebra_simps)
qed simp

lemma holds_lines:
  assumes "holds_events es w"
  shows "raw_lines (w_bytes w @ t) = map to_line es @ raw_lines t"
  using assms raw_lines_concat [of "map to_line es" t]
  by (auto simp: holds_events_def to_line_framed)

lemma holds_ends: "holds_events es w \<Longrightarrow> w_bytes w = [] \<or> ends_with_LF (w_bytes w)"
  using concat_framed_ends [of "map to_line es"] by (auto simp: holds_events_def to_line_framed)

lemma holds_replay: "holds_events es w \<Longrightarrow> replay_file b (w_bytes w) = (es, None)"
  using holds_lines [of es w "[]"] replay_from_lines [of 1 es b "[]"]
  by (simp add: replay_file_def holds_events_def)

lemma holds_writer_replay: "holds_events es w \<Longrightarrow> writer_replay w = (es, None)"
  using holds_replay [of es w False] by (simp add: writer_replay_def log_replay_eq replay_file_def)

lemma holds_scan: "holds_events es w \<Longrightarrow> scan_last_event_id (Some (w_bytes w)) = Inr (int (length es))"
  using holds_lines [of es w "[]"] scan_from_lines [of 1 es]
  by (simp add: scan_last_event_id_def holds_events_def)

lemma holds_append:
  assumes "holds_events es w" and "good_event e" and "\<not> w_closed w"
  shows "\<exists>w'. append_event e w = Inr (int (length es) + 1, w') \<and> \<not> w_closed w' \<and>
    holds_events (es @ [stamp e (int (length es) + 1)]) w'"
  using assms good_stamp [OF assms(2), of "int (length es) + 1"]
  by (auto simp: append_event_def holds_events_def Let_def numbered_append) (auto simp: stamp_def)

lemma holds_reopen:
  "holds_events es w \<Longrightarrow> \<exists>w'. open_owned (Some (w_bytes w)) = (Inr w', Some (w_bytes w), None) \<and>
     holds_events es w' \<and> \<not> w_closed w'"
  using repair_whole [OF holds_ends] holds_scan [of es w]
  by (auto simp: open_owned_def holds_events_def Let_def)

lemma holds_crash_torn:
  assumes "holds_events es w" and "good_event e" and "n < length (to_line (stamp e (w_last w + 1)))"
  shows "repair_torn_tail (Some (crashed_append e n w)) =
    (Some (w_bytes w), if n = 0 then None else Some (take n (to_line (stamp e (w_last w + 1)))))"
proof -
  let ?l = "to_line (stamp e (w_last w + 1))"
  have "framed ?l"
    using good_stamp [OF assms(2), of "w_last w + 1"] assms(1)
    by (auto simp: holds_events_def intro: to_line_framed)
  then obtain b where b: "?l = b @ [LF]" "LF \<notin> set b" by (auto simp: framed_def)
  then have "take n ?l = take n b" using assms(3) by simp
  with b(2) have t: "LF \<notin> set (take n ?l)" by (metis in_set_takeD)
  show ?thesis
  proof (cases "n = 0")
    case True
    then show ?thesis using repair_whole [OF holds_ends [OF assms(1)]] by (simp add: crashed_append_def)
  next
    case False
    then have "take n ?l \<noteq> []" using b by simp
    then show ?thesis using repair_torn [OF t _ holds_ends [OF assms(1)]] False
      by (simp add: crashed_append_def)
  qed
qed

section \<open>Properties of every file\<close>

lemma replay_from_numbered: "numbered k (fst (replay_from b k ls))"
  by (induction b k ls rule: replay_from.induct)
    (auto split: sum.splits line_error.splits prod.splits)

lemma replay_from_False_None_or_body:
  "snd (replay_from False k ls) \<noteq> Some IncompleteLogError"
  by (induction False k ls rule: replay_from.induct)
    (auto split: sum.splits line_error.splits prod.splits)

lemma replay_from_modes:
  "fst (replay_from True k ls) = fst (replay_from False k ls) \<and>
   (snd (replay_from True k ls) \<noteq> Some IncompleteLogError \<longrightarrow>
      snd (replay_from True k ls) = snd (replay_from False k ls))"
  by (induction False k ls rule: replay_from.induct)
    (auto split: sum.splits line_error.splits prod.splits)

lemma scan_from_replay:
  "scan_from (k - 1) k ls = Inr n \<longleftrightarrow>
     (\<exists>es. replay_from True k ls = (es, None) \<and> n = k - 1 + int (length es))"
proof (induction ls arbitrary: k)
  case (Cons raw ls)
  show ?case using Cons.IH [of "k + 1"]
    by (auto split: sum.splits line_error.splits prod.splits)
qed auto

section \<open>Properties of the lease\<close>

lemma lease_acquire_error: "lease_acquire name api thread w = (Inl e, w') \<Longrightarrow> w' = w"
  by (auto simp: lease_acquire_def Let_def split: if_splits option.splits wait_result.splits)

lemma lease_acquire_ok:
  "lease_acquire name api thread w = (Inr l, w') \<Longrightarrow>
     name \<notin> set (held_names w) \<and> held_names w' = name # held_names w \<and>
     open_handles w' = lease_handle l # open_handles w \<and> lease_name l = name \<and>
     lease_owner l = thread \<and> \<not> lease_closed l \<and> is_inheritable api = Some False \<and>
     (wait_zero api = WAIT_OBJECT_0 \<or> wait_zero api = WAIT_ABANDONED)"
  by (auto simp: lease_acquire_def Let_def split: if_splits option.splits wait_result.splits)

lemma removeAll_fresh: "x \<notin> set xs \<Longrightarrow> removeAll x (x # xs) = xs"
  by simp

section \<open>The interface the clients of the log use\<close>

text \<open>
  A store of events: \<open>emit\<close> appends durably and returns the id it assigned, \<open>contents\<close> is what a
  replay yields. Recovery and the orchestrator rely on nothing else.
\<close>

locale event_store =
  fixes contents :: "'w \<Rightarrow> event list"
    and emit :: "event \<Rightarrow> 'w \<Rightarrow> 'err + (int \<times> 'w)"
    and inv :: "'w \<Rightarrow> bool"
    and good :: "event \<Rightarrow> bool"
  assumes emit_ok: "inv w \<Longrightarrow> good e \<Longrightarrow>
      \<exists>w'. emit e w = Inr (int (length (contents w)) + 1, w') \<and> inv w' \<and>
        contents w' = contents w @ [stamp e (int (length (contents w)) + 1)]"
begin

text \<open>Emitting a list of events, in order.\<close>

fun emit_all :: "event list \<Rightarrow> 'w \<Rightarrow> 'err + 'w" where
  "emit_all [] w = Inr w"
| "emit_all (e # es) w = rbind (emit e w) (\<lambda>(_, w'). emit_all es w')"

lemma emit_all_contents:
  assumes "inv w" and "\<forall>e \<in> set es. good e"
  shows "\<exists>w' new. emit_all es w = Inr w' \<and> inv w' \<and> contents w' = contents w @ new \<and>
    map (\<lambda>e. stamp e 0) new = map (\<lambda>e. stamp e 0) es"
  using assms
proof (induction es arbitrary: w)
  case (Cons e es)
  obtain w1 where w1: "emit e w = Inr (int (length (contents w)) + 1, w1)" "inv w1"
    "contents w1 = contents w @ [stamp e (int (length (contents w)) + 1)]"
    using emit_ok [OF Cons.prems(1), of e] Cons.prems(2) by auto
  obtain w' new where "emit_all es w1 = Inr w'" "inv w'" "contents w' = contents w1 @ new"
    "map (\<lambda>e. stamp e 0) new = map (\<lambda>e. stamp e 0) es"
    using Cons.IH [OF w1(2)] Cons.prems(2) by auto
  with w1 show ?case
    by (intro exI [of _ w'] exI [of _ "stamp e (int (length (contents w)) + 1) # new"])
      (auto simp: stamp_def)
qed auto

text \<open>What was stored stays stored: the log only grows.\<close>

lemma emit_prefix:
  assumes "inv w" and "good e" and "emit e w = Inr (i, w')"
  shows "take (length (contents w)) (contents w') = contents w"
  using emit_ok [OF assms(1,2)] assms(3) by auto

end

definition writer_contents :: "writer \<Rightarrow> event list" where
  "writer_contents w = fst (writer_replay w)"

definition writer_ok :: "writer \<Rightarrow> bool" where
  "writer_ok w \<longleftrightarrow> \<not> w_closed w \<and> holds_events (writer_contents w) w"

lemma writer_okI: "holds_events es w \<Longrightarrow> \<not> w_closed w \<Longrightarrow> writer_ok w \<and> writer_contents w = es"
  by (simp add: writer_ok_def writer_contents_def holds_writer_replay)

interpretation file_store: event_store writer_contents append_event writer_ok good_event
proof unfold_locales
  fix w e assume w: "writer_ok w" and e: "good_event e"
  let ?i = "int (length (writer_contents w)) + 1"
  from w have "holds_events (writer_contents w) w" "\<not> w_closed w" by (simp_all add: writer_ok_def)
  from holds_append [OF this(1) e this(2)] obtain w' where
    "append_event e w = Inr (?i, w')" "\<not> w_closed w'"
    "holds_events (writer_contents w @ [stamp e ?i]) w'" by blast
  then show "\<exists>w'. append_event e w = Inr (?i, w') \<and> writer_ok w' \<and>
      writer_contents w' = writer_contents w @ [stamp e ?i]"
    using writer_okI by blast
qed

section \<open>Opening any file\<close>

lemma split_at_tail: "b = rev (dropWhile (\<lambda>c. c \<noteq> LF) (rev b)) @ rev (takeWhile (\<lambda>c. c \<noteq> LF) (rev b))"
  by (simp flip: rev_append)

lemma tail_start_rev: "tail_start b = length (rev (dropWhile (\<lambda>c. c \<noteq> LF) (rev b)))"
proof -
  have "length b = length (takeWhile (\<lambda>c. c \<noteq> LF) (rev b)) + length (dropWhile (\<lambda>c. c \<noteq> LF) (rev b))"
    by (metis length_append length_rev takeWhile_dropWhile_id)
  then show ?thesis by (simp add: tail_start_def)
qed

lemma rev_drop_tail: "drop (tail_start b) b = rev (takeWhile (\<lambda>c. c \<noteq> LF) (rev b))"
  unfolding tail_start_rev by (subst (2) split_at_tail) simp

lemma take_tail_start: "take (tail_start b) b = rev (dropWhile (\<lambda>c. c \<noteq> LF) (rev b))"
  unfolding tail_start_rev by (subst (2) split_at_tail) simp

lemma repaired_whole: "take (tail_start b) b = [] \<or> ends_with_LF (take (tail_start b) b)"
proof (cases "dropWhile (\<lambda>c. c \<noteq> LF) (rev b) = []")
  case False
  then have "hd (dropWhile (\<lambda>c. c \<noteq> LF) (rev b)) = LF" using hd_dropWhile by blast
  with False show ?thesis by (simp add: take_tail_start ends_with_LF_def last_rev)
qed (simp add: take_tail_start)

lemma torn_has_no_LF: "LF \<notin> set (drop (tail_start b) b)"
  by (auto simp: rev_drop_tail dest: set_takeWhileD)

text \<open>The sidecar gets the bytes of \<open>torn\<close>, which are those after the last line feed.\<close>

definition sidecar_of :: "string \<Rightarrow> string option" where
  "sidecar_of torn = (if torn = [] then None else Some torn)"

lemma repair_split:
  "\<exists>kept torn. b = kept @ torn \<and> repair_torn_tail (Some b) = (Some kept, sidecar_of torn) \<and>
     (kept = [] \<or> ends_with_LF kept) \<and> LF \<notin> set torn"
proof (cases "b = [] \<or> ends_with_LF b")
  case True
  then show ?thesis using repair_whole [of b]
    by (intro exI [of _ b] exI [of _ "[]"]) (auto simp: sidecar_of_def)
next
  case False
  let ?k = "take (tail_start b) b" and ?t = "drop (tail_start b) b"
  have "?t \<noteq> []" using False repaired_whole [of b] by (metis append.right_neutral append_take_drop_id)
  then show ?thesis using False repaired_whole torn_has_no_LF
    by (intro exI [of _ ?k] exI [of _ ?t]) (auto simp: repair_torn_tail_def sidecar_of_def)
qed

lemma scan_replay:
  "scan_last_event_id (Some b) = Inr n \<longleftrightarrow> (\<exists>es. replay_file True b = (es, None) \<and> n = int (length es))"
  using scan_from_replay [of 1 "raw_lines b" n] by (simp add: scan_last_event_id_def replay_file_def)

text \<open>The writer of a given log.\<close>

definition log_of :: "event list \<Rightarrow> writer" where
  "log_of es = \<lparr>w_bytes = concat (map to_line es), w_last = int (length es), w_closed = False\<rparr>"

definition storable :: "event list \<Rightarrow> bool" where
  "storable es \<longleftrightarrow> numbered 1 es \<and> list_all (\<lambda>e. wf_event e \<and> canonical e) es"

lemma log_of_ok: "storable es \<Longrightarrow> writer_ok (log_of es) \<and> writer_contents (log_of es) = es"
  by (rule writer_okI) (simp_all add: holds_events_def log_of_def storable_def list_all_iff)

lemma writer_ok_storable: "writer_ok w \<Longrightarrow> storable (writer_contents w)"
  by (simp add: writer_ok_def holds_events_def storable_def list_all_iff)

section \<open>Properties\<close>

text \<open>A well-formed event and an empty log, for the witnesses.\<close>

definition sample_note :: event where
  "sample_note = \<lparr>etype = HUMAN_INTERVENTION, payload = [(''note'', JStr [DQ, LF, CHR ''x''])],
     issue_id = JStr ''i1'', execution_id = JNull, run_id = JNull, ts = JStr ''2026-01-01T00:00:00Z'',
     event_id = 1, schema_version = 1\<rparr>"

definition empty_writer :: writer where
  "empty_writer = \<lparr>w_bytes = [], w_last = 0, w_closed = False\<rparr>"

lemma good_sample: "good_event sample_note"
  by (simp add: good_event_def sample_note_def stamp_def wf_event_def canonical_def norm_event_def)

lemma empty_writer_ok: "writer_ok empty_writer \<and> writer_contents empty_writer = []"
  by (rule writer_okI) (simp_all add: holds_events_def empty_writer_def)

text \<open>
  C18: a crash at any byte of an append loses nothing that was durable and invents nothing. Reopening
  truncates exactly the torn bytes into the sidecar, yields a writer with the same events, and
  every replay of the repaired file gives those events.
\<close>

theorem crashed_append_recovers:
  assumes "writer_ok w" and "good_event e" and "n < length (to_line (stamp e (w_last w + 1)))"
  shows "\<exists>w'. open_owned (Some (crashed_append e n w)) = (Inr w', Some (w_bytes w),
      sidecar_of (take n (to_line (stamp e (w_last w + 1))))) \<and>
    writer_ok w' \<and> writer_contents w' = writer_contents w \<and>
    replay_file b (w_bytes w') = (writer_contents w, None)"
proof -
  have h: "holds_events (writer_contents w) w" using assms(1) by (simp add: writer_ok_def)
  let ?t = "take n (to_line (stamp e (w_last w + 1)))"
  have "repair_torn_tail (Some (crashed_append e n w)) = (Some (w_bytes w), sidecar_of ?t)"
    using holds_crash_torn [OF h assms(2,3)] assms(3) by (auto simp: sidecar_of_def)
  then have "open_owned (Some (crashed_append e n w)) = (Inr \<lparr>w_bytes = w_bytes w,
      w_last = int (length (writer_contents w)), w_closed = False\<rparr>, Some (w_bytes w), sidecar_of ?t)"
    using holds_scan [OF h] by (simp add: open_owned_def Let_def)
  moreover have "holds_events (writer_contents w) \<lparr>w_bytes = w_bytes w,
      w_last = int (length (writer_contents w)), w_closed = False\<rparr>"
    using h by (simp add: holds_events_def)
  ultimately show ?thesis using writer_okI holds_replay by fastforce
qed

lemma crashed_append_recovers_witness:
  "\<exists>w'. open_owned (Some (crashed_append sample_note 9 empty_writer)) = (Inr w', Some [],
      sidecar_of (take 9 (to_line (stamp sample_note 1)))) \<and> writer_contents w' = []"
proof -
  have "9 < length (to_line (stamp sample_note (w_last empty_writer + 1)))" by code_simp
  from crashed_append_recovers [OF conjunct1 [OF empty_writer_ok] good_sample this]
  show ?thesis using empty_writer_ok by (auto simp: empty_writer_def)
qed

text \<open>
  C28: appends are durable and numbered. Appending well-formed events one after another succeeds; a
  reopened writer, the writer's own replay and the read-only replay all give the old events followed
  by the new ones, stamped with consecutive ids.
\<close>

theorem appended_events_replay:
  assumes "writer_ok w" and "\<forall>e \<in> set es. good_event e"
  shows "\<exists>w' w'' new. file_store.emit_all es w = Inr w' \<and>
    open_owned (Some (w_bytes w')) = (Inr w'', Some (w_bytes w'), None) \<and>
    writer_replay w'' = (writer_contents w @ new, None) \<and>
    read_only_replay (Some (w_bytes w')) = (writer_contents w @ new, None) \<and>
    map (\<lambda>e. stamp e 0) new = map (\<lambda>e. stamp e 0) es \<and>
    (\<forall>i < length new. event_id (new ! i) = int (length (writer_contents w) + i) + 1)"
proof -
  obtain w' new where w': "file_store.emit_all es w = Inr w'" "writer_ok w'"
    "writer_contents w' = writer_contents w @ new" "map (\<lambda>e. stamp e 0) new = map (\<lambda>e. stamp e 0) es"
    using file_store.emit_all_contents [OF assms] by blast
  have h: "holds_events (writer_contents w @ new) w'" using w'(2,3) by (simp add: writer_ok_def)
  obtain w'' where w'': "open_owned (Some (w_bytes w')) = (Inr w'', Some (w_bytes w'), None)"
    "holds_events (writer_contents w @ new) w''" using holds_reopen [OF h] by blast
  have "event_id (new ! i) = int (length (writer_contents w) + i) + 1" if "i < length new" for i
    using numbered_nth [of 1 "writer_contents w @ new" "length (writer_contents w) + i"] h that
    by (simp add: holds_events_def)
  then show ?thesis using w' w'' holds_writer_replay [OF w''(2)] holds_replay [OF h, of True]
    by (auto simp: read_only_replay_def)
qed

lemma appended_events_replay_witness:
  "\<exists>w'. file_store.emit_all [sample_note, sample_note] empty_writer = Inr w' \<and>
     read_only_replay (Some (w_bytes w')) = ([stamp sample_note 1, stamp sample_note 2], None)"
proof -
  obtain w' new where w: "file_store.emit_all [sample_note, sample_note] empty_writer = Inr w'"
    "read_only_replay (Some (w_bytes w')) = (new, None)"
    "map (\<lambda>e. stamp e 0) new = map (\<lambda>e. stamp e 0) [sample_note, sample_note]"
    "\<forall>i < length new. event_id (new ! i) = int i + 1"
    using appended_events_replay [OF conjunct1 [OF empty_writer_ok], of "[sample_note, sample_note]"]
      good_sample empty_writer_ok by auto
  then have "w_bytes w' = to_line (stamp sample_note 1) @ to_line (stamp sample_note 2)"
    by (auto simp: append_event_def empty_writer_def)
  then have "holds_events [stamp sample_note 1, stamp sample_note 2] w'"
    using w(1) good_stamp [OF good_sample]
    by (auto simp: holds_events_def append_event_def empty_writer_def) (auto simp: stamp_def)
  then show ?thesis using w(1) holds_replay by (auto simp: read_only_replay_def)
qed

text \<open>
  opening any existing file whatsoever never loses a byte: the kept file and the sidecar together
  are the file, the kept part is whole lines, and the sidecar has no line feed. The log opens exactly
  when the strict read-only replay of the kept part completes, and then continues its numbering.
\<close>

theorem open_any_file:
  "\<exists>kept torn. bytes = kept @ torn \<and> (kept = [] \<or> ends_with_LF kept) \<and> LF \<notin> set torn \<and>
     snd (open_owned (Some bytes)) = (Some kept, sidecar_of torn) \<and>
     (\<forall>w. fst (open_owned (Some bytes)) = Inr w \<longleftrightarrow>
        (\<exists>es. read_only_replay (Some kept) = (es, None) \<and>
              w = \<lparr>w_bytes = kept, w_last = int (length es), w_closed = False\<rparr>))"
proof -
  obtain kept torn where k: "bytes = kept @ torn" "kept = [] \<or> ends_with_LF kept" "LF \<notin> set torn"
    and r: "repair_torn_tail (Some bytes) = (Some kept, sidecar_of torn)"
    using repair_split [of bytes] by blast
  have "snd (open_owned (Some bytes)) = (Some kept, sidecar_of torn)"
    by (simp add: open_owned_def r split: sum.splits)
  moreover have "fst (open_owned (Some bytes)) = Inr w \<longleftrightarrow>
      (\<exists>n. scan_last_event_id (Some kept) = Inr n \<and> w = \<lparr>w_bytes = kept, w_last = n, w_closed = False\<rparr>)" for w
    by (auto simp: open_owned_def r split: sum.splits)
  ultimately show ?thesis using k scan_replay by (auto simp: read_only_replay_def)
qed

text \<open>
  whatever bytes a file has, the events a replay yields before it stops are numbered from 1
  without a gap, and the lenient and the strict replay yield the same ones.
\<close>

theorem replay_contiguous:
  assumes "i < length (fst (replay_file strict bytes))"
  shows "event_id (fst (replay_file strict bytes) ! i) = int i + 1 \<and>
    fst (replay_file strict bytes) = fst (replay_file (\<not> strict) bytes)"
  using assms numbered_nth [OF replay_from_numbered [of 1 strict "raw_lines bytes"], of i]
    replay_from_modes [of 1 "raw_lines bytes"]
  by (cases strict) (simp_all add: replay_file_def)

lemma replay_contiguous_witness:
  "event_id (fst (replay_file True (to_line (stamp sample_note 1))) ! 0) = 1"
proof -
  have "0 < length (fst (replay_file True (to_line (stamp sample_note 1))))" by code_simp
  from conjunct1 [OF replay_contiguous [OF this]] show ?thesis by (simp only: of_nat_0 add_0)
qed

text \<open>
  One writer. Opening a log whose writer name is held fails and leaves the file, the held names and
  the open handles as they are; and an opening that fails for any reason, its own handle having
  closed, leaves the process as it was, so that the log can be opened again.
\<close>

theorem open_log_exclusive:
  "(name \<in> set (held_names world) \<longrightarrow>
      open_log name api thread release_ok close_ok f world =
        (Inl (EventLogUnavailable ''event log writer already owned by this process''), f, None, world)) \<and>
   (\<forall>e f' sc world'. open_log name api thread release_ok True f world = (Inl e, f', sc, world') \<longrightarrow>
      world' = world) \<and>
   (\<forall>wr l f' sc world'. open_log name api thread release_ok close_ok f world = (Inr (wr, l), f', sc, world') \<longrightarrow>
      name \<notin> set (held_names world) \<and> name \<in> set (held_names world') \<and> \<not> w_closed wr \<and>
      snd (snd (close_log thread True True (wr, l) world')) = world)"
proof (intro conjI impI allI)
  fix e f' sc world'
  assume o: "open_log name api thread release_ok True f world = (Inl e, f', sc, world')"
  show "world' = world"
  proof (cases "lease_acquire name api thread world")
    case (Pair r world1)
    show ?thesis
    proof (cases r)
      case (Inl e')
      then show ?thesis using o lease_acquire_error Pair by (auto simp: open_log_def)
    next
      case (Inr l)
      with lease_acquire_ok [of name api thread world l world1] Pair o show ?thesis
        by (auto simp: open_log_def lease_close_def Let_def split: sum.splits prod.splits)
    qed
  qed
next
  fix wr l f' sc world'
  assume o: "open_log name api thread release_ok close_ok f world = (Inr (wr, l), f', sc, world')"
  then have a: "lease_acquire name api thread world = (Inr l, world')" and "\<exists>f' sc. open_owned f = (Inr wr, f', sc)"
    by (auto simp: open_log_def split: prod.splits sum.splits)
  then have c: "\<not> w_closed wr" by (auto simp: open_owned_def Let_def split: prod.splits sum.splits)
  show "name \<notin> set (held_names world)" "name \<in> set (held_names world')" "\<not> w_closed wr"
    using lease_acquire_ok [OF a] c by auto
  show "snd (snd (close_log thread True True (wr, l) world')) = world"
    using lease_acquire_ok [OF a] c by (auto simp: close_log_def lease_close_def Let_def)
qed (simp add: open_log_def lease_acquire_def)

definition sample_api :: mutex_api where
  "sample_api = \<lparr>api_available = True, create_mutex = Some 7, clear_inherit = True,
     is_inheritable = Some False, wait_zero = WAIT_OBJECT_0\<rparr>"

definition idle_world :: lease_world where
  "idle_world = \<lparr>held_names = [], open_handles = []\<rparr>"

lemma open_log_exclusive_witness:
  "\<exists>wr l f sc world. open_log ''n'' sample_api 1 True True None idle_world = (Inr (wr, l), f, sc, world) \<and>
     ''n'' \<in> set (held_names world) \<and> snd (snd (close_log 1 True True (wr, l) world)) = idle_world"
proof -
  have "is_ok (fst (open_log ''n'' sample_api 1 True True None idle_world))" by code_simp
  then obtain wr l f sc world where
    o: "open_log ''n'' sample_api 1 True True None idle_world = (Inr (wr, l), f, sc, world)"
    by (cases "open_log ''n'' sample_api 1 True True None idle_world") (auto simp: is_ok_iff)
  from open_log_exclusive [of "''n''" idle_world sample_api 1 True True None] o show ?thesis by blast
qed

text \<open>
  C33: the line format. A well-formed event is one line: its only line feed is the last byte, reading
  it back gives the event with sorted keys, and writing that again gives the same bytes.
\<close>

theorem event_line_round_trip:
  assumes "wf_event e"
  shows "\<exists>body. to_line e = body @ [LF] \<and> LF \<notin> set body \<and>
    (\<exists>e'. from_line (to_line e) = Inr e' \<and> e' = norm_event e \<and> to_line e' = to_line e)"
proof -
  have "to_line (norm_event e) = to_line e" by (rule to_line_norm)
  then show ?thesis using to_line_shape [OF assms] from_line_to_line [OF assms] by blast
qed

lemma event_line_round_trip_witness: "from_line (to_line (stamp sample_note 1)) = Inr (norm_event (stamp sample_note 1))"
  using event_line_round_trip [of "stamp sample_note 1"] good_stamp [OF good_sample, of 1] by auto

end
