(* ===== verification/Projection.thy ===== *)
theory Projection
  imports EventLog
begin

text \<open>
  \<open>src/runtime/events/projections.py\<close>: the strict replay engine. A projection is folded over the
  events; an event that is illegal raises \<open>TransitionError\<close>. The transition tables live in
  \<open>runtime/state\<close>, which is not part of the repository at this commit: they are the parameter
  \<open>tables\<close>, and \<open>doc03_tables\<close> says what docs/03 sections 1 and 2 document of them.
\<close>

section \<open>States and the tables parameter\<close>

datatype issue_state = PENDING | ACTIVE | DONE | NEEDS_HUMAN | NEEDS_DECOMPOSITION

datatype execution_state = SPAWNED | EXECUTING | VALIDATING | REVIEWING | ACCEPTED | REJECTED | CRASHED

datatype containment_state = PREPARED | ESTABLISHED | UNCONFIRMED | RELEASED

datatype reason =
    MissingAttr string | MissingPayload string | InvalidPayload string | EmptyPayload string
  | DuplicateIssueCreated | UnknownIssue | IllegalIssueTransition
  | DuplicateSpawn | SpawnInactiveIssue | SpawnWhileOpen
  | UnknownExecution | IssueMismatch | ContainmentIllegalState
  | DuplicatePrepared | UnreleasedGeneration | NoMatchingPrepared | WorkspaceMismatch
  | EstablishedIllegal | RootNotSuspended | InvalidJobWitness | NoRootMembership
  | UnconfirmedIllegal | DuplicateReleased
  | IllegalExecutionTransition | CommitIllegalState
  | DuplicateIntent | CreatedWithoutIntent | DuplicateCreated
  | UnexpectedKeys string | RunIdNotString | RunIdMalformed | RunIdBadCalendar
  | RunIssueNotNull | RunExecutionNotNull | UnknownPricing | BadDigest | UnknownOutcome | DetailNotNull

text \<open>Python's own errors escape as they are; \<open>ProjUnmodelled\<close> is an id that is not a string.\<close>

datatype proj_error = TransitionError reason | ProjTypeError | ProjOverflowError | ProjUnmodelled

record tables =
  ISSUE_TRANSITIONS :: "issue_state \<times> event_type \<Rightarrow> (payload \<Rightarrow> proj_error + issue_state) option"
  EXECUTION_TRANSITIONS :: "execution_state \<times> event_type \<Rightarrow> (payload \<Rightarrow> proj_error + execution_state) option"
  EXECUTION_TERMINAL :: "execution_state \<Rightarrow> bool"
  COMMIT_SEQUENCE_STATE :: execution_state

section \<open>Views\<close>

record execution_view =
  x_execution_id :: string
  x_issue_id :: string
  x_state :: execution_state
  commit_intended :: bool
  commit_created :: bool
  base_commit :: json
  start_commit :: json
  end_commit :: json
  intent_end_commit :: json
  intent_target_branch :: json
  validated_commit :: json
  reviewed_commit :: json
  taxonomy_category :: json
  feedback :: "json list"
  pre_execution_untracked :: "json list"

record containment_view =
  c_execution_id :: string
  workspace_key :: string
  generation :: string
  c_state :: containment_state
  prepared :: payload
  established :: "payload option"
  unconfirmed :: "payload option"
  released :: "payload option"

record issue_meta =
  m_title :: json
  m_body :: json
  m_acceptance_criteria :: json

record projection =
  issues :: "(string \<times> issue_state) list"
  executions :: "(string \<times> execution_view) list"
  issue_executions :: "(string \<times> string list) list"
  issue_base_commit :: "(string \<times> json) list"
  issue_depends_on :: "(string \<times> json list) list"
  p_issue_meta :: "(string \<times> issue_meta) list"
  containments :: "((string \<times> string) \<times> containment_view) list"
  last_event_id :: int
  counts :: "(string \<times> nat) list"

definition empty_projection :: projection where
  "empty_projection = \<lparr>issues = [], executions = [], issue_executions = [], issue_base_commit = [],
     issue_depends_on = [], p_issue_meta = [], containments = [], last_event_id = 0, counts = []\<rparr>"

definition new_execution_view :: "string \<Rightarrow> string \<Rightarrow> execution_state \<Rightarrow> json \<Rightarrow> json list \<Rightarrow> execution_view" where
  "new_execution_view xid iid st base pre = \<lparr>x_execution_id = xid, x_issue_id = iid, x_state = st,
     commit_intended = False, commit_created = False, base_commit = base, start_commit = JNull,
     end_commit = JNull, intent_end_commit = JNull, intent_target_branch = JNull,
     validated_commit = JNull, reviewed_commit = JNull, taxonomy_category = JNull, feedback = [],
     pre_execution_untracked = pre\<rparr>"

section \<open>Python values\<close>

definition truthy :: "json \<Rightarrow> bool" where
  "truthy v = (case v of
     JNull \<Rightarrow> False | JBool b \<Rightarrow> b | JInt i \<Rightarrow> i \<noteq> 0 | JFloat l \<Rightarrow> float_of_lexeme l \<noteq> Fin 0
   | JStr s \<Rightarrow> s \<noteq> [] | JArr xs \<Rightarrow> xs \<noteq> [] | JObj kvs \<Rightarrow> kvs \<noteq> [])"

text \<open>\<open>x or y\<close>.\<close>

definition json_or :: "json \<Rightarrow> json \<Rightarrow> json" where
  "json_or x y = (if truthy x then x else y)"

text \<open>\<open>list(x)\<close>.\<close>

definition py_list :: "json \<Rightarrow> proj_error + json list" where
  "py_list v = (case v of
     JArr xs \<Rightarrow> Inr xs | JStr s \<Rightarrow> Inr (map (\<lambda>c. JStr [c]) s) | JObj kvs \<Rightarrow> Inr (map (JStr \<circ> fst) kvs)
   | _ \<Rightarrow> Inl ProjTypeError)"

section \<open>Queries\<close>

definition issue_execs :: "projection \<Rightarrow> string \<Rightarrow> string list" where
  "issue_execs p iid = (case map_of (issue_executions p) iid of None \<Rightarrow> [] | Some ids \<Rightarrow> ids)"

definition latest_execution :: "projection \<Rightarrow> string \<Rightarrow> execution_view option" where
  "latest_execution p iid = (let ids = issue_execs p iid in
     if ids = [] then None else map_of (executions p) (last ids))"

definition open_executions :: "projection \<Rightarrow> execution_view list" where
  "open_executions p = filter (\<lambda>x. x_state x = EXECUTING) (map snd (executions p))"

definition unreleased_containments :: "projection \<Rightarrow> string option \<Rightarrow> containment_view list" where
  "unreleased_containments p key =
     filter (\<lambda>v. c_state v \<noteq> RELEASED \<and> (key = None \<or> workspace_key v = the key))
       (map snd (containments p))"

definition is_workspace_blocked :: "projection \<Rightarrow> string \<Rightarrow> bool" where
  "is_workspace_blocked p key \<longleftrightarrow> unreleased_containments p (Some key) \<noteq> []"

definition attempts :: "projection \<Rightarrow> string \<Rightarrow> nat" where
  "attempts p iid = length (issue_execs p iid)"

text \<open>\<open>all(...)\<close> stops at the first unmet dependency; a list or dict is not hashable.\<close>

fun all_done :: "(string \<times> issue_state) list \<Rightarrow> json list \<Rightarrow> proj_error + bool" where
  "all_done iss [] = Inr True"
| "all_done iss (d # ds) = (case d of
     JStr s \<Rightarrow> if map_of iss s = Some DONE then all_done iss ds else Inr False
   | JArr _ \<Rightarrow> Inl ProjTypeError
   | JObj _ \<Rightarrow> Inl ProjTypeError
   | _ \<Rightarrow> Inr False)"

definition deps_met :: "projection \<Rightarrow> string \<Rightarrow> proj_error + bool" where
  "deps_met p iid = all_done (issues p)
     (case map_of (issue_depends_on p) iid of None \<Rightarrow> [] | Some ds \<Rightarrow> ds)"

definition feedback_category :: "json \<Rightarrow> json list" where
  "feedback_category fb = (case fb of
     JObj kvs \<Rightarrow> (let c = jget kvs ''category'' in if truthy c then [c] else []) | _ \<Rightarrow> [])"

definition reviewer_feedback_categories :: "projection \<Rightarrow> string \<Rightarrow> json list" where
  "reviewer_feedback_categories p iid =
     concat (map (\<lambda>xid. case map_of (executions p) xid of
         None \<Rightarrow> [] | Some x \<Rightarrow> concat (map feedback_category (feedback x)))
       (issue_execs p iid))"

section \<open>Reading an event\<close>

definition need :: "string \<Rightarrow> json \<Rightarrow> proj_error + string" where
  "need attr v = (if \<not> truthy v then Inl (TransitionError (MissingAttr attr))
     else case v of JStr s \<Rightarrow> Inr s | _ \<Rightarrow> Inl ProjUnmodelled)"

definition need_issue :: "event \<Rightarrow> proj_error + string" where
  "need_issue ev = need ''issue_id'' (issue_id ev)"

definition need_execution :: "event \<Rightarrow> proj_error + string" where
  "need_execution ev = need ''execution_id'' (execution_id ev)"

definition field_of :: "payload \<Rightarrow> string \<Rightarrow> proj_error + json" where
  "field_of pl name = (case map_of pl name of
     None \<Rightarrow> Inl (TransitionError (MissingPayload name)) | Some v \<Rightarrow> Inr v)"

definition string_field :: "payload \<Rightarrow> string \<Rightarrow> proj_error + string" where
  "string_field pl name = rbind (field_of pl name) (\<lambda>v. case v of
     JStr s \<Rightarrow> if s = [] then Inl (TransitionError (InvalidPayload name)) else Inr s
   | _ \<Rightarrow> Inl (TransitionError (InvalidPayload name)))"

definition mapping_field :: "payload \<Rightarrow> string \<Rightarrow> proj_error + payload" where
  "mapping_field pl name = rbind (field_of pl name) (\<lambda>v. case v of
     JObj kvs \<Rightarrow> Inr kvs | _ \<Rightarrow> Inl (TransitionError (InvalidPayload name)))"

definition nonempty_mapping :: "payload \<Rightarrow> string \<Rightarrow> proj_error + payload" where
  "nonempty_mapping pl name = rbind (mapping_field pl name) (\<lambda>m.
     if m = [] then Inl (TransitionError (EmptyPayload name)) else Inr m)"

definition positive_int :: "payload \<Rightarrow> string \<Rightarrow> proj_error + int" where
  "positive_int pl name = rbind (field_of pl name) (\<lambda>v. case v of
     JInt i \<Rightarrow> if i < 1 then Inl (TransitionError (InvalidPayload name)) else Inr i
   | _ \<Rightarrow> Inl (TransitionError (InvalidPayload name)))"

definition fail :: "reason \<Rightarrow> proj_error + 'a" where
  "fail r = Inl (TransitionError r)"

definition refuse_if :: "bool \<Rightarrow> reason \<Rightarrow> proj_error + unit" where
  "refuse_if b r = require (\<not> b) (TransitionError r)"

section \<open>Handlers: issues and executions\<close>

definition h_issue_created :: "projection \<Rightarrow> event \<Rightarrow> proj_error + projection" where
  "h_issue_created p ev =
     rbind (need_issue ev) (\<lambda>iid.
     rbind (refuse_if (map_of (issues p) iid \<noteq> None) DuplicateIssueCreated) (\<lambda>_.
     let p1 = p\<lparr>issues := AList.update iid PENDING (issues p)\<rparr>;
         deps = json_or (jget (payload ev) ''depends_on'') (JArr [])
     in rbind (if truthy deps
               then rbind (py_list deps) (\<lambda>ds.
                 Inr (p1\<lparr>issue_depends_on := AList.update iid ds (issue_depends_on p1)\<rparr>))
               else Inr p1) (\<lambda>p2.
        Inr (p2\<lparr>p_issue_meta := AList.update iid
          \<lparr>m_title = (case map_of (payload ev) ''title'' of None \<Rightarrow> JStr [] | Some v \<Rightarrow> v),
           m_body = (case map_of (payload ev) ''body'' of None \<Rightarrow> JStr [] | Some v \<Rightarrow> v),
           m_acceptance_criteria = json_or (jget (payload ev) ''acceptance_criteria'') (JArr [])\<rparr>
          (p_issue_meta p2)\<rparr>))))"

definition h_issue_transition :: "tables \<Rightarrow> projection \<Rightarrow> event \<Rightarrow> proj_error + projection" where
  "h_issue_transition T p ev =
     rbind (need_issue ev) (\<lambda>iid.
     case map_of (issues p) iid of None \<Rightarrow> fail UnknownIssue | Some cur \<Rightarrow>
     (case ISSUE_TRANSITIONS T (cur, etype ev) of None \<Rightarrow> fail IllegalIssueTransition | Some fn \<Rightarrow>
      rbind (fn (payload ev)) (\<lambda>st.
        let p1 = p\<lparr>issues := AList.update iid st (issues p)\<rparr>;
            bc = jget (payload ev) ''base_commit''
        in Inr (if etype ev = ISSUE_ACTIVATED \<and> truthy bc
                then p1\<lparr>issue_base_commit := AList.update iid bc (issue_base_commit p1)\<rparr> else p1))))"

definition h_execution_spawned :: "tables \<Rightarrow> projection \<Rightarrow> event \<Rightarrow> proj_error + projection" where
  "h_execution_spawned T p ev =
     rbind (need_execution ev) (\<lambda>xid. rbind (need_issue ev) (\<lambda>iid.
     rbind (refuse_if (map_of (executions p) xid \<noteq> None) DuplicateSpawn) (\<lambda>_.
     rbind (refuse_if (map_of (issues p) iid \<noteq> Some ACTIVE) SpawnInactiveIssue) (\<lambda>_.
     rbind (refuse_if (case latest_execution p iid of None \<Rightarrow> False
                       | Some prev \<Rightarrow> \<not> EXECUTION_TERMINAL T (x_state prev)) SpawnWhileOpen) (\<lambda>_.
     rbind (py_list (json_or (jget (payload ev) ''pre_execution_untracked'') (JArr []))) (\<lambda>pre.
     Inr (p\<lparr>executions := AList.update xid
              (new_execution_view xid iid EXECUTING
                (case map_of (issue_base_commit p) iid of None \<Rightarrow> JNull | Some bc \<Rightarrow> bc) pre)
              (executions p),
            issue_executions := AList.update iid (issue_execs p iid @ [xid]) (issue_executions p)\<rparr>)))))))"

definition taxonomy_of_crash :: "payload \<Rightarrow> json" where
  "taxonomy_of_crash pl = json_or (jget pl ''last_known_state'') (JStr ''crashed'')"

text \<open>The fields a transition copies from its payload.\<close>

definition annotate :: "event \<Rightarrow> execution_view \<Rightarrow> proj_error + execution_view" where
  "annotate ev v = (let pl = payload ev in
     if etype ev = EXECUTION_FINISHED then
       (let v1 = v\<lparr>start_commit := jget pl ''start_commit'', end_commit := jget pl ''end_commit''\<rparr>
        in Inr (if jget pl ''outcome'' = JStr ''REJECTED''
                then v1\<lparr>taxonomy_category := jget pl ''taxonomy_category''\<rparr> else v1))
     else if etype ev = EXECUTION_CRASHED then Inr (v\<lparr>taxonomy_category := taxonomy_of_crash pl\<rparr>)
     else if etype ev = VALIDATION_PASSED then Inr (v\<lparr>validated_commit := jget pl ''validated_commit''\<rparr>)
     else if etype ev = VALIDATION_FAILED then Inr (v\<lparr>taxonomy_category := jget pl ''taxonomy_category''\<rparr>)
     else if etype ev = REVIEW_APPROVED then Inr (v\<lparr>reviewed_commit := jget pl ''reviewed_commit''\<rparr>)
     else if etype ev = REVIEW_REJECTED then
       rbind (py_list (json_or (jget pl ''feedback'') (JArr []))) (\<lambda>fb.
         Inr (v\<lparr>taxonomy_category := jget pl ''taxonomy_category'', feedback := fb\<rparr>))
     else Inr v)"

definition h_execution_transition :: "tables \<Rightarrow> projection \<Rightarrow> event \<Rightarrow> proj_error + projection" where
  "h_execution_transition T p ev =
     rbind (need_execution ev) (\<lambda>xid.
     case map_of (executions p) xid of None \<Rightarrow> fail UnknownExecution | Some v \<Rightarrow>
     (case EXECUTION_TRANSITIONS T (x_state v, etype ev) of
        None \<Rightarrow> fail IllegalExecutionTransition
      | Some fn \<Rightarrow>
        rbind (fn (payload ev)) (\<lambda>st.
        rbind (annotate ev (v\<lparr>x_state := st\<rparr>)) (\<lambda>v'.
        Inr (p\<lparr>executions := AList.update xid v' (executions p)\<rparr>)))))"

definition accepted_view :: "tables \<Rightarrow> projection \<Rightarrow> event \<Rightarrow> proj_error + (string \<times> execution_view)" where
  "accepted_view T p ev =
     rbind (need_execution ev) (\<lambda>xid.
     case map_of (executions p) xid of None \<Rightarrow> fail UnknownExecution | Some v \<Rightarrow>
     rbind (refuse_if (x_state v \<noteq> COMMIT_SEQUENCE_STATE T) CommitIllegalState) (\<lambda>_. Inr (xid, v)))"

definition h_commit_intent :: "tables \<Rightarrow> projection \<Rightarrow> event \<Rightarrow> proj_error + projection" where
  "h_commit_intent T p ev =
     rbind (accepted_view T p ev) (\<lambda>(xid, v).
     rbind (refuse_if (commit_intended v) DuplicateIntent) (\<lambda>_.
     Inr (p\<lparr>executions := AList.update xid
       (v\<lparr>commit_intended := True, intent_end_commit := jget (payload ev) ''end_commit'',
          intent_target_branch := jget (payload ev) ''target_branch''\<rparr>) (executions p)\<rparr>)))"

definition h_commit_created :: "tables \<Rightarrow> projection \<Rightarrow> event \<Rightarrow> proj_error + projection" where
  "h_commit_created T p ev =
     rbind (accepted_view T p ev) (\<lambda>(xid, v).
     rbind (refuse_if (\<not> commit_intended v) CreatedWithoutIntent) (\<lambda>_.
     rbind (refuse_if (commit_created v) DuplicateCreated) (\<lambda>_.
     Inr (p\<lparr>executions := AList.update xid (v\<lparr>commit_created := True\<rparr>) (executions p)\<rparr>))))"

section \<open>Handlers: containment\<close>

definition containment_execution :: "projection \<Rightarrow> event \<Rightarrow> proj_error + execution_view" where
  "containment_execution p ev =
     rbind (need_execution ev) (\<lambda>xid. rbind (need_issue ev) (\<lambda>iid.
     case map_of (executions p) xid of None \<Rightarrow> fail UnknownExecution | Some v \<Rightarrow>
     rbind (refuse_if (x_issue_id v \<noteq> iid) IssueMismatch) (\<lambda>_.
     rbind (refuse_if (x_state v \<noteq> EXECUTING) ContainmentIllegalState) (\<lambda>_. Inr v))))"

definition containment_key :: "event \<Rightarrow> proj_error + (string \<times> string \<times> string)" where
  "containment_key ev =
     rbind (need_execution ev) (\<lambda>xid.
     rbind (string_field (payload ev) ''workspace_key'') (\<lambda>wk.
     rbind (string_field (payload ev) ''containment_generation'') (\<lambda>g. Inr (xid, wk, g))))"

definition required_identity :: "payload \<Rightarrow> string \<Rightarrow> proj_error + payload" where
  "required_identity pl name =
     rbind (mapping_field pl name) (\<lambda>m.
     rbind (positive_int m ''pid'') (\<lambda>_. rbind (string_field m ''creation_time'') (\<lambda>_. Inr m)))"

definition h_containment_prepared :: "projection \<Rightarrow> event \<Rightarrow> proj_error + projection" where
  "h_containment_prepared p ev =
     rbind (containment_execution p ev) (\<lambda>_.
     rbind (containment_key ev) (\<lambda>(xid, wk, g).
     rbind (refuse_if (map_of (containments p) (xid, g) \<noteq> None) DuplicatePrepared) (\<lambda>_.
     rbind (refuse_if (\<exists>v \<in> set (map snd (containments p)).
              c_execution_id v = xid \<and> c_state v \<noteq> RELEASED) UnreleasedGeneration) (\<lambda>_.
     rbind (string_field (payload ev) ''protocol_version'') (\<lambda>_.
     rbind (string_field (payload ev) ''launch_mode'') (\<lambda>_.
     rbind (required_identity (payload ev) ''controller'') (\<lambda>_.
     rbind (mapping_field (payload ev) ''lease'') (\<lambda>lease.
     rbind (string_field lease ''scope'') (\<lambda>_. rbind (string_field lease ''version'') (\<lambda>_.
     Inr (p\<lparr>containments := AList.update (xid, g)
       \<lparr>c_execution_id = xid, workspace_key = wk, generation = g, c_state = PREPARED,
        prepared = payload ev, established = None, unconfirmed = None, released = None\<rparr>
       (containments p)\<rparr>)))))))))))"

definition matching_containment :: "projection \<Rightarrow> event \<Rightarrow> proj_error + ((string \<times> string) \<times> containment_view)" where
  "matching_containment p ev =
     rbind (containment_execution p ev) (\<lambda>_.
     rbind (containment_key ev) (\<lambda>(xid, wk, g).
     case map_of (containments p) (xid, g) of None \<Rightarrow> fail NoMatchingPrepared | Some v \<Rightarrow>
     rbind (refuse_if (workspace_key v \<noteq> wk) WorkspaceMismatch) (\<lambda>_. Inr ((xid, g), v))))"

definition job_witness_ok :: "payload \<Rightarrow> bool" where
  "job_witness_ok job \<longleftrightarrow>
     jget job ''kill_on_job_close'' = JBool True \<and> jget job ''breakaway_ok'' = JBool False \<and>
     jget job ''silent_breakaway_ok'' = JBool False"

definition h_containment_established :: "projection \<Rightarrow> event \<Rightarrow> proj_error + projection" where
  "h_containment_established p ev =
     rbind (matching_containment p ev) (\<lambda>(key, v).
     rbind (refuse_if (c_state v \<noteq> PREPARED) EstablishedIllegal) (\<lambda>_.
     rbind (field_of (payload ev) ''root_suspended'') (\<lambda>rs.
     rbind (refuse_if (rs \<noteq> JBool True) RootNotSuspended) (\<lambda>_.
     rbind (required_identity (payload ev) ''root'') (\<lambda>_.
     rbind (mapping_field (payload ev) ''job'') (\<lambda>job.
     rbind (refuse_if (\<not> job_witness_ok job) InvalidJobWitness) (\<lambda>_.
     rbind (mapping_field (payload ev) ''membership'') (\<lambda>m.
     rbind (refuse_if (jget m ''root_member'' \<noteq> JBool True) NoRootMembership) (\<lambda>_.
     rbind (positive_int m ''member_count'') (\<lambda>_.
     Inr (p\<lparr>containments := AList.update key
       (v\<lparr>c_state := ESTABLISHED, established := Some (payload ev)\<rparr>) (containments p)\<rparr>)))))))))))"

definition h_termination_unconfirmed :: "projection \<Rightarrow> event \<Rightarrow> proj_error + projection" where
  "h_termination_unconfirmed p ev =
     rbind (matching_containment p ev) (\<lambda>(key, v).
     rbind (refuse_if (c_state v \<noteq> ESTABLISHED) UnconfirmedIllegal) (\<lambda>_.
     rbind (string_field (payload ev) ''stage'') (\<lambda>_.
     rbind (string_field (payload ev) ''category'') (\<lambda>_.
     rbind (nonempty_mapping (payload ev) ''diagnostic'') (\<lambda>_.
     Inr (p\<lparr>containments := AList.update key
       (v\<lparr>c_state := UNCONFIRMED, unconfirmed := Some (payload ev)\<rparr>) (containments p)\<rparr>))))))"

definition h_containment_released :: "projection \<Rightarrow> event \<Rightarrow> proj_error + projection" where
  "h_containment_released p ev =
     rbind (matching_containment p ev) (\<lambda>(key, v).
     rbind (refuse_if (c_state v = RELEASED) DuplicateReleased) (\<lambda>_.
     rbind (string_field (payload ev) ''proof_kind'') (\<lambda>_.
     rbind (nonempty_mapping (payload ev) ''proof'') (\<lambda>_.
     rbind (string_field (payload ev) ''proof_ts'') (\<lambda>_.
     Inr (p\<lparr>containments := AList.update key
       (v\<lparr>c_state := RELEASED, released := Some (payload ev)\<rparr>) (containments p)\<rparr>))))))"

section \<open>Handlers: the run lifecycle\<close>

definition exact_keys :: "payload \<Rightarrow> string list \<Rightarrow> string \<Rightarrow> proj_error + unit" where
  "exact_keys m allowed wher = refuse_if (set (keys m) - set allowed \<noteq> {}) (UnexpectedKeys wher)"

definition is_hex :: "char \<Rightarrow> bool" where
  "is_hex c \<longleftrightarrow> is_digit c \<or> 97 \<le> ord_of c \<and> ord_of c \<le> 102"

text \<open>
  \<open>_RUN_ID_RE\<close>: every piece of the expression has a fixed width, so it is a list of character
  classes, one per position.
\<close>

definition exactly :: "string \<Rightarrow> (char \<Rightarrow> bool) list" where
  "exactly s = map (\<lambda>c d. d = c) s"

definition RUN_ID_RE :: "(char \<Rightarrow> bool) list" where
  "RUN_ID_RE = exactly ''run-'' @ replicate 8 is_digit @ exactly ''T'' @ replicate 6 is_digit @
     exactly ''Z-'' @ replicate 8 is_hex @ exactly ''-'' @ replicate 4 is_hex @ exactly ''-4'' @
     replicate 3 is_hex @ exactly ''-'' @ [\<lambda>c. c \<in> set ''89ab''] @ replicate 3 is_hex @
     exactly ''-'' @ replicate 12 is_hex"

definition fullmatch :: "(char \<Rightarrow> bool) list \<Rightarrow> string \<Rightarrow> bool" where
  "fullmatch re s = list_all2 (\<lambda>p c. p c) re s"

text \<open>\<open>datetime.strptime(s, "%Y%m%dT%H%M%SZ")\<close> accepts eight digits, T, six digits, Z.\<close>

definition leap_year :: "nat \<Rightarrow> bool" where
  "leap_year y \<longleftrightarrow> y mod 4 = 0 \<and> (y mod 100 \<noteq> 0 \<or> y mod 400 = 0)"

definition days_in_month :: "nat \<Rightarrow> nat \<Rightarrow> nat" where
  "days_in_month y m = (if m = 2 then (if leap_year y then 29 else 28)
     else if m \<in> {4, 6, 9, 11} then 30 else 31)"

definition calendar_ok :: "string \<Rightarrow> bool" where
  "calendar_ok s = (let num = (\<lambda>i n. read_nat (take n (drop i s)));
       y = num 0 4; mo = num 4 2; d = num 6 2; h = num 9 2; mi = num 11 2; sec = num 13 2
     in 1 \<le> y \<and> 1 \<le> mo \<and> mo \<le> 12 \<and> 1 \<le> d \<and> d \<le> days_in_month y mo \<and>
        h \<le> 23 \<and> mi \<le> 59 \<and> sec \<le> 59)"

definition run_envelope :: "event \<Rightarrow> proj_error + unit" where
  "run_envelope ev = (case run_id ev of
     JStr s \<Rightarrow>
       rbind (refuse_if (s = []) RunIdNotString) (\<lambda>_.
       rbind (refuse_if (\<not> fullmatch RUN_ID_RE s) RunIdMalformed) (\<lambda>_.
       rbind (refuse_if (\<not> calendar_ok (take 16 (drop 4 s))) RunIdBadCalendar) (\<lambda>_.
       rbind (refuse_if (issue_id ev \<noteq> JNull) RunIssueNotNull) (\<lambda>_.
       refuse_if (execution_id ev \<noteq> JNull) RunExecutionNotNull))))
   | _ \<Rightarrow> fail RunIdNotString)"

text \<open>\<open>math.isfinite\<close> converts an integer to a float first, which may overflow.\<close>

definition cost_check :: "json \<Rightarrow> proj_error + unit" where
  "cost_check v =
     (let bad = InvalidPayload ''hard_stop_proxy_cost_per_run_usd'' in
      case v of
        JInt i \<Rightarrow> (case float_of_int i of None \<Rightarrow> Inl ProjOverflowError
                  | Some _ \<Rightarrow> refuse_if (i \<le> 0) bad)
      | JFloat l \<Rightarrow> refuse_if (\<not> is_finite_float (float_of_lexeme l)
                              \<or> float_le (float_of_lexeme l) (Fin 0)) bad
      | _ \<Rightarrow> fail bad)"

definition KNOWN_PROXY_PRICING :: "string list" where
  "KNOWN_PROXY_PRICING = [''api_list_rates'']"

definition RUN_OUTCOMES :: "string list" where
  "RUN_OUTCOMES = [''CHECKOUT_FAILED'', ''REVIEWER_UNREACHABLE'', ''BASELINE_FAILED'',
     ''INGEST_FAILED'', ''COMPLETED'', ''HALTED'', ''INTERRUPTED'']"

definition reviewer_model_ok :: "json \<Rightarrow> bool" where
  "reviewer_model_ok v = (case v of JNull \<Rightarrow> True | JStr s \<Rightarrow> s \<noteq> [] | _ \<Rightarrow> False)"

definition h_run_started :: "projection \<Rightarrow> event \<Rightarrow> proj_error + projection" where
  "h_run_started p ev =
     (let pl = payload ev in
     rbind (run_envelope ev) (\<lambda>_.
     rbind (exact_keys pl [''engine'', ''reviewer'', ''budget'', ''config_digest''] ''payload'') (\<lambda>_.
     rbind (mapping_field pl ''engine'') (\<lambda>engine.
     rbind (exact_keys engine [''provider'', ''model''] ''payload.engine'') (\<lambda>_.
     rbind (string_field engine ''provider'') (\<lambda>_.
     rbind (string_field engine ''model'') (\<lambda>_.
     rbind (mapping_field pl ''reviewer'') (\<lambda>reviewer.
     rbind (exact_keys reviewer [''provider'', ''model''] ''payload.reviewer'') (\<lambda>_.
     rbind (string_field reviewer ''provider'') (\<lambda>_.
     rbind (field_of reviewer ''model'') (\<lambda>rm.
     rbind (refuse_if (\<not> reviewer_model_ok rm) (InvalidPayload ''model'')) (\<lambda>_.
     rbind (mapping_field pl ''budget'') (\<lambda>budget.
     rbind (exact_keys budget [''max_attempts_per_issue'', ''max_executions_per_run'',
              ''hard_stop_proxy_cost_per_run_usd'', ''proxy_pricing''] ''payload.budget'') (\<lambda>_.
     rbind (positive_int budget ''max_attempts_per_issue'') (\<lambda>_.
     rbind (positive_int budget ''max_executions_per_run'') (\<lambda>_.
     rbind (field_of budget ''hard_stop_proxy_cost_per_run_usd'') (\<lambda>cost.
     rbind (cost_check cost) (\<lambda>_.
     rbind (string_field budget ''proxy_pricing'') (\<lambda>pricing.
     rbind (refuse_if (pricing \<notin> set KNOWN_PROXY_PRICING) UnknownPricing) (\<lambda>_.
     rbind (string_field pl ''config_digest'') (\<lambda>digest.
     rbind (refuse_if (\<not> fullmatch (replicate 64 is_hex) digest) BadDigest) (\<lambda>_.
     Inr p))))))))))))))))))))))"

definition h_run_finished :: "projection \<Rightarrow> event \<Rightarrow> proj_error + projection" where
  "h_run_finished p ev =
     (let pl = payload ev in
     rbind (run_envelope ev) (\<lambda>_.
     rbind (exact_keys pl [''outcome'', ''detail''] ''payload'') (\<lambda>_.
     rbind (string_field pl ''outcome'') (\<lambda>outcome.
     rbind (refuse_if (outcome \<notin> set RUN_OUTCOMES) UnknownOutcome) (\<lambda>_.
     rbind (field_of pl ''detail'') (\<lambda>detail.
     rbind (refuse_if (detail \<noteq> JNull) DetailNotNull) (\<lambda>_. Inr p)))))))"

section \<open>Replay\<close>

definition handle :: "tables \<Rightarrow> projection \<Rightarrow> event \<Rightarrow> proj_error + projection" where
  "handle T p ev = (case etype ev of
     ISSUE_CREATED \<Rightarrow> h_issue_created p ev
   | ISSUE_ACTIVATED \<Rightarrow> h_issue_transition T p ev
   | ISSUE_COMPLETED \<Rightarrow> h_issue_transition T p ev
   | ISSUE_ESCALATED \<Rightarrow> h_issue_transition T p ev
   | EXECUTION_SPAWNED \<Rightarrow> h_execution_spawned T p ev
   | EXECUTION_CONTAINMENT_PREPARED \<Rightarrow> h_containment_prepared p ev
   | EXECUTION_CONTAINMENT_ESTABLISHED \<Rightarrow> h_containment_established p ev
   | EXECUTION_TERMINATION_UNCONFIRMED \<Rightarrow> h_termination_unconfirmed p ev
   | EXECUTION_CONTAINMENT_RELEASED \<Rightarrow> h_containment_released p ev
   | EXECUTION_FINISHED \<Rightarrow> h_execution_transition T p ev
   | EXECUTION_CRASHED \<Rightarrow> h_execution_transition T p ev
   | VALIDATION_PASSED \<Rightarrow> h_execution_transition T p ev
   | VALIDATION_FAILED \<Rightarrow> h_execution_transition T p ev
   | REVIEW_APPROVED \<Rightarrow> h_execution_transition T p ev
   | REVIEW_REJECTED \<Rightarrow> h_execution_transition T p ev
   | COMMIT_INTENT \<Rightarrow> h_commit_intent T p ev
   | COMMIT_CREATED \<Rightarrow> h_commit_created T p ev
   | RUN_STARTED \<Rightarrow> h_run_started p ev
   | RUN_FINISHED \<Rightarrow> h_run_finished p ev
   | HUMAN_INTERVENTION \<Rightarrow> Inr p
   | GUIDELINE_PROMOTED \<Rightarrow> Inr p)"

definition count_of :: "projection \<Rightarrow> string \<Rightarrow> nat" where
  "count_of p k = (case map_of (counts p) k of None \<Rightarrow> 0 | Some n \<Rightarrow> n)"

definition note_event :: "projection \<Rightarrow> event \<Rightarrow> projection" where
  "note_event p ev = p\<lparr>last_event_id := event_id ev,
     counts := AList.update (type_value (etype ev)) (count_of p (type_value (etype ev)) + 1) (counts p)\<rparr>"

definition apply_event :: "tables \<Rightarrow> event \<Rightarrow> projection \<Rightarrow> proj_error + projection" where
  "apply_event T ev p = handle T (note_event p ev) ev"

definition rebuild :: "tables \<Rightarrow> event list \<Rightarrow> projection \<Rightarrow> proj_error + projection" where
  "rebuild T evs p = rfold (apply_event T) evs p"

end
