(* ===== verification/ProjectionInv.thy ===== *)
theory ProjectionInv
  imports Projection
begin

text \<open>
  What replay guarantees: the step relation that every accepted event is an instance of, the
  well-formedness invariant it keeps, and the facts of a log that replays cleanly. The rows the
  proofs use of the transition tables are those of docs/03 sections 1 and 2 (\<open>doc03_tables\<close>).
\<close>

section \<open>The documented tables\<close>

definition issue_row :: "issue_state \<Rightarrow> event_type \<Rightarrow> issue_state \<Rightarrow> bool" where
  "issue_row s t s' \<longleftrightarrow> (s, t, s') \<in>
     {(PENDING, ISSUE_ACTIVATED, ACTIVE), (ACTIVE, ISSUE_COMPLETED, DONE),
      (ACTIVE, ISSUE_ESCALATED, NEEDS_HUMAN), (ACTIVE, ISSUE_ESCALATED, NEEDS_DECOMPOSITION)}"

definition execution_row :: "execution_state \<Rightarrow> event_type \<Rightarrow> execution_state \<Rightarrow> bool" where
  "execution_row s t s' \<longleftrightarrow> (s, t, s') \<in>
     {(EXECUTING, EXECUTION_FINISHED, VALIDATING), (EXECUTING, EXECUTION_FINISHED, REJECTED),
      (EXECUTING, EXECUTION_CRASHED, CRASHED),
      (VALIDATING, VALIDATION_PASSED, REVIEWING), (VALIDATING, VALIDATION_FAILED, REJECTED),
      (REVIEWING, REVIEW_APPROVED, ACCEPTED), (REVIEWING, REVIEW_REJECTED, REJECTED)}"

text \<open>
  A row that is taken goes where the document says, a crash is possible while executing, an
  execution is over once it is rejected or crashed and not before it is accepted or one of these,
  and the commit sequence happens in \<open>ACCEPTED\<close>. Whether \<open>ACCEPTED\<close> counts as terminal is left open.
\<close>

definition doc03_tables :: "tables \<Rightarrow> bool" where
  "doc03_tables T \<longleftrightarrow>
     (\<forall>s t fn pl s'. ISSUE_TRANSITIONS T (s, t) = Some fn \<longrightarrow> fn pl = Inr s' \<longrightarrow> issue_row s t s') \<and>
     (\<forall>s t fn pl s'. EXECUTION_TRANSITIONS T (s, t) = Some fn \<longrightarrow> fn pl = Inr s' \<longrightarrow> execution_row s t s') \<and>
     EXECUTION_TRANSITIONS T (EXECUTING, EXECUTION_CRASHED) = Some (\<lambda>_. Inr CRASHED) \<and>
     (\<forall>s. EXECUTION_TERMINAL T s \<longrightarrow> s \<in> {ACCEPTED, REJECTED, CRASHED}) \<and>
     EXECUTION_TERMINAL T REJECTED \<and> EXECUTION_TERMINAL T CRASHED \<and>
     COMMIT_SEQUENCE_STATE T = ACCEPTED"

text \<open>The tables as the document has them, for evaluation.\<close>

definition doc03_issue :: "issue_state \<times> event_type \<Rightarrow> (payload \<Rightarrow> proj_error + issue_state) option" where
  "doc03_issue st =
     (if st = (PENDING, ISSUE_ACTIVATED) then Some (\<lambda>_. Inr ACTIVE)
      else if st = (ACTIVE, ISSUE_COMPLETED) then Some (\<lambda>_. Inr DONE)
      else if st = (ACTIVE, ISSUE_ESCALATED) then Some (\<lambda>pl. Inr
        (if jget pl ''reason'' = JStr ''decompose'' then NEEDS_DECOMPOSITION else NEEDS_HUMAN))
      else None)"

definition doc03_execution :: "execution_state \<times> event_type \<Rightarrow> (payload \<Rightarrow> proj_error + execution_state) option" where
  "doc03_execution st =
     (if st = (EXECUTING, EXECUTION_FINISHED) then Some (\<lambda>pl. Inr
        (if jget pl ''outcome'' = JStr ''REJECTED'' then REJECTED else VALIDATING))
      else if st = (EXECUTING, EXECUTION_CRASHED) then Some (\<lambda>_. Inr CRASHED)
      else if st = (VALIDATING, VALIDATION_PASSED) then Some (\<lambda>_. Inr REVIEWING)
      else if st = (VALIDATING, VALIDATION_FAILED) then Some (\<lambda>_. Inr REJECTED)
      else if st = (REVIEWING, REVIEW_APPROVED) then Some (\<lambda>_. Inr ACCEPTED)
      else if st = (REVIEWING, REVIEW_REJECTED) then Some (\<lambda>_. Inr REJECTED)
      else None)"

definition doc03 :: tables where
  "doc03 = \<lparr>ISSUE_TRANSITIONS = doc03_issue, EXECUTION_TRANSITIONS = doc03_execution,
     EXECUTION_TERMINAL = (\<lambda>s. s \<in> {REJECTED, CRASHED}), COMMIT_SEQUENCE_STATE = ACCEPTED\<rparr>"

lemma doc03_issue_row: "doc03_issue (s, t) = Some fn \<Longrightarrow> fn pl = Inr s' \<Longrightarrow> issue_row s t s'"
  by (auto simp: doc03_issue_def issue_row_def split: if_splits)

lemma doc03_execution_row: "doc03_execution (s, t) = Some fn \<Longrightarrow> fn pl = Inr s' \<Longrightarrow> execution_row s t s'"
  by (auto simp: doc03_execution_def execution_row_def split: if_splits)

lemma doc03_doc03_tables: "doc03_tables doc03"
  using doc03_issue_row doc03_execution_row
  by (simp add: doc03_tables_def doc03_def doc03_execution_def)

section \<open>The step relation\<close>

text \<open>
  An accepted event is one of ten steps: which part of the projection it changes, what it
  requires, and which identifiers the event names. The fields a step copies from its payload are
  left open where no invariant depends on them.
\<close>

inductive proj_step :: "tables \<Rightarrow> projection \<Rightarrow> event \<Rightarrow> projection \<Rightarrow> bool" for T p ev where
  create: "etype ev = ISSUE_CREATED \<Longrightarrow> issue_id ev = JStr iid \<Longrightarrow> iid \<noteq> [] \<Longrightarrow> map_of (issues p) iid = None \<Longrightarrow>
    proj_step T p ev (p\<lparr>issues := AList.update iid PENDING (issues p),
      issue_depends_on := deps, p_issue_meta := meta\<rparr>)"
| move_issue: "etype ev \<in> {ISSUE_ACTIVATED, ISSUE_COMPLETED, ISSUE_ESCALATED} \<Longrightarrow>
    issue_id ev = JStr iid \<Longrightarrow> map_of (issues p) iid = Some cur \<Longrightarrow>
    ISSUE_TRANSITIONS T (cur, etype ev) = Some fn \<Longrightarrow> fn (payload ev) = Inr st \<Longrightarrow>
    proj_step T p ev (p\<lparr>issues := AList.update iid st (issues p), issue_base_commit := bcs\<rparr>)"
| spawn: "etype ev = EXECUTION_SPAWNED \<Longrightarrow> execution_id ev = JStr xid \<Longrightarrow> issue_id ev = JStr iid \<Longrightarrow>
    map_of (executions p) xid = None \<Longrightarrow> map_of (issues p) iid = Some ACTIVE \<Longrightarrow>
    (\<And>prev. latest_execution p iid = Some prev \<Longrightarrow> EXECUTION_TERMINAL T (x_state prev)) \<Longrightarrow>
    xid \<noteq> [] \<Longrightarrow> iid \<noteq> [] \<Longrightarrow>
    proj_step T p ev (p\<lparr>executions := AList.update xid (new_execution_view xid iid EXECUTING base pre) (executions p),
      issue_executions := AList.update iid (issue_execs p iid @ [xid]) (issue_executions p)\<rparr>)"
| move_execution: "execution_id ev = JStr xid \<Longrightarrow> map_of (executions p) xid = Some v \<Longrightarrow>
    EXECUTION_TRANSITIONS T (x_state v, etype ev) = Some fn \<Longrightarrow> fn (payload ev) = Inr st \<Longrightarrow>
    annotate ev (v\<lparr>x_state := st\<rparr>) = Inr v' \<Longrightarrow>
    etype ev \<in> {EXECUTION_FINISHED, EXECUTION_CRASHED, VALIDATION_PASSED, VALIDATION_FAILED,
      REVIEW_APPROVED, REVIEW_REJECTED} \<Longrightarrow>
    proj_step T p ev (p\<lparr>executions := AList.update xid v' (executions p)\<rparr>)"
| intend: "etype ev = COMMIT_INTENT \<Longrightarrow> execution_id ev = JStr xid \<Longrightarrow>
    map_of (executions p) xid = Some v \<Longrightarrow> x_state v = COMMIT_SEQUENCE_STATE T \<Longrightarrow> \<not> commit_intended v \<Longrightarrow>
    proj_step T p ev (p\<lparr>executions := AList.update xid
      (v\<lparr>commit_intended := True, intent_end_commit := ec, intent_target_branch := tb\<rparr>) (executions p)\<rparr>)"
| commit: "etype ev = COMMIT_CREATED \<Longrightarrow> execution_id ev = JStr xid \<Longrightarrow>
    map_of (executions p) xid = Some v \<Longrightarrow> x_state v = COMMIT_SEQUENCE_STATE T \<Longrightarrow>
    commit_intended v \<Longrightarrow> \<not> commit_created v \<Longrightarrow>
    proj_step T p ev (p\<lparr>executions := AList.update xid (v\<lparr>commit_created := True\<rparr>) (executions p)\<rparr>)"
| prepare: "etype ev = EXECUTION_CONTAINMENT_PREPARED \<Longrightarrow> execution_id ev = JStr xid \<Longrightarrow>
    map_of (executions p) xid = Some x \<Longrightarrow> x_state x = EXECUTING \<Longrightarrow>
    map_of (containments p) (xid, g) = None \<Longrightarrow>
    (\<forall>v \<in> set (map snd (containments p)). c_execution_id v = xid \<longrightarrow> c_state v = RELEASED) \<Longrightarrow>
    jget (payload ev) ''containment_generation'' = JStr g \<Longrightarrow>
    jget (payload ev) ''workspace_key'' = JStr wk \<Longrightarrow> g \<noteq> [] \<Longrightarrow> wk \<noteq> [] \<Longrightarrow>
    proj_step T p ev (p\<lparr>containments := AList.update (xid, g)
      \<lparr>c_execution_id = xid, workspace_key = wk, generation = g, c_state = PREPARED,
       prepared = payload ev, established = None, unconfirmed = None, released = None\<rparr> (containments p)\<rparr>)"
| move_containment: "execution_id ev = JStr xid \<Longrightarrow>
    map_of (executions p) xid = Some x \<Longrightarrow> x_state x = EXECUTING \<Longrightarrow>
    jget (payload ev) ''containment_generation'' = JStr g \<Longrightarrow>
    map_of (containments p) (xid, g) = Some v \<Longrightarrow>
    jget (payload ev) ''workspace_key'' = JStr (workspace_key v) \<Longrightarrow>
    etype ev = EXECUTION_CONTAINMENT_ESTABLISHED \<and> c_state v = PREPARED \<and>
      v' = v\<lparr>c_state := ESTABLISHED, established := Some (payload ev)\<rparr> \<or>
    etype ev = EXECUTION_TERMINATION_UNCONFIRMED \<and> c_state v = ESTABLISHED \<and>
      v' = v\<lparr>c_state := UNCONFIRMED, unconfirmed := Some (payload ev)\<rparr> \<or>
    etype ev = EXECUTION_CONTAINMENT_RELEASED \<and> c_state v \<noteq> RELEASED \<and>
      v' = v\<lparr>c_state := RELEASED, released := Some (payload ev)\<rparr> \<Longrightarrow>
    proj_step T p ev (p\<lparr>containments := AList.update (xid, g) v' (containments p)\<rparr>)"
| frame: "etype ev \<in> {RUN_STARTED, RUN_FINISHED, HUMAN_INTERVENTION, GUIDELINE_PROMOTED} \<Longrightarrow>
    proj_step T p ev p"

section \<open>Every accepted event is a step\<close>

lemma need_eq: "need a v = Inr s \<longleftrightarrow> v = JStr s \<and> s \<noteq> []"
  by (auto simp: need_def truthy_def split: json.splits)

lemma refuse_if_eq [simp]: "refuse_if b r = Inr u \<longleftrightarrow> \<not> b"
  by (simp add: refuse_if_def)

lemma string_field_eq: "string_field pl n = Inr s \<longleftrightarrow> map_of pl n = Some (JStr s) \<and> s \<noteq> []"
  by (auto simp: string_field_def field_of_def rbind_eq_Inr split: option.splits json.splits)

lemma fail_neq [simp]: "fail r \<noteq> Inr x"
  by (simp add: fail_def)

text \<open>\<open>if x is None: raise\<close>.\<close>

lemma case_fail_eq:
  "(case m of None \<Rightarrow> fail r | Some x \<Rightarrow> f x) = Inr y \<longleftrightarrow> (\<exists>x. m = Some x \<and> f x = Inr y)"
  by (cases m) auto

lemmas step_defs = case_fail_eq need_issue_def need_execution_def need_eq string_field_eq rbind_eq_Inr

lemma step_issue_created:
  "etype ev = ISSUE_CREATED \<Longrightarrow> h_issue_created p ev = Inr p' \<Longrightarrow> proj_step T p ev p'"
proof -
  assume t: "etype ev = ISSUE_CREATED" and h: "h_issue_created p ev = Inr p'"
  from h obtain iid where i: "issue_id ev = JStr iid" "iid \<noteq> []" "map_of (issues p) iid = None"
    by (auto simp: h_issue_created_def step_defs)
  from h i have "p' = p\<lparr>issues := AList.update iid PENDING (issues p),
      issue_depends_on := issue_depends_on p', p_issue_meta := p_issue_meta p'\<rparr>"
    by (auto simp: h_issue_created_def step_defs Let_def split: if_splits)
  then show ?thesis using proj_step.create [OF t i] by metis
qed

lemma step_issue_transition:
  "etype ev \<in> {ISSUE_ACTIVATED, ISSUE_COMPLETED, ISSUE_ESCALATED} \<Longrightarrow>
   h_issue_transition T p ev = Inr p' \<Longrightarrow> proj_step T p ev p'"
proof -
  assume t: "etype ev \<in> {ISSUE_ACTIVATED, ISSUE_COMPLETED, ISSUE_ESCALATED}"
    and h: "h_issue_transition T p ev = Inr p'"
  from h obtain iid cur fn st where i: "issue_id ev = JStr iid" "map_of (issues p) iid = Some cur"
    "ISSUE_TRANSITIONS T (cur, etype ev) = Some fn" "fn (payload ev) = Inr st"
    by (auto simp: h_issue_transition_def step_defs)
  from h i have "p' = p\<lparr>issues := AList.update iid st (issues p), issue_base_commit := issue_base_commit p'\<rparr>"
    by (auto simp: h_issue_transition_def step_defs Let_def)
  then show ?thesis using proj_step.move_issue [OF t i] by metis
qed

lemma step_execution_spawned:
  "etype ev = EXECUTION_SPAWNED \<Longrightarrow> h_execution_spawned T p ev = Inr p' \<Longrightarrow> proj_step T p ev p'"
  by (auto simp: h_execution_spawned_def step_defs split: option.splits intro!: proj_step.spawn)

lemma step_execution_transition:
  "etype ev \<in> {EXECUTION_FINISHED, EXECUTION_CRASHED, VALIDATION_PASSED, VALIDATION_FAILED,
      REVIEW_APPROVED, REVIEW_REJECTED} \<Longrightarrow>
   h_execution_transition T p ev = Inr p' \<Longrightarrow> proj_step T p ev p'"
  by (auto simp: h_execution_transition_def step_defs intro: proj_step.move_execution)

lemma step_commit_intent:
  "etype ev = COMMIT_INTENT \<Longrightarrow> h_commit_intent T p ev = Inr p' \<Longrightarrow> proj_step T p ev p'"
  by (auto simp: h_commit_intent_def accepted_view_def step_defs
      intro!: proj_step.intend)

lemma step_commit_created:
  "etype ev = COMMIT_CREATED \<Longrightarrow> h_commit_created T p ev = Inr p' \<Longrightarrow> proj_step T p ev p'"
  by (auto simp: h_commit_created_def accepted_view_def step_defs
      intro!: proj_step.commit)

lemma containment_execution_eq:
  "containment_execution p ev = Inr x \<Longrightarrow> \<exists>xid. execution_id ev = JStr xid \<and>
     map_of (executions p) xid = Some x \<and> x_state x = EXECUTING"
  by (auto simp: containment_execution_def step_defs)

lemma containment_key_eq:
  "containment_key ev = Inr (xid, wk, g) \<Longrightarrow> execution_id ev = JStr xid \<and>
     jget (payload ev) ''workspace_key'' = JStr wk \<and> jget (payload ev) ''containment_generation'' = JStr g \<and>
     g \<noteq> [] \<and> wk \<noteq> []"
  by (auto simp: containment_key_def step_defs jget_def)

lemma step_containment_prepared:
  assumes t: "etype ev = EXECUTION_CONTAINMENT_PREPARED" and h: "h_containment_prepared p ev = Inr p'"
  shows "proj_step T p ev p'"
proof -
  from h obtain x xid wk g where x: "containment_execution p ev = Inr x"
    and k: "containment_key ev = Inr (xid, wk, g)" and d: "map_of (containments p) (xid, g) = None"
    and u: "\<forall>v \<in> set (map snd (containments p)). c_execution_id v = xid \<longrightarrow> c_state v = RELEASED"
    and p': "p' = p\<lparr>containments := AList.update (xid, g)
      \<lparr>c_execution_id = xid, workspace_key = wk, generation = g, c_state = PREPARED,
       prepared = payload ev, established = None, unconfirmed = None, released = None\<rparr> (containments p)\<rparr>"
    by (auto simp: h_containment_prepared_def rbind_eq_Inr)
  show ?thesis unfolding p'
    using containment_execution_eq [OF x] containment_key_eq [OF k] proj_step.prepare [OF t _ _ _ d u] by auto
qed

lemma matching_containment_eq:
  "matching_containment p ev = Inr ((xid, g), v) \<Longrightarrow> execution_id ev = JStr xid \<and>
     (\<exists>x. map_of (executions p) xid = Some x \<and> x_state x = EXECUTING) \<and>
     jget (payload ev) ''containment_generation'' = JStr g \<and> map_of (containments p) (xid, g) = Some v \<and>
     jget (payload ev) ''workspace_key'' = JStr (workspace_key v)"
  using containment_execution_eq containment_key_eq
  by (fastforce simp: matching_containment_def rbind_eq_Inr split: option.splits)

lemma step_containment_moves:
  "etype ev = EXECUTION_CONTAINMENT_ESTABLISHED \<Longrightarrow> h_containment_established p ev = Inr p' \<Longrightarrow> proj_step T p ev p'"
  "etype ev = EXECUTION_TERMINATION_UNCONFIRMED \<Longrightarrow> h_termination_unconfirmed p ev = Inr p' \<Longrightarrow> proj_step T p ev p'"
  "etype ev = EXECUTION_CONTAINMENT_RELEASED \<Longrightarrow> h_containment_released p ev = Inr p' \<Longrightarrow> proj_step T p ev p'"
  by (auto simp: h_containment_established_def h_termination_unconfirmed_def
      h_containment_released_def rbind_eq_Inr dest!: matching_containment_eq
      intro!: proj_step.move_containment)

lemma step_frames:
  "h_run_started p ev = Inr p' \<Longrightarrow> p' = p"
  "h_run_finished p ev = Inr p' \<Longrightarrow> p' = p"
  by (auto simp: h_run_started_def h_run_finished_def rbind_eq_Inr Let_def)

lemma handle_step: "handle T p ev = Inr p' \<Longrightarrow> proj_step T p ev p'"
  using step_issue_created step_issue_transition step_execution_spawned step_execution_transition
    step_commit_intent step_commit_created step_containment_prepared step_containment_moves
    step_frames proj_step.frame [of ev T p]
  by (cases "etype ev") (simp_all add: handle_def, metis+)

section \<open>Well-formed projections\<close>

definition keys_ok :: "projection \<Rightarrow> bool" where
  "keys_ok p \<longleftrightarrow> distinct (keys (issues p)) \<and> distinct (keys (executions p)) \<and>
     distinct (keys (issue_executions p)) \<and> distinct (keys (containments p)) \<and> distinct (keys (counts p))"

text \<open>The commit protocol (I5/I6): created after intended, and both only in \<open>ACCEPTED\<close>.\<close>

definition exec_ok :: "string \<Rightarrow> execution_view \<Rightarrow> bool" where
  "exec_ok xid v \<longleftrightarrow> x_execution_id v = xid \<and> xid \<noteq> [] \<and> x_issue_id v \<noteq> [] \<and> x_state v \<noteq> SPAWNED \<and>
     (commit_created v \<longrightarrow> commit_intended v) \<and> (commit_intended v \<longrightarrow> x_state v = ACCEPTED)"

definition execs_ok :: "projection \<Rightarrow> bool" where
  "execs_ok p \<longleftrightarrow> (\<forall>xid v. map_of (executions p) xid = Some v \<longrightarrow> exec_ok xid v)"

text \<open>The list of an issue's executions and the executions agree, and only started issues have any.\<close>

definition linked :: "projection \<Rightarrow> bool" where
  "linked p \<longleftrightarrow> (\<forall>iid. distinct (issue_execs p iid) \<and>
     (\<forall>x. x \<in> set (issue_execs p iid) \<longleftrightarrow> (\<exists>v. map_of (executions p) x = Some v \<and> x_issue_id v = iid)) \<and>
     (issue_execs p iid \<noteq> [] \<longrightarrow> (\<exists>st. map_of (issues p) iid = Some st \<and> st \<noteq> PENDING)))"

text \<open>Every execution of an issue but its latest is over.\<close>

definition retired :: "tables \<Rightarrow> projection \<Rightarrow> bool" where
  "retired T p \<longleftrightarrow> (\<forall>iid x v. x \<in> set (butlast (issue_execs p iid)) \<longrightarrow>
     map_of (executions p) x = Some v \<longrightarrow> EXECUTION_TERMINAL T (x_state v))"

text \<open>A containment generation has exactly the evidence its state calls for.\<close>

definition cont_ok :: "string \<times> string \<Rightarrow> containment_view \<Rightarrow> bool" where
  "cont_ok k v \<longleftrightarrow> (c_execution_id v, generation v) = k \<and> generation v \<noteq> [] \<and> workspace_key v \<noteq> [] \<and>
     (unconfirmed v \<noteq> None \<longrightarrow> established v \<noteq> None) \<and>
     (case c_state v of
        PREPARED \<Rightarrow> established v = None \<and> released v = None
      | ESTABLISHED \<Rightarrow> established v \<noteq> None \<and> unconfirmed v = None \<and> released v = None
      | UNCONFIRMED \<Rightarrow> unconfirmed v \<noteq> None \<and> released v = None
      | RELEASED \<Rightarrow> released v \<noteq> None)"

definition conts_ok :: "projection \<Rightarrow> bool" where
  "conts_ok p \<longleftrightarrow> (\<forall>k v. map_of (containments p) k = Some v \<longrightarrow>
     cont_ok k v \<and> map_of (executions p) (fst k) \<noteq> None)"

text \<open>At most one generation of an execution is unreleased.\<close>

definition one_unreleased :: "projection \<Rightarrow> bool" where
  "one_unreleased p \<longleftrightarrow> (\<forall>x g g' v v'. map_of (containments p) (x, g) = Some v \<longrightarrow>
     map_of (containments p) (x, g') = Some v' \<longrightarrow> c_state v \<noteq> RELEASED \<longrightarrow> c_state v' \<noteq> RELEASED \<longrightarrow> g = g')"

definition proj_ok :: "tables \<Rightarrow> projection \<Rightarrow> bool" where
  "proj_ok T p \<longleftrightarrow> keys_ok p \<and> execs_ok p \<and> linked p \<and> retired T p \<and> conts_ok p \<and> one_unreleased p"

lemmas proj_ok_defs = keys_ok_def execs_ok_def linked_def retired_def conts_ok_def one_unreleased_def

lemma issue_execs_update:
  "issue_execs (p\<lparr>executions := e, issue_executions := AList.update iid xs (issue_executions p)\<rparr>) i =
     (if i = iid then xs else issue_execs p i)"
  by (simp add: issue_execs_def)

lemma issue_execs_frame [simp]:
  "issue_execs (p\<lparr>executions := e\<rparr>) = issue_execs p"
  "issue_execs (p\<lparr>containments := c\<rparr>) = issue_execs p"
  "issue_execs (p\<lparr>issues := a, issue_depends_on := d, p_issue_meta := m\<rparr>) = issue_execs p"
  "issue_execs (p\<lparr>issues := a, issue_base_commit := b\<rparr>) = issue_execs p"
  "issue_execs (p\<lparr>last_event_id := l, counts := n\<rparr>) = issue_execs p"
  by (simp_all add: issue_execs_def fun_eq_iff)

lemma annotate_frame:
  "annotate ev v = Inr v' \<Longrightarrow> x_state v' = x_state v \<and> x_issue_id v' = x_issue_id v \<and>
     x_execution_id v' = x_execution_id v \<and> commit_intended v' = commit_intended v \<and>
     commit_created v' = commit_created v \<and> base_commit v' = base_commit v"
  by (auto simp: annotate_def Let_def rbind_eq_Inr split: if_splits)

lemma doc03_step:
  "doc03_tables T \<Longrightarrow> EXECUTION_TRANSITIONS T (s, t) = Some fn \<Longrightarrow> fn pl = Inr s' \<Longrightarrow>
     \<not> EXECUTION_TERMINAL T s \<and> s \<noteq> ACCEPTED \<and> s' \<noteq> SPAWNED \<and> s' \<noteq> EXECUTING \<and> execution_row s t s'"
proof -
  assume T: "doc03_tables T" and "EXECUTION_TRANSITIONS T (s, t) = Some fn" "fn pl = Inr s'"
  then have r: "execution_row s t s'" unfolding doc03_tables_def by blast
  moreover from T have "EXECUTION_TERMINAL T s \<Longrightarrow> s \<in> {ACCEPTED, REJECTED, CRASHED}"
    unfolding doc03_tables_def by blast
  ultimately show ?thesis by (auto simp: execution_row_def)
qed

lemma doc03_issue_step:
  "doc03_tables T \<Longrightarrow> ISSUE_TRANSITIONS T (s, t) = Some fn \<Longrightarrow> fn pl = Inr s' \<Longrightarrow>
     s' \<noteq> PENDING \<and> (s = PENDING \<or> s = ACTIVE) \<and> issue_row s t s'"
proof -
  assume "doc03_tables T" "ISSUE_TRANSITIONS T (s, t) = Some fn" "fn pl = Inr s'"
  then have "issue_row s t s'" unfolding doc03_tables_def by blast
  then show ?thesis by (auto simp: issue_row_def)
qed

lemma note_event_ok: "proj_ok T p \<Longrightarrow> proj_ok T (note_event p ev)"
  by (auto simp: proj_ok_def proj_ok_defs note_event_def)

lemma keys_ok_step: "proj_step T p ev p' \<Longrightarrow> keys_ok p \<Longrightarrow> keys_ok p'"
  by (induction rule: proj_step.induct) (simp_all add: keys_ok_def del: keys_update_new keys_update_old)

lemma execs_ok_step: "proj_step T p ev p' \<Longrightarrow> doc03_tables T \<Longrightarrow> execs_ok p \<Longrightarrow> execs_ok p'"
proof (induction rule: proj_step.induct)
  case (move_execution xid v fn st v')
  have "x_state v \<noteq> ACCEPTED" "st \<noteq> SPAWNED"
    using doc03_step [OF move_execution.prems(1) move_execution.hyps(3,4)] by auto
  moreover have "exec_ok xid v" using move_execution.prems(2) move_execution.hyps(2) by (simp add: execs_ok_def)
  ultimately have "exec_ok xid v'"
    using annotate_frame [OF move_execution.hyps(5)] by (auto simp: exec_ok_def)
  with move_execution.prems(2) show ?case by (simp add: execs_ok_def)
qed (auto simp: execs_ok_def exec_ok_def new_execution_view_def doc03_tables_def)

lemma conts_ok_step: "proj_step T p ev p' \<Longrightarrow> conts_ok p \<Longrightarrow> conts_ok p'"
proof (induction rule: proj_step.induct)
  case (move_containment xid x g v v')
  then have "cont_ok (xid, g) v" by (simp add: conts_ok_def)
  with move_containment.hyps(7) have "cont_ok (xid, g) v'"
    by (auto simp: cont_ok_def split: containment_state.splits)
  with move_containment show ?case by (simp add: conts_ok_def)
qed (auto simp: conts_ok_def cont_ok_def)

lemma one_unreleased_step:
  "proj_step T p ev p' \<Longrightarrow> conts_ok p \<Longrightarrow> one_unreleased p \<Longrightarrow> one_unreleased p'"
proof (induction rule: proj_step.induct)
  case (prepare xid x g wk)
  have "c_state v = RELEASED" if "map_of (containments p) (xid, g') = Some v" for g' v
  proof -
    have "c_execution_id v = xid" using prepare.prems(1) that by (auto simp: conts_ok_def cont_ok_def)
    moreover have "v \<in> set (map snd (containments p))" using map_of_SomeD [OF that] by force
    ultimately show ?thesis using prepare.hyps(6) by blast
  qed
  with prepare.prems(2) show ?case by (auto simp: one_unreleased_def)
next
  case (move_containment xid x g v v')
  have "c_state v \<noteq> RELEASED" using move_containment.hyps(7) by auto
  with move_containment.prems(2) move_containment.hyps(5) show ?case
    by (auto simp: one_unreleased_def)
qed (auto simp: one_unreleased_def)

lemma linked_step: "proj_step T p ev p' \<Longrightarrow> doc03_tables T \<Longrightarrow> linked p \<Longrightarrow> linked p'"
proof (induction rule: proj_step.induct)
  case (move_issue iid cur fn st bcs)
  then show ?case using doc03_issue_step [OF move_issue.prems(1) move_issue.hyps(4,5)]
    by (auto simp: linked_def)
next
  case (spawn xid iid base pre)
  then have "xid \<notin> set (issue_execs p i)" for i by (auto simp: linked_def)
  with spawn show ?case
    by (auto simp: linked_def issue_execs_update new_execution_view_def)
next
  case (move_execution xid v fn st v')
  then show ?case using annotate_frame [OF move_execution.hyps(5)] by (auto simp: linked_def)
qed (auto simp: linked_def)

lemma in_set_butlast_or_last: "x \<in> set xs \<Longrightarrow> x \<in> set (butlast xs) \<or> x = last xs"
  by (induction xs) auto

lemma retired_update:
  assumes "retired T p" and "map_of (executions p) xid = Some v"
    and "EXECUTION_TERMINAL T (x_state v) \<Longrightarrow> EXECUTION_TERMINAL T (x_state v')"
  shows "retired T (p\<lparr>executions := AList.update xid v' (executions p)\<rparr>)"
  using assms unfolding retired_def by auto

lemma retired_step:
  "proj_step T p ev p' \<Longrightarrow> doc03_tables T \<Longrightarrow> linked p \<Longrightarrow> retired T p \<Longrightarrow> retired T p'"
proof (induction rule: proj_step.induct)
  case (spawn xid iid base pre)
  have "EXECUTION_TERMINAL T (x_state v)"
    if x: "x \<in> set (issue_execs p iid)" and v: "map_of (executions p) x = Some v" for x v
  proof (cases "x \<in> set (butlast (issue_execs p iid))")
    case True
    then show ?thesis using spawn.prems(3) v by (auto simp: retired_def)
  next
    case False
    then have "issue_execs p iid \<noteq> []" "x = last (issue_execs p iid)"
      using x in_set_butlast_or_last [OF x] by auto
    then have "latest_execution p iid = Some v" using v by (simp add: latest_execution_def)
    then show ?thesis by (rule spawn.hyps(6))
  qed
  moreover have "xid \<notin> set (issue_execs p i)" for i
    using spawn.prems(2) spawn.hyps(4) by (auto simp: linked_def)
  ultimately show ?case using spawn.prems(3)
    by (auto simp: retired_def issue_execs_update dest: in_set_butlastD)
next
  case (move_execution xid v fn st v')
  then show ?case
    using doc03_step [OF move_execution.prems(1) move_execution.hyps(3,4)] by (auto intro: retired_update)
next
  case (intend xid v ec tb)
  show ?case by (rule retired_update [OF intend.prems(3) intend.hyps(3)]) simp
next
  case (commit xid v)
  show ?case by (rule retired_update [OF commit.prems(3) commit.hyps(3)]) simp
qed (auto simp: retired_def)

lemma proj_ok_apply:
  assumes "doc03_tables T" and "proj_ok T p" and "apply_event T ev p = Inr p'"
  shows "proj_ok T p'"
proof -
  have s: "proj_step T (note_event p ev) ev p'"
    using assms(3) by (simp add: apply_event_def handle_step)
  have n: "proj_ok T (note_event p ev)" by (rule note_event_ok [OF assms(2)])
  show ?thesis
    using n keys_ok_step [OF s] execs_ok_step [OF s assms(1)] linked_step [OF s assms(1)]
      retired_step [OF s assms(1)] conts_ok_step [OF s] one_unreleased_step [OF s]
    unfolding proj_ok_def by blast
qed

lemma proj_ok_empty: "proj_ok T empty_projection"
  by (simp add: proj_ok_def proj_ok_defs empty_projection_def issue_execs_def)

lemma proj_ok_rebuild:
  "doc03_tables T \<Longrightarrow> proj_ok T p \<Longrightarrow> rebuild T evs p = Inr p' \<Longrightarrow> proj_ok T p'"
  unfolding rebuild_def by (erule rfold_invariant [rotated 2]) (auto intro: proj_ok_apply)

section \<open>What the projection says of the log\<close>

lemma rebuild_Nil [simp]: "rebuild T [] p = Inr p"
  by (simp add: rebuild_def)

lemma rebuild_Cons: "rebuild T (e # es) p = rbind (apply_event T e p) (rebuild T es)"
  by (simp add: rebuild_def rebuild_def [abs_def])

lemma rebuild_append: "rebuild T (xs @ ys) p = rbind (rebuild T xs p) (rebuild T ys)"
  by (simp add: rebuild_def rfold_append rebuild_def [abs_def])

lemma rebuild_snoc: "rebuild T (es @ [e]) p = rbind (rebuild T es p) (apply_event T e)"
  by (simp add: rebuild_def rfold_snoc)

text \<open>Induction on a log that replays: the projection before an event is well-formed.\<close>

lemma replay_induct [consumes 2, case_names Nil snoc]:
  assumes "doc03_tables T" and "rebuild T es empty_projection = Inr p"
    and "P [] empty_projection"
    and "\<And>es e p p'. rebuild T es empty_projection = Inr p \<Longrightarrow> proj_ok T p \<Longrightarrow> P es p \<Longrightarrow>
      proj_step T (note_event p e) e p' \<Longrightarrow> P (es @ [e]) p'"
  shows "P es p"
  using assms(2)
proof (induction es arbitrary: p rule: rev_induct)
  case (snoc e es)
  then obtain p0 where p0: "rebuild T es empty_projection = Inr p0" "apply_event T e p0 = Inr p"
    by (auto simp: rebuild_snoc rbind_eq_Inr)
  from p0(2) have "proj_step T (note_event p0 e) e p" by (simp add: apply_event_def handle_step)
  with snoc.IH [OF p0(1)] p0(1) assms(4) proj_ok_rebuild [OF assms(1) proj_ok_empty p0(1)]
  show ?case by blast
qed (use assms(3) in simp)

lemma note_event_frame [simp]:
  "issues (note_event p e) = issues p" "executions (note_event p e) = executions p"
  "containments (note_event p e) = containments p" "issue_execs (note_event p e) = issue_execs p"
  "issue_executions (note_event p e) = issue_executions p"
  by (simp_all add: note_event_def)

lemma step_counts:
  "proj_step T p e p' \<Longrightarrow> counts p' = counts p \<and> last_event_id p' = last_event_id p"
  by (induction rule: proj_step.induct) simp_all

text \<open>The lifecycle events of an execution, and what each state means for them.\<close>

definition lifecycle_types :: "event_type set" where
  "lifecycle_types = {EXECUTION_SPAWNED, EXECUTION_FINISHED, EXECUTION_CRASHED, VALIDATION_PASSED,
     VALIDATION_FAILED, REVIEW_APPROVED, REVIEW_REJECTED}"

definition lifecycle :: "string \<Rightarrow> event list \<Rightarrow> event_type list" where
  "lifecycle x es = map etype (filter (\<lambda>e. execution_id e = JStr x \<and> etype e \<in> lifecycle_types) es)"

fun history_of :: "execution_state \<Rightarrow> event_type list set" where
  "history_of SPAWNED = {}"
| "history_of EXECUTING = {[EXECUTION_SPAWNED]}"
| "history_of VALIDATING = {[EXECUTION_SPAWNED, EXECUTION_FINISHED]}"
| "history_of REVIEWING = {[EXECUTION_SPAWNED, EXECUTION_FINISHED, VALIDATION_PASSED]}"
| "history_of ACCEPTED = {[EXECUTION_SPAWNED, EXECUTION_FINISHED, VALIDATION_PASSED, REVIEW_APPROVED]}"
| "history_of REJECTED = {[EXECUTION_SPAWNED, EXECUTION_FINISHED],
     [EXECUTION_SPAWNED, EXECUTION_FINISHED, VALIDATION_FAILED],
     [EXECUTION_SPAWNED, EXECUTION_FINISHED, VALIDATION_PASSED, REVIEW_REJECTED]}"
| "history_of CRASHED = {[EXECUTION_SPAWNED, EXECUTION_CRASHED]}"

definition exec_state :: "projection \<Rightarrow> string \<Rightarrow> execution_state option" where
  "exec_state p x = map_option x_state (map_of (executions p) x)"

definition history_ok :: "event list \<Rightarrow> projection \<Rightarrow> bool" where
  "history_ok es p \<longleftrightarrow> (\<forall>x. lifecycle x es \<in>
     (case exec_state p x of None \<Rightarrow> {[]} | Some s \<Rightarrow> history_of s))"

lemma exec_state_update [simp]:
  "exec_state (p\<lparr>executions := AList.update xid v (executions p)\<rparr>) x =
     (if x = xid then Some (x_state v) else exec_state p x)"
  "exec_state (p\<lparr>executions := AList.update xid v (executions p), issue_executions := ie\<rparr>) x =
     (if x = xid then Some (x_state v) else exec_state p x)"
  by (simp_all add: exec_state_def)

lemma exec_state_frame [simp]:
  "exec_state (note_event p e) = exec_state p"
  "exec_state (p\<lparr>containments := c\<rparr>) = exec_state p"
  "exec_state (p\<lparr>issues := a, issue_depends_on := d, p_issue_meta := m\<rparr>) = exec_state p"
  "exec_state (p\<lparr>issues := a, issue_base_commit := b\<rparr>) = exec_state p"
  by (simp_all add: exec_state_def fun_eq_iff)

lemma exec_state_Some: "map_of (executions p) x = Some v \<Longrightarrow> exec_state p x = Some (x_state v)"
  by (simp add: exec_state_def)

lemma exec_state_None: "map_of (executions p) x = None \<Longrightarrow> exec_state p x = None"
  by (simp add: exec_state_def)

lemma lifecycle_snoc:
  "lifecycle x (es @ [e]) = lifecycle x es @
     (if execution_id e = JStr x \<and> etype e \<in> lifecycle_types then [etype e] else [])"
  by (simp add: lifecycle_def)

lemma history_row: "execution_row s t s' \<Longrightarrow> h \<in> history_of s \<Longrightarrow> h @ [t] \<in> history_of s'"
  by (auto simp: execution_row_def)

lemma history_at:
  "history_ok es p \<Longrightarrow> lifecycle x es \<in> (case exec_state p x of None \<Rightarrow> {[]} | Some s \<Rightarrow> history_of s)"
  by (simp add: history_ok_def)

lemma history_step:
  "proj_step T p e p' \<Longrightarrow> doc03_tables T \<Longrightarrow> history_ok es p \<Longrightarrow> history_ok (es @ [e]) p'"
proof (induction rule: proj_step.induct)
  case (spawn xid iid base pre)
  have "lifecycle xid es = []"
    using history_at [OF spawn.prems(2), of xid] exec_state_None [OF spawn.hyps(4)] by simp
  with spawn show ?case
    by (auto simp: history_ok_def lifecycle_snoc new_execution_view_def lifecycle_types_def)
next
  case (move_execution xid v fn st v')
  have "lifecycle xid es \<in> history_of (x_state v)"
    using history_at [OF move_execution.prems(2), of xid] exec_state_Some [OF move_execution.hyps(2)] by simp
  then have "lifecycle xid es @ [etype e] \<in> history_of (x_state v')"
    using history_row [of "x_state v" "etype e" st "lifecycle xid es"] doc03_step [OF move_execution.prems(1) move_execution.hyps(3,4)]
      annotate_frame [OF move_execution.hyps(5)] by simp
  with move_execution.prems(2) move_execution.hyps(1,6) show ?case
    by (auto simp: history_ok_def lifecycle_snoc lifecycle_types_def)
next
  case (intend xid v ec tb)
  then show ?case using exec_state_Some [OF intend.hyps(3)]
    by (auto simp: history_ok_def lifecycle_snoc lifecycle_types_def dest: spec [of _ xid])
next
  case (commit xid v)
  then show ?case using exec_state_Some [OF commit.hyps(3)]
    by (auto simp: history_ok_def lifecycle_snoc lifecycle_types_def dest: spec [of _ xid])
qed (auto simp: history_ok_def lifecycle_snoc lifecycle_types_def)

lemma history_replay:
  assumes T: "doc03_tables T" and r: "rebuild T es empty_projection = Inr p"
  shows "history_ok es p"
  using T r
proof (induction rule: replay_induct)
  case Nil
  show ?case by (simp add: history_ok_def lifecycle_def exec_state_def empty_projection_def)
next
  case (snoc es e p p')
  then show ?case
    using history_step [OF snoc(3) T, of es] by (simp add: history_ok_def)
qed

text \<open>The commit flags count the commit events.\<close>

definition events_of :: "event_type \<Rightarrow> string \<Rightarrow> event list \<Rightarrow> nat" where
  "events_of t x es = length (filter (\<lambda>e. etype e = t \<and> execution_id e = JStr x) es)"

definition commit_flags :: "projection \<Rightarrow> string \<Rightarrow> bool \<times> bool" where
  "commit_flags p x = (case map_of (executions p) x of
     None \<Rightarrow> (False, False) | Some v \<Rightarrow> (commit_intended v, commit_created v))"

definition commit_ok :: "event list \<Rightarrow> projection \<Rightarrow> bool" where
  "commit_ok es p \<longleftrightarrow> (\<forall>x. (events_of COMMIT_INTENT x es, events_of COMMIT_CREATED x es) =
     map_prod of_bool of_bool (commit_flags p x))"

lemma commit_flags_update [simp]:
  "commit_flags (p\<lparr>executions := AList.update xid v (executions p)\<rparr>) x =
     (if x = xid then (commit_intended v, commit_created v) else commit_flags p x)"
  "commit_flags (p\<lparr>executions := AList.update xid v (executions p), issue_executions := ie\<rparr>) x =
     (if x = xid then (commit_intended v, commit_created v) else commit_flags p x)"
  by (simp_all add: commit_flags_def)

lemma commit_flags_frame [simp]:
  "commit_flags (note_event p e) = commit_flags p"
  "commit_flags (p\<lparr>containments := c\<rparr>) = commit_flags p"
  "commit_flags (p\<lparr>issues := a, issue_depends_on := d, p_issue_meta := m\<rparr>) = commit_flags p"
  "commit_flags (p\<lparr>issues := a, issue_base_commit := b\<rparr>) = commit_flags p"
  by (simp_all add: commit_flags_def fun_eq_iff)

lemma commit_flags_Some:
  "map_of (executions p) x = Some v \<Longrightarrow> commit_flags p x = (commit_intended v, commit_created v)"
  by (simp add: commit_flags_def)

lemma commit_flags_None: "map_of (executions p) x = None \<Longrightarrow> commit_flags p x = (False, False)"
  by (simp add: commit_flags_def)

lemma events_of_snoc:
  "events_of t x (es @ [e]) = events_of t x es + of_bool (etype e = t \<and> execution_id e = JStr x)"
  by (simp add: events_of_def)

lemma commit_step: "proj_step T p e p' \<Longrightarrow> commit_ok es p \<Longrightarrow> commit_ok (es @ [e]) p'"
proof (induction rule: proj_step.induct)
  case (spawn xid iid base pre)
  then show ?case using commit_flags_None [OF spawn.hyps(4)]
    by (auto simp: commit_ok_def events_of_snoc new_execution_view_def dest: spec [of _ xid])
next
  case (move_execution xid v fn st v')
  then show ?case
    using annotate_frame [OF move_execution.hyps(5)] commit_flags_Some [OF move_execution.hyps(2)]
    by (auto simp: commit_ok_def events_of_snoc dest: spec [of _ xid])
next
  case (intend xid v ec tb)
  then show ?case using commit_flags_Some [OF intend.hyps(3)]
    by (auto simp: commit_ok_def events_of_snoc dest: spec [of _ xid])
next
  case (commit xid v)
  then show ?case using commit_flags_Some [OF commit.hyps(3)]
    by (auto simp: commit_ok_def events_of_snoc dest: spec [of _ xid])
qed (auto simp: commit_ok_def events_of_snoc)

lemma commit_at:
  "commit_ok es p \<Longrightarrow> events_of COMMIT_INTENT x es = of_bool (fst (commit_flags p x)) \<and>
     events_of COMMIT_CREATED x es = of_bool (snd (commit_flags p x))"
  unfolding commit_ok_def by (drule spec [of _ x]) (auto simp: map_prod_def split: prod.splits)

lemma commit_replay:
  assumes T: "doc03_tables T" and r: "rebuild T es empty_projection = Inr p"
  shows "commit_ok es p"
  using T r
proof (induction rule: replay_induct)
  case Nil
  show ?case by (simp add: commit_ok_def events_of_def commit_flags_def empty_projection_def)
next
  case (snoc es e p p')
  then show ?case using commit_step [OF snoc(3), of es] by (simp add: commit_ok_def)
qed

section \<open>What a later event cannot change\<close>

definition issue_final :: "issue_state \<Rightarrow> bool" where
  "issue_final st \<longleftrightarrow> st \<in> {DONE, NEEDS_HUMAN, NEEDS_DECOMPOSITION}"

definition issue_closed :: "string \<Rightarrow> issue_state \<Rightarrow> string list \<Rightarrow> projection \<Rightarrow> bool" where
  "issue_closed iid st xs p \<longleftrightarrow> map_of (issues p) iid = Some st \<and> issue_execs p iid = xs"

lemma issue_closed_step:
  "proj_step T p e p' \<Longrightarrow> doc03_tables T \<Longrightarrow> issue_final st \<Longrightarrow> issue_closed iid st xs p \<Longrightarrow>
   issue_closed iid st xs p'"
proof (induction rule: proj_step.induct)
  case (move_issue iid' cur fn st' bcs)
  then show ?case using doc03_issue_step [OF move_issue.prems(1) move_issue.hyps(4,5)]
    by (auto simp: issue_closed_def issue_final_def)
qed (auto simp: issue_closed_def issue_final_def issue_execs_update)

lemma issue_closed_rebuild:
  "doc03_tables T \<Longrightarrow> issue_final st \<Longrightarrow> issue_closed iid st xs p \<Longrightarrow> rebuild T es p = Inr p' \<Longrightarrow>
   issue_closed iid st xs p'"
  unfolding rebuild_def
proof (erule rfold_invariant [rotated 2])
  fix e p p'
  assume "doc03_tables T" "issue_final st" "issue_closed iid st xs p" "apply_event T e p = Inr p'"
  then show "issue_closed iid st xs p'"
    using issue_closed_step [OF handle_step, of T "note_event p e" e p' st iid xs]
    by (simp add: apply_event_def issue_closed_def)
qed

text \<open>A containment whose execution has left \<open>EXECUTING\<close> is frozen.\<close>

definition frozen :: "string \<times> string \<Rightarrow> containment_view \<Rightarrow> projection \<Rightarrow> bool" where
  "frozen k v p \<longleftrightarrow> map_of (containments p) k = Some v \<and>
     (\<exists>s. exec_state p (fst k) = Some s \<and> s \<noteq> EXECUTING)"

lemma frozen_step:
  "proj_step T p e p' \<Longrightarrow> doc03_tables T \<Longrightarrow> frozen k v p \<Longrightarrow> frozen k v p'"
proof (induction rule: proj_step.induct)
  case (move_execution xid x fn st x')
  have "x_state x' \<noteq> EXECUTING"
    using doc03_step [OF move_execution.prems(1) move_execution.hyps(3,4)]
      annotate_frame [OF move_execution.hyps(5)] by auto
  then show ?case using move_execution.prems(2) by (auto simp: frozen_def)
qed (auto simp: frozen_def exec_state_Some exec_state_None)

lemma frozen_rebuild:
  "doc03_tables T \<Longrightarrow> frozen k v p \<Longrightarrow> rebuild T es p = Inr p' \<Longrightarrow> frozen k v p'"
  unfolding rebuild_def
proof (erule rfold_invariant [rotated 2])
  fix e p p'
  assume "doc03_tables T" "frozen k v p" "apply_event T e p = Inr p'"
  then show "frozen k v p'"
    using frozen_step [OF handle_step, of T "note_event p e" e p' k v]
    by (simp add: apply_event_def frozen_def)
qed

lemma blocked_by:
  "map_of (containments p) k = Some v \<Longrightarrow> c_state v \<noteq> RELEASED \<Longrightarrow> is_workspace_blocked p (workspace_key v)"
  by (force simp: is_workspace_blocked_def unreleased_containments_def filter_empty_conv dest: map_of_SomeD)

lemma blocked_iff:
  "keys_ok p \<Longrightarrow> is_workspace_blocked p key \<longleftrightarrow>
     (\<exists>k v. map_of (containments p) k = Some v \<and> c_state v \<noteq> RELEASED \<and> workspace_key v = key)"
  by (force simp: is_workspace_blocked_def unreleased_containments_def filter_empty_conv keys_ok_def)

section \<open>Accounting\<close>

lemma step_attempts:
  "proj_step T p e p' \<Longrightarrow> attempts p' iid = attempts p iid +
     of_bool (etype e = EXECUTION_SPAWNED \<and> issue_id e = JStr iid)"
  by (induction rule: proj_step.induct) (auto simp: attempts_def issue_execs_update)

definition tally :: "event list \<Rightarrow> event_type \<Rightarrow> nat" where
  "tally es t = length (filter (\<lambda>e. etype e = t) es)"

definition spawns :: "event list \<Rightarrow> string \<Rightarrow> nat" where
  "spawns es iid = length (filter (\<lambda>e. etype e = EXECUTION_SPAWNED \<and> issue_id e = JStr iid) es)"

definition accounts :: "event list \<Rightarrow> projection \<Rightarrow> bool" where
  "accounts es p \<longleftrightarrow> (\<forall>t. count_of p (type_value t) = tally es t) \<and>
     last_event_id p = (if es = [] then 0 else event_id (last es)) \<and>
     (\<forall>iid. attempts p iid = spawns es iid)"

lemma count_of_note:
  "count_of (note_event p e) (type_value t) = count_of p (type_value t) + of_bool (etype e = t)"
  by (auto simp: count_of_def note_event_def type_value_inj)

lemma accounts_replay:
  assumes T: "doc03_tables T" and r: "rebuild T es empty_projection = Inr p"
  shows "accounts es p"
  using T r
proof (induction rule: replay_induct)
  case Nil
  show ?case by (simp add: accounts_def count_of_def tally_def spawns_def attempts_def
      issue_execs_def empty_projection_def)
next
  case (snoc es e p p')
  have c: "count_of p' k = count_of (note_event p e) k" for k
    using step_counts [OF snoc(3)] by (simp add: count_of_def)
  have l: "last_event_id p' = event_id e"
    using step_counts [OF snoc(3)] by (simp add: note_event_def)
  have a: "attempts p' iid = attempts p iid + of_bool (etype e = EXECUTION_SPAWNED \<and> issue_id e = JStr iid)" for iid
    using step_attempts [OF snoc(3), of iid] by (simp add: attempts_def)
  show ?case using snoc(4) by (simp add: accounts_def c l a count_of_note tally_def spawns_def)
qed

section \<open>A complete run, for the witnesses\<close>

definition sample_event :: "event_type \<Rightarrow> json \<Rightarrow> payload \<Rightarrow> int \<Rightarrow> event" where
  "sample_event t xid pl n = \<lparr>etype = t, payload = pl, issue_id = JStr ''i1'', execution_id = xid,
     run_id = JNull, ts = JStr ''2026-01-01T00:00:00Z'', event_id = n, schema_version = 1\<rparr>"

definition sample_log :: "event list" where
  "sample_log =
     [sample_event ISSUE_CREATED JNull [(''title'', JStr ''t'')] 1,
      sample_event ISSUE_ACTIVATED JNull [(''base_commit'', JStr ''c0'')] 2,
      sample_event EXECUTION_SPAWNED (JStr ''i1-e1'') [] 3,
      sample_event EXECUTION_CRASHED (JStr ''i1-e1'') [] 4,
      sample_event EXECUTION_SPAWNED (JStr ''i1-e2'') [] 5,
      sample_event EXECUTION_FINISHED (JStr ''i1-e2'') [(''end_commit'', JStr ''c1'')] 6,
      sample_event VALIDATION_PASSED (JStr ''i1-e2'') [(''validated_commit'', JStr ''c1'')] 7,
      sample_event REVIEW_APPROVED (JStr ''i1-e2'') [(''reviewed_commit'', JStr ''c1'')] 8,
      sample_event COMMIT_INTENT (JStr ''i1-e2'') [(''end_commit'', JStr ''c1'')] 9,
      sample_event COMMIT_CREATED (JStr ''i1-e2'') [] 10,
      sample_event ISSUE_COMPLETED JNull [] 11]"

lemma sample_replays: "\<exists>p. rebuild doc03 sample_log empty_projection = Inr p"
proof -
  have "is_ok (rebuild doc03 sample_log empty_projection)" by code_simp
  then show ?thesis by (simp add: is_ok_iff)
qed

text \<open>Splitting a log at one of its events.\<close>

lemma replay_split:
  assumes T: "doc03_tables T" and r: "rebuild T es empty_projection = Inr p" and i: "i < length es"
  shows "\<exists>q q'. rebuild T (take i es) empty_projection = Inr q \<and> proj_ok T q \<and>
    proj_step T (note_event q (es ! i)) (es ! i) q'"
proof -
  have "es = take i es @ es ! i # drop (Suc i) es" using i by (rule id_take_nth_drop)
  then have "rebuild T (take i es @ es ! i # drop (Suc i) es) empty_projection = Inr p" using r by simp
  then obtain q q' where q: "rebuild T (take i es) empty_projection = Inr q" "apply_event T (es ! i) q = Inr q'"
    by (auto simp: rebuild_append rebuild_Cons rbind_eq_Inr)
  have "proj_ok T q" by (rule proj_ok_rebuild [OF T proj_ok_empty q(1)])
  moreover have "proj_step T (note_event q (es ! i)) (es ! i) q'"
    using q(2) by (simp add: apply_event_def handle_step)
  ultimately show ?thesis using q(1) by blast
qed

lemma commit_created_step:
  "proj_step T p e p' \<Longrightarrow> etype e = COMMIT_CREATED \<Longrightarrow> doc03_tables T \<Longrightarrow> execution_id e = JStr x \<Longrightarrow>
   commit_flags p x = (True, False) \<and> exec_state p x = Some ACCEPTED"
  by (induction rule: proj_step.induct)
    (auto simp: commit_flags_Some exec_state_Some doc03_tables_def)

lemma length_filter_one:
  assumes "length (filter P xs) \<le> 1" and "i < length xs" "P (xs ! i)" and "j < length xs" "P (xs ! j)"
  shows "i = j"
proof -
  have "card {i. i < length xs \<and> P (xs ! i)} \<le> 1" using assms(1) by (simp add: length_filter_conv_card)
  moreover have "finite {i. i < length xs \<and> P (xs ! i)}" by simp
  ultimately show ?thesis using assms(2-) card_le_Suc0_iff_eq [of "{i. i < length xs \<and> P (xs ! i)}"]
    by auto
qed

lemma open_execution_eq:
  "proj_ok T p \<Longrightarrow> v \<in> set (open_executions p) \<longleftrightarrow>
     map_of (executions p) (x_execution_id v) = Some v \<and> x_state v = EXECUTING"
proof -
  assume p: "proj_ok T p"
  then have d: "distinct (keys (executions p))" by (simp add: proj_ok_def keys_ok_def)
  have x: "map_of (executions p) x = Some v \<Longrightarrow> x_execution_id v = x" for x
    using p by (auto simp: proj_ok_def execs_ok_def exec_ok_def)
  have "v \<in> set (open_executions p) \<longleftrightarrow> (\<exists>k. map_of (executions p) k = Some v) \<and> x_state v = EXECUTING"
    using d by (force simp: open_executions_def)
  then show ?thesis using x by metis
qed

lemma open_is_latest:
  assumes T: "doc03_tables T" and p: "proj_ok T p" and v: "v \<in> set (open_executions p)"
  shows "latest_execution p (x_issue_id v) = Some v"
proof -
  let ?x = "x_execution_id v" and ?xs = "issue_execs p (x_issue_id v)"
  have m: "map_of (executions p) ?x = Some v" "x_state v = EXECUTING"
    using v by (simp_all add: open_execution_eq [OF p])
  then have "?x \<in> set ?xs" using p by (auto simp: proj_ok_def linked_def)
  moreover have "?x \<notin> set (butlast ?xs)"
  proof
    assume "?x \<in> set (butlast ?xs)"
    then have "EXECUTION_TERMINAL T (x_state v)" using p m(1) by (auto simp: proj_ok_def retired_def)
    then show False using T m(2) by (auto simp: doc03_tables_def)
  qed
  ultimately have "?x = last ?xs" "?xs \<noteq> []" using in_set_butlast_or_last by fastforce+
  then show ?thesis using m(1) by (simp add: latest_execution_def)
qed

section \<open>Properties\<close>

text \<open>
  C21: every projection a log replays to is well-formed: the dictionaries have unique keys, an
  issue's list of executions and the executions agree, every execution but the latest of its issue
  is over, commit flags are set in order and only in ACCEPTED, every containment generation carries
  the evidence of its state, and at most one generation of an execution is unreleased.
\<close>

theorem replay_well_formed:
  assumes "doc03_tables T" and "rebuild T es empty_projection = Inr p"
  shows "proj_ok T p"
  by (rule proj_ok_rebuild [OF assms(1) proj_ok_empty assms(2)])

lemma replay_well_formed_witness: "\<exists>p. rebuild doc03 sample_log empty_projection = Inr p \<and> proj_ok doc03 p"
  using replay_well_formed [OF doc03_doc03_tables] sample_replays by blast

text \<open>
  C20: the state of an execution is exactly the history of its lifecycle events in the log:
  spawned once, then at most one event per phase, in the order of the document.
\<close>

theorem execution_history:
  assumes "doc03_tables T" and "rebuild T es empty_projection = Inr p"
    and "map_of (executions p) x = Some v"
  shows "lifecycle x es \<in> history_of (x_state v)"
  using history_at [OF history_replay [OF assms(1,2)], of x] exec_state_Some [OF assms(3)] by simp

lemma execution_history_witness:
  "\<exists>p v. rebuild doc03 sample_log empty_projection = Inr p \<and> map_of (executions p) ''i1-e2'' = Some v \<and>
     lifecycle ''i1-e2'' sample_log \<in> history_of (x_state v)"
proof -
  obtain p where p: "rebuild doc03 sample_log empty_projection = Inr p" using sample_replays by blast
  have "(case rebuild doc03 sample_log empty_projection of
      Inr p \<Rightarrow> map_of (executions p) ''i1-e2'' \<noteq> None | _ \<Rightarrow> False)" by code_simp
  then obtain v where "map_of (executions p) ''i1-e2'' = Some v" using p by auto
  with p execution_history [OF doc03_doc03_tables p this] show ?thesis by blast
qed

text \<open>
  C19: the commit protocol. A log that replays and has a CommitCreated for an execution has it once;
  before it comes the CommitIntent of the same execution, and before it the execution was spawned,
  finished, validated and approved, in this order and with nothing else.
\<close>

theorem commit_protocol:
  assumes T: "doc03_tables T" and r: "rebuild T es empty_projection = Inr p"
    and i: "i < length es" and t: "etype (es ! i) = COMMIT_CREATED" "execution_id (es ! i) = JStr x"
  shows "(\<exists>j < i. etype (es ! j) = COMMIT_INTENT \<and> execution_id (es ! j) = JStr x) \<and>
    lifecycle x (take i es) = [EXECUTION_SPAWNED, EXECUTION_FINISHED, VALIDATION_PASSED, REVIEW_APPROVED] \<and>
    (\<forall>k < length es. etype (es ! k) = COMMIT_CREATED \<and> execution_id (es ! k) = JStr x \<longrightarrow> k = i)"
proof (intro conjI)
  obtain q q' where q: "rebuild T (take i es) empty_projection = Inr q"
    "proj_step T (note_event q (es ! i)) (es ! i) q'"
    using replay_split [OF T r i] by blast
  from commit_created_step [OF q(2) t(1) T t(2)]
  have f: "commit_flags q x = (True, False)" and a: "exec_state q x = Some ACCEPTED" by simp_all
  have "events_of COMMIT_INTENT x (take i es) = 1"
    using commit_at [OF commit_replay [OF T q(1)], of x] f by simp
  then have "filter (\<lambda>e. etype e = COMMIT_INTENT \<and> execution_id e = JStr x) (take i es) \<noteq> []"
    by (auto simp: events_of_def)
  then obtain e where "e \<in> set (take i es)" "etype e = COMMIT_INTENT" "execution_id e = JStr x"
    by (auto simp: filter_empty_conv)
  then show "\<exists>j < i. etype (es ! j) = COMMIT_INTENT \<and> execution_id (es ! j) = JStr x"
    using i by (auto simp: in_set_conv_nth)
  show "lifecycle x (take i es) = [EXECUTION_SPAWNED, EXECUTION_FINISHED, VALIDATION_PASSED, REVIEW_APPROVED]"
    using history_at [OF history_replay [OF T q(1)], of x] a by simp
  have "events_of COMMIT_CREATED x es \<le> 1"
    using commit_at [OF commit_replay [OF T r], of x] by simp
  then show "\<forall>k < length es. etype (es ! k) = COMMIT_CREATED \<and> execution_id (es ! k) = JStr x \<longrightarrow> k = i"
    using length_filter_one i t unfolding events_of_def by blast
qed

lemma commit_protocol_witness:
  "\<exists>j < 9. etype (sample_log ! j) = COMMIT_INTENT \<and> execution_id (sample_log ! j) = JStr ''i1-e2''"
proof -
  obtain p where p: "rebuild doc03 sample_log empty_projection = Inr p" using sample_replays by blast
  show ?thesis
    using commit_protocol [OF doc03_doc03_tables p, of 9 "''i1-e2''"]
    by (simp add: sample_log_def sample_event_def)
qed

text \<open>
  C29: an issue that is DONE, NEEDS_HUMAN or NEEDS_DECOMPOSITION stays so through every further
  event, and no execution is ever added to it.
\<close>

theorem issue_final_forever:
  assumes "doc03_tables T" and "map_of (issues p) iid = Some st" and "issue_final st"
    and "rebuild T es p = Inr p'"
  shows "map_of (issues p') iid = Some st \<and> attempts p' iid = attempts p iid"
  using issue_closed_rebuild [OF assms(1,3) _ assms(4), of iid "issue_execs p iid"] assms(2)
  by (simp add: issue_closed_def attempts_def)

lemma issue_final_forever_witness:
  "\<exists>p p'. rebuild doc03 sample_log empty_projection = Inr p \<and>
     rebuild doc03 [sample_event HUMAN_INTERVENTION JNull [] 12] p = Inr p' \<and> map_of (issues p') ''i1'' = Some DONE"
proof -
  obtain p where p: "rebuild doc03 sample_log empty_projection = Inr p" using sample_replays by blast
  have "(case rebuild doc03 sample_log empty_projection of
      Inr p \<Rightarrow> map_of (issues p) ''i1'' = Some DONE | _ \<Rightarrow> False)" by code_simp
  then have d: "map_of (issues p) ''i1'' = Some DONE" using p by simp
  obtain p' where p': "rebuild doc03 [sample_event HUMAN_INTERVENTION JNull [] 12] p = Inr p'"
    by (simp add: rebuild_def apply_event_def handle_def sample_event_def)
  have "map_of (issues p') ''i1'' = Some DONE"
    using issue_final_forever [OF doc03_doc03_tables d _ p'] by (simp add: issue_final_def)
  with p p' show ?thesis by blast
qed

text \<open>
  C30: at most one execution of an issue is open (EXECUTING), and it is the issue's latest.
\<close>

theorem one_open_execution:
  assumes "doc03_tables T" and "rebuild T es empty_projection = Inr p"
    and "v \<in> set (open_executions p)"
  shows "latest_execution p (x_issue_id v) = Some v \<and>
    (\<forall>w \<in> set (open_executions p). x_issue_id w = x_issue_id v \<longrightarrow> w = v)"
proof -
  have p: "proj_ok T p" by (rule proj_ok_rebuild [OF assms(1) proj_ok_empty assms(2)])
  show ?thesis using open_is_latest [OF assms(1) p] assms(3) by (metis option.inject)
qed

lemma one_open_execution_witness:
  "\<exists>p v. rebuild doc03 (take 3 sample_log) empty_projection = Inr p \<and> latest_execution p ''i1'' = Some v"
proof -
  have "(case rebuild doc03 (take 3 sample_log) empty_projection of
      Inr p \<Rightarrow> map x_issue_id (open_executions p) = [''i1''] | _ \<Rightarrow> False)" by code_simp
  then obtain p v where p: "rebuild doc03 (take 3 sample_log) empty_projection = Inr p"
    and v: "open_executions p = [v]" "x_issue_id v = ''i1''" by (auto split: sum.splits)
  have "latest_execution p (x_issue_id v) = Some v"
    using one_open_execution [OF doc03_doc03_tables p, of v] v(1) by simp
  with p v(2) show ?thesis by auto
qed

text \<open>
  C31: a containment generation still unreleased when its execution leaves EXECUTING can never be
  released: whatever the log is extended by, its workspace stays blocked.
\<close>

theorem unreleased_after_execution_blocks_forever:
  assumes "doc03_tables T" and "map_of (containments p) (x, g) = Some v" and "c_state v \<noteq> RELEASED"
    and "map_of (executions p) x = Some ex" and "x_state ex \<noteq> EXECUTING"
    and "rebuild T es p = Inr p'"
  shows "map_of (containments p') (x, g) = Some v \<and> is_workspace_blocked p' (workspace_key v)"
  using frozen_rebuild [OF assms(1) _ assms(6), of "(x, g)" v] assms(2-5) blocked_by
  by (auto simp: frozen_def exec_state_Some)

definition sample_containment :: payload where
  "sample_containment = [(''containment_generation'', JStr ''g''),
     (''controller'', JObj [(''creation_time'', JStr ''t''), (''pid'', JInt 7)]),
     (''launch_mode'', JStr ''windows-job-list-at-create''),
     (''lease'', JObj [(''scope'', JStr ''Global''), (''version'', JStr ''v1'')]),
     (''protocol_version'', JStr ''windows-job-v1''), (''workspace_key'', JStr ''w'')]"

definition sample_crashed :: "event list" where
  "sample_crashed = take 3 sample_log @
     [sample_event EXECUTION_CONTAINMENT_PREPARED (JStr ''i1-e1'') sample_containment 4,
      sample_event EXECUTION_CRASHED (JStr ''i1-e1'') [] 5]"

lemma unreleased_after_execution_blocks_forever_witness:
  "\<exists>p p'. rebuild doc03 sample_crashed empty_projection = Inr p \<and>
     rebuild doc03 [sample_event HUMAN_INTERVENTION JNull [] 6] p = Inr p' \<and> is_workspace_blocked p' ''w''"
proof -
  have "(case rebuild doc03 sample_crashed empty_projection of
      Inr p \<Rightarrow> map_option workspace_key (map_of (containments p) (''i1-e1'', ''g'')) = Some ''w'' \<and>
        map_option c_state (map_of (containments p) (''i1-e1'', ''g'')) = Some PREPARED \<and>
        map_option x_state (map_of (executions p) ''i1-e1'') = Some CRASHED | _ \<Rightarrow> False)" by code_simp
  then obtain p v ex where p: "rebuild doc03 sample_crashed empty_projection = Inr p"
    and v: "map_of (containments p) (''i1-e1'', ''g'') = Some v" "workspace_key v = ''w''" "c_state v = PREPARED"
    and ex: "map_of (executions p) ''i1-e1'' = Some ex" "x_state ex = CRASHED" by (auto split: sum.splits)
  obtain p' where p': "rebuild doc03 [sample_event HUMAN_INTERVENTION JNull [] 6] p = Inr p'"
    by (simp add: rebuild_def apply_event_def handle_def sample_event_def)
  have "is_workspace_blocked p' (workspace_key v)"
    using unreleased_after_execution_blocks_forever [OF doc03_doc03_tables v(1) _ ex(1) _ p'] v(3) ex(2)
    by simp
  with p p' v(2) show ?thesis by auto
qed

text \<open>
  The accounting of a replay: the counter of every event type is the number of its events, the
  last event id is that of the last event, and an issue has as many attempts as spawn events name it.
\<close>

theorem replay_accounts:
  assumes "doc03_tables T" and "rebuild T es empty_projection = Inr p"
  shows "count_of p (type_value t) = tally es t \<and> attempts p iid = spawns es iid \<and>
    last_event_id p = (if es = [] then 0 else event_id (last es))"
  using accounts_replay [OF assms] by (simp add: accounts_def)

lemma replay_accounts_witness:
  "\<exists>p. rebuild doc03 sample_log empty_projection = Inr p \<and> attempts p ''i1'' = 2 \<and> last_event_id p = 11"
proof -
  obtain p where p: "rebuild doc03 sample_log empty_projection = Inr p" using sample_replays by blast
  have "spawns sample_log ''i1'' = 2" "event_id (last sample_log) = 11" "sample_log \<noteq> []"
    by code_simp+
  with replay_accounts [OF doc03_doc03_tables p] p show ?thesis by auto
qed

end
