(* ===== verification/Prog.thy ===== *)
theory Prog
  imports Prelude
begin

text \<open>
  Programs that change a state and may raise. The state at the moment of the exception is kept, as
  in Python: \<open>m s\<close> is the outcome and the state after it. \<open>triple P m Q E\<close> is the Hoare triple with
  one postcondition for a normal return and one for an exception.
\<close>

type_synonym ('s, 'e, 'a) prog = "'s \<Rightarrow> ('e + 'a) \<times> 's"

section \<open>Combinators\<close>

definition ret :: "'a \<Rightarrow> ('s, 'e, 'a) prog" where
  "ret a = (\<lambda>s. (Inr a, s))"

definition throw :: "'e \<Rightarrow> ('s, 'e, 'a) prog" where
  "throw e = (\<lambda>s. (Inl e, s))"

definition andthen :: "('s, 'e, 'a) prog \<Rightarrow> ('a \<Rightarrow> ('s, 'e, 'b) prog) \<Rightarrow> ('s, 'e, 'b) prog" where
  "andthen m f = (\<lambda>s. case m s of (Inl e, s') \<Rightarrow> (Inl e, s') | (Inr a, s') \<Rightarrow> f a s')"

text \<open>Read the state, change it, and use a fallible computation that does neither.\<close>

definition gets :: "('s \<Rightarrow> 'a) \<Rightarrow> ('s, 'e, 'a) prog" where
  "gets f = (\<lambda>s. (Inr (f s), s))"

definition modify :: "('s \<Rightarrow> 's) \<Rightarrow> ('s, 'e, unit) prog" where
  "modify f = (\<lambda>s. (Inr (), f s))"

definition lift :: "'e + 'a \<Rightarrow> ('s, 'e, 'a) prog" where
  "lift r = (\<lambda>s. (r, s))"

definition whenever :: "bool \<Rightarrow> ('s, 'e, unit) prog \<Rightarrow> ('s, 'e, unit) prog" where
  "whenever b m = (if b then m else ret ())"

text \<open>\<open>try: m except: h\<close>.\<close>

definition catch :: "('s, 'e, 'a) prog \<Rightarrow> ('e \<Rightarrow> ('s, 'e, 'a) prog) \<Rightarrow> ('s, 'e, 'a) prog" where
  "catch m h = (\<lambda>s. case m s of (Inl e, s') \<Rightarrow> h e s' | (Inr a, s') \<Rightarrow> (Inr a, s'))"

text \<open>A loop over a list that collects what its body returns.\<close>

fun for_each :: "('x \<Rightarrow> ('s, 'e, 'y) prog) \<Rightarrow> 'x list \<Rightarrow> ('s, 'e, 'y list) prog" where
  "for_each f [] = ret []"
| "for_each f (x # xs) = andthen (f x) (\<lambda>y. andthen (for_each f xs) (\<lambda>ys. ret (y # ys)))"

lemma andthen_eq:
  "andthen m f s = (r, s') \<longleftrightarrow>
     (\<exists>e. m s = (Inl e, s') \<and> r = Inl e) \<or> (\<exists>a s1. m s = (Inr a, s1) \<and> f a s1 = (r, s'))"
  by (cases "m s"; cases "fst (m s)") (auto simp: andthen_def)

lemma ret_apply [simp]: "ret a s = (Inr a, s)"
  by (simp add: ret_def)

lemma throw_apply [simp]: "throw e s = (Inl e, s)"
  by (simp add: throw_def)

lemma gets_apply [simp]: "gets f s = (Inr (f s), s)"
  by (simp add: gets_def)

lemma modify_apply [simp]: "modify f s = (Inr (), f s)"
  by (simp add: modify_def)

lemma lift_apply [simp]: "lift r s = (r, s)"
  by (simp add: lift_def)

section \<open>Triples\<close>

definition triple ::
  "('s \<Rightarrow> bool) \<Rightarrow> ('s, 'e, 'a) prog \<Rightarrow> ('a \<Rightarrow> 's \<Rightarrow> bool) \<Rightarrow> ('e \<Rightarrow> 's \<Rightarrow> bool) \<Rightarrow> bool" where
  "triple P m Q E \<longleftrightarrow> (\<forall>s. P s \<longrightarrow> (case m s of (Inr a, s') \<Rightarrow> Q a s' | (Inl e, s') \<Rightarrow> E e s'))"

lemma tripleI:
  assumes "\<And>s a s'. P s \<Longrightarrow> m s = (Inr a, s') \<Longrightarrow> Q a s'"
    and "\<And>s e s'. P s \<Longrightarrow> m s = (Inl e, s') \<Longrightarrow> E e s'"
  shows "triple P m Q E"
  using assms by (auto simp: triple_def split: prod.splits sum.splits)

lemma tripleD:
  "triple P m Q E \<Longrightarrow> P s \<Longrightarrow> m s = (Inr a, s') \<Longrightarrow> Q a s'"
  "triple P m Q E \<Longrightarrow> P s \<Longrightarrow> m s = (Inl e, s') \<Longrightarrow> E e s'"
  by (auto simp: triple_def)

text \<open>A program that never raises here.\<close>

lemma triple_total: "(\<And>s. P s \<Longrightarrow> \<exists>a s'. m s = (Inr a, s') \<and> Q a s') \<Longrightarrow> triple P m Q E"
  by (fastforce simp: triple_def)

lemma triple_conseq:
  "triple P' m Q' E' \<Longrightarrow> (\<And>s. P s \<Longrightarrow> P' s) \<Longrightarrow> (\<And>a s. Q' a s \<Longrightarrow> Q a s) \<Longrightarrow>
   (\<And>e s. E' e s \<Longrightarrow> E e s) \<Longrightarrow> triple P m Q E"
  unfolding triple_def by (force split: prod.splits sum.splits)

lemma triple_ret: "(\<And>s. P s \<Longrightarrow> Q a s) \<Longrightarrow> triple P (ret a) Q E"
  by (simp add: triple_def)

lemma triple_throw: "(\<And>s. P s \<Longrightarrow> E e s) \<Longrightarrow> triple P (throw e) Q E"
  by (simp add: triple_def)

lemma triple_gets: "(\<And>s. P s \<Longrightarrow> Q (f s) s) \<Longrightarrow> triple P (gets f) Q E"
  by (simp add: triple_def)

lemma triple_gets_then:
  "(\<And>a. triple (\<lambda>s. P s \<and> f s = a) (k a) Q E) \<Longrightarrow> triple P (andthen (gets f) k) Q E"
  unfolding triple_def andthen_def by simp

lemma triple_gets_any: "(\<And>a. triple P (k a) Q E) \<Longrightarrow> triple P (andthen (gets f) k) Q E"
  unfolding triple_def andthen_def by simp

lemma triple_modify: "(\<And>s. P s \<Longrightarrow> Q () (f s)) \<Longrightarrow> triple P (modify f) Q E"
  by (simp add: triple_def)

lemma triple_lift:
  "(\<And>a s. r = Inr a \<Longrightarrow> P s \<Longrightarrow> Q a s) \<Longrightarrow> (\<And>e s. r = Inl e \<Longrightarrow> P s \<Longrightarrow> E e s) \<Longrightarrow> triple P (lift r) Q E"
  by (auto simp: triple_def split: sum.splits)

lemma triple_andthen:
  "triple P m R E \<Longrightarrow> (\<And>a. triple (R a) (f a) Q E) \<Longrightarrow> triple P (andthen m f) Q E"
  unfolding triple_def andthen_def by (fastforce split: prod.splits sum.splits)

lemma triple_if:
  "(b \<Longrightarrow> triple P m Q E) \<Longrightarrow> (\<not> b \<Longrightarrow> triple P n Q E) \<Longrightarrow> triple P (if b then m else n) Q E"
  by simp

lemma triple_whenever:
  "(b \<Longrightarrow> triple P m Q E) \<Longrightarrow> (\<And>s. \<not> b \<Longrightarrow> P s \<Longrightarrow> Q () s) \<Longrightarrow> triple P (whenever b m) Q E"
  by (simp add: whenever_def triple_ret)

lemma triple_catch:
  "triple P m Q R \<Longrightarrow> (\<And>e. triple (R e) (h e) Q E) \<Longrightarrow> triple P (catch m h) Q E"
  unfolding triple_def catch_def by (fastforce split: prod.splits sum.splits)

lemma triple_ghost: "(\<And>x. triple (\<lambda>s. P s \<and> f s = x) m Q E) \<Longrightarrow> triple P m Q E"
  by (auto simp: triple_def)

lemma triple_case_prod: "(\<And>a b. r = (a, b) \<Longrightarrow> triple P (f a b) Q E) \<Longrightarrow> triple P (case r of (a, b) \<Rightarrow> f a b) Q E"
  by (cases r) simp

lemma triple_fact: "(\<And>s. P s \<Longrightarrow> B) \<Longrightarrow> (B \<Longrightarrow> triple P m Q E) \<Longrightarrow> triple P m Q E"
  unfolding triple_def by metis

text \<open>A fact that does not mention the state is kept.\<close>

lemma triple_keep_fact:
  assumes "triple P m (\<lambda>a s. P s \<and> R a) E" and "\<And>a. B \<Longrightarrow> R a \<Longrightarrow> C a"
  shows "triple (\<lambda>s. P s \<and> B) m (\<lambda>a s. P s \<and> C a) E"
proof (cases B)
  case True
  then show ?thesis using assms(2) by (auto intro: triple_conseq [OF assms(1)])
qed (simp add: triple_def)

text \<open>The loop rule: an invariant over what is done, what it returned, and the state.\<close>

lemma triple_for_each_res:
  assumes "\<And>x done ys rest. xs = done @ x # rest \<Longrightarrow> triple (I done ys) (f x) (\<lambda>y. I (done @ [x]) (ys @ [y])) E"
    and "\<And>ys s. I xs ys s \<Longrightarrow> Q ys s"
  shows "triple (I [] []) (for_each f xs) Q E"
proof -
  have "triple (I done ys) (for_each f rest) (\<lambda>zs. I xs (ys @ zs)) E" if "xs = done @ rest" for "done" ys rest
    using that
  proof (induction rest arbitrary: "done" ys)
    case (Cons x rest)
    have "triple (I (done @ [x]) (ys @ [y])) (for_each f rest) (\<lambda>zs. I xs (ys @ y # zs)) E" for y
      using Cons.IH [of "done @ [x]" "ys @ [y]"] Cons.prems by simp
    then have "triple (I (done @ [x]) (ys @ [y])) (andthen (for_each f rest) (\<lambda>zs. ret (y # zs)))
        (\<lambda>zs. I xs (ys @ zs)) E" for y
      by (rule triple_andthen) (simp add: triple_ret)
    then show ?case unfolding for_each.simps by (rule triple_andthen [OF assms(1) [OF Cons.prems]])
  qed (simp add: triple_ret)
  from this [of "[]" xs "[]"] show ?thesis using assms(2) by (auto intro: triple_conseq)
qed

lemma triple_for_each:
  assumes "\<And>x done rest. xs = done @ x # rest \<Longrightarrow> triple (I done) (f x) (\<lambda>_. I (done @ [x])) E"
    and "\<And>ys s. I xs s \<Longrightarrow> Q ys s"
  shows "triple (I []) (for_each f xs) Q E"
  by (rule triple_for_each_res [where I = "\<lambda>done _. I done"]) (use assms in auto)

text \<open>An invariant that survives returns and exceptions alike.\<close>

definition keeps :: "('s \<Rightarrow> bool) \<Rightarrow> ('s, 'e, 'a) prog \<Rightarrow> bool" where
  "keeps I m \<longleftrightarrow> triple I m (\<lambda>_. I) (\<lambda>_. I)"

lemma keepsI: "(\<And>s. I s \<Longrightarrow> I (snd (m s))) \<Longrightarrow> keeps I m"
  by (auto simp: keeps_def triple_def split: prod.splits sum.splits) (metis snd_conv)+

lemma keepsD: "keeps I m \<Longrightarrow> I s \<Longrightarrow> I (snd (m s))"
  by (cases "m s"; cases "fst (m s)") (force simp: keeps_def triple_def)+

lemma keeps_triple: "keeps P m \<Longrightarrow> (\<And>e s. P s \<Longrightarrow> E e s) \<Longrightarrow> triple P m (\<lambda>_. P) E"
  unfolding keeps_def by (erule triple_conseq)

named_theorems keeps_rules \<open>programs that keep an invariant\<close>

lemma keeps_simple [keeps_rules]:
  "keeps I (ret a)" "keeps I (throw e)" "keeps I (gets f)" "keeps I (lift r)"
  by (auto intro!: keepsI)

lemma keeps_andthen [keeps_rules]: "keeps I m \<Longrightarrow> (\<And>a. keeps I (f a)) \<Longrightarrow> keeps I (andthen m f)"
  unfolding keeps_def by (rule triple_andthen)

lemma keeps_if [keeps_rules]: "(b \<Longrightarrow> keeps I m) \<Longrightarrow> (\<not> b \<Longrightarrow> keeps I n) \<Longrightarrow> keeps I (if b then m else n)"
  by simp

lemma keeps_whenever [keeps_rules]: "(b \<Longrightarrow> keeps I m) \<Longrightarrow> keeps I (whenever b m)"
  by (simp add: whenever_def keeps_simple)

lemma keeps_catch [keeps_rules]: "keeps I m \<Longrightarrow> (\<And>e. keeps I (h e)) \<Longrightarrow> keeps I (catch m h)"
  unfolding keeps_def by (rule triple_catch)

lemma keeps_for_each [keeps_rules]: "(\<And>x. x \<in> set xs \<Longrightarrow> keeps I (f x)) \<Longrightarrow> keeps I (for_each f xs)"
  by (induction xs) (auto intro!: keeps_rules)

lemma keeps_case_option [keeps_rules]:
  "(x = None \<Longrightarrow> keeps I m) \<Longrightarrow> (\<And>a. x = Some a \<Longrightarrow> keeps I (f a)) \<Longrightarrow>
   keeps I (case x of None \<Rightarrow> m | Some a \<Rightarrow> f a)"
  by (cases x) auto

end
