(* ===== verification/Pack.thy ===== *)
theory Pack
  imports Projection
begin

text \<open>
  What surrounds an execution and is a pure function: the prompt the engine receives
  (\<open>src/runtime/context/pack.py\<close>) and the run budget (\<open>src/runtime/budget/manager.py\<close>).
\<close>

section \<open>The context pack\<close>

text \<open>
  \<open>PromptTypeError\<close> stands for the \<open>AttributeError\<close> and \<open>TypeError\<close> of a metadata field of the wrong
  type. \<open>PromptUnmodelled\<close> is the text Python prints for a float, a list or a dictionary.
\<close>

datatype prompt_error = PromptTypeError | PromptUnmodelled

definition py_str :: "json \<Rightarrow> prompt_error + string" where
  "py_str v = (case v of
     JStr s \<Rightarrow> Inr s | JInt i \<Rightarrow> Inr (show_int i) | JNull \<Rightarrow> Inr ''None''
   | JBool b \<Rightarrow> Inr (if b then ''True'' else ''False'') | _ \<Rightarrow> Inl PromptUnmodelled)"

text \<open>\<open>v.strip()\<close>.\<close>

definition py_strip :: "json \<Rightarrow> prompt_error + string" where
  "py_strip v = (case v of JStr s \<Rightarrow> Inr (strip s) | _ \<Rightarrow> Inl PromptTypeError)"

definition py_iter :: "json \<Rightarrow> prompt_error + json list" where
  "py_iter v = (case py_list v of Inl _ \<Rightarrow> Inl PromptTypeError | Inr xs \<Rightarrow> Inr xs)"

definition feedback_line :: "json \<Rightarrow> prompt_error + string list" where
  "feedback_line fb = (case fb of
     JObj kvs \<Rightarrow>
       let cat = jget kvs ''category''; msg = jget kvs ''message''
       in if \<not> truthy msg then Inr []
          else rbind (py_str msg) (\<lambda>m.
            if truthy cat then rbind (py_str cat) (\<lambda>c. Inr [''  - ['' @ c @ ''] '' @ m])
            else Inr [''  - '' @ m])
   | _ \<Rightarrow> Inr [])"

definition feedback_group :: "execution_view \<Rightarrow> prompt_error + string list" where
  "feedback_group view =
     (if \<not> truthy (taxonomy_category view) \<and> feedback view = [] then Inr []
      else rbind (if truthy (taxonomy_category view)
                  then rbind (py_str (taxonomy_category view)) (\<lambda>t. Inr ('' ('' @ t @ '')''))
                  else Inr []) (\<lambda>tax.
           rbind (rmap feedback_line (feedback view)) (\<lambda>ls.
           Inr ((''- Attempt '' @ x_execution_id view @ tax @ '':'') # concat ls))))"

text \<open>\<open>proj.executions[xid]\<close> is a key of every projection that is a replay.\<close>

definition accumulated_feedback :: "projection \<Rightarrow> string \<Rightarrow> prompt_error + string list" where
  "accumulated_feedback p iid = rbind (rmap (\<lambda>xid. case map_of (executions p) xid of
       None \<Rightarrow> Inl PromptTypeError | Some view \<Rightarrow> feedback_group view) (issue_execs p iid))
     (\<lambda>gs. Inr (concat gs))"

text \<open>
  The em dash of two literals is above the model's code points: it stands as its three UTF-8 bytes.
\<close>

definition EM_DASH :: string where
  "EM_DASH = [CHR 0xE2, CHR 0x80, CHR 0x94]"

definition feedback_intro :: string where
  "feedback_intro = ''Prior executions on this issue were rejected. Address every point '' @
     ''below '' @ EM_DASH @ '' repeating a mistake will escalate the issue out of the loop.''"

definition constraints :: "string list" where
  "constraints = [''- Work ONLY inside this workspace directory.'',
     ''- Do NOT run git, commit, branch, push, or touch version control '' @ EM_DASH @
     '' the runtime owns all git operations and git tools are disabled for you.'',
     ''- Do NOT access the network or read credentials.'',
     ''- Implement the change directly by editing files; keep the diff minimal and focused on the issue.'']"

definition no_meta :: issue_meta where
  "no_meta = \<lparr>m_title = JStr [], m_body = JStr [], m_acceptance_criteria = JArr []\<rparr>"

definition meta_of :: "projection \<Rightarrow> string \<Rightarrow> issue_meta" where
  "meta_of p iid = (case map_of (p_issue_meta p) iid of None \<Rightarrow> no_meta | Some m \<Rightarrow> m)"

text \<open>A tier with its heading, absent when it has no lines.\<close>

definition block :: "string list \<Rightarrow> string list \<Rightarrow> string list" where
  "block heading ls = (if ls = [] then [] else heading @ ls @ [[]])"

definition build_prompt :: "projection \<Rightarrow> string \<Rightarrow> string list \<Rightarrow> prompt_error + string" where
  "build_prompt p iid validation_commands =
     (let m = meta_of p iid in
     rbind (py_strip (m_title m)) (\<lambda>title.
     rbind (py_strip (json_or (m_body m) (JStr []))) (\<lambda>body.
     rbind (py_iter (json_or (m_acceptance_criteria m) (JArr []))) (\<lambda>ac.
     rbind (rmap py_str ac) (\<lambda>acs.
     rbind (accumulated_feedback p iid) (\<lambda>fb.
     Inr (join [LF]
       ([rstrip (''# Issue '' @ iid @ '': '' @ title), []] @
        (if body = [] then [] else [body, []]) @
        block [''## Acceptance criteria''] (map (\<lambda>c. ''- '' @ c) acs) @
        block [''## Feedback from previous attempts'', feedback_intro] fb @
        block [''## Verify your work'', ''Your change must make these commands pass:'']
          (map (\<lambda>c. ''- `'' @ c @ ''`'') validation_commands) @
        [''## Constraints''] @ constraints) @ [LF])))))))"

section \<open>The budget\<close>

record budget_manager =
  max_executions_per_run :: int
  hard_stop_proxy_cost_per_run_usd :: pyfloat
  executions_started :: int
  proxy_dollars :: pyfloat

text \<open>A decision is the reason of the refusal, with the numbers its message prints, or none.\<close>

datatype budget_stop = MaxExecutionsReached int int | ProxyCostReached pyfloat pyfloat

datatype usage_error = UsageOverflowError

definition new_budget :: "int \<Rightarrow> pyfloat \<Rightarrow> budget_manager" where
  "new_budget n usd = \<lparr>max_executions_per_run = n, hard_stop_proxy_cost_per_run_usd = usd,
     executions_started = 0, proxy_dollars = Fin 0\<rparr>"

definition budget_check :: "budget_manager \<Rightarrow> budget_stop option" where
  "budget_check b =
     (if max_executions_per_run b \<le> executions_started b
      then Some (MaxExecutionsReached (executions_started b) (max_executions_per_run b))
      else if float_le (hard_stop_proxy_cost_per_run_usd b) (proxy_dollars b)
      then Some (ProxyCostReached (proxy_dollars b) (hard_stop_proxy_cost_per_run_usd b))
      else None)"

definition note_execution_started :: "budget_manager \<Rightarrow> budget_manager" where
  "note_execution_started b = b\<lparr>executions_started := executions_started b + 1\<rparr>"

text \<open>\<open>float(dollars)\<close> of a number, a boolean being one in Python; an integer may be too large.\<close>

definition dollars_of :: "json \<Rightarrow> usage_error + pyfloat option" where
  "dollars_of v = (case v of
     JInt i \<Rightarrow> (case float_of_int i of None \<Rightarrow> Inl UsageOverflowError | Some x \<Rightarrow> Inr (Some x))
   | JFloat l \<Rightarrow> Inr (Some (float_of_lexeme l))
   | JBool b \<Rightarrow> Inr (Some (Fin (if b then 1 else 0)))
   | _ \<Rightarrow> Inr None)"

definition record_usage :: "payload \<Rightarrow> budget_manager \<Rightarrow> usage_error + budget_manager" where
  "record_usage usage b =
     (if usage = [] then Inr b
      else rbind (dollars_of (jget usage ''dollars'')) (\<lambda>d. case d of
        None \<Rightarrow> Inr b
      | Some x \<Rightarrow> Inr (b\<lparr>proxy_dollars := float_add (proxy_dollars b) x\<rparr>)))"

text \<open>\<open>round(x, n)\<close>: the decimal with \<open>n\<close> digits nearest to the exact value, read back as a double.\<close>

definition round_digits :: "nat \<Rightarrow> pyfloat \<Rightarrow> pyfloat" where
  "round_digits n x = (case x of
     Fin r \<Rightarrow> round_double (of_int (round_half_even (r * 10 ^ n)) / 10 ^ n) | _ \<Rightarrow> x)"

definition budget_metrics :: "budget_manager \<Rightarrow> int \<times> pyfloat" where
  "budget_metrics b = (executions_started b, round_digits 6 (proxy_dollars b))"

end
