(* ===== verification/Runtime.thy ===== *)
theory Runtime
  imports ProjectionInv Prog Pack
begin

text \<open>
  What recovery and the orchestrator share: the environment they run in (the transition tables, the
  clock, and the methods of \<open>RepositoryAdapter\<close>, \<open>src/runtime/repo/adapter.py\<close>, as programs over an
  abstract world), their state (the log writer, the projection, the world), the durable emit of an
  event, and the invariant that the projection is the replay of the log.
\<close>

section \<open>Errors\<close>

datatype tamper =
    IntentWithoutEnd string
  | NoMergeWitness string
  | NoBaseForRedo string

datatype halt =
    TargetHasNoHead
  | NotActionable
  | NoMove
  | NoBaseCommit
  | ContainmentUnresolved
  | PinBroken
  | NoMergeForIntent

datatype rt_error =
    LogFailed log_error
  | ApplyFailed proj_error
  | RepoFailed string
  | ArgumentTypeError
  | WorkspaceContainmentBlocked
  | TamperError tamper
  | OrchestratorHalt halt
  | BudgetExhausted budget_stop
  | ReviewerFailed string
  | ReviewParseFailed string
  | PromptFailed prompt_error
  | UsageFailed usage_error
  | Interrupted

section \<open>The environment\<close>

type_synonym ('w, 'a) repo_call = "('w, string, 'a) prog"

text \<open>\<open>blocking\<close> is \<open>worktree_status().blocking\<close>.\<close>

record 'w env =
  env_tables :: tables
  utcnow :: "'w \<Rightarrow> string"
  ref_namespace :: string
  current_commit :: "('w, string) repo_call"
  head_of :: "string \<Rightarrow> ('w, string option) repo_call"
  untracked_paths :: "('w, string list) repo_call"
  blocking :: "('w, bool) repo_call"
  commit_exists :: "string \<Rightarrow> ('w, bool) repo_call"
  is_ancestor :: "string \<Rightarrow> string \<Rightarrow> ('w, bool) repo_call"
  ref_target :: "string \<Rightarrow> ('w, string option) repo_call"
  list_attempt_refs :: "string option \<Rightarrow> ('w, (string \<times> string) list) repo_call"
  diff :: "string \<Rightarrow> string \<Rightarrow> ('w, string) repo_call"
  added_files :: "string \<Rightarrow> string \<Rightarrow> ('w, string list) repo_call"
  find_merge_commit :: "string \<Rightarrow> string \<Rightarrow> ('w, string option) repo_call"
  checkout_branch :: "string \<Rightarrow> string option \<Rightarrow> ('w, unit) repo_call"
  snapshot_commit :: "string \<Rightarrow> json list \<Rightarrow> ('w, string option) repo_call"
  set_attempt_ref :: "string \<Rightarrow> string \<Rightarrow> string \<Rightarrow> ('w, string) repo_call"
  reset_hard :: "string \<Rightarrow> string list \<Rightarrow> ('w, unit) repo_call"
  merge_to :: "string \<Rightarrow> string \<Rightarrow> string \<Rightarrow> ('w, string) repo_call"
  delete_attempt_ref :: "string \<Rightarrow> string \<Rightarrow> ('w, bool) repo_call"
  recover_workspace :: "('w, string list) repo_call"

section \<open>The state\<close>

record 'w rt =
  rt_log :: writer
  rt_proj :: projection
  rt_world :: 'w

type_synonym ('w, 'a) rprog = "('w rt, rt_error, 'a) prog"

text \<open>A call of the adapter changes the world only, also where a program keeps more state.\<close>

definition repo_call :: "('w, 'a) repo_call \<Rightarrow> (('w, 'z) rt_scheme, rt_error, 'a) prog" where
  "repo_call m = (\<lambda>s. case m (rt_world s) of
     (Inl e, w) \<Rightarrow> (Inl (RepoFailed e), s\<lparr>rt_world := w\<rparr>)
   | (Inr a, w) \<Rightarrow> (Inr a, s\<lparr>rt_world := w\<rparr>))"

text \<open>
  A commit read from a payload may be any JSON value; \<open>subprocess\<close> refuses an argument that is not a
  string.
\<close>

definition str_arg :: "json \<Rightarrow> rt_error + string" where
  "str_arg v = (case v of JStr s \<Rightarrow> Inr s | _ \<Rightarrow> Inl ArgumentTypeError)"

definition jopt :: "string option \<Rightarrow> json" where
  "jopt x = (case x of None \<Rightarrow> JNull | Some s \<Rightarrow> JStr s)"

text \<open>
  \<open>Event(type=..., ...)\<close>: the id is unassigned, the timestamp is the clock's. Payload literals are
  written with their keys in order, as the line format stores them.
\<close>

definition new_event :: "event_type \<Rightarrow> json \<Rightarrow> json \<Rightarrow> json \<Rightarrow> payload \<Rightarrow> string \<Rightarrow> event" where
  "new_event t iid xid rid pl now = \<lparr>etype = t, payload = pl, issue_id = iid, execution_id = xid,
     run_id = rid, ts = JStr now, event_id = 0, schema_version = 1\<rparr>"

text \<open>
  \<open>_emit\<close>: append (write, flush, fsync), then apply the persisted event. If applying raises, the
  event is on disk already; the projection object is not used again.
\<close>

definition emit :: "tables \<Rightarrow> event \<Rightarrow> (('w, 'z) rt_scheme, rt_error, event) prog" where
  "emit T ev = (\<lambda>s. case append_event ev (rt_log s) of
     Inl e \<Rightarrow> (Inl (LogFailed e), s)
   | Inr (eid, wr) \<Rightarrow>
       let s1 = s\<lparr>rt_log := wr\<rparr>; persisted = stamp ev eid
       in case apply_event T persisted (rt_proj s1) of
            Inl e \<Rightarrow> (Inl (ApplyFailed e), s1)
          | Inr p \<Rightarrow> (Inr persisted, s1\<lparr>rt_proj := p\<rparr>))"

text \<open>\<open>sha or adapter.current_commit()\<close>.\<close>

definition residue_commit :: "'w env \<Rightarrow> string option \<Rightarrow> (('w, 'z) rt_scheme, rt_error, string) prog" where
  "residue_commit env sha = (case sha of
     Some c \<Rightarrow> if c = [] then repo_call (current_commit env) else ret c
   | None \<Rightarrow> repo_call (current_commit env))"

section \<open>The projection is the replay of the log\<close>

definition in_sync :: "tables \<Rightarrow> ('w, 'z) rt_scheme \<Rightarrow> bool" where
  "in_sync T s \<longleftrightarrow> writer_ok (rt_log s) \<and>
     rebuild T (writer_contents (rt_log s)) empty_projection = Inr (rt_proj s)"

text \<open>The log of a state extends that of another by events that satisfy \<open>P\<close>.\<close>

definition extends :: "(event \<Rightarrow> bool) \<Rightarrow> ('w, 'z) rt_scheme \<Rightarrow> ('w, 'z) rt_scheme \<Rightarrow> bool" where
  "extends P s0 s \<longleftrightarrow> (\<exists>new. writer_contents (rt_log s) = writer_contents (rt_log s0) @ new \<and>
     (\<forall>e \<in> set new. P e))"

lemma extends_refl [simp]: "extends P s s"
  by (simp add: extends_def)

lemma extends_trans: "extends P s0 s1 \<Longrightarrow> extends P s1 s2 \<Longrightarrow> extends P s0 s2"
  by (auto simp: extends_def)

lemma extends_mono: "extends P s0 s \<Longrightarrow> (\<And>e. P e \<Longrightarrow> Q e) \<Longrightarrow> extends Q s0 s"
  by (auto simp: extends_def)

lemma in_sync_world [simp]:
  "in_sync T (s\<lparr>rt_world := w\<rparr>) = in_sync T s" "extends P s0 (s\<lparr>rt_world := w\<rparr>) = extends P s0 s"
  by (simp_all add: in_sync_def extends_def)

lemma in_sync_proj_ok: "doc03_tables T \<Longrightarrow> in_sync T s \<Longrightarrow> proj_ok T (rt_proj s)"
  unfolding in_sync_def using proj_ok_rebuild proj_ok_empty by blast

lemma repo_call_frame:
  "repo_call m s = (r, s') \<Longrightarrow> rt_log s' = rt_log s \<and> rt_proj s' = rt_proj s"
  by (auto simp: repo_call_def split: prod.splits sum.splits)

lemma triple_repo_call:
  assumes "\<And>s w. P s \<Longrightarrow> P (s\<lparr>rt_world := w\<rparr>)"
  shows "triple P (repo_call m) (\<lambda>_. P) (\<lambda>e s. P s \<and> (\<exists>r. e = RepoFailed r))"
  using assms by (auto simp: triple_def repo_call_def split: prod.splits sum.splits)

lemma keeps_repo_call [keeps_rules]:
  "(\<And>s w. P s \<Longrightarrow> P (s\<lparr>rt_world := w\<rparr>)) \<Longrightarrow> keeps P (repo_call m)"
  unfolding keeps_def by (rule triple_conseq [OF triple_repo_call]) auto

text \<open>Emitting a well-formed event that applies keeps log and projection in step.\<close>

lemma emit_sync:
  assumes "in_sync T s" and "good_event ev"
    and "apply_event T (stamp ev (int (length (writer_contents (rt_log s))) + 1)) (rt_proj s) = Inr p"
  shows "\<exists>s'. emit T ev s = (Inr (stamp ev (int (length (writer_contents (rt_log s))) + 1)), s') \<and>
    in_sync T s' \<and> rt_proj s' = p \<and> rt_world s' = rt_world s \<and>
    writer_contents (rt_log s') = writer_contents (rt_log s) @
      [stamp ev (int (length (writer_contents (rt_log s))) + 1)]"
proof -
  let ?e = "stamp ev (int (length (writer_contents (rt_log s))) + 1)"
  obtain w' where w': "append_event ev (rt_log s) = Inr (int (length (writer_contents (rt_log s))) + 1, w')"
    "writer_ok w'" "writer_contents w' = writer_contents (rt_log s) @ [?e]"
    using file_store.emit_ok [of "rt_log s" ev] assms(1,2) by (auto simp: in_sync_def)
  then show ?thesis using assms(1,3)
    by (auto simp: emit_def in_sync_def rebuild_snoc)
qed

text \<open>Whatever the event, an emit that returns leaves log and projection in step.\<close>

lemma emit_returns:
  assumes "in_sync T s" and "good_event ev" and "emit T ev s = (Inr e, s')"
  shows "in_sync T s' \<and> rt_world s' = rt_world s \<and>
    e = stamp ev (int (length (writer_contents (rt_log s))) + 1) \<and>
    writer_contents (rt_log s') = writer_contents (rt_log s) @ [e] \<and>
    apply_event T e (rt_proj s) = Inr (rt_proj s')"
proof -
  obtain w' where w': "append_event ev (rt_log s) = Inr (int (length (writer_contents (rt_log s))) + 1, w')"
    using file_store.emit_ok [of "rt_log s" ev] assms(1,2) by (auto simp: in_sync_def)
  then obtain p where "apply_event T (stamp ev (int (length (writer_contents (rt_log s))) + 1)) (rt_proj s) = Inr p"
    "e = stamp ev (int (length (writer_contents (rt_log s))) + 1)"
    using assms(3) by (auto simp: emit_def Let_def split: sum.splits)
  then show ?thesis using emit_sync [OF assms(1,2)] assms(3) by force
qed

section \<open>Well-formed payloads\<close>

text \<open>A payload literal: sorted keys, values that are themselves in stored form.\<close>

definition stored :: "json \<Rightarrow> bool" where
  "stored v \<longleftrightarrow> wf_json v \<and> norm_json v = v"

lemma stored_simple [simp]:
  "stored JNull" "stored (JBool b)" "stored (JInt i)" "stored (JStr s)" "stored (jopt x)"
  by (simp_all add: stored_def jopt_def split: option.splits)

lemma map_fixed_iff: "map f xs = xs \<longleftrightarrow> (\<forall>x \<in> set xs. f x = x)"
  by (induction xs) auto

lemma stored_JArr [simp]: "stored (JArr xs) \<longleftrightarrow> (\<forall>x \<in> set xs. stored x)"
  by (auto simp: stored_def wf_JArr map_fixed_iff)

lemma stored_JObj:
  "sorted (keys kvs) \<Longrightarrow> distinct (keys kvs) \<Longrightarrow> (\<forall>kv \<in> set kvs. stored (snd kv)) \<Longrightarrow> stored (JObj kvs)"
  unfolding stored_def norm_JObj wf_JObj
  by (auto simp: sort_key_id_if_sorted intro!: map_idI)

lemma storable_payload: "storable es \<Longrightarrow> e \<in> set es \<Longrightarrow> stored (JObj (payload e))"
proof -
  assume "storable es" "e \<in> set es"
  then have w: "wf_event e" and c: "norm_event e = e" by (auto simp: storable_def list_all_iff canonical_def)
  from c have "payload (norm_event e) = payload e" by simp
  then have "obj_of (norm_json (JObj (payload e))) = payload e" by (simp add: norm_event_def)
  then have "norm_json (JObj (payload e)) = JObj (payload e)" by (metis norm_JObj_obj)
  with w show ?thesis by (simp add: stored_def wf_event_def)
qed

lemma stored_field: "stored (JObj kvs) \<Longrightarrow> stored (jget kvs k)"
proof (cases "map_of kvs k")
  case (Some v)
  assume s: "stored (JObj kvs)"
  then have "map (map_prod id norm_json) (sort_key fst kvs) = kvs" unfolding stored_def norm_JObj by simp
  moreover have "(k, v) \<in> set kvs" by (rule map_of_SomeD [OF Some])
  ultimately have "(k, v) \<in> set (map (map_prod id norm_json) (sort_key fst kvs))" by simp
  then obtain v' where v': "(k, v') \<in> set kvs" "v = norm_json v'" by auto
  have "wf_json v'" using s v'(1) by (force simp: stored_def wf_JObj)
  then have "stored v" using v'(2) by (simp add: stored_def norm_json_idem wf_norm_json)
  then show ?thesis using Some by (simp add: jget_def)
qed (simp add: jget_def)

text \<open>Induction on a log that replays, with the payload of the event in stored form.\<close>

lemma stored_replay_induct [consumes 3, case_names Nil snoc]:
  assumes "doc03_tables T" and "rebuild T es empty_projection = Inr p" and "storable es"
    and "P [] empty_projection"
    and "\<And>es e p p'. rebuild T es empty_projection = Inr p \<Longrightarrow> proj_ok T p \<Longrightarrow> P es p \<Longrightarrow>
      stored (JObj (payload e)) \<Longrightarrow> proj_step T (note_event p e) e p' \<Longrightarrow> P (es @ [e]) p'"
  shows "P es p"
proof -
  have "(\<forall>e \<in> set es. stored (JObj (payload e))) \<longrightarrow> P es p"
    using assms(1,2)
  proof (induction rule: replay_induct)
    case (snoc es e p p')
    then show ?case using assms(5) [of es p e p'] by auto
  qed (use assms(4) in simp)
  then show ?thesis using storable_payload [OF assms(3)] by blast
qed

lemma good_new_event:
  assumes "stored (JObj pl)" and "stored iid" and "stored xid" and "stored rid"
  shows "good_event (new_event t iid xid rid pl now)"
proof -
  have "norm_event (new_event t iid xid rid pl now) = new_event t iid xid rid pl now"
    using assms by (simp add: stored_def norm_event_def new_event_def del: norm_json.simps(7))
  moreover have "wf_event (stamp (new_event t iid xid rid pl now) 1)"
    using assms by (simp add: wf_event_def stamp_def new_event_def stored_def)
  ultimately show ?thesis by (simp add: good_event_def canonical_def)
qed

lemma stamp_new_event [simp]:
  "etype (stamp e i) = etype e" "payload (stamp e i) = payload e" "issue_id (stamp e i) = issue_id e"
  "execution_id (stamp e i) = execution_id e" "run_id (stamp e i) = run_id e" "event_id (stamp e i) = i"
  by (simp_all add: stamp_def)

lemma new_event_simps [simp]:
  "etype (new_event t iid xid rid pl now) = t" "payload (new_event t iid xid rid pl now) = pl"
  "issue_id (new_event t iid xid rid pl now) = iid" "execution_id (new_event t iid xid rid pl now) = xid"
  "run_id (new_event t iid xid rid pl now) = rid"
  by (simp_all add: new_event_def)

section \<open>An environment to evaluate in\<close>

text \<open>A repository in which every commit is merged, for the witnesses.\<close>

definition sample_env :: "'w env" where
  "sample_env = \<lparr>env_tables = doc03, utcnow = (\<lambda>_. ''2026-01-01T00:00:00Z''), ref_namespace = ''refs/attempts'',
     current_commit = ret ''c0'', head_of = (\<lambda>_. ret (Some ''c0'')), untracked_paths = ret [],
     blocking = ret False, commit_exists = (\<lambda>_. ret True), is_ancestor = (\<lambda>_ _. ret True),
     ref_target = (\<lambda>_. ret None), list_attempt_refs = (\<lambda>_. ret []), diff = (\<lambda>_ _. ret ''d''),
     added_files = (\<lambda>_ _. ret []), find_merge_commit = (\<lambda>_ _. ret (Some ''m1'')),
     checkout_branch = (\<lambda>_ _. ret ()), snapshot_commit = (\<lambda>_ _. ret (Some ''c9'')),
     set_attempt_ref = (\<lambda>_ _ _. ret ''refs/attempts/r''), reset_hard = (\<lambda>_ _. ret ()),
     merge_to = (\<lambda>_ _ _. ret ''m1''), delete_attempt_ref = (\<lambda>_ _. ret True), recover_workspace = ret []\<rparr>"

definition start_of :: "event list \<Rightarrow> unit rt" where
  "start_of es = \<lparr>rt_log = log_of es, rt_proj = empty_projection, rt_world = ()\<rparr>"

end
