(* ===== verification/Recovery.thy ===== *)
theory Recovery
  imports Runtime
begin

text \<open>
  Crash recovery: \<open>src/runtime/recovery/containment.py\<close> (containment-first start-up),
  \<open>reconciler.py\<close> (the checks) and \<open>bindings.py\<close> (their implementation over the repository adapter).
  The process probe, the liveness of an engine process and the repository are parameters.
\<close>

section \<open>Replaying the log\<close>

text \<open>Events are applied as the replay yields them; the first error of either ends it.\<close>

definition replay_log :: "tables \<Rightarrow> ('w, nat) rprog" where
  "replay_log T = (\<lambda>s. let (evs, err) = writer_replay (rt_log s)
     in case rebuild T evs empty_projection of
          Inl e \<Rightarrow> (Inl (ApplyFailed e), s)
        | Inr p \<Rightarrow> (case err of
            Some e \<Rightarrow> (Inl (LogFailed e), s)
          | None \<Rightarrow> (Inr (length evs), s\<lparr>rt_proj := p\<rparr>)))"

section \<open>Start-up containment\<close>

datatype controller_state = LIVE_MATCH | DEAD | PID_REUSED | UNKNOWN

fun controller_value :: "controller_state \<Rightarrow> string" where
  "controller_value LIVE_MATCH = ''LIVE_MATCH''"
| "controller_value DEAD = ''DEAD''"
| "controller_value PID_REUSED = ''PID_REUSED''"
| "controller_value UNKNOWN = ''UNKNOWN''"

type_synonym controller_probe = "json \<Rightarrow> controller_state \<times> string"

definition established_job_ok :: "containment_view \<Rightarrow> bool" where
  "established_job_ok view =
     (case jget (case established view of None \<Rightarrow> [] | Some e \<Rightarrow> e) ''job'' of
        JObj job \<Rightarrow> job_witness_ok job | _ \<Rightarrow> False)"

definition restart_release_reason :: "containment_view \<Rightarrow> controller_probe \<Rightarrow> payload option" where
  "restart_release_reason view probe =
     (let prep = prepared view in
      if jget prep ''protocol_version'' \<noteq> JStr ''windows-job-v1'' then None
      else if jget prep ''launch_mode'' \<noteq> JStr ''windows-job-list-at-create'' then None
      else (case jget prep ''lease'' of
        JObj lease \<Rightarrow>
          if jget lease ''scope'' \<noteq> JStr ''Global'' \<or> jget lease ''version'' \<noteq> JStr ''v1'' then None
          else if c_state view \<in> {ESTABLISHED, UNCONFIRMED} \<and> \<not> established_job_ok view then None
          else (let (st, detail) = probe (jget prep ''controller'') in
            if st \<notin> {DEAD, PID_REUSED} then None
            else Some [(''atomic_launch'', jget prep ''launch_mode''),
                       (''controller_identity_detail'', JStr detail),
                       (''controller_identity_state'', JStr (controller_value st)),
                       (''lease'', JObj lease),
                       (''protocol_version'', jget prep ''protocol_version'')])
      | _ \<Rightarrow> None))"

text \<open>One boundary: the label of the release it emitted, if any.\<close>

definition release_containment ::
  "'w env \<Rightarrow> string \<Rightarrow> controller_probe \<Rightarrow> ('w \<Rightarrow> string) \<Rightarrow> containment_view \<Rightarrow> ('w, string option) rprog" where
  "release_containment env key probe clock view =
     (case restart_release_reason view probe of
        None \<Rightarrow> ret None
      | Some reason \<Rightarrow>
          andthen (gets rt_proj) (\<lambda>p.
          case map_of (executions p) (c_execution_id view) of
            None \<Rightarrow> ret None
          | Some ex \<Rightarrow>
              andthen (gets (clock \<circ> rt_world)) (\<lambda>proof_ts.
              andthen (gets (utcnow env \<circ> rt_world)) (\<lambda>now.
              andthen (emit (env_tables env) (new_event EXECUTION_CONTAINMENT_RELEASED
                  (JStr (x_issue_id ex)) (JStr (c_execution_id view)) JNull
                  [(''containment_generation'', JStr (generation view)),
                   (''proof'', JObj reason),
                   (''proof_kind'', JStr ''restart-controller-death''),
                   (''proof_ts'', JStr proof_ts),
                   (''workspace_key'', JStr key)] now)) (\<lambda>_.
              ret (Some (c_execution_id view @ ''/'' @ generation view)))))))"

definition somes :: "'a option list \<Rightarrow> 'a list" where
  "somes xs = concat (map (\<lambda>x. case x of None \<Rightarrow> [] | Some a \<Rightarrow> [a]) xs)"

definition resolve_startup_containment ::
  "'w env \<Rightarrow> string \<Rightarrow> controller_probe \<Rightarrow> ('w \<Rightarrow> string) \<Rightarrow> ('w, string list) rprog" where
  "resolve_startup_containment env key probe clock =
     andthen (replay_log (env_tables env)) (\<lambda>_.
     andthen (gets (\<lambda>s. unreleased_containments (rt_proj s) (Some key))) (\<lambda>views.
     andthen (for_each (release_containment env key probe clock) views) (\<lambda>released.
     andthen (gets (\<lambda>s. is_workspace_blocked (rt_proj s) key)) (\<lambda>blocked.
     if blocked then throw WorkspaceContainmentBlocked else ret (somes released)))))"

section \<open>The reconciler\<close>

record report =
  replayed_events :: nat
  orphans_crashed :: "string list"
  emitted :: "string list"
  checks_run :: "string list"
  checks_skipped :: "string list"
  workspace_repairs :: "string list"

text \<open>
  The seams of \<open>recover\<close>. A check returns the events to emit and the strings of its \<open>repairs\<close>
  attribute, which is empty for a function that has none.
\<close>

record 'w seams =
  is_execution_alive :: "string \<Rightarrow> bool"
  seam_preserve_residue :: "(execution_view \<Rightarrow> ('w, string option) rprog) option"
  seam_recover_workspace :: "('w, string list) rprog option"
  seam_unwitnessed_commit :: "(projection \<Rightarrow> ('w, event list \<times> string list) rprog) option"
  seam_dirty_workspace :: "(projection \<Rightarrow> ('w, event list \<times> string list) rprog) option"

text \<open>Check 1 for one open execution: nothing if it is alive, else residue, then the crash fact.\<close>

definition check_orphan :: "'w env \<Rightarrow> 'w seams \<Rightarrow> execution_view \<Rightarrow> ('w, string option) rprog" where
  "check_orphan env sm view =
     (if is_execution_alive sm (x_execution_id view) then ret None
      else andthen (case seam_preserve_residue sm of None \<Rightarrow> ret None | Some f \<Rightarrow> f view) (\<lambda>residue_ref.
           andthen (gets (utcnow env \<circ> rt_world)) (\<lambda>now.
           andthen (emit (env_tables env) (new_event EXECUTION_CRASHED
               (JStr (x_issue_id view)) (JStr (x_execution_id view)) JNull
               [(''last_known_state'', JStr ''EXECUTING''), (''residue_ref'', jopt residue_ref)] now)) (\<lambda>_.
           ret (Some (x_execution_id view))))))"

definition run_check ::
  "'w env \<Rightarrow> (projection \<Rightarrow> ('w, event list \<times> string list) rprog) option \<Rightarrow>
     ('w, string list \<times> string list) rprog" where
  "run_check env fn = (case fn of
     None \<Rightarrow> ret ([], [])
   | Some f \<Rightarrow>
       andthen (gets rt_proj) (\<lambda>p.
       andthen (f p) (\<lambda>(evs, repairs).
       andthen (for_each (emit (env_tables env)) evs) (\<lambda>_.
       ret (map (type_value \<circ> etype) evs, repairs)))))"

text \<open>What follows the replay of \<open>n\<close> events to \<open>p0\<close>: the guard, the repair, the three checks.\<close>

definition reconcile ::
  "'w env \<Rightarrow> 'w seams \<Rightarrow> string option \<Rightarrow> nat \<Rightarrow> projection \<Rightarrow> ('w, projection \<times> report) rprog" where
  "reconcile env sm key n p0 =
     andthen (whenever (case key of None \<Rightarrow> False | Some k \<Rightarrow> is_workspace_blocked p0 k)
                (throw WorkspaceContainmentBlocked)) (\<lambda>_.
     andthen (case seam_recover_workspace sm of None \<Rightarrow> ret [] | Some m \<Rightarrow> m) (\<lambda>repairs0.
     andthen (for_each (check_orphan env sm) (open_executions p0)) (\<lambda>orphans.
     andthen (run_check env (seam_unwitnessed_commit sm)) (\<lambda>(em2, rep2).
     andthen (run_check env (seam_dirty_workspace sm)) (\<lambda>(em3, rep3).
     andthen (gets rt_proj) (\<lambda>p.
     let names = (\<lambda>ran. (if (seam_unwitnessed_commit sm \<noteq> None) = ran then [''unwitnessed_commit''] else [])
                    @ (if (seam_dirty_workspace sm \<noteq> None) = ran then [''dirty_workspace''] else []))
     in ret (p, \<lparr>replayed_events = n, orphans_crashed = somes orphans,
          emitted = map (\<lambda>_. type_value EXECUTION_CRASHED) (somes orphans) @ em2 @ em3,
          checks_run = ''orphaned_execution'' # names True, checks_skipped = names False,
          workspace_repairs = repairs0 @ rep2 @ rep3\<rparr>)))))))"

definition recover :: "'w env \<Rightarrow> 'w seams \<Rightarrow> string option \<Rightarrow> ('w, projection \<times> report) rprog" where
  "recover env sm key =
     andthen (replay_log (env_tables env)) (\<lambda>n.
     andthen (gets rt_proj) (\<lambda>p0. reconcile env sm key n p0))"

section \<open>The bindings\<close>

definition preserve_residue :: "'w env \<Rightarrow> execution_view \<Rightarrow> ('w, string option) rprog" where
  "preserve_residue env view =
     (let ref = ref_namespace env @ ''/'' @ x_issue_id view @ ''/'' @ x_execution_id view in
     andthen (repo_call (ref_target env ref)) (\<lambda>t.
     if t \<noteq> None then ret (Some ref)
     else andthen (repo_call (snapshot_commit env (''crash residue '' @ x_execution_id view)
              (pre_execution_untracked view))) (\<lambda>sha.
          andthen (residue_commit env sha) (\<lambda>residue.
          if sha = None \<and> JStr residue = base_commit view then ret None
          else andthen (repo_call (set_attempt_ref env (x_issue_id view) (x_execution_id view) residue)) (\<lambda>r.
               ret (Some r))))))"

text \<open>Check 2 for one execution whose commit was intended and not recorded.\<close>

definition backfill_commit :: "'w env \<Rightarrow> string \<Rightarrow> execution_view \<Rightarrow> ('w, event option) rprog" where
  "backfill_commit env branch view =
     (if \<not> (commit_intended view \<and> \<not> commit_created view) then ret None
      else
      let target = json_or (intent_target_branch view) (JStr branch);
          fin = (\<lambda>mc backfilled. andthen (gets (utcnow env \<circ> rt_world)) (\<lambda>now.
            ret (Some (new_event COMMIT_CREATED (JStr (x_issue_id view)) (JStr (x_execution_id view)) JNull
              [(''backfilled'', JBool backfilled), (''merge_commit'', JStr mc), (''target_branch'', target)] now))))
      in if intent_end_commit view = JNull then throw (TamperError (IntentWithoutEnd (x_execution_id view)))
      else
      andthen (lift (str_arg (intent_end_commit view))) (\<lambda>end.
      andthen (lift (str_arg target)) (\<lambda>tgt.
      andthen (repo_call (is_ancestor env end tgt)) (\<lambda>anc.
      if anc then
        andthen (repo_call (find_merge_commit env tgt end)) (\<lambda>mc.
        case mc of None \<Rightarrow> throw (TamperError (NoMergeWitness (x_execution_id view)))
        | Some c \<Rightarrow> fin c True)
      else
        andthen (repo_call (head_of env tgt)) (\<lambda>h.
        andthen (repo_call (current_commit env)) (\<lambda>cur.
        andthen (whenever (h = Some cur)
          (if base_commit view = JNull then throw (TamperError (NoBaseForRedo (x_execution_id view)))
           else andthen (lift (str_arg (base_commit view))) (\<lambda>base.
                repo_call (checkout_branch env (''issue/'' @ x_issue_id view) (Some base))))) (\<lambda>_.
        andthen (repo_call (merge_to env tgt end (''merge '' @ x_issue_id view))) (\<lambda>mc.
        fin mc False))))))))"

definition check_unwitnessed_commit ::
  "'w env \<Rightarrow> string \<Rightarrow> projection \<Rightarrow> ('w, event list \<times> string list) rprog" where
  "check_unwitnessed_commit env branch p =
     andthen (for_each (backfill_commit env branch) (map snd (executions p))) (\<lambda>evs.
     ret (somes evs, []))"

definition active_issue :: "projection \<Rightarrow> string option" where
  "active_issue p = map_option fst (List.find (\<lambda>(iid, st). st = ACTIVE) (issues p))"

text \<open>\<open>set(...)\<close> of the recorded baseline: its members must be hashable.\<close>

definition hashable :: "json \<Rightarrow> bool" where
  "hashable v = (case v of JArr _ \<Rightarrow> False | JObj _ \<Rightarrow> False | _ \<Rightarrow> True)"

definition untracked_ownership_baseline :: "projection \<Rightarrow> rt_error + json list option" where
  "untracked_ownership_baseline p = (case active_issue p of
     None \<Rightarrow> Inr None
   | Some iid \<Rightarrow> (case latest_execution p iid of
       None \<Rightarrow> Inr None
     | Some x \<Rightarrow> if list_all hashable (pre_execution_untracked x)
                  then Inr (Some (pre_execution_untracked x)) else Inl ArgumentTypeError))"

text \<open>The commit the workspace should be at; \<open>JNull\<close> is \<open>None\<close>.\<close>

definition expected_commit :: "'w env \<Rightarrow> string \<Rightarrow> projection \<Rightarrow> ('w, json) rprog" where
  "expected_commit env branch p = (case active_issue p of
     None \<Rightarrow> andthen (repo_call (head_of env branch)) (\<lambda>h. ret (jopt h))
   | Some iid \<Rightarrow>
       let base = (case map_of (issue_base_commit p) iid of None \<Rightarrow> JNull | Some b \<Rightarrow> b) in
       ret (case latest_execution p iid of
         None \<Rightarrow> base
       | Some x \<Rightarrow>
           if x_state x = ACCEPTED \<and> \<not> commit_created x then start_commit x
           else if x_state x \<in> {VALIDATING, REVIEWING, ACCEPTED} then end_commit x
           else base))"

definition archive_dirty :: "'w env \<Rightarrow> projection \<Rightarrow> string list \<Rightarrow> ('w, string list) rprog" where
  "archive_dirty env p preserve =
     andthen (repo_call (snapshot_commit env ''reconciler dirty-workspace'' (map JStr preserve))) (\<lambda>sha.
     andthen (residue_commit env sha) (\<lambda>residue.
     andthen (repo_call (list_attempt_refs env None)) (\<lambda>refs.
     if residue \<in> set (map snd refs) then ret []
     else let issue = (case active_issue p of None \<Rightarrow> ''_recovery'' | Some iid \<Rightarrow> iid) in
          andthen (repo_call (set_attempt_ref env issue (''reconciler-'' @ show_int (last_event_id p)) residue)) (\<lambda>_.
          ret [''archived dirty workspace '' @ take 12 residue @ '' for '' @ issue]))))"

definition check_dirty_workspace ::
  "'w env \<Rightarrow> string \<Rightarrow> projection \<Rightarrow> ('w, event list \<times> string list) rprog" where
  "check_dirty_workspace env branch p =
     andthen (expected_commit env branch p) (\<lambda>expected.
     if expected = JNull then ret ([], [])
     else
     andthen (lift (untracked_ownership_baseline p)) (\<lambda>baseline.
     andthen (repo_call (untracked_paths env)) (\<lambda>current.
     andthen (repo_call (blocking env)) (\<lambda>blocks.
     let owned = (case baseline of None \<Rightarrow> blocks
           | Some b \<Rightarrow> blocks \<or> (\<exists>u \<in> set current. JStr u \<notin> set b));
         preserve = (case baseline of None \<Rightarrow> current | Some b \<Rightarrow> filter (\<lambda>u. JStr u \<in> set b) current)
     in
     andthen (repo_call (current_commit env)) (\<lambda>head.
     if owned \<or> JStr head \<noteq> expected then
       andthen (repo_call (list_attempt_refs env None)) (\<lambda>refs.
       andthen (if owned \<or> head \<notin> set (map snd refs) then archive_dirty env p preserve else ret []) (\<lambda>rep.
       andthen (lift (str_arg expected)) (\<lambda>e.
       andthen (repo_call (reset_hard env e preserve)) (\<lambda>_.
       ret ([], rep @ [''reset workspace to '' @ take 12 e])))))
     else ret ([], []))))))"

definition bind_reconciler :: "'w env \<Rightarrow> string \<Rightarrow> (string \<Rightarrow> bool) \<Rightarrow> 'w seams" where
  "bind_reconciler env branch alive = \<lparr>is_execution_alive = alive,
     seam_preserve_residue = Some (preserve_residue env),
     seam_recover_workspace = Some (repo_call (recover_workspace env)),
     seam_unwitnessed_commit = Some (check_unwitnessed_commit env branch),
     seam_dirty_workspace = Some (check_dirty_workspace env branch)\<rparr>"

end
