(* ===== verification/RecoveryInv.thy ===== *)
theory RecoveryInv
  imports Recovery
begin

text \<open>
  What recovery guarantees for every repository, process table and log that replays: the log still
  replays however recovery ends, every orphan is crashed and every intended commit recorded when it
  returns, and a second pass has nothing to do. No assumption on the repository is needed.
\<close>

section \<open>Replaying\<close>

definition replays :: "tables \<Rightarrow> 'w rt \<Rightarrow> projection \<Rightarrow> bool" where
  "replays T s p \<longleftrightarrow> writer_ok (rt_log s) \<and>
     rebuild T (writer_contents (rt_log s)) empty_projection = Inr p"

lemma writer_ok_replay: "writer_ok w \<Longrightarrow> writer_replay w = (writer_contents w, None)"
  unfolding writer_ok_def by (rule holds_writer_replay) simp

lemma replay_log_eq:
  "replays T s p \<Longrightarrow> replay_log T s = (Inr (length (writer_contents (rt_log s))), s\<lparr>rt_proj := p\<rparr>)"
  by (simp add: replay_log_def replays_def writer_ok_replay)

lemma replays_in_sync: "replays T s p \<Longrightarrow> in_sync T (s\<lparr>rt_proj := p\<rparr>)"
  by (simp add: replays_def in_sync_def)

lemma in_sync_replays: "in_sync T s \<Longrightarrow> replays T s (rt_proj s)"
  by (simp add: replays_def in_sync_def)

section \<open>The two facts recovery emits always apply\<close>

definition crashed :: "execution_view \<Rightarrow> execution_view" where
  "crashed v = v\<lparr>x_state := CRASHED, taxonomy_category := JStr ''EXECUTING''\<rparr>"

definition committed :: "execution_view \<Rightarrow> execution_view" where
  "committed v = v\<lparr>commit_created := True\<rparr>"

lemma crash_applies:
  assumes T: "doc03_tables T" and p: "proj_ok T p"
    and v: "map_of (executions p) x = Some v" "x_state v = EXECUTING"
    and ev: "etype ev = EXECUTION_CRASHED" "execution_id ev = JStr x"
      "jget (payload ev) ''last_known_state'' = JStr ''EXECUTING''"
  shows "\<exists>p'. apply_event T ev p = Inr p' \<and> executions p' = AList.update x (crashed v) (executions p)"
proof -
  have "x \<noteq> []" using p v(1) by (auto simp: proj_ok_def execs_ok_def exec_ok_def)
  then have n: "need ''execution_id'' (execution_id ev) = Inr x" by (simp add: need_eq ev)
  have row: "EXECUTION_TRANSITIONS T (EXECUTING, EXECUTION_CRASHED) = Some (\<lambda>_. Inr CRASHED)"
    using T by (simp add: doc03_tables_def)
  show ?thesis
    using n row v ev
    by (simp add: apply_event_def handle_def h_execution_transition_def need_execution_def annotate_def
        taxonomy_of_crash_def json_or_def truthy_def crashed_def)
qed

lemma created_applies:
  assumes T: "doc03_tables T" and p: "proj_ok T p"
    and v: "map_of (executions p) x = Some v" "commit_intended v" "\<not> commit_created v"
    and ev: "etype ev = COMMIT_CREATED" "execution_id ev = JStr x"
  shows "\<exists>p'. apply_event T ev p = Inr p' \<and> executions p' = AList.update x (committed v) (executions p)"
proof -
  have "exec_ok x v" using p v(1) by (simp add: proj_ok_def execs_ok_def)
  then have "x \<noteq> []" "x_state v = COMMIT_SEQUENCE_STATE T"
    using v(2) T by (auto simp: exec_ok_def doc03_tables_def)
  then have n: "need ''execution_id'' (execution_id ev) = Inr x" by (simp add: need_eq ev)
  show ?thesis
    using n v ev \<open>x_state v = COMMIT_SEQUENCE_STATE T\<close>
    by (simp add: apply_event_def handle_def h_commit_created_def accepted_view_def need_execution_def
        refuse_if_def committed_def)
qed

section \<open>The seams change the world only\<close>

lemmas keeps_unfold = residue_commit_def Let_def

lemma keeps_preserve_residue [keeps_rules]:
  "(\<And>s w. P s \<Longrightarrow> P (s\<lparr>rt_world := w\<rparr>)) \<Longrightarrow> keeps P (preserve_residue env view)"
  unfolding preserve_residue_def keeps_unfold by (intro keeps_rules)

lemma keeps_backfill [keeps_rules]:
  "(\<And>s w. P s \<Longrightarrow> P (s\<lparr>rt_world := w\<rparr>)) \<Longrightarrow> keeps P (backfill_commit env branch view)"
  unfolding backfill_commit_def keeps_unfold by (intro keeps_rules)

lemma keeps_dirty [keeps_rules]:
  "(\<And>s w. P s \<Longrightarrow> P (s\<lparr>rt_world := w\<rparr>)) \<Longrightarrow> keeps P (check_dirty_workspace env branch p)"
  unfolding check_dirty_workspace_def expected_commit_def archive_dirty_def keeps_unfold
  by (intro keeps_rules)

lemma dirty_no_events: "check_dirty_workspace env branch p s = (Inr (evs, rep), s') \<Longrightarrow> evs = []"
  by (auto simp: check_dirty_workspace_def andthen_eq Let_def split: if_splits)

lemma triple_result:
  "keeps P m \<Longrightarrow> (\<And>s r s'. m s = (Inr r, s') \<Longrightarrow> R r) \<Longrightarrow> triple P m (\<lambda>r s. P s \<and> R r) (\<lambda>_. P)"
  unfolding keeps_def triple_def by (fastforce split: prod.splits sum.splits)

section \<open>Check 2\<close>

definition unwitnessed :: "execution_view \<Rightarrow> bool" where
  "unwitnessed v \<longleftrightarrow> commit_intended v \<and> \<not> commit_created v"

definition created_for :: "execution_view \<Rightarrow> event \<Rightarrow> bool" where
  "created_for v ev \<longleftrightarrow> etype ev = COMMIT_CREATED \<and> execution_id ev = JStr (x_execution_id v) \<and> good_event ev"

lemma created_for_new:
  "created_for v (new_event COMMIT_CREATED (JStr iid) (JStr (x_execution_id v)) JNull
     [(''backfilled'', JBool b), (''merge_commit'', JStr mc), (''target_branch'', JStr t)] now)"
proof -
  have "sorted [''backfilled'', ''merge_commit'', ''target_branch'']" by code_simp
  then have "sorted (keys [(''backfilled'', JBool b), (''merge_commit'', JStr mc), (''target_branch'', JStr t)])"
    by (simp only: list.map fst_conv)
  then have "stored (JObj [(''backfilled'', JBool b), (''merge_commit'', JStr mc), (''target_branch'', JStr t)])"
    by (rule stored_JObj) simp_all
  then show ?thesis by (simp add: created_for_def good_new_event)
qed

lemma str_arg_eq: "str_arg v = Inr s \<longleftrightarrow> v = JStr s"
  by (auto simp: str_arg_def split: json.splits)

lemma backfill_result:
  "backfill_commit env branch v s = (Inr r, s') \<Longrightarrow>
     (if unwitnessed v then \<exists>ev. r = Some ev \<and> created_for v ev else r = None)"
  by (auto simp: backfill_commit_def andthen_eq Let_def unwitnessed_def str_arg_eq created_for_new
      split: if_splits option.splits)

text \<open>The executions after some of them changed by \<open>f\<close>.\<close>

definition changed :: "(execution_view \<Rightarrow> execution_view) \<Rightarrow> string set \<Rightarrow> projection \<Rightarrow> projection \<Rightarrow> bool" where
  "changed f X p0 p \<longleftrightarrow> map_of (executions p) =
     (\<lambda>x. if x \<in> X then map_option f (map_of (executions p0) x) else map_of (executions p0) x)"

lemma changed_empty [simp]: "changed f {} p p"
  by (simp add: changed_def)

lemma changed_insert:
  assumes "changed f X p0 p" and "map_of (executions p0) x = Some v" and "x \<notin> X"
    and "executions p' = AList.update x (f v) (executions p)"
  shows "changed f (insert x X) p0 p'"
  using assms by (auto simp: changed_def fun_eq_iff)

lemma changed_at: "changed f X p0 p \<Longrightarrow> x \<notin> X \<Longrightarrow> map_of (executions p) x = map_of (executions p0) x"
  by (simp add: changed_def)

text \<open>The state while recovery works: in step with the log, which only got facts of recovery.\<close>

definition recovery_fact :: "(string \<Rightarrow> bool) \<Rightarrow> event \<Rightarrow> bool" where
  "recovery_fact alive e \<longleftrightarrow> (\<exists>x. execution_id e = JStr x \<and>
     (etype e = EXECUTION_CRASHED \<and> \<not> alive x \<or> etype e = COMMIT_CREATED))"

definition recovering :: "(string \<Rightarrow> bool) \<Rightarrow> tables \<Rightarrow> 'w rt \<Rightarrow> 'w rt \<Rightarrow> bool" where
  "recovering alive T s0 s \<longleftrightarrow> in_sync T s \<and> extends (recovery_fact alive) s0 s"

lemma recovering_world [simp]: "recovering alive T s0 (s\<lparr>rt_world := w\<rparr>) = recovering alive T s0 s"
  by (simp add: recovering_def)

lemma emit_recovering:
  assumes "recovering alive T s0 s" and "good_event ev" and "recovery_fact alive ev"
    and "\<And>i. \<exists>p'. apply_event T (stamp ev i) (rt_proj s) = Inr p' \<and> Q p'"
  shows "\<exists>e s'. emit T ev s = (Inr e, s') \<and> recovering alive T s0 s' \<and> Q (rt_proj s') \<and> rt_world s' = rt_world s"
proof -
  let ?i = "int (length (writer_contents (rt_log s))) + 1"
  obtain p' where p': "apply_event T (stamp ev ?i) (rt_proj s) = Inr p'" "Q p'" using assms(4) by blast
  obtain s' where s': "emit T ev s = (Inr (stamp ev ?i), s')" "in_sync T s'" "rt_proj s' = p'"
    "rt_world s' = rt_world s" "writer_contents (rt_log s') = writer_contents (rt_log s) @ [stamp ev ?i]"
    using emit_sync [OF _ assms(2) p'(1)] assms(1) by (auto simp: recovering_def)
  have "extends (recovery_fact alive) s s'"
    using s'(5) assms(3) by (auto simp: extends_def recovery_fact_def)
  then have "recovering alive T s0 s'" using s'(2) assms(1) by (auto simp: recovering_def intro: extends_trans)
  with s' p'(2) show ?thesis by auto
qed

lemma emit_created:
  assumes T: "doc03_tables T" and s: "recovering alive T s0 s"
    and v: "map_of (executions (rt_proj s)) (x_execution_id v) = Some v" "unwitnessed v" and ev: "created_for v ev"
  shows "\<exists>e s'. emit T ev s = (Inr e, s') \<and> recovering alive T s0 s' \<and>
    executions (rt_proj s') = AList.update (x_execution_id v) (committed v) (executions (rt_proj s)) \<and>
    rt_world s' = rt_world s"
proof (rule emit_recovering [OF s])
  show "good_event ev" "recovery_fact alive ev" using ev by (auto simp: created_for_def recovery_fact_def)
  have "proj_ok T (rt_proj s)" using s in_sync_proj_ok [OF T] by (auto simp: recovering_def)
  then show "\<exists>p'. apply_event T (stamp ev i) (rt_proj s) = Inr p' \<and>
      executions p' = AList.update (x_execution_id v) (committed v) (executions (rt_proj s))" for i
    using created_applies [OF T _ v(1)] v(2) ev by (simp add: unwitnessed_def created_for_def)
qed

lemma emit_crash:
  assumes T: "doc03_tables T" and s: "recovering alive T s0 s"
    and v: "map_of (executions (rt_proj s)) (x_execution_id v) = Some v" "x_state v = EXECUTING"
    and d: "\<not> alive (x_execution_id v)"
  shows "\<exists>e s'. emit T (new_event EXECUTION_CRASHED (JStr (x_issue_id v)) (JStr (x_execution_id v)) JNull
      [(''last_known_state'', JStr ''EXECUTING''), (''residue_ref'', jopt r)] now) s = (Inr e, s') \<and>
    recovering alive T s0 s' \<and>
    executions (rt_proj s') = AList.update (x_execution_id v) (crashed v) (executions (rt_proj s)) \<and>
    rt_world s' = rt_world s"
proof (rule emit_recovering [OF s])
  let ?pl = "[(''last_known_state'', JStr ''EXECUTING''), (''residue_ref'', jopt r)]"
  have "sorted [''last_known_state'', ''residue_ref'']" by code_simp
  then have "sorted (keys ?pl)" by (simp only: list.map fst_conv)
  then have "stored (JObj ?pl)" by (rule stored_JObj) simp_all
  then show "good_event (new_event EXECUTION_CRASHED (JStr (x_issue_id v)) (JStr (x_execution_id v)) JNull ?pl now)"
    by (rule good_new_event) simp_all
  have "proj_ok T (rt_proj s)" using s in_sync_proj_ok [OF T] by (auto simp: recovering_def)
  then show "\<exists>p'. apply_event T (stamp (new_event EXECUTION_CRASHED (JStr (x_issue_id v))
      (JStr (x_execution_id v)) JNull ?pl now) i) (rt_proj s) = Inr p' \<and>
      executions p' = AList.update (x_execution_id v) (crashed v) (executions (rt_proj s))" for i
    using crash_applies [OF T _ v] by (simp add: jget_def)
qed (simp add: recovery_fact_def d)

section \<open>Check 1\<close>

definition dead_ids :: "(string \<Rightarrow> bool) \<Rightarrow> execution_view list \<Rightarrow> string list" where
  "dead_ids alive vs = filter (\<lambda>x. \<not> alive x) (map x_execution_id vs)"

lemma dead_ids_snoc:
  "dead_ids alive (vs @ [v]) = dead_ids alive vs @ (if alive (x_execution_id v) then [] else [x_execution_id v])"
  by (simp add: dead_ids_def)

lemma somes_append [simp]: "somes (xs @ ys) = somes xs @ somes ys"
  by (simp add: somes_def)

lemma somes_simps [simp]: "somes [] = []" "somes (None # xs) = somes xs" "somes (Some a # xs) = a # somes xs"
  by (simp_all add: somes_def)

definition orphans_done ::
  "tables \<Rightarrow> 'w rt \<Rightarrow> projection \<Rightarrow> (string \<Rightarrow> bool) \<Rightarrow> execution_view list \<Rightarrow> string option list \<Rightarrow> 'w rt \<Rightarrow> bool" where
  "orphans_done T s0 p0 alive done ys s \<longleftrightarrow> recovering alive T s0 s \<and>
     changed crashed (set (dead_ids alive done)) p0 (rt_proj s) \<and> somes ys = dead_ids alive done"

lemma orphans_done_world [simp]:
  "orphans_done T s0 p0 alive done ys (s\<lparr>rt_world := w\<rparr>) = orphans_done T s0 p0 alive done ys s"
  by (simp add: orphans_done_def)

lemma open_executions_at:
  "proj_ok T p \<Longrightarrow> v \<in> set (open_executions p) \<Longrightarrow>
     map_of (executions p) (x_execution_id v) = Some v \<and> x_state v = EXECUTING"
  by (simp add: open_execution_eq)

lemma open_executions_distinct:
  assumes p: "proj_ok T p"
  shows "distinct (map x_execution_id (open_executions p))"
proof -
  have d: "distinct (keys (executions p))" using p by (simp add: proj_ok_def keys_ok_def)
  then have "\<forall>kv \<in> set (executions p). x_execution_id (snd kv) = fst kv"
    using p by (auto simp: proj_ok_def execs_ok_def exec_ok_def)
  then have eq: "map x_execution_id (map snd (executions p)) = keys (executions p)" by simp
  have "distinct (map x_execution_id (map snd (executions p)))" unfolding eq by (rule d)
  then show ?thesis unfolding open_executions_def by (rule distinct_map_filter)
qed

lemma check_orphan_step:
  assumes T: "doc03_tables (env_tables env)"
    and m: "map_of (executions p0) (x_execution_id v) = Some v" "x_state v = EXECUTING"
    and new: "x_execution_id v \<notin> set (dead_ids alive done)"
  shows "triple (orphans_done (env_tables env) s0 p0 alive done ys)
    (check_orphan env (bind_reconciler env branch alive) v)
    (\<lambda>y. orphans_done (env_tables env) s0 p0 alive (done @ [v]) (ys @ [y]))
    (\<lambda>_. recovering alive (env_tables env) s0)"
proof (cases "alive (x_execution_id v)")
  case True
  then show ?thesis
    by (auto simp: check_orphan_def bind_reconciler_def orphans_done_def dead_ids_snoc intro!: triple_ret)
next
  case False
  let ?T = "env_tables env" and ?I = "orphans_done (env_tables env) s0 p0 alive done ys"
  let ?J = "orphans_done (env_tables env) s0 p0 alive (done @ [v]) (ys @ [Some (x_execution_id v)])"
  let ?ev = "\<lambda>r now. new_event EXECUTION_CRASHED (JStr (x_issue_id v)) (JStr (x_execution_id v)) JNull
      [(''last_known_state'', JStr ''EXECUTING''), (''residue_ref'', jopt r)] now"
  have step: "\<exists>e s'. emit ?T (?ev r now) s = (Inr e, s') \<and> ?J s'" if s: "?I s" for r now s
  proof -
    have a: "map_of (executions (rt_proj s)) (x_execution_id v) = Some v"
      using s changed_at [of crashed _ p0 "rt_proj s" "x_execution_id v"] new m(1) by (auto simp: orphans_done_def)
    have "recovering alive ?T s0 s" using s by (simp add: orphans_done_def)
    from emit_crash [OF T this a m(2) False, of r now] obtain e s' where
      "emit ?T (?ev r now) s = (Inr e, s')" "recovering alive ?T s0 s'"
      "executions (rt_proj s') = AList.update (x_execution_id v) (crashed v) (executions (rt_proj s))" by blast
    then show ?thesis
      using changed_insert [OF _ m(1) new, of crashed "rt_proj s" "rt_proj s'"] s False
      by (auto simp: orphans_done_def dead_ids_snoc)
  qed
  have e: "triple ?I (emit ?T (?ev r now)) (\<lambda>_. ?J) (\<lambda>_. recovering alive ?T s0)" for r now
    using step by (rule triple_total)
  have k: "triple ?I (preserve_residue env v) (\<lambda>_. ?I) (\<lambda>_. recovering alive ?T s0)"
    by (rule keeps_triple [OF keeps_preserve_residue]) (simp_all add: orphans_done_def)
  have eq: "check_orphan env (bind_reconciler env branch alive) v =
      andthen (preserve_residue env v) (\<lambda>r. andthen (gets (utcnow env \<circ> rt_world)) (\<lambda>now.
      andthen (emit ?T (?ev r now)) (\<lambda>_. ret (Some (x_execution_id v)))))"
    by (simp add: check_orphan_def bind_reconciler_def False)
  show ?thesis unfolding eq
    by (rule triple_andthen [OF k], rule triple_gets_any, rule triple_andthen [OF e], rule triple_ret)
qed

lemma check_orphans:
  assumes T: "doc03_tables (env_tables env)" and p0: "proj_ok (env_tables env) p0"
  shows "triple (\<lambda>s. recovering alive (env_tables env) s0 s \<and> rt_proj s = p0)
    (for_each (check_orphan env (bind_reconciler env branch alive)) (open_executions p0))
    (\<lambda>ys s. recovering alive (env_tables env) s0 s \<and>
       changed crashed (set (dead_ids alive (open_executions p0))) p0 (rt_proj s) \<and>
       somes ys = dead_ids alive (open_executions p0))
    (\<lambda>_. recovering alive (env_tables env) s0)"
proof (rule triple_conseq)
  let ?I = "orphans_done (env_tables env) s0 p0 alive"
  show "triple (?I [] []) (for_each (check_orphan env (bind_reconciler env branch alive)) (open_executions p0))
    (\<lambda>ys s. ?I (open_executions p0) ys s) (\<lambda>_. recovering alive (env_tables env) s0)"
  proof (rule triple_for_each_res)
    fix v "done" ys rest assume xs: "open_executions p0 = done @ v # rest"
    have "x_execution_id v \<notin> set (dead_ids alive done)"
      using open_executions_distinct [OF p0] by (auto simp: xs dead_ids_def)
    moreover have "map_of (executions p0) (x_execution_id v) = Some v \<and> x_state v = EXECUTING"
      by (rule open_executions_at [OF p0]) (simp add: xs)
    ultimately show "triple (?I done ys) (check_orphan env (bind_reconciler env branch alive) v)
        (\<lambda>y. ?I (done @ [v]) (ys @ [y])) (\<lambda>_. recovering alive (env_tables env) s0)"
      using check_orphan_step [OF T] by blast
  qed
qed (simp_all add: orphans_done_def dead_ids_def)

section \<open>Check 2 and check 3 within recover\<close>

lemma views_distinct:
  assumes p: "proj_ok T p"
  shows "distinct (map x_execution_id (filter P (map snd (executions p))))"
    and "v \<in> set (map snd (executions p)) \<Longrightarrow> map_of (executions p) (x_execution_id v) = Some v"
proof -
  have d: "distinct (keys (executions p))" using p by (simp add: proj_ok_def keys_ok_def)
  then have f: "\<forall>kv \<in> set (executions p). x_execution_id (snd kv) = fst kv"
    using p by (auto simp: proj_ok_def execs_ok_def exec_ok_def)
  then have eq: "map x_execution_id (map snd (executions p)) = keys (executions p)" by simp
  have "distinct (map x_execution_id (map snd (executions p)))" unfolding eq by (rule d)
  then show "distinct (map x_execution_id (filter P (map snd (executions p))))" by (rule distinct_map_filter)
  show "v \<in> set (map snd (executions p)) \<Longrightarrow> map_of (executions p) (x_execution_id v) = Some v"
    using d f by force
qed

definition pending_commits :: "projection \<Rightarrow> execution_view list" where
  "pending_commits p = filter unwitnessed (map snd (executions p))"

lemma somes_backfill:
  "list_all2 (\<lambda>v r. if unwitnessed v then \<exists>ev. r = Some ev \<and> created_for v ev else r = None) vs rs \<Longrightarrow>
   list_all2 created_for (filter unwitnessed vs) (somes rs)"
  by (induction rule: list_all2_induct) auto

lemma check_unwitnessed_result:
  assumes inv: "\<And>s w. P s \<Longrightarrow> P (s\<lparr>rt_world := w\<rparr>)"
  shows "triple P (check_unwitnessed_commit env branch p)
    (\<lambda>(evs, rep) s. P s \<and> rep = [] \<and> list_all2 created_for (pending_commits p) evs) (\<lambda>_. P)"
proof -
  have kb: "keeps P (backfill_commit env branch v)" for v using inv by (rule keeps_backfill)
  show ?thesis unfolding check_unwitnessed_commit_def
proof (rule triple_andthen [where R = "\<lambda>rs s. P s \<and> list_all2
      (\<lambda>v r. if unwitnessed v then \<exists>ev. r = Some ev \<and> created_for v ev else r = None) (map snd (executions p)) rs"])
  let ?R = "\<lambda>v r. if unwitnessed v then \<exists>ev. r = Some ev \<and> created_for v ev else r = None"
  have "triple (\<lambda>s. P s \<and> list_all2 ?R [] [])
    (for_each (backfill_commit env branch) (map snd (executions p)))
    (\<lambda>rs s. P s \<and> list_all2 ?R (map snd (executions p)) rs) (\<lambda>_. P)"
  proof (rule triple_for_each_res [where I = "\<lambda>done rs s. P s \<and> list_all2 ?R done rs"])
    fix v "done" ys rest
    have "triple P (backfill_commit env branch v) (\<lambda>r s. P s \<and> ?R v r) (\<lambda>_. P)"
      by (rule triple_result [OF kb], rule backfill_result)
    then show "triple (\<lambda>s. P s \<and> list_all2 ?R done ys) (backfill_commit env branch v)
        (\<lambda>y s. P s \<and> list_all2 ?R (done @ [v]) (ys @ [y])) (\<lambda>_. P)"
      by (rule triple_keep_fact) (erule list_all2_appendI, simp)
  qed
  then show "triple P (for_each (backfill_commit env branch) (map snd (executions p)))
    (\<lambda>rs s. P s \<and> list_all2 ?R (map snd (executions p)) rs) (\<lambda>_. P)" by simp
qed (auto intro!: triple_ret somes_backfill simp: pending_commits_def)
qed

lemma emit_commits:
  assumes T: "doc03_tables T" and p: "proj_ok T p" and evs: "list_all2 created_for (pending_commits p) evs"
  shows "triple (\<lambda>s. recovering alive T s0 s \<and> rt_proj s = p) (for_each (emit T) evs)
    (\<lambda>_ s. recovering alive T s0 s \<and> changed committed (set (map x_execution_id (pending_commits p))) p (rt_proj s))
    (\<lambda>_. recovering alive T s0)"
proof (rule triple_conseq)
  let ?ids = "\<lambda>n. map x_execution_id (take n (pending_commits p))"
  let ?I = "\<lambda>(done :: event list) s. recovering alive T s0 s \<and> changed committed (set (?ids (length done))) p (rt_proj s)"
  show "triple (?I []) (for_each (emit T) evs) (\<lambda>_. ?I evs) (\<lambda>_. recovering alive T s0)"
  proof (rule triple_for_each [where I = ?I])
    fix ev "done" rest assume e: "evs = done @ ev # rest"
    let ?n = "length done"
    define v where "v = pending_commits p ! ?n"
    have n: "?n < length (pending_commits p)" using list_all2_lengthD [OF evs] e by simp
    have c: "created_for v ev" using list_all2_nthD [OF evs n] e by (simp add: v_def)
    have vin: "v \<in> set (pending_commits p)" using n by (simp add: v_def)
    then have m: "map_of (executions p) (x_execution_id v) = Some v" "unwitnessed v"
      using views_distinct(2) [OF p] by (auto simp: pending_commits_def)
    have t: "take (Suc ?n) (pending_commits p) = take ?n (pending_commits p) @ [v]"
      using n by (simp add: v_def take_Suc_conv_app_nth)
    have "distinct (?ids (Suc ?n))"
      using views_distinct(1) [OF p, of unwitnessed] by (simp add: pending_commits_def flip: take_map)
    then have new: "x_execution_id v \<notin> set (?ids ?n)" unfolding t by simp
    show "triple (?I done) (emit T ev) (\<lambda>_. ?I (done @ [ev])) (\<lambda>_. recovering alive T s0)"
    proof (rule triple_total)
      fix s assume s: "?I done s"
      then have "map_of (executions (rt_proj s)) (x_execution_id v) = Some v"
        using changed_at [of committed _ p "rt_proj s"] new m(1) by metis
      from emit_created [OF T conjunct1 [OF s] this m(2) c] obtain e s' where
        "emit T ev s = (Inr e, s')" "recovering alive T s0 s'"
        "executions (rt_proj s') = AList.update (x_execution_id v) (committed v) (executions (rt_proj s))" by blast
      then show "\<exists>a s'. emit T ev s = (Inr a, s') \<and> ?I (done @ [ev]) s'"
        using changed_insert [OF conjunct2 [OF s] m(1) new] by (simp add: t)
    qed
  qed simp
qed (use list_all2_lengthD [OF evs] in simp_all)

section \<open>Recover\<close>

text \<open>What recovery makes of one execution.\<close>

definition recovered :: "(string \<Rightarrow> bool) \<Rightarrow> string \<Rightarrow> execution_view \<Rightarrow> execution_view" where
  "recovered alive x v =
     (if x_state v = EXECUTING \<and> \<not> alive x then crashed v
      else if unwitnessed v then committed v else v)"

lemma in_dead_ids:
  assumes p: "proj_ok T p"
  shows "x \<in> set (dead_ids alive (open_executions p)) \<longleftrightarrow>
    (\<exists>v. map_of (executions p) x = Some v \<and> x_state v = EXECUTING \<and> \<not> alive x)"
proof -
  have k: "map_of (executions p) y = Some v \<Longrightarrow> x_execution_id v = y" for y v
    using p by (auto simp: proj_ok_def execs_ok_def exec_ok_def)
  show ?thesis
    using open_execution_eq [OF p] k by (force simp: dead_ids_def)
qed

lemma in_pending:
  assumes p: "proj_ok T p"
  shows "x \<in> set (map x_execution_id (pending_commits p)) \<longleftrightarrow>
    (\<exists>v. map_of (executions p) x = Some v \<and> unwitnessed v)"
proof -
  have k: "map_of (executions p) y = Some v \<Longrightarrow> x_execution_id v = y" for y v
    using p by (auto simp: proj_ok_def execs_ok_def exec_ok_def)
  have d: "distinct (keys (executions p))" using p by (simp add: proj_ok_def keys_ok_def)
  show ?thesis
    using views_distinct(2) [OF p] k d by (force simp: pending_commits_def)
qed

lemma recovered_changes:
  assumes p0: "proj_ok T p0" and p1: "proj_ok T p1"
    and c1: "changed crashed (set (dead_ids alive (open_executions p0))) p0 p1"
    and c2: "changed committed (set (map x_execution_id (pending_commits p1))) p1 p2"
  shows "map_of (executions p2) x = map_option (recovered alive x) (map_of (executions p0) x)"
proof (cases "map_of (executions p0) x")
  case None
  then show ?thesis using c1 c2 by (simp add: changed_def)
next
  case (Some v)
  have ok: "exec_ok x v" using p0 Some by (simp add: proj_ok_def execs_ok_def)
  have v1: "map_of (executions p1) x = Some (if x_state v = EXECUTING \<and> \<not> alive x then crashed v else v)"
    using c1 Some in_dead_ids [OF p0] by (simp add: changed_def)
  have "unwitnessed (crashed v) = unwitnessed v" by (simp add: unwitnessed_def crashed_def)
  moreover have "x_state v = EXECUTING \<Longrightarrow> \<not> unwitnessed v" using ok by (auto simp: exec_ok_def unwitnessed_def)
  ultimately show ?thesis
    using c2 v1 Some in_pending [OF p1, of x] by (auto simp: changed_def recovered_def)
qed

lemma run_check_commits:
  assumes T: "doc03_tables (env_tables env)" and p: "proj_ok (env_tables env) p"
  shows "triple (\<lambda>s. recovering alive (env_tables env) s0 s \<and> rt_proj s = p)
    (run_check env (Some (check_unwitnessed_commit env branch)))
    (\<lambda>_ s. recovering alive (env_tables env) s0 s \<and>
       changed committed (set (map x_execution_id (pending_commits p))) p (rt_proj s))
    (\<lambda>_. recovering alive (env_tables env) s0)"
proof -
  let ?T = "env_tables env" and ?P = "\<lambda>s. recovering alive (env_tables env) s0 s \<and> rt_proj s = p"
  let ?Q = "\<lambda>s. recovering alive (env_tables env) s0 s \<and>
       changed committed (set (map x_execution_id (pending_commits p))) p (rt_proj s)"
  have c: "triple ?P (check_unwitnessed_commit env branch p)
    (\<lambda>r s. ?P s \<and> list_all2 created_for (pending_commits p) (fst r)) (\<lambda>_. recovering alive ?T s0)"
    by (rule triple_conseq [OF check_unwitnessed_result [where P = ?P]]) auto
  have e: "triple (\<lambda>s. ?P s \<and> list_all2 created_for (pending_commits p) evs)
      (andthen (for_each (emit ?T) evs) (\<lambda>_. ret (f evs, rep))) (\<lambda>_. ?Q) (\<lambda>_. recovering alive ?T s0)" for f evs rep
  proof (rule triple_fact)
    assume "list_all2 created_for (pending_commits p) evs"
    from emit_commits [OF T p this, of alive s0]
    have "triple (\<lambda>s. ?P s \<and> list_all2 created_for (pending_commits p) evs) (for_each (emit ?T) evs)
        (\<lambda>_. ?Q) (\<lambda>_. recovering alive ?T s0)" by (rule triple_conseq) auto
    then show "triple (\<lambda>s. ?P s \<and> list_all2 created_for (pending_commits p) evs)
      (andthen (for_each (emit ?T) evs) (\<lambda>_. ret (f evs, rep))) (\<lambda>_. ?Q) (\<lambda>_. recovering alive ?T s0)"
      by (rule triple_andthen) (simp add: triple_ret)
  qed simp
  show ?thesis unfolding run_check_def option.case
  proof (rule triple_gets_then)
    fix q
    show "triple (\<lambda>s. ?P s \<and> rt_proj s = q) (andthen (check_unwitnessed_commit env branch q)
        (\<lambda>(evs, repairs). andthen (for_each (emit ?T) evs) (\<lambda>_. ret (map (type_value \<circ> etype) evs, repairs))))
        (\<lambda>_. ?Q) (\<lambda>_. recovering alive ?T s0)"
    proof (rule triple_fact)
      assume q: "q = p"
      show "triple (\<lambda>s. ?P s \<and> rt_proj s = q) (andthen (check_unwitnessed_commit env branch q)
        (\<lambda>(evs, repairs). andthen (for_each (emit ?T) evs) (\<lambda>_. ret (map (type_value \<circ> etype) evs, repairs))))
        (\<lambda>_. ?Q) (\<lambda>_. recovering alive ?T s0)"
        unfolding q
      proof (rule triple_andthen)
        show "triple (\<lambda>s. ?P s \<and> rt_proj s = p) (check_unwitnessed_commit env branch p)
          (\<lambda>r s. ?P s \<and> list_all2 created_for (pending_commits p) (fst r)) (\<lambda>_. recovering alive ?T s0)"
          by (rule triple_conseq [OF c]) auto
      next
        fix r :: "event list \<times> string list"
        show "triple (\<lambda>s. ?P s \<and> list_all2 created_for (pending_commits p) (fst r))
          (case r of (evs, repairs) \<Rightarrow> andthen (for_each (emit ?T) evs) (\<lambda>_. ret (map (type_value \<circ> etype) evs, repairs)))
          (\<lambda>_. ?Q) (\<lambda>_. recovering alive ?T s0)"
          using e [of "fst r" "map (type_value \<circ> etype)" "snd r"] by (cases r) simp
      qed
    qed auto
  qed
qed

lemma run_check_dirty:
  assumes inv: "\<And>s w. P s \<Longrightarrow> P (s\<lparr>rt_world := w\<rparr>)" and E: "\<And>s. P s \<Longrightarrow> E s"
  shows "triple P (run_check env (Some (check_dirty_workspace env branch))) (\<lambda>_. P) (\<lambda>_. E)"
proof -
  have k: "keeps P (check_dirty_workspace env branch p)" for p using inv by (rule keeps_dirty)
  have "triple P (check_dirty_workspace env branch p) (\<lambda>r s. P s \<and> fst r = []) (\<lambda>_. P)" for p
    by (rule triple_result [OF k]) (metis dirty_no_events fst_conv prod.collapse)
  then have c: "triple P (check_dirty_workspace env branch p) (\<lambda>r s. P s \<and> fst r = []) (\<lambda>_. E)" for p
    by (rule triple_conseq) (use E in auto)
  have e: "triple (\<lambda>s. P s \<and> evs = []) (andthen (for_each (emit T) evs) (\<lambda>_. ret (f evs, rep)))
      (\<lambda>_. P) (\<lambda>_. E)" for T f evs rep
    by (rule triple_fact [where B = "evs = []"]) (simp_all add: triple_def andthen_def)
  show ?thesis unfolding run_check_def option.case
    by (rule triple_gets_any, rule triple_andthen [OF c]) (auto split: prod.splits intro: e)
qed

lemma recover_unfold:
  "replays (env_tables env) s p0 \<Longrightarrow>
   recover env sm key s = reconcile env sm key (length (writer_contents (rt_log s))) p0 (s\<lparr>rt_proj := p0\<rparr>)"
  by (simp add: recover_def andthen_def replay_log_eq)

definition recovery_result ::
  "tables \<Rightarrow> 'w rt \<Rightarrow> projection \<Rightarrow> (string \<Rightarrow> bool) \<Rightarrow> nat \<Rightarrow> projection \<times> report \<Rightarrow> 'w rt \<Rightarrow> bool" where
  "recovery_result T s p0 alive n r t \<longleftrightarrow> recovering alive T s t \<and> rt_proj t = fst r \<and>
     (\<forall>x. map_of (executions (fst r)) x = map_option (recovered alive x) (map_of (executions p0) x)) \<and>
     orphans_crashed (snd r) = dead_ids alive (open_executions p0) \<and> replayed_events (snd r) = n"

lemma reconcile_triple:
  assumes T: "doc03_tables (env_tables env)" and p0: "proj_ok (env_tables env) p0"
  shows "triple (\<lambda>t. recovering alive (env_tables env) s t \<and> rt_proj t = p0)
    (reconcile env (bind_reconciler env branch alive) key n p0)
    (recovery_result (env_tables env) s p0 alive n) (\<lambda>_. recovering alive (env_tables env) s)"
proof -
  let ?T = "env_tables env" and ?E = "\<lambda>_. recovering alive (env_tables env) s"
  let ?sm = "bind_reconciler env branch alive"
  let ?P = "\<lambda>t. recovering alive ?T s t \<and> rt_proj t = p0"
  let ?ids = "dead_ids alive (open_executions p0)"
  let ?C = "\<lambda>t. recovering alive ?T s t \<and> changed crashed (set ?ids) p0 (rt_proj t)"
  let ?R = "\<lambda>t. recovering alive ?T s t \<and>
    (\<forall>x. map_of (executions (rt_proj t)) x = map_option (recovered alive x) (map_of (executions p0) x))"
  have sm: "seam_recover_workspace ?sm = Some (repo_call (recover_workspace env))"
    "seam_unwitnessed_commit ?sm = Some (check_unwitnessed_commit env branch)"
    "seam_dirty_workspace ?sm = Some (check_dirty_workspace env branch)"
    by (simp_all add: bind_reconciler_def)
  have b: "triple ?P (whenever c (throw WorkspaceContainmentBlocked)) (\<lambda>_. ?P) ?E" for c
    by (rule triple_whenever) (auto intro: triple_throw)
  have w: "triple ?P (repo_call (recover_workspace env)) (\<lambda>_. ?P) ?E"
    by (rule triple_conseq [OF triple_repo_call [where P = ?P]]) simp_all
  have o1: "triple ?P (for_each (check_orphan env ?sm) (open_executions p0))
      (\<lambda>ys t. ?C t \<and> somes ys = ?ids) ?E"
    by (rule triple_conseq [OF check_orphans [OF T p0]]) auto
  have k: "triple (\<lambda>t. ?C t \<and> F) (run_check env (Some (check_unwitnessed_commit env branch))) (\<lambda>_ t. ?R t \<and> F) ?E" for F
  proof (rule triple_ghost [where f = rt_proj])
    fix p1
    show "triple (\<lambda>t. (?C t \<and> F) \<and> rt_proj t = p1) (run_check env (Some (check_unwitnessed_commit env branch)))
      (\<lambda>_ t. ?R t \<and> F) ?E"
    proof (rule triple_fact)
      show "(?C t \<and> F) \<and> rt_proj t = p1 \<Longrightarrow> proj_ok ?T p1 \<and> changed crashed (set ?ids) p0 p1 \<and> F" for t
        using in_sync_proj_ok [OF T] by (auto simp: recovering_def)
      assume p1: "proj_ok ?T p1 \<and> changed crashed (set ?ids) p0 p1 \<and> F"
      show "triple (\<lambda>t. (?C t \<and> F) \<and> rt_proj t = p1) (run_check env (Some (check_unwitnessed_commit env branch)))
        (\<lambda>_ t. ?R t \<and> F) ?E"
        by (rule triple_conseq [OF run_check_commits [OF T conjunct1 [OF p1]]])
          (use p1 recovered_changes [OF p0] in auto)
    qed
  qed
  have d: "triple (\<lambda>t. ?R t \<and> F) (run_check env (Some (check_dirty_workspace env branch))) (\<lambda>_ t. ?R t \<and> F) ?E" for F
    by (rule run_check_dirty) simp_all
  show ?thesis unfolding reconcile_def sm option.case Let_def
    by (rule triple_andthen [OF b], rule triple_andthen [OF w], rule triple_andthen [OF o1],
        rule triple_andthen [OF k], rule triple_case_prod, rule triple_andthen [OF d], rule triple_case_prod,
        rule triple_gets_then, rule triple_ret) (simp add: recovery_result_def)
qed

lemma recover_outcome:
  assumes T: "doc03_tables (env_tables env)" and s: "replays (env_tables env) s p0"
    and r: "recover env (bind_reconciler env branch alive) key s = (r, t)"
  shows "recovering alive (env_tables env) s t"
    and "r = Inr pr \<Longrightarrow> recovery_result (env_tables env) s p0 alive (length (writer_contents (rt_log s))) pr t"
proof -
  let ?T = "env_tables env" and ?s = "s\<lparr>rt_proj := p0\<rparr>"
  have p0: "proj_ok ?T p0" using in_sync_proj_ok [OF T replays_in_sync [OF s]] by simp
  have pre: "recovering alive ?T s ?s \<and> rt_proj ?s = p0"
    using replays_in_sync [OF s] by (simp add: recovering_def extends_def)
  have m: "reconcile env (bind_reconciler env branch alive) key (length (writer_contents (rt_log s))) p0 ?s = (r, t)"
    using r by (simp add: recover_unfold [OF s])
  note tr = reconcile_triple [OF T p0, of alive s branch key "length (writer_contents (rt_log s))"]
  show "r = Inr pr \<Longrightarrow> recovery_result ?T s p0 alive (length (writer_contents (rt_log s))) pr t"
    using tripleD(1) [OF tr pre] m by auto
  show "recovering alive ?T s t"
  proof (cases r)
    case (Inl e)
    then show ?thesis using tripleD(2) [OF tr pre] m by auto
  next
    case (Inr pr)
    then show ?thesis using tripleD(1) [OF tr pre] m by (auto simp: recovery_result_def)
  qed
qed

section \<open>A second pass\<close>

text \<open>The first fact a recovery appends finds something to recover.\<close>

lemma fact_step:
  assumes T: "doc03_tables T" and e: "proj_step T p e p'" and f: "recovery_fact alive e"
  shows "\<exists>x v. map_of (executions p) x = Some v \<and>
    (x_state v = EXECUTING \<and> \<not> alive x \<or> unwitnessed v)"
  using e f
proof (induction rule: proj_step.induct)
  case (move_execution xid v fn st v')
  then show ?case using doc03_step [OF T move_execution.hyps(3,4)]
    by (auto simp: recovery_fact_def execution_row_def)
next
  case (commit xid v)
  then show ?case by (auto simp: unwitnessed_def)
qed (auto simp: recovery_fact_def)

lemma settled:
  assumes p0: "proj_ok T p0"
    and r: "\<forall>x. map_of (executions p) x = map_option (recovered alive x) (map_of (executions p0) x)"
    and v: "map_of (executions p) x = Some v"
  shows "\<not> (x_state v = EXECUTING \<and> \<not> alive x \<or> unwitnessed v)"
proof -
  obtain u where u: "map_of (executions p0) x = Some u" "v = recovered alive x u" using r v by auto
  have "exec_ok x u" using p0 u(1) by (simp add: proj_ok_def execs_ok_def)
  then show ?thesis unfolding u(2)
    by (auto simp: recovered_def crashed_def committed_def unwitnessed_def exec_ok_def)
qed

section \<open>Properties\<close>

lemma start_replays:
  "storable es \<Longrightarrow> rebuild doc03 es empty_projection = Inr p \<Longrightarrow> replays (env_tables sample_env) (start_of es) p"
  using log_of_ok by (simp add: replays_def start_of_def sample_env_def)

lemma sample_storable: "storable (take 3 sample_log)" "storable (take 9 sample_log)" "storable sample_crashed"
  unfolding storable_def canonical_def by code_simp+

lemma sample_tables: "doc03_tables (env_tables sample_env)"
  by (simp add: sample_env_def doc03_doc03_tables)

text \<open>
  Recovery never corrupts the log. However it ends (returned, refused, a repository error in
  the middle, a tamper signal), the log still replays strictly, it holds everything it held before,
  and all that was added are crash and commit facts.
\<close>

theorem recover_keeps_log:
  assumes "doc03_tables (env_tables env)" and "replays (env_tables env) s p0"
    and "recover env (bind_reconciler env branch alive) key s = (r, t)"
  shows "\<exists>p new. replays (env_tables env) t p \<and>
    writer_contents (rt_log t) = writer_contents (rt_log s) @ new \<and>
    (\<forall>e \<in> set new. etype e \<in> {EXECUTION_CRASHED, COMMIT_CREATED})"
  using recover_outcome(1) [OF assms] in_sync_replays
  by (fastforce simp: recovering_def extends_def recovery_fact_def)

lemma recover_keeps_log_witness:
  "\<exists>r t p. recover sample_env (bind_reconciler sample_env ''main'' (\<lambda>_. False)) None (start_of (take 3 sample_log)) = (r, t) \<and>
     replays doc03 t p"
proof -
  have "is_ok (rebuild doc03 (take 3 sample_log) empty_projection)" by code_simp
  then obtain p0 where "rebuild doc03 (take 3 sample_log) empty_projection = Inr p0" by (auto simp: is_ok_iff)
  note p0 = start_replays [OF sample_storable(1) this]
  obtain r t where rt: "recover sample_env (bind_reconciler sample_env ''main'' (\<lambda>_. False)) None
      (start_of (take 3 sample_log)) = (r, t)" by fastforce
  from recover_keeps_log [OF sample_tables p0 rt] rt show ?thesis by (auto simp: sample_env_def)
qed

text \<open>
  C22: what a recovery that returns has done, for every repository and every answer of the process
  table: each execution that was open and whose engine is not alive is CRASHED, each intended and
  unrecorded commit is recorded, every other execution is untouched; the returned projection is the
  replay of the log; and the report names exactly the crashed executions.
\<close>

theorem recover_result:
  assumes "doc03_tables (env_tables env)" and "replays (env_tables env) s p0"
    and "recover env (bind_reconciler env branch alive) key s = (Inr (p, rep), t)"
  shows "replays (env_tables env) t p \<and>
    (\<forall>x. map_of (executions p) x = map_option (recovered alive x) (map_of (executions p0) x)) \<and>
    orphans_crashed rep = dead_ids alive (open_executions p0) \<and>
    replayed_events rep = length (writer_contents (rt_log s))"
  using recover_outcome(2) [OF assms, of "(p, rep)"] in_sync_replays
  by (fastforce simp: recovery_result_def recovering_def)

lemma recover_result_witness:
  "\<exists>p rep t v. recover sample_env (bind_reconciler sample_env ''main'' (\<lambda>_. False)) (Some ''w'')
       (start_of (take 3 sample_log)) = (Inr (p, rep), t) \<and>
     map_of (executions p) ''i1-e1'' = Some v \<and> x_state v = CRASHED \<and> orphans_crashed rep = [''i1-e1'']"
proof -
  have "(case rebuild doc03 (take 3 sample_log) empty_projection of
      Inr p \<Rightarrow> map_option x_state (map_of (executions p) ''i1-e1'') = Some EXECUTING \<and>
        map x_execution_id (open_executions p) = [''i1-e1''] \<and>
        is_ok (fst (reconcile sample_env (bind_reconciler sample_env ''main'' (\<lambda>_. False)) (Some ''w'') 3 p
          ((start_of (take 3 sample_log))\<lparr>rt_proj := p\<rparr>))) | _ \<Rightarrow> False)" by code_simp
  then obtain p0 v0 where r0: "rebuild doc03 (take 3 sample_log) empty_projection = Inr p0"
    and v0: "map_of (executions p0) ''i1-e1'' = Some v0" "x_state v0 = EXECUTING"
      "map x_execution_id (open_executions p0) = [''i1-e1'']"
    and ok: "is_ok (fst (reconcile sample_env (bind_reconciler sample_env ''main'' (\<lambda>_. False)) (Some ''w'') 3 p0
          ((start_of (take 3 sample_log))\<lparr>rt_proj := p0\<rparr>)))"
    by (auto split: sum.splits)
  note p0 = start_replays [OF sample_storable(1) r0]
  have "length (writer_contents (rt_log (start_of (take 3 sample_log)))) = 3"
    using log_of_ok [OF sample_storable(1)] by (simp add: start_of_def sample_log_def)
  then have "is_ok (fst (recover sample_env (bind_reconciler sample_env ''main'' (\<lambda>_. False)) (Some ''w'')
      (start_of (take 3 sample_log))))" using ok by (simp add: recover_unfold [OF p0])
  then obtain p rep t where rt: "recover sample_env (bind_reconciler sample_env ''main'' (\<lambda>_. False)) (Some ''w'')
      (start_of (take 3 sample_log)) = (Inr (p, rep), t)" by (auto simp: is_ok_iff) (metis prod.collapse)
  from recover_result [OF sample_tables p0 rt] v0 rt show ?thesis
    by (auto simp: recovered_def crashed_def dead_ids_def)
qed

text \<open>
  C23: recovery is idempotent. After it has returned once, running it again appends no event,
  whatever happened to the repository in between and however the second run ends.
\<close>

theorem recover_idempotent:
  assumes T: "doc03_tables (env_tables env)" and s: "replays (env_tables env) s p0"
    and one: "recover env (bind_reconciler env branch alive) key s = (Inr (p, rep), t)"
    and two: "recover env (bind_reconciler env branch' alive) key' (t\<lparr>rt_world := w\<rparr>) = (r, u)"
  shows "writer_contents (rt_log u) = writer_contents (rt_log t)"
proof (rule ccontr)
  let ?T = "env_tables env"
  have a: "recovery_result ?T s p0 alive (length (writer_contents (rt_log s))) (p, rep) t"
    by (rule recover_outcome(2) [OF T s one refl])
  then have t: "replays ?T t p" using in_sync_replays by (fastforce simp: recovery_result_def recovering_def)
  then have tw: "replays ?T (t\<lparr>rt_world := w\<rparr>) p" by (simp add: replays_def)
  have p0: "proj_ok ?T p0" using in_sync_proj_ok [OF T replays_in_sync [OF s]] by simp
  have b: "recovering alive ?T (t\<lparr>rt_world := w\<rparr>) u" by (rule recover_outcome(1) [OF T tw two])
  assume "writer_contents (rt_log u) \<noteq> writer_contents (rt_log t)"
  then obtain e new where new: "writer_contents (rt_log u) = writer_contents (rt_log t) @ e # new" "recovery_fact alive e"
    using b by (auto simp: recovering_def extends_def neq_Nil_conv)
  then obtain p1 where "apply_event ?T e p = Inr p1"
    using b t by (auto simp: recovering_def in_sync_def replays_def rebuild_append rebuild_Cons rbind_eq_Inr)
  then have "proj_step ?T (note_event p e) e p1" by (simp add: apply_event_def handle_step)
  from fact_step [OF T this new(2)] settled [OF p0, of p alive] a show False
    by (auto simp: recovery_result_def)
qed

lemma recover_idempotent_witness:
  "\<exists>p rep t r u. recover sample_env (bind_reconciler sample_env ''main'' (\<lambda>_. False)) None
       (start_of (take 3 sample_log)) = (Inr (p, rep), t) \<and>
     recover sample_env (bind_reconciler sample_env ''main'' (\<lambda>_. False)) None (t\<lparr>rt_world := ()\<rparr>) = (r, u) \<and>
     writer_contents (rt_log u) = writer_contents (rt_log t)"
proof -
  have "(case rebuild doc03 (take 3 sample_log) empty_projection of
      Inr p \<Rightarrow> is_ok (fst (reconcile sample_env (bind_reconciler sample_env ''main'' (\<lambda>_. False)) None 3 p
          ((start_of (take 3 sample_log))\<lparr>rt_proj := p\<rparr>))) | _ \<Rightarrow> False)" by code_simp
  then obtain p0 where r0: "rebuild doc03 (take 3 sample_log) empty_projection = Inr p0"
    and ok: "is_ok (fst (reconcile sample_env (bind_reconciler sample_env ''main'' (\<lambda>_. False)) None 3 p0
          ((start_of (take 3 sample_log))\<lparr>rt_proj := p0\<rparr>)))"
    by (auto split: sum.splits)
  note p0 = start_replays [OF sample_storable(1) r0]
  have "length (writer_contents (rt_log (start_of (take 3 sample_log)))) = 3"
    using log_of_ok [OF sample_storable(1)] by (simp add: start_of_def sample_log_def)
  then have "is_ok (fst (recover sample_env (bind_reconciler sample_env ''main'' (\<lambda>_. False)) None
      (start_of (take 3 sample_log))))" using ok by (simp add: recover_unfold [OF p0])
  then obtain p rep t where one: "recover sample_env (bind_reconciler sample_env ''main'' (\<lambda>_. False)) None
      (start_of (take 3 sample_log)) = (Inr (p, rep), t)" by (auto simp: is_ok_iff) (metis prod.collapse)
  obtain r u where two: "recover sample_env (bind_reconciler sample_env ''main'' (\<lambda>_. False)) None
      (t\<lparr>rt_world := ()\<rparr>) = (r, u)" by fastforce
  from recover_idempotent [OF sample_tables p0 one two] one two show ?thesis by blast
qed

text \<open>
  an unreleased containment of the workspace stops recovery before any repository operation and
  before anything is appended, whatever the seams are.
\<close>

theorem recover_blocked:
  assumes "replays (env_tables env) s p0" and "is_workspace_blocked p0 key"
  shows "recover env sm (Some key) s = (Inl WorkspaceContainmentBlocked, s\<lparr>rt_proj := p0\<rparr>)"
  using assms(2) by (simp add: recover_unfold [OF assms(1)] reconcile_def andthen_def whenever_def)

definition sample_contained :: "event list" where
  "sample_contained = take 3 sample_log @
     [sample_event EXECUTION_CONTAINMENT_PREPARED (JStr ''i1-e1'') sample_containment 4]"

lemma sample_contained_storable: "storable sample_contained"
  unfolding storable_def canonical_def by code_simp

lemma recover_blocked_witness:
  "\<exists>p. recover sample_env (bind_reconciler sample_env ''main'' (\<lambda>_. False)) (Some ''w'') (start_of sample_contained) =
     (Inl WorkspaceContainmentBlocked, (start_of sample_contained)\<lparr>rt_proj := p\<rparr>)"
proof -
  have "(case rebuild doc03 sample_contained empty_projection of
      Inr p \<Rightarrow> is_workspace_blocked p ''w'' | _ \<Rightarrow> False)" by code_simp
  then obtain p where p: "rebuild doc03 sample_contained empty_projection = Inr p" "is_workspace_blocked p ''w''"
    by (auto split: sum.splits)
  from recover_blocked [OF start_replays [OF sample_contained_storable p(1)] p(2)] show ?thesis by blast
qed

end
