(* ===== verification/ContainmentInv.thy ===== *)
theory ContainmentInv
  imports RecoveryInv
begin

text \<open>
  Start-up containment: which boundaries are released, when the start is refused, and that the log
  still replays, for every probe of the controller process.
\<close>

section \<open>Stored payloads stay stored\<close>

definition conts_stored :: "projection \<Rightarrow> bool" where
  "conts_stored p \<longleftrightarrow> (\<forall>k v. map_of (containments p) k = Some v \<longrightarrow> stored (JObj (prepared v)))"

lemma conts_stored_step:
  "proj_step T p e p' \<Longrightarrow> stored (JObj (payload e)) \<Longrightarrow> conts_stored p \<Longrightarrow> conts_stored p'"
  by (induction rule: proj_step.induct) (auto simp: conts_stored_def)

lemma conts_stored_replay:
  assumes T: "doc03_tables T" and r: "rebuild T es empty_projection = Inr p" and es: "storable es"
  shows "conts_stored p"
  using T r es
proof (induction rule: stored_replay_induct)
  case (snoc es e p p')
  then show ?case using conts_stored_step [OF snoc(4)] by (auto simp: conts_stored_def)
qed (simp add: conts_stored_def empty_projection_def)

section \<open>The release fact\<close>

definition release_event :: "string \<Rightarrow> containment_view \<Rightarrow> string \<Rightarrow> payload \<Rightarrow> string \<Rightarrow> string \<Rightarrow> event" where
  "release_event iid v key reason proof_ts now = new_event EXECUTION_CONTAINMENT_RELEASED
     (JStr iid) (JStr (c_execution_id v)) JNull
     [(''containment_generation'', JStr (generation v)), (''proof'', JObj reason),
      (''proof_kind'', JStr ''restart-controller-death''), (''proof_ts'', JStr proof_ts),
      (''workspace_key'', JStr key)] now"

lemma reason_shape:
  assumes "restart_release_reason v probe = Some reason"
  shows "reason \<noteq> [] \<and> (stored (JObj (prepared v)) \<longrightarrow> stored (JObj reason)) \<and>
    fst (probe (jget (prepared v) ''controller'')) \<in> {DEAD, PID_REUSED}"
proof -
  obtain lease st detail where l: "jget (prepared v) ''lease'' = JObj lease"
    and p: "probe (jget (prepared v) ''controller'') = (st, detail)" "st \<in> {DEAD, PID_REUSED}"
    and r: "reason = [(''atomic_launch'', JStr ''windows-job-list-at-create''),
       (''controller_identity_detail'', JStr detail), (''controller_identity_state'', JStr (controller_value st)),
       (''lease'', JObj lease), (''protocol_version'', JStr ''windows-job-v1'')]"
    using assms by (auto simp: restart_release_reason_def Let_def split: if_splits json.splits prod.splits)
  have "sorted [''atomic_launch'', ''controller_identity_detail'', ''controller_identity_state'', ''lease'', ''protocol_version'']"
    by code_simp
  then have "sorted (keys reason)" unfolding r by (simp only: list.map fst_conv)
  moreover have "distinct (keys reason)" by (simp add: r)
  ultimately have "stored (JObj reason)" if "stored (JObj lease)"
    by (rule stored_JObj) (use that in \<open>simp add: r\<close>)
  moreover have "stored (JObj lease)" if "stored (JObj (prepared v))"
    using stored_field [OF that, of "''lease''"] l by simp
  ultimately show ?thesis using p r by auto
qed

lemma release_event_good: "stored (JObj reason) \<Longrightarrow> good_event (release_event iid v key reason tstamp now)"
proof -
  let ?pl = "[(''containment_generation'', JStr (generation v)), (''proof'', JObj reason),
      (''proof_kind'', JStr ''restart-controller-death''), (''proof_ts'', JStr tstamp), (''workspace_key'', JStr key)]"
  assume r: "stored (JObj reason)"
  have "sorted [''containment_generation'', ''proof'', ''proof_kind'', ''proof_ts'', ''workspace_key'']" by code_simp
  then have "sorted (keys ?pl)" by (simp only: list.map fst_conv)
  then have "stored (JObj ?pl)" by (rule stored_JObj) (use r in simp_all)
  then show ?thesis unfolding release_event_def by (rule good_new_event) simp_all
qed

lemma release_applies:
  assumes p: "proj_ok T p" and v: "map_of (containments p) (x, g) = Some v" "c_state v \<noteq> RELEASED"
    and ex: "map_of (executions p) x = Some ex" "x_state ex = EXECUTING"
    and ok: "reason \<noteq> []" "tstamp \<noteq> []"
  shows "\<exists>p'. apply_event T (stamp (release_event (x_issue_id ex) v (workspace_key v) reason tstamp now) i) p = Inr p' \<and>
    executions p' = executions p \<and>
    containments p' = AList.update (x, g) (v\<lparr>c_state := RELEASED, released :=
      Some (payload (release_event (x_issue_id ex) v (workspace_key v) reason tstamp now))\<rparr>) (containments p)"
proof -
  have c: "c_execution_id v = x" "generation v = g" "g \<noteq> []" "workspace_key v \<noteq> []"
    using p v(1) by (auto simp: proj_ok_def conts_ok_def cont_ok_def)
  have e: "x \<noteq> []" "x_issue_id ex \<noteq> []"
    using p ex(1) by (auto simp: proj_ok_def execs_ok_def exec_ok_def)
  have n: "need a (JStr s) = Inr s" if "s \<noteq> []" for a s using that by (simp add: need_eq)
  have f: "string_field pl k = Inr s" if "map_of pl k = Some (JStr s)" "s \<noteq> []" for pl k s
    using that by (simp add: string_field_eq)
  show ?thesis
    using v ex ok c e
    by (simp add: apply_event_def handle_def h_containment_released_def matching_containment_def
        containment_execution_def containment_key_def need_execution_def need_issue_def n f release_event_def
        refuse_if_def nonempty_mapping_def mapping_field_def field_of_def)
qed

text \<open>The containments after those of \<open>K\<close> were released.\<close>

definition freed :: "(string \<times> string) set \<Rightarrow> projection \<Rightarrow> projection \<Rightarrow> bool" where
  "freed K p0 p \<longleftrightarrow> executions p = executions p0 \<and>
     (\<forall>k. (k \<notin> K \<longrightarrow> map_of (containments p) k = map_of (containments p0) k) \<and>
          (k \<in> K \<longrightarrow> (\<exists>v. map_of (containments p) k = Some v \<and> c_state v = RELEASED)))"

definition view_key :: "containment_view \<Rightarrow> string \<times> string" where
  "view_key v = (c_execution_id v, generation v)"

definition releasable :: "controller_probe \<Rightarrow> containment_view \<Rightarrow> bool" where
  "releasable probe v \<longleftrightarrow> restart_release_reason v probe \<noteq> None"

definition releasing :: "tables \<Rightarrow> 'w rt \<Rightarrow> 'w rt \<Rightarrow> bool" where
  "releasing T s0 s \<longleftrightarrow> in_sync T s \<and> extends (\<lambda>e. etype e = EXECUTION_CONTAINMENT_RELEASED) s0 s"

definition released_label :: "controller_probe \<Rightarrow> containment_view \<Rightarrow> string option" where
  "released_label probe v =
     (if releasable probe v then Some (c_execution_id v @ ''/'' @ generation v) else None)"

text \<open>The fact that releases one boundary, with the proof the probe gave.\<close>

definition release_of :: "controller_probe \<Rightarrow> containment_view \<Rightarrow> event \<Rightarrow> bool" where
  "release_of probe v e \<longleftrightarrow> etype e = EXECUTION_CONTAINMENT_RELEASED \<and>
     execution_id e = JStr (c_execution_id v) \<and>
     jget (payload e) ''containment_generation'' = JStr (generation v) \<and>
     (\<exists>reason. restart_release_reason v probe = Some reason \<and> jget (payload e) ''proof'' = JObj reason)"

text \<open>A release the projection can take: the boundary's execution is open.\<close>

definition release_open :: "controller_probe \<Rightarrow> projection \<Rightarrow> containment_view \<Rightarrow> bool" where
  "release_open probe p0 v \<longleftrightarrow> (restart_release_reason v probe \<noteq> None \<longrightarrow>
     (\<exists>ex. map_of (executions p0) (c_execution_id v) = Some ex \<and> x_state ex = EXECUTING))"

definition releases_done ::
  "tables \<Rightarrow> 'w rt \<Rightarrow> projection \<Rightarrow> controller_probe \<Rightarrow> containment_view list \<Rightarrow> string option list \<Rightarrow> 'w rt \<Rightarrow> bool" where
  "releases_done T s0 p0 probe done ys s \<longleftrightarrow> releasing T s0 s \<and>
     freed (view_key ` set (filter (releasable probe) done)) p0 (rt_proj s) \<and>
     (\<exists>new. writer_contents (rt_log s) = writer_contents (rt_log s0) @ new \<and>
       list_all2 (release_of probe) (filter (releasable probe) done) new) \<and>
     ys = map (released_label probe) done"

lemma freed_insert:
  assumes "freed K p0 p" and "executions p' = executions p"
    and "containments p' = AList.update k v (containments p)" and "c_state v = RELEASED"
  shows "freed (insert k K) p0 p'"
  using assms by (auto simp: freed_def)

lemma release_step:
  assumes T: "doc03_tables (env_tables env)" and clock: "\<And>w. clock w \<noteq> []"
    and p0: "proj_ok (env_tables env) p0" "conts_stored p0"
    and v: "map_of (containments p0) (view_key v) = Some v" "c_state v \<noteq> RELEASED" "workspace_key v = key"
    and ex: "release_open probe p0 v"
    and new: "view_key v \<notin> view_key ` set done"
  shows "triple (releases_done (env_tables env) s0 p0 probe done ys) (release_containment env key probe clock v)
    (\<lambda>y. releases_done (env_tables env) s0 p0 probe (done @ [v]) (ys @ [y])) (\<lambda>_ _. False)"
proof (rule triple_total)
  let ?T = "env_tables env"
  fix s assume s: "releases_done ?T s0 p0 probe done ys s"
  show "\<exists>y s'. release_containment env key probe clock v s = (Inr y, s') \<and>
      releases_done ?T s0 p0 probe (done @ [v]) (ys @ [y]) s'"
  proof (cases "restart_release_reason v probe")
    case None
    then show ?thesis using s
      by (simp add: release_containment_def releases_done_def releasable_def released_label_def)
  next
    case (Some reason)
    from ex Some obtain ex where ex: "map_of (executions p0) (c_execution_id v) = Some ex" "x_state ex = EXECUTING"
      by (auto simp: release_open_def)
    have p: "proj_ok ?T (rt_proj s)" and sync: "in_sync ?T s"
      using s in_sync_proj_ok [OF T] by (auto simp: releases_done_def releasing_def)
    have fr: "freed (view_key ` set (filter (releasable probe) done)) p0 (rt_proj s)"
      using s by (simp add: releases_done_def)
    have "view_key v \<notin> view_key ` set (filter (releasable probe) done)" using new by auto
    then have m: "map_of (containments (rt_proj s)) (c_execution_id v, generation v) = Some v"
      and mx: "map_of (executions (rt_proj s)) (c_execution_id v) = Some ex"
      using fr v(1) ex(1) by (auto simp: freed_def view_key_def)
    have g: "stored (JObj reason)" "reason \<noteq> []"
      using reason_shape [OF Some] p0(2) v(1) unfolding conts_stored_def by blast+
    let ?ev = "release_event (x_issue_id ex) v key reason (clock (rt_world s)) (utcnow env (rt_world s))"
    let ?i = "int (length (writer_contents (rt_log s))) + 1"
    obtain p' where p': "apply_event ?T (stamp ?ev ?i) (rt_proj s) = Inr p'" "executions p' = executions (rt_proj s)"
      "containments p' = AList.update (view_key v) (v\<lparr>c_state := RELEASED, released := Some (payload ?ev)\<rparr>)
        (containments (rt_proj s))"
      using release_applies [OF p m v(2) mx ex(2) g(2) clock, of "rt_world s" "utcnow env (rt_world s)" ?i] v(3)
      by (auto simp: view_key_def)
    obtain s' where s': "emit ?T ?ev s = (Inr (stamp ?ev ?i), s')" "in_sync ?T s'" "rt_proj s' = p'"
      "writer_contents (rt_log s') = writer_contents (rt_log s) @ [stamp ?ev ?i]"
      using emit_sync [OF sync release_event_good [OF g(1)] p'(1)] by blast
    have "release_containment env key probe clock v s = (Inr (Some (c_execution_id v @ ''/'' @ generation v)), s')"
      using s'(1) Some mx by (simp add: release_containment_def andthen_def release_event_def)
    moreover have "freed (view_key ` set (filter (releasable probe) (done @ [v]))) p0 (rt_proj s')"
      using freed_insert [OF fr p'(2,3)] s'(3) Some by (simp add: releasable_def)
    moreover have "releasing ?T s0 s'"
      using s s'(2,4) by (auto simp: releases_done_def releasing_def extends_def release_event_def)
    moreover have "\<exists>new. writer_contents (rt_log s') = writer_contents (rt_log s0) @ new \<and>
        list_all2 (release_of probe) (filter (releasable probe) (done @ [v])) new"
    proof -
      obtain new where "writer_contents (rt_log s) = writer_contents (rt_log s0) @ new"
        "list_all2 (release_of probe) (filter (releasable probe) done) new" using s by (auto simp: releases_done_def)
      moreover have "release_of probe v (stamp ?ev ?i)" using Some by (simp add: release_of_def release_event_def jget_def)
      ultimately show ?thesis using s'(4) Some
        by (intro exI [of _ "new @ [stamp ?ev ?i]"]) (simp add: releasable_def list_all2_appendI)
    qed
    ultimately show ?thesis using s Some
      by (auto simp: releases_done_def releasable_def released_label_def)
  qed
qed

lemma freedD:
  "freed K p0 p \<Longrightarrow> k \<notin> K \<Longrightarrow> map_of (containments p) k = map_of (containments p0) k"
  "freed K p0 p \<Longrightarrow> k \<in> K \<Longrightarrow> \<exists>v. map_of (containments p) k = Some v \<and> c_state v = RELEASED"
  unfolding freed_def by blast+

lemma view_key_at: "proj_ok T p \<Longrightarrow> map_of (containments p) k = Some v \<Longrightarrow> view_key v = k"
  unfolding proj_ok_def conts_ok_def cont_ok_def view_key_def by blast

section \<open>The whole start-up\<close>

text \<open>The boundaries start-up looks at: unreleased, of this workspace.\<close>

lemma unreleased_at:
  assumes p: "proj_ok T p" and v: "v \<in> set (unreleased_containments p (Some key))"
  shows "map_of (containments p) (view_key v) = Some v \<and> c_state v \<noteq> RELEASED \<and> workspace_key v = key"
proof -
  have d: "distinct (keys (containments p))" using p by (simp add: proj_ok_def keys_ok_def)
  from v obtain k where k: "(k, v) \<in> set (containments p)" and s: "c_state v \<noteq> RELEASED" "workspace_key v = key"
    by (auto simp: unreleased_containments_def)
  have m: "map_of (containments p) k = Some v" using d k by simp
  have "view_key v = k" by (rule view_key_at [OF p m])
  with m s show ?thesis by simp
qed

lemma unreleased_iff_at:
  assumes p: "proj_ok T p"
  shows "v \<in> set (unreleased_containments p (Some key)) \<longleftrightarrow>
    map_of (containments p) (view_key v) = Some v \<and> c_state v \<noteq> RELEASED \<and> workspace_key v = key"
proof
  assume "v \<in> set (unreleased_containments p (Some key))"
  then show "map_of (containments p) (view_key v) = Some v \<and> c_state v \<noteq> RELEASED \<and> workspace_key v = key"
    by (rule unreleased_at [OF p])
next
  assume v: "map_of (containments p) (view_key v) = Some v \<and> c_state v \<noteq> RELEASED \<and> workspace_key v = key"
  then have "(view_key v, v) \<in> set (containments p)" by (blast dest: map_of_SomeD)
  with v show "v \<in> set (unreleased_containments p (Some key))"
    by (force simp: unreleased_containments_def)
qed

lemma unreleased_distinct:
  assumes p: "proj_ok T p"
  shows "distinct (map view_key (unreleased_containments p key))"
proof -
  have d: "distinct (keys (containments p))" using p by (simp add: proj_ok_def keys_ok_def)
  then have "\<forall>kv \<in> set (containments p). view_key (snd kv) = fst kv"
    using view_key_at [OF p] by (metis Some_eq_map_of_iff prod.collapse)
  then have eq: "map view_key (map snd (containments p)) = keys (containments p)" by simp
  have "distinct (map view_key (map snd (containments p)))" unfolding eq by (rule d)
  then show ?thesis unfolding unreleased_containments_def by (rule distinct_map_filter)
qed

lemma unreleased_iff:
  assumes p: "proj_ok T p"
  shows "is_workspace_blocked p key \<longleftrightarrow>
    (\<exists>k v. map_of (containments p) k = Some v \<and> c_state v \<noteq> RELEASED \<and> workspace_key v = key)"
  using p blocked_iff by (simp add: proj_ok_def)

lemma freed_unreleased:
  assumes p0: "proj_ok T p0" and p: "proj_ok T p"
    and fr: "freed (view_key ` set (filter (releasable probe) (unreleased_containments p0 (Some key)))) p0 p"
  shows "set (unreleased_containments p (Some key)) = {v \<in> set (unreleased_containments p0 (Some key)). \<not> releasable probe v}"
proof -
  let ?K = "view_key ` set (filter (releasable probe) (unreleased_containments p0 (Some key)))"
  have K: "view_key v \<in> ?K \<longleftrightarrow> releasable probe v" if "v \<in> set (unreleased_containments p0 (Some key))" for v
  proof
    assume "view_key v \<in> ?K"
    then obtain v' where "view_key v' = view_key v" "v' \<in> set (unreleased_containments p0 (Some key))" "releasable probe v'"
      by auto
    then show "releasable probe v" using that unreleased_at [OF p0] by (metis option.inject)
  qed (use that in simp)
  show ?thesis
  proof (intro set_eqI iffI)
    fix v assume "v \<in> set (unreleased_containments p (Some key))"
    then have v: "map_of (containments p) (view_key v) = Some v" "c_state v \<noteq> RELEASED" "workspace_key v = key"
      using unreleased_at [OF p] by blast+
    then have nk: "view_key v \<notin> ?K" using freedD(2) [OF fr, of "view_key v"] by auto
    with v freedD(1) [OF fr nk] have "v \<in> set (unreleased_containments p0 (Some key))"
      by (simp add: unreleased_iff_at [OF p0])
    with nk K show "v \<in> {v \<in> set (unreleased_containments p0 (Some key)). \<not> releasable probe v}" by blast
  next
    fix v assume "v \<in> {v \<in> set (unreleased_containments p0 (Some key)). \<not> releasable probe v}"
    then have v: "v \<in> set (unreleased_containments p0 (Some key))" and "view_key v \<notin> ?K" using K by blast+
    then show "v \<in> set (unreleased_containments p (Some key))"
      using freedD(1) [OF fr, of "view_key v"] unreleased_at [OF p0 v] by (simp add: unreleased_iff_at [OF p])
  qed
qed

lemma blocked_set: "is_workspace_blocked p key \<longleftrightarrow> set (unreleased_containments p (Some key)) \<noteq> {}"
  by (simp add: is_workspace_blocked_def)

lemma somes_labels: "list_all (releasable probe) vs \<Longrightarrow>
  somes (map (released_label probe) vs) = map (\<lambda>v. c_execution_id v @ ''/'' @ generation v) vs"
  by (induction vs) (simp_all add: released_label_def)

lemma releases_all:
  assumes T: "doc03_tables (env_tables env)" and clock: "\<And>w. clock w \<noteq> []"
    and p0: "proj_ok (env_tables env) p0" "conts_stored p0"
    and vs: "unreleased_containments p0 (Some key) = vs @ later"
    and ex: "\<forall>v \<in> set vs. release_open probe p0 v"
  shows "triple (releases_done (env_tables env) s0 p0 probe [] [])
    (for_each (release_containment env key probe clock) vs)
    (\<lambda>ys. releases_done (env_tables env) s0 p0 probe vs ys) (\<lambda>_ _. False)"
proof (rule triple_for_each_res [where I = "releases_done (env_tables env) s0 p0 probe"])
  fix v "done" ys rest assume "vs = done @ v # rest"
  then have xs: "unreleased_containments p0 (Some key) = done @ v # rest @ later"
    and x: "release_open probe p0 v" using vs ex by simp_all
  have v: "map_of (containments p0) (view_key v) = Some v" "c_state v \<noteq> RELEASED" "workspace_key v = key"
    using unreleased_at [OF p0(1), of v key] by (simp_all add: xs)
  have "view_key v \<notin> view_key ` set done"
    using unreleased_distinct [OF p0(1), of "Some key"] by (auto simp: xs)
  then show "triple (releases_done (env_tables env) s0 p0 probe done ys) (release_containment env key probe clock v)
    (\<lambda>y. releases_done (env_tables env) s0 p0 probe (done @ [v]) (ys @ [y])) (\<lambda>_ _. False)"
    by (rule release_step [OF T clock p0 v x])
qed

text \<open>The state a successful or refused start leaves.\<close>

lemma releases_run:
  assumes T: "doc03_tables (env_tables env)" and clock: "\<And>w. clock w \<noteq> []"
    and s: "replays (env_tables env) s p0"
    and vs: "unreleased_containments p0 (Some key) = vs @ later"
    and ex: "\<forall>v \<in> set vs. release_open probe p0 v"
  shows "\<exists>ys t. for_each (release_containment env key probe clock) vs (s\<lparr>rt_proj := p0\<rparr>) = (Inr ys, t)
    \<and> releases_done (env_tables env) s p0 probe vs ys t"
proof -
  let ?T = "env_tables env" and ?s = "s\<lparr>rt_proj := p0\<rparr>"
  have sync: "in_sync ?T ?s" by (rule replays_in_sync [OF s])
  have p0: "proj_ok ?T p0" using in_sync_proj_ok [OF T sync] by simp
  have st: "conts_stored p0"
    using s conts_stored_replay [OF T _ writer_ok_storable] by (auto simp: replays_def)
  have "releases_done ?T s p0 probe [] [] ?s"
    using sync by (simp add: releases_done_def releasing_def extends_def freed_def)
  with releases_all [where clock = clock, OF T clock p0 st vs ex, of s] show ?thesis
    by (cases "for_each (release_containment env key probe clock) vs ?s";
        cases "fst (for_each (release_containment env key probe clock) vs ?s)") (force simp: triple_def)+
qed

lemma startup_outcome:
  assumes T: "doc03_tables (env_tables env)" and clock: "\<And>w. clock w \<noteq> []"
    and s: "replays (env_tables env) s p0"
    and ex: "\<forall>v \<in> set (unreleased_containments p0 (Some key)). release_open probe p0 v"
  shows "\<exists>t. resolve_startup_containment env key probe clock s =
      (if list_all (releasable probe) (unreleased_containments p0 (Some key))
       then Inr (map (\<lambda>v. c_execution_id v @ ''/'' @ generation v) (unreleased_containments p0 (Some key)))
       else Inl WorkspaceContainmentBlocked, t) \<and>
    releasing (env_tables env) s t \<and>
    (\<exists>new. writer_contents (rt_log t) = writer_contents (rt_log s) @ new \<and>
      list_all2 (release_of probe) (filter (releasable probe) (unreleased_containments p0 (Some key))) new) \<and>
    set (unreleased_containments (rt_proj t) (Some key))
      = {v \<in> set (unreleased_containments p0 (Some key)). \<not> releasable probe v}"
proof -
  let ?T = "env_tables env" and ?vs = "unreleased_containments p0 (Some key)"
  have p0: "proj_ok ?T p0" using in_sync_proj_ok [OF T replays_in_sync [OF s]] by simp
  obtain ys t where f: "for_each (release_containment env key probe clock) ?vs (s\<lparr>rt_proj := p0\<rparr>) = (Inr ys, t)"
    and d: "releases_done ?T s p0 probe ?vs ys t"
    using releases_run [where clock = clock and key = key and later = "[]", OF T clock s _ ex] by auto
  have t: "proj_ok ?T (rt_proj t)" using d in_sync_proj_ok [OF T] by (auto simp: releases_done_def releasing_def)
  have u: "set (unreleased_containments (rt_proj t) (Some key)) = {v \<in> set ?vs. \<not> releasable probe v}"
    using freed_unreleased [OF p0 t] d by (simp add: releases_done_def)
  then have b: "is_workspace_blocked (rt_proj t) key \<longleftrightarrow> \<not> list_all (releasable probe) ?vs"
    by (auto simp: blocked_set list_all_iff)
  have "resolve_startup_containment env key probe clock s =
      (if list_all (releasable probe) ?vs then Inr (somes ys) else Inl WorkspaceContainmentBlocked, t)"
    using f b by (simp add: resolve_startup_containment_def andthen_def replay_log_eq [OF s])
  then show ?thesis using u d somes_labels by (auto simp: releases_done_def)
qed

section \<open>A release the log cannot take\<close>

lemma release_refused:
  assumes p: "proj_ok T p" and v: "map_of (containments p) (view_key v) = Some v"
    and ex: "map_of (executions p) (c_execution_id v) = Some ex" "x_state ex \<noteq> EXECUTING"
  shows "apply_event T (stamp (release_event (x_issue_id ex) v key reason tstamp now) i) p
    = Inl (TransitionError ContainmentIllegalState)"
proof -
  have e: "c_execution_id v \<noteq> []" "x_issue_id ex \<noteq> []"
    using p ex(1) by (auto simp: proj_ok_def execs_ok_def exec_ok_def)
  have n: "need a (JStr s) = Inr s" if "s \<noteq> []" for a s using that by (simp add: need_eq)
  show ?thesis
    using v ex e
    by (simp add: apply_event_def handle_def h_containment_released_def matching_containment_def
        containment_execution_def need_execution_def need_issue_def n release_event_def refuse_if_def)
qed

text \<open>The release is in the log when its application is refused.\<close>

lemma release_unapplied:
  assumes T: "doc03_tables (env_tables env)" and sync: "in_sync (env_tables env) s"
    and m: "map_of (containments (rt_proj s)) (view_key v) = Some v"
    and ex: "map_of (executions (rt_proj s)) (c_execution_id v) = Some ex" "x_state ex \<noteq> EXECUTING"
    and rr: "restart_release_reason v probe \<noteq> None" and st: "stored (JObj (prepared v))"
  shows "\<exists>t. release_containment env key probe clock v s = (Inl (ApplyFailed (TransitionError ContainmentIllegalState)), t) \<and>
    (\<forall>p more. rebuild (env_tables env) (writer_contents (rt_log t) @ more) empty_projection \<noteq> Inr p)"
proof -
  let ?T = "env_tables env"
  obtain reason where reason: "restart_release_reason v probe = Some reason" using rr by blast
  have g: "stored (JObj reason)" using reason_shape [OF reason] st by blast
  let ?ev = "release_event (x_issue_id ex) v key reason (clock (rt_world s)) (utcnow env (rt_world s))"
  let ?i = "int (length (writer_contents (rt_log s))) + 1"
  have bad: "apply_event ?T (stamp ?ev i) (rt_proj s) = Inl (TransitionError ContainmentIllegalState)" for i
    by (rule release_refused [OF in_sync_proj_ok [OF T sync] m ex])
  obtain w' where w': "append_event ?ev (rt_log s) = Inr (?i, w')"
    "writer_contents w' = writer_contents (rt_log s) @ [stamp ?ev ?i]"
    using file_store.emit_ok [of "rt_log s" ?ev] release_event_good [OF g] sync by (auto simp: in_sync_def)
  let ?t = "s\<lparr>rt_log := w'\<rparr>"
  have "emit ?T ?ev s = (Inl (ApplyFailed (TransitionError ContainmentIllegalState)), ?t)"
    using w'(1) bad by (simp add: emit_def)
  then have "release_containment env key probe clock v s =
      (Inl (ApplyFailed (TransitionError ContainmentIllegalState)), ?t)"
    using reason ex(1) by (simp add: release_containment_def andthen_def release_event_def)
  moreover have "rebuild ?T (writer_contents (rt_log ?t) @ more) empty_projection \<noteq> Inr p" for p more
    using w'(2) sync bad by (auto simp: in_sync_def rebuild_append rebuild_Cons rbind_eq_Inr)
  ultimately show ?thesis by blast
qed

lemma for_each_append_Inl:
  "for_each f xs s = (Inr ys, t) \<Longrightarrow> f x t = (Inl e, t') \<Longrightarrow> for_each f (xs @ x # zs) s = (Inl e, t')"
  by (induction xs arbitrary: s ys) (auto simp: andthen_def split: prod.splits sum.splits)

section \<open>Properties\<close>

text \<open>
  C24: start-up containment. When the executions behind the releasable boundaries of the workspace (those
  whose recorded protocol is the approved one and whose controller is proven dead) are still open,
  start-up appends exactly one release per releasable boundary, in the projection's order, each with
  the proof of that boundary, and nothing else; the boundaries still unreleased afterwards are exactly the
  others, so it succeeds exactly when there are none and refuses otherwise. Either way the log still replays, and the
  projection is blocked exactly if the start was refused.
\<close>

theorem startup_releases_proven_dead:
  assumes "doc03_tables (env_tables env)" and "\<And>w. clock w \<noteq> []"
    and "replays (env_tables env) s p0"
    and "\<forall>v \<in> set (unreleased_containments p0 (Some key)). restart_release_reason v probe \<noteq> None \<longrightarrow>
      (\<exists>ex. map_of (executions p0) (c_execution_id v) = Some ex \<and> x_state ex = EXECUTING)"
  shows "\<exists>t new. resolve_startup_containment env key probe clock s =
      (if list_all (\<lambda>v. restart_release_reason v probe \<noteq> None) (unreleased_containments p0 (Some key))
       then Inr (map (\<lambda>v. c_execution_id v @ ''/'' @ generation v) (unreleased_containments p0 (Some key)))
       else Inl WorkspaceContainmentBlocked, t) \<and>
    replays (env_tables env) t (rt_proj t) \<and>
    writer_contents (rt_log t) = writer_contents (rt_log s) @ new \<and>
    list_all2 (release_of probe)
      (filter (\<lambda>v. restart_release_reason v probe \<noteq> None) (unreleased_containments p0 (Some key))) new \<and>
    (\<forall>e \<in> set new. etype e = EXECUTION_CONTAINMENT_RELEASED) \<and>
    set (unreleased_containments (rt_proj t) (Some key))
      = {v \<in> set (unreleased_containments p0 (Some key)). restart_release_reason v probe = None} \<and>
    (is_workspace_blocked (rt_proj t) key \<longleftrightarrow>
      (\<exists>v \<in> set (unreleased_containments p0 (Some key)). restart_release_reason v probe = None))"
proof -
  have eq: "(\<lambda>v. restart_release_reason v probe \<noteq> None) = releasable probe"
    by (simp add: releasable_def fun_eq_iff)
  have neq: "restart_release_reason v probe = None \<longleftrightarrow> \<not> releasable probe v" for v by (simp add: releasable_def)
  obtain t new where t: "resolve_startup_containment env key probe clock s =
      (if list_all (releasable probe) (unreleased_containments p0 (Some key))
       then Inr (map (\<lambda>v. c_execution_id v @ ''/'' @ generation v) (unreleased_containments p0 (Some key)))
       else Inl WorkspaceContainmentBlocked, t)"
    "releasing (env_tables env) s t"
    and new: "writer_contents (rt_log t) = writer_contents (rt_log s) @ new"
    "list_all2 (release_of probe) (filter (releasable probe) (unreleased_containments p0 (Some key))) new"
    and u: "set (unreleased_containments (rt_proj t) (Some key))
      = {v \<in> set (unreleased_containments p0 (Some key)). \<not> releasable probe v}"
    using startup_outcome [where clock = clock and probe = probe, OF assms [folded release_open_def]] by blast
  have "\<forall>e \<in> set new. etype e = EXECUTION_CONTAINMENT_RELEASED"
    using new(2) by (auto simp: in_set_conv_nth list_all2_conv_all_nth release_of_def)
  moreover have "is_workspace_blocked (rt_proj t) key \<longleftrightarrow>
      (\<exists>v \<in> set (unreleased_containments p0 (Some key)). \<not> releasable probe v)" using u by (auto simp: blocked_set)
  moreover have "in_sync (env_tables env) t" using t(2) by (simp add: releasing_def)
  ultimately show ?thesis unfolding eq unfolding neq not_not using t(1) in_sync_replays new u by blast
qed

lemma startup_releases_proven_dead_witness:
  "\<exists>t. resolve_startup_containment sample_env ''w'' (\<lambda>_. (DEAD, ''gone'')) (\<lambda>_. ''2026-01-01'') (start_of sample_contained) =
     (Inr [''i1-e1/g''], t) \<and> \<not> is_workspace_blocked (rt_proj t) ''w''"
proof -
  have "(case rebuild doc03 sample_contained empty_projection of
      Inr p \<Rightarrow> (case unreleased_containments p (Some ''w'') of
          [v] \<Rightarrow> c_execution_id v = ''i1-e1'' \<and> generation v = ''g'' \<and>
            map_option x_state (map_of (executions p) ''i1-e1'') = Some EXECUTING \<and>
            restart_release_reason v (\<lambda>_. (DEAD, ''gone'')) \<noteq> None | _ \<Rightarrow> False)
      | _ \<Rightarrow> False)" by code_simp
  then obtain p v where p: "rebuild doc03 sample_contained empty_projection = Inr p"
    and v: "unreleased_containments p (Some ''w'') = [v]" "c_execution_id v = ''i1-e1''" "generation v = ''g''"
      "map_option x_state (map_of (executions p) ''i1-e1'') = Some EXECUTING"
      "restart_release_reason v (\<lambda>_. (DEAD, ''gone'')) \<noteq> None"
    by (auto split: sum.splits list.splits)
  note r = start_replays [OF sample_contained_storable p]
  have "\<forall>v \<in> set (unreleased_containments p (Some ''w'')).
      restart_release_reason v (\<lambda>_. (DEAD, ''gone'')) \<noteq> None \<longrightarrow>
      (\<exists>ex. map_of (executions p) (c_execution_id v) = Some ex \<and> x_state ex = EXECUTING)"
    using v by auto
  from startup_releases_proven_dead [OF sample_tables _ r this, of "\<lambda>_. ''2026-01-01''"] v
  show ?thesis by auto
qed

text \<open>
  A boundary is released only on proof: the containment was prepared with the approved launch
  protocol, its job was witnessed as kill-on-close once established, and the probe of the recorded
  controller answered dead or reused.
\<close>

theorem release_needs_proof:
  assumes "restart_release_reason v probe = Some reason"
  shows "fst (probe (jget (prepared v) ''controller'')) \<in> {DEAD, PID_REUSED} \<and>
    jget (prepared v) ''protocol_version'' = JStr ''windows-job-v1'' \<and>
    jget (prepared v) ''launch_mode'' = JStr ''windows-job-list-at-create'' \<and>
    (c_state v \<in> {ESTABLISHED, UNCONFIRMED} \<longrightarrow> established_job_ok v)"
  using assms by (auto simp: restart_release_reason_def Let_def split: if_splits json.splits prod.splits)

lemma release_needs_proof_witness:
  "\<exists>v reason. restart_release_reason v (\<lambda>_. (PID_REUSED, ''p'')) = Some reason \<and>
     jget (prepared v) ''protocol_version'' = JStr ''windows-job-v1''"
proof -
  let ?v = "\<lparr>c_execution_id = ''x'', workspace_key = ''w'', generation = ''g'', c_state = PREPARED,
    prepared = sample_containment, established = None, unconfirmed = None, released = None\<rparr>"
  have "restart_release_reason ?v (\<lambda>_. (PID_REUSED, ''p'')) \<noteq> None" by code_simp
  then obtain reason where "restart_release_reason ?v (\<lambda>_. (PID_REUSED, ''p'')) = Some reason" by blast
  with release_needs_proof [OF this] show ?thesis by blast
qed

text \<open>
  C25: start-up appends before it applies. If the execution behind any releasable boundary of the workspace is no
  longer open (crashed while the workspace had another key, say), wherever that boundary stands among the
  others, a release is written to the log and then refused by the projection: the start fails, and from then
  on the log never replays again. With the property above, every start is covered.
\<close>

theorem release_of_closed_execution_breaks_log:
  assumes T: "doc03_tables (env_tables env)" and clock: "\<And>w. clock w \<noteq> []"
    and s: "replays (env_tables env) s p0"
    and v: "v \<in> set (unreleased_containments p0 (Some key))" "restart_release_reason v probe \<noteq> None"
    and ex: "map_of (executions p0) (c_execution_id v) = Some ex" "x_state ex \<noteq> EXECUTING"
  shows "\<exists>t. resolve_startup_containment env key probe clock s =
      (Inl (ApplyFailed (TransitionError ContainmentIllegalState)), t) \<and>
    (\<forall>p more. rebuild (env_tables env) (writer_contents (rt_log t) @ more) empty_projection \<noteq> Inr p)"
proof -
  have "\<not> release_open probe p0 v" using v(2) ex by (simp add: release_open_def)
  with v(1) obtain vs u later where split: "unreleased_containments p0 (Some key) = vs @ u # later"
    and u: "\<not> release_open probe p0 u" and vs: "\<forall>v \<in> set vs. release_open probe p0 v"
    using split_list_first_prop [of "unreleased_containments p0 (Some key)" "\<lambda>v. \<not> release_open probe p0 v"] by blast
  have p0: "proj_ok (env_tables env) p0" using in_sync_proj_ok [OF T replays_in_sync [OF s]] by simp
  have at: "map_of (containments p0) (view_key u) = Some u" using unreleased_at [OF p0, of u key] split by simp
  have "map_of (executions p0) (c_execution_id u) \<noteq> None"
    using p0 at by (auto simp: proj_ok_def conts_ok_def view_key_def)
  with u obtain ex' where ex': "map_of (executions p0) (c_execution_id u) = Some ex'" "x_state ex' \<noteq> EXECUTING"
    by (auto simp: release_open_def)
  obtain ys t1 where run: "for_each (release_containment env key probe clock) vs (s\<lparr>rt_proj := p0\<rparr>) = (Inr ys, t1)"
    and d: "releases_done (env_tables env) s p0 probe vs ys t1"
    using releases_run [where clock = clock, OF T clock s split vs] by blast
  have "view_key u \<notin> view_key ` set (filter (releasable probe) vs)"
    using unreleased_distinct [OF p0, of "Some key"] by (auto simp: split)
  then have "map_of (containments (rt_proj t1)) (view_key u) = Some u"
    "map_of (executions (rt_proj t1)) (c_execution_id u) = Some ex'"
    using d freedD(1) [of _ p0 "rt_proj t1" "view_key u"] at ex'(1) by (auto simp: releases_done_def freed_def [of _ p0 "rt_proj t1"])
  moreover have "stored (JObj (prepared u))"
    using s conts_stored_replay [OF T _ writer_ok_storable] at unfolding replays_def conts_stored_def by blast
  ultimately obtain t where t: "release_containment env key probe clock u t1 =
      (Inl (ApplyFailed (TransitionError ContainmentIllegalState)), t)"
    and never: "\<forall>p more. rebuild (env_tables env) (writer_contents (rt_log t) @ more) empty_projection \<noteq> Inr p"
    using release_unapplied [OF T _ _ _ ex'(2), of t1 u probe key clock] u d
    by (auto simp: release_open_def releases_done_def releasing_def)
  have "for_each (release_containment env key probe clock) (vs @ u # later) (s\<lparr>rt_proj := p0\<rparr>)
      = (Inl (ApplyFailed (TransitionError ContainmentIllegalState)), t)"
    using for_each_append_Inl [OF run] t by simp
  then show ?thesis using never
    by (auto simp: resolve_startup_containment_def andthen_def replay_log_eq [OF s] split)
qed

lemma release_of_closed_execution_breaks_log_witness:
  "\<exists>t. resolve_startup_containment sample_env ''w'' (\<lambda>_. (DEAD, ''gone'')) (\<lambda>_. ''2026-01-01'') (start_of sample_crashed) =
     (Inl (ApplyFailed (TransitionError ContainmentIllegalState)), t)"
proof -
  have "(case rebuild doc03 sample_crashed empty_projection of
      Inr p \<Rightarrow> (case unreleased_containments p (Some ''w'') of
          [v] \<Rightarrow> c_execution_id v = ''i1-e1'' \<and>
            map_option x_state (map_of (executions p) ''i1-e1'') = Some CRASHED \<and>
            restart_release_reason v (\<lambda>_. (DEAD, ''gone'')) \<noteq> None | _ \<Rightarrow> False)
      | _ \<Rightarrow> False)" by code_simp
  then obtain p v ex where p: "rebuild doc03 sample_crashed empty_projection = Inr p"
    and v: "unreleased_containments p (Some ''w'') = [v]" "restart_release_reason v (\<lambda>_. (DEAD, ''gone'')) \<noteq> None"
    and ex: "map_of (executions p) (c_execution_id v) = Some ex" "x_state ex = CRASHED"
    by (auto split: sum.splits list.splits)
  note r = start_replays [OF sample_storable(3) p]
  from release_of_closed_execution_breaks_log [OF sample_tables _ r _ v(2) ex(1), of "\<lambda>_. ''2026-01-01''" "''w''"] ex(2) v(1)
  show ?thesis by auto
qed

end
