(* ===== verification/Validation.thy ===== *)
theory Validation
  imports Pack Prog
begin

text \<open>
  \<open>src/runtime/validation/runner.py\<close>: the gate chain. The operating system is a parameter, the
  record \<open>os\<close>: the clock, the environment of this process, running a child with its output in a
  log file, and writing that file. What the validator decides from their answers is modelled.
\<close>

section \<open>The operating system\<close>

text \<open>
  \<open>spawn argv cwd env timeout log\<close> returns the exit status, \<open>None\<close> after a timeout;
  \<open>write_file path append bytes\<close> opens, writes and closes; \<open>repr_float\<close> is \<open>repr\<close> of a float.
\<close>

type_synonym ('w, 'a) os_call = "('w, string, 'a) prog"

record 'w os =
  is_windows :: bool
  monotonic :: "('w, pyfloat) os_call"
  environ :: "'w \<Rightarrow> (string \<times> string) list"
  spawn :: "string list \<Rightarrow> string \<Rightarrow> (string \<times> string) list \<Rightarrow> int \<Rightarrow> string \<Rightarrow> ('w, int option) os_call"
  write_file :: "string \<Rightarrow> bool \<Rightarrow> string \<Rightarrow> ('w, unit) os_call"
  repr_float :: "pyfloat \<Rightarrow> string"

fun float_neg :: "pyfloat \<Rightarrow> pyfloat" where
  "float_neg (Fin r) = Fin (- r)"
| "float_neg PInf = NInf"
| "float_neg NInf = PInf"
| "float_neg NotANumber = NotANumber"

definition float_sub :: "pyfloat \<Rightarrow> pyfloat \<Rightarrow> pyfloat" where
  "float_sub x y = float_add x (float_neg y)"

definition shell_argv :: "bool \<Rightarrow> string \<Rightarrow> string list" where
  "shell_argv windows cmd =
     (if windows then [''powershell.exe'', ''-NoProfile'', ''-NonInteractive'', ''-Command'', cmd]
      else [''/bin/sh'', ''-c'', cmd])"

section \<open>Results\<close>

record gate =
  g_name :: string
  g_passed :: bool
  g_duration :: pyfloat
  g_log_path :: string

record validation_result =
  v_passed :: bool
  v_commit :: json
  per_command :: "gate list"
  flake_retries :: nat
  v_taxonomy :: "string option"

definition gate_results :: "(pyfloat \<Rightarrow> string) \<Rightarrow> validation_result \<Rightarrow> json" where
  "gate_results rp r = JArr (map (\<lambda>g. JObj
     [(''duration_s'', JFloat (rp (g_duration g))), (''gate'', JStr (g_name g)),
      (''log_path'', JStr (g_log_path g)), (''passed'', JBool (g_passed g))]) (per_command r))"

section \<open>The validator\<close>

record validator =
  v_commands :: "string list"
  v_timeout :: int
  v_artifacts_dir :: string
  v_env :: "(string \<times> string option) list"

definition has_dollar :: "string list \<Rightarrow> bool" where
  "has_dollar cmds \<longleftrightarrow> (\<exists>c \<in> set cmds. CHR ''$'' \<in> set c)"

datatype validator_error = NoCommands | DollarInCommand

definition make_validator ::
  "string list \<Rightarrow> int \<Rightarrow> string \<Rightarrow> (string \<times> string option) list \<Rightarrow> bool \<Rightarrow> validator_error + validator" where
  "make_validator commands timeout dir overlay acknowledged_no_gate =
     rbind (require (commands \<noteq> [] \<or> acknowledged_no_gate) NoCommands) (\<lambda>_.
     rbind (require (\<not> has_dollar commands) DollarInCommand) (\<lambda>_.
     Inr \<lparr>v_commands = commands, v_timeout = timeout, v_artifacts_dir = dir, v_env = overlay\<rparr>))"

definition child_env :: "(string \<times> string option) list \<Rightarrow> (string \<times> string) list \<Rightarrow> (string \<times> string) list" where
  "child_env overlay base = foldl (\<lambda>built (k, v). case v of
     None \<Rightarrow> AList.delete k built | Some x \<Rightarrow> AList.update k x built) base overlay"

definition retry_banner :: string where
  "retry_banner = LF # ''--- flake-retry ---'' @ [LF]"

definition timeout_banner :: string where
  "timeout_banner = LF # ''--- validation command timed out ---'' @ [LF]"

definition run_once ::
  "'w os \<Rightarrow> validator \<Rightarrow> string \<Rightarrow> string \<Rightarrow> string \<Rightarrow> bool \<Rightarrow> ('w, bool \<times> pyfloat) os_call" where
  "run_once os v cmd workspace log_path app =
     andthen (monotonic os) (\<lambda>t0.
     andthen (write_file os log_path app (if app then retry_banner else [])) (\<lambda>_.
     andthen (gets (environ os)) (\<lambda>base.
     andthen (spawn os (shell_argv (is_windows os) cmd) workspace (child_env (v_env v) base) (v_timeout v) log_path) (\<lambda>code.
     andthen (case code of
        None \<Rightarrow> andthen (write_file os log_path True timeout_banner) (\<lambda>_. ret False)
      | Some c \<Rightarrow> ret (c = 0)) (\<lambda>ok.
     andthen (monotonic os) (\<lambda>t1.
     ret (ok, float_sub t1 t0)))))))"

text \<open>One gate: a failure is retried once; the flag says whether it was.\<close>

definition run_gate ::
  "'w os \<Rightarrow> validator \<Rightarrow> string \<Rightarrow> string \<Rightarrow> string \<Rightarrow> ('w, gate \<times> bool) os_call" where
  "run_gate os v workspace log_path cmd =
     andthen (run_once os v cmd workspace log_path False) (\<lambda>(ok, dur).
     andthen (if ok then ret (ok, dur)
              else andthen (run_once os v cmd workspace log_path True) (\<lambda>(ok2, dur2).
                   ret (ok2, float_add dur dur2))) (\<lambda>(ok', dur').
     ret (\<lparr>g_name = cmd, g_passed = ok', g_duration = round_digits 3 dur', g_log_path = log_path\<rparr>, \<not> ok)))"

fun run_gates ::
  "'w os \<Rightarrow> validator \<Rightarrow> string \<Rightarrow> string \<Rightarrow> nat \<Rightarrow> string list \<Rightarrow> validation_result \<Rightarrow>
     ('w, validation_result) os_call" where
  "run_gates os v workspace logdir i [] r = ret r"
| "run_gates os v workspace logdir i (cmd # cmds) r =
     andthen (run_gate os v workspace (logdir @ ''/'' @ show_nat i @ ''.log'') cmd) (\<lambda>(g, retried).
     let r1 = r\<lparr>flake_retries := flake_retries r + (if retried then 1 else 0),
                per_command := per_command r @ [g]\<rparr>
     in if g_passed g then run_gates os v workspace logdir (i + 1) cmds r1
        else ret (r1\<lparr>v_passed := False, v_taxonomy := Some ''validation-test''\<rparr>))"

definition validate ::
  "'w os \<Rightarrow> validator \<Rightarrow> string \<Rightarrow> json \<Rightarrow> string \<Rightarrow> string list \<Rightarrow> ('w, validation_result) os_call" where
  "validate os v workspace commit xid extra_commands =
     (let logdir = v_artifacts_dir v @ ''/'' @ xid @ ''/validation'';
          commands = v_commands v @ extra_commands
      in if has_dollar commands then throw ''ValueError''
         else run_gates os v workspace logdir 0 commands
           \<lparr>v_passed = True, v_commit = commit, per_command = [], flake_retries = 0, v_taxonomy = None\<rparr>)"

section \<open>What a result says\<close>

text \<open>
  \<open>chain cmds r0 r\<close>: \<open>r\<close> extends \<open>r0\<close> by the gates of a prefix of \<open>cmds\<close>, all passed but perhaps the
  last, which is there if and only if it failed.
\<close>

definition chain :: "string list \<Rightarrow> validation_result \<Rightarrow> validation_result \<Rightarrow> bool" where
  "chain cmds r0 r \<longleftrightarrow> (\<exists>gs. per_command r = per_command r0 @ gs \<and>
     map g_name gs = take (length gs) cmds \<and>
     (if v_passed r then length gs = length cmds \<and> (\<forall>g \<in> set gs. g_passed g) \<and> v_taxonomy r = v_taxonomy r0
      else gs \<noteq> [] \<and> length gs \<le> length cmds \<and> (\<forall>g \<in> set (butlast gs). g_passed g) \<and>
        \<not> g_passed (last gs) \<and> v_taxonomy r = Some ''validation-test'') \<and>
     flake_retries r \<le> flake_retries r0 + length gs \<and>
     (\<not> v_passed r \<longrightarrow> flake_retries r0 < flake_retries r) \<and> v_commit r = v_commit r0)"

lemma run_gate_result:
  "run_gate os v ws path cmd w = (Inr (g, retried), w') \<Longrightarrow>
     g_name g = cmd \<and> (\<not> g_passed g \<longrightarrow> retried)"
  by (auto simp: run_gate_def andthen_eq split: if_splits)

lemma run_gates_chain:
  "run_gates os v ws dir i cmds r0 w = (Inr r, w') \<Longrightarrow> v_passed r0 \<Longrightarrow> chain cmds r0 r"
proof (induction cmds arbitrary: i r0 w)
  case (Cons c cs)
  let ?path = "dir @ ''/'' @ show_nat i @ ''.log''"
  from Cons.prems(1) obtain g rt w1 where g: "run_gate os v ws ?path c w = (Inr (g, rt), w1)"
    and rest: "(let r1 = r0\<lparr>flake_retries := flake_retries r0 + (if rt then 1 else 0), per_command := per_command r0 @ [g]\<rparr>
       in if g_passed g then run_gates os v ws dir (i + 1) cs r1
        else ret (r1\<lparr>v_passed := False, v_taxonomy := Some ''validation-test''\<rparr>)) w1 = (Inr r, w')"
    by (auto simp: andthen_eq)
  note gr = run_gate_result [OF g]
  show ?case
  proof (cases "g_passed g")
    case True
    let ?r1 = "r0\<lparr>flake_retries := flake_retries r0 + (if rt then 1 else 0), per_command := per_command r0 @ [g]\<rparr>"
    have "chain cs ?r1 r"
      by (rule Cons.IH [of "i + 1" ?r1 w1]) (use rest True Cons.prems(2) in auto)
    then obtain gs where gs: "per_command r = (per_command r0 @ [g]) @ gs"
      "map g_name gs = take (length gs) cs"
      "if v_passed r then length gs = length cs \<and> (\<forall>g \<in> set gs. g_passed g) \<and> v_taxonomy r = v_taxonomy r0
       else gs \<noteq> [] \<and> length gs \<le> length cs \<and> (\<forall>g \<in> set (butlast gs). g_passed g) \<and>
        \<not> g_passed (last gs) \<and> v_taxonomy r = Some ''validation-test''"
      "flake_retries r \<le> flake_retries ?r1 + length gs"
      "\<not> v_passed r \<longrightarrow> flake_retries ?r1 < flake_retries r" "v_commit r = v_commit r0"
      unfolding chain_def by auto
    show ?thesis unfolding chain_def
      by (rule exI [of _ "g # gs"]) (use gs gr True in \<open>auto split: if_splits\<close>)
  next
    case False
    with rest gr show ?thesis unfolding chain_def by (intro exI [of _ "[g]"]) auto
  qed
qed (auto simp: chain_def)

lemma child_env_lookup:
  "distinct (keys overlay) \<Longrightarrow> map_of (child_env overlay base) k =
     (case map_of overlay k of None \<Rightarrow> map_of base k | Some v \<Rightarrow> v)"
  unfolding child_env_def
proof (induction overlay arbitrary: base)
  case (Cons kv overlay)
  obtain a v where kv: "kv = (a, v)" by (cases kv)
  have "map_of overlay a = None" using Cons.prems kv by (auto simp: map_of_eq_None_iff)
  then show ?case using Cons.IH Cons.prems kv
    by (auto simp: delete_conv' split: option.splits)
qed simp

section \<open>The child runs of a result\<close>

text \<open>
  \<open>recorded os\<close> answers as \<open>os\<close> does and notes, beside the world, every child that ran, with its exit status.
\<close>

definition beside :: "('w, 'a) os_call \<Rightarrow> ('w \<times> 'l, 'a) os_call" where
  "beside p wl = (case wl of (w, l) \<Rightarrow> (case p w of (r, w') \<Rightarrow> (r, (w', l))))"

definition noted :: "string list \<Rightarrow> ('w, int option) os_call \<Rightarrow> ('w \<times> (string list \<times> int option) list, int option) os_call" where
  "noted argv p wl = (case wl of (w, l) \<Rightarrow> (case p w of
     (Inl e, w') \<Rightarrow> (Inl e, (w', l))
   | (Inr c, w') \<Rightarrow> (Inr c, (w', l @ [(argv, c)]))))"

definition recorded :: "'w os \<Rightarrow> ('w \<times> (string list \<times> int option) list) os" where
  "recorded os = \<lparr>is_windows = is_windows os, monotonic = beside (monotonic os), environ = environ os \<circ> fst,
     spawn = (\<lambda>argv cwd env timeout log_path. noted argv (spawn os argv cwd env timeout log_path)),
     write_file = (\<lambda>path app bytes. beside (write_file os path app bytes)), repr_float = repr_float os\<rparr>"

text \<open>The runs of one gate: one with status 0, or a failed one and then the one that decides.\<close>

definition gate_ran :: "bool \<Rightarrow> gate \<Rightarrow> (string list \<times> int option) list \<Rightarrow> bool" where
  "gate_ran win g rs \<longleftrightarrow>
     (let argv = shell_argv win (g_name g) in
      rs = [(argv, Some 0)] \<and> g_passed g
      \<or> (\<exists>c d. rs = [(argv, c), (argv, d)] \<and> c \<noteq> Some 0 \<and> (g_passed g \<longleftrightarrow> d = Some 0)))"

lemma beside_eq: "beside p (w, l) = (case p w of (r, w') \<Rightarrow> (r, (w', l)))"
  by (simp add: beside_def)

lemma noted_eq: "noted argv p (w, l) = (case p w of (Inl e, w') \<Rightarrow> (Inl e, (w', l)) | (Inr c, w') \<Rightarrow> (Inr c, (w', l @ [(argv, c)])))"
  by (simp add: noted_def)

lemma run_once_recorded:
  assumes "run_once os v cmd ws path app w = (Inr (ok, dur), w')"
  shows "\<exists>c. (ok \<longleftrightarrow> c = Some 0) \<and>
    run_once (recorded os) v cmd ws path app (w, l) = (Inr (ok, dur), (w', l @ [(shell_argv (is_windows os) cmd, c)]))"
proof -
  let ?sp = "spawn os (shell_argv (is_windows os) cmd) ws"
  from assms obtain t0 w1 w2 code w3 w4 t1 where run: "monotonic os w = (Inr t0, w1)"
    "write_file os path app (if app then retry_banner else []) w1 = (Inr (), w2)"
    "?sp (child_env (v_env v) (environ os w2)) (v_timeout v) path w2 = (Inr code, w3)"
    "(case code of None \<Rightarrow> andthen (write_file os path True timeout_banner) (\<lambda>_. ret False)
      | Some c \<Rightarrow> ret (c = 0)) w3 = (Inr ok, w4)"
    "monotonic os w4 = (Inr t1, w')" "dur = float_sub t1 t0"
    by (auto simp: run_once_def andthen_eq)
  show ?thesis
    by (rule exI [of _ code]) (use run in \<open>cases code;
      simp add: run_once_def recorded_def beside_eq noted_eq andthen_def ret_def gets_def split: prod.splits sum.splits\<close>)
qed

lemma run_gate_recorded:
  assumes "run_gate os v ws path cmd w = (Inr (g, retried), w')"
  shows "\<exists>rs. gate_ran (is_windows os) g rs \<and> (retried \<longleftrightarrow> length rs = 2) \<and>
    run_gate (recorded os) v ws path cmd (w, l) = (Inr (g, retried), (w', l @ rs))"
proof -
  from assms obtain ok d w1 where one: "run_once os v cmd ws path False w = (Inr (ok, d), w1)"
    and ret: "retried \<longleftrightarrow> \<not> ok" and name: "g_name g = cmd"
    by (auto simp: run_gate_def andthen_eq split: if_splits)
  from run_once_recorded [OF one] obtain c where c: "ok \<longleftrightarrow> c = Some 0"
    and r1: "run_once (recorded os) v cmd ws path False (w, l) = (Inr (ok, d), (w1, l @ [(shell_argv (is_windows os) cmd, c)]))"
    by blast
  show ?thesis
  proof (cases ok)
    case True
    then have "g_passed g" using assms one by (auto simp: run_gate_def andthen_eq)
    with True assms one r1 c name ret show ?thesis
      by (intro exI [of _ "[(shell_argv (is_windows os) cmd, c)]"]) (auto simp: run_gate_def andthen_eq gate_ran_def)
  next
    case False
    with assms one obtain ok2 d2 where two: "run_once os v cmd ws path True w1 = (Inr (ok2, d2), w')"
      and g: "g = \<lparr>g_name = cmd, g_passed = ok2, g_duration = round_digits 3 (float_add d d2), g_log_path = path\<rparr>"
      by (auto simp: run_gate_def andthen_eq)
    let ?l1 = "l @ [(shell_argv (is_windows os) cmd, c)]"
    from run_once_recorded [OF two, of ?l1] obtain e where e: "ok2 \<longleftrightarrow> e = Some 0"
      and r2: "run_once (recorded os) v cmd ws path True (w1, ?l1)
        = (Inr (ok2, d2), (w', ?l1 @ [(shell_argv (is_windows os) cmd, e)]))" by blast
    show ?thesis
      by (intro exI [of _ "[(shell_argv (is_windows os) cmd, c), (shell_argv (is_windows os) cmd, e)]"])
        (use False ret c e g r1 r2 in \<open>auto simp: run_gate_def andthen_eq gate_ran_def\<close>)
  qed
qed

lemma run_gates_recorded:
  "run_gates os v ws dir i cmds r0 w = (Inr r, w') \<Longrightarrow>
   \<exists>gs runs. per_command r = per_command r0 @ gs \<and> list_all2 (gate_ran (is_windows os)) gs runs \<and>
     flake_retries r = flake_retries r0 + length (filter (\<lambda>rs. length rs = 2) runs) \<and>
     run_gates (recorded os) v ws dir i cmds r0 (w, l) = (Inr r, (w', l @ concat runs))"
proof (induction cmds arbitrary: i r0 w l)
  case (Cons c cs)
  let ?path = "dir @ ''/'' @ show_nat i @ ''.log''"
  let ?r1 = "\<lambda>g rt. r0\<lparr>flake_retries := flake_retries r0 + (if rt then 1 else 0), per_command := per_command r0 @ [g]\<rparr>"
  from Cons.prems obtain g rt w1 where g: "run_gate os v ws ?path c w = (Inr (g, rt), w1)"
    and rest: "(if g_passed g then run_gates os v ws dir (i + 1) cs (?r1 g rt)
        else ret ((?r1 g rt)\<lparr>v_passed := False, v_taxonomy := Some ''validation-test''\<rparr>)) w1 = (Inr r, w')"
    by (auto simp: andthen_eq Let_def)
  from run_gate_recorded [OF g] obtain rs where rs: "gate_ran (is_windows os) g rs" "rt \<longleftrightarrow> length rs = 2"
    and run: "run_gate (recorded os) v ws ?path c (w, l) = (Inr (g, rt), (w1, l @ rs))" by blast
  show ?case
  proof (cases "g_passed g")
    case True
    with rest have "run_gates os v ws dir (i + 1) cs (?r1 g rt) w1 = (Inr r, w')" by simp
    from Cons.IH [OF this, of "l @ rs"] obtain gs runs where
      "per_command r = per_command (?r1 g rt) @ gs" "list_all2 (gate_ran (is_windows os)) gs runs"
      "flake_retries r = flake_retries (?r1 g rt) + length (filter (\<lambda>rs. length rs = 2) runs)"
      "run_gates (recorded os) v ws dir (i + 1) cs (?r1 g rt) (w1, l @ rs) = (Inr r, (w', (l @ rs) @ concat runs))" by blast
    then show ?thesis
      by (intro exI [of _ "g # gs"] exI [of _ "rs # runs"]) (use True rs run in \<open>auto simp: andthen_eq Let_def\<close>)
  next
    case False
    with rest rs run show ?thesis
      by (intro exI [of _ "[g]"] exI [of _ "[rs]"]) (auto simp: andthen_eq Let_def)
  qed
qed auto

lemma validate_recorded:
  assumes "validate os v ws commit xid extra w = (Inr r, w')"
  shows "\<exists>runs. validate (recorded os) v ws commit xid extra (w, []) = (Inr r, (w', concat runs))
    \<and> list_all2 (gate_ran (is_windows os)) (per_command r) runs
    \<and> flake_retries r = length (filter (\<lambda>rs. length rs = 2) runs)"
proof -
  let ?r0 = "\<lparr>v_passed = True, v_commit = commit, per_command = [], flake_retries = 0, v_taxonomy = None\<rparr>"
  from assms have nd: "\<not> has_dollar (v_commands v @ extra)"
    and run: "run_gates os v ws (v_artifacts_dir v @ ''/'' @ xid @ ''/validation'') 0 (v_commands v @ extra) ?r0 w = (Inr r, w')"
    by (auto simp: validate_def Let_def split: if_splits)
  from run_gates_recorded [OF run, of "[]"] show ?thesis
    by (simp add: validate_def nd) blast
qed

section \<open>Properties\<close>

text \<open>C27: Validation returns with the gates of a prefix of the configured and extra commands, in order:
  it passed exactly when every command has a gate and every gate passed; otherwise the last gate is
  the one that failed, twice, no later command was run, and the taxonomy is set. The children that ran, with
  their exit statuses, are those of the gates in order and no others: a gate ran its command once, with
  status 0, and passed; or a first run had another status or timed out, and a second and last run decided, with status 0
  for a pass. The retries counted are the gates that ran twice. A command with a dollar sign is never run.\<close>

theorem validate_verdict:
  assumes "validate os v ws commit xid extra w = (Inr r, w')"
  shows "map g_name (per_command r) = take (length (per_command r)) (v_commands v @ extra) \<and>
    (v_passed r \<longleftrightarrow> length (per_command r) = length (v_commands v @ extra) \<and> (\<forall>g \<in> set (per_command r). g_passed g)) \<and>
    (\<not> v_passed r \<longrightarrow> per_command r \<noteq> [] \<and> \<not> g_passed (last (per_command r)) \<and>
       (\<forall>g \<in> set (butlast (per_command r)). g_passed g) \<and> 0 < flake_retries r) \<and>
    (v_taxonomy r \<noteq> None \<longleftrightarrow> \<not> v_passed r) \<and> flake_retries r \<le> length (per_command r) \<and>
    v_commit r = commit \<and> \<not> has_dollar (v_commands v @ extra) \<and>
    (\<exists>runs. validate (recorded os) v ws commit xid extra (w, []) = (Inr r, (w', concat runs))
       \<and> list_all2 (gate_ran (is_windows os)) (per_command r) runs
       \<and> flake_retries r = length (filter (\<lambda>rs. length rs = 2) runs))"
proof -
  have nd: "\<not> has_dollar (v_commands v @ extra)" using assms by (auto simp: validate_def Let_def split: if_splits)
  then have "chain (v_commands v @ extra)
     \<lparr>v_passed = True, v_commit = commit, per_command = [], flake_retries = 0, v_taxonomy = None\<rparr> r"
    using assms by (auto simp: validate_def Let_def dest: run_gates_chain)
  then show ?thesis using nd validate_recorded [OF assms] unfolding chain_def
    by (auto split: if_splits)
qed

definition sample_os :: "nat os" where
  "sample_os = \<lparr>is_windows = False, monotonic = ret (Fin 0), environ = (\<lambda>_. [(''PATH'', ''/bin'')]),
     spawn = (\<lambda>argv _ _ _ _ n. (Inr (if argv = [''/bin/sh'', ''-c'', ''flaky''] \<and> n = 0 then Some 1
        else if argv = [''/bin/sh'', ''-c'', ''bad''] then None else Some 0), n + 1)),
     write_file = (\<lambda>_ _ _. ret ()), repr_float = (\<lambda>_. ''0.0'')\<rparr>"

definition sample_validator :: validator where
  "sample_validator = \<lparr>v_commands = [''flaky'', ''bad'', ''last''], v_timeout = 600, v_artifacts_dir = ''a'', v_env = []\<rparr>"

definition sample_verdict :: validation_result where
  "sample_verdict = \<lparr>v_passed = False, v_commit = JStr ''c'', per_command =
     [\<lparr>g_name = ''flaky'', g_passed = True, g_duration = Fin 0, g_log_path = ''a/x-e1/validation/0.log''\<rparr>,
      \<lparr>g_name = ''bad'', g_passed = False, g_duration = Fin 0, g_log_path = ''a/x-e1/validation/1.log''\<rparr>],
     flake_retries = 2, v_taxonomy = Some ''validation-test''\<rparr>"

lemma sample_validate:
  "validate sample_os sample_validator ''w'' (JStr ''c'') ''x-e1'' [] 0 = (Inr sample_verdict, 4)"
  by code_simp

theorem validate_verdict_witness:
  "validate sample_os sample_validator ''w'' (JStr ''c'') ''x-e1'' [] 0 = (Inr sample_verdict, 4) \<and>
   (v_taxonomy sample_verdict \<noteq> None \<longleftrightarrow> \<not> v_passed sample_verdict) \<and>
   map g_name (per_command sample_verdict) = take 2 [''flaky'', ''bad'', ''last'']"
  using validate_verdict [OF sample_validate] sample_validate
  by (simp add: sample_verdict_def sample_validator_def)

text \<open>The environment of a validation command is the parent's, except that a key of the overlay has
  the overlay's value, and is absent when that value is \<open>None\<close>.\<close>

theorem child_env_overlay:
  assumes "distinct (keys overlay)"
  shows "map_of (child_env overlay base) k =
    (case map_of overlay k of None \<Rightarrow> map_of base k | Some v \<Rightarrow> v)"
  using assms by (rule child_env_lookup)

theorem child_env_overlay_witness:
  "map_of (child_env [(''VIRTUAL_ENV'', None)] [(''VIRTUAL_ENV'', ''v'')]) ''VIRTUAL_ENV'' = None"
  using child_env_overlay [of "[(''VIRTUAL_ENV'', None)]" "[(''VIRTUAL_ENV'', ''v'')]" "''VIRTUAL_ENV''"] by simp

end
