(* ===== verification/Glob.thy ===== *)
theory Glob
  imports PyStr
begin

text \<open>
  The standard library's \<open>fnmatch.fnmatch\<close>, which the orchestrator uses to pick new test files: \<open>*\<close>,
  \<open>?\<close>, \<open>[seq]\<close> and \<open>[!seq]\<close> with ranges, an unclosed bracket being a literal; on Windows both
  arguments are normalised first.
\<close>

datatype glob = Any | One | OneOf bool "(char \<times> char) list" | Exactly char

text \<open>A character is the range of itself.\<close>

fun set_items :: "string \<Rightarrow> (char \<times> char) list" where
  "set_items (a # b # c # s) = (if b = CHR ''-'' then (a, c) # set_items s else (a, a) # set_items (b # c # s))"
| "set_items [a, b] = [(a, a), (b, b)]"
| "set_items [a] = [(a, a)]"
| "set_items [] = []"

text \<open>The text between the brackets: a \<open>]\<close> that comes first is a member. \<open>None\<close> if it is not closed.\<close>

definition bracket :: "string \<Rightarrow> (string \<times> string) option" where
  "bracket s =
     (let pre = (if s \<noteq> [] \<and> hd s = CHR ''!'' then 1 else 0);
          skip = pre + (if length s > pre \<and> s ! pre = CHR '']'' then 1 else 0);
          body = takeWhile (\<lambda>c. c \<noteq> CHR '']'') (drop skip s);
          rest = drop (skip + length body) s
      in if rest = [] then None else Some (take skip s @ body, tl rest))"

lemma bracket_shorter: "bracket s = Some (b, r) \<Longrightarrow> length r < length s"
  by (auto simp: bracket_def Let_def split: if_splits)

definition one_of :: "string \<Rightarrow> glob" where
  "one_of b = (if b \<noteq> [] \<and> hd b = CHR ''!'' then OneOf True (set_items (tl b)) else OneOf False (set_items b))"

function parse_glob :: "string \<Rightarrow> glob list" where
  "parse_glob [] = []"
| "parse_glob (c # s) =
     (if c = CHR ''*'' then Any # parse_glob s
      else if c = CHR ''?'' then One # parse_glob s
      else if c = CHR ''['' then (case bracket s of
          None \<Rightarrow> Exactly c # parse_glob s
        | Some (b, r) \<Rightarrow> one_of b # parse_glob r)
      else Exactly c # parse_glob s)"
  by pat_completeness auto
termination
  by (relation "measure length") (auto dest: bracket_shorter)

definition in_items :: "(char \<times> char) list \<Rightarrow> char \<Rightarrow> bool" where
  "in_items items c \<longleftrightarrow> (\<exists>(a, b) \<in> set items. ord_of a \<le> ord_of c \<and> ord_of c \<le> ord_of b)"

fun glob_match :: "glob list \<Rightarrow> string \<Rightarrow> bool" where
  "glob_match [] s = (s = [])"
| "glob_match (Any # gs) [] = glob_match gs []"
| "glob_match (Any # gs) (c # s) = (glob_match gs (c # s) \<or> glob_match (Any # gs) s)"
| "glob_match (One # gs) s = (case s of [] \<Rightarrow> False | c # s' \<Rightarrow> glob_match gs s')"
| "glob_match (OneOf neg items # gs) s =
     (case s of [] \<Rightarrow> False | c # s' \<Rightarrow> in_items items c \<noteq> neg \<and> glob_match gs s')"
| "glob_match (Exactly d # gs) s = (case s of [] \<Rightarrow> False | c # s' \<Rightarrow> c = d \<and> glob_match gs s')"

definition normcase :: "bool \<Rightarrow> string \<Rightarrow> string" where
  "normcase windows s = (if windows then map (\<lambda>c. if c = CHR ''/'' then BSL else c) (lower s) else s)"

definition fnmatch :: "bool \<Rightarrow> string \<Rightarrow> string \<Rightarrow> bool" where
  "fnmatch windows name pat = glob_match (parse_glob (normcase windows pat)) (normcase windows name)"

text \<open>A star matches every string, also at the end of a literal prefix.\<close>

lemma glob_match_Any: "glob_match [Any] s"
  by (induction s) auto

lemma glob_match_literal: "glob_match (map Exactly p @ gs) s \<longleftrightarrow> (\<exists>t. s = p @ t \<and> glob_match gs t)"
  by (induction p arbitrary: s) (auto split: list.splits)

lemma parse_glob_literal:
  "\<forall>c \<in> set p. c \<notin> {CHR ''*'', CHR ''?'', CHR ''[''} \<Longrightarrow> parse_glob (p @ s) = map Exactly p @ parse_glob s"
  by (induction p) auto

lemma fnmatch_prefix:
  assumes "\<forall>c \<in> set p. c \<notin> {CHR ''*'', CHR ''?'', CHR ''[''}"
  shows "fnmatch False name (p @ ''*'') \<longleftrightarrow> (\<exists>t. name = p @ t)"
  using assms by (simp add: fnmatch_def normcase_def parse_glob_literal glob_match_literal glob_match_Any)

end
