(* ===== verification/Loop.thy ===== *)
theory Loop
  imports Recovery Validation Glob
begin

text \<open>
  \<open>src/runtime/loop.py\<close>: the orchestrator. One deterministic step per call, chosen from the replayed
  projection; every event is appended before it is applied. The engine, the reviewer and the digest
  of a prompt are parameters; the validator and the budget are the modelled ones.
\<close>

section \<open>State and collaborators\<close>

text \<open>The prompt files are the part of the artifacts directory this code writes and reads back.\<close>

record 'w lp = "'w rt" +
  lp_budget :: budget_manager
  lp_prompts :: "(string \<times> string) list"

type_synonym ('w, 'a) lprog = "('w lp, rt_error, 'a) prog"

record engine_result =
  exit_status :: int
  timed_out :: bool
  duration_s :: json
  usage :: payload
  num_turns :: "int option"
  transcript_path :: string

text \<open>\<open>EngineInterrupted\<close> is a \<open>KeyboardInterrupt\<close> that arrives while the engine runs.\<close>

datatype engine_error = EngineContainmentError string | EngineError string | EngineInterrupted

record review_pack =
  pack_execution :: string
  pack_commit :: json
  pack_issue_text :: string
  pack_diff :: string

record verdict =
  approved :: bool
  provider :: string
  severity :: string
  v_feedback :: "json list"

text \<open>\<open>ReviewParseError\<close> carries the name of its class, which the escalation records.\<close>

datatype review_error = ReviewerUnavailableError string | ReviewParseError string

record 'w orchestrator =
  o_env :: "'w env"
  o_os :: "'w os"
  o_validator :: validator
  target :: string
  workspace :: string
  validation_commands :: "string list"
  new_test_pattern :: "string option"
  new_test_command_prefix :: "string option"
  max_attempts_per_issue :: int
  engine_provider :: string
  engine_timeout :: int
  max_turns :: int
  o_pid :: int
  o_run_id :: string
  allowed_issue_ids :: "string list option"
  selection_order :: "string list option"
  selection_dependencies :: "(string \<times> string list) list option"
  prompt_hash :: "string \<Rightarrow> string"
  run_engine :: "string \<Rightarrow> string \<Rightarrow> ('w lp, engine_error, engine_result) prog"
  review_call :: "review_pack \<Rightarrow> ('w, review_error, verdict) prog"

abbreviation o_tables :: "'w orchestrator \<Rightarrow> tables" where
  "o_tables self \<equiv> env_tables (o_env self)"

text \<open>\<open>_emit(_event(...))\<close>.\<close>

definition emit_event :: "'w orchestrator \<Rightarrow> event_type \<Rightarrow> string \<Rightarrow> payload \<Rightarrow> string option \<Rightarrow> ('w, unit) lprog" where
  "emit_event self t issue pl xid =
     andthen (gets (utcnow (o_env self) \<circ> rt_world)) (\<lambda>now.
     andthen (emit (o_tables self) (new_event t (JStr issue) (jopt xid) (JStr (o_run_id self)) pl now)) (\<lambda>_.
     ret ()))"

section \<open>Choosing an issue\<close>

fun scan_issues ::
  "projection \<Rightarrow> string list option \<Rightarrow> (string \<times> issue_state) list \<Rightarrow> proj_error + string option" where
  "scan_issues p allowed [] = Inr None"
| "scan_issues p allowed ((iid, st) # rest) =
     (if (case allowed of None \<Rightarrow> False | Some ids \<Rightarrow> iid \<notin> set ids) then scan_issues p allowed rest
      else if st = ACTIVE then Inr (Some iid)
      else if st = PENDING then rbind (deps_met p iid) (\<lambda>met.
        if met then Inr (Some iid) else scan_issues p allowed rest)
      else scan_issues p allowed rest)"

definition next_actionable_selected ::
  "projection \<Rightarrow> string list \<Rightarrow> string list \<Rightarrow> (string \<times> string list) list \<Rightarrow> string option" where
  "next_actionable_selected p allowed order deps =
     (case List.find (\<lambda>(iid, st). iid \<in> set allowed \<and> st = ACTIVE) (issues p) of
        Some (iid, _) \<Rightarrow> Some iid
      | None \<Rightarrow> List.find (\<lambda>iid. map_of (issues p) iid = Some PENDING \<and>
          (\<forall>d \<in> set (case map_of deps iid of None \<Rightarrow> [] | Some ds \<Rightarrow> ds). map_of (issues p) d = Some DONE)) order)"

definition next_actionable :: "'w orchestrator \<Rightarrow> projection \<Rightarrow> proj_error + string option" where
  "next_actionable self p =
     (case (allowed_issue_ids self, selection_order self) of
        (Some allowed, Some order) \<Rightarrow> Inr (next_actionable_selected p allowed order
          (case selection_dependencies self of None \<Rightarrow> [] | Some deps \<Rightarrow> deps))
      | _ \<Rightarrow> scan_issues p (allowed_issue_ids self) (issues p))"

section \<open>The rows of the transition table\<close>

definition activate :: "'w orchestrator \<Rightarrow> string \<Rightarrow> ('w, unit) lprog" where
  "activate self issue =
     andthen (repo_call (head_of (o_env self) (target self))) (\<lambda>base.
     case base of None \<Rightarrow> throw (OrchestratorHalt TargetHasNoHead)
     | Some b \<Rightarrow> emit_event self ISSUE_ACTIVATED issue [(''base_commit'', JStr b)] None)"

text \<open>\<open>sorted(adapter.list_attempt_refs(issue).keys())\<close>.\<close>

definition evidence_refs :: "'w orchestrator \<Rightarrow> string \<Rightarrow> ('w, json) lprog" where
  "evidence_refs self issue =
     andthen (repo_call (list_attempt_refs (o_env self) (Some issue))) (\<lambda>refs.
     ret (JArr (map JStr (sort (keys refs)))))"

definition escalate :: "'w orchestrator \<Rightarrow> string \<Rightarrow> string \<Rightarrow> string \<Rightarrow> ('w, unit) lprog" where
  "escalate self issue why taxonomy =
     andthen (evidence_refs self issue) (\<lambda>evidence.
     emit_event self ISSUE_ESCALATED issue
       [(''evidence_refs'', evidence), (''reason'', JStr why), (''taxonomy_category'', JStr taxonomy)] None)"

text \<open>
  Membership in a Python set: \<open>True\<close>, \<open>1\<close> and \<open>1.0\<close> are one element; a list or a dictionary has no hash.
\<close>

definition hash_key :: "json \<Rightarrow> json" where
  "hash_key v = (case v of
     JBool b \<Rightarrow> JInt (if b then 1 else 0)
   | JFloat l \<Rightarrow> (case float_of_lexeme l of Fin r \<Rightarrow> if of_int \<lfloor>r\<rfloor> = r then JInt \<lfloor>r\<rfloor> else v | _ \<Rightarrow> v)
   | _ \<Rightarrow> v)"

definition has_duplicate_feedback :: "json list \<Rightarrow> rt_error + bool" where
  "has_duplicate_feedback categories =
     (if list_all hashable categories then Inr (\<not> distinct (map hash_key categories)) else Inl ArgumentTypeError)"

definition lift_prompt :: "prompt_error + 'a \<Rightarrow> ('w, 'a) lprog" where
  "lift_prompt r = lift (case r of Inl e \<Rightarrow> Inl (PromptFailed e) | Inr a \<Rightarrow> Inr a)"

definition write_prompt :: "string \<Rightarrow> string \<Rightarrow> ('w, unit) lprog" where
  "write_prompt xid text = modify (\<lambda>s. s\<lparr>lp_prompts := AList.update xid text (lp_prompts s)\<rparr>)"

definition attempt_id :: "string \<Rightarrow> nat \<Rightarrow> string" where
  "attempt_id issue n = issue @ ''-e'' @ show_nat n"

definition spawn_payload ::
  "'w orchestrator \<Rightarrow> execution_view option \<Rightarrow> string \<Rightarrow> string list \<Rightarrow> payload" where
  "spawn_payload self prev prompt untracked =
     [(''budget'', JObj [(''max_turns'', JInt (max_turns self)), (''wall_seconds'', JInt (engine_timeout self))]),
      (''engine'', JStr (engine_provider self)),
      (''parent_execution_id'', jopt (map_option x_execution_id prev)),
      (''pid'', JInt (o_pid self)),
      (''pre_execution_untracked'', JArr (map JStr (sort untracked))),
      (''prompt_hash'', JStr (prompt_hash self prompt)),
      (''spawn_reason'', JStr (case prev of None \<Rightarrow> ''initial'' | Some _ \<Rightarrow> ''retry''))]"

definition spawn_execution :: "'w orchestrator \<Rightarrow> string \<Rightarrow> execution_view option \<Rightarrow> projection \<Rightarrow> ('w, unit) lprog" where
  "spawn_execution self issue prev p =
     (let xid = attempt_id issue (attempts p issue + 1) in
     andthen (lift_prompt (build_prompt p issue (validation_commands self))) (\<lambda>prompt.
     andthen (write_prompt xid prompt) (\<lambda>_.
     andthen (repo_call (untracked_paths (o_env self))) (\<lambda>untracked.
     andthen (emit_event self EXECUTION_SPAWNED issue (spawn_payload self prev prompt untracked) (Some xid)) (\<lambda>_.
     modify (\<lambda>s. s\<lparr>lp_budget := note_execution_started (lp_budget s)\<rparr>))))))"

definition spawn_or_escalate :: "'w orchestrator \<Rightarrow> string \<Rightarrow> execution_view option \<Rightarrow> ('w, unit) lprog" where
  "spawn_or_escalate self issue prev =
     andthen (gets rt_proj) (\<lambda>p.
     if max_attempts_per_issue self \<le> int (attempts p issue) then escalate self issue ''cap-hit'' ''needs-human''
     else andthen (lift (has_duplicate_feedback (reviewer_feedback_categories p issue))) (\<lambda>dup.
     if dup then escalate self issue ''duplicate-feedback'' ''needs-human''
     else andthen (gets lp_budget) (\<lambda>b.
     case budget_check b of
       Some stop \<Rightarrow> throw (BudgetExhausted stop)
     | None \<Rightarrow> spawn_execution self issue prev p)))"

subsection \<open>EXECUTING\<close>

text \<open>\<open>{**common, ...}\<close>: the facts of a finished process, with the outcome of a rejected one.\<close>

definition finished_payload ::
  "'w orchestrator \<Rightarrow> json \<Rightarrow> string \<Rightarrow> engine_result \<Rightarrow> string option \<Rightarrow> payload" where
  "finished_payload self base end r rejected =
     [(''duration_s'', duration_s r), (''end_commit'', JStr end), (''exit_status'', JInt (exit_status r)),
      (''num_turns'', case num_turns r of None \<Rightarrow> JNull | Some n \<Rightarrow> JInt n)] @
     (case rejected of None \<Rightarrow> [] | Some _ \<Rightarrow> [(''outcome'', JStr ''REJECTED'')]) @
     [(''pid'', JInt (o_pid self)), (''start_commit'', base)] @
     (case rejected of None \<Rightarrow> [] | Some c \<Rightarrow> [(''taxonomy_category'', JStr c)]) @
     [(''transcript_path'', JStr (transcript_path r)), (''usage'', JObj (usage r))]"

definition finish ::
  "'w orchestrator \<Rightarrow> string \<Rightarrow> execution_view \<Rightarrow> json \<Rightarrow> string \<Rightarrow> engine_result \<Rightarrow> string option \<Rightarrow> ('w, unit) lprog" where
  "finish self issue ex base end r rejected =
     emit_event self EXECUTION_FINISHED issue (finished_payload self base end r rejected) (Some (x_execution_id ex))"

definition reset_to :: "'w orchestrator \<Rightarrow> json \<Rightarrow> ('w, unit) lprog" where
  "reset_to self base = andthen (lift (str_arg base)) (\<lambda>b. repo_call (reset_hard (o_env self) b []))"

text \<open>The execution's own base, else the issue's; \<open>JNull\<close> is \<open>None\<close>.\<close>

definition base_of :: "projection \<Rightarrow> string \<Rightarrow> execution_view \<Rightarrow> json" where
  "base_of p issue ex = json_or (base_commit ex)
     (case map_of (issue_base_commit p) issue of None \<Rightarrow> JNull | Some b \<Rightarrow> b)"

text \<open>The prompt file, rebuilt when a crash came between the spawn event and here.\<close>

definition ensure_prompt :: "'w orchestrator \<Rightarrow> string \<Rightarrow> string \<Rightarrow> ('w, string) lprog" where
  "ensure_prompt self issue xid =
     andthen (gets lp_prompts) (\<lambda>files.
     case map_of files xid of Some text \<Rightarrow> ret text
     | None \<Rightarrow> andthen (gets rt_proj) (\<lambda>p.
         andthen (lift_prompt (build_prompt p issue (validation_commands self))) (\<lambda>prompt.
         andthen (write_prompt xid prompt) (\<lambda>_. ret prompt))))"

definition call_engine :: "'w orchestrator \<Rightarrow> string \<Rightarrow> string \<Rightarrow> ('w, engine_result) lprog" where
  "call_engine self xid prompt = (\<lambda>s. case run_engine self xid prompt s of
     (Inr r, s') \<Rightarrow> (Inr r, s')
   | (Inl (EngineContainmentError m), s') \<Rightarrow> (Inl (OrchestratorHalt ContainmentUnresolved), s')
   | (Inl (EngineError m), s') \<Rightarrow> (Inl (RepoFailed m), s')
   | (Inl EngineInterrupted, s') \<Rightarrow> (Inl Interrupted, s'))"

definition note_usage :: "payload \<Rightarrow> ('w, unit) lprog" where
  "note_usage u = (\<lambda>s. case record_usage u (lp_budget s) of
     Inl e \<Rightarrow> (Inl (UsageFailed e), s) | Inr b \<Rightarrow> (Inr (), s\<lparr>lp_budget := b\<rparr>))"

text \<open>Advisory routing: which row of the table the process facts select.\<close>

definition route_finish ::
  "'w orchestrator \<Rightarrow> string \<Rightarrow> execution_view \<Rightarrow> json \<Rightarrow> string \<Rightarrow> engine_result \<Rightarrow> ('w, unit) lprog" where
  "route_finish self issue ex base end r =
     (if timed_out r then
        andthen (finish self issue ex base end r (Some ''timeout'')) (\<lambda>_. reset_to self base)
      else if (case num_turns r of None \<Rightarrow> False | Some n \<Rightarrow> max_turns self \<le> n) then
        andthen (finish self issue ex base end r (Some ''needs-decomposition'')) (\<lambda>_.
        andthen (escalate self issue ''decompose'' ''needs-decomposition'') (\<lambda>_. reset_to self base))
      else if exit_status r \<noteq> 0 then
        andthen (finish self issue ex base end r (Some ''crashed'')) (\<lambda>_. reset_to self base)
      else finish self issue ex base end r None)"

text \<open>The work becomes an attempt ref before the fact that names it.\<close>

definition after_engine ::
  "'w orchestrator \<Rightarrow> string \<Rightarrow> execution_view \<Rightarrow> json \<Rightarrow> engine_result \<Rightarrow> ('w, unit) lprog" where
  "after_engine self issue ex base r =
     andthen (repo_call (snapshot_commit (o_env self) (''work '' @ x_execution_id ex) [])) (\<lambda>sha.
     andthen (residue_commit (o_env self) sha) (\<lambda>end.
     andthen (repo_call (set_attempt_ref (o_env self) issue (x_execution_id ex) end)) (\<lambda>_.
     andthen (note_usage (usage r)) (\<lambda>_.
     route_finish self issue ex base end r))))"

definition execute :: "'w orchestrator \<Rightarrow> string \<Rightarrow> execution_view \<Rightarrow> ('w, unit) lprog" where
  "execute self issue ex =
     andthen (gets (\<lambda>s. base_of (rt_proj s) issue ex)) (\<lambda>base.
     if base = JNull then throw (OrchestratorHalt NoBaseCommit)
     else
     andthen (lift (str_arg base)) (\<lambda>b.
     andthen (repo_call (checkout_branch (o_env self) (''issue/'' @ issue) (Some b))) (\<lambda>_.
     andthen (ensure_prompt self issue (x_execution_id ex)) (\<lambda>prompt.
     andthen (call_engine self (x_execution_id ex) prompt) (\<lambda>r.
     after_engine self issue ex base r)))))"

subsection \<open>VALIDATING\<close>

definition new_test_commands :: "'w orchestrator \<Rightarrow> execution_view \<Rightarrow> ('w, string list) lprog" where
  "new_test_commands self ex =
     (case (new_test_pattern self, new_test_command_prefix self) of
        (Some pat, Some prefix) \<Rightarrow>
          if pat = [] \<or> prefix = [] then ret []
          else andthen (lift (str_arg (base_commit ex))) (\<lambda>base.
               andthen (lift (str_arg (end_commit ex))) (\<lambda>end.
               andthen (repo_call (added_files (o_env self) base end)) (\<lambda>added.
               ret (map (\<lambda>f. prefix @ '' '' @ f) (filter (\<lambda>f. fnmatch (is_windows (o_os self)) f pat) added)))))
      | _ \<Rightarrow> ret [])"

definition validation_payload :: "'w orchestrator \<Rightarrow> execution_view \<Rightarrow> validation_result \<Rightarrow> payload" where
  "validation_payload self ex r =
     [(''flake_retries'', JInt (int (flake_retries r))),
      (''gate_results'', gate_results (repr_float (o_os self)) r)] @
     (if v_passed r then [] else [(''taxonomy_category'', jopt (v_taxonomy r))]) @
     [(''validated_commit'', end_commit ex)]"

definition validate_step :: "'w orchestrator \<Rightarrow> string \<Rightarrow> execution_view \<Rightarrow> ('w, unit) lprog" where
  "validate_step self issue ex =
     andthen (new_test_commands self ex) (\<lambda>extra.
     andthen (repo_call (validate (o_os self) (o_validator self) (workspace self) (end_commit ex)
                (x_execution_id ex) extra)) (\<lambda>r.
     if v_passed r then
       emit_event self VALIDATION_PASSED issue (validation_payload self ex r) (Some (x_execution_id ex))
     else andthen (emit_event self VALIDATION_FAILED issue (validation_payload self ex r) (Some (x_execution_id ex)))
            (\<lambda>_. reset_to self (base_commit ex))))"

subsection \<open>REVIEWING\<close>

fun review_taxonomy :: "json list \<Rightarrow> json" where
  "review_taxonomy [] = JStr ''review-correctness''"
| "review_taxonomy (fb # fbs) = (case feedback_category fb of c # _ \<Rightarrow> c | [] \<Rightarrow> review_taxonomy fbs)"

definition issue_text :: "projection \<Rightarrow> string \<Rightarrow> prompt_error + string" where
  "issue_text p issue = (let m = meta_of p issue in
     rbind (py_str (m_title m)) (\<lambda>t. rbind (py_str (m_body m)) (\<lambda>b. Inr (strip (t @ [LF, LF] @ b)))))"

definition rejected_payload :: "execution_view \<Rightarrow> verdict \<Rightarrow> payload" where
  "rejected_payload ex v =
     [(''feedback'', JArr (v_feedback v)), (''reviewed_commit'', end_commit ex),
      (''reviewer_provider'', JStr (provider v)), (''severity'', JStr (severity v)),
      (''taxonomy_category'', review_taxonomy (v_feedback v)), (''verdict'', JStr ''REJECT'')]"

text \<open>A review that cannot be parsed escalates the issue; one that cannot be had propagates.\<close>

definition call_reviewer :: "'w orchestrator \<Rightarrow> review_pack \<Rightarrow> ('w, string + verdict) lprog" where
  "call_reviewer self pack = (\<lambda>s. case review_call self pack (rt_world s) of
     (Inr v, w) \<Rightarrow> (Inr (Inr v), s\<lparr>rt_world := w\<rparr>)
   | (Inl (ReviewParseError n), w) \<Rightarrow> (Inr (Inl n), s\<lparr>rt_world := w\<rparr>)
   | (Inl (ReviewerUnavailableError m), w) \<Rightarrow> (Inl (ReviewerFailed m), s\<lparr>rt_world := w\<rparr>))"

definition review_step :: "'w orchestrator \<Rightarrow> string \<Rightarrow> execution_view \<Rightarrow> ('w, unit) lprog" where
  "review_step self issue ex =
     andthen (lift (str_arg (base_commit ex))) (\<lambda>base.
     andthen (lift (str_arg (end_commit ex))) (\<lambda>end.
     andthen (repo_call (diff (o_env self) base end)) (\<lambda>d.
     andthen (gets rt_proj) (\<lambda>p.
     andthen (lift_prompt (issue_text p issue)) (\<lambda>text.
     andthen (call_reviewer self \<lparr>pack_execution = x_execution_id ex, pack_commit = end_commit ex,
                pack_issue_text = text, pack_diff = d\<rparr>) (\<lambda>outcome.
     case outcome of
       Inl n \<Rightarrow> emit_event self ISSUE_ESCALATED issue
         [(''evidence_refs'', JArr [JStr (''review-parse-error:'' @ n)]),
          (''reason'', JStr ''reviewer-protocol-violation''), (''taxonomy_category'', JStr ''needs-human'')]
         (Some (x_execution_id ex))
     | Inr v \<Rightarrow>
         if approved v then emit_event self REVIEW_APPROVED issue
           [(''reviewed_commit'', end_commit ex), (''reviewer_provider'', JStr (provider v)),
            (''verdict'', JStr ''APPROVE'')] (Some (x_execution_id ex))
         else andthen (emit_event self REVIEW_REJECTED issue (rejected_payload ex v) (Some (x_execution_id ex)))
                (\<lambda>_. reset_to self (base_commit ex))))))))"

subsection \<open>ACCEPTED\<close>

definition pin_ok :: "execution_view \<Rightarrow> bool" where
  "pin_ok ex \<longleftrightarrow> truthy (end_commit ex) \<and> end_commit ex = validated_commit ex \<and>
     validated_commit ex = reviewed_commit ex"

definition pin_gate :: "'w orchestrator \<Rightarrow> execution_view \<Rightarrow> ('w, bool) lprog" where
  "pin_gate self ex =
     (if pin_ok ex then andthen (lift (str_arg (end_commit ex))) (\<lambda>c. repo_call (commit_exists (o_env self) c))
      else ret False)"

definition merge_step :: "'w orchestrator \<Rightarrow> string \<Rightarrow> execution_view \<Rightarrow> ('w, unit) lprog" where
  "merge_step self issue ex =
     (let created = (\<lambda>mc backfilled. emit_event self COMMIT_CREATED issue
            [(''backfilled'', JBool backfilled), (''merge_commit'', JStr mc), (''target_branch'', JStr (target self))]
            (Some (x_execution_id ex)))
      in andthen (lift (str_arg (json_or (intent_end_commit ex) (end_commit ex)))) (\<lambda>end.
         andthen (repo_call (is_ancestor (o_env self) end (target self))) (\<lambda>anc.
         if anc then
           andthen (repo_call (find_merge_commit (o_env self) (target self) end)) (\<lambda>mc.
           case mc of None \<Rightarrow> throw (OrchestratorHalt NoMergeForIntent) | Some c \<Rightarrow> created c True)
         else andthen (repo_call (merge_to (o_env self) (target self) end (''merge '' @ issue))) (\<lambda>mc.
           created mc False))))"

definition commit_sequence :: "'w orchestrator \<Rightarrow> string \<Rightarrow> execution_view \<Rightarrow> ('w, unit) lprog" where
  "commit_sequence self issue ex =
     (if \<not> commit_intended ex then
        andthen (pin_gate self ex) (\<lambda>ok.
        if \<not> ok then throw (OrchestratorHalt PinBroken)
        else emit_event self COMMIT_INTENT issue
          [(''end_commit'', end_commit ex), (''target_branch'', JStr (target self))] (Some (x_execution_id ex)))
      else if \<not> commit_created ex then merge_step self issue ex
      else andthen (emit_event self ISSUE_COMPLETED issue
             [(''evidence_refs'', JArr [end_commit ex]), (''reason'', JStr ''accepted'')] None) (\<lambda>_.
           andthen (repo_call (delete_attempt_ref (o_env self) issue (x_execution_id ex))) (\<lambda>_. ret ())))"

section \<open>One step, and the run\<close>

definition move_execution_on :: "'w orchestrator \<Rightarrow> string \<Rightarrow> execution_view \<Rightarrow> ('w, unit) lprog" where
  "move_execution_on self issue ex = (case x_state ex of
     REJECTED \<Rightarrow> spawn_or_escalate self issue (Some ex)
   | CRASHED \<Rightarrow> spawn_or_escalate self issue (Some ex)
   | EXECUTING \<Rightarrow> execute self issue ex
   | VALIDATING \<Rightarrow> validate_step self issue ex
   | REVIEWING \<Rightarrow> review_step self issue ex
   | ACCEPTED \<Rightarrow> commit_sequence self issue ex
   | SPAWNED \<Rightarrow> throw (OrchestratorHalt NoMove))"

definition step :: "'w orchestrator \<Rightarrow> string \<Rightarrow> ('w, unit) lprog" where
  "step self issue =
     andthen (gets rt_proj) (\<lambda>p.
     case map_of (issues p) issue of
       Some PENDING \<Rightarrow> activate self issue
     | Some ACTIVE \<Rightarrow> (case latest_execution p issue of
         None \<Rightarrow> spawn_or_escalate self issue None
       | Some ex \<Rightarrow> move_execution_on self issue ex)
     | _ \<Rightarrow> throw (OrchestratorHalt NotActionable))"

datatype stop_reason = QueueDrained | BudgetHardStop budget_stop

text \<open>\<open>run()\<close> until the queue drains, the budget stops it or an exception leaves it; \<open>None\<close> is a loop that does not end.\<close>

partial_function (option) run ::
  "'w orchestrator \<Rightarrow> 'w lp \<Rightarrow> ((rt_error + stop_reason) \<times> 'w lp) option" where
  "run self s = (case next_actionable self (rt_proj s) of
     Inl e \<Rightarrow> Some (Inl (ApplyFailed e), s)
   | Inr None \<Rightarrow> Some (Inr QueueDrained, s)
   | Inr (Some issue) \<Rightarrow> (case step self issue s of
       (Inr _, s') \<Rightarrow> run self s'
     | (Inl (BudgetExhausted b), s') \<Rightarrow> Some (Inr (BudgetHardStop b), s')
     | (Inl e, s') \<Rightarrow> Some (Inl e, s')))"

end
