(* ===== verification/LoopRank.thy ===== *)
theory LoopRank
  imports Loop RecoveryInv
begin

text \<open>
  Facts of a replayed projection the orchestrator's proofs share: the names of attempts, where the
  pinned commits come from, and the rank of an issue, which every step of the loop lowers.
\<close>

section \<open>The tables, complete\<close>

text \<open>
  The rows of docs/03 the orchestrator relies on: each exists, and the finish row takes the outcome of
  its payload. Which of its two states an escalation leads to is left open.
\<close>

definition complete_tables :: "tables \<Rightarrow> bool" where
  "complete_tables T \<longleftrightarrow> doc03_tables T \<and>
     ISSUE_TRANSITIONS T (PENDING, ISSUE_ACTIVATED) = Some (\<lambda>_. Inr ACTIVE) \<and>
     ISSUE_TRANSITIONS T (ACTIVE, ISSUE_COMPLETED) = Some (\<lambda>_. Inr DONE) \<and>
     (\<exists>fn. ISSUE_TRANSITIONS T (ACTIVE, ISSUE_ESCALATED) = Some fn \<and>
        (\<forall>pl. jget pl ''taxonomy_category'' \<in> {JStr ''needs-human'', JStr ''needs-decomposition''} \<longrightarrow>
           (\<exists>st. fn pl = Inr st))) \<and>
     (\<exists>fn. EXECUTION_TRANSITIONS T (EXECUTING, EXECUTION_FINISHED) = Some fn \<and>
        (\<forall>pl. jget pl ''outcome'' = JStr ''REJECTED'' \<longrightarrow> fn pl = Inr REJECTED) \<and>
        (\<forall>pl. jget pl ''outcome'' = JNull \<longrightarrow> fn pl = Inr VALIDATING)) \<and>
     EXECUTION_TRANSITIONS T (VALIDATING, VALIDATION_PASSED) = Some (\<lambda>_. Inr REVIEWING) \<and>
     EXECUTION_TRANSITIONS T (VALIDATING, VALIDATION_FAILED) = Some (\<lambda>_. Inr REJECTED) \<and>
     EXECUTION_TRANSITIONS T (REVIEWING, REVIEW_APPROVED) = Some (\<lambda>_. Inr ACCEPTED) \<and>
     EXECUTION_TRANSITIONS T (REVIEWING, REVIEW_REJECTED) = Some (\<lambda>_. Inr REJECTED)"

lemma doc03_complete: "complete_tables doc03"
  using doc03_doc03_tables by (simp add: complete_tables_def doc03_def doc03_issue_def doc03_execution_def)

lemma complete_doc03: "complete_tables T \<Longrightarrow> doc03_tables T"
  by (simp add: complete_tables_def)

section \<open>Facts of every replay\<close>

definition issues_named :: "projection \<Rightarrow> bool" where
  "issues_named p \<longleftrightarrow> map_of (issues p) [] = None"

lemma issues_named_step: "proj_step T p e p' \<Longrightarrow> issues_named p \<Longrightarrow> issues_named p'"
  by (induction rule: proj_step.induct) (auto simp: issues_named_def)

lemma issues_named_replay:
  assumes "doc03_tables T" and "rebuild T es empty_projection = Inr p"
  shows "issues_named p"
  using assms
proof (induction rule: replay_induct)
  case (snoc es e p p')
  then show ?case using issues_named_step [OF snoc(3)] by (simp add: issues_named_def)
qed (simp add: issues_named_def empty_projection_def)

text \<open>The commit an execution ended at, like every value copied from a payload, is in stored form.\<close>

definition ends_stored :: "projection \<Rightarrow> bool" where
  "ends_stored p \<longleftrightarrow> (\<forall>x v. map_of (executions p) x = Some v \<longrightarrow> stored (end_commit v))"

lemma annotate_end:
  "annotate ev v = Inr v' \<Longrightarrow> end_commit v' =
     (if etype ev = EXECUTION_FINISHED then jget (payload ev) ''end_commit'' else end_commit v)"
  by (auto simp: annotate_def Let_def rbind_eq_Inr split: if_splits)

lemma ends_stored_step:
  "proj_step T p e p' \<Longrightarrow> stored (JObj (payload e)) \<Longrightarrow> ends_stored p \<Longrightarrow> ends_stored p'"
proof (induction rule: proj_step.induct)
  case (move_execution xid v fn st v')
  have "stored (end_commit v')"
    using annotate_end [OF move_execution.hyps(5)] move_execution.prems move_execution.hyps(2)
    by (auto simp: stored_field ends_stored_def)
  then show ?case using move_execution.prems(2) by (simp add: ends_stored_def)
qed (auto simp: ends_stored_def new_execution_view_def)

lemma ends_stored_replay:
  assumes "doc03_tables T" and "rebuild T es empty_projection = Inr p" and "storable es"
  shows "ends_stored p"
  using assms
proof (induction rule: stored_replay_induct)
  case (snoc es e p p')
  then show ?case using ends_stored_step [OF snoc(4)] by (simp add: ends_stored_def)
qed (simp add: ends_stored_def empty_projection_def)

section \<open>Attempt names\<close>

text \<open>The executions of an issue are its attempts, in order.\<close>

definition attempts_named :: "projection \<Rightarrow> bool" where
  "attempts_named p \<longleftrightarrow> (\<forall>i k. k < attempts p i \<longrightarrow> issue_execs p i ! k = attempt_id i (k + 1))"

lemma attempt_id_split:
  "takeWhile is_digit (rev (attempt_id i n)) = rev (show_nat n)"
  "dropWhile is_digit (rev (attempt_id i n)) = ''e-'' @ rev i"
proof -
  have "rev (attempt_id i n) = rev (show_nat n) @ ''e-'' @ rev i" by (simp add: attempt_id_def)
  moreover have "\<forall>c \<in> set (rev (show_nat n)). is_digit c" using show_nat_digits by auto
  moreover have "\<not> is_digit CHR ''e''" by (simp add: is_digit_def ord_of_def)
  ultimately show "takeWhile is_digit (rev (attempt_id i n)) = rev (show_nat n)"
    "dropWhile is_digit (rev (attempt_id i n)) = ''e-'' @ rev i"
    by (simp_all add: takeWhile_append dropWhile_append)
qed

lemma attempt_id_inj: "attempt_id i m = attempt_id j n \<longleftrightarrow> i = j \<and> m = n"
proof
  assume e: "attempt_id i m = attempt_id j n"
  then have "rev (show_nat m) = rev (show_nat n)" "''e-'' @ rev i = ''e-'' @ rev j"
    using attempt_id_split [of i m] attempt_id_split [of j n] by simp_all
  then show "i = j \<and> m = n" by (simp add: show_nat_inj)
qed simp

lemma attempt_id_fresh:
  assumes "attempts_named p" and "linked p"
  shows "map_of (executions p) (attempt_id i (attempts p i + 1)) = None"
proof (rule ccontr)
  let ?x = "attempt_id i (attempts p i + 1)"
  assume "map_of (executions p) ?x \<noteq> None"
  then obtain v where "map_of (executions p) ?x = Some v" by auto
  then have "?x \<in> set (issue_execs p (x_issue_id v))" using assms(2) by (auto simp: linked_def)
  then obtain k where "k < attempts p (x_issue_id v)" "?x = attempt_id (x_issue_id v) (k + 1)"
    using assms(1) by (auto simp: in_set_conv_nth attempts_named_def attempts_def)
  then show False by (auto simp: attempt_id_inj)
qed

lemma attempts_named_step:
  "proj_step T p e p' \<Longrightarrow> etype e \<noteq> EXECUTION_SPAWNED \<Longrightarrow> attempts_named p \<Longrightarrow> attempts_named p'"
  by (induction rule: proj_step.induct) (simp_all add: attempts_named_def attempts_def)

section \<open>Where the pinned commits come from\<close>

definition recorded :: "event list \<Rightarrow> event_type \<Rightarrow> string \<Rightarrow> string \<Rightarrow> json \<Rightarrow> bool" where
  "recorded es t x field c \<longleftrightarrow>
     (\<exists>e \<in> set es. etype e = t \<and> execution_id e = JStr x \<and> jget (payload e) field = c)"

definition pins_recorded :: "event list \<Rightarrow> projection \<Rightarrow> bool" where
  "pins_recorded es p \<longleftrightarrow> (\<forall>x v. map_of (executions p) x = Some v \<longrightarrow>
     (truthy (end_commit v) \<longrightarrow> recorded es EXECUTION_FINISHED x ''end_commit'' (end_commit v)) \<and>
     (truthy (validated_commit v) \<longrightarrow> recorded es VALIDATION_PASSED x ''validated_commit'' (validated_commit v)) \<and>
     (truthy (reviewed_commit v) \<longrightarrow> recorded es REVIEW_APPROVED x ''reviewed_commit'' (reviewed_commit v)))"

lemma recorded_snoc:
  "recorded (es @ [e]) t x f c \<longleftrightarrow>
     recorded es t x f c \<or> etype e = t \<and> execution_id e = JStr x \<and> jget (payload e) f = c"
  by (auto simp: recorded_def)

lemma annotate_pins:
  "annotate ev v = Inr v' \<Longrightarrow>
     validated_commit v' = (if etype ev = VALIDATION_PASSED then jget (payload ev) ''validated_commit'' else validated_commit v) \<and>
     reviewed_commit v' = (if etype ev = REVIEW_APPROVED then jget (payload ev) ''reviewed_commit'' else reviewed_commit v)"
  by (auto simp: annotate_def Let_def rbind_eq_Inr split: if_splits)

lemma pins_recorded_step:
  "proj_step T p e p' \<Longrightarrow> pins_recorded es p \<Longrightarrow> pins_recorded (es @ [e]) p'"
proof (induction rule: proj_step.induct)
  case (move_execution xid v fn st v')
  then show ?case
    using annotate_end [OF move_execution.hyps(5)] annotate_pins [OF move_execution.hyps(5)]
    by (auto simp: pins_recorded_def recorded_snoc)
qed (auto simp: pins_recorded_def recorded_snoc new_execution_view_def truthy_def)

lemma pins_recorded_replay:
  assumes "doc03_tables T" and "rebuild T es empty_projection = Inr p"
  shows "pins_recorded es p"
  using assms
proof (induction rule: replay_induct)
  case (snoc es e p p')
  then show ?case using pins_recorded_step [OF snoc(3), of es] by (simp add: pins_recorded_def)
qed (simp add: pins_recorded_def empty_projection_def)

text \<open>A property of every event and the events before it.\<close>

definition each :: "(event list \<Rightarrow> event \<Rightarrow> bool) \<Rightarrow> event list \<Rightarrow> bool" where
  "each P es \<longleftrightarrow> (\<forall>pre e post. es = pre @ e # post \<longrightarrow> P pre e)"

lemma each_Nil [simp]: "each P []"
  by (simp add: each_def)

lemma each_snoc: "each P (es @ [e]) \<longleftrightarrow> each P es \<and> P es e"
proof
  assume l: "each P (es @ [e])"
  have "P pre e'" if "es = pre @ e' # post" for pre e' post
  proof -
    have "es @ [e] = pre @ e' # (post @ [e])" using that by simp
    then show ?thesis using l unfolding each_def by blast
  qed
  moreover have "P es e" using l unfolding each_def by blast
  ultimately show "each P es \<and> P es e" unfolding each_def by blast
next
  assume r: "each P es \<and> P es e"
  have "P pre e'" if e: "es @ [e] = pre @ e' # post" for pre e' post
  proof (cases post rule: rev_cases)
    case Nil
    then show ?thesis using e r by simp
  next
    case (snoc post' d)
    then have "es = pre @ e' # post'" using e by simp
    then show ?thesis using r unfolding each_def by blast
  qed
  then show "each P (es @ [e])" unfolding each_def by blast
qed

text \<open>Every intended commit is the tree its execution ended at, was validated at and was approved at.\<close>

definition pinned_by :: "event list \<Rightarrow> event \<Rightarrow> bool" where
  "pinned_by pre e \<longleftrightarrow> etype e = COMMIT_INTENT \<longrightarrow> (\<exists>x c. execution_id e = JStr x \<and>
     jget (payload e) ''end_commit'' = c \<and> truthy c \<and>
     recorded pre EXECUTION_FINISHED x ''end_commit'' c \<and>
     recorded pre VALIDATION_PASSED x ''validated_commit'' c \<and>
     recorded pre REVIEW_APPROVED x ''reviewed_commit'' c)"

abbreviation commits_pinned :: "event list \<Rightarrow> bool" where
  "commits_pinned \<equiv> each pinned_by"

lemma pinned_by_other: "etype e \<noteq> COMMIT_INTENT \<Longrightarrow> pinned_by pre e"
  by (simp add: pinned_by_def)

lemma pins_pinned:
  assumes "pins_recorded es p" and "map_of (executions p) x = Some v" and "pin_ok v"
    and "execution_id e = JStr x" and "jget (payload e) ''end_commit'' = end_commit v"
  shows "pinned_by es e"
proof -
  have eq: "validated_commit v = end_commit v" "reviewed_commit v = end_commit v" and t: "truthy (end_commit v)"
    using assms(3) by (auto simp: pin_ok_def)
  have "recorded es EXECUTION_FINISHED x ''end_commit'' (end_commit v)"
    "recorded es VALIDATION_PASSED x ''validated_commit'' (end_commit v)"
    "recorded es REVIEW_APPROVED x ''reviewed_commit'' (end_commit v)"
    using assms(1,2) t eq unfolding pins_recorded_def by metis+
  then show ?thesis using assms(4,5) t by (auto simp: pinned_by_def)
qed

lemma commits_pinned_append:
  "\<forall>e \<in> set new. etype e \<noteq> COMMIT_INTENT \<Longrightarrow> commits_pinned es \<Longrightarrow> commits_pinned (es @ new)"
proof (induction new rule: rev_induct)
  case (snoc e new)
  then show ?case using each_snoc [of pinned_by "es @ new" e] pinned_by_other by simp
qed simp

section \<open>How far an issue is from its end\<close>

text \<open>
  The rank of an issue bounds the steps it has left: a pending issue is activated, an active one has
  its remaining attempts, each at most eight steps, and the state of its latest execution.
\<close>

definition view_rank :: "execution_view \<Rightarrow> nat" where
  "view_rank v = (case x_state v of
     EXECUTING \<Rightarrow> 7 | VALIDATING \<Rightarrow> 6 | REVIEWING \<Rightarrow> 5
   | ACCEPTED \<Rightarrow> if \<not> commit_intended v then 4 else if \<not> commit_created v then 3 else 2
   | _ \<Rightarrow> 1)"

definition issue_rank :: "nat \<Rightarrow> projection \<Rightarrow> string \<Rightarrow> nat" where
  "issue_rank cap p i = (case map_of (issues p) i of
     Some PENDING \<Rightarrow> 8 * cap + 2
   | Some ACTIVE \<Rightarrow> 8 * (cap - attempts p i) +
       (case latest_execution p i of None \<Rightarrow> 1 | Some v \<Rightarrow> view_rank v)
   | _ \<Rightarrow> 0)"

definition rank :: "nat \<Rightarrow> projection \<Rightarrow> nat" where
  "rank cap p = (\<Sum>i \<leftarrow> keys (issues p). issue_rank cap p i)"

lemma view_rank_pos: "0 < view_rank v"
  by (simp add: view_rank_def split: execution_state.splits)

lemma issue_rank_cong:
  "map_of (issues p') j = map_of (issues p) j \<Longrightarrow> attempts p' j = attempts p j \<Longrightarrow>
   latest_execution p' j = latest_execution p j \<Longrightarrow> issue_rank cap p' j = issue_rank cap p j"
  by (simp add: issue_rank_def split: option.split issue_state.split)

lemma issue_rank_at:
  "map_of (issues p) i = Some PENDING \<Longrightarrow> issue_rank cap p i = 8 * cap + 2"
  "map_of (issues p) i = Some ACTIVE \<Longrightarrow> latest_execution p i = None \<Longrightarrow>
     issue_rank cap p i = 8 * (cap - attempts p i) + 1"
  "map_of (issues p) i = Some ACTIVE \<Longrightarrow> latest_execution p i = Some v \<Longrightarrow>
     issue_rank cap p i = 8 * (cap - attempts p i) + view_rank v"
  "map_of (issues p) i = Some st \<Longrightarrow> st \<notin> {PENDING, ACTIVE} \<Longrightarrow> issue_rank cap p i = 0"
  by (cases st; simp add: issue_rank_def)+

lemma active_rank_pos: "map_of (issues p) i = Some ACTIVE \<Longrightarrow> 8 * (cap - attempts p i) < issue_rank cap p i"
  by (cases "latest_execution p i") (simp_all add: issue_rank_at view_rank_pos)

lemma rank_less:
  assumes k: "keys (issues p') = keys (issues p)" and d: "distinct (keys (issues p))"
    and i: "map_of (issues p) i \<noteq> None"
    and o: "\<And>j. j \<noteq> i \<Longrightarrow> issue_rank cap p' j = issue_rank cap p j"
    and l: "issue_rank cap p' i < issue_rank cap p i"
  shows "rank cap p' < rank cap p"
proof -
  have "i \<in> set (keys (issues p))" using i by (auto simp: map_of_eq_None_iff)
  then have "(\<Sum>j \<in> set (keys (issues p)). issue_rank cap p' j) < (\<Sum>j \<in> set (keys (issues p)). issue_rank cap p j)"
    using l by (intro sum_strict_mono_ex1) (auto, metis o order.refl less_imp_le)
  then show ?thesis using k d unfolding rank_def by (simp only: sum_list_distinct_conv_sum_set)
qed

text \<open>The changes an event of the orchestrator makes, as far as the rank is concerned.\<close>

definition issue_moved :: "projection \<Rightarrow> string \<Rightarrow> issue_state \<Rightarrow> projection \<Rightarrow> bool" where
  "issue_moved p i st p' \<longleftrightarrow> issues p' = AList.update i st (issues p) \<and> executions p' = executions p \<and>
     issue_execs p' = issue_execs p"

definition exec_moved :: "projection \<Rightarrow> string \<Rightarrow> execution_view \<Rightarrow> projection \<Rightarrow> bool" where
  "exec_moved p x v p' \<longleftrightarrow> issues p' = issues p \<and> executions p' = AList.update x v (executions p) \<and>
     issue_execs p' = issue_execs p"

definition exec_added :: "projection \<Rightarrow> string \<Rightarrow> string \<Rightarrow> execution_view \<Rightarrow> projection \<Rightarrow> bool" where
  "exec_added p i x v p' \<longleftrightarrow> issues p' = issues p \<and> executions p' = AList.update x v (executions p) \<and>
     issue_execs p' = (issue_execs p)(i := issue_execs p i @ [x])"

lemma latest_frame:
  "executions p' = executions p \<Longrightarrow> issue_execs p' = issue_execs p \<Longrightarrow> latest_execution p' = latest_execution p"
  by (simp add: latest_execution_def Let_def fun_eq_iff)

lemma latest_SomeD:
  "latest_execution p i = Some v \<Longrightarrow> issue_execs p i \<noteq> [] \<and> map_of (executions p) (last (issue_execs p i)) = Some v"
  by (auto simp: latest_execution_def Let_def split: if_splits)

lemma rank_issue_moved:
  assumes m: "issue_moved p i st p'" and d: "keys_ok p" and c: "map_of (issues p) i = Some cur"
    and l: "cur = ACTIVE \<and> st \<notin> {PENDING, ACTIVE} \<or> cur = PENDING \<and> st = ACTIVE \<and> issue_execs p i = []"
  shows "rank cap p' < rank cap p"
proof (rule rank_less [where i = i])
  show "keys (issues p') = keys (issues p)" using m c by (simp add: issue_moved_def)
  show "distinct (keys (issues p))" using d by (simp add: keys_ok_def)
  have "latest_execution p' = latest_execution p"
    using m by (intro latest_frame) (simp_all add: issue_moved_def)
  moreover have "attempts p' = attempts p" using m by (simp add: issue_moved_def attempts_def [abs_def])
  ultimately have lt: "latest_execution p' = latest_execution p" "attempts p' = attempts p" by simp_all
  show "issue_rank cap p' j = issue_rank cap p j" if "j \<noteq> i" for j
    by (rule issue_rank_cong) (use m that lt in \<open>simp_all add: issue_moved_def\<close>)
  have "map_of (issues p') i = Some st" using m by (simp add: issue_moved_def)
  show "issue_rank cap p' i < issue_rank cap p i"
    using l
  proof
    assume "cur = ACTIVE \<and> st \<notin> {PENDING, ACTIVE}"
    then show ?thesis using active_rank_pos [of p i cap] c \<open>map_of (issues p') i = Some st\<close>
      by (simp add: issue_rank_at(4))
  next
    assume n: "cur = PENDING \<and> st = ACTIVE \<and> issue_execs p i = []"
    then have "latest_execution p' i = None" using lt by (simp add: latest_execution_def)
    then show ?thesis using n c \<open>map_of (issues p') i = Some st\<close> by (simp add: issue_rank_at)
  qed
qed (use c in simp)

lemma rank_exec_moved:
  assumes m: "exec_moved p x v' p'" and d: "keys_ok p" and lk: "linked p" and c: "map_of (issues p) i = Some ACTIVE"
    and x: "latest_execution p i = Some v" "map_of (executions p) x = Some v" "x_issue_id v = i"
      "x = last (issue_execs p i)"
    and l: "view_rank v' < view_rank v"
  shows "rank cap p' < rank cap p"
proof (rule rank_less [where i = i])
  show "keys (issues p') = keys (issues p)" using m c by (simp add: exec_moved_def)
  show "distinct (keys (issues p))" using d by (simp add: keys_ok_def)
  have a: "attempts p' = attempts p" using m by (simp add: exec_moved_def attempts_def [abs_def])
  show "issue_rank cap p' j = issue_rank cap p j" if j: "j \<noteq> i" for j
  proof -
    have "issue_execs p j = [] \<or> last (issue_execs p j) \<noteq> x"
    proof (rule disjCI)
      assume "\<not> last (issue_execs p j) \<noteq> x"
      show "issue_execs p j = []"
      proof (rule ccontr)
        assume "issue_execs p j \<noteq> []"
        then have "x \<in> set (issue_execs p j)" using \<open>\<not> last (issue_execs p j) \<noteq> x\<close> last_in_set by metis
        then have "x_issue_id v = j" using lk x(2) unfolding linked_def by (metis option.inject)
        with x(3) j show False by simp
      qed
    qed
    then have "latest_execution p' j = latest_execution p j"
      using m by (auto simp: latest_execution_def Let_def exec_moved_def)
    then show ?thesis using m a by (intro issue_rank_cong) (simp_all add: exec_moved_def)
  qed
  have "latest_execution p' i = Some v'"
    using m x(4) latest_SomeD [OF x(1)] by (simp add: latest_execution_def Let_def exec_moved_def)
  then show "issue_rank cap p' i < issue_rank cap p i"
    using m c a x(1) l by (simp add: issue_rank_at exec_moved_def)
qed (use c in simp)

lemma rank_exec_added:
  assumes m: "exec_added p i x v p'" and d: "keys_ok p" and lk: "linked p" and c: "map_of (issues p) i = Some ACTIVE"
    and x: "map_of (executions p) x = None" and v: "x_state v = EXECUTING" and a: "attempts p i < cap"
  shows "rank cap p' < rank cap p"
proof (rule rank_less [where i = i])
  show "keys (issues p') = keys (issues p)" using m c by (simp add: exec_added_def)
  show "distinct (keys (issues p))" using d by (simp add: keys_ok_def)
  show "issue_rank cap p' j = issue_rank cap p j" if j: "j \<noteq> i" for j
  proof -
    have "x \<notin> set (issue_execs p j)" using lk x unfolding linked_def by (metis option.distinct(1))
    then have "issue_execs p j = [] \<or> last (issue_execs p j) \<noteq> x" using last_in_set by metis
    then have "latest_execution p' j = latest_execution p j"
      using m j by (auto simp: latest_execution_def Let_def exec_added_def)
    then show ?thesis using m j by (intro issue_rank_cong) (simp_all add: exec_added_def attempts_def)
  qed
  have "latest_execution p' i = Some v" using m by (simp add: latest_execution_def Let_def exec_added_def)
  moreover have "attempts p' i = attempts p i + 1" using m by (simp add: attempts_def exec_added_def)
  ultimately have "issue_rank cap p' i = 8 * (cap - (attempts p i + 1)) + 7"
    using m c v by (simp add: issue_rank_at exec_added_def view_rank_def)
  moreover have "8 * (cap - attempts p i) < issue_rank cap p i" using c by (rule active_rank_pos)
  ultimately show "issue_rank cap p' i < issue_rank cap p i" using a by simp
qed (use c in simp)

end
