(* ===== verification/Contained.thy ===== *)
theory Contained
  imports LoopRank ContainmentInv
begin

text \<open>
  No execution is ended behind an open boundary: the condition under which a log can always be started
  from again, as a property of the log and what it asks of the engine. Start-up can release a boundary only while
  its execution is open; an execution leaves that state by \<open>ExecutionFinished\<close> or \<open>ExecutionCrashed\<close> alone.
\<close>

section \<open>Boundaries and their executions\<close>

text \<open>Every boundary of the workspace left open belongs to an execution that is still open.\<close>

definition boundaries_live :: "projection \<Rightarrow> string \<Rightarrow> bool" where
  "boundaries_live p key \<longleftrightarrow> (\<forall>v \<in> set (unreleased_containments p (Some key)).
     \<exists>ex. map_of (executions p) (c_execution_id v) = Some ex \<and> x_state ex = EXECUTING)"

definition no_boundary :: "projection \<Rightarrow> string \<Rightarrow> json \<Rightarrow> bool" where
  "no_boundary p key x \<longleftrightarrow> (\<forall>v \<in> set (unreleased_containments p (Some key)). JStr (c_execution_id v) \<noteq> x)"

lemma no_boundary_unblocked: "\<not> is_workspace_blocked p key \<Longrightarrow> no_boundary p key x"
  by (simp add: no_boundary_def is_workspace_blocked_def)

lemma live_iff:
  assumes "proj_ok T p"
  shows "boundaries_live p key \<longleftrightarrow> (\<forall>k v. map_of (containments p) k = Some v \<longrightarrow> c_state v \<noteq> RELEASED \<longrightarrow>
    workspace_key v = key \<longrightarrow> (\<exists>ex. map_of (executions p) (fst k) = Some ex \<and> x_state ex = EXECUTING))"
  (is "_ \<longleftrightarrow> ?R")
proof
  assume l: "boundaries_live p key"
  show ?R
  proof (intro allI impI)
    fix k v assume v: "map_of (containments p) k = Some v" "c_state v \<noteq> RELEASED" "workspace_key v = key"
    have k: "view_key v = k" by (rule view_key_at [OF assms v(1)])
    with v have "v \<in> set (unreleased_containments p (Some key))" by (simp add: unreleased_iff_at [OF assms])
    with l k show "\<exists>ex. map_of (executions p) (fst k) = Some ex \<and> x_state ex = EXECUTING"
      by (auto simp: boundaries_live_def view_key_def)
  qed
next
  assume ?R
  then show "boundaries_live p key"
    unfolding boundaries_live_def using unreleased_iff_at [OF assms] by (fastforce simp: view_key_def)
qed

text \<open>The facts that end an execution's open state.\<close>

definition ending :: "event \<Rightarrow> bool" where
  "ending e \<longleftrightarrow> etype e \<in> {EXECUTION_FINISHED, EXECUTION_CRASHED}"

lemma leaves_executing: "doc03_tables T \<Longrightarrow> EXECUTION_TRANSITIONS T (EXECUTING, t) = Some fn \<Longrightarrow> fn pl = Inr st \<Longrightarrow>
  t \<in> {EXECUTION_FINISHED, EXECUTION_CRASHED}"
  unfolding doc03_tables_def by (blast dest: execution_row_def [THEN iffD1])

lemma live_step:
  assumes "proj_step T p e p'" and T: "doc03_tables T" and p: "proj_ok T p" and p': "proj_ok T p'"
    and l: "boundaries_live p key" and c: "ending e \<Longrightarrow> no_boundary p key (execution_id e)"
  shows "boundaries_live p' key"
  using assms(1) p' c
proof (induction rule: proj_step.induct)
  case (move_execution x v fn st v')
  show ?case unfolding live_iff [OF move_execution.prems(1)]
  proof (intro allI impI)
    fix k w assume "map_of (containments (p\<lparr>executions := AList.update x v' (executions p)\<rparr>)) k = Some w"
      and w: "c_state w \<noteq> RELEASED" "workspace_key w = key"
    then have m: "map_of (containments p) k = Some w" by simp
    then obtain ex where ex: "map_of (executions p) (fst k) = Some ex" "x_state ex = EXECUTING"
      using l w unfolding live_iff [OF p] by blast
    have "fst k \<noteq> x"
    proof
      assume k: "fst k = x"
      then have "x_state v = EXECUTING" using ex move_execution.hyps(2) by simp
      then have "ending e"
        using leaves_executing [OF T] move_execution.hyps(3,4) unfolding ending_def by metis
      then have n: "no_boundary p key (JStr x)" using move_execution.prems(2) move_execution.hyps(1) by simp
      have "view_key w = k" by (rule view_key_at [OF p m])
      with m w have "w \<in> set (unreleased_containments p (Some key))" "c_execution_id w = x"
        using k by (auto simp: unreleased_iff_at [OF p] view_key_def)
      with n show False by (auto simp: no_boundary_def)
    qed
    with ex show "\<exists>ex. map_of (executions (p\<lparr>executions := AList.update x v' (executions p)\<rparr>)) (fst k) = Some ex \<and>
        x_state ex = EXECUTING" by (simp add: lookup_update)
  qed
next
  case (spawn x i base pre)
  then show ?case using l unfolding live_iff [OF spawn.prems(1)] live_iff [OF p] by (fastforce simp: lookup_update)
next
  case (intend x v ec tb)
  then show ?case using l unfolding live_iff [OF intend.prems(1)] live_iff [OF p] by (fastforce simp: lookup_update)
next
  case (commit x v)
  then show ?case using l unfolding live_iff [OF commit.prems(1)] live_iff [OF p] by (fastforce simp: lookup_update)
next
  case (prepare x ex g wk)
  then show ?case using l unfolding live_iff [OF prepare.prems(1)] live_iff [OF p] by (auto simp: lookup_update)
next
  case (move_containment x ex g v v')
  then show ?case using l unfolding live_iff [OF move_containment.prems(1)] live_iff [OF p] by (auto simp: lookup_update)
qed (use l in \<open>auto simp: boundaries_live_def unreleased_containments_def\<close>)

section \<open>Closed logs\<close>

text \<open>
  With job containment, no execution ends behind an open boundary of the workspace; without it, there are no
  boundaries at all.
\<close>

definition closed_by :: "tables \<Rightarrow> bool \<Rightarrow> string \<Rightarrow> event list \<Rightarrow> event \<Rightarrow> bool" where
  "closed_by T jobs key pre e \<longleftrightarrow>
     (if jobs then ending e \<longrightarrow> (\<forall>p. rebuild T pre empty_projection = Inr p \<longrightarrow> no_boundary p key (execution_id e))
      else etype e \<noteq> EXECUTION_CONTAINMENT_PREPARED)"

abbreviation closed_log :: "tables \<Rightarrow> bool \<Rightarrow> string \<Rightarrow> event list \<Rightarrow> bool" where
  "closed_log T jobs key \<equiv> each (closed_by T jobs key)"

text \<open>Events that neither end an execution nor prepare a boundary.\<close>

definition neutral :: "event \<Rightarrow> bool" where
  "neutral e \<longleftrightarrow> \<not> ending e \<and> etype e \<noteq> EXECUTION_CONTAINMENT_PREPARED"

lemma closed_by_neutral: "neutral e \<Longrightarrow> closed_by T jobs key pre e"
  by (simp add: neutral_def closed_by_def)

lemma closed_log_append: "closed_log T jobs key es \<Longrightarrow> (\<And>e pre. e \<in> set new \<Longrightarrow> closed_by T jobs key pre e) \<Longrightarrow>
  closed_log T jobs key (es @ new)"
proof (induction new rule: rev_induct)
  case (snoc e new)
  then show ?case using each_snoc [of "closed_by T jobs key" "es @ new" e] by simp
qed simp

lemma no_prepared_no_boundary:
  assumes "doc03_tables T" and "rebuild T es empty_projection = Inr p"
  shows "(\<forall>e \<in> set es. etype e \<noteq> EXECUTION_CONTAINMENT_PREPARED) \<longrightarrow> containments p = []"
  using assms
proof (induction rule: replay_induct)
  case (snoc es e p p')
  from snoc(3) have "containments (note_event p e) = [] \<longrightarrow> etype e \<noteq> EXECUTION_CONTAINMENT_PREPARED \<longrightarrow> containments p' = []"
    by (rule proj_step.cases) auto
  with snoc(4) show ?case by simp
qed (simp add: empty_projection_def)

lemma closed_log_live:
  assumes T: "doc03_tables T" and r: "rebuild T es empty_projection = Inr p" and c: "closed_log T jobs key es"
  shows "boundaries_live p key"
proof (cases jobs)
  case True
  have "closed_log T True key es \<longrightarrow> boundaries_live p key"
    using r
  proof (induction es arbitrary: p rule: rev_induct)
    case (snoc e es p')
    then obtain p where p: "rebuild T es empty_projection = Inr p" "apply_event T e p = Inr p'"
      by (auto simp: rebuild_snoc rbind_eq_Inr)
    have st: "proj_step T (note_event p e) e p'" using p(2) by (simp add: apply_event_def handle_step)
    have ok: "proj_ok T (note_event p e)" "proj_ok T p'"
      using proj_ok_rebuild [OF T proj_ok_empty p(1)] proj_ok_apply [OF T _ p(2)] note_event_ok by blast+
    show ?case
    proof
      assume "closed_log T True key (es @ [e])"
      then have "closed_log T True key es" and e: "closed_by T True key es e" by (simp_all add: each_snoc)
      then have l: "boundaries_live (note_event p e) key"
        using snoc.IH [OF p(1)] by (simp add: boundaries_live_def unreleased_containments_def)
      have "ending e \<Longrightarrow> no_boundary (note_event p e) key (execution_id e)"
        using e p(1) by (simp add: closed_by_def no_boundary_def unreleased_containments_def)
      with live_step [OF st T ok l] show "boundaries_live p' key" .
    qed
  qed (simp add: boundaries_live_def unreleased_containments_def empty_projection_def)
  with c True show ?thesis by simp
next
  case False
  have "\<forall>e \<in> set es. etype e \<noteq> EXECUTION_CONTAINMENT_PREPARED"
    using c False by (fastforce simp: each_def closed_by_def in_set_conv_decomp)
  with no_prepared_no_boundary [OF T r] show ?thesis by (simp add: boundaries_live_def unreleased_containments_def)
qed

section \<open>The contract of the engine\<close>

text \<open>
  What a log owes to the engine. With job containment, a call that returns a result has no boundary of its
  execution left open (\<open>_run_windows_contained\<close>: every ordinary result has a durable \<open>Released\<close> fact); a call that cannot
  prove that raises. Without it (\<open>_run_posix\<close>), the engine writes nothing to the log.
\<close>

definition engine_contained :: "'w orchestrator \<Rightarrow> bool \<Rightarrow> string \<Rightarrow> bool" where
  "engine_contained self jobs key \<longleftrightarrow> (\<forall>x prompt s r s'. run_engine self x prompt s = (r, s') \<longrightarrow> in_sync (o_tables self) s \<longrightarrow>
     (if jobs then \<forall>er. r = Inr er \<longrightarrow> no_boundary (rt_proj s') key (JStr x)
      else writer_contents (rt_log s') = writer_contents (rt_log s)))"

text \<open>A log that was closed stays closed while it grows from \<open>k\<close>.\<close>

definition closed_kept :: "'w orchestrator \<Rightarrow> event list \<Rightarrow> event list \<Rightarrow> bool" where
  "closed_kept self k es \<longleftrightarrow> (\<forall>jobs key. engine_contained self jobs key \<longrightarrow>
     closed_log (o_tables self) jobs key k \<longrightarrow> closed_log (o_tables self) jobs key es)"

lemma closed_kept_refl [simp]: "closed_kept self k k"
  by (simp add: closed_kept_def)

lemma closed_kept_trans: "closed_kept self k es \<Longrightarrow> closed_kept self es es' \<Longrightarrow> closed_kept self k es'"
  by (simp add: closed_kept_def)

lemma closed_kept_append: "closed_kept self k es \<Longrightarrow> (\<And>e. e \<in> set new \<Longrightarrow> neutral e) \<Longrightarrow> closed_kept self k (es @ new)"
  unfolding closed_kept_def using closed_by_neutral by (blast intro: closed_log_append)

text \<open>An execution may be ended once its boundaries are released.\<close>

definition released_for :: "'w orchestrator \<Rightarrow> projection \<Rightarrow> json \<Rightarrow> bool" where
  "released_for self p x \<longleftrightarrow> (\<forall>key. engine_contained self True key \<longrightarrow> no_boundary p key x)"

lemma closed_kept_snoc:
  assumes "closed_kept self k es" and "rebuild (o_tables self) es empty_projection = Inr p"
    and "ending e \<Longrightarrow> released_for self p (execution_id e)" and "etype e \<noteq> EXECUTION_CONTAINMENT_PREPARED"
  shows "closed_kept self k (es @ [e])"
  using assms by (auto simp: closed_kept_def each_snoc closed_by_def released_for_def split: if_splits)

section \<open>Recovery ends executions only in a workspace without open boundaries\<close>

lemma fact_containments: "proj_step T p e p' \<Longrightarrow> etype e \<in> {EXECUTION_CRASHED, COMMIT_CREATED} \<Longrightarrow> containments p' = containments p"
  by (erule proj_step.cases) auto

lemma closed_log_recovery:
  assumes "rebuild T es empty_projection = Inr p" and "\<not> is_workspace_blocked p key" and "closed_log T jobs key es"
    and "\<forall>e \<in> set new. etype e \<in> {EXECUTION_CRASHED, COMMIT_CREATED}" and "rebuild T new p = Inr p'"
  shows "closed_log T jobs key (es @ new) \<and> containments p' = containments p"
  using assms(4,5)
proof (induction new arbitrary: p' rule: rev_induct)
  case Nil
  then show ?case using assms(3) by simp
next
  case (snoc e new)
  then obtain q where q: "rebuild T new p = Inr q" "apply_event T e q = Inr p'" by (auto simp: rebuild_snoc rbind_eq_Inr)
  have ih: "closed_log T jobs key (es @ new)" "containments q = containments p" using snoc.IH [OF _ q(1)] snoc.prems(1) by auto
  have st: "proj_step T (note_event q e) e p'" using q(2) by (simp add: apply_event_def handle_step)
  have "containments p' = containments p"
    using fact_containments [OF st] snoc.prems(1) ih(2) by simp
  moreover have "\<not> is_workspace_blocked q key"
    using assms(2) ih(2) by (simp add: is_workspace_blocked_def unreleased_containments_def)
  then have "closed_by T jobs key (es @ new) e"
    using snoc.prems(1) no_boundary_unblocked assms(1) q(1) by (auto simp: closed_by_def rebuild_append)
  then have "closed_log T jobs key (es @ new @ [e])"
    using ih(1) each_snoc [of "closed_by T jobs key" "es @ new" e] by simp
  ultimately show ?case by simp
qed

end
