(* ===== verification/LoopInv.thy ===== *)
theory LoopInv
  imports Contained
begin

text \<open>
  What the orchestrator guarantees for every repository, validator, engine and reviewer: its events
  always apply, so the log replays whatever happens; a commit is intended only for a tree that was
  validated and approved; a run starts no more executions than its budget; and every run ends.
\<close>

section \<open>The events of the loop apply\<close>

lemma complete_rows:
  assumes "complete_tables T"
  shows "ISSUE_TRANSITIONS T (PENDING, ISSUE_ACTIVATED) = Some (\<lambda>_. Inr ACTIVE)"
    "ISSUE_TRANSITIONS T (ACTIVE, ISSUE_COMPLETED) = Some (\<lambda>_. Inr DONE)"
    "EXECUTION_TRANSITIONS T (VALIDATING, VALIDATION_PASSED) = Some (\<lambda>_. Inr REVIEWING)"
    "EXECUTION_TRANSITIONS T (VALIDATING, VALIDATION_FAILED) = Some (\<lambda>_. Inr REJECTED)"
    "EXECUTION_TRANSITIONS T (REVIEWING, REVIEW_APPROVED) = Some (\<lambda>_. Inr ACCEPTED)"
    "EXECUTION_TRANSITIONS T (REVIEWING, REVIEW_REJECTED) = Some (\<lambda>_. Inr REJECTED)"
    "COMMIT_SEQUENCE_STATE T = ACCEPTED"
  using assms by (simp_all add: complete_tables_def doc03_tables_def)

lemma issue_event_applies:
  assumes row: "ISSUE_TRANSITIONS T (cur, etype ev) = Some fn" "fn (payload ev) = Inr st"
    and i: "map_of (issues p) i = Some cur" "i \<noteq> []" "issue_id ev = JStr i"
    and t: "etype ev \<in> {ISSUE_ACTIVATED, ISSUE_COMPLETED, ISSUE_ESCALATED}"
  shows "\<exists>p'. apply_event T ev p = Inr p' \<and> issue_moved p i st p'"
proof -
  have "need ''issue_id'' (issue_id ev) = Inr i" using i by (simp add: need_eq)
  then have "\<exists>p'. h_issue_transition T (note_event p ev) ev = Inr p' \<and> issue_moved p i st p'"
    using row i by (simp add: h_issue_transition_def need_issue_def issue_moved_def Let_def issue_execs_def [abs_def])
  then show ?thesis using t by (auto simp: apply_event_def handle_def)
qed

lemma exec_event_applies:
  assumes row: "EXECUTION_TRANSITIONS T (x_state v, etype ev) = Some fn" "fn (payload ev) = Inr st"
    and x: "map_of (executions p) x = Some v" "x \<noteq> []" "execution_id ev = JStr x"
    and t: "etype ev \<in> {EXECUTION_FINISHED, VALIDATION_PASSED, VALIDATION_FAILED, REVIEW_APPROVED, REVIEW_REJECTED}"
    and a: "annotate ev (v\<lparr>x_state := st\<rparr>) = Inr v'"
  shows "\<exists>p'. apply_event T ev p = Inr p' \<and> exec_moved p x v' p'"
proof -
  have "need ''execution_id'' (execution_id ev) = Inr x" using x by (simp add: need_eq)
  then have "\<exists>p'. h_execution_transition T (note_event p ev) ev = Inr p' \<and> exec_moved p x v' p'"
    using row x a by (simp add: h_execution_transition_def need_execution_def exec_moved_def)
  then show ?thesis using t by (auto simp: apply_event_def handle_def)
qed

lemma spawn_event_applies:
  assumes i: "map_of (issues p) i = Some ACTIVE" "i \<noteq> []" "issue_id ev = JStr i"
    and x: "map_of (executions p) x = None" "x \<noteq> []" "execution_id ev = JStr x"
    and l: "\<And>v. latest_execution p i = Some v \<Longrightarrow> EXECUTION_TERMINAL T (x_state v)"
    and t: "etype ev = EXECUTION_SPAWNED" and u: "jget (payload ev) ''pre_execution_untracked'' = JArr us"
  shows "\<exists>p' v. apply_event T ev p = Inr p' \<and> exec_added p i x v p' \<and> x_state v = EXECUTING"
proof -
  let ?q = "note_event p ev"
  have n: "need ''execution_id'' (execution_id ev) = Inr x" "need ''issue_id'' (issue_id ev) = Inr i"
    using x i by (simp_all add: need_eq)
  have f: "latest_execution ?q = latest_execution p" by (rule latest_frame) simp_all
  have pl: "py_list (json_or (JArr us) (JArr [])) = Inr us"
    by (simp add: json_or_def truthy_def py_list_def)
  have "(case latest_execution p i of None \<Rightarrow> False | Some prev \<Rightarrow> \<not> EXECUTION_TERMINAL T (x_state prev)) = False"
    using l by (auto split: option.splits)
  then have "\<exists>p' v. h_execution_spawned T ?q ev = Inr p' \<and> exec_added p i x v p' \<and> x_state v = EXECUTING"
    using n i(1) x(1) f u pl
    by (auto simp: h_execution_spawned_def need_execution_def need_issue_def refuse_if_def exec_added_def
        new_execution_view_def issue_execs_def fun_eq_iff)
  then show ?thesis using t by (auto simp: apply_event_def handle_def)
qed

lemma intent_event_applies:
  assumes "COMMIT_SEQUENCE_STATE T = x_state v" and x: "map_of (executions p) x = Some v" "x \<noteq> []" "execution_id ev = JStr x"
    and "\<not> commit_intended v" and t: "etype ev = COMMIT_INTENT"
  shows "\<exists>p' v'. apply_event T ev p = Inr p' \<and> exec_moved p x v' p' \<and> x_state v' = x_state v \<and>
    commit_intended v' \<and> commit_created v' = commit_created v"
proof -
  have "need ''execution_id'' (execution_id ev) = Inr x" using x by (simp add: need_eq)
  then have "\<exists>p' v'. h_commit_intent T (note_event p ev) ev = Inr p' \<and> exec_moved p x v' p' \<and> x_state v' = x_state v \<and>
    commit_intended v' \<and> commit_created v' = commit_created v"
    using assms by (auto simp: h_commit_intent_def accepted_view_def need_execution_def exec_moved_def refuse_if_def)
  then show ?thesis using t by (auto simp: apply_event_def handle_def)
qed

lemma created_event_applies:
  assumes "COMMIT_SEQUENCE_STATE T = x_state v" and x: "map_of (executions p) x = Some v" "x \<noteq> []" "execution_id ev = JStr x"
    and "commit_intended v" and "\<not> commit_created v" and t: "etype ev = COMMIT_CREATED"
  shows "\<exists>p'. apply_event T ev p = Inr p' \<and> exec_moved p x (v\<lparr>commit_created := True\<rparr>) p'"
proof -
  have "need ''execution_id'' (execution_id ev) = Inr x" using x by (simp add: need_eq)
  then have "\<exists>p'. h_commit_created T (note_event p ev) ev = Inr p' \<and> exec_moved p x (v\<lparr>commit_created := True\<rparr>) p'"
    using assms by (simp add: h_commit_created_def accepted_view_def need_execution_def exec_moved_def refuse_if_def)
  then show ?thesis using t by (auto simp: apply_event_def handle_def)
qed

section \<open>The invariant of the loop\<close>

definition spawned :: "event list \<Rightarrow> nat" where
  "spawned es = length (filter (\<lambda>e. etype e = EXECUTION_SPAWNED) es)"

text \<open>
  The log grows, by anything but the events that open and close a run. \<open>k\<close> is what it held before the
  run started; \<open>m\<close> the configured cap on executions.
\<close>

definition grown :: "event list \<Rightarrow> event list \<Rightarrow> bool" where
  "grown k es \<longleftrightarrow> (\<exists>new. es = k @ new \<and> (\<forall>e \<in> set new. etype e \<notin> {RUN_STARTED, RUN_FINISHED}))"

lemma grown_refl [simp]: "grown k k"
  by (simp add: grown_def)

lemma grown_append: "grown k es \<Longrightarrow> \<forall>e \<in> set new. etype e \<notin> {RUN_STARTED, RUN_FINISHED} \<Longrightarrow> grown k (es @ new)"
  unfolding grown_def by (metis Un_iff append.assoc set_append)

lemma grown_snoc: "grown k es \<Longrightarrow> etype e \<notin> {RUN_STARTED, RUN_FINISHED} \<Longrightarrow> grown k (es @ [e])"
  by (simp add: grown_append)

definition loop_inv :: "'w orchestrator \<Rightarrow> event list \<Rightarrow> int \<Rightarrow> 'w lp \<Rightarrow> bool" where
  "loop_inv self k m s \<longleftrightarrow> in_sync (o_tables self) s \<and> attempts_named (rt_proj s) \<and>
     commits_pinned (writer_contents (rt_log s)) \<and>
     int (spawned (writer_contents (rt_log s))) = int (spawned k) + executions_started (lp_budget s) \<and>
     max_executions_per_run (lp_budget s) = m \<and> executions_started (lp_budget s) \<le> max 0 m \<and>
     grown k (writer_contents (rt_log s)) \<and> closed_kept self k (writer_contents (rt_log s))"

definition containment_types :: "event_type set" where
  "containment_types = {EXECUTION_CONTAINMENT_PREPARED, EXECUTION_CONTAINMENT_ESTABLISHED,
     EXECUTION_TERMINATION_UNCONFIRMED, EXECUTION_CONTAINMENT_RELEASED}"

text \<open>
  What the loop relies on of its collaborators. The engine emits nothing but containment facts of
  its boundary, each of which applies, and its results, like the reviewer's feedback, are JSON values
  (objects with their keys in order). A float prints as one.
\<close>

definition engine_ok :: "'w orchestrator \<Rightarrow> bool" where
  "engine_ok self \<longleftrightarrow> (\<forall>x prompt s r s'. run_engine self x prompt s = (r, s') \<longrightarrow> in_sync (o_tables self) s \<longrightarrow>
     in_sync (o_tables self) s' \<and> extends (\<lambda>e. etype e \<in> containment_types) s s' \<and>
     lp_budget s' = lp_budget s \<and>
     (\<forall>er. r = Inr er \<longrightarrow> stored (duration_s er) \<and> stored (JObj (usage er))))"

definition reviewer_ok :: "'w orchestrator \<Rightarrow> bool" where
  "reviewer_ok self \<longleftrightarrow> (\<forall>pack w v w'. review_call self pack w = (Inr v, w') \<longrightarrow> stored (JArr (v_feedback v)))"

definition collaborators_ok :: "'w orchestrator \<Rightarrow> bool" where
  "collaborators_ok self \<longleftrightarrow> complete_tables (o_tables self) \<and> engine_ok self \<and> reviewer_ok self \<and>
     (\<forall>x. stored (JFloat (repr_float (o_os self) x)))"

lemma loop_inv_world [simp]: "loop_inv self k m (s\<lparr>rt_world := w\<rparr>) = loop_inv self k m s"
  by (simp add: loop_inv_def)

lemma loop_inv_prompts [simp]: "loop_inv self k m (s\<lparr>lp_prompts := w\<rparr>) = loop_inv self k m s"
  by (simp add: loop_inv_def in_sync_def)

lemma spawned_append [simp]: "spawned (es @ es') = spawned es + spawned es'"
  by (simp add: spawned_def)

lemma spawned_none: "\<forall>e \<in> set es. etype e \<noteq> EXECUTION_SPAWNED \<Longrightarrow> spawned es = 0"
  by (simp add: spawned_def filter_empty_conv)

text \<open>The facts of the projection a step may use.\<close>

definition proj_facts :: "tables \<Rightarrow> event list \<Rightarrow> projection \<Rightarrow> bool" where
  "proj_facts T es p \<longleftrightarrow> proj_ok T p \<and> issues_named p \<and> ends_stored p \<and> pins_recorded es p"

lemma in_sync_facts:
  assumes "complete_tables T" and "in_sync T s"
  shows "proj_facts T (writer_contents (rt_log s)) (rt_proj s)"
proof -
  note T = complete_doc03 [OF assms(1)]
  have r: "rebuild T (writer_contents (rt_log s)) empty_projection = Inr (rt_proj s)" and w: "writer_ok (rt_log s)"
    using assms(2) by (simp_all add: in_sync_def)
  show ?thesis unfolding proj_facts_def
    using in_sync_proj_ok [OF T assms(2)] issues_named_replay [OF T r] pins_recorded_replay [OF T r]
      ends_stored_replay [OF T r writer_ok_storable [OF w]] by blast
qed

section \<open>Emitting in the loop\<close>

lemma emit_frame: "emit T ev s = (r, s') \<Longrightarrow> lp_budget s' = lp_budget s \<and> lp_prompts s' = lp_prompts s"
  by (auto simp: emit_def Let_def split: sum.splits prod.splits)

definition event_like :: "event_type \<Rightarrow> string \<Rightarrow> payload \<Rightarrow> string option \<Rightarrow> event \<Rightarrow> bool" where
  "event_like t issue pl xid ev \<longleftrightarrow> etype ev = t \<and> payload ev = pl \<and> issue_id ev = JStr issue \<and>
     execution_id ev = jopt xid"

lemma emit_event_ok:
  assumes "in_sync (o_tables self) s" and "stored (JObj pl)"
    and "\<And>ev. event_like t issue pl xid ev \<Longrightarrow> \<exists>p'. apply_event (o_tables self) ev (rt_proj s) = Inr p'"
  shows "\<exists>ev s'. emit_event self t issue pl xid s = (Inr (), s') \<and> event_like t issue pl xid ev \<and>
    in_sync (o_tables self) s' \<and> apply_event (o_tables self) ev (rt_proj s) = Inr (rt_proj s') \<and>
    writer_contents (rt_log s') = writer_contents (rt_log s) @ [ev] \<and> lp_budget s' = lp_budget s"
proof -
  let ?e = "new_event t (JStr issue) (jopt xid) (JStr (o_run_id self)) pl (utcnow (o_env self) (rt_world s))"
  let ?ev = "stamp ?e (int (length (writer_contents (rt_log s))) + 1)"
  have g: "good_event ?e" using assms(2) by (simp add: good_new_event)
  have like: "event_like t issue pl xid ?ev" by (simp add: event_like_def)
  then obtain p' where p': "apply_event (o_tables self) ?ev (rt_proj s) = Inr p'" using assms(3) by blast
  obtain s' where s': "emit (o_tables self) ?e s = (Inr ?ev, s')" "in_sync (o_tables self) s'" "rt_proj s' = p'"
    "writer_contents (rt_log s') = writer_contents (rt_log s) @ [?ev]"
    using emit_sync [OF assms(1) g p'] by blast
  have "emit_event self t issue pl xid s = (Inr (), s')"
    using s'(1) by (simp add: emit_event_def andthen_def)
  then show ?thesis using s' p' like emit_frame [OF s'(1)] by blast
qed

text \<open>An event that starts no execution, and is pinned if it intends a commit.\<close>

lemma triple_emit:
  assumes t: "t \<notin> {EXECUTION_SPAWNED, RUN_STARTED, RUN_FINISHED, EXECUTION_CONTAINMENT_PREPARED}"
    and pl: "stored (JObj pl)" and T: "complete_tables (o_tables self)"
    and closed: "\<And>ev. event_like t issue pl xid ev \<Longrightarrow> ending ev \<Longrightarrow> released_for self p (execution_id ev)"
    and pin: "\<And>ev es. event_like t issue pl xid ev \<Longrightarrow> pins_recorded es p \<Longrightarrow> pinned_by es ev"
    and a: "\<And>ev. event_like t issue pl xid ev \<Longrightarrow> \<exists>p'. apply_event (o_tables self) ev p = Inr p' \<and> R p'"
  shows "triple (\<lambda>s. loop_inv self k m s \<and> rt_proj s = p) (emit_event self t issue pl xid)
    (\<lambda>_ s. loop_inv self k m s \<and> R (rt_proj s)) (\<lambda>_. loop_inv self k m)"
proof (rule triple_total)
  fix s assume s: "loop_inv self k m s \<and> rt_proj s = p"
  then have sync: "in_sync (o_tables self) s" by (simp add: loop_inv_def)
  obtain ev s' where e: "emit_event self t issue pl xid s = (Inr (), s')" "event_like t issue pl xid ev"
    "in_sync (o_tables self) s'" "apply_event (o_tables self) ev (rt_proj s) = Inr (rt_proj s')"
    "writer_contents (rt_log s') = writer_contents (rt_log s) @ [ev]" "lp_budget s' = lp_budget s"
    using emit_event_ok [OF sync pl, of t issue xid] a s by blast
  have R: "R (rt_proj s')" using a [OF e(2)] e(4) s by auto
  have et: "etype ev \<noteq> EXECUTION_SPAWNED" and er: "etype ev \<notin> {RUN_STARTED, RUN_FINISHED}"
    using e(2) t by (auto simp: event_like_def)
  have "proj_step (o_tables self) (note_event (rt_proj s) ev) ev (rt_proj s')"
    using e(4) by (simp add: apply_event_def handle_step)
  from attempts_named_step [OF this et] have "attempts_named (rt_proj s')"
    using s by (auto simp: loop_inv_def attempts_named_def attempts_def)
  moreover have "pinned_by (writer_contents (rt_log s)) ev"
    using in_sync_facts [OF T sync] pin [OF e(2)] s by (simp add: proj_facts_def)
  then have "commits_pinned (writer_contents (rt_log s'))" using s e(5) by (simp add: loop_inv_def each_snoc)
  moreover have "spawned [ev] = 0" using et by (auto intro: spawned_none)
  moreover have "grown k (writer_contents (rt_log s'))"
    unfolding e(5) by (rule grown_snoc [OF _ er]) (use s in \<open>simp add: loop_inv_def\<close>)
  moreover have "closed_kept self k (writer_contents (rt_log s'))"
    unfolding e(5) by (rule closed_kept_snoc) (use s t sync e(2) closed in \<open>auto simp: loop_inv_def in_sync_def event_like_def\<close>)
  ultimately have "loop_inv self k m s'" using e(3,5,6) s by (simp add: loop_inv_def)
  with e(1) R show "\<exists>a s'. emit_event self t issue pl xid s = (Inr a, s') \<and> loop_inv self k m s' \<and> R (rt_proj s')"
    by blast
qed

lemma triple_quiet:
  assumes "t \<notin> {EXECUTION_SPAWNED, COMMIT_INTENT, RUN_STARTED, RUN_FINISHED, EXECUTION_CONTAINMENT_PREPARED,
      EXECUTION_FINISHED, EXECUTION_CRASHED}" and "stored (JObj pl)" and "complete_tables (o_tables self)"
    and "\<And>ev. event_like t issue pl xid ev \<Longrightarrow> \<exists>p'. apply_event (o_tables self) ev p = Inr p' \<and> R p'"
  shows "triple (\<lambda>s. loop_inv self k m s \<and> rt_proj s = p) (emit_event self t issue pl xid)
    (\<lambda>_ s. loop_inv self k m s \<and> R (rt_proj s)) (\<lambda>_. loop_inv self k m)"
  using assms by (intro triple_emit) (auto simp: event_like_def ending_def intro: pinned_by_other)

lemma triple_intent:
  assumes "stored (JObj pl)" and "complete_tables (o_tables self)" and "map_of (executions p) x = Some v"
    and "pin_ok v" and "jget pl ''end_commit'' = end_commit v"
    and "\<And>ev. event_like COMMIT_INTENT issue pl (Some x) ev \<Longrightarrow> \<exists>p'. apply_event (o_tables self) ev p = Inr p' \<and> R p'"
  shows "triple (\<lambda>s. loop_inv self k m s \<and> rt_proj s = p) (emit_event self COMMIT_INTENT issue pl (Some x))
    (\<lambda>_ s. loop_inv self k m s \<and> R (rt_proj s)) (\<lambda>_. loop_inv self k m)"
  using assms by (intro triple_emit) (auto simp: event_like_def jopt_def ending_def intro: pins_pinned)

text \<open>Programs around the events: they change the world or the prompts, or nothing.\<close>

lemma keeps_loop_repo [keeps_rules]: "keeps (\<lambda>s. loop_inv self k m s \<and> rt_proj s = p) (repo_call c)"
  by (rule keeps_repo_call) simp

lemma keeps_write_prompt [keeps_rules]: "keeps (\<lambda>s. loop_inv self k m s \<and> rt_proj s = p) (write_prompt x t)"
  by (rule keepsI) (simp add: write_prompt_def)

lemma keeps_lift_prompt [keeps_rules]: "keeps P (lift_prompt r)"
  by (simp add: lift_prompt_def keeps_rules)

section \<open>Rows of the table\<close>

abbreviation cap_of :: "'w orchestrator \<Rightarrow> nat" where
  "cap_of self \<equiv> nat (max_attempts_per_issue self)"

text \<open>A program that, from the projection \<open>p\<close>, keeps the invariant and lowers the rank if it returns.\<close>

definition lowers :: "'w orchestrator \<Rightarrow> event list \<Rightarrow> int \<Rightarrow> projection \<Rightarrow> ('w, 'a) lprog \<Rightarrow> bool" where
  "lowers self k m p prog \<longleftrightarrow> triple (\<lambda>s. loop_inv self k m s \<and> rt_proj s = p) prog
     (\<lambda>_ s. loop_inv self k m s \<and> rank (cap_of self) (rt_proj s) < rank (cap_of self) p)
     (\<lambda>_. loop_inv self k m)"

lemma lowers_after:
  "keeps (\<lambda>s. loop_inv self k m s \<and> rt_proj s = p) c \<Longrightarrow> (\<And>a. lowers self k m p (f a)) \<Longrightarrow>
   lowers self k m p (andthen c f)"
  unfolding lowers_def by (rule triple_andthen [where R = "\<lambda>_ s. loop_inv self k m s \<and> rt_proj s = p"])
    (auto intro: keeps_triple)

text \<open>What follows may use a fact of the value returned.\<close>

lemma lowers_known:
  assumes c: "keeps (\<lambda>s. loop_inv self k m s \<and> rt_proj s = p) c"
    and R: "\<And>s a s'. c s = (Inr a, s') \<Longrightarrow> R a" and f: "\<And>a. R a \<Longrightarrow> lowers self k m p (f a)"
  shows "lowers self k m p (andthen c f)"
  unfolding lowers_def
proof (rule tripleI)
  fix s a s' assume s: "loop_inv self k m s \<and> rt_proj s = p" and r: "andthen c f s = (Inr a, s')"
  then obtain b s1 where "c s = (Inr b, s1)" "f b s1 = (Inr a, s')" by (auto simp: andthen_eq)
  with tripleD(1) [OF f [OF R, unfolded lowers_def]] keepsD [OF c s]
  show "loop_inv self k m s' \<and> rank (cap_of self) (rt_proj s') < rank (cap_of self) p" by fastforce
next
  fix s e s' assume s: "loop_inv self k m s \<and> rt_proj s = p" and r: "andthen c f s = (Inl e, s')"
  from r consider "c s = (Inl e, s')" | b s1 where "c s = (Inr b, s1)" "f b s1 = (Inl e, s')"
    by (auto simp: andthen_eq)
  then show "loop_inv self k m s'"
  proof cases
    case 1
    then show ?thesis using keepsD [OF c s] by simp
  next
    case 2
    then show ?thesis using tripleD(2) [OF f [OF R [OF 2(1)], unfolded lowers_def] _ 2(2)] keepsD [OF c s] by simp
  qed
qed

lemma lowers_throw: "lowers self k m p (throw e)"
  unfolding lowers_def by (rule triple_throw) simp

lemma lowers_lift: "(\<And>a. r = Inr a \<Longrightarrow> lowers self k m p (f a)) \<Longrightarrow> lowers self k m p (andthen (lift r) f)"
  unfolding lowers_def by (cases r) (auto simp: triple_def andthen_def)

lemma lowers_if: "(b \<Longrightarrow> lowers self k m p c) \<Longrightarrow> (\<not> b \<Longrightarrow> lowers self k m p d) \<Longrightarrow> lowers self k m p (if b then c else d)"
  by simp

lemma lowers_proj: "lowers self k m p (f (g p)) \<Longrightarrow> lowers self k m p (andthen (gets (\<lambda>s. g (rt_proj s))) f)"
  unfolding lowers_def triple_def andthen_def by simp

lemma lowers_option:
  "lowers self k m p c \<Longrightarrow> (\<And>a. x = Some a \<Longrightarrow> lowers self k m p (f a)) \<Longrightarrow>
   lowers self k m p (case x of None \<Rightarrow> c | Some a \<Rightarrow> f a)"
  by (cases x) auto

text \<open>What follows the event only changes the world.\<close>

lemma lowers_then:
  assumes "lowers self k m p c" and "\<And>P a. (\<And>s w. P s \<Longrightarrow> P (s\<lparr>rt_world := w\<rparr>)) \<Longrightarrow> keeps P (f a)"
  shows "lowers self k m p (andthen c f)"
  using assms(1) unfolding lowers_def
  by (rule triple_andthen) (rule keeps_triple, rule assms(2), simp_all)

lemma keeps_reset [keeps_rules]:
  "(\<And>s w. P s \<Longrightarrow> P (s\<lparr>rt_world := w\<rparr>)) \<Longrightarrow> keeps P (reset_to self b)"
  unfolding reset_to_def by (intro keeps_rules)

lemma lowers_quiet:
  assumes "t \<notin> {EXECUTION_SPAWNED, COMMIT_INTENT, RUN_STARTED, RUN_FINISHED, EXECUTION_CONTAINMENT_PREPARED,
      EXECUTION_FINISHED, EXECUTION_CRASHED}" and "stored (JObj pl)" and "complete_tables (o_tables self)"
    and "\<And>ev. event_like t issue pl xid ev \<Longrightarrow>
      \<exists>p'. apply_event (o_tables self) ev p = Inr p' \<and> rank (cap_of self) p' < rank (cap_of self) p"
  shows "lowers self k m p (emit_event self t issue pl xid)"
  unfolding lowers_def by (rule triple_quiet [OF assms])

section \<open>Payloads are in stored form\<close>

lemmas key_order = list.map fst_conv

lemma sorted_escalated: "sorted [''evidence_refs'', ''reason'', ''taxonomy_category'']"
  by code_simp

lemma stored_escalated:
  "stored v \<Longrightarrow> stored (JObj [(''evidence_refs'', v), (''reason'', JStr r), (''taxonomy_category'', JStr c)])"
  by (rule stored_JObj) (simp only: key_order sorted_escalated, simp_all)

lemma stored_spawned: "stored (JObj (spawn_payload self prev prompt us))"
proof -
  have "sorted [''max_turns'', ''wall_seconds'']" by code_simp
  then have b: "stored (JObj [(''max_turns'', JInt a), (''wall_seconds'', JInt b)])" for a b
    by (intro stored_JObj) (simp_all only: key_order, simp_all)
  have "sorted [''budget'', ''engine'', ''parent_execution_id'', ''pid'', ''pre_execution_untracked'', ''prompt_hash'', ''spawn_reason'']"
    by code_simp
  then show ?thesis unfolding spawn_payload_def
    by (intro stored_JObj) (simp_all only: key_order, simp_all add: b)
qed

lemma stored_finished:
  assumes "stored (duration_s r)" and "stored (JObj (usage r))" and "stored base"
  shows "stored (JObj (finished_payload self base end r rej))"
proof -
  have "sorted [''duration_s'', ''end_commit'', ''exit_status'', ''num_turns'', ''pid'', ''start_commit'',
      ''transcript_path'', ''usage'']"
    "sorted [''duration_s'', ''end_commit'', ''exit_status'', ''num_turns'', ''outcome'', ''pid'', ''start_commit'',
      ''taxonomy_category'', ''transcript_path'', ''usage'']" by code_simp+
  then have "sorted (keys (finished_payload self base end r rej))"
    by (cases rej) (simp_all only: finished_payload_def list.map fst_conv append.simps option.case)
  then show ?thesis
    by (rule stored_JObj) (use assms in \<open>auto simp: finished_payload_def split: option.splits\<close>)
qed

lemma stored_gates:
  assumes "\<And>x. stored (JFloat (rp x))"
  shows "stored (gate_results rp r)"
proof -
  have "sorted [''duration_s'', ''gate'', ''log_path'', ''passed'']" by code_simp
  then have "stored (JObj [(''duration_s'', JFloat (rp (g_duration g))), (''gate'', JStr (g_name g)),
      (''log_path'', JStr (g_log_path g)), (''passed'', JBool (g_passed g))])" for g :: gate
    by (intro stored_JObj) (simp_all only: key_order, simp_all add: assms)
  then show ?thesis by (simp add: gate_results_def)
qed

lemma stored_validation:
  assumes "\<And>x. stored (JFloat (repr_float (o_os self) x))" and "stored (end_commit ex)"
  shows "stored (JObj (validation_payload self ex r))"
proof -
  have "sorted [''flake_retries'', ''gate_results'', ''validated_commit'']"
    "sorted [''flake_retries'', ''gate_results'', ''taxonomy_category'', ''validated_commit'']" by code_simp+
  then have "sorted (keys (validation_payload self ex r))"
    by (cases "v_passed r") (simp_all only: validation_payload_def list.map fst_conv append.simps if_True if_False simp_thms)
  then show ?thesis
    by (rule stored_JObj) (use assms in \<open>auto simp: validation_payload_def stored_gates split: if_splits\<close>)
qed

lemma stored_approved:
  "stored c \<Longrightarrow> stored (JObj [(''reviewed_commit'', c), (''reviewer_provider'', JStr n), (''verdict'', JStr v)])"
proof -
  have "sorted [''reviewed_commit'', ''reviewer_provider'', ''verdict'']" by code_simp
  then show "stored c \<Longrightarrow> ?thesis" by (intro stored_JObj) (simp_all only: key_order, simp_all)
qed

lemma stored_review_taxonomy: "\<forall>fb \<in> set fbs. stored fb \<Longrightarrow> stored (review_taxonomy fbs)"
proof (induction fbs)
  case (Cons fb fbs)
  then show ?case by (cases fb) (auto simp: feedback_category_def Let_def stored_field)
qed simp

lemma stored_rejected:
  assumes "stored (end_commit ex)" and "stored (JArr (v_feedback v))"
  shows "stored (JObj (rejected_payload ex v))"
proof -
  have "sorted [''feedback'', ''reviewed_commit'', ''reviewer_provider'', ''severity'', ''taxonomy_category'', ''verdict'']"
    by code_simp
  then show ?thesis unfolding rejected_payload_def
    by (intro stored_JObj) (simp_all only: key_order, use assms stored_review_taxonomy in auto)
qed

lemma stored_intent: "stored c \<Longrightarrow> stored (JObj [(''end_commit'', c), (''target_branch'', JStr b)])"
proof -
  have "sorted [''end_commit'', ''target_branch'']" by code_simp
  then show "stored c \<Longrightarrow> ?thesis" by (intro stored_JObj) (simp_all only: key_order, simp_all)
qed

lemma stored_created:
  "stored (JObj [(''backfilled'', JBool b), (''merge_commit'', JStr mc), (''target_branch'', JStr t)])"
proof -
  have "sorted [''backfilled'', ''merge_commit'', ''target_branch'']" by code_simp
  then show ?thesis by (intro stored_JObj) (simp_all only: key_order, simp_all)
qed

lemma stored_completed: "stored c \<Longrightarrow> stored (JObj [(''evidence_refs'', JArr [c]), (''reason'', JStr r)])"
proof -
  have "sorted [''evidence_refs'', ''reason'']" by code_simp
  then show "stored c \<Longrightarrow> ?thesis" by (intro stored_JObj) (simp_all only: key_order, simp_all)
qed

section \<open>Rows that start from the latest execution\<close>

definition working :: "tables \<Rightarrow> projection \<Rightarrow> string \<Rightarrow> execution_view \<Rightarrow> bool" where
  "working T p i v \<longleftrightarrow> complete_tables T \<and> proj_ok T p \<and> issues_named p \<and> ends_stored p \<and>
     map_of (issues p) i = Some ACTIVE \<and> latest_execution p i = Some v"

lemma workingD:
  assumes "working T p i v"
  shows "map_of (executions p) (x_execution_id v) = Some v" "x_execution_id v = last (issue_execs p i)"
    "x_issue_id v = i" "x_execution_id v \<noteq> []" "i \<noteq> []" "stored (end_commit v)" "keys_ok p" "linked p"
    "complete_tables T" "map_of (issues p) i = Some ACTIVE" "latest_execution p i = Some v"
proof -
  note w = assms [unfolded working_def proj_ok_def]
  have l: "issue_execs p i \<noteq> []" "map_of (executions p) (last (issue_execs p i)) = Some v"
    using w by (auto dest: latest_SomeD)
  then have "exec_ok (last (issue_execs p i)) v" using w by (simp add: execs_ok_def)
  then show x: "x_execution_id v = last (issue_execs p i)" "x_execution_id v \<noteq> []" by (simp_all add: exec_ok_def)
  show "map_of (executions p) (x_execution_id v) = Some v" using l x by simp
  have "last (issue_execs p i) \<in> set (issue_execs p i)" using l(1) by simp
  then show "x_issue_id v = i" using w l(2) unfolding linked_def by (metis option.inject)
  show "stored (end_commit v)" using w l(2) by (auto simp: ends_stored_def)
  show "i \<noteq> []" using w by (auto simp: issues_named_def)
qed (use assms in \<open>simp_all add: working_def proj_ok_def\<close>)

text \<open>The execution moves on, and the issue stays active.\<close>

definition onward :: "'w orchestrator \<Rightarrow> projection \<Rightarrow> projection \<Rightarrow> bool" where
  "onward self p p' \<longleftrightarrow> rank (cap_of self) p' < rank (cap_of self) p \<and> issues p' = issues p"

lemma exec_moved_onward:
  assumes "working T p i v" and "exec_moved p (x_execution_id v) v' p'" and "view_rank v' < view_rank v"
  shows "onward self p p'"
  using rank_exec_moved [OF assms(2) workingD(7,8,10,11) [OF assms(1)] workingD(1,3,2) [OF assms(1)] assms(3)] assms
  by (simp add: onward_def exec_moved_def)

lemma triple_exec_event:
  assumes w: "working (o_tables self) p i v"
    and row: "EXECUTION_TRANSITIONS (o_tables self) (x_state v, t) = Some fn" "fn pl = Inr st"
    and t: "t \<in> {EXECUTION_FINISHED, VALIDATION_PASSED, VALIDATION_FAILED, REVIEW_APPROVED, REVIEW_REJECTED}"
    and pl: "stored (JObj pl)"
    and closed: "t = EXECUTION_FINISHED \<Longrightarrow> released_for self p (JStr (x_execution_id v))"
    and a: "\<And>ev. etype ev = t \<Longrightarrow> payload ev = pl \<Longrightarrow> \<exists>v'. annotate ev (v\<lparr>x_state := st\<rparr>) = Inr v'"
    and r: "\<And>v'. x_state v' = st \<Longrightarrow> commit_intended v' = commit_intended v \<Longrightarrow> view_rank v' < view_rank v"
  shows "triple (\<lambda>s. loop_inv self k m s \<and> rt_proj s = p) (emit_event self t i pl (Some (x_execution_id v)))
    (\<lambda>_ s. loop_inv self k m s \<and> onward self p (rt_proj s)) (\<lambda>_. loop_inv self k m)"
proof (rule triple_emit)
  fix ev assume e: "event_like t i pl (Some (x_execution_id v)) ev"
  then have et: "etype ev = t" "payload ev = pl" "execution_id ev = JStr (x_execution_id v)"
    by (simp_all add: event_like_def jopt_def)
  obtain v' where v': "annotate ev (v\<lparr>x_state := st\<rparr>) = Inr v'" using a [OF et(1,2)] by blast
  have "view_rank v' < view_rank v" using annotate_frame [OF v'] by (intro r) simp_all
  moreover obtain p' where "apply_event (o_tables self) ev p = Inr p'" "exec_moved p (x_execution_id v) v' p'"
    using exec_event_applies [OF row [folded et(1), folded et(2)] workingD(1,4) [OF w] et(3) _ v'] t et(1) by auto
  ultimately show "\<exists>p'. apply_event (o_tables self) ev p = Inr p' \<and> onward self p p'"
    using exec_moved_onward [OF w] by blast
next
  fix ev assume "event_like t i pl (Some (x_execution_id v)) ev" "ending ev"
  then show "released_for self p (execution_id ev)"
    using t closed by (auto simp: event_like_def ending_def jopt_def)
next
  fix ev es assume "event_like t i pl (Some (x_execution_id v)) ev"
  then show "pinned_by es ev" using t by (auto simp: event_like_def intro: pinned_by_other)
qed (use t pl workingD(9) [OF w] in auto)

lemma onward_lowers:
  "triple (\<lambda>s. loop_inv self k m s \<and> rt_proj s = p) c (\<lambda>_ s. loop_inv self k m s \<and> onward self p (rt_proj s))
     (\<lambda>_. loop_inv self k m) \<Longrightarrow> lowers self k m p c"
  unfolding lowers_def by (erule triple_conseq) (auto simp: onward_def)

lemma annotate_total: "etype ev \<noteq> REVIEW_REJECTED \<Longrightarrow> \<exists>v'. annotate ev v = Inr v'"
  by (simp add: annotate_def Let_def)

subsection \<open>Validation and review\<close>

lemma lowers_validate:
  assumes w: "working (o_tables self) p i v" and c: "collaborators_ok self" and st: "x_state v = VALIDATING"
  shows "lowers self k m p (validate_step self i v)"
proof -
  let ?x = "Some (x_execution_id v)"
  note rows = complete_rows [OF workingD(9) [OF w]]
  have pl: "stored (JObj (validation_payload self v r))" for r
    using c workingD(6) [OF w] by (intro stored_validation) (auto simp: collaborators_ok_def)
  have passed: "lowers self k m p (emit_event self VALIDATION_PASSED i (validation_payload self v r) ?x)" for r
    by (rule onward_lowers, rule triple_exec_event [OF w _ _ _ pl])
      (use rows st in \<open>auto simp: annotate_total view_rank_def\<close>)
  have failed: "lowers self k m p (emit_event self VALIDATION_FAILED i (validation_payload self v r) ?x)" for r
    by (rule onward_lowers, rule triple_exec_event [OF w _ _ _ pl])
      (use rows st in \<open>auto simp: annotate_total view_rank_def\<close>)
  have extra: "keeps (\<lambda>s. loop_inv self k m s \<and> rt_proj s = p) (new_test_commands self v)"
    unfolding new_test_commands_def by (auto intro!: keeps_rules split: option.split)
  show ?thesis unfolding validate_step_def
    by (intro lowers_after extra keeps_loop_repo lowers_if passed lowers_then [OF failed] keeps_reset)
qed

lemma lowers_escalated:
  assumes T: "complete_tables (o_tables self)" and p: "keys_ok p" "issues_named p"
    and i: "map_of (issues p) i = Some ACTIVE" and v: "stored v"
    and c: "c \<in> {''needs-human'', ''needs-decomposition''}"
  shows "lowers self k m p (emit_event self ISSUE_ESCALATED i
     [(''evidence_refs'', v), (''reason'', JStr r), (''taxonomy_category'', JStr c)] x)"
proof (rule lowers_quiet)
  let ?pl = "[(''evidence_refs'', v), (''reason'', JStr r), (''taxonomy_category'', JStr c)]"
  show "stored (JObj ?pl)" using v by (rule stored_escalated)
  obtain fn where fn: "ISSUE_TRANSITIONS (o_tables self) (ACTIVE, ISSUE_ESCALATED) = Some fn"
    "\<forall>pl. jget pl ''taxonomy_category'' \<in> {JStr ''needs-human'', JStr ''needs-decomposition''} \<longrightarrow> (\<exists>st. fn pl = Inr st)"
    using T by (auto simp: complete_tables_def)
  have "jget ?pl ''taxonomy_category'' = JStr c" by (simp add: jget_def)
  then obtain st where st: "fn ?pl = Inr st" using fn(2) c by fastforce
  have "issue_row ACTIVE ISSUE_ESCALATED st" using doc03_issue_step [OF complete_doc03 [OF T] fn(1) st] by simp
  then have st2: "st \<notin> {PENDING, ACTIVE}" by (auto simp: issue_row_def)
  have n: "i \<noteq> []" using p(2) i by (auto simp: issues_named_def)
  fix ev assume "event_like ISSUE_ESCALATED i ?pl x ev"
  then have ev: "etype ev = ISSUE_ESCALATED" "payload ev = ?pl" "issue_id ev = JStr i" by (simp_all add: event_like_def)
  obtain p' where "apply_event (o_tables self) ev p = Inr p'" "issue_moved p i st p'"
    using issue_event_applies [OF fn(1) [folded ev(1)] st [folded ev(2)] i n ev(3)] ev(1) by auto
  then show "\<exists>p'. apply_event (o_tables self) ev p = Inr p' \<and> rank (cap_of self) p' < rank (cap_of self) p"
    using rank_issue_moved [OF _ p(1) i, of st p' "cap_of self"] st2 by blast
qed (use T in simp_all)

lemma keeps_call_reviewer [keeps_rules]:
  "(\<And>s w. P s \<Longrightarrow> P (s\<lparr>rt_world := w\<rparr>)) \<Longrightarrow> keeps P (call_reviewer self pack)"
  by (rule keepsI) (auto simp: call_reviewer_def split: prod.splits sum.splits review_error.splits)

lemma reviewed_stored:
  "reviewer_ok self \<Longrightarrow> call_reviewer self pack s = (Inr (Inr v), s') \<Longrightarrow> stored (JArr (v_feedback v))"
  unfolding reviewer_ok_def call_reviewer_def
  by (auto simp del: stored_JArr split: prod.splits sum.splits review_error.splits)

lemma lowers_review:
  assumes w: "working (o_tables self) p i v" and c: "collaborators_ok self" and st: "x_state v = REVIEWING"
  shows "lowers self k m p (review_step self i v)"
proof -
  let ?x = "Some (x_execution_id v)"
  note rows = complete_rows [OF workingD(9) [OF w]]
  have r: "reviewer_ok self" using c by (simp add: collaborators_ok_def)
  have approved: "lowers self k m p (emit_event self REVIEW_APPROVED i
     [(''reviewed_commit'', end_commit v), (''reviewer_provider'', JStr n), (''verdict'', JStr ''APPROVE'')] ?x)" for n
    by (rule onward_lowers, rule triple_exec_event [OF w _ _ _ stored_approved [OF workingD(6) [OF w]]])
      (use rows st in \<open>auto simp: annotate_total view_rank_def\<close>)
  have rejected: "lowers self k m p (emit_event self REVIEW_REJECTED i (rejected_payload v vd) ?x)"
    if "stored (JArr (v_feedback vd))" for vd
  proof (rule onward_lowers, rule triple_exec_event [OF w])
    have "\<exists>fb. py_list (json_or (jget (rejected_payload v vd) ''feedback'') (JArr [])) = Inr fb"
      by (simp add: rejected_payload_def jget_def json_or_def py_list_def)
    then show "\<exists>v'. annotate ev (v\<lparr>x_state := REJECTED\<rparr>) = Inr v'"
      if "etype ev = REVIEW_REJECTED" "payload ev = rejected_payload v vd" for ev
      using that by (auto simp: annotate_def Let_def)
    show "stored (JObj (rejected_payload v vd))" by (rule stored_rejected [OF workingD(6) [OF w] that])
  qed (use rows st in \<open>auto simp: view_rank_def\<close>)
  have parse: "lowers self k m p (emit_event self ISSUE_ESCALATED i
     [(''evidence_refs'', JArr [JStr n]), (''reason'', JStr ''reviewer-protocol-violation''),
      (''taxonomy_category'', JStr ''needs-human'')] ?x)" for n
    using w by (intro lowers_escalated workingD(9,7,10) [OF w]) (simp_all add: working_def)
  have outcome: "lowers self k m p (case o' of
       Inl n \<Rightarrow> emit_event self ISSUE_ESCALATED i
         [(''evidence_refs'', JArr [JStr (''review-parse-error:'' @ n)]),
          (''reason'', JStr ''reviewer-protocol-violation''), (''taxonomy_category'', JStr ''needs-human'')] ?x
     | Inr vd \<Rightarrow>
         if approved vd then emit_event self REVIEW_APPROVED i
           [(''reviewed_commit'', end_commit v), (''reviewer_provider'', JStr (provider vd)),
            (''verdict'', JStr ''APPROVE'')] ?x
         else andthen (emit_event self REVIEW_REJECTED i (rejected_payload v vd) ?x)
                (\<lambda>_. reset_to self (base_commit v)))"
    if "\<And>vd. o' = Inr vd \<Longrightarrow> stored (JArr (v_feedback vd))" for o'
    using that by (cases o') (auto intro!: parse approved lowers_then [OF rejected] keeps_reset)
  have known: "lowers self k m p (andthen (call_reviewer self pack) f)"
    if "\<And>o'. (\<And>vd. o' = Inr vd \<Longrightarrow> stored (JArr (v_feedback vd))) \<Longrightarrow> lowers self k m p (f o')" for f pack
    by (rule lowers_known [OF keeps_call_reviewer, where R = "\<lambda>o'. \<forall>vd. o' = Inr vd \<longrightarrow> stored (JArr (v_feedback vd))"])
      (use that reviewed_stored [OF r] in \<open>auto simp del: stored_JArr\<close>)
  show ?thesis unfolding review_step_def
    by (intro lowers_lift lowers_proj known lowers_after keeps_loop_repo keeps_lift_prompt outcome)
qed

subsection \<open>The commit sequence\<close>

lemma pin_gate_true: "pin_gate self v s = (Inr ok, s') \<Longrightarrow> ok \<longrightarrow> pin_ok v"
  by (auto simp: pin_gate_def andthen_def split: if_splits)

lemma lowers_intent:
  assumes w: "working (o_tables self) p i v" and st: "x_state v = ACCEPTED" "\<not> commit_intended v" and pin: "pin_ok v"
  shows "lowers self k m p (emit_event self COMMIT_INTENT i
     [(''end_commit'', end_commit v), (''target_branch'', JStr b)] (Some (x_execution_id v)))"
proof (rule onward_lowers, rule triple_intent [OF _ _ workingD(1) [OF w] pin])
  note rows = complete_rows [OF workingD(9) [OF w]]
  fix ev assume "event_like COMMIT_INTENT i [(''end_commit'', end_commit v), (''target_branch'', JStr b)]
    (Some (x_execution_id v)) ev"
  then have ev: "etype ev = COMMIT_INTENT" "execution_id ev = JStr (x_execution_id v)"
    by (simp_all add: event_like_def jopt_def)
  obtain p' v' where p': "apply_event (o_tables self) ev p = Inr p'" "exec_moved p (x_execution_id v) v' p'"
    "x_state v' = ACCEPTED" "commit_intended v'"
    using intent_event_applies [OF _ workingD(1,4) [OF w] ev(2) st(2) ev(1), of "o_tables self"] rows(7) st by auto
  then have "view_rank v' < view_rank v" using st by (simp add: view_rank_def)
  then show "\<exists>p'. apply_event (o_tables self) ev p = Inr p' \<and> onward self p p'"
    using exec_moved_onward [OF w p'(2)] p'(1) by blast
qed (use workingD(9) [OF w] stored_intent [OF workingD(6) [OF w]] in \<open>simp_all add: jget_def\<close>)

lemma lowers_created:
  assumes w: "working (o_tables self) p i v" and st: "x_state v = ACCEPTED" "commit_intended v" "\<not> commit_created v"
  shows "lowers self k m p (emit_event self COMMIT_CREATED i
     [(''backfilled'', JBool b), (''merge_commit'', JStr mc), (''target_branch'', JStr tb)] (Some (x_execution_id v)))"
proof (rule onward_lowers, rule triple_quiet [OF _ stored_created])
  note rows = complete_rows [OF workingD(9) [OF w]]
  fix ev assume "event_like COMMIT_CREATED i
    [(''backfilled'', JBool b), (''merge_commit'', JStr mc), (''target_branch'', JStr tb)] (Some (x_execution_id v)) ev"
  then have ev: "etype ev = COMMIT_CREATED" "execution_id ev = JStr (x_execution_id v)"
    by (simp_all add: event_like_def jopt_def)
  obtain p' where p': "apply_event (o_tables self) ev p = Inr p'"
    "exec_moved p (x_execution_id v) (v\<lparr>commit_created := True\<rparr>) p'"
    using created_event_applies [OF _ workingD(1,4) [OF w] ev(2) st(2,3) ev(1), of "o_tables self"] rows(7) st by auto
  have "view_rank (v\<lparr>commit_created := True\<rparr>) < view_rank v" using st by (simp add: view_rank_def)
  then show "\<exists>p'. apply_event (o_tables self) ev p = Inr p' \<and> onward self p p'"
    using exec_moved_onward [OF w p'(2)] p'(1) by blast
qed (use workingD(9) [OF w] in simp_all)

lemma lowers_completed:
  assumes w: "working (o_tables self) p i v"
  shows "lowers self k m p (emit_event self ISSUE_COMPLETED i
     [(''evidence_refs'', JArr [end_commit v]), (''reason'', JStr r)] None)"
proof (rule lowers_quiet)
  let ?pl = "[(''evidence_refs'', JArr [end_commit v]), (''reason'', JStr r)]"
  note rows = complete_rows [OF workingD(9) [OF w]]
  fix ev assume "event_like ISSUE_COMPLETED i ?pl None ev"
  then have ev: "etype ev = ISSUE_COMPLETED" "issue_id ev = JStr i" by (simp_all add: event_like_def)
  obtain p' where "apply_event (o_tables self) ev p = Inr p'" "issue_moved p i DONE p'"
    using issue_event_applies [of "o_tables self" ACTIVE ev _ DONE p i] rows(2) workingD(10,5) [OF w] ev by auto
  then show "\<exists>p'. apply_event (o_tables self) ev p = Inr p' \<and> rank (cap_of self) p' < rank (cap_of self) p"
    using rank_issue_moved [OF _ workingD(7,10) [OF w], of DONE p' "cap_of self"] by blast
qed (use workingD(9) [OF w] stored_completed [OF workingD(6) [OF w]] in simp_all)

lemma lowers_commit:
  assumes w: "working (o_tables self) p i v" and st: "x_state v = ACCEPTED"
  shows "lowers self k m p (commit_sequence self i v)"
proof -
  have gate: "keeps (\<lambda>s. loop_inv self k m s \<and> rt_proj s = p) (pin_gate self v)"
    unfolding pin_gate_def by (intro keeps_rules) simp
  have merge: "lowers self k m p (merge_step self i v)" if "commit_intended v" "\<not> commit_created v"
    unfolding merge_step_def Let_def
    by (intro lowers_lift lowers_after keeps_loop_repo lowers_if lowers_option lowers_throw
        lowers_created [OF w st that])
  show ?thesis unfolding commit_sequence_def
    by (intro lowers_if lowers_known [OF gate, where R = "\<lambda>ok. ok \<longrightarrow> pin_ok v"] lowers_throw lowers_intent [OF w st] merge
        lowers_then [OF lowers_completed [OF w]] keeps_rules) (auto dest: pin_gate_true)
qed

section \<open>Activation, attempts and escalation\<close>

lemma lowers_activate:
  assumes T: "complete_tables (o_tables self)" and p: "proj_ok (o_tables self) p" "issues_named p"
    and i: "map_of (issues p) i = Some PENDING"
  shows "lowers self k m p (activate self i)"
proof -
  have e: "issue_execs p i = []" using p(1) i by (auto simp: proj_ok_def linked_def)
  have "lowers self k m p (emit_event self ISSUE_ACTIVATED i [(''base_commit'', JStr b)] None)" for b
  proof (rule lowers_quiet)
    fix ev assume "event_like ISSUE_ACTIVATED i [(''base_commit'', JStr b)] None ev"
    then have ev: "etype ev = ISSUE_ACTIVATED" "issue_id ev = JStr i" by (simp_all add: event_like_def)
    have "i \<noteq> []" using p(2) i by (auto simp: issues_named_def)
    then obtain p' where "apply_event (o_tables self) ev p = Inr p'" "issue_moved p i ACTIVE p'"
      using issue_event_applies [of "o_tables self" PENDING ev _ ACTIVE p i] complete_rows(1) [OF T] i ev by auto
    then show "\<exists>p'. apply_event (o_tables self) ev p = Inr p' \<and> rank (cap_of self) p' < rank (cap_of self) p"
      using rank_issue_moved [of p i ACTIVE p' PENDING "cap_of self"] p(1) i e by (auto simp: proj_ok_def)
  qed (use T in \<open>simp_all add: stored_JObj\<close>)
  then show ?thesis unfolding activate_def
    by (intro lowers_after keeps_loop_repo lowers_option lowers_throw)
qed

lemma evidence_stored: "evidence_refs self i s = (Inr v, s') \<Longrightarrow> stored v"
  by (auto simp: evidence_refs_def andthen_eq)

lemma lowers_escalate:
  assumes "complete_tables (o_tables self)" and "keys_ok p" "issues_named p" and "map_of (issues p) i = Some ACTIVE"
    and "c \<in> {''needs-human'', ''needs-decomposition''}"
  shows "lowers self k m p (escalate self i r c)"
proof -
  have "keeps (\<lambda>s. loop_inv self k m s \<and> rt_proj s = p) (evidence_refs self i)"
    unfolding evidence_refs_def by (intro keeps_rules) simp
  then show ?thesis unfolding escalate_def
    by (rule lowers_known [where R = stored]) (erule evidence_stored, rule lowers_escalated, use assms in auto)
qed

lemma attempts_named_snoc:
  "attempts_named p \<Longrightarrow> issue_execs p' = (issue_execs p)(i := issue_execs p i @ [attempt_id i (attempts p i + 1)]) \<Longrightarrow>
   attempts_named p'"
  by (auto simp: attempts_named_def attempts_def nth_append less_Suc_eq)

lemma triple_spawned:
  assumes T: "complete_tables (o_tables self)" and p: "proj_ok (o_tables self) p" "issues_named p"
    and i: "map_of (issues p) i = Some ACTIVE" and a: "attempts p i < cap_of self"
    and l: "\<And>v. latest_execution p i = Some v \<Longrightarrow> x_state v \<in> {REJECTED, CRASHED}"
  shows "triple (\<lambda>s. (loop_inv self k m s \<and> rt_proj s = p) \<and> executions_started (lp_budget s) < m)
     (andthen (emit_event self EXECUTION_SPAWNED i (spawn_payload self prev prompt us) (Some (attempt_id i (attempts p i + 1))))
        (\<lambda>_. modify (\<lambda>s. s\<lparr>lp_budget := note_execution_started (lp_budget s)\<rparr>)))
     (\<lambda>_ s. loop_inv self k m s \<and> rank (cap_of self) (rt_proj s) < rank (cap_of self) p) (\<lambda>_. loop_inv self k m)"
proof (rule triple_total)
  let ?x = "attempt_id i (attempts p i + 1)" and ?pl = "spawn_payload self prev prompt us"
  fix s assume s: "(loop_inv self k m s \<and> rt_proj s = p) \<and> executions_started (lp_budget s) < m"
  then have sync: "in_sync (o_tables self) s" and named: "attempts_named p" by (auto simp: loop_inv_def)
  have fresh: "map_of (executions p) ?x = None"
    using attempt_id_fresh [OF named] p(1) by (simp add: proj_ok_def)
  have n: "i \<noteq> []" "?x \<noteq> []" using p(2) i by (auto simp: issues_named_def attempt_id_def)
  have over: "EXECUTION_TERMINAL (o_tables self) (x_state v)" if "latest_execution p i = Some v" for v
    using l [OF that] complete_doc03 [OF T] by (auto simp: doc03_tables_def)
  have u: "\<exists>us'. jget ?pl ''pre_execution_untracked'' = JArr us'" by (simp add: spawn_payload_def jget_def)
  have applies: "\<exists>p' v. apply_event (o_tables self) ev p = Inr p' \<and> exec_added p i ?x v p' \<and> x_state v = EXECUTING"
    if "event_like EXECUTION_SPAWNED i ?pl (Some ?x) ev" for ev
  proof -
    have ev: "issue_id ev = JStr i" "execution_id ev = JStr ?x" "etype ev = EXECUTION_SPAWNED" "payload ev = ?pl"
      using that by (simp_all add: event_like_def jopt_def)
    obtain us' where "jget (payload ev) ''pre_execution_untracked'' = JArr us'" using u ev(4) by auto
    then show ?thesis using spawn_event_applies [OF i n(1) ev(1) fresh n(2) ev(2) over ev(3)] by blast
  qed
  obtain ev s1 where e: "emit_event self EXECUTION_SPAWNED i ?pl (Some ?x) s = (Inr (), s1)"
    "event_like EXECUTION_SPAWNED i ?pl (Some ?x) ev" "in_sync (o_tables self) s1"
    "apply_event (o_tables self) ev (rt_proj s) = Inr (rt_proj s1)"
    "writer_contents (rt_log s1) = writer_contents (rt_log s) @ [ev]" "lp_budget s1 = lp_budget s"
    using emit_event_ok [OF sync stored_spawned, where t = EXECUTION_SPAWNED and issue = i and xid = "Some ?x"] applies s by blast
  obtain v where v: "exec_added p i ?x v (rt_proj s1)" "x_state v = EXECUTING"
    using applies [OF e(2)] e(4) s by auto
  let ?s = "s1\<lparr>lp_budget := note_execution_started (lp_budget s1)\<rparr>"
  have et: "etype ev = EXECUTION_SPAWNED" using e(2) by (simp add: event_like_def)
  have "attempts_named (rt_proj s1)" using v(1) by (intro attempts_named_snoc [OF named]) (simp add: exec_added_def)
  moreover have "commits_pinned (writer_contents (rt_log s1))"
    using s e(5) et by (simp add: loop_inv_def each_snoc pinned_by_other)
  moreover have "spawned [ev] = 1" using et by (simp add: spawned_def)
  moreover have "grown k (writer_contents (rt_log s1))"
    unfolding e(5) by (rule grown_snoc) (use s et in \<open>simp_all add: loop_inv_def\<close>)
  moreover have "closed_kept self k (writer_contents (rt_log s1))"
    unfolding e(5) by (rule closed_kept_append) (use s et in \<open>simp_all add: loop_inv_def neutral_def ending_def\<close>)
  ultimately have "loop_inv self k m ?s"
    using s e(3,5,6) by (auto simp: loop_inv_def in_sync_def note_execution_started_def)
  moreover have "rank (cap_of self) (rt_proj s1) < rank (cap_of self) p"
    using rank_exec_added [OF v(1) _ _ i fresh v(2) a] p(1) by (simp add: proj_ok_def)
  ultimately show "\<exists>a s'. andthen (emit_event self EXECUTION_SPAWNED i ?pl (Some ?x))
        (\<lambda>_. modify (\<lambda>s. s\<lparr>lp_budget := note_execution_started (lp_budget s)\<rparr>)) s = (Inr a, s') \<and>
      loop_inv self k m s' \<and> rank (cap_of self) (rt_proj s') < rank (cap_of self) p"
    using e(1) by (simp add: andthen_def)
qed

lemma triple_after:
  "keeps P c \<Longrightarrow> (\<And>e s. P s \<Longrightarrow> E e s) \<Longrightarrow> (\<And>a. triple P (f a) Q E) \<Longrightarrow> triple P (andthen c f) Q E"
  by (rule triple_andthen [OF keeps_triple])

lemma lowers_spawn:
  assumes T: "complete_tables (o_tables self)" and p: "proj_ok (o_tables self) p" "issues_named p"
    and i: "map_of (issues p) i = Some ACTIVE"
    and l: "\<And>v. latest_execution p i = Some v \<Longrightarrow> x_state v \<in> {REJECTED, CRASHED}"
  shows "lowers self k m p (spawn_or_escalate self i prev)"
proof -
  have esc: "lowers self k m p (escalate self i r ''needs-human'')" for r
    using p i by (intro lowers_escalate T) (simp_all add: proj_ok_def)
  have "lowers self k m p (andthen (gets lp_budget) (\<lambda>b. case budget_check b of
       Some stop \<Rightarrow> throw (BudgetExhausted stop) | None \<Rightarrow> spawn_execution self i prev p))"
    if a: "attempts p i < cap_of self"
    unfolding lowers_def
  proof (rule triple_gets_then)
    fix b
    let ?P = "\<lambda>s. (loop_inv self k m s \<and> rt_proj s = p) \<and> executions_started (lp_budget s) < m"
    have "triple ?P (spawn_execution self i prev p)
       (\<lambda>_ s. loop_inv self k m s \<and> rank (cap_of self) (rt_proj s) < rank (cap_of self) p) (\<lambda>_. loop_inv self k m)"
      unfolding spawn_execution_def Let_def
      by (intro triple_spawned triple_after T p i a l keeps_lift_prompt keeps_repo_call)
        (auto simp: write_prompt_def intro!: keepsI)
    then show "triple (\<lambda>s. (loop_inv self k m s \<and> rt_proj s = p) \<and> lp_budget s = b)
      (case budget_check b of Some stop \<Rightarrow> throw (BudgetExhausted stop) | None \<Rightarrow> spawn_execution self i prev p)
      (\<lambda>_ s. loop_inv self k m s \<and> rank (cap_of self) (rt_proj s) < rank (cap_of self) p) (\<lambda>_. loop_inv self k m)"
    proof (cases "budget_check b")
      case None
      then have "executions_started b < max_executions_per_run b" by (simp add: budget_check_def split: if_splits)
      then show ?thesis using None \<open>triple ?P _ _ _\<close>
        by (auto intro: triple_conseq simp: loop_inv_def)
    qed (auto intro: triple_throw)
  qed
  then show ?thesis unfolding spawn_or_escalate_def
    by (intro lowers_proj [where g = "\<lambda>q. q"] lowers_if lowers_lift esc) auto
qed

end
