(* ===== verification/LoopRun.thy ===== *)
theory LoopRun
  imports LoopInv
begin

text \<open>
  The engine's row, one step, and the run: the properties of the orchestrator as a whole.
\<close>

section \<open>Running the engine\<close>

text \<open>Containment facts leave issues and executions as they are.\<close>

definition same_work :: "projection \<Rightarrow> projection \<Rightarrow> bool" where
  "same_work p p' \<longleftrightarrow> issues p' = issues p \<and> executions p' = executions p \<and> issue_execs p' = issue_execs p"

lemma same_work_step: "proj_step T p e p' \<Longrightarrow> etype e \<in> containment_types \<Longrightarrow> same_work p p'"
  by (induction rule: proj_step.induct) (auto simp: same_work_def containment_types_def)

lemma same_work_rebuild:
  "rebuild T new p = Inr p' \<Longrightarrow> \<forall>e \<in> set new. etype e \<in> containment_types \<Longrightarrow> same_work p p'"
proof (induction new arbitrary: p)
  case (Cons e new)
  then obtain p1 where p1: "apply_event T e p = Inr p1" "rebuild T new p1 = Inr p'"
    by (auto simp: rebuild_Cons rbind_eq_Inr)
  have "proj_step T (note_event p e) e p1" using p1(1) by (simp add: apply_event_def handle_step)
  then have "same_work p p1" using same_work_step [of T "note_event p e" e p1] Cons.prems(2) by (simp add: same_work_def)
  then show ?case using Cons.IH [OF p1(2)] Cons.prems(2) by (simp add: same_work_def)
qed (simp add: same_work_def)

lemma engine_loop_inv:
  assumes e: "engine_ok self" and r: "run_engine self x prompt s = (r, s')" and s: "loop_inv self k m s"
  shows "loop_inv self k m s' \<and> same_work (rt_proj s) (rt_proj s') \<and>
    (\<forall>er. r = Inr er \<longrightarrow> stored (duration_s er) \<and> stored (JObj (usage er)) \<and> released_for self (rt_proj s') (JStr x))"
proof -
  have sync: "in_sync (o_tables self) s" using s by (simp add: loop_inv_def)
  have k: "in_sync (o_tables self) s'" "extends (\<lambda>e. etype e \<in> containment_types) s s'" "lp_budget s' = lp_budget s"
    "\<forall>er. r = Inr er \<longrightarrow> stored (duration_s er) \<and> stored (JObj (usage er))"
    using e [unfolded engine_ok_def] r sync by blast+
  obtain new where new: "writer_contents (rt_log s') = writer_contents (rt_log s) @ new"
    "\<forall>e \<in> set new. etype e \<in> containment_types" using k(2) by (auto simp: extends_def)
  have "rebuild (o_tables self) new (rt_proj s) = Inr (rt_proj s')"
    using sync k(1) new(1) by (simp add: in_sync_def rebuild_append)
  then have w: "same_work (rt_proj s) (rt_proj s')" using new(2) by (rule same_work_rebuild)
  have n: "\<forall>e \<in> set new. etype e \<noteq> COMMIT_INTENT \<and> etype e \<noteq> EXECUTION_SPAWNED"
    using new(2) by (auto simp: containment_types_def)
  have "commits_pinned (writer_contents (rt_log s'))"
    unfolding new(1) by (rule commits_pinned_append) (use n s in \<open>auto simp: loop_inv_def\<close>)
  moreover have "spawned new = 0" using n by (intro spawned_none) simp
  moreover have "grown k (writer_contents (rt_log s'))"
    unfolding new(1) by (rule grown_append) (use s new(2) in \<open>auto simp: loop_inv_def containment_types_def\<close>)
  moreover have "closed_kept self k (writer_contents (rt_log s'))"
  proof -
    have "closed_by (o_tables self) True key pre e" if "e \<in> set new" for e pre key
      using new(2) that by (auto simp: closed_by_def ending_def containment_types_def)
    moreover have "new = []" if "engine_contained self False key" for key
      using that r sync new(1) unfolding engine_contained_def by fastforce
    ultimately have "closed_kept self (writer_contents (rt_log s)) (writer_contents (rt_log s'))"
      unfolding closed_kept_def new(1) by (metis append.right_neutral closed_log_append)
    then show ?thesis by (rule closed_kept_trans [rotated]) (use s in \<open>simp add: loop_inv_def\<close>)
  qed
  moreover have "released_for self (rt_proj s') (JStr x)" if "r = Inr er" for er
    using r sync that unfolding released_for_def engine_contained_def by fastforce
  ultimately show ?thesis using s k new(1) w
    by (simp add: loop_inv_def same_work_def attempts_named_def attempts_def)
qed

lemma same_work_rank: "same_work p p' \<Longrightarrow> rank cap p' = rank cap p"
proof -
  assume s: "same_work p p'"
  then have "latest_execution p' = latest_execution p" by (intro latest_frame) (simp_all add: same_work_def)
  then have "issue_rank cap p' = issue_rank cap p"
    using s by (intro ext issue_rank_cong) (simp_all add: same_work_def attempts_def)
  then show ?thesis using s by (simp add: rank_def same_work_def)
qed

lemma same_work_working:
  assumes "working T p i v" and "same_work p p'" and "proj_facts T es p'"
  shows "working T p' i v"
proof -
  have "latest_execution p' = latest_execution p" using assms(2) by (intro latest_frame) (simp_all add: same_work_def)
  then show ?thesis using assms by (simp add: working_def same_work_def proj_facts_def)
qed

lemma triple_engine:
  assumes "engine_ok self"
  shows "triple (\<lambda>s. loop_inv self k m s \<and> rt_proj s = p) (call_engine self x prompt)
    (\<lambda>er s. (loop_inv self k m s \<and> same_work p (rt_proj s)) \<and> stored (duration_s er) \<and> stored (JObj (usage er)) \<and>
      released_for self (rt_proj s) (JStr x))
    (\<lambda>_. loop_inv self k m)"
  using engine_loop_inv [OF assms]
  by (fastforce simp: triple_def call_engine_def split: prod.splits sum.splits engine_error.splits)

subsection \<open>The finish of an execution\<close>

lemma jget_finished:
  "jget (finished_payload self base end r None) ''outcome'' = JNull"
  "jget (finished_payload self base end r (Some c)) ''outcome'' = JStr ''REJECTED''"
  by (simp_all add: finished_payload_def jget_def)

lemma triple_finish:
  assumes w: "working (o_tables self) p i v" and st: "x_state v = EXECUTING" "\<not> commit_intended v"
    and r: "stored (duration_s r)" "stored (JObj (usage r))" and free: "released_for self p (JStr (x_execution_id v))"
  shows "triple (\<lambda>s. loop_inv self k m s \<and> rt_proj s = p) (finish self i v (JStr b) end r rej)
    (\<lambda>_ s. loop_inv self k m s \<and> onward self p (rt_proj s)) (\<lambda>_. loop_inv self k m)"
proof -
  let ?pl = "finished_payload self (JStr b) end r rej"
  obtain fn where fn: "EXECUTION_TRANSITIONS (o_tables self) (EXECUTING, EXECUTION_FINISHED) = Some fn"
    "\<And>pl. jget pl ''outcome'' = JStr ''REJECTED'' \<Longrightarrow> fn pl = Inr REJECTED"
    "\<And>pl. jget pl ''outcome'' = JNull \<Longrightarrow> fn pl = Inr VALIDATING"
    using workingD(9) [OF w] by (auto simp: complete_tables_def)
  have f: "fn ?pl = Inr (if rej = None then VALIDATING else REJECTED)"
    using fn(2,3) by (cases rej) (simp_all add: jget_finished)
  show ?thesis unfolding finish_def
  proof (rule triple_exec_event [OF w, where fn = fn])
    show "stored (JObj ?pl)" by (rule stored_finished [OF r]) simp
  qed (use fn(1) f st free in \<open>auto simp: annotate_total view_rank_def\<close>)
qed

lemma keeps_fact [keeps_rules]: "(\<And>s w. P s \<Longrightarrow> P (s\<lparr>rt_world := w\<rparr>)) \<Longrightarrow> keeps P (evidence_refs self i)"
  unfolding evidence_refs_def by (intro keeps_rules)

text \<open>A second event, from whatever projection the first one led to.\<close>

lemma lowers_again:
  assumes T: "complete_tables (o_tables self)"
    and c: "triple (\<lambda>s. loop_inv self k m s \<and> rt_proj s = p) c
      (\<lambda>_ s. loop_inv self k m s \<and> onward self p (rt_proj s)) (\<lambda>_. loop_inv self k m)"
    and f: "\<And>q a es. onward self p q \<Longrightarrow> proj_facts (o_tables self) es q \<Longrightarrow> lowers self k m q (f a)"
  shows "lowers self k m p (andthen c f)"
proof -
  have "triple (\<lambda>s. loop_inv self k m s \<and> onward self p (rt_proj s)) (f a)
     (\<lambda>_ s. loop_inv self k m s \<and> rank (cap_of self) (rt_proj s) < rank (cap_of self) p) (\<lambda>_. loop_inv self k m)" for a
  proof (rule tripleI)
    fix s b s' assume s: "loop_inv self k m s \<and> onward self p (rt_proj s)" and r: "f a s = (Inr b, s')"
    have "lowers self k m (rt_proj s) (f a)"
      by (rule f) (use s in_sync_facts [OF T] in \<open>auto simp: loop_inv_def\<close>)
    from tripleD(1) [OF this [unfolded lowers_def] _ r] s
    show "loop_inv self k m s' \<and> rank (cap_of self) (rt_proj s') < rank (cap_of self) p"
      by (auto simp: onward_def)
  next
    fix s e s' assume s: "loop_inv self k m s \<and> onward self p (rt_proj s)" and r: "f a s = (Inl e, s')"
    have "lowers self k m (rt_proj s) (f a)"
      by (rule f) (use s in_sync_facts [OF T] in \<open>auto simp: loop_inv_def\<close>)
    from tripleD(2) [OF this [unfolded lowers_def] _ r] s show "loop_inv self k m s'" by simp
  qed
  then show ?thesis unfolding lowers_def by (rule triple_andthen [OF c])
qed

lemma lowers_route:
  assumes w: "working (o_tables self) p i v" and st: "x_state v = EXECUTING" "\<not> commit_intended v"
    and r: "stored (duration_s r)" "stored (JObj (usage r))" and free: "released_for self p (JStr (x_execution_id v))"
  shows "lowers self k m p (route_finish self i v (JStr b) end r)"
proof -
  note fin = triple_finish [OF w st r free]
  note low = onward_lowers [OF fin]
  have decomposed: "lowers self k m p (andthen (finish self i v (JStr b) end r (Some ''needs-decomposition'')) (\<lambda>_.
        andthen (escalate self i ''decompose'' ''needs-decomposition'') (\<lambda>_. reset_to self (JStr b))))"
  proof (rule lowers_again [OF workingD(9) [OF w] fin])
    fix q es assume "onward self p q" "proj_facts (o_tables self) es q"
    then show "lowers self k m q (andthen (escalate self i ''decompose'' ''needs-decomposition'') (\<lambda>_. reset_to self (JStr b)))"
      using workingD(10) [OF w]
      by (intro lowers_then [OF lowers_escalate] keeps_reset workingD(9) [OF w])
        (simp_all add: onward_def proj_facts_def proj_ok_def)
  qed
  show ?thesis unfolding route_finish_def
    by (intro lowers_if low decomposed lowers_then [OF low] keeps_reset)
qed

lemma lowers_engine:
  assumes T: "complete_tables (o_tables self)" and e: "engine_ok self"
    and f: "\<And>q es r. same_work p q \<Longrightarrow> proj_facts (o_tables self) es q \<Longrightarrow> stored (duration_s r) \<Longrightarrow>
      stored (JObj (usage r)) \<Longrightarrow> released_for self q (JStr x) \<Longrightarrow> lowers self k m q (f r)"
  shows "lowers self k m p (andthen (call_engine self x prompt) f)"
  unfolding lowers_def
proof (rule triple_andthen [OF triple_engine [OF e]], rule tripleI)
  fix r s a s' assume s: "(loop_inv self k m s \<and> same_work p (rt_proj s)) \<and> stored (duration_s r) \<and> stored (JObj (usage r)) \<and>
      released_for self (rt_proj s) (JStr x)"
    and r: "f r s = (Inr a, s')"
  have "lowers self k m (rt_proj s) (f r)"
    by (rule f) (use s in_sync_facts [OF T] in \<open>auto simp: loop_inv_def\<close>)
  from tripleD(1) [OF this [unfolded lowers_def] _ r] s
  show "loop_inv self k m s' \<and> rank (cap_of self) (rt_proj s') < rank (cap_of self) p"
    using same_work_rank [of p "rt_proj s" "cap_of self"] by simp
next
  fix r s e s' assume s: "(loop_inv self k m s \<and> same_work p (rt_proj s)) \<and> stored (duration_s r) \<and> stored (JObj (usage r)) \<and>
      released_for self (rt_proj s) (JStr x)"
    and r: "f r s = (Inl e, s')"
  have "lowers self k m (rt_proj s) (f r)"
    by (rule f) (use s in_sync_facts [OF T] in \<open>auto simp: loop_inv_def\<close>)
  from tripleD(2) [OF this [unfolded lowers_def] _ r] s show "loop_inv self k m s'" by simp
qed

lemma lowers_execute:
  assumes w: "working (o_tables self) p i v" and c: "collaborators_ok self" and st: "x_state v = EXECUTING"
  shows "lowers self k m p (execute self i v)"
proof -
  have e: "engine_ok self" using c by (simp add: collaborators_ok_def)
  have "exec_ok (x_execution_id v) v"
    using w workingD(1) [OF w] by (auto simp: working_def proj_ok_def execs_ok_def)
  then have ni: "\<not> commit_intended v" using st by (auto simp: exec_ok_def)
  have prompt: "keeps (\<lambda>s. loop_inv self k m s \<and> rt_proj s = p) (ensure_prompt self i x)" for x
    unfolding ensure_prompt_def by (intro keeps_rules)
  have residue: "keeps (\<lambda>s. loop_inv self k m s \<and> rt_proj s = q) (residue_commit (o_env self) sha)" for q sha
    unfolding residue_commit_def by (intro keeps_rules) simp_all
  have usage: "keeps (\<lambda>s. loop_inv self k m s \<and> rt_proj s = q) (note_usage u)" for q u
    by (rule keepsI) (auto simp: note_usage_def record_usage_def rbind_eq_Inr loop_inv_def in_sync_def
      split: sum.split option.splits if_splits)
  have rest: "lowers self k m q (after_engine self i v (JStr b) r)"
    if "same_work p q" "proj_facts (o_tables self) es q" "stored (duration_s r)" "stored (JObj (usage r))"
      "released_for self q (JStr (x_execution_id v))" for q es b r
    unfolding after_engine_def
    by (intro lowers_after keeps_loop_repo residue usage lowers_route [OF same_work_working [OF w that(1,2)] st ni that(3-5)])
  have "lowers self k m p (if base = JNull then throw (OrchestratorHalt NoBaseCommit)
     else andthen (lift (str_arg base)) (\<lambda>b.
     andthen (repo_call (checkout_branch (o_env self) (''issue/'' @ i) (Some b))) (\<lambda>_.
     andthen (ensure_prompt self i (x_execution_id v)) (\<lambda>prompt.
     andthen (call_engine self (x_execution_id v) prompt) (\<lambda>r. after_engine self i v base r)))))" for base
  proof (cases "\<exists>b. base = JStr b")
    case True
    then obtain b where b: "base = JStr b" by blast
    show ?thesis unfolding b
      by (intro lowers_if lowers_throw lowers_lift lowers_after [OF keeps_loop_repo] lowers_after [OF prompt]
          lowers_engine [OF workingD(9) [OF w] e rest])
  next
    case False
    then have "str_arg base = Inl ArgumentTypeError" by (auto simp: str_arg_def split: json.splits)
    then show ?thesis by (intro lowers_if lowers_throw lowers_lift) simp
  qed
  then show ?thesis unfolding execute_def by (rule lowers_proj [where g = "\<lambda>p. base_of p i v"])
qed

section \<open>A step\<close>

lemma lowers_step:
  assumes c: "collaborators_ok self" and f: "proj_facts (o_tables self) es p"
  shows "lowers self k m p (step self i)"
proof -
  have T: "complete_tables (o_tables self)" using c by (simp add: collaborators_ok_def)
  have p: "proj_ok (o_tables self) p" "issues_named p" using f by (simp_all add: proj_facts_def)
  have "lowers self k m p (case latest_execution p i of None \<Rightarrow> spawn_or_escalate self i None
      | Some v \<Rightarrow> move_execution_on self i v)" if i: "map_of (issues p) i = Some ACTIVE"
  proof (cases "latest_execution p i")
    case None
    then show ?thesis using lowers_spawn [OF T p i] by simp
  next
    case (Some v)
    then have w: "working (o_tables self) p i v" using T f i by (simp add: working_def proj_facts_def)
    have spawn: "lowers self k m p (spawn_or_escalate self i (Some v))" if "x_state v \<in> {REJECTED, CRASHED}"
      by (rule lowers_spawn [OF T p i]) (use that Some in simp)
    show ?thesis using Some
      by (cases "x_state v") (simp_all add: move_execution_on_def spawn lowers_execute [OF w c]
          lowers_validate [OF w c] lowers_review [OF w c] lowers_commit [OF w] lowers_throw)
  qed
  then have "lowers self k m p (case map_of (issues p) i of
       Some PENDING \<Rightarrow> activate self i
     | Some ACTIVE \<Rightarrow> (case latest_execution p i of
         None \<Rightarrow> spawn_or_escalate self i None
       | Some ex \<Rightarrow> move_execution_on self i ex)
     | _ \<Rightarrow> throw (OrchestratorHalt NotActionable))"
    using lowers_activate [OF T p] by (auto simp: lowers_throw split: option.split issue_state.split)
  then show ?thesis unfolding step_def by (rule lowers_proj [where g = "\<lambda>q. q", simplified])
qed

lemma step_result:
  assumes "collaborators_ok self" and "loop_inv self k m s"
  shows "loop_inv self k m (snd (step self i s)) \<and>
    (\<forall>a s'. step self i s = (Inr a, s') \<longrightarrow> rank (cap_of self) (rt_proj s') < rank (cap_of self) (rt_proj s))"
proof -
  have T: "complete_tables (o_tables self)" using assms(1) by (simp add: collaborators_ok_def)
  have "lowers self k m (rt_proj s) (step self i)"
    by (rule lowers_step [OF assms(1) in_sync_facts [OF T]]) (use assms(2) in \<open>simp add: loop_inv_def\<close>)
  then show ?thesis using assms(2) by (cases "step self i s"; cases "fst (step self i s)")
      (fastforce simp: lowers_def dest: tripleD)+
qed

section \<open>The run\<close>

lemma run_result:
  assumes c: "collaborators_ok self"
  shows "loop_inv self k m s \<Longrightarrow> \<exists>r s'. run self s = Some (r, s') \<and> loop_inv self k m s' \<and>
    (r = Inr QueueDrained \<longrightarrow> next_actionable self (rt_proj s') = Inr None)"
proof (induction "rank (cap_of self) (rt_proj s)" arbitrary: s rule: less_induct)
  case less
  note eq = run.simps [of self s]
  show ?case
  proof (cases "next_actionable self (rt_proj s)")
    case (Inl e)
    then show ?thesis using eq less.prems by simp
  next
    case (Inr n)
    show ?thesis
    proof (cases n)
      case None
      then show ?thesis using Inr eq less.prems by simp
    next
      case (Some i)
      obtain r s1 where s1: "step self i s = (r, s1)" by (cases "step self i s")
      note st = step_result [OF c less.prems, of i, unfolded s1 snd_conv]
      show ?thesis
      proof (cases r)
        case (Inr u)
        then have "run self s = run self s1" using eq s1 Some \<open>next_actionable self (rt_proj s) = Inr n\<close> by simp
        moreover have "rank (cap_of self) (rt_proj s1) < rank (cap_of self) (rt_proj s)"
          using st Inr s1 by blast
        ultimately show ?thesis using less.hyps [of s1] st by auto
      next
        case (Inl e)
        then show ?thesis using eq s1 Some \<open>next_actionable self (rt_proj s) = Inr n\<close> st
          by (cases e) auto
      qed
    qed
  qed
qed

section \<open>What is chosen\<close>

lemma scan_chooses:
  "scan_issues p allowed iss = Inr (Some i) \<Longrightarrow> \<exists>st. (i, st) \<in> set iss \<and>
     (case allowed of None \<Rightarrow> True | Some ids \<Rightarrow> i \<in> set ids) \<and>
     (st = ACTIVE \<or> st = PENDING \<and> deps_met p i = Inr True)"
proof (induction iss)
  case (Cons e iss)
  obtain iid st where e: "e = (iid, st)" by (cases e)
  from Cons.prems consider "iid = i" "st = ACTIVE \<or> st = PENDING \<and> deps_met p i = Inr True"
      "case allowed of None \<Rightarrow> True | Some ids \<Rightarrow> i \<in> set ids"
    | "scan_issues p allowed iss = Inr (Some i)"
    unfolding e by (auto simp: rbind_eq_Inr split: if_splits option.splits)
  then show ?case using Cons.IH e by cases auto
qed simp

lemma scan_exhausted:
  "scan_issues p allowed iss = Inr None \<Longrightarrow> (i, st) \<in> set iss \<Longrightarrow>
     (case allowed of None \<Rightarrow> True | Some ids \<Rightarrow> i \<in> set ids) \<Longrightarrow>
     st \<noteq> ACTIVE \<and> (st = PENDING \<longrightarrow> deps_met p i = Inr False)"
proof (induction iss)
  case (Cons e iss)
  obtain iid st' where e: "e = (iid, st')" by (cases e)
  from Cons.prems(1) have n: "scan_issues p allowed iss = Inr None"
    and h: "(case allowed of None \<Rightarrow> True | Some ids \<Rightarrow> iid \<in> set ids) \<Longrightarrow>
      st' \<noteq> ACTIVE \<and> (st' = PENDING \<longrightarrow> deps_met p iid = Inr False)"
    unfolding e by (auto simp: rbind_eq_Inr split: if_splits option.splits)
  show ?case using Cons.IH [OF n] Cons.prems(2,3) h e by auto
qed simp

section \<open>The prompt survives the spawn\<close>

lemma rmap_append: "rmap f (xs @ ys) = rbind (rmap f xs) (\<lambda>a. rbind (rmap f ys) (\<lambda>b. Inr (a @ b)))"
proof (induction xs)
  case Nil
  show ?case by (cases "rmap f ys") auto
next
  case (Cons x xs)
  then show ?case by (cases "f x"; cases "rmap f xs"; cases "rmap f ys") auto
qed

lemma rmap_cong: "(\<And>x. x \<in> set xs \<Longrightarrow> f x = g x) \<Longrightarrow> rmap f xs = rmap g xs"
  by (induction xs) (auto cong: rbind_cong)

lemma feedback_new: "feedback_group (new_execution_view x i st base pre) = Inr []"
  by (simp add: feedback_group_def new_execution_view_def truthy_def)

lemma feedback_spawn:
  assumes "map_of (executions p) x = None" and "linked p"
  shows "accumulated_feedback (p\<lparr>executions := AList.update x (new_execution_view x i EXECUTING base pre) (executions p),
      issue_executions := AList.update i (issue_execs p i @ [x]) (issue_executions p)\<rparr>) j = accumulated_feedback p j"
proof -
  let ?v = "new_execution_view x i EXECUTING base pre"
  let ?f = "\<lambda>e y. case map_of e y of None \<Rightarrow> Inl PromptTypeError | Some view \<Rightarrow> feedback_group view"
  have "x \<notin> set (issue_execs p j)" for j using assms by (auto simp: linked_def)
  then have old: "rmap (?f (AList.update x ?v (executions p))) (issue_execs p j) = rmap (?f (executions p)) (issue_execs p j)" for j
    by (intro rmap_cong) (auto simp del: lookup_update simp: lookup_update)
  have "rmap (?f (AList.update x ?v (executions p))) [x] = Inr [[]]" by (simp add: feedback_new)
  with old [of j] show ?thesis unfolding accumulated_feedback_def issue_execs_update
    by (cases "j = i"; cases "rmap (?f (executions p)) (issue_execs p j)") (simp_all add: rmap_append del: rmap.simps)
qed

lemma prompt_cong:
  "p_issue_meta p' = p_issue_meta p \<Longrightarrow> accumulated_feedback p' i = accumulated_feedback p i \<Longrightarrow>
   build_prompt p' i cmds = build_prompt p i cmds"
  by (simp add: build_prompt_def meta_of_def)

section \<open>Properties\<close>

definition fresh_run :: "'w orchestrator \<Rightarrow> 'w lp \<Rightarrow> bool" where
  "fresh_run self s \<longleftrightarrow> in_sync (o_tables self) s \<and> attempts_named (rt_proj s) \<and>
     commits_pinned (writer_contents (rt_log s)) \<and> executions_started (lp_budget s) = 0"

lemma fresh_inv:
  "fresh_run self s \<Longrightarrow>
   loop_inv self (writer_contents (rt_log s)) (max_executions_per_run (lp_budget s)) s"
  by (simp add: fresh_run_def loop_inv_def)

definition sample_result :: engine_result where
  "sample_result = \<lparr>exit_status = 0, timed_out = False, duration_s = JFloat ''1.5'', usage = [(''dollars'', JInt 1)],
     num_turns = Some 3, transcript_path = ''t.jsonl''\<rparr>"

text \<open>One configuration whose every collaborator succeeds, for the witnesses.\<close>

definition sample_loop :: "'w orchestrator" where
  "sample_loop = \<lparr>o_env = sample_env,
     o_os = \<lparr>is_windows = False, monotonic = ret (Fin 0), environ = (\<lambda>_. []), spawn = (\<lambda>_ _ _ _ _. ret (Some 0)),
       write_file = (\<lambda>_ _ _. ret ()), repr_float = (\<lambda>_. ''0.0'')\<rparr>,
     o_validator = \<lparr>v_commands = [''make test''], v_timeout = 600, v_artifacts_dir = ''a'', v_env = []\<rparr>,
     target = ''main'', workspace = ''w'', validation_commands = [''make test''], new_test_pattern = None,
     new_test_command_prefix = None, max_attempts_per_issue = 2, engine_provider = ''claude-headless'',
     engine_timeout = 1800, max_turns = 30, o_pid = 1, o_run_id = ''r'', allowed_issue_ids = None,
     selection_order = None, selection_dependencies = None, prompt_hash = (\<lambda>_. ''h''),
     run_engine = (\<lambda>_ _. ret sample_result),
     review_call = (\<lambda>_. ret \<lparr>approved = True, provider = ''qwen'', severity = ''blocking'', v_feedback = []\<rparr>)\<rparr>"

lemma sample_loop_ok: "collaborators_ok sample_loop"
proof -
  have "float_lexeme ''0.0''" "float_lexeme ''1.5''" by code_simp+
  then have f: "stored (JFloat ''0.0'')" "stored (JFloat ''1.5'')" by (simp_all add: stored_def)
  have u: "stored (JObj [(''dollars'', JInt 1)])" by (rule stored_JObj) simp_all
  show ?thesis using doc03_complete f u
    by (auto simp: collaborators_ok_def engine_ok_def reviewer_ok_def sample_loop_def sample_env_def sample_result_def)
qed

definition sample_lp :: "event list \<Rightarrow> projection \<Rightarrow> unit lp" where
  "sample_lp es p = \<lparr>rt_log = log_of es, rt_proj = p, rt_world = (), lp_budget = new_budget 5 (Fin 10), lp_prompts = []\<rparr>"

definition sample_created :: "event list" where
  "sample_created = take 1 sample_log"

definition sample_start :: projection where
  "sample_start = \<lparr>issues = [(''i1'', PENDING)], executions = [], issue_executions = [], issue_base_commit = [],
     issue_depends_on = [], p_issue_meta = [(''i1'', \<lparr>m_title = JStr ''t'', m_body = JStr [], m_acceptance_criteria = JArr []\<rparr>)],
     containments = [], last_event_id = 1, counts = [(''IssueCreated'', 1)]\<rparr>"

lemma sample_start_replay: "rebuild doc03 sample_created empty_projection = Inr sample_start"
  by (simp add: sample_created_def sample_log_def sample_event_def rebuild_Cons apply_event_def handle_def
      h_issue_created_def need_issue_def need_def refuse_if_def note_event_def empty_projection_def json_or_def
      truthy_def jget_def count_of_def sample_start_def)

lemma sample_fresh: "fresh_run sample_loop (sample_lp sample_created sample_start)"
proof -
  have "storable sample_created" unfolding storable_def canonical_def sample_created_def by code_simp
  then have "in_sync doc03 (sample_lp sample_created sample_start)"
    using log_of_ok sample_start_replay by (simp add: in_sync_def sample_lp_def)
  moreover have "commits_pinned sample_created"
    using each_snoc [of pinned_by "[]" "sample_event ISSUE_CREATED JNull [(''title'', JStr ''t'')] 1"]
    by (simp add: sample_created_def sample_log_def sample_event_def pinned_by_def)
  ultimately show ?thesis using log_of_ok [OF \<open>storable sample_created\<close>]
    by (simp add: fresh_run_def sample_loop_def sample_env_def sample_lp_def attempts_named_def attempts_def
        sample_start_def issue_execs_def new_budget_def)
qed

text \<open>A log whose one issue is done, for the witnesses of what a finished run leaves.\<close>

lemma sample_log_length: "length sample_log = 11"
  by (simp add: sample_log_def)

lemma sample_log_pinned: "commits_pinned sample_log"
  unfolding each_def
proof (intro allI impI)
  fix pre e post assume s: "sample_log = pre @ e # post"
  let ?k = "length pre"
  have "?k < length sample_log" "e = sample_log ! ?k" "pre = take ?k sample_log" unfolding s by simp_all
  then have k: "?k < 11" "e = sample_log ! ?k" "pre = take ?k sample_log" using sample_log_length by simp_all
  have "\<forall>k \<in> set [0..<11]. etype (sample_log ! k) = COMMIT_INTENT \<longrightarrow> k = 8" by code_simp
  then have "etype e = COMMIT_INTENT \<Longrightarrow> ?k = 8" using k by simp
  moreover have "pinned_by (take 8 sample_log) (sample_log ! 8)"
    by (simp add: pinned_by_def recorded_def sample_log_def sample_event_def jget_def truthy_def)
  ultimately show "pinned_by pre e" using k pinned_by_other by metis
qed

lemma sample_done:
  "\<exists>p. fresh_run sample_loop (sample_lp sample_log p) \<and> issues p = [(''i1'', DONE)] \<and>
     run sample_loop (sample_lp sample_log p) = Some (Inr QueueDrained, sample_lp sample_log p) \<and>
     writer_contents (log_of sample_log) = sample_log"
proof -
  obtain p where p: "rebuild doc03 sample_log empty_projection = Inr p" using sample_replays by blast
  have "(case rebuild doc03 sample_log empty_projection of Inl _ \<Rightarrow> False
     | Inr p \<Rightarrow> issues p = [(''i1'', DONE)] \<and> issue_executions p = [(''i1'', [''i1-e1'', ''i1-e2''])])" by code_simp
  then have i: "issues p = [(''i1'', DONE)]" "issue_executions p = [(''i1'', [''i1-e1'', ''i1-e2''])]" using p by simp_all
  have st: "storable sample_log" unfolding storable_def canonical_def by code_simp
  have "show_nat 1 = ''1''" "show_nat 2 = ''2''" by code_simp+
  then have "attempts_named p"
    using i(2) by (auto simp: attempts_named_def attempts_def issue_execs_def attempt_id_def nth_Cons' less_Suc_eq numeral_2_eq_2)
  then have "fresh_run sample_loop (sample_lp sample_log p)"
    using log_of_ok [OF st] p sample_log_pinned
    by (simp add: fresh_run_def in_sync_def sample_loop_def sample_env_def sample_lp_def new_budget_def)
  moreover have "run sample_loop (sample_lp sample_log p) = Some (Inr QueueDrained, sample_lp sample_log p)"
    using i(1) by (subst run.simps) (simp add: next_actionable_def sample_loop_def sample_lp_def)
  ultimately show ?thesis using i(1) log_of_ok [OF st] by blast
qed

text \<open>
  C1: every run ends. Whatever the repository, the engine, the reviewer and the validation commands
  answer, the loop returns a stop reason or leaves by an exception after finitely many steps, and the
  log it leaves replays to the projection it holds. \<open>None\<close> would be a loop that does not end.
\<close>

theorem run_ends:
  assumes "collaborators_ok self" and "fresh_run self s"
  shows "\<exists>r s'. run self s = Some (r, s') \<and> in_sync (o_tables self) s'"
  using run_result [OF assms(1) fresh_inv [OF assms(2)]] by (auto simp: loop_inv_def)

theorem run_ends_witness:
  "\<exists>r s'. run sample_loop (sample_lp sample_created sample_start) = Some (r, s') \<and> in_sync doc03 s'"
  using run_ends [OF sample_loop_ok sample_fresh] by (simp add: sample_loop_def sample_env_def)

text \<open>
  C17: every commit the loop intends is pinned: when a run of the loop is over, each \<open>CommitIntent\<close> in
  the log names a tree that, earlier in the log, the same execution finished at, validation passed at
  and the reviewer approved.
\<close>

theorem run_commits_pinned:
  assumes "collaborators_ok self" and "fresh_run self s" and "run self s = Some (r, s')"
    and "writer_contents (rt_log s') = pre @ e # post" and "etype e = COMMIT_INTENT"
  shows "\<exists>x c. execution_id e = JStr x \<and> jget (payload e) ''end_commit'' = c \<and> truthy c \<and>
    recorded pre EXECUTION_FINISHED x ''end_commit'' c \<and>
    recorded pre VALIDATION_PASSED x ''validated_commit'' c \<and>
    recorded pre REVIEW_APPROVED x ''reviewed_commit'' c"
  using run_result [OF assms(1) fresh_inv [OF assms(2)]] assms(3-5)
  by (auto simp: loop_inv_def each_def pinned_by_def)

theorem run_commits_pinned_witness:
  "\<exists>c. recorded (take 8 sample_log) VALIDATION_PASSED ''i1-e2'' ''validated_commit'' c"
proof -
  obtain p where p: "fresh_run sample_loop (sample_lp sample_log p)"
    "run sample_loop (sample_lp sample_log p) = Some (Inr QueueDrained, sample_lp sample_log p)"
    "writer_contents (rt_log (sample_lp sample_log p)) = sample_log"
    using sample_done by (auto simp: sample_lp_def)
  have e: "sample_log = take 8 sample_log @ (sample_log ! 8) # drop 9 sample_log" "etype (sample_log ! 8) = COMMIT_INTENT"
    "execution_id (sample_log ! 8) = JStr ''i1-e2''"
    by (simp_all add: sample_log_def sample_event_def)
  obtain x c where "execution_id (sample_log ! 8) = JStr x" "recorded (take 8 sample_log) VALIDATION_PASSED x ''validated_commit'' c"
    using run_commits_pinned [OF sample_loop_ok p(1,2) trans [OF p(3) e(1)] e(2)] by blast
  then show ?thesis using e(3) by auto
qed

text \<open>
  C26: a run starts no more executions than its budget allows, and the log it leaves replays strictly, to the projection
  it holds.
\<close>

theorem run_within_budget:
  assumes "collaborators_ok self" and "fresh_run self s" and "run self s = Some (r, s')"
  shows "spawned (writer_contents (rt_log s')) \<le>
    spawned (writer_contents (rt_log s)) + nat (max_executions_per_run (lp_budget s)) \<and>
    rebuild (o_tables self) (writer_contents (rt_log s')) empty_projection = Inr (rt_proj s')"
  using run_result [OF assms(1) fresh_inv [OF assms(2)]] assms(3) by (auto simp: loop_inv_def in_sync_def)

theorem run_within_budget_witness:
  "\<exists>r s'. run sample_loop (sample_lp sample_created sample_start) = Some (r, s') \<and>
     spawned (writer_contents (rt_log s')) \<le> spawned sample_created + 5 \<and>
     rebuild doc03 (writer_contents (rt_log s')) empty_projection = Inr (rt_proj s')"
proof -
  have "storable sample_created" unfolding storable_def canonical_def sample_created_def by code_simp
  then have "writer_contents (log_of sample_created) = sample_created" using log_of_ok by simp
  moreover obtain r s' where "run sample_loop (sample_lp sample_created sample_start) = Some (r, s')"
    using run_result [OF sample_loop_ok fresh_inv [OF sample_fresh]] by blast
  ultimately show ?thesis using run_within_budget [OF sample_loop_ok sample_fresh]
    by (fastforce simp: sample_lp_def new_budget_def sample_loop_def sample_env_def)
qed

text \<open>
  a step that raises leaves a log that replays; a step that returns brings the queue nearer to its
  end: the bound on the remaining steps is smaller after it.
\<close>

theorem step_progress:
  assumes "collaborators_ok self" and "fresh_run self s" and "step self i s = (r, s')"
  shows "in_sync (o_tables self) s' \<and>
    (is_ok r \<longrightarrow> rank (nat (max_attempts_per_issue self)) (rt_proj s') < rank (nat (max_attempts_per_issue self)) (rt_proj s))"
  using step_result [OF assms(1) fresh_inv [OF assms(2)], of i] assms(3)
  by (auto simp: loop_inv_def is_ok_iff)

theorem step_progress_witness:
  "\<exists>r s'. step sample_loop ''i1'' (sample_lp sample_created sample_start) = (r, s') \<and> in_sync doc03 s'"
proof -
  obtain r s' where "step sample_loop ''i1'' (sample_lp sample_created sample_start) = (r, s')" by fastforce
  with step_progress [OF sample_loop_ok sample_fresh this] show ?thesis by (simp add: sample_loop_def sample_env_def)
qed

text \<open>
  a run that reports a drained queue has drained it: without a selection, no issue is in flight
  and every pending one waits for a dependency that is not done.
\<close>

theorem run_drains_queue:
  assumes "collaborators_ok self" and "fresh_run self s" and "run self s = Some (Inr QueueDrained, s')"
    and "allowed_issue_ids self = None" and "(i, st) \<in> set (issues (rt_proj s'))"
  shows "st \<noteq> ACTIVE \<and> (st = PENDING \<longrightarrow> deps_met (rt_proj s') i = Inr False)"
proof -
  have "next_actionable self (rt_proj s') = Inr None"
    using run_result [OF assms(1) fresh_inv [OF assms(2)]] assms(3) by auto
  then have "scan_issues (rt_proj s') None (issues (rt_proj s')) = Inr None"
    using assms(4) by (simp add: next_actionable_def)
  then show ?thesis using scan_exhausted [OF _ assms(5)] by simp
qed

theorem run_drains_queue_witness:
  "\<exists>p. run sample_loop (sample_lp sample_log p) = Some (Inr QueueDrained, sample_lp sample_log p) \<and>
     (''i1'', DONE) \<in> set (issues p) \<and> DONE \<noteq> ACTIVE"
proof -
  obtain p where p: "fresh_run sample_loop (sample_lp sample_log p)" "issues p = [(''i1'', DONE)]"
    "run sample_loop (sample_lp sample_log p) = Some (Inr QueueDrained, sample_lp sample_log p)"
    using sample_done by blast
  have "allowed_issue_ids sample_loop = None" "(''i1'', DONE) \<in> set (issues (rt_proj (sample_lp sample_log p)))"
    using p(2) by (simp_all add: sample_loop_def sample_lp_def)
  from run_drains_queue [OF sample_loop_ok p(1,3) this] p(2,3) show ?thesis by auto
qed

text \<open>
  The loop only takes up an issue it may: one the selection allows, that is in flight already, or
  pending with every dependency done (those of the validated plan when there is one).
\<close>

theorem chosen_issue_allowed:
  assumes "next_actionable self p = Inr (Some i)"
    and "\<forall>order. selection_order self = Some order \<longrightarrow> set order \<subseteq> set (case allowed_issue_ids self of None \<Rightarrow> [] | Some ids \<Rightarrow> ids)"
  shows "(case allowed_issue_ids self of None \<Rightarrow> True | Some ids \<Rightarrow> i \<in> set ids) \<and>
    ((i, ACTIVE) \<in> set (issues p) \<or>
     (i, PENDING) \<in> set (issues p) \<and>
       (case (allowed_issue_ids self, selection_order self) of
          (Some _, Some _) \<Rightarrow> \<forall>d \<in> set (case selection_dependencies self of None \<Rightarrow> [] | Some deps \<Rightarrow>
            (case map_of deps i of None \<Rightarrow> [] | Some ds \<Rightarrow> ds)). map_of (issues p) d = Some DONE
        | _ \<Rightarrow> deps_met p i = Inr True))"
proof (cases "allowed_issue_ids self")
  case None
  then show ?thesis using assms(1) scan_chooses [of p None "issues p" i] by (auto simp: next_actionable_def)
next
  case (Some ids)
  show ?thesis
  proof (cases "selection_order self")
    case None
    then show ?thesis using assms(1) Some scan_chooses [of p "Some ids" "issues p" i] by (auto simp: next_actionable_def)
  next
    case order: (Some order)
    let ?deps = "case selection_dependencies self of None \<Rightarrow> [] | Some deps \<Rightarrow> deps"
    have n: "next_actionable_selected p ids order ?deps = Some i"
      using assms(1) Some order by (simp add: next_actionable_def)
    show ?thesis
    proof (cases "List.find (\<lambda>(iid, st). iid \<in> set ids \<and> st = ACTIVE) (issues p)")
      case None
      then have "List.find (\<lambda>iid. map_of (issues p) iid = Some PENDING \<and>
          (\<forall>d \<in> set (case map_of ?deps iid of None \<Rightarrow> [] | Some ds \<Rightarrow> ds). map_of (issues p) d = Some DONE)) order = Some i"
        using n by (simp add: next_actionable_selected_def)
      from find_SomeD [OF this] show ?thesis using Some order assms(2)
        by (auto dest: map_of_SomeD split: option.splits)
    next
      case (Some a)
      with find_SomeD [OF this] n \<open>allowed_issue_ids self = Some ids\<close> show ?thesis
        by (auto simp: next_actionable_selected_def)
    qed
  qed
qed

theorem chosen_issue_allowed_witness:
  "next_actionable (sample_loop :: unit orchestrator) sample_start = Inr (Some ''i1'') \<and> deps_met sample_start ''i1'' = Inr True"
proof -
  have n: "next_actionable (sample_loop :: unit orchestrator) sample_start = Inr (Some ''i1'')"
    by (simp add: next_actionable_def sample_loop_def sample_start_def deps_met_def)
  have "selection_order (sample_loop :: unit orchestrator) = None" "allowed_issue_ids (sample_loop :: unit orchestrator) = None"
    by (simp_all add: sample_loop_def)
  then have "(''i1'', ACTIVE) \<in> set (issues sample_start) \<or> deps_met sample_start ''i1'' = Inr True"
    using chosen_issue_allowed [OF n] by auto
  then show ?thesis using n by (simp add: sample_start_def)
qed

text \<open>
  the prompt is a function of the state that the spawn and the containment of an execution do not
  change, so the prompt rebuilt after a crash between spawn and engine is the one whose hash the spawn
  event recorded.
\<close>

theorem prompt_rebuilt:
  assumes "proj_ok T p" and "apply_event T ev p = Inr p'"
    and "etype ev \<in> insert EXECUTION_SPAWNED containment_types"
  shows "build_prompt p' i cmds = build_prompt p i cmds"
proof -
  have l: "linked (note_event p ev)" using assms(1) note_event_ok by (auto simp: proj_ok_def)
  have s: "proj_step T (note_event p ev) ev p'" using assms(2) by (simp add: apply_event_def handle_step)
  have "p_issue_meta p' = p_issue_meta (note_event p ev) \<and>
      accumulated_feedback p' i = accumulated_feedback (note_event p ev) i"
    using s l assms(3)
  proof (induction rule: proj_step.induct)
    case (spawn x j base pre)
    have "map_of (executions (note_event p ev)) x = None" using spawn.hyps(4) by simp
    from feedback_spawn [OF this spawn.prems(1), of j base pre i] show ?case by simp
  qed (auto simp: containment_types_def accumulated_feedback_def)
  then have "build_prompt p' i cmds = build_prompt (note_event p ev) i cmds" by (intro prompt_cong) auto
  also have "\<dots> = build_prompt p i cmds" by (rule prompt_cong) (simp_all add: accumulated_feedback_def note_event_def issue_execs_def)
  finally show ?thesis .
qed

theorem prompt_rebuilt_witness:
  "\<exists>p p'. rebuild doc03 (take 2 sample_log) empty_projection = Inr p \<and> apply_event doc03 (sample_log ! 2) p = Inr p' \<and>
     build_prompt p' ''i1'' [''make test''] = build_prompt p ''i1'' [''make test'']"
proof -
  have "is_ok (rebuild doc03 (take 2 sample_log @ [sample_log ! 2]) empty_projection)" by code_simp
  then obtain p p' where p: "rebuild doc03 (take 2 sample_log) empty_projection = Inr p"
    "apply_event doc03 (sample_log ! 2) p = Inr p'" by (auto simp: is_ok_iff rebuild_snoc rbind_eq_Inr)
  have "etype (sample_log ! 2) = EXECUTION_SPAWNED" by (simp add: sample_log_def sample_event_def)
  then show ?thesis using prompt_rebuilt [OF proj_ok_rebuild [OF doc03_doc03_tables proj_ok_empty p(1)] p(2)] p by blast
qed

end
