(* ===== verification/IssuesMd.thy ===== *)
theory IssuesMd
  imports PyStr
begin

text \<open>
  The \<open>Issues.md\<close> parser, \<open>src/runtime/queue/issues_md.py\<close>: the five regular expressions as functions
  on one line (the parser matches them only on lines of \<open>str.splitlines\<close>, which hold no line feed,
  so \<open>.\<close> is every character), the line loop as a fold over an explicit parser state, and what a
  successful parse promises.
\<close>

section \<open>The regular expressions\<close>

text \<open>
  \<open>\s*(.+?)\s*$\<close>: the text without surrounding white space; of a blank text the greedy \<open>\s*\<close>
  gives one character back.
\<close>

definition loose_text :: "string \<Rightarrow> string option" where
  "loose_text r =
     (if dropWhile py_space r \<noteq> [] then Some (rstrip (dropWhile py_space r))
      else if r \<noteq> [] then Some [last r] else None)"

text \<open>\<open>\s+(.+?)\s*$\<close>.\<close>

definition spaced_text :: "string \<Rightarrow> string option" where
  "spaced_text r =
     (if r \<noteq> [] \<and> py_space (hd r) \<and> (dropWhile py_space r \<noteq> [] \<or> 2 \<le> length r) then loose_text r else None)"

definition heading :: "string \<Rightarrow> string option" where
  "heading raw = (if starts_with ''##'' raw then spaced_text (drop 2 raw) else None)"

definition id_char :: "char \<Rightarrow> bool" where
  "id_char c \<longleftrightarrow> is_alnum c \<or> c = CHR ''_'' \<or> c = CHR ''-''"

definition issue_id_text :: "string \<Rightarrow> bool" where
  "issue_id_text s \<longleftrightarrow> s \<noteq> [] \<and> is_alnum (hd s) \<and> list_all id_char s"

definition id_title :: "string \<Rightarrow> (string \<times> string) option" where
  "id_title rest =
     (let i = takeWhile id_char rest; r = dropWhile py_space (drop (length i) rest)
      in if issue_id_text i \<and> r \<noteq> [] \<and> hd r = CHR '':''
         then map_option (\<lambda>title. (i, title)) (loose_text (tl r)) else None)"

definition depends :: "string \<Rightarrow> string option" where
  "depends s =
     (let r = dropWhile py_space (drop 10 s)
      in if lower (take 10 s) = ''depends-on'' \<and> r \<noteq> [] \<and> hd r = CHR '':''
         then Some (dropWhile py_space (tl r)) else None)"

definition accept_heading :: "string \<Rightarrow> bool" where
  "accept_heading raw \<longleftrightarrow> starts_with ''###'' raw \<and> length raw > 3 \<and> py_space (raw ! 3)
     \<and> lower (strip (drop 3 raw)) = ''acceptance''"

definition bullet :: "string \<Rightarrow> string option" where
  "bullet s = (if s \<noteq> [] \<and> hd s \<in> {CHR ''-'', CHR ''*''} then spaced_text (tl s) else None)"

section \<open>The parser\<close>

record issue_spec =
  spec_id :: string
  spec_title :: string
  spec_body :: string
  spec_deps :: "string list"
  spec_criteria :: "string list"

datatype parse_error = BadHeading nat string | DuplicateId nat string

record parse_state =
  specs :: "issue_spec list"
  seen_ids :: "string list"
  cur_spec :: "issue_spec option"
  body_lines :: "string list"
  in_acceptance :: bool

definition parse_start :: parse_state where
  "parse_start = \<lparr>specs = [], seen_ids = [], cur_spec = None, body_lines = [], in_acceptance = False\<rparr>"

definition flush_spec :: "parse_state \<Rightarrow> parse_state" where
  "flush_spec st =
     st\<lparr>specs := specs st @ (case cur_spec st of None \<Rightarrow> []
          | Some c \<Rightarrow> [c\<lparr>spec_body := strip (join [LF] (body_lines st))\<rparr>]),
        cur_spec := None, body_lines := [], in_acceptance := False\<rparr>"

definition dep_ids :: "string \<Rightarrow> string list" where
  "dep_ids deps = filter (\<lambda>d. d \<noteq> []) (map strip (split_on CHR '','' deps))"

definition open_spec :: "nat \<Rightarrow> string \<Rightarrow> parse_state \<Rightarrow> parse_error + parse_state" where
  "open_spec lineno rest st =
     (case id_title rest of
        None \<Rightarrow> Inl (BadHeading lineno rest)
      | Some (i, title) \<Rightarrow>
          if i \<in> set (seen_ids st) then Inl (DuplicateId lineno i)
          else Inr (st\<lparr>seen_ids := i # seen_ids st,
                 cur_spec := Some \<lparr>spec_id = i, spec_title = title, spec_body = [], spec_deps = [],
                                   spec_criteria = []\<rparr>\<rparr>))"

definition body_line :: "string \<Rightarrow> issue_spec \<Rightarrow> parse_state \<Rightarrow> parse_state" where
  "body_line raw c st =
     (if accept_heading raw then st\<lparr>in_acceptance := True\<rparr>
      else case depends (strip raw) of
        Some deps \<Rightarrow> st\<lparr>cur_spec := Some (c\<lparr>spec_deps := dep_ids deps\<rparr>)\<rparr>
      | None \<Rightarrow>
          (case (if in_acceptance st then bullet (strip raw) else None) of
             Some t \<Rightarrow> st\<lparr>cur_spec := Some (c\<lparr>spec_criteria := spec_criteria c @ [t]\<rparr>)\<rparr>
           | None \<Rightarrow> st\<lparr>in_acceptance := in_acceptance st \<and> strip raw = [],
                        body_lines := body_lines st @ [raw]\<rparr>))"

definition parse_line :: "nat \<times> string \<Rightarrow> parse_state \<Rightarrow> parse_error + parse_state" where
  "parse_line nl st =
     (case nl of (lineno, raw) \<Rightarrow>
        (case heading raw of
           Some rest \<Rightarrow> open_spec lineno rest (flush_spec st)
         | None \<Rightarrow> (case cur_spec st of None \<Rightarrow> Inr st | Some c \<Rightarrow> Inr (body_line raw c st))))"

definition parse_issues :: "string \<Rightarrow> parse_error + issue_spec list" where
  "parse_issues text =
     rbind (rfold parse_line (enumerate 1 (splitlines text)) parse_start)
       (\<lambda>st. Inr (specs (flush_spec st)))"

lemmas parse_step_defs = parse_line_def open_spec_def body_line_def flush_spec_def

section \<open>What the regular expressions accept\<close>

lemma loose_text_trimmed: "t \<noteq> [] \<Longrightarrow> strip t = t \<Longrightarrow> loose_text (SP # t) = Some t"
  "t \<noteq> [] \<Longrightarrow> strip t = t \<Longrightarrow> loose_text t = Some t"
  by (auto simp: loose_text_def strip_eq_self_iff dropWhile_id rstrip_id)
    (simp_all add: char_class_defs)

lemma spaced_text_trimmed: "t \<noteq> [] \<Longrightarrow> strip t = t \<Longrightarrow> spaced_text (SP # t) = Some t"
  by (cases t) (auto simp: spaced_text_def loose_text_trimmed strip_eq_self_iff char_class_defs)

lemma rstrip_strip: "\<not> py_space (hd t) \<Longrightarrow> strip (rstrip t) = rstrip t"
  by (cases "t = []") (simp_all add: strip_eq_self_iff rstrip_hd rstrip_last, simp add: rstrip_def)

lemma loose_text_ok:
  assumes "loose_text r = Some t"
  shows "t \<noteq> []" "\<not> list_all py_space r \<Longrightarrow> strip t = t"
proof -
  have hd: "dropWhile py_space r \<noteq> [] \<Longrightarrow> \<not> py_space (hd (dropWhile py_space r))" by (rule hd_dropWhile)
  show "t \<noteq> []" using assms rstrip_hd [OF _ hd] by (auto simp: loose_text_def split: if_splits)
  show "strip t = t" if "\<not> list_all py_space r"
  proof -
    have "dropWhile py_space r \<noteq> []" using that by (auto simp: list_all_iff)
    with assms hd show ?thesis by (auto simp: loose_text_def intro: rstrip_strip split: if_splits)
  qed
qed

lemma id_char_no_space: "id_char c \<Longrightarrow> \<not> py_space c \<and> c \<noteq> CHR '':'' \<and> c \<noteq> CHR '','' \<and> \<not> line_boundary c"
  by (auto simp: id_char_def char_class_defs)

lemma issue_id_strip: "issue_id_text i \<Longrightarrow> strip i = i"
  using id_char_no_space [of "hd i"] id_char_no_space [of "last i"]
  by (simp add: issue_id_text_def strip_eq_self_iff list_all_iff)

lemma id_title_rendered:
  assumes "issue_id_text i" "t \<noteq> []" "strip t = t"
  shows "id_title (i @ '': '' @ t) = Some (i, t)"
proof -
  have i: "\<forall>c \<in> set i. id_char c" using assms(1) by (simp add: issue_id_text_def list_all_iff)
  have colon: "\<not> id_char CHR '':''" "\<not> py_space CHR '':''" by (simp_all add: id_char_def char_class_defs)
  have "takeWhile id_char (i @ '': '' @ t) = i"
    using i colon(1) by (subst takeWhile_append2) simp_all
  moreover have "dropWhile py_space (drop (length i) (i @ '': '' @ t)) = '': '' @ t"
    using colon(2) by simp
  ultimately show ?thesis using assms colon(2) by (simp add: id_title_def loose_text_trimmed)
qed

section \<open>What a successful parse promises\<close>

text \<open>
  \<open>parse_run\<close> is the loop from any state. The issue under construction counts as the last one: its
  identity and title never change while its body is read.
\<close>

definition opened :: "parse_state \<Rightarrow> (string \<times> string) list" where
  "opened st = map (\<lambda>s. (spec_id s, spec_title s)) (specs st @ (case cur_spec st of None \<Rightarrow> [] | Some c \<Rightarrow> [c]))"

abbreviation headings :: "string list \<Rightarrow> string list" where
  "headings ls \<equiv> List.map_filter heading ls"

lemma opened_flush: "opened (flush_spec st) = opened st"
  by (simp add: opened_def flush_spec_def split: option.split)

lemma opened_body: "cur_spec st = Some c \<Longrightarrow> opened (body_line raw c st) = opened st"
  by (auto simp: opened_def body_line_def split: option.split)

lemma seen_body: "seen_ids (body_line raw c st) = seen_ids st" "seen_ids (flush_spec st) = seen_ids st"
  by (auto simp: body_line_def flush_spec_def split: option.split)

definition heads_ok :: "string list \<Rightarrow> (string \<times> string) list \<Rightarrow> bool" where
  "heads_ok hs its \<longleftrightarrow> map id_title hs = map Some its"

text \<open>Invariant: the seen identifiers are exactly the opened ones, once each.\<close>

definition seen_ok :: "parse_state \<Rightarrow> bool" where
  "seen_ok st \<longleftrightarrow> seen_ids st = rev (map fst (opened st)) \<and> distinct (map fst (opened st))"

lemma parse_line_opened:
  assumes "seen_ok st" and "parse_line (n, raw) st = Inr st'"
  shows "seen_ok st'"
    "case heading raw of None \<Rightarrow> opened st' = opened st
     | Some rest \<Rightarrow> \<exists>it. id_title rest = Some it \<and> opened st' = opened st @ [it]"
proof -
  have "seen_ok st' \<and> (case heading raw of None \<Rightarrow> opened st' = opened st
     | Some rest \<Rightarrow> \<exists>it. id_title rest = Some it \<and> opened st' = opened st @ [it])"
  proof (cases "heading raw")
    case None
    with assms show ?thesis
      by (auto simp: parse_line_def seen_ok_def opened_body seen_body split: option.splits)
  next
    case (Some rest)
    with assms(2) obtain i t where it: "id_title rest = Some (i, t)" "i \<notin> set (seen_ids st)"
      and st': "st' = (flush_spec st)\<lparr>seen_ids := i # seen_ids st, cur_spec := Some \<lparr>spec_id = i,
                  spec_title = t, spec_body = [], spec_deps = [], spec_criteria = []\<rparr>\<rparr>"
      by (auto simp: parse_line_def open_spec_def seen_body split: option.splits if_splits)
    have "opened st' = opened (flush_spec st) @ [(i, t)]"
      by (simp add: st' opened_def) (simp add: flush_spec_def)
    with Some it assms(1) st' show ?thesis by (simp add: opened_flush seen_ok_def)
  qed
  then show "seen_ok st'" and "case heading raw of None \<Rightarrow> opened st' = opened st
     | Some rest \<Rightarrow> \<exists>it. id_title rest = Some it \<and> opened st' = opened st @ [it]" by blast+
qed

lemma parse_lines_opened:
  assumes "rfold parse_line (enumerate n ls) st = Inr st'" and "seen_ok st"
  shows "seen_ok st' \<and> (\<exists>its. heads_ok (headings ls) its \<and> opened st' = opened st @ its)"
  using assms
proof (induction ls arbitrary: n st)
  case Nil
  then show ?case by (simp add: heads_ok_def map_filter_simps)
next
  case (Cons l ls)
  from Cons.prems(1) obtain st1 where st1: "parse_line (n, l) st = Inr st1"
    and r: "rfold parse_line (enumerate (Suc n) ls) st1 = Inr st'" by (auto simp: rbind_eq_Inr)
  note one = parse_line_opened [OF Cons.prems(2) st1]
  from Cons.IH [OF r one(1)] one(2) show ?case
    by (auto simp: heads_ok_def map_filter_simps split: option.splits)
qed

lemma specs_flush: "map (\<lambda>s. (spec_id s, spec_title s)) (specs (flush_spec st)) = opened st"
  by (simp add: flush_spec_def opened_def split: option.split)

lemma start_ok: "seen_ok parse_start" "opened parse_start = []"
  by (simp_all add: seen_ok_def opened_def parse_start_def)

lemma parse_issues_heads:
  assumes "parse_issues text = Inr ss"
  shows "map (\<lambda>s. Some (spec_id s, spec_title s)) ss = map id_title (headings (splitlines text))"
    and "distinct (map spec_id ss)"
proof -
  from assms obtain st where st: "rfold parse_line (enumerate 1 (splitlines text)) parse_start = Inr st"
    and ss: "ss = specs (flush_spec st)" by (auto simp: parse_issues_def rbind_eq_Inr)
  from parse_lines_opened [OF st start_ok(1)] start_ok(2)
  have ok: "seen_ok st" and heads: "heads_ok (headings (splitlines text)) (opened st)" by auto
  have "map (\<lambda>s. (spec_id s, spec_title s)) ss = opened st" by (simp add: ss specs_flush)
  then have "map Some (map (\<lambda>s. (spec_id s, spec_title s)) ss) = map Some (opened st)"
    and ids: "map spec_id ss = map fst (opened st)"
    by (simp_all add: map_eq_conv [symmetric] flip: map_map)
      (metis (no_types, lifting) comp_apply fst_conv list.map_comp map_eq_conv)
  with heads show "map (\<lambda>s. Some (spec_id s, spec_title s)) ss = map id_title (headings (splitlines text))"
    by (simp add: heads_ok_def o_def)
  from ok ids show "distinct (map spec_id ss)" by (simp add: seen_ok_def)
qed

text \<open>An error comes from a heading: a malformed one, or one whose identifier is already taken.\<close>

lemma parse_lines_fail:
  assumes "rfold parse_line (enumerate n ls) st = Inl e" and "seen_ok st"
  shows "\<exists>h \<in> set (headings ls). (\<exists>k. e = BadHeading k h) \<and> id_title h = None
    \<or> (\<exists>k i t. e = DuplicateId k i \<and> id_title h = Some (i, t)
         \<and> \<not> distinct (map fst (opened st) @ map fst (List.map_filter id_title (headings ls))))"
  using assms
proof (induction ls arbitrary: n st)
  case (Cons l ls)
  show ?case
  proof (cases "parse_line (n, l) st")
    case (Inl e')
    with Cons.prems(1) have "e' = e" by simp
    with Inl Cons.prems(2) obtain h where "heading l = Some h"
      and "e = BadHeading n h \<and> id_title h = None \<or>
           (\<exists>i t. id_title h = Some (i, t) \<and> e = DuplicateId n i \<and> i \<in> set (map fst (opened st)))"
      by (auto simp: parse_line_def open_spec_def seen_body seen_ok_def split: option.splits if_splits)
    then show ?thesis by (intro bexI [of _ h]) (elim disjE exE conjE; simp add: map_filter_simps)+
  next
    case (Inr st1)
    with Cons.prems(1) have "rfold parse_line (enumerate (Suc n) ls) st1 = Inl e" by simp
    note r = Cons.IH [OF this parse_line_opened(1) [OF Cons.prems(2) Inr]]
    have "map fst (opened st1) @ map fst (List.map_filter id_title (headings ls))
        = map fst (opened st) @ map fst (List.map_filter id_title (headings (l # ls)))"
      and "set (headings ls) \<subseteq> set (headings (l # ls))"
      using parse_line_opened(2) [OF Cons.prems(2) Inr]
      by (auto simp: map_filter_simps split: option.splits)
    with r show ?thesis by (simp only:) blast
  qed
qed simp

text \<open>
  C34: \<open>parse\<close> returns one issue for every \<open>## \<close> heading of the text, in file order and with the
  heading's identifier and title, and no two with one identifier; it raises only when a heading is
  not of the form \<open>id: title\<close> or an identifier comes twice. No work item is dropped silently.
\<close>

theorem parse_drops_nothing:
  "case parse_issues text of
     Inr ss \<Rightarrow> map (\<lambda>s. Some (spec_id s, spec_title s)) ss = map id_title (headings (splitlines text))
               \<and> distinct (map spec_id ss)
   | Inl e \<Rightarrow> \<exists>h \<in> set (headings (splitlines text)).
       (\<exists>k. e = BadHeading k h) \<and> id_title h = None
       \<or> (\<exists>k i t. e = DuplicateId k i \<and> id_title h = Some (i, t)
            \<and> \<not> distinct (map fst (List.map_filter id_title (headings (splitlines text)))))"
proof (cases "parse_issues text")
  case (Inl e)
  then have "rfold parse_line (enumerate 1 (splitlines text)) parse_start = Inl e"
    by (simp add: parse_issues_def rbind_eq_Inl)
  from parse_lines_fail [OF this start_ok(1)] show ?thesis by (simp add: Inl start_ok)
next
  case (Inr ss)
  from parse_issues_heads [OF Inr] show ?thesis by (simp add: Inr)
qed

end
