(* ===== verification/Selection.thy ===== *)
theory Selection
  imports IssuesMd "HOL-Library.Multiset"
begin

text \<open>
  The selection planner, \<open>src/runtime/queue/selection.py\<close>: Kahn's algorithm with the file order as
  tie-break, and the two planners the dashboard's admission and the runtime share. The in-degree and
  dependents dictionaries are functions (the code reads them only at the identifiers it filled in);
  \<open>states\<close> is the dictionary in insertion order.
\<close>

section \<open>The topological order\<close>

text \<open>The edge into \<open>iid\<close> from each of its dependencies within the selection, counted with repetition.\<close>

definition add_edge :: "string \<Rightarrow> string \<Rightarrow>
    (string \<Rightarrow> int) \<times> (string \<Rightarrow> string list) \<Rightarrow> (string \<Rightarrow> int) \<times> (string \<Rightarrow> string list)" where
  "add_edge iid dep g = ((fst g)(iid := fst g iid + 1), (snd g)(dep := snd g dep @ [iid]))"

definition edges :: "(string \<Rightarrow> string list) \<Rightarrow> string list \<Rightarrow> (string \<Rightarrow> int) \<times> (string \<Rightarrow> string list)" where
  "edges deps ids =
     fold (\<lambda>iid g. fold (\<lambda>dep g. if dep \<in> set ids then add_edge iid dep g else g) (deps iid) g) ids
       (\<lambda>_. 0, \<lambda>_. [])"

text \<open>The \<open>while remaining\<close> loop.\<close>

function kahn :: "(string \<Rightarrow> string list) \<Rightarrow> (string \<Rightarrow> int) \<Rightarrow> string list \<Rightarrow> string list
    \<Rightarrow> string list \<times> string list" where
  "kahn dependents indegree ordered remaining =
     (if remaining = [] then (ordered, [])
      else case List.find (\<lambda>iid. indegree iid = 0) remaining of
        None \<Rightarrow> (ordered, remaining)
      | Some ready \<Rightarrow>
          kahn dependents (fold (\<lambda>d g. g(d := g d - 1)) (dependents ready) indegree)
            (ordered @ [ready]) (remove1 ready remaining))"
  by pat_completeness auto
termination
  by (relation "measure (\<lambda>(_, _, _, r). length r)")
    (auto simp: length_remove1 dest!: find_SomeD intro: length_pos_if_in_set)

declare kahn.simps [simp del]

definition topological_order :: "(string \<Rightarrow> string list) \<Rightarrow> string list \<Rightarrow> string list \<times> string list" where
  "topological_order deps ids = kahn (snd (edges deps ids)) (fst (edges deps ids)) [] ids"

text \<open>
  The reference definition: at every step the first identifier in file order that is not yet placed
  and whose dependencies within the selection all are.
\<close>

definition next_ready :: "(string \<Rightarrow> string list) \<Rightarrow> string list \<Rightarrow> string list \<Rightarrow> string option" where
  "next_ready deps ids placed =
     List.find (\<lambda>i. i \<notin> set placed \<and> (\<forall>d \<in> set (deps i). d \<in> set ids \<longrightarrow> d \<in> set placed)) ids"

function order_from :: "(string \<Rightarrow> string list) \<Rightarrow> string list \<Rightarrow> string list \<Rightarrow> string list" where
  "order_from deps ids placed =
     (case next_ready deps ids placed of None \<Rightarrow> placed | Some i \<Rightarrow> order_from deps ids (placed @ [i]))"
  by pat_completeness auto
termination
proof (relation "measure (\<lambda>(deps, ids, placed). card (set ids - set placed))")
  fix deps ids placed i
  assume "next_ready deps ids placed = Some i"
  then have "i \<in> set ids - set placed" by (auto simp: next_ready_def dest: find_SomeD)
  then have "set ids - set (placed @ [i]) \<subset> set ids - set placed" by auto
  then show "((deps, ids, placed @ [i]), deps, ids, placed) \<in>
      measure (\<lambda>(deps, ids, placed). card (set ids - set placed))"
    by (simp add: psubset_card_mono del: set_append)
qed simp

declare order_from.simps [simp del]

subsection \<open>The edges\<close>

lemma inner_edges:
  "fst (fold (\<lambda>dep g. if dep \<in> S then add_edge iid dep g else g) ds g) i
     = fst g i + (if i = iid then int (length (filter (\<lambda>d. d \<in> S) ds)) else 0)"
  "snd (fold (\<lambda>dep g. if dep \<in> S then add_edge iid dep g else g) ds g) d
     = snd g d @ (if d \<in> S then replicate (count_list ds d) iid else [])"
  by (induction ds arbitrary: g) (simp_all add: add_edge_def replicate_app_Cons_same)

lemma outer_edges:
  fixes deps S
  defines "step \<equiv> \<lambda>iid g. fold (\<lambda>dep g. if dep \<in> S then add_edge iid dep g else g) (deps iid) g"
  shows "fst (fold step is g) i = fst g i + int (count_list is i * length (filter (\<lambda>d. d \<in> S) (deps i)))"
    and "count_list (snd (fold step is g) d) i
      = count_list (snd g d) i + (if d \<in> S then count_list is i * count_list (deps i) d else 0)"
proof -
  have rep: "count_list (replicate n a) b = (if b = a then n else 0)" for n and a b :: string
    by (induction n) auto
  show "fst (fold step is g) i = fst g i + int (count_list is i * length (filter (\<lambda>d. d \<in> S) (deps i)))"
    by (induction "is" arbitrary: g) (auto simp: step_def inner_edges algebra_simps)
  show "count_list (snd (fold step is g) d) i
      = count_list (snd g d) i + (if d \<in> S then count_list is i * count_list (deps i) d else 0)"
    by (induction "is" arbitrary: g) (auto simp: step_def inner_edges rep algebra_simps)
qed

lemma count_distinct: "distinct xs \<Longrightarrow> count_list xs x = (if x \<in> set xs then 1 else 0)"
  by (induction xs) auto

lemma edges_distinct:
  assumes "distinct ids" and "i \<in> set ids"
  shows "fst (edges deps ids) i = int (length (filter (\<lambda>d. d \<in> set ids) (deps i)))"
    and "d \<in> set ids \<Longrightarrow> count_list (snd (edges deps ids) d) i = count_list (deps i) d"
  using assms by (simp_all add: edges_def outer_edges count_distinct)

lemma edges_dependents: "i \<notin> set ids \<Longrightarrow> count_list (snd (edges deps ids) d) i = 0"
  by (simp add: edges_def outer_edges)

lemma lower_indegree: "fold (\<lambda>d g. g(d := g d - 1)) ds g i = g i - int (count_list ds i)"
  by (induction ds arbitrary: g) auto

subsection \<open>The loop is the reference\<close>

lemma find_filter: "List.find P (filter Q xs) = List.find (\<lambda>x. Q x \<and> P x) xs"
  by (induction xs) auto

lemma find_cong': "(\<And>x. x \<in> set xs \<Longrightarrow> P x = Q x) \<Longrightarrow> List.find P xs = List.find Q xs"
  by (induction xs) auto

lemma filter_placed:
  "length (filter (\<lambda>d. d \<in> S - insert x P) ds) + (if x \<in> S - P then count_list ds x else 0)
     = length (filter (\<lambda>d. d \<in> S - P) ds)"
  by (induction ds) auto

text \<open>
  The loop invariant: what remains is the part of the file order not yet placed, and the in-degree of
  a remaining identifier counts its dependencies that are still to be placed.
\<close>

definition kahn_inv :: "(string \<Rightarrow> string list) \<Rightarrow> string list \<Rightarrow> (string \<Rightarrow> int) \<Rightarrow> string list \<Rightarrow> bool" where
  "kahn_inv deps ids indeg placed \<longleftrightarrow>
     (\<forall>i \<in> set ids. indeg i = int (length (filter (\<lambda>d. d \<in> set ids - set placed) (deps i))))"

lemma kahn_inv_start: "distinct ids \<Longrightarrow> kahn_inv deps ids (fst (edges deps ids)) []"
  by (simp add: kahn_inv_def edges_distinct)

lemma kahn_inv_step:
  assumes "distinct ids" "kahn_inv deps ids indeg placed" "r \<in> set ids" "r \<notin> set placed"
  shows "kahn_inv deps ids (fold (\<lambda>d g. g(d := g d - 1)) (snd (edges deps ids) r) indeg) (placed @ [r])"
proof -
  have "indeg i - int (count_list (snd (edges deps ids) r) i)
      = int (length (filter (\<lambda>d. d \<in> set ids - set (placed @ [r])) (deps i)))" if i: "i \<in> set ids" for i
    using assms i filter_placed [of "set ids" r "set placed" "deps i"]
    by (simp add: kahn_inv_def edges_distinct)
  then show ?thesis by (simp add: kahn_inv_def lower_indegree)
qed

lemma find_ready:
  assumes "kahn_inv deps ids indeg placed"
  shows "List.find (\<lambda>i. indeg i = 0) (filter (\<lambda>i. i \<notin> set placed) ids) = next_ready deps ids placed"
  unfolding next_ready_def find_filter using assms
  by (intro find_cong') (auto simp: kahn_inv_def filter_empty_conv)

lemma kahn_reference:
  assumes "distinct ids" and "kahn_inv deps ids indeg placed"
  shows "kahn (snd (edges deps ids)) indeg placed (filter (\<lambda>i. i \<notin> set placed) ids)
    = (order_from deps ids placed, filter (\<lambda>i. i \<notin> set (order_from deps ids placed)) ids)"
  using assms
proof (induction deps ids placed arbitrary: indeg rule: order_from.induct)
  case (1 deps ids placed)
  show ?case
  proof (cases "next_ready deps ids placed")
    case None
    then have "order_from deps ids placed = placed" by (simp add: order_from.simps)
    with None find_ready [OF "1.prems"(2)] show ?thesis by (simp add: kahn.simps)
  next
    case (Some r)
    then have r: "r \<in> set ids" "r \<notin> set placed" by (auto simp: next_ready_def dest: find_SomeD)
    have rem: "remove1 r (filter (\<lambda>i. i \<notin> set placed) ids) = filter (\<lambda>i. i \<notin> set (placed @ [r])) ids"
      using "1.prems"(1) by (auto simp: distinct_remove1_removeAll removeAll_filter_not_eq intro: filter_cong)
    have "order_from deps ids placed = order_from deps ids (placed @ [r])"
      by (subst order_from.simps) (simp add: Some)
    moreover have "filter (\<lambda>i. i \<notin> set placed) ids \<noteq> []" using r by (auto simp: filter_empty_conv)
    ultimately show ?thesis
      using "1.IH" [OF Some "1.prems"(1) kahn_inv_step [OF "1.prems" r]] find_ready [OF "1.prems"(2)] rem Some
      by (subst kahn.simps) simp
  qed
qed

text \<open>So the whole loop computes the reference order, and leaves the rest in file order.\<close>

lemma topological_reference:
  "distinct ids \<Longrightarrow> topological_order deps ids
     = (order_from deps ids [], filter (\<lambda>i. i \<notin> set (order_from deps ids [])) ids)"
  using kahn_reference [OF _ kahn_inv_start, of ids deps] by (simp add: topological_order_def)

subsection \<open>The reference respects dependencies and finds every cycle\<close>

definition deps_first :: "(string \<Rightarrow> string list) \<Rightarrow> string list \<Rightarrow> string list \<Rightarrow> bool" where
  "deps_first deps ids placed \<longleftrightarrow>
     (\<forall>xs i ys. placed = xs @ i # ys \<longrightarrow> (\<forall>d \<in> set (deps i). d \<in> set ids \<longrightarrow> d \<in> set xs))"

lemma deps_first_Nil: "deps_first deps ids []"
  by (simp add: deps_first_def)

lemma deps_first_snoc:
  "deps_first deps ids placed \<Longrightarrow> \<forall>d \<in> set (deps i). d \<in> set ids \<longrightarrow> d \<in> set placed
     \<Longrightarrow> deps_first deps ids (placed @ [i])"
  unfolding deps_first_def by (metis append_eq_append_conv_if butlast.simps(2) butlast_append butlast_snoc
      last_ConsL last_appendR last_snoc list.distinct(1) append_is_Nil_conv self_append_conv)

lemma order_from_ok:
  assumes "distinct placed" "set placed \<subseteq> set ids" "deps_first deps ids placed"
  shows "distinct (order_from deps ids placed) \<and> set (order_from deps ids placed) \<subseteq> set ids
    \<and> deps_first deps ids (order_from deps ids placed)
    \<and> next_ready deps ids (order_from deps ids placed) = None"
  using assms
proof (induction deps ids placed rule: order_from.induct)
  case (1 deps ids placed)
  show ?case
  proof (cases "next_ready deps ids placed")
    case None
    with "1.prems" show ?thesis by (simp add: order_from.simps)
  next
    case (Some i)
    then have i: "i \<in> set ids" "i \<notin> set placed" "\<forall>d \<in> set (deps i). d \<in> set ids \<longrightarrow> d \<in> set placed"
      by (auto simp: next_ready_def dest: find_SomeD)
    have "order_from deps ids placed = order_from deps ids (placed @ [i])"
      by (subst order_from.simps) (simp add: Some)
    with "1.IH" [OF Some] "1.prems" i deps_first_snoc [OF "1.prems"(3) i(3)] show ?thesis by simp
  qed
qed

definition dep_rel :: "(string \<Rightarrow> string list) \<Rightarrow> string list \<Rightarrow> (string \<times> string) set" where
  "dep_rel deps ids = {(d, i). i \<in> set ids \<and> d \<in> set ids \<and> d \<in> set (deps i)}"

lemma position_first: "x \<notin> set us \<Longrightarrow> length (takeWhile (\<lambda>y. y \<noteq> x) (us @ x # vs)) = length us"
  by (induction us) auto

lemma acyclic_respected:
  assumes "deps_first deps ids os" "set os = set ids"
  shows "acyclic (dep_rel deps ids)"
proof -
  define pos where "pos x = length (takeWhile (\<lambda>y. y \<noteq> x) os)" for x
  have "pos d < pos i" if "(d, i) \<in> dep_rel deps ids" for d i
  proof -
    from that assms(2) have "i \<in> set os" by (auto simp: dep_rel_def)
    then obtain xs ys where os: "os = xs @ i # ys" and "i \<notin> set xs" by (metis split_list_first)
    with assms(1) that have "d \<in> set xs" by (auto simp: deps_first_def dep_rel_def)
    then obtain us vs where xs: "xs = us @ d # vs" and "d \<notin> set us" by (metis split_list_first)
    have "pos d = length us"
      using position_first [OF \<open>d \<notin> set us\<close>, of "vs @ i # ys"] by (simp add: pos_def os xs)
    moreover have "pos i = length xs"
      using position_first [OF \<open>i \<notin> set xs\<close>, of ys] by (simp add: pos_def os)
    ultimately show ?thesis by (simp add: xs)
  qed
  then have "dep_rel deps ids \<subseteq> measure pos" by auto
  then show ?thesis by (rule wf_acyclic [OF wf_subset [OF wf_measure]])
qed

lemma order_complete:
  assumes "acyclic (dep_rel deps ids)"
  shows "set (order_from deps ids []) = set ids"
proof -
  let ?os = "order_from deps ids []"
  note ok = order_from_ok [of "[]" ids deps, simplified, OF deps_first_Nil]
  have "finite (dep_rel deps ids)"
    by (rule finite_subset [of _ "set ids \<times> set ids"]) (auto simp: dep_rel_def)
  then have wf: "wf (dep_rel deps ids)" using assms by (rule finite_acyclic_wf)
  have "set ids - set ?os = {}"
  proof (rule ccontr)
    assume "set ids - set ?os \<noteq> {}"
    then obtain i where "i \<in> set ids - set ?os"
      and "\<And>d. (d, i) \<in> dep_rel deps ids \<Longrightarrow> d \<notin> set ids - set ?os"
      using wf unfolding wf_eq_minimal by (metis ex_in_conv)
    then show False using ok by (auto simp: next_ready_def find_None_iff dep_rel_def)
  qed
  with ok show ?thesis by auto
qed

lemma topological_cycle:
  "distinct ids \<Longrightarrow> snd (topological_order deps ids) = [] \<longleftrightarrow> acyclic (dep_rel deps ids)"
  using order_from_ok [of "[]" ids deps, simplified, OF deps_first_Nil]
    acyclic_respected [of deps ids "order_from deps ids []"] order_complete [of deps ids]
  by (auto simp: topological_reference filter_empty_conv)

section \<open>The planners\<close>

record blocker =
  blocked_id :: string
  missing_dependency_id :: string
  dependency_state :: string

record plan_result =
  plan_ok :: bool
  ordered_ids :: "string list"
  unknown_ids :: "string list"
  duplicate_ids :: "string list"
  terminal_selected :: "(string \<times> string) list"
  blockers :: "blocker list"
  cycle_members :: "string list"
  omitted_active_ids :: "string list"
  excluded :: "(string \<times> string) list"
  empty_selection :: bool

definition default_plan :: plan_result where
  "default_plan = \<lparr>plan_ok = False, ordered_ids = [], unknown_ids = [], duplicate_ids = [],
     terminal_selected = [], blockers = [], cycle_members = [], omitted_active_ids = [], excluded = [],
     empty_selection = False\<rparr>"

definition TERMINAL_STATES :: "string list" where
  "TERMINAL_STATES = [''DONE'', ''NEEDS_HUMAN'', ''NEEDS_DECOMPOSITION'']"

definition is_terminal :: "(string \<times> string) list \<Rightarrow> string \<Rightarrow> bool" where
  "is_terminal states i = (case map_of states i of None \<Rightarrow> False | Some st \<Rightarrow> st \<in> set TERMINAL_STATES)"

definition is_satisfied :: "(string \<times> string) list \<Rightarrow> string \<Rightarrow> bool" where
  "is_satisfied states d = (map_of states d = Some ''DONE'')"

definition spec_by_id :: "issue_spec list \<Rightarrow> (string \<times> issue_spec) list" where
  "spec_by_id ss = dict_of (map (\<lambda>s. (spec_id s, s)) ss)"

definition deps_in :: "issue_spec list \<Rightarrow> string \<Rightarrow> string list" where
  "deps_in ss i = (case map_of (spec_by_id ss) i of None \<Rightarrow> [] | Some s \<Rightarrow> spec_deps s)"

definition dependency_state_label :: "issue_spec list \<Rightarrow> (string \<times> string) list \<Rightarrow> string \<Rightarrow> string" where
  "dependency_state_label ss states d =
     (case map_of states d of Some st \<Rightarrow> st
      | None \<Rightarrow> if d \<in> set (keys (spec_by_id ss)) then ''NOT_INGESTED'' else ''UNKNOWN'')"

text \<open>The loop over the selected identifiers that reports each repeated one once.\<close>

fun duplicates :: "string list \<Rightarrow> string list \<Rightarrow> string list \<Rightarrow> string list" where
  "duplicates [] seen dup = dup"
| "duplicates (i # is) seen dup =
     duplicates is (i # seen) (if i \<in> set seen \<and> i \<notin> set dup then dup @ [i] else dup)"

text \<open>\<open>dict.fromkeys\<close>: the first occurrence of each.\<close>

definition fromkeys :: "string list \<Rightarrow> string list" where
  "fromkeys xs = keys (dict_of (map (\<lambda>x. (x, ())) xs))"

definition blockers_of :: "issue_spec list \<Rightarrow> (string \<times> string) list \<Rightarrow> string list \<Rightarrow> blocker list" where
  "blockers_of ss states ids =
     concat (map (\<lambda>i. map (\<lambda>d. \<lparr>blocked_id = i, missing_dependency_id = d,
         dependency_state = dependency_state_label ss states d\<rparr>)
       (filter (\<lambda>d. d \<notin> set ids \<and> \<not> is_satisfied states d) (deps_in ss i))) ids)"

definition with_state :: "(string \<times> string) list \<Rightarrow> string list \<Rightarrow> (string \<times> string) list" where
  "with_state states ids = map (\<lambda>i. (i, the (map_of states i))) (filter (is_terminal states) ids)"

definition active_outside :: "(string \<times> string) list \<Rightarrow> string list \<Rightarrow> string list" where
  "active_outside states ids = sort (filter (\<lambda>i. i \<notin> set ids) (keys (filter (\<lambda>(i, st). st = ''ACTIVE'') states)))"

text \<open>The known selected identifiers, in file order.\<close>

definition known_selected :: "issue_spec list \<Rightarrow> string list \<Rightarrow> string list" where
  "known_selected ss selected =
     (let wanted = filter (\<lambda>i. i \<in> set (keys (spec_by_id ss))) (fromkeys selected)
      in filter (\<lambda>i. i \<in> set wanted) (map spec_id ss))"

definition plan_selected :: "issue_spec list \<Rightarrow> (string \<times> string) list \<Rightarrow> string list \<Rightarrow> plan_result" where
  "plan_selected ss states selected =
     (if selected = [] then default_plan\<lparr>empty_selection := True\<rparr>
      else
        let known = keys (spec_by_id ss);
            dup = duplicates selected [] [];
            unknown = filter (\<lambda>i. i \<notin> set known) (fromkeys selected);
            ids = known_selected ss selected;
            terminal = with_state states ids;
            blocked = blockers_of ss states ids;
            omitted = active_outside states ids;
            (ordered, leftover) = topological_order (deps_in ss) ids;
            ok = (unknown = [] \<and> dup = [] \<and> terminal = [] \<and> blocked = [] \<and> omitted = [] \<and> leftover = [])
        in \<lparr>plan_ok = ok, ordered_ids = (if ok then ordered else []), unknown_ids = unknown,
            duplicate_ids = dup, terminal_selected = terminal, blockers = blocked, cycle_members = leftover,
            omitted_active_ids = omitted, excluded = [], empty_selection = False\<rparr>)"

definition plan_run_all :: "issue_spec list \<Rightarrow> (string \<times> string) list \<Rightarrow> plan_result" where
  "plan_run_all ss states =
     (let ids = filter (\<lambda>i. \<not> is_terminal states i) (map spec_id ss);
          omitted = active_outside states (keys (spec_by_id ss));
          blocked = blockers_of ss states ids;
          (ordered, leftover) = topological_order (deps_in ss) ids;
          ok = (blocked = [] \<and> leftover = [] \<and> omitted = [])
      in default_plan\<lparr>plan_ok := ok, ordered_ids := (if ok then ordered else []), blockers := blocked,
           cycle_members := leftover, omitted_active_ids := omitted,
           excluded := with_state states (map spec_id ss)\<rparr>)"

subsection \<open>What a plan promises\<close>

text \<open>A dictionary built from pairs has exactly the pairs' keys, once each.\<close>

lemma dict_of_keys: "fst ` set (dict_of kvs) = fst ` set kvs \<and> distinct (keys (dict_of kvs))"
proof -
  have "distinct (keys d) \<Longrightarrow>
      fst ` set (foldl (\<lambda>d kv. AList.update (fst kv) (snd kv) d) d kvs) = fst ` set d \<union> fst ` set kvs
      \<and> distinct (keys (foldl (\<lambda>d kv. AList.update (fst kv) (snd kv) d) d kvs))" for d
  proof (induction kvs arbitrary: d)
    case (Cons kv kvs)
    from Cons.IH [of "AList.update (fst kv) (snd kv) d"] Cons.prems set_keys_update [of "fst kv" "snd kv" d]
    show ?case by auto
  qed simp
  from this [of "[]"] show ?thesis by (simp add: dict_of_def)
qed

lemma fromkeys_set: "set (fromkeys xs) = set xs"
  using dict_of_keys [of "map (\<lambda>x. (x, ())) xs"] by (simp add: fromkeys_def image_image)

lemma duplicates_None:
  "duplicates xs seen dup = [] \<longleftrightarrow> dup = [] \<and> distinct xs \<and> set xs \<inter> set seen = {}"
  by (induction xs arbitrary: seen dup) auto

lemma known_ids: "fst ` set (spec_by_id ss) = spec_id ` set ss"
  using dict_of_keys [of "map (\<lambda>s. (spec_id s, s)) ss"] by (simp add: spec_by_id_def image_image)

lemma deps_in_spec:
  assumes "distinct (map spec_id ss)" and "s \<in> set ss"
  shows "deps_in ss (spec_id s) = spec_deps s"
proof -
  have d: "distinct (keys (map (\<lambda>s. (spec_id s, s)) ss))" using assms(1) by (simp add: o_def)
  with assms(2) have "map_of (map (\<lambda>s. (spec_id s, s)) ss) (spec_id s) = Some s"
    by (auto simp: map_of_eq_Some_iff)
  then show ?thesis by (simp add: deps_in_def spec_by_id_def dict_of_distinct [OF d])
qed

lemma blockers_empty:
  "blockers_of ss states ids = [] \<longleftrightarrow>
     (\<forall>i \<in> set ids. \<forall>d \<in> set (deps_in ss i). d \<in> set ids \<or> map_of states d = Some ''DONE'')"
  by (auto simp: blockers_of_def is_satisfied_def filter_empty_conv)

lemma active_outside_empty:
  assumes "distinct (keys states)"
  shows "active_outside states ids = [] \<longleftrightarrow> (\<forall>i. map_of states i = Some ''ACTIVE'' \<longrightarrow> i \<in> set ids)"
proof -
  have "sort xs = [] \<longleftrightarrow> xs = []" for xs :: "string list" by (metis set_empty set_sort)
  then show ?thesis
    using assms by (auto simp: active_outside_def filter_empty_conv map_of_eq_Some_iff)
qed

lemma with_state_empty: "with_state states ids = [] \<longleftrightarrow> (\<forall>i \<in> set ids. \<not> is_terminal states i)"
  by (simp add: with_state_def filter_empty_conv)

lemma known_selected_set: "set (known_selected ss sel) = set sel \<inter> spec_id ` set ss"
  by (auto simp: known_selected_def fromkeys_set known_ids)

lemma known_selected_distinct: "distinct (map spec_id ss) \<Longrightarrow> distinct (known_selected ss sel)"
  by (simp add: known_selected_def Let_def)

text \<open>The accepted batches, in one condition.\<close>

definition batch_ok :: "issue_spec list \<Rightarrow> (string \<times> string) list \<Rightarrow> string list \<Rightarrow> bool" where
  "batch_ok ss states ids \<longleftrightarrow>
     distinct ids \<and> set ids \<subseteq> spec_id ` set ss \<and> list_all (\<lambda>i. \<not> is_terminal states i) ids
     \<and> list_all (\<lambda>i. list_all (\<lambda>d. d \<in> set ids \<or> map_of states d = Some ''DONE'') (deps_in ss i)) ids
     \<and> {i. map_of states i = Some ''ACTIVE''} \<subseteq> set ids \<and> acyclic (dep_rel (deps_in ss) ids)"

lemma dep_rel_cong: "set a = set b \<Longrightarrow> dep_rel deps a = dep_rel deps b"
  by (simp add: dep_rel_def)

lemma plan_selected_iff:
  assumes "distinct (map spec_id ss)" and "distinct (keys states)"
  shows "plan_ok (plan_selected ss states sel) \<longleftrightarrow> sel \<noteq> [] \<and> batch_ok ss states sel"
proof (cases "sel = []")
  case False
  define ids where "ids = known_selected ss sel"
  have d: "distinct ids" and set: "set ids = set sel \<inter> spec_id ` set ss"
    using assms(1) by (simp_all add: ids_def known_selected_set known_selected_distinct)
  have unknown: "filter (\<lambda>i. i \<notin> set (keys (spec_by_id ss))) (fromkeys sel) = [] \<longleftrightarrow> set sel \<subseteq> spec_id ` set ss"
    by (auto simp: filter_empty_conv fromkeys_set known_ids)
  have "plan_ok (plan_selected ss states sel) \<longleftrightarrow> set sel \<subseteq> spec_id ` set ss \<and> distinct sel
      \<and> with_state states ids = [] \<and> blockers_of ss states ids = [] \<and> active_outside states ids = []
      \<and> acyclic (dep_rel (deps_in ss) ids)"
    using False unknown topological_cycle [OF d, of "deps_in ss"] duplicates_None [of sel "[]" "[]"]
    by (simp add: plan_selected_def Let_def case_prod_beta flip: ids_def)
  then show ?thesis
    using False set dep_rel_cong [of ids sel "deps_in ss"]
    by (cases "set sel \<subseteq> spec_id ` set ss")
      (auto simp: batch_ok_def list_all_iff Int_absorb2 with_state_empty blockers_empty
        active_outside_empty [OF assms(2)])
qed (simp add: plan_selected_def default_plan_def)

lemma order_of_plan:
  assumes "distinct (map spec_id ss)" and "plan_ok (plan_selected ss states sel)"
  shows "ordered_ids (plan_selected ss states sel) = order_from (deps_in ss) (known_selected ss sel) []"
  using assms(2) topological_reference [OF known_selected_distinct [OF assms(1), of sel], of "deps_in ss"]
  by (auto simp: plan_selected_def default_plan_def Let_def case_prod_beta split: if_splits)

text \<open>A dependency of a planned identifier is done already, or planned before it.\<close>

definition runs_in_order :: "issue_spec list \<Rightarrow> (string \<times> string) list \<Rightarrow> string list \<Rightarrow> bool" where
  "runs_in_order ss states ids \<longleftrightarrow>
     (\<forall>xs i ys. ids = xs @ i # ys \<longrightarrow>
        (\<forall>d \<in> set (deps_in ss i). map_of states d = Some ''DONE'' \<or> d \<in> set xs))"

lemma plan_order_runs:
  assumes "distinct (map spec_id ss)" and "distinct (keys states)" and "plan_ok (plan_selected ss states sel)"
  shows "mset (ordered_ids (plan_selected ss states sel)) = mset sel
    \<and> runs_in_order ss states (ordered_ids (plan_selected ss states sel))"
proof -
  define ids where "ids = known_selected ss sel"
  let ?os = "order_from (deps_in ss) ids []"
  have ok: "batch_ok ss states sel" using assms plan_selected_iff by blast
  then have set: "set ids = set sel" by (auto simp: ids_def known_selected_set batch_ok_def)
  then have "acyclic (dep_rel (deps_in ss) ids)"
    using ok dep_rel_cong [of ids sel] by (auto simp: batch_ok_def)
  from order_complete [OF this] order_from_ok [of "[]" ids "deps_in ss", simplified, OF deps_first_Nil]
  have os: "set ?os = set sel" "distinct ?os" "deps_first (deps_in ss) ids ?os" by (auto simp: set)
  have "map_of states d = Some ''DONE'' \<or> d \<in> set xs"
    if "?os = xs @ i # ys" and "d \<in> set (deps_in ss i)" for xs i ys d
  proof -
    from that(1) os(1) have "i \<in> set sel" by (metis in_set_conv_decomp)
    with ok that(2) have "d \<in> set sel \<or> map_of states d = Some ''DONE''"
      by (auto simp: batch_ok_def list_all_iff)
    with os(3) that set show ?thesis by (auto simp: deps_first_def)
  qed
  then have "runs_in_order ss states ?os" by (simp add: runs_in_order_def)
  moreover have "mset ?os = mset sel"
    using os ok by (simp add: batch_ok_def set_eq_iff_mset_eq_distinct [symmetric])
  ultimately show ?thesis by (simp add: order_of_plan [OF assms(1,3)] ids_def)
qed

lemma refused_orders_nothing:
  "\<not> plan_ok (plan_selected ss states sel) \<Longrightarrow> ordered_ids (plan_selected ss states sel) = []"
  by (auto simp: plan_selected_def default_plan_def Let_def case_prod_beta)

lemma run_all_selected:
  assumes "distinct (map spec_id ss)" and "distinct (keys states)"
    and "filter (\<lambda>i. \<not> is_terminal states i) (map spec_id ss) \<noteq> []"
  shows "plan_run_all ss states =
    (plan_selected ss states (filter (\<lambda>i. \<not> is_terminal states i) (map spec_id ss)))
      \<lparr>excluded := with_state states (map spec_id ss)\<rparr>"
proof -
  define nt where "nt = filter (\<lambda>i. \<not> is_terminal states i) (map spec_id ss)"
  have d: "distinct nt" and sub: "set nt \<subseteq> spec_id ` set ss" using assms(1) by (auto simp: nt_def)
  have known: "known_selected ss nt = nt"
    using d sub by (auto simp: known_selected_def Let_def fromkeys_set known_ids nt_def intro!: filter_cong)
  have un: "filter (\<lambda>i. i \<notin> fst ` set (spec_by_id ss)) (fromkeys nt) = []"
    using sub by (auto simp: filter_empty_conv fromkeys_set known_ids)
  have dup: "duplicates nt [] [] = []" using d by (simp add: duplicates_None)
  have ter: "with_state states nt = []" by (auto simp: with_state_empty nt_def)
  have out: "active_outside states (keys (spec_by_id ss)) = active_outside states nt"
    unfolding active_outside_def
    using assms(2) by (intro arg_cong [where f = sort] filter_cong)
      (auto simp: known_ids nt_def is_terminal_def TERMINAL_STATES_def)
  have "nt \<noteq> []" using assms(3) by (simp add: nt_def)
  then show ?thesis
    unfolding plan_run_all_def plan_selected_def nt_def [symmetric]
    by (auto simp: Let_def case_prod_beta known un dup ter out default_plan_def)
qed

section \<open>Properties\<close>

text \<open>
  C35: Kahn's algorithm with decremented in-degrees computes the reference order (at each step the
  first identifier of the file whose dependencies within the batch are all placed), returns the rest
  in file order, and leaves nothing over exactly when the dependencies within the batch are acyclic.
\<close>

theorem kahn_is_reference:
  "distinct ids \<Longrightarrow>
     topological_order deps ids = (order_from deps ids [], filter (\<lambda>i. i \<notin> set (order_from deps ids [])) ids)
     \<and> (snd (topological_order deps ids) = [] \<longleftrightarrow> acyclic (dep_rel deps ids))"
  by (simp add: topological_reference [symmetric] topological_cycle)

definition sample_deps :: "string \<Rightarrow> string list" where
  "sample_deps i = (if i = ''a'' then [''c''] else if i = ''d'' then [''d''] else [])"

lemma kahn_is_reference_witness:
  "topological_order sample_deps [''a'', ''b'', ''c'', ''d''] = ([''b'', ''c'', ''a''], [''d''])
   \<and> \<not> acyclic (dep_rel sample_deps [''a'', ''b'', ''c'', ''d''])"
proof -
  have run: "topological_order sample_deps [''a'', ''b'', ''c'', ''d''] = ([''b'', ''c'', ''a''], [''d''])"
    by code_simp
  with kahn_is_reference [of "[''a'', ''b'', ''c'', ''d'']" sample_deps] show ?thesis by simp
qed

text \<open>
  C36: \<open>plan_selected\<close> accepts exactly the batches that are non-empty, name known issues once each,
  none of them terminal, whose dependencies are selected too or done, that omit no active issue and
  hold no dependency cycle; an accepted plan is a permutation of the request in which every dependency
  is done or comes earlier, and a refused one orders nothing.
\<close>

theorem plan_selected_correct:
  assumes "distinct (map spec_id ss)" and "distinct (keys states)"
  shows "(plan_ok (plan_selected ss states sel) \<longleftrightarrow> sel \<noteq> [] \<and> batch_ok ss states sel)
    \<and> (if plan_ok (plan_selected ss states sel)
       then mset (ordered_ids (plan_selected ss states sel)) = mset sel
         \<and> runs_in_order ss states (ordered_ids (plan_selected ss states sel))
       else ordered_ids (plan_selected ss states sel) = [])"
  using plan_selected_iff [OF assms] plan_order_runs [OF assms] refused_orders_nothing [of ss states sel] by simp

definition sample_specs :: "issue_spec list" where
  "sample_specs = [\<lparr>spec_id = ''a'', spec_title = ''A'', spec_body = [], spec_deps = [''b''], spec_criteria = []\<rparr>,
     \<lparr>spec_id = ''b'', spec_title = ''B'', spec_body = [], spec_deps = [''c''], spec_criteria = []\<rparr>,
     \<lparr>spec_id = ''c'', spec_title = ''C'', spec_body = [], spec_deps = [], spec_criteria = []\<rparr>]"

lemma plan_selected_correct_witness:
  "batch_ok sample_specs [(''c'', ''DONE'')] [''a'', ''b'']
   \<and> ordered_ids (plan_selected sample_specs [(''c'', ''DONE'')] [''a'', ''b'']) = [''b'', ''a'']
   \<and> \<not> batch_ok sample_specs [(''c'', ''PENDING'')] [''a'', ''b'']"
proof -
  have ok: "plan_ok (plan_selected sample_specs [(''c'', ''DONE'')] [''a'', ''b''])"
    "\<not> plan_ok (plan_selected sample_specs [(''c'', ''PENDING'')] [''a'', ''b''])"
    "ordered_ids (plan_selected sample_specs [(''c'', ''DONE'')] [''a'', ''b'']) = [''b'', ''a'']"
    by code_simp+
  have d: "distinct (map spec_id sample_specs)" by (simp add: sample_specs_def)
  show ?thesis
    using ok plan_selected_correct [OF d, of "[(''c'', ''DONE'')]" "[''a'', ''b'']"]
      plan_selected_correct [OF d, of "[(''c'', ''PENDING'')]" "[''a'', ''b'']"] by simp
qed

text \<open>
  while any configured issue is not terminal, \<open>plan_run_all\<close> is \<open>plan_selected\<close> for all the
  non-terminal issues of the file, with the terminal ones reported as excluded.
\<close>

theorem run_all_is_selection:
  assumes "distinct (map spec_id ss)" and "distinct (keys states)"
    and "filter (\<lambda>i. \<not> is_terminal states i) (map spec_id ss) \<noteq> []"
  shows "plan_run_all ss states =
    (plan_selected ss states (filter (\<lambda>i. \<not> is_terminal states i) (map spec_id ss)))
      \<lparr>excluded := with_state states (map spec_id ss)\<rparr>"
  using assms by (rule run_all_selected)

lemma run_all_is_selection_witness:
  "plan_run_all sample_specs [(''c'', ''DONE'')] =
     (plan_selected sample_specs [(''c'', ''DONE'')] [''a'', ''b''])\<lparr>excluded := [(''c'', ''DONE'')]\<rparr>"
proof -
  have nt: "filter (\<lambda>i. \<not> is_terminal [(''c'', ''DONE'')] i) (map spec_id sample_specs) = [''a'', ''b'']"
    "with_state [(''c'', ''DONE'')] (map spec_id sample_specs) = [(''c'', ''DONE'')]"
    by code_simp+
  have "distinct (map spec_id sample_specs)" by (simp add: sample_specs_def)
  from run_all_is_selection [OF this, of "[(''c'', ''DONE'')]"] show ?thesis by (simp add: nt)
qed

end
