(* ===== verification/Intake.thy ===== *)
theory Intake
  imports IssuesMd "HOL-Library.Multiset"
begin

text \<open>
  The issue intake core: the canonical issue of \<open>src/draindeck_intake/model.py\<close> with its fail-closed
  validation, and the renderer of \<open>compiler.py\<close>. The main result is the round trip through the
  runtime's parser (theory IssuesMd). The constructor's arguments are typed, so the \<open>isinstance\<close>
  checks on them hold by construction; \<open>urllib.parse.urlsplit\<close> is modelled below except for the
  validity of an IP literal between brackets, which is the parameter \<open>ip_literal\<close>.
\<close>

section \<open>URLs\<close>

definition utf8_length :: "string \<Rightarrow> nat" where
  "utf8_length s = sum_list (map (\<lambda>c. if ord_of c < 128 then 1 else 2) s)"

text \<open>\<open>s.partition(c)\<close> and \<open>s.rpartition(c)\<close>; \<open>None\<close> where the separator is absent.\<close>

definition partition_at :: "char \<Rightarrow> string \<Rightarrow> (string \<times> string) option" where
  "partition_at c s =
     (if c \<in> set s then Some (takeWhile (\<lambda>d. d \<noteq> c) s, tl (dropWhile (\<lambda>d. d \<noteq> c) s)) else None)"

definition rpartition_at :: "char \<Rightarrow> string \<Rightarrow> (string \<times> string) option" where
  "rpartition_at c s = map_option (\<lambda>(a, b). (rev b, rev a)) (partition_at c (rev s))"

record url =
  u_scheme :: string
  u_netloc :: string
  u_path :: string
  u_query :: string
  u_fragment :: string

definition scheme_char :: "char \<Rightarrow> bool" where
  "scheme_char c \<longleftrightarrow> is_alnum c \<or> c \<in> set ''+-.''"

definition split_scheme :: "string \<Rightarrow> string \<times> string" where
  "split_scheme s =
     (case partition_at CHR '':'' s of
        Some (a, b) \<Rightarrow> if a \<noteq> [] \<and> (is_upper (hd a) \<or> is_lower (hd a)) \<and> list_all scheme_char a
          then (lower a, b) else ([], s)
      | None \<Rightarrow> ([], s))"

text \<open>\<open>None\<close> is the \<open>ValueError\<close> of unbalanced brackets or a bracketed text that is no address.\<close>

definition cut :: "char \<Rightarrow> string \<Rightarrow> string \<times> string" where
  "cut c s = (case partition_at c s of Some (a, b) \<Rightarrow> (a, b) | None \<Rightarrow> (s, []))"

definition after_userinfo :: "string \<Rightarrow> string" where
  "after_userinfo netloc = (case rpartition_at CHR ''@'' netloc of Some (_, h) \<Rightarrow> h | None \<Rightarrow> netloc)"

definition bracket_ok :: "(string \<Rightarrow> bool) \<Rightarrow> string \<Rightarrow> bool" where
  "bracket_ok ip_literal netloc =
     (if CHR ''['' \<in> set netloc \<and> CHR '']'' \<in> set netloc then
        (case partition_at CHR ''['' (after_userinfo netloc) of
           Some (before, b) \<Rightarrow>
             (let (h, after) = cut CHR '']'' b in before = [] \<and> (after = [] \<or> hd after = CHR '':'') \<and> ip_literal h)
         | None \<Rightarrow> ip_literal (fst (cut CHR '':'' (after_userinfo netloc))))
      else CHR ''['' \<notin> set netloc \<and> CHR '']'' \<notin> set netloc)"

definition clean_url :: "string \<Rightarrow> string" where
  "clean_url s = filter (\<lambda>c. c \<notin> {LF, CR, CHR 0x09}) (dropWhile (\<lambda>c. ord_of c \<le> 32) s)"

definition netloc_of :: "string \<Rightarrow> string" where
  "netloc_of r = (if starts_with ''//'' r then takeWhile (\<lambda>c. c \<notin> set ''/?#'') (drop 2 r) else [])"

definition urlsplit :: "(string \<Rightarrow> bool) \<Rightarrow> string \<Rightarrow> url option" where
  "urlsplit ip_literal s =
     (let (scheme, r) = split_scheme (clean_url s);
          netloc = netloc_of r;
          (s1, fragment) = cut CHR ''#'' (if starts_with ''//'' r then drop (2 + length netloc) r else r);
          (path, query) = cut CHR ''?'' s1
      in if bracket_ok ip_literal netloc
         then Some \<lparr>u_scheme = scheme, u_netloc = netloc, u_path = path, u_query = query, u_fragment = fragment\<rparr>
         else None)"

lemma urlsplit_fields:
  assumes "split_scheme (clean_url s) = (sc, r)"
  shows "bracket_ok ip (netloc_of r) \<Longrightarrow> \<exists>u. urlsplit ip s = Some u"
    and "urlsplit ip s = Some u \<Longrightarrow> u_scheme u = sc \<and> u_netloc u = netloc_of r \<and> bracket_ok ip (netloc_of r)"
  using assms by (auto simp: urlsplit_def Let_def case_prod_beta split: if_splits)

definition hostinfo :: "url \<Rightarrow> string" where
  "hostinfo u = after_userinfo (u_netloc u)"

definition hostname :: "url \<Rightarrow> string option" where
  "hostname u =
     (let h = (case partition_at CHR ''['' (hostinfo u) of
                 Some (_, b) \<Rightarrow> fst (cut CHR '']'' b)
               | None \<Rightarrow> fst (cut CHR '':'' (hostinfo u)));
          name = takeWhile (\<lambda>c. c \<noteq> CHR ''%'') h
      in if h = [] then None else Some (lower name @ drop (length name) h))"

text \<open>\<open>username\<close> is \<open>None\<close> exactly when there is no \<open>@\<close>, and then so is \<open>password\<close>.\<close>

definition has_userinfo :: "url \<Rightarrow> bool" where
  "has_userinfo u \<longleftrightarrow> CHR ''@'' \<in> set (u_netloc u)"

section \<open>The canonical issue\<close>

datatype issue_error = NotTrimmed string | NotOneLine string | TooLong string | TooMany string
  | Repeated string | BadId string | DependsOnItself | BadVersion | BadKind | BodyTooLarge | BadUrl
  | UrlValueError | EmptySegment | NoSegments

definition MAX_TITLE_CHARS :: nat where "MAX_TITLE_CHARS = 500"
definition MAX_BODY_BYTES :: nat where "MAX_BODY_BYTES = 256 * 1024"
definition MAX_SOURCE_ID_CHARS :: nat where "MAX_SOURCE_ID_CHARS = 2048"
definition MAX_URL_CHARS :: nat where "MAX_URL_CHARS = 2048"
definition MAX_ITEMS :: nat where "MAX_ITEMS = 100"
definition MAX_ITEM_CHARS :: nat where "MAX_ITEM_CHARS = 2000"
definition MAX_SOURCE_STATE_CHARS :: nat where "MAX_SOURCE_STATE_CHARS = 256"
definition MAX_UPDATED_AT_CHARS :: nat where "MAX_UPDATED_AT_CHARS = 128"

definition line_value :: "string \<Rightarrow> nat \<Rightarrow> string \<Rightarrow> issue_error + string" where
  "line_value field maximum v =
     (if v = [] \<or> strip v \<noteq> v then Inl (NotTrimmed field)
      else if \<not> single_line v then Inl (NotOneLine field)
      else if maximum < length v then Inl (TooLong field) else Inr v)"

definition optional_line :: "string \<Rightarrow> nat \<Rightarrow> string option \<Rightarrow> issue_error + string option" where
  "optional_line field maximum v =
     (case v of None \<Rightarrow> Inr None | Some s \<Rightarrow> rbind (line_value field maximum s) (\<lambda>s. Inr (Some s)))"

definition lines_value :: "string \<Rightarrow> string list \<Rightarrow> issue_error + string list" where
  "lines_value field vs =
     rbind (rmap (line_value field MAX_ITEM_CHARS) vs) (\<lambda>r.
     if MAX_ITEMS < length r then Inl (TooMany field)
     else if \<not> distinct r then Inl (Repeated field) else Inr r)"

definition validate_issue_id :: "string \<Rightarrow> string \<Rightarrow> issue_error + string" where
  "validate_issue_id field v = (if issue_id_text v then Inr v else Inl (BadId field))"

text \<open>The two substitutions and the strip of \<open>normalize_id_segment\<close>.\<close>

definition segment_char :: "char \<Rightarrow> bool" where
  "segment_char c \<longleftrightarrow> is_lower c \<or> is_digit c \<or> c = CHR ''_'' \<or> c = CHR ''-''"

definition separator :: "char \<Rightarrow> bool" where
  "separator c \<longleftrightarrow> c = CHR ''_'' \<or> c = CHR ''-''"

text \<open>\<open>[^a-z0-9_-]+\<close> becomes one dash; the flag says that the last character was in such a run.\<close>

fun dash_runs :: "bool \<Rightarrow> string \<Rightarrow> string" where
  "dash_runs inrun [] = []"
| "dash_runs inrun (c # s) =
     (if segment_char c then c # dash_runs False s
      else if inrun then dash_runs True s else CHR ''-'' # dash_runs True s)"

text \<open>\<open>[-_]{2,}\<close> becomes one dash.\<close>

function squeeze :: "string \<Rightarrow> string" where
  "squeeze [] = []"
| "squeeze (c # s) =
     (if separator c \<and> s \<noteq> [] \<and> separator (hd s) then CHR ''-'' # squeeze (dropWhile separator s)
      else c # squeeze s)"
  by pat_completeness auto
termination
  by (relation "measure length") (auto simp: le_imp_less_Suc length_dropWhile_le)

definition strip_separators :: "string \<Rightarrow> string" where
  "strip_separators s = rev (dropWhile separator (rev (dropWhile separator s)))"

definition normalize_id_segment :: "string \<Rightarrow> issue_error + string" where
  "normalize_id_segment v =
     (let r = strip_separators (squeeze (dash_runs False (lower (strip v))))
      in if r = [] then Inl EmptySegment else Inr r)"

definition make_scoped_issue_id :: "string \<Rightarrow> string list \<Rightarrow> issue_error + string" where
  "make_scoped_issue_id prefix segments =
     (if segments = [] then Inl NoSegments
      else rbind (rmap normalize_id_segment (prefix # segments)) (\<lambda>rs.
           validate_issue_id ''issue_id'' (join ''-'' rs)))"

record canonical_issue =
  ci_id :: string
  ci_kind :: string
  ci_source_id :: string
  ci_title :: string
  ci_body :: string
  ci_deps :: "string list"
  ci_criteria :: "string list"
  ci_labels :: "string list"
  ci_url :: "string option"
  ci_state :: "string option"
  ci_updated :: "string option"
  ci_version :: int

definition SOURCE_KINDS :: "string list" where
  "SOURCE_KINDS = [''issues-md'', ''github'', ''jira'', ''linear'']"

definition check_url :: "(string \<Rightarrow> bool) \<Rightarrow> string option \<Rightarrow> issue_error + unit" where
  "check_url ip_literal v =
     (case v of None \<Rightarrow> Inr ()
      | Some s \<Rightarrow> rbind (line_value ''source_url'' MAX_URL_CHARS s) (\<lambda>s.
          case urlsplit ip_literal s of
            None \<Rightarrow> Inl UrlValueError
          | Some u \<Rightarrow> require (lower (u_scheme u) = ''https'' \<and> hostname u \<noteq> None \<and> \<not> has_userinfo u) BadUrl))"

text \<open>\<open>CanonicalIssueV1(...)\<close>: \<open>__post_init__\<close> on the given fields, which it stores unchanged.\<close>

definition canonical_issue_of :: "(string \<Rightarrow> bool) \<Rightarrow> canonical_issue \<Rightarrow> issue_error + canonical_issue" where
  "canonical_issue_of ip_literal i =
     rbind (require (ci_version i = 1) BadVersion) (\<lambda>_.
     rbind (validate_issue_id ''issue_id'' (ci_id i)) (\<lambda>_.
     rbind (require (ci_kind i \<in> set SOURCE_KINDS) BadKind) (\<lambda>_.
     rbind (line_value ''source_id'' MAX_SOURCE_ID_CHARS (ci_source_id i)) (\<lambda>_.
     rbind (line_value ''title'' MAX_TITLE_CHARS (ci_title i)) (\<lambda>_.
     rbind (require (utf8_length (ci_body i) \<le> MAX_BODY_BYTES) BodyTooLarge) (\<lambda>_.
     rbind (lines_value ''depends_on'' (ci_deps i)) (\<lambda>deps.
     rbind (rmap (validate_issue_id ''depends_on'') deps) (\<lambda>deps.
     rbind (require (ci_id i \<notin> set deps) DependsOnItself) (\<lambda>_.
     rbind (lines_value ''acceptance_criteria'' (ci_criteria i)) (\<lambda>_.
     rbind (lines_value ''labels'' (ci_labels i)) (\<lambda>_.
     rbind (check_url ip_literal (ci_url i)) (\<lambda>_.
     rbind (optional_line ''source_state'' MAX_SOURCE_STATE_CHARS (ci_state i)) (\<lambda>_.
     rbind (optional_line ''updated_at'' MAX_UPDATED_AT_CHARS (ci_updated i)) (\<lambda>_.
     Inr i))))))))))))))"

section \<open>The renderer\<close>

definition MANAGED_MARKER :: string where
  "MANAGED_MARKER = ''<!-- draindeck-intake:managed v1 -->''"

text \<open>The three regular expressions of the renderer, which allow leading white space.\<close>

definition structural :: "string \<Rightarrow> bool" where
  "structural line =
     (let s = lstrip line in
      starts_with ''##'' s \<and> length s > 2 \<and> py_space (s ! 2)
      \<or> depends s \<noteq> None \<or> accept_heading s)"

definition quote_structural_body_line :: "string \<Rightarrow> string" where
  "quote_structural_body_line line = (if structural line then ''> '' @ line else line)"

definition optional_meta :: "string \<Rightarrow> string option \<Rightarrow> string list" where
  "optional_meta name v = (case v of None \<Rightarrow> [] | Some s \<Rightarrow> [name @ '': '' @ s])"

definition source_meta :: "canonical_issue \<Rightarrow> string list" where
  "source_meta i =
     (''Source: '' @ ci_kind i @ '':'' @ ci_source_id i)
     # optional_meta ''Source-URL'' (ci_url i) @ optional_meta ''Source-State'' (ci_state i)
     @ optional_meta ''Updated-At'' (ci_updated i)
     @ (if ci_labels i = [] then [] else [''Labels: '' @ join '', '' (sort (ci_labels i))])"

definition body_part :: "canonical_issue \<Rightarrow> string list" where
  "body_part i =
     (if ci_body i = [] then [] else [] # map quote_structural_body_line (splitlines (ci_body i)))"

definition render_lines :: "canonical_issue \<Rightarrow> string list" where
  "render_lines i =
     (''## '' @ ci_id i @ '': '' @ ci_title i) # body_part i @ [] # source_meta i
     @ (if ci_deps i = [] then [] else [''Depends-On: '' @ join '', '' (ci_deps i)])
     @ (if ci_criteria i = [] then [] else ''### Acceptance'' # map (\<lambda>c. ''- '' @ c) (ci_criteria i))"

definition render_issue :: "canonical_issue \<Rightarrow> string" where
  "render_issue i = join [LF] (render_lines i)"

text \<open>\<open>Inl i\<close> is the \<open>CompileError\<close> that names a repeated identifier.\<close>

fun first_repeated :: "string list \<Rightarrow> string list \<Rightarrow> string option" where
  "first_repeated seen [] = None"
| "first_repeated seen (x # xs) = (if x \<in> set seen then Some x else first_repeated (x # seen) xs)"

definition in_id_order :: "canonical_issue list \<Rightarrow> canonical_issue list" where
  "in_id_order is = sort_key ci_id is"

definition compile_issues_md :: "canonical_issue list \<Rightarrow> string + string" where
  "compile_issues_md is =
     (let ordered = in_id_order is in
      case first_repeated [] (map ci_id ordered) of
        Some i \<Rightarrow> Inl i
      | None \<Rightarrow> Inr (join [LF, LF] (MANAGED_MARKER # map render_issue ordered) @ [LF]))"

section \<open>Parsing a rendered document\<close>

subsection \<open>Lines the parser keeps\<close>

text \<open>A line that is no heading of either kind and names no dependency goes to the body.\<close>

definition plain :: "string \<Rightarrow> bool" where
  "plain l \<longleftrightarrow> heading l = None \<and> \<not> accept_heading l \<and> depends (strip l) = None"

lemma depends_hd: "depends s \<noteq> None \<Longrightarrow> s \<noteq> [] \<and> lower_char (hd s) = CHR ''d''"
  by (cases s) (auto simp: depends_def Let_def lower_def split: if_splits)

lemma strip_hd: "l \<noteq> [] \<Longrightarrow> \<not> py_space (hd l) \<Longrightarrow> strip l \<noteq> [] \<and> hd (strip l) = hd l"
  using rstrip_hd [of l] by (simp add: strip_def lstrip_def dropWhile_id)

lemma lower_char_d: "lower_char c = CHR ''d'' \<longleftrightarrow> c = CHR ''d'' \<or> c = CHR ''D''"
proof
  assume "lower_char c = CHR ''d''"
  then have "ord_of (lower_char c) = 100" by (simp add: ord_of_def)
  then have "ord_of c = ord_of CHR ''d'' \<or> ord_of c = ord_of CHR ''D''"
    by (auto simp: lower_char_def Let_def ord_of_def of_char_of split: if_splits)
  then show "c = CHR ''d'' \<or> c = CHR ''D''" unfolding ord_of_def of_char_eq_iff .
next
  have "lower_char CHR ''d'' = CHR ''d''" and "lower_char CHR ''D'' = CHR ''d''" by code_simp+
  then show "c = CHR ''d'' \<or> c = CHR ''D'' \<Longrightarrow> lower_char c = CHR ''d''" by auto
qed

lemma plain_by_hd:
  assumes "l \<noteq> []" "\<not> py_space (hd l)" "hd l \<noteq> CHR ''#''" "hd l \<noteq> CHR ''d''" "hd l \<noteq> CHR ''D''"
  shows "plain l"
proof -
  have "\<not> starts_with ''##'' l" "\<not> starts_with ''###'' l"
    using assms by (cases l; simp add: starts_with_def)+
  then show ?thesis
    using assms strip_hd [of l] depends_hd [of "strip l"] lower_char_d [of "hd l"]
    by (cases "depends (strip l)") (simp_all add: plain_def heading_def accept_heading_def)
qed

lemma plain_Nil: "plain []"
  by (simp add: plain_def heading_def accept_heading_def depends_def starts_with_def lower_def)

lemma depends_append:
  assumes "depends s \<noteq> None"
  shows "depends (s @ w) \<noteq> None"
proof -
  from assms have low: "lower (take 10 s) = ''depends-on''" and ne: "dropWhile py_space (drop 10 s) \<noteq> []"
    and colon: "hd (dropWhile py_space (drop 10 s)) = CHR '':''"
    by (auto simp: depends_def Let_def split: if_splits)
  from arg_cong [OF low, of length] have len: "10 \<le> length s" by (simp add: lower_def)
  have "dropWhile py_space (drop 10 s @ w) = dropWhile py_space (drop 10 s) @ w"
    using ne by (induction "drop 10 s" arbitrary: w) (auto simp: dropWhile_append)
  with low ne colon len show ?thesis by (simp add: depends_def)
qed

lemma depends_rstrip: "depends (rstrip t) \<noteq> None \<Longrightarrow> depends t \<noteq> None"
  using depends_append [of "rstrip t"] by (metis rstrip_def rev_append rev_rev_ident takeWhile_dropWhile_id)

lemma plain_unquoted:
  assumes "\<not> structural l"
  shows "plain l"
proof -
  have "depends (strip l) = None"
    using assms depends_rstrip [of "lstrip l"] unfolding structural_def strip_def Let_def by blast
  moreover have "lstrip l = l" if "starts_with ''##'' l \<or> starts_with ''###'' l"
  proof -
    from that have "l \<noteq> [] \<and> hd l = CHR ''#''" by (cases l) (auto simp: starts_with_def)
    then show ?thesis by (simp add: lstrip_def dropWhile_id char_class_defs)
  qed
  ultimately show ?thesis
    using assms by (auto simp: plain_def structural_def heading_def spaced_text_def accept_heading_def Let_def
        hd_drop_conv_nth split: if_splits)
qed

lemma plain_quoted: "plain (quote_structural_body_line l)"
  by (simp add: quote_structural_body_line_def plain_unquoted plain_by_hd char_class_defs)

lemma plain_meta:
  "l \<in> set (source_meta i) \<Longrightarrow> plain l"
  by (rule plain_by_hd)
    (auto simp: source_meta_def optional_meta_def char_class_defs split: option.splits if_splits)

lemma plain_step:
  assumes "plain l" "cur_spec st = Some c" "\<not> in_acceptance st"
  shows "parse_line (n, l) st = Inr (st\<lparr>body_lines := body_lines st @ [l]\<rparr>)"
  using assms by (simp add: plain_def parse_line_def body_line_def)

lemma plain_lines:
  "\<forall>l \<in> set ls. plain l \<Longrightarrow> cur_spec st = Some c \<Longrightarrow> \<not> in_acceptance st \<Longrightarrow>
     rfold parse_line (enumerate n ls) st = Inr (st\<lparr>body_lines := body_lines st @ ls\<rparr>)"
proof (induction ls arbitrary: n st)
  case (Cons l ls)
  then show ?case by (simp add: plain_step [of l st c])
qed simp

subsection \<open>The dependency line and the acceptance section\<close>

lemma split_on_no: "c \<notin> set s \<Longrightarrow> split_on c (s @ c # r) = s # split_on c r" "c \<notin> set s \<Longrightarrow> split_on c s = [s]"
  by (induction s) (auto split: list.splits)

lemma strip_space: "strip (SP # s) = strip s"
  by (simp add: strip_def lstrip_def char_class_defs)

lemma split_on_ne: "split_on c s \<noteq> []"
  by (cases s) (auto split: list.splits)

lemma split_space: "map strip (split_on CHR '','' (SP # s)) = map strip (split_on CHR '','' s)"
  using split_on_ne [of "CHR '',''" s] by (cases "split_on CHR '','' s") (auto simp: strip_space)

lemma dep_ids_join:
  assumes "list_all issue_id_text ids"
  shows "dep_ids (join '', '' ids) = ids"
proof -
  have no: "CHR '','' \<notin> set i \<and> strip i = i \<and> i \<noteq> []" if "issue_id_text i" for i
    using that id_char_no_space issue_id_strip [OF that] by (auto simp: issue_id_text_def list_all_iff)
  have "map strip (split_on CHR '','' (join '', '' ids)) = (if ids = [] then [[]] else ids)"
    using assms
  proof (induction "'', ''" ids rule: join.induct)
    case (3 x y zs)
    then have "map strip (split_on CHR '','' (SP # join '', '' (y # zs))) = y # zs"
      by (subst split_space) simp
    with 3 no [of x] show ?case by (simp add: split_on_no del: join.simps(3) split_on.simps) (simp add: split_on_no)
  qed (use no in \<open>auto simp: split_on_no\<close>)
  moreover have "[] \<notin> set ids" using assms no by (auto simp: list_all_iff)
  ultimately show ?thesis by (auto simp: dep_ids_def filter_id_conv)
qed

lemma depends_line:
  assumes "list_all issue_id_text ids" "ids \<noteq> []"
  shows "depends (strip (''Depends-On: '' @ join '', '' ids)) = Some (join '', '' ids)"
proof -
  have ends: "join '', '' ids \<noteq> [] \<and> \<not> py_space (hd (join '', '' ids)) \<and> \<not> py_space (last (join '', '' ids))"
    using assms
  proof (induction "'', ''" ids rule: join.induct)
    case (2 x)
    then show ?case using issue_id_strip [of x] by (auto simp: strip_eq_self_iff issue_id_text_def)
  next
    case (3 x y zs)
    then show ?case using issue_id_strip [of x] by (auto simp: strip_eq_self_iff issue_id_text_def)
  qed simp
  let ?l = "''Depends-On: '' @ join '', '' ids"
  have "strip ?l = ?l" using ends by (subst strip_eq_self_iff) (auto simp: char_class_defs)
  moreover have "lower ''Depends-On'' = ''depends-on''" by code_simp
  ultimately show ?thesis using ends by (simp add: depends_def dropWhile_id char_class_defs)
qed

lemma depends_step:
  assumes "list_all issue_id_text ids" "ids \<noteq> []" "cur_spec st = Some c"
  shows "parse_line (n, ''Depends-On: '' @ join '', '' ids) st = Inr (st\<lparr>cur_spec := Some (c\<lparr>spec_deps := ids\<rparr>)\<rparr>)"
proof -
  have "heading (''Depends-On: '' @ join '', '' ids) = None" "\<not> accept_heading (''Depends-On: '' @ join '', '' ids)"
    by (simp_all add: heading_def accept_heading_def starts_with_def)
  then show ?thesis
    using assms depends_line [OF assms(1,2)] by (simp add: parse_line_def body_line_def dep_ids_join)
qed

definition criterion_ok :: "string \<Rightarrow> bool" where
  "criterion_ok t \<longleftrightarrow> t \<noteq> [] \<and> strip t = t"

lemma criterion_step:
  assumes "criterion_ok t" "cur_spec st = Some c" "in_acceptance st"
  shows "parse_line (n, ''- '' @ t) st = Inr (st\<lparr>cur_spec := Some (c\<lparr>spec_criteria := spec_criteria c @ [t]\<rparr>)\<rparr>)"
proof -
  have s: "strip (''- '' @ t) = ''- '' @ t"
    using assms(1) by (subst strip_eq_self_iff) (auto simp: criterion_ok_def strip_eq_self_iff char_class_defs)
  have "plain (''- '' @ t)" by (simp add: plain_by_hd char_class_defs)
  then show ?thesis
    using assms s by (simp add: plain_def parse_line_def body_line_def bullet_def criterion_ok_def spaced_text_trimmed)
qed

lemma criteria_lines:
  "list_all criterion_ok ts \<Longrightarrow> cur_spec st = Some c \<Longrightarrow> in_acceptance st \<Longrightarrow>
     rfold parse_line (enumerate n (map (\<lambda>t. ''- '' @ t) ts)) st
       = Inr (st\<lparr>cur_spec := Some (c\<lparr>spec_criteria := spec_criteria c @ ts\<rparr>)\<rparr>)"
proof (induction ts arbitrary: n st c)
  case (Cons t ts)
  then show ?case using criterion_step [of t st c n] by simp
qed simp

lemma accept_step:
  "cur_spec st = Some c \<Longrightarrow> parse_line (n, ''### Acceptance'') st = Inr (st\<lparr>in_acceptance := True\<rparr>)"
proof -
  have "heading ''### Acceptance'' = None" "accept_heading ''### Acceptance''" by code_simp+
  then show "cur_spec st = Some c \<Longrightarrow> ?thesis" by (simp add: parse_line_def body_line_def)
qed

subsection \<open>A whole issue\<close>

definition spec_of :: "canonical_issue \<Rightarrow> issue_spec" where
  "spec_of i = \<lparr>spec_id = ci_id i, spec_title = ci_title i,
     spec_body = strip (join [LF] (body_part i @ [] # source_meta i)),
     spec_deps = ci_deps i, spec_criteria = ci_criteria i\<rparr>"

definition renders :: "canonical_issue \<Rightarrow> bool" where
  "renders i \<longleftrightarrow> issue_id_text (ci_id i) \<and> criterion_ok (ci_title i) \<and> list_all issue_id_text (ci_deps i)
     \<and> list_all criterion_ok (ci_criteria i) \<and> list_all single_line (render_lines i)"

lemma parse_app:
  "rfold parse_line (enumerate n (xs @ ys)) st
     = rbind (rfold parse_line (enumerate n xs) st) (rfold parse_line (enumerate (n + length xs) ys))"
  by (simp add: enumerate_append_eq rfold_append)

lemma heading_step:
  assumes "issue_id_text i" "criterion_ok t" "i \<notin> set (seen_ids st)"
  shows "parse_line (n, ''## '' @ i @ '': '' @ t) st = Inr ((flush_spec st)\<lparr>seen_ids := i # seen_ids st,
     cur_spec := Some \<lparr>spec_id = i, spec_title = t, spec_body = [], spec_deps = [], spec_criteria = []\<rparr>\<rparr>)"
proof -
  have "strip (i @ '': '' @ t) = i @ '': '' @ t"
    using assms issue_id_strip [of i]
    by (subst strip_eq_self_iff) (auto simp: issue_id_text_def criterion_ok_def strip_eq_self_iff)
  then have "heading (''## '' @ i @ '': '' @ t) = Some (i @ '': '' @ t)"
    by (simp add: heading_def starts_with_def spaced_text_trimmed)
  moreover have "id_title (i @ '': '' @ t) = Some (i, t)"
    using assms by (intro id_title_rendered) (simp_all add: criterion_ok_def)
  ultimately show ?thesis using assms(3) by (simp add: parse_line_def open_spec_def seen_body)
qed

lemma deps_step:
  assumes "list_all issue_id_text ds" "cur_spec st = Some c" "spec_deps c = []"
  shows "rfold parse_line (enumerate n (if ds = [] then [] else [''Depends-On: '' @ join '', '' ds])) st
    = Inr (st\<lparr>cur_spec := Some (c\<lparr>spec_deps := ds\<rparr>)\<rparr>)"
  using assms depends_step [of ds st c n] by auto

lemma acceptance_step:
  assumes "list_all criterion_ok ts" "cur_spec st = Some c" "spec_criteria c = []"
  shows "\<exists>a. rfold parse_line (enumerate n (if ts = [] then [] else ''### Acceptance'' # map (\<lambda>c. ''- '' @ c) ts)) st
    = Inr (st\<lparr>cur_spec := Some (c\<lparr>spec_criteria := ts\<rparr>), in_acceptance := a\<rparr>)"
proof (cases "ts = []")
  case True
  with assms show ?thesis by (intro exI [of _ "in_acceptance st"]) simp
next
  case False
  with assms show ?thesis
    by (intro exI [of _ True]) (simp add: accept_step [OF assms(2)] criteria_lines [OF assms(1), of _ c])
qed

lemma strip_snoc: "py_space c \<Longrightarrow> strip (s @ [c]) = strip s"
proof -
  assume "py_space c"
  then show ?thesis
    by (cases "dropWhile py_space s = []") (auto simp: strip_def rstrip_def lstrip_def dropWhile_append dest: set_dropWhileD)
qed

lemma blank_step:
  "\<exists>st'. parse_line (n, []) st = Inr st' \<and> seen_ids st' = seen_ids st \<and> specs (flush_spec st') = specs (flush_spec st)"
proof (cases "cur_spec st")
  case None
  then show ?thesis using plain_Nil by (simp add: plain_def parse_line_def)
next
  case (Some c)
  have "join [LF] (ls @ [[]]) = (if ls = [] then [] else join [LF] ls @ [LF])" for ls
    by (induction "[LF]" ls rule: join.induct) auto
  then have "strip (join [LF] (ls @ [[]])) = strip (join [LF] ls)" for ls
    by (simp add: strip_snoc line_boundary_space)
  with Some show ?thesis using plain_Nil
    by (simp add: plain_def parse_line_def body_line_def bullet_def flush_spec_def)
qed

lemma issue_lines:
  assumes "renders i" "ci_id i \<notin> set (seen_ids st)"
  shows "\<exists>st'. rfold parse_line (enumerate n ([] # render_lines i)) st = Inr st'
    \<and> seen_ids st' = ci_id i # seen_ids st \<and> specs (flush_spec st') = specs (flush_spec st) @ [spec_of i]"
proof -
  obtain st0 where st0: "parse_line (n, []) st = Inr st0" "seen_ids st0 = seen_ids st"
    "specs (flush_spec st0) = specs (flush_spec st)" using blank_step by blast
  define c where "c = \<lparr>spec_id = ci_id i, spec_title = ci_title i, spec_body = [], spec_deps = [], spec_criteria = []\<rparr>"
  define bl where "bl = body_part i @ [] # source_meta i"
  define s1 where "s1 = (flush_spec st0)\<lparr>seen_ids := ci_id i # seen_ids st, cur_spec := Some c\<rparr>"
  have bl: "\<forall>l \<in> set bl. plain l"
    by (auto simp: bl_def body_part_def plain_Nil plain_quoted dest: plain_meta)
  have head: "parse_line (Suc n, ''## '' @ ci_id i @ '': '' @ ci_title i) st0 = Inr s1"
    using heading_step [of "ci_id i" "ci_title i" st0] assms st0(2) by (simp add: renders_def s1_def c_def)
  have body: "rfold parse_line (enumerate k bl) s1 = Inr (s1\<lparr>body_lines := bl\<rparr>)" for k
    using plain_lines [OF bl, of s1 c k] by (simp add: s1_def flush_spec_def)
  define s2 where "s2 = s1\<lparr>body_lines := bl, cur_spec := Some (c\<lparr>spec_deps := ci_deps i\<rparr>)\<rparr>"
  have deps: "rfold parse_line (enumerate k (if ci_deps i = [] then [] else [''Depends-On: '' @ join '', '' (ci_deps i)]))
      (s1\<lparr>body_lines := bl\<rparr>) = Inr s2" for k
    using assms(1) by (subst deps_step [of _ _ c]) (simp_all add: renders_def s1_def s2_def c_def)
  obtain a where acc: "rfold parse_line (enumerate (Suc (Suc n) + length bl +
        length (if ci_deps i = [] then [] else [''Depends-On: '' @ join '', '' (ci_deps i)]))
        (if ci_criteria i = [] then [] else ''### Acceptance'' # map (\<lambda>c. ''- '' @ c) (ci_criteria i))) s2
      = Inr (s2\<lparr>cur_spec := Some (c\<lparr>spec_deps := ci_deps i, spec_criteria := ci_criteria i\<rparr>), in_acceptance := a\<rparr>)"
    using assms(1) acceptance_step [of "ci_criteria i" s2 "c\<lparr>spec_deps := ci_deps i\<rparr>"]
    by (fastforce simp: renders_def s2_def c_def)
  have lines: "render_lines i = (''## '' @ ci_id i @ '': '' @ ci_title i) # bl
      @ (if ci_deps i = [] then [] else [''Depends-On: '' @ join '', '' (ci_deps i)])
      @ (if ci_criteria i = [] then [] else ''### Acceptance'' # map (\<lambda>c. ''- '' @ c) (ci_criteria i))"
    by (simp add: render_lines_def bl_def)
  have "rfold parse_line (enumerate n ([] # render_lines i)) st =
      Inr (s2\<lparr>cur_spec := Some (c\<lparr>spec_deps := ci_deps i, spec_criteria := ci_criteria i\<rparr>), in_acceptance := a\<rparr>)"
    unfolding lines using st0(1) head body deps acc by (simp add: parse_app del: append.simps)
  then show ?thesis
    using st0 by (auto simp: s2_def s1_def flush_spec_def c_def spec_of_def bl_def)
qed

lemma issues_lines:
  assumes "list_all renders is" "distinct (map ci_id is)" "set (map ci_id is) \<inter> set (seen_ids st) = {}"
  shows "\<exists>st'. rfold parse_line (enumerate n (concat (map (\<lambda>i. [] # render_lines i) is))) st = Inr st'
    \<and> specs (flush_spec st') = specs (flush_spec st) @ map spec_of is"
  using assms
proof (induction "is" arbitrary: n st)
  case (Cons i "is")
  then obtain st1 where st1: "rfold parse_line (enumerate n ([] # render_lines i)) st = Inr st1"
    "seen_ids st1 = ci_id i # seen_ids st" "specs (flush_spec st1) = specs (flush_spec st) @ [spec_of i]"
    using issue_lines [of i st n] by auto
  have "list_all renders is" "distinct (map ci_id is)" "set (map ci_id is) \<inter> set (seen_ids st1) = {}"
    using Cons.prems st1(2) by auto
  from Cons.IH [OF this, of "n + length ([] # render_lines i)"] obtain st2 where
    st2: "rfold parse_line (enumerate (n + length ([] # render_lines i)) (concat (map (\<lambda>i. [] # render_lines i) is))) st1 = Inr st2"
    "specs (flush_spec st2) = specs (flush_spec st1) @ map spec_of is" by blast
  have "rfold parse_line (enumerate n (concat (map (\<lambda>i. [] # render_lines i) (i # is)))) st = Inr st2"
    using st1(1) st2(1) parse_app [of n "[] # render_lines i" "concat (map (\<lambda>i. [] # render_lines i) is)" st]
    by (simp only: list.map concat.simps rbind_Inr)
  with st1(3) st2(2) show ?case by simp
qed simp

lemma unlines_Cons: "unlines (l # ls) = l @ LF # unlines ls"
  by (simp add: unlines_def)

lemma join_blocks:
  "\<forall>ls \<in> set lss. ls \<noteq> [] \<Longrightarrow>
     join [LF, LF] (m # map (join [LF]) lss) @ [LF] = unlines (m # concat (map (\<lambda>ls. [] # ls) lss))"
proof (induction lss arbitrary: m)
  case (Cons ls lss)
  let ?b = "concat (map (\<lambda>ls. [] # ls) lss)"
  have "join [LF, LF] (join [LF] ls # map (join [LF]) lss) @ [LF] = unlines (join [LF] ls # ?b)"
    using Cons.prems by (intro Cons.IH) simp
  also have "\<dots> = unlines (ls @ ?b)"
    using join_LF_unlines [of ls] Cons.prems by (simp add: unlines_Cons unlines_append)
  finally show ?case by (simp add: unlines_Cons)
qed (simp add: unlines_def)

lemma marker_step: "parse_line (n, MANAGED_MARKER) parse_start = Inr parse_start"
proof -
  have "heading MANAGED_MARKER = None" by code_simp
  then show ?thesis by (simp add: parse_line_def parse_start_def)
qed

lemma first_repeated_None: "first_repeated seen xs = None \<longleftrightarrow> distinct xs \<and> set xs \<inter> set seen = {}"
  by (induction xs arbitrary: seen) auto

lemma render_lines_ne: "render_lines i \<noteq> []"
  by (simp add: render_lines_def)

lemma compile_parses:
  assumes "list_all renders is" "compile_issues_md is = Inr text"
  shows "parse_issues text = Inr (map spec_of (in_id_order is)) \<and> distinct (map ci_id is)"
proof -
  let ?o = "in_id_order is"
  have mem: "set ?o = set is" by (simp add: in_id_order_def)
  from assms(2) have rep: "first_repeated [] (map ci_id ?o) = None"
    and shape: "text = join [LF, LF] (MANAGED_MARKER # map render_issue ?o) @ [LF]"
    by (auto simp: compile_issues_md_def Let_def split: option.splits)
  from rep have d: "distinct (map ci_id ?o)" by (simp add: first_repeated_None)
  have doc: "text = unlines (MANAGED_MARKER # concat (map (\<lambda>i. [] # render_lines i) ?o))"
    using join_blocks [of "map render_lines ?o" MANAGED_MARKER] render_lines_ne
    by (simp add: shape render_issue_def [abs_def] o_def)
  have "single_line MANAGED_MARKER" by code_simp
  then have "\<forall>l \<in> set (MANAGED_MARKER # concat (map (\<lambda>i. [] # render_lines i) ?o)). single_line l"
    using assms(1) mem by (auto simp: list_all_iff renders_def)
  then have lines: "splitlines text = MANAGED_MARKER # concat (map (\<lambda>i. [] # render_lines i) ?o)"
    unfolding doc by (rule splitlines_unlines)
  have "list_all renders ?o" using assms(1) mem by (simp add: list_all_iff)
  from issues_lines [OF this d, of parse_start 2] obtain st where
    "rfold parse_line (enumerate 2 (concat (map (\<lambda>i. [] # render_lines i) ?o))) parse_start = Inr st"
    "specs (flush_spec st) = map spec_of ?o" by (auto simp: parse_start_def flush_spec_def)
  then have "parse_issues text = Inr (map spec_of ?o)"
    by (simp add: parse_issues_def lines marker_step eval_nat_numeral)
  moreover have "distinct (map ci_id is)"
    using d mset_eq_imp_distinct_iff [of "map ci_id ?o" "map ci_id is"] by (simp add: in_id_order_def)
  ultimately show ?thesis by blast
qed

subsection \<open>Validated issues render\<close>

lemma line_value_ok: "line_value f m v = Inr r \<Longrightarrow> r = v \<and> criterion_ok v \<and> single_line v \<and> length v \<le> m"
  by (auto simp: line_value_def criterion_ok_def split: if_splits)

lemma lines_value_ok:
  assumes "lines_value f vs = Inr r"
  shows "r = vs \<and> list_all (\<lambda>v. criterion_ok v \<and> single_line v) vs \<and> distinct vs \<and> length vs \<le> MAX_ITEMS"
proof -
  from assms have m: "rmap (line_value f MAX_ITEM_CHARS) vs = Inr r"
    and d: "distinct r" "length r \<le> MAX_ITEMS" by (auto simp: lines_value_def rbind_eq_Inr split: if_splits)
  from m have "list_all2 (\<lambda>v r. r = v \<and> criterion_ok v \<and> single_line v) vs r"
    unfolding rmap_eq_Inr by (rule list_all2_mono) (auto dest: line_value_ok)
  then have "r = vs \<and> list_all (\<lambda>v. criterion_ok v \<and> single_line v) vs"
    by (induction rule: list_all2_induct) auto
  with d show ?thesis by simp
qed

lemma optional_line_ok: "optional_line f m v = Inr r \<Longrightarrow> \<forall>s. v = Some s \<longrightarrow> single_line s"
  by (auto simp: optional_line_def rbind_eq_Inr dest: line_value_ok split: option.splits)

lemma validate_ids_ok: "rmap (validate_issue_id f) vs = Inr r \<Longrightarrow> r = vs \<and> list_all issue_id_text vs"
  by (induction vs arbitrary: r) (auto simp: rbind_eq_Inr validate_issue_id_def split: if_splits)

lemma single_line_join: "list_all single_line vs \<Longrightarrow> single_line (join '', '' vs)"
proof -
  have "single_line '', ''" by code_simp
  then show "list_all single_line vs \<Longrightarrow> ?thesis" by (induction "'', ''" vs rule: join.induct) simp_all
qed

lemma id_single_line: "issue_id_text i \<Longrightarrow> single_line i"
  using id_char_no_space by (simp add: issue_id_text_def single_line_def list_all_iff)

lemma quoted_single_line: "single_line l \<Longrightarrow> single_line (quote_structural_body_line l)"
  by (simp add: quote_structural_body_line_def char_class_defs)

text \<open>What the constructor guarantees of an accepted issue.\<close>

lemma canonical_issue_facts:
  assumes "canonical_issue_of ip i = Inr j"
  shows "j = i" "issue_id_text (ci_id i)" "ci_kind i \<in> set SOURCE_KINDS" "criterion_ok (ci_title i)"
    "single_line (ci_title i)" "single_line (ci_source_id i)" "list_all issue_id_text (ci_deps i)"
    "distinct (ci_deps i)" "ci_id i \<notin> set (ci_deps i)"
    "list_all (\<lambda>v. criterion_ok v \<and> single_line v) (ci_criteria i)"
    "list_all (\<lambda>v. criterion_ok v \<and> single_line v) (ci_labels i)"
    "\<forall>s. ci_url i = Some s \<longrightarrow> single_line s" "\<forall>s. ci_state i = Some s \<longrightarrow> single_line s"
    "\<forall>s. ci_updated i = Some s \<longrightarrow> single_line s"
  using assms
  by (auto simp: canonical_issue_of_def rbind_eq_Inr validate_issue_id_def check_url_def
      dest!: line_value_ok lines_value_ok optional_line_ok validate_ids_ok split: if_splits option.splits)

lemma canonical_renders:
  assumes "canonical_issue_of ip i = Inr j"
  shows "renders i"
proof -
  note facts = canonical_issue_facts [OF assms]
  have kind: "single_line (ci_kind i)" using facts(3) by (auto simp: SOURCE_KINDS_def char_class_defs)
  have ascii: "single_line ''## ''" "single_line '': ''" "single_line ''Source: ''" "single_line '':''"
    "single_line ''Source-URL''" "single_line ''Source-State''" "single_line ''Updated-At''" "single_line ''Labels: ''"
    "single_line ''Depends-On: ''" "single_line ''- ''" "single_line ''### Acceptance''"
    by code_simp+
  have "list_all single_line (body_part i)"
    by (auto simp: body_part_def list_all_iff intro: quoted_single_line single_line_splitlines)
  moreover have "list_all single_line (source_meta i)"
    using facts kind ascii single_line_join [of "sort (ci_labels i)"]
    by (auto simp: source_meta_def optional_meta_def list_all_iff simp del: single_line_simps(2) append_Cons
        split: option.splits)
  moreover have "single_line (join '', '' (ci_deps i))"
    using facts(7) by (intro single_line_join) (auto simp: list_all_iff id_single_line)
  ultimately have "list_all single_line (render_lines i)"
    using facts ascii id_single_line [of "ci_id i"]
    by (auto simp: render_lines_def list_all_iff simp del: single_line_simps(2) append_Cons)
  with facts show ?thesis by (simp add: renders_def list_all_iff)
qed

section \<open>Normalised identifiers\<close>

definition apart :: "char \<Rightarrow> char \<Rightarrow> bool" where
  "apart a b \<longleftrightarrow> \<not> (separator a \<and> separator b)"

definition normal_segment :: "string \<Rightarrow> bool" where
  "normal_segment r \<longleftrightarrow> r \<noteq> [] \<and> list_all segment_char r \<and> \<not> separator (hd r) \<and> \<not> separator (last r)
     \<and> successively apart r"

lemma segment_char_facts:
  "segment_char c \<Longrightarrow> \<not> py_space c \<and> lower_char c = c \<and> id_char c \<and> (is_alnum c \<or> separator c)"
  by (auto simp: segment_char_def id_char_def separator_def char_class_defs)

lemma dash_runs_segment: "list_all segment_char (dash_runs b s)"
  by (induction b s rule: dash_runs.induct) (auto simp: segment_char_def)

lemma dash_runs_id: "list_all segment_char s \<Longrightarrow> dash_runs b s = s"
  by (induction s arbitrary: b) auto

lemma squeeze_segment: "list_all segment_char s \<Longrightarrow> list_all segment_char (squeeze s)"
  by (induction s rule: squeeze.induct) (auto simp: segment_char_def list_all_iff dest: set_dropWhileD)

lemma squeeze_hd: "s \<noteq> [] \<Longrightarrow> squeeze s \<noteq> [] \<and> separator (hd (squeeze s)) = separator (hd s)"
  by (cases s) (auto simp: separator_def)

lemma squeeze_apart: "successively apart (squeeze s)"
proof (induction s rule: squeeze.induct)
  case (2 c s)
  show ?case
  proof (cases "separator c \<and> s \<noteq> [] \<and> separator (hd s)")
    case True
    let ?t = "dropWhile separator s"
    have "?t = [] \<or> squeeze ?t \<noteq> [] \<and> \<not> separator (hd (squeeze ?t))"
      using squeeze_hd [of ?t] hd_dropWhile [of separator s] by auto
    with "2.IH"(1) [OF True] True show ?thesis
      by (cases "?t = []") (auto simp: successively_Cons apart_def simp del: dropWhile_eq_Nil_conv)
  next
    case False
    with "2.IH"(2) [OF False] squeeze_hd [of s] show ?thesis by (cases s) (auto simp: successively_Cons apart_def)
  qed
qed simp

lemma squeeze_id: "successively apart s \<Longrightarrow> squeeze s = s"
  by (induction s) (auto simp: successively_Cons apart_def)

lemma apart_rev: "successively apart (rev s) = successively apart s"
proof -
  have "(\<lambda>a b. apart b a) = apart" by (intro ext) (auto simp: apart_def)
  then show ?thesis unfolding successively_rev by (rule arg_cong)
qed

lemma successively_dropWhile: "successively P s \<Longrightarrow> successively P (dropWhile Q s)"
  by (induction s) (auto simp: successively_Cons)

lemma strip_separators_normal:
  assumes "list_all segment_char s" "successively apart s" "strip_separators s \<noteq> []"
  shows "normal_segment (strip_separators s)"
proof -
  let ?d = "dropWhile separator s" and ?r = "strip_separators s"
  have "successively apart ?r"
    using successively_dropWhile [OF assms(2)] by (simp add: strip_separators_def apart_rev successively_dropWhile)
  moreover have "list_all segment_char ?r"
  proof -
    have "set ?r \<subseteq> set s" unfolding strip_separators_def by (metis set_dropWhileD set_rev subsetI)
    with assms(1) show ?thesis by (auto simp: list_all_iff)
  qed
  moreover have last: "\<not> separator (last ?r)"
    using assms(3) unfolding strip_separators_def by (metis last_rev hd_dropWhile rev.simps(1))
  moreover have "\<not> separator (hd ?r)"
  proof -
    have "?d \<noteq> []" using assms(3) unfolding strip_separators_def by (metis dropWhile.simps(1) rev.simps(1))
    then obtain a t where d: "?d = a # t" and a: "\<not> separator a" by (metis hd_dropWhile neq_Nil_conv list.sel(1))
    have "rev (dropWhile separator (rev t @ [a])) = a # rev (dropWhile separator (rev t))"
      using a by (simp add: dropWhile_append)
    with a show ?thesis by (simp add: strip_separators_def d)
  qed
  ultimately show ?thesis using assms(3) by (simp add: normal_segment_def)
qed

lemma normalized: "normalize_id_segment v = Inr r \<Longrightarrow> normal_segment r"
  by (auto simp: normalize_id_segment_def Let_def dash_runs_segment squeeze_segment squeeze_apart
      intro!: strip_separators_normal split: if_splits)

lemma normal_fixed:
  assumes "normal_segment r"
  shows "normalize_id_segment r = Inr r"
proof -
  from assms have r: "r \<noteq> []" "list_all segment_char r" "\<not> separator (hd r)" "\<not> separator (last r)"
    "successively apart r" by (simp_all add: normal_segment_def)
  have "strip r = r" using r segment_char_facts by (simp add: strip_eq_self_iff list_all_iff)
  moreover have "lower r = r"
    using r(2) segment_char_facts by (simp add: lower_def list_all_iff map_idI)
  moreover have "strip_separators r = r"
    using r by (simp add: strip_separators_def dropWhile_id hd_rev)
  ultimately show ?thesis using r by (simp add: normalize_id_segment_def dash_runs_id squeeze_id)
qed

lemma scoped_id_text:
  assumes "rs \<noteq> []" "list_all normal_segment rs"
  shows "issue_id_text (join ''-'' rs)"
  using assms
proof (induction "''-''" rs rule: join.induct)
  case (2 x)
  then show ?case using segment_char_facts [of "hd x"] segment_char_facts
    by (auto simp: issue_id_text_def normal_segment_def list_all_iff)
next
  case (3 x y zs)
  then show ?case using segment_char_facts [of "hd x"] segment_char_facts
    by (auto simp: issue_id_text_def normal_segment_def list_all_iff id_char_def)
qed simp

section \<open>Properties\<close>

text \<open>
  C37: a document rendered from canonical issues parses, in the runtime's own parser, to those issues in
  identifier order: same identifier, title, dependencies and acceptance criteria, the body carried as
  text however much it looks like headings or dependencies. Rendering fails only on a repeated identifier.
\<close>

theorem rendered_issues_parse:
  assumes "rmap (canonical_issue_of ip) raws = Inr is"
  shows "case compile_issues_md is of
     Inr doc \<Rightarrow> parse_issues doc = Inr (map spec_of (in_id_order is)) \<and> distinct (map ci_id is)
   | Inl i \<Rightarrow> \<not> distinct (map ci_id is)"
proof (cases "compile_issues_md is")
  case (Inl i)
  then have "first_repeated [] (map ci_id (in_id_order is)) \<noteq> None"
    by (auto simp: compile_issues_md_def Let_def split: option.splits)
  then show ?thesis
    using mset_eq_imp_distinct_iff [of "map ci_id (in_id_order is)" "map ci_id is"]
    by (simp add: Inl first_repeated_None) (simp add: in_id_order_def)
next
  case (Inr doc)
  have "list_all renders is"
    using assms unfolding rmap_eq_Inr
  proof (induction rule: list_all2_induct)
    case (Cons r rs i "is")
    then show ?case using canonical_renders [of ip r i] canonical_issue_facts(1) [of ip r i] by simp
  qed simp
  from compile_parses [OF this Inr] show ?thesis by (simp add: Inr)
qed

definition sample_issue :: canonical_issue where
  "sample_issue = \<lparr>ci_id = ''b'', ci_kind = ''github'', ci_source_id = ''o/r#2'', ci_title = ''Two: parts'',
     ci_body = ''## x: y'' @ [LF] @ ''Depends-On: z'', ci_deps = [''a''], ci_criteria = [''works''], ci_labels = [],
     ci_url = None, ci_state = None, ci_updated = None, ci_version = 1\<rparr>"

lemma rendered_issues_parse_witness:
  "\<exists>doc. compile_issues_md [sample_issue, sample_issue\<lparr>ci_id := ''a'', ci_deps := []\<rparr>] = Inr doc
     \<and> (case parse_issues doc of Inr ss \<Rightarrow> map spec_id ss = [''a'', ''b''] \<and> map spec_deps ss = [[], [''a'']] | Inl _ \<Rightarrow> False)"
proof -
  let ?is = "[sample_issue, sample_issue\<lparr>ci_id := ''a'', ci_deps := []\<rparr>]"
  have text_ok: "strip ''o/r#2'' = ''o/r#2''" "strip ''Two: parts'' = ''Two: parts''" "strip ''works'' = ''works''"
    "strip ''a'' = ''a''" "single_line ''o/r#2''" "single_line ''Two: parts''" "single_line ''works''" "single_line ''a''"
    "issue_id_text ''a''" "issue_id_text ''b''" by code_simp+
  have "utf8_length (ci_body sample_issue) \<le> MAX_BODY_BYTES"
    by (simp add: utf8_length_def sample_issue_def ord_of_def MAX_BODY_BYTES_def)
  then have ok: "rmap (canonical_issue_of (\<lambda>_. False)) ?is = Inr ?is"
    using text_ok
    by (simp add: canonical_issue_of_def sample_issue_def validate_issue_id_def SOURCE_KINDS_def line_value_def
        lines_value_def check_url_def optional_line_def MAX_SOURCE_ID_CHARS_def MAX_TITLE_CHARS_def
        MAX_ITEM_CHARS_def MAX_ITEMS_def)
  have "first_repeated [] (map ci_id (in_id_order ?is)) = None" by code_simp
  then obtain doc where doc: "compile_issues_md ?is = Inr doc" by (simp add: compile_issues_md_def)
  have "map (\<lambda>s. (spec_id s, spec_deps s)) (map spec_of (in_id_order ?is)) = [(''a'', []), (''b'', [''a''])]"
    by code_simp
  with rendered_issues_parse [OF ok] doc show ?thesis by (auto simp: o_def)
qed

text \<open>
  \<open>normalize_id_segment\<close> is idempotent and returns lower-case text without a separator at either end
  or two in a row, so that \<open>make_scoped_issue_id\<close> never fails its final validation: it raises only
  without segments or on a segment that normalises to nothing.
\<close>

theorem normalized_identifiers:
  "(case normalize_id_segment v of Inl e \<Rightarrow> e = EmptySegment
      | Inr r \<Rightarrow> normal_segment r \<and> normalize_id_segment r = Inr r)
   \<and> (case make_scoped_issue_id p segs of Inr i \<Rightarrow> issue_id_text i | Inl e \<Rightarrow> e = (if segs = [] then NoSegments else EmptySegment))"
proof
  show "case normalize_id_segment v of Inl e \<Rightarrow> e = EmptySegment
      | Inr r \<Rightarrow> normal_segment r \<and> normalize_id_segment r = Inr r"
    using normalized [of v] normal_fixed
    by (cases "normalize_id_segment v") (auto simp: normalize_id_segment_def Let_def split: if_splits)
  have fail: "rmap normalize_id_segment vs = Inl e \<Longrightarrow> e = EmptySegment" for vs e
    by (induction vs) (auto simp: rbind_eq_Inl normalize_id_segment_def Let_def split: if_splits)
  have ok: "rmap normalize_id_segment vs = Inr rs \<Longrightarrow> vs \<noteq> [] \<Longrightarrow> issue_id_text (join ''-'' rs)" for vs rs
    unfolding rmap_eq_Inr
    by (rule scoped_id_text) (auto simp: list_all_length list_all2_conv_all_nth intro: normalized)
  show "case make_scoped_issue_id p segs of Inr i \<Rightarrow> issue_id_text i
      | Inl e \<Rightarrow> e = (if segs = [] then NoSegments else EmptySegment)"
  proof (cases "rmap normalize_id_segment (p # segs)")
    case (Inl e)
    from fail [OF Inl] Inl show ?thesis by (auto simp: make_scoped_issue_id_def simp del: rmap.simps)
  next
    case (Inr rs)
    from ok [OF Inr] Inr show ?thesis
      by (auto simp: make_scoped_issue_id_def validate_issue_id_def simp del: rmap.simps)
  qed
qed

end
