(* ===== verification/Sources.thy ===== *)
theory Sources
  imports Intake
begin

text \<open>
  Issue sources and their collector: \<open>src/draindeck_intake/sources.py\<close> and the local source of
  \<open>src/draindeck_intake/issues_md.py\<close>. A source is a function from a cursor and a page size, on the state
  of the source, to a page. The collector distrusts it: the loop ends whatever the source answers, and
  its termination proof is part of the definition.
\<close>

section \<open>Pages and the collector\<close>

datatype source_error = CollectionError string | SourceError string | Uncaught string

record issue_page =
  page_issues :: "canonical_issue list"
  next_cursor :: "string option"

type_synonym 's source = "string option \<Rightarrow> nat \<Rightarrow> 's \<Rightarrow> (source_error + issue_page) \<times> 's"

definition MAX_PAGE_SIZE :: int where "MAX_PAGE_SIZE = 100"

definition bounded_integer :: "int \<Rightarrow> string \<Rightarrow> int option \<Rightarrow> source_error + int" where
  "bounded_integer value field maximum =
     (if value < 1 then Inl (CollectionError field)
      else if maximum \<noteq> None \<and> the maximum < value then Inl (CollectionError field) else Inr value)"

text \<open>The loop over the issues of one page.\<close>

fun add_issues :: "nat \<Rightarrow> canonical_issue list \<Rightarrow> canonical_issue list \<Rightarrow> source_error + canonical_issue list" where
  "add_issues max_issues collected [] = Inr collected"
| "add_issues max_issues collected (i # is) =
     (if ci_id i \<in> set (map ci_id collected) then Inl (CollectionError ''duplicate'')
      else if max_issues < length collected + 1 then Inl (CollectionError ''too many'')
      else add_issues max_issues (collected @ [i]) is)"

lemma add_issues_ok:
  "add_issues m col is = Inr r \<Longrightarrow> r = col @ is \<and> (is = [] \<or> length r \<le> m)"
  by (induction m col "is" rule: add_issues.induct) (auto split: if_splits)

lemma add_issues_distinct:
  "add_issues m col is = Inr r \<Longrightarrow> distinct (map ci_id col) \<Longrightarrow> distinct (map ci_id r)"
proof (induction m col "is" rule: add_issues.induct)
  case (2 m col i "is")
  then have "ci_id i \<notin> set (map ci_id col)" "add_issues m (col @ [i]) is = Inr r" by (auto split: if_splits)
  with 2 show ?case by (simp split: if_splits)
qed simp

lemma add_issues_complete:
  "distinct (map ci_id (col @ is)) \<Longrightarrow> length (col @ is) \<le> m \<Longrightarrow> add_issues m col is = Inr (col @ is)"
  by (induction m col "is" rule: add_issues.induct) auto

definition page_check :: "nat \<Rightarrow> nat \<Rightarrow> canonical_issue list \<Rightarrow> issue_page \<Rightarrow> source_error + canonical_issue list" where
  "page_check page_size max_issues collected page =
     (if page_size < length (page_issues page) then Inl (CollectionError ''page larger than requested'')
      else if page_issues page = [] \<and> next_cursor page \<noteq> None then Inl (CollectionError ''empty continuation page'')
      else add_issues max_issues collected (page_issues page))"

definition used_after :: "string list \<Rightarrow> string option \<Rightarrow> string list" where
  "used_after used cursor = (case cursor of None \<Rightarrow> used | Some c \<Rightarrow> c # used)"

function collect_from :: "'s source \<Rightarrow> nat \<Rightarrow> nat \<Rightarrow> string list \<Rightarrow> string option \<Rightarrow> canonical_issue list
    \<Rightarrow> 's \<Rightarrow> (source_error + canonical_issue list) \<times> 's" where
  "collect_from fetch page_size max_issues used cursor collected w =
     (if cursor \<noteq> None \<and> the cursor \<in> set used then (Inl (CollectionError ''cursor cycle''), w)
      else case fetch cursor page_size w of
        (Inl e, w') \<Rightarrow> (Inl e, w')
      | (Inr page, w') \<Rightarrow>
          (case page_check page_size max_issues collected page of
             Inl e \<Rightarrow> (Inl e, w')
           | Inr collected' \<Rightarrow>
               (case next_cursor page of
                  None \<Rightarrow> (Inr collected', w')
                | Some n \<Rightarrow>
                    if n = [] then (Inl (CollectionError ''empty cursor''), w')
                    else if Some n = cursor \<or> n \<in> set (used_after used cursor)
                    then (Inl (CollectionError ''cursor cycle''), w')
                    else collect_from fetch page_size max_issues (used_after used cursor) (Some n) collected' w')))"
  by pat_completeness auto
termination
proof (relation "measure (\<lambda>(_, _, m, _, _, collected, _). Suc m - length collected)")
  fix fetch page_size max_issues used cursor collected
  fix w w' :: 's and r p page collected' n
  assume "r = Inr p" "page_check page_size max_issues collected p = Inr collected'" "next_cursor p = Some n"
  then show "((fetch :: 's source, page_size, max_issues, used_after used cursor, Some n, collected', w'),
      fetch, page_size, max_issues, used, cursor, collected, w)
    \<in> measure (\<lambda>(_, _, m, _, _, collected, _). Suc m - length collected)"
    by (cases "page_issues p")
      (auto simp: page_check_def split: if_splits dest!: add_issues_ok)
qed simp

declare collect_from.simps [simp del]

definition collect_issues :: "'s source \<Rightarrow> int \<Rightarrow> int \<Rightarrow> 's \<Rightarrow> (source_error + canonical_issue list) \<times> 's" where
  "collect_issues fetch page_size max_issues w =
     (case bounded_integer page_size ''page_size'' (Some MAX_PAGE_SIZE) of
        Inl e \<Rightarrow> (Inl e, w)
      | Inr ps \<Rightarrow>
          (case bounded_integer max_issues ''max_issues'' None of
             Inl e \<Rightarrow> (Inl e, w)
           | Inr m \<Rightarrow> collect_from fetch (nat ps) (nat m) [] None [] w))"

section \<open>What the collector returns\<close>

lemma page_check_ok:
  assumes "page_check ps m col page = Inr col'"
  shows "col' = col @ page_issues page" "length (page_issues page) \<le> ps"
    "page_issues page = [] \<longrightarrow> next_cursor page = None" "page_issues page \<noteq> [] \<longrightarrow> length col' \<le> m"
    "distinct (map ci_id col) \<longrightarrow> distinct (map ci_id col')"
  using assms add_issues_distinct by (auto simp: page_check_def split: if_splits dest: add_issues_ok)

text \<open>One round: the loop stops without a call, after one, or goes on with a longer list.\<close>

lemma collect_round:
  obtains (uncalled) e where "collect_from fetch ps m used cursor col w = (Inl e, w)"
  | (failed) e where "collect_from fetch ps m used cursor col w = (Inl e, snd (fetch cursor ps w))"
  | (ended) page w' where "fetch cursor ps w = (Inr page, w')"
      "page_check ps m col page = Inr (col @ page_issues page)" "next_cursor page = None"
      "collect_from fetch ps m used cursor col w = (Inr (col @ page_issues page), w')"
  | (more) page w' n where "fetch cursor ps w = (Inr page, w')"
      "page_check ps m col page = Inr (col @ page_issues page)" "page_issues page \<noteq> []"
      "length col + length (page_issues page) \<le> m"
      "collect_from fetch ps m used cursor col w
        = collect_from fetch ps m (used_after used cursor) (Some n) (col @ page_issues page) w'"
proof (cases "cursor \<noteq> None \<and> the cursor \<in> set used")
  case True
  then show ?thesis by (intro uncalled) (simp add: collect_from.simps)
next
  case c: False
  obtain r w' where f: "fetch cursor ps w = (r, w')" by (cases "fetch cursor ps w")
  show ?thesis
  proof (cases "\<exists>page. r = Inr page \<and> page_check ps m col page = Inr (col @ page_issues page)")
    case False
    have "\<exists>e. collect_from fetch ps m used cursor col w = (Inl e, w')"
      using c f False page_check_ok(1) [of ps m col]
      by (subst collect_from.simps) (auto split: sum.splits)
    then show ?thesis using f failed by auto
  next
    case True
    then obtain page where r: "r = Inr page" and p: "page_check ps m col page = Inr (col @ page_issues page)" by blast
    show ?thesis
    proof (cases "next_cursor page")
      case None
      have "collect_from fetch ps m used cursor col w = (Inr (col @ page_issues page), w')"
        using c f r p None by (subst collect_from.simps) simp
      with f r p None show ?thesis by (intro ended) auto
    next
      case (Some n)
      have len: "page_issues page \<noteq> []" "length col + length (page_issues page) \<le> m"
        using page_check_ok(3,4) [OF p] Some by auto
      have "collect_from fetch ps m used cursor col w
          = (if n = [] then (Inl (CollectionError ''empty cursor''), w')
             else if Some n = cursor \<or> n \<in> set (used_after used cursor) then (Inl (CollectionError ''cursor cycle''), w')
             else collect_from fetch ps m (used_after used cursor) (Some n) (col @ page_issues page) w')"
        using c by (subst collect_from.simps) (simp only: f r p Some if_False sum.case option.case prod.case)
      note eq = this
      show ?thesis
      proof (cases "n = [] \<or> Some n = cursor \<or> n \<in> set (used_after used cursor)")
        case True
        then have "\<exists>e. collect_from fetch ps m used cursor col w = (Inl e, w')" unfolding eq by auto
        with f failed show ?thesis by auto
      next
        case False
        then show ?thesis unfolding eq by (intro more [of page w' n]) (use f r p len eq in auto)
      qed
    qed
  qed
qed

lemma collect_from_sound:
  assumes "collect_from fetch ps m used cursor col w = (Inr is, w')" "distinct (map ci_id col)" "length col \<le> m"
  shows "distinct (map ci_id is) \<and> length is \<le> m"
  using assms
proof (induction "Suc m - length col" arbitrary: used cursor col w rule: less_induct)
  case less
  show ?case
  proof (cases rule: collect_round [of fetch ps m used cursor col w])
    case (ended page w1)
    with less.prems page_check_ok(4,5) [OF ended(2)] show ?thesis by (cases "page_issues page") auto
  next
    case (more page w1 n)
    have "Suc m - length (col @ page_issues page) < Suc m - length col"
      using more(3,4) by (cases "page_issues page") auto
    from less.hyps [OF this, of "used_after used cursor" "Some n" w1] more(4,5) less.prems page_check_ok(5) [OF more(2)]
    show ?thesis by simp
  qed (use less.prems in auto)
qed

text \<open>Requests: the rounds are bounded by the issues still allowed, whatever the source answers.\<close>

lemma collect_from_calls:
  assumes calls: "\<And>c l w. calls (snd (fetch c l w)) = Suc (calls w)" and "length col \<le> m"
  shows "calls (snd (collect_from fetch ps m used cursor col w)) + length col \<le> calls w + Suc m"
  using assms(2)
proof (induction "Suc m - length col" arbitrary: used cursor col w rule: less_induct)
  case less
  show ?case
  proof (cases rule: collect_round [of fetch ps m used cursor col w])
    case (ended page w1)
    with calls [of cursor ps w] page_check_ok(4) [OF ended(2)] less.prems show ?thesis by simp
  next
    case (more page w1 n)
    have "Suc m - length (col @ page_issues page) < Suc m - length col"
      using more(3,4) by (cases "page_issues page") auto
    from less.hyps [OF this, of "used_after used cursor" "Some n" w1] more(4)
    have "calls (snd (collect_from fetch ps m (used_after used cursor) (Some n) (col @ page_issues page) w1))
        + length (col @ page_issues page) \<le> calls w1 + Suc m" by simp
    moreover have "1 \<le> length (page_issues page)" using more(3) by (cases "page_issues page") auto
    ultimately show ?thesis using more(5) calls [of cursor ps w] more(1) by simp
  qed (use less.prems calls in auto)
qed

text \<open>What every call keeps, the whole collection keeps.\<close>

lemma collect_keeps:
  assumes keeps: "\<And>c l w. P w \<Longrightarrow> P (snd (fetch c l w))" and "P w"
  shows "P (snd (collect_issues fetch page_size max_issues w))"
proof -
  have "P (snd (collect_from fetch ps m used cursor col w))" if "P w" for ps m used cursor col w
    using that
  proof (induction "Suc m - length col" arbitrary: used cursor col w rule: less_induct)
    case less
    show ?case
    proof (cases rule: collect_round [of fetch ps m used cursor col w])
      case (ended page w1)
      with less.prems keeps [of w cursor ps] show ?thesis by simp
    next
      case (more page w1 n)
      have "Suc m - length (col @ page_issues page) < Suc m - length col"
        using more(3,4) by (cases "page_issues page") auto
      from less.hyps [OF this, of w1 "used_after used cursor" "Some n"] more(1,5) less.prems keeps [of w cursor ps]
      show ?thesis by simp
    qed (use less.prems keeps in auto)
  qed
  with assms(2) show ?thesis by (simp add: collect_issues_def split: sum.split)
qed

section \<open>Sources that serve a fixed list\<close>

text \<open>
  The contract of an honest source: whatever the page size, the first page starts the list, a cursor it
  handed out continues where the page ended, and different positions have different cursors.
\<close>

definition slice :: "(nat \<Rightarrow> string) \<Rightarrow> canonical_issue list \<Rightarrow> nat \<Rightarrow> nat \<Rightarrow> issue_page" where
  "slice cur content k l = \<lparr>page_issues = take l (drop k content),
     next_cursor = (if k + l < length content then Some (cur (k + l)) else None)\<rparr>"

locale paged_source =
  fixes fetch :: "'s source" and content :: "canonical_issue list"
    and serves :: "'s \<Rightarrow> bool" and cur :: "nat \<Rightarrow> string"
  assumes first: "serves w \<Longrightarrow> 0 < l \<Longrightarrow> fst (fetch None l w) = Inr (slice cur content 0 l)"
    and continue: "serves w \<Longrightarrow> 0 < l \<Longrightarrow> fst (fetch (Some (cur k)) l w) = Inr (slice cur content k l)"
    and stays: "serves w \<Longrightarrow> serves (snd (fetch c l w))"
    and cursor_inj: "cur j = cur k \<Longrightarrow> j = k"
    and cursor_nonempty: "cur k \<noteq> []"
begin

lemma page_check_slice:
  assumes "distinct (map ci_id content)" "length content \<le> m" "0 < l"
  shows "page_check l m (take k content) (slice cur content k l) = Inr (take (k + l) content)"
proof -
  have app: "take k content @ take l (drop k content) = take (k + l) content" by (simp add: take_add)
  have "distinct (map ci_id (take (k + l) content))" using assms(1) by (simp add: take_map [symmetric] distinct_take)
  then have "add_issues m (take k content) (take l (drop k content)) = Inr (take (k + l) content)"
    using add_issues_complete [of "take k content" "take l (drop k content)" m] assms(2) unfolding app by simp
  with assms(3) show ?thesis by (simp add: page_check_def slice_def)
qed

text \<open>From position \<open>k\<close> on, with cursors of earlier positions used, the collector reaches the end.\<close>

lemma collect_from_complete:
  assumes "distinct (map ci_id content)" "length content \<le> m" "0 < l" "serves w"
    and "cursor = (if k = 0 then None else Some (cur k))" "set used \<subseteq> cur ` {..<k}"
  shows "fst (collect_from fetch l m used cursor (take k content) w) = Inr content"
  using assms
proof (induction "length content - k" arbitrary: k used cursor w rule: less_induct)
  case less
  obtain w' where f: "fetch cursor l w = (Inr (slice cur content k l), w')" and w': "serves w'"
    using first [of w l] continue [of w l k] stays [of w cursor l] less.prems by (cases "fetch cursor l w") (auto split: if_splits)
  have fresh: "\<not> (cursor \<noteq> None \<and> the cursor \<in> set used)"
    using less.prems(5,6) by (auto dest: cursor_inj)
  note check = page_check_slice [OF less.prems(1-3), of k]
  show ?case
  proof (cases "k + l < length content")
    case False
    then show ?thesis
      using fresh f check by (subst collect_from.simps) (simp add: slice_def)
  next
    case True
    have used: "set (used_after used cursor) \<subseteq> cur ` {..<k + l}"
      using less.prems(3,5,6) by (auto simp: used_after_def split: if_splits)
    have nxt: "next_cursor (slice cur content k l) = Some (cur (k + l))" using True by (simp add: slice_def)
    have new: "\<not> (Some (cur (k + l)) = cursor \<or> cur (k + l) \<in> set (used_after used cursor))"
      using used less.prems(3,5) by (auto dest!: cursor_inj split: if_splits)
    have "collect_from fetch l m used cursor (take k content) w
        = collect_from fetch l m (used_after used cursor) (Some (cur (k + l))) (take (k + l) content) w'"
      using nxt by (subst collect_from.simps)
        (simp only: fresh f check new cursor_nonempty if_False sum.case prod.case option.case)
    moreover have "fst (collect_from fetch l m (used_after used cursor) (Some (cur (k + l))) (take (k + l) content) w') = Inr content"
      using less.prems True used w' by (intro less.hyps) auto
    ultimately show ?thesis by simp
  qed
qed

lemma collect_complete:
  assumes "distinct (map ci_id content)" "length content \<le> nat m" "1 \<le> m" "1 \<le> l" "l \<le> MAX_PAGE_SIZE" "serves w"
  shows "fst (collect_issues fetch l m w) = Inr content"
  using collect_from_complete [OF assms(1,2), of "nat l" w None 0 "[]"] assms(3-6)
  by (simp add: collect_issues_def bounded_integer_def)

end

section \<open>Sources of canonical issues\<close>

text \<open>The contract every provider keeps: its pages hold only issues the constructor accepted.\<close>

locale canonical_source =
  fixes ip_literal :: "string \<Rightarrow> bool" and fetch :: "'s source" and good :: "'s \<Rightarrow> bool"
  assumes canonical_pages: "good w \<Longrightarrow> fst (fetch c l w) = Inr page \<Longrightarrow> i \<in> set (page_issues page)
      \<Longrightarrow> canonical_issue_of ip_literal i = Inr i"
    and good_stays: "good w \<Longrightarrow> good (snd (fetch c l w))"
begin

lemma collect_from_canonical:
  assumes "collect_from fetch ps m used cursor col w = (Inr is, w')" "good w"
    and "\<forall>i \<in> set col. canonical_issue_of ip_literal i = Inr i"
  shows "\<forall>i \<in> set is. canonical_issue_of ip_literal i = Inr i"
  using assms
proof (induction "Suc m - length col" arbitrary: used cursor col w rule: less_induct)
  case less
  show ?case
  proof (cases rule: collect_round [of fetch ps m used cursor col w])
    case (ended page w1)
    with less.prems canonical_pages [of w cursor ps page] show ?thesis by auto
  next
    case (more page w1 n)
    have "Suc m - length (col @ page_issues page) < Suc m - length col"
      using more(3,4) by (cases "page_issues page") auto
    from less.hyps [OF this, of "used_after used cursor" "Some n" w1] more(1,5) less.prems
      canonical_pages [of w cursor ps page] good_stays [of w cursor ps]
    show ?thesis by auto
  qed (use less.prems in auto)
qed

lemma collected_parses:
  assumes "collect_issues fetch ps m w = (Inr is, w')" "good w"
  shows "list_all renders is
    \<and> (\<exists>doc. compile_issues_md is = Inr doc \<and> parse_issues doc = Inr (map spec_of (in_id_order is)))"
proof -
  from assms(1) have run: "collect_from fetch (nat ps) (nat m) [] None [] w = (Inr is, w')"
    by (auto simp: collect_issues_def bounded_integer_def split: if_splits)
  have "\<forall>i \<in> set is. renders i"
    using collect_from_canonical [OF run assms(2)] canonical_renders by auto
  moreover have "distinct (map ci_id is)" using collect_from_sound [OF run] by simp
  then have "distinct (map ci_id (in_id_order is))"
    using mset_eq_imp_distinct_iff [of "map ci_id (in_id_order is)" "map ci_id is"] by (simp add: in_id_order_def)
  then obtain doc where doc: "compile_issues_md is = Inr doc"
    using first_repeated_None [of "[]" "map ci_id (in_id_order is)"] by (simp add: compile_issues_md_def Let_def)
  ultimately show ?thesis using compile_parses [OF _ doc] doc by (simp add: list_all_iff)
qed

end

section \<open>The local issues file\<close>

text \<open>The file as the source reads it: unreadable, or its size and its decoding (\<open>None\<close>: not UTF-8).\<close>

datatype input = NoInput | Input nat "string option"

record md_source =
  md_input :: input
  md_prefix :: "string option"
  md_max_bytes :: int

definition new_md_source :: "input \<Rightarrow> string option \<Rightarrow> int \<Rightarrow> source_error + md_source" where
  "new_md_source inp prefix max_bytes =
     (if max_bytes < 1 then Inl (SourceError ''max_input_bytes'')
      else Inr \<lparr>md_input = inp, md_prefix = prefix, md_max_bytes = max_bytes\<rparr>)"

definition md_id :: "md_source \<Rightarrow> string \<Rightarrow> issue_error + string" where
  "md_id self i = (case md_prefix self of None \<Rightarrow> Inr i | Some p \<Rightarrow> make_scoped_issue_id p [i])"

definition md_issue :: "(string \<Rightarrow> bool) \<Rightarrow> (string \<times> string) list \<Rightarrow> issue_spec \<Rightarrow> issue_error + canonical_issue" where
  "md_issue ip_literal id_map item =
     canonical_issue_of ip_literal
       \<lparr>ci_id = the (map_of id_map (spec_id item)), ci_kind = ''issues-md'', ci_source_id = spec_id item,
        ci_title = spec_title item, ci_body = spec_body item,
        ci_deps = map (\<lambda>d. case map_of id_map d of Some i \<Rightarrow> i | None \<Rightarrow> d) (spec_deps item),
        ci_criteria = spec_criteria item, ci_labels = [], ci_url = None, ci_state = None, ci_updated = None,
        ci_version = 1\<rparr>"

definition md_issues :: "(string \<Rightarrow> bool) \<Rightarrow> md_source \<Rightarrow> issue_spec list \<Rightarrow> issue_error + canonical_issue list" where
  "md_issues ip_literal self parsed =
     rbind (rmap (\<lambda>item. rbind (md_id self (spec_id item)) (\<lambda>i. Inr (spec_id item, i))) parsed) (\<lambda>pairs.
     rmap (md_issue ip_literal (dict_of pairs)) parsed)"

definition md_load :: "(string \<Rightarrow> bool) \<Rightarrow> md_source \<Rightarrow> source_error + canonical_issue list" where
  "md_load ip_literal self =
     (case md_input self of
        NoInput \<Rightarrow> Inl (SourceError ''unable to read'')
      | Input n decoded \<Rightarrow>
          if md_max_bytes self < int n then Inl (SourceError ''too large'')
          else case decoded of
            None \<Rightarrow> Inl (SourceError ''not UTF-8'')
          | Some t \<Rightarrow>
              (case parse_issues t of
                 Inl _ \<Rightarrow> Inl (SourceError ''invalid input'')
               | Inr parsed \<Rightarrow>
                   (case md_issues ip_literal self parsed of
                      Inl UrlValueError \<Rightarrow> Inl (Uncaught ''ValueError'')
                    | Inl _ \<Rightarrow> Inl (SourceError ''invalid input'')
                    | Inr is \<Rightarrow> Inr is)))"

text \<open>The state is the cache \<open>self._issues\<close>.\<close>

definition md_fetch :: "(string \<Rightarrow> bool) \<Rightarrow> md_source \<Rightarrow> canonical_issue list option source" where
  "md_fetch ip_literal self cursor limit cache =
     (if limit < 1 then (Inl (SourceError ''limit''), cache)
      else if cursor \<noteq> None \<and> (the cursor = [] \<or> \<not> list_all is_digit (the cursor))
      then (Inl (SourceError ''cursor''), cache)
      else
        let offset = (case cursor of None \<Rightarrow> 0 | Some c \<Rightarrow> read_nat c) in
        (case (case cache of Some is \<Rightarrow> Inr is | None \<Rightarrow> md_load ip_literal self) of
           Inl e \<Rightarrow> (Inl e, cache)
         | Inr is \<Rightarrow>
             let end_pos = min (offset + limit) (length is) in
             (Inr \<lparr>page_issues = take (end_pos - offset) (drop offset is),
                   next_cursor = (if end_pos < length is then Some (show_nat end_pos) else None)\<rparr>, Some is)))"

text \<open>It is an honest source of what it loads, with decimal positions as cursors.\<close>

definition md_content :: "(string \<Rightarrow> bool) \<Rightarrow> md_source \<Rightarrow> canonical_issue list" where
  "md_content ip_literal self = (case md_load ip_literal self of Inr is \<Rightarrow> is | Inl _ \<Rightarrow> [])"

definition md_serves :: "(string \<Rightarrow> bool) \<Rightarrow> md_source \<Rightarrow> canonical_issue list option \<Rightarrow> bool" where
  "md_serves ip_literal self cache \<longleftrightarrow>
     is_ok (md_load ip_literal self) \<and> (cache = None \<or> cache = Some (md_content ip_literal self))"

lemma md_fetch_slice:
  assumes "md_serves ip self cache" "0 < l"
  shows "fst (md_fetch ip self None l cache) = Inr (slice show_nat (md_content ip self) 0 l)"
    and "fst (md_fetch ip self (Some (show_nat k)) l cache) = Inr (slice show_nat (md_content ip self) k l)"
proof -
  have page: "\<lparr>page_issues = take (min (k + l) (length is) - k) (drop k is),
       next_cursor = (if min (k + l) (length is) < length is then Some (show_nat (min (k + l) (length is))) else None)\<rparr>
     = slice show_nat is k l" for k and "is" :: "canonical_issue list"
    by (cases "k + l < length is") (auto simp: slice_def min_def)
  have digits: "list_all is_digit (show_nat k)" by (auto simp: list_all_iff show_nat_digits)
  from assms(1) obtain "is" where "md_load ip self = Inr is" "md_content ip self = is"
    and "(case cache of Some is \<Rightarrow> Inr is | None \<Rightarrow> md_load ip self) = Inr is"
    by (auto simp: md_serves_def is_ok_iff md_content_def)
  with page [of 0] page [of k] digits assms(2)
  show "fst (md_fetch ip self None l cache) = Inr (slice show_nat (md_content ip self) 0 l)"
    and "fst (md_fetch ip self (Some (show_nat k)) l cache) = Inr (slice show_nat (md_content ip self) k l)"
    by (simp_all add: md_fetch_def Let_def)
qed

lemma md_fetch_serves: "md_serves ip self cache \<Longrightarrow> md_serves ip self (snd (md_fetch ip self c l cache))"
  by (auto simp: md_fetch_def Let_def md_serves_def md_content_def is_ok_iff split: option.splits)

interpretation md: paged_source "md_fetch ip_literal self" "md_content ip_literal self"
    "md_serves ip_literal self" show_nat for ip_literal self
  by unfold_locales (simp_all add: md_fetch_slice md_fetch_serves show_nat_inj)

lemma md_load_canonical:
  "md_load ip self = Inr is \<Longrightarrow> i \<in> set is \<Longrightarrow> canonical_issue_of ip i = Inr i"
proof -
  assume "md_load ip self = Inr is" and i: "i \<in> set is"
  then obtain items pairs where "rmap (md_issue ip (dict_of pairs)) items = Inr is"
    by (auto simp: md_load_def md_issues_def rbind_eq_Inr split: input.splits if_splits option.splits sum.splits issue_error.splits)
  then have "list_all2 (\<lambda>item j. canonical_issue_of ip j = Inr j) items is"
    unfolding rmap_eq_Inr by (rule list_all2_mono) (auto simp: md_issue_def dest: canonical_issue_facts(1))
  with i show "canonical_issue_of ip i = Inr i" by (auto simp: list_all2_conv_all_nth in_set_conv_nth)
qed

definition md_good :: "(string \<Rightarrow> bool) \<Rightarrow> canonical_issue list option \<Rightarrow> bool" where
  "md_good ip_literal cache \<longleftrightarrow> (\<forall>is. cache = Some is \<longrightarrow> (\<forall>i \<in> set is. canonical_issue_of ip_literal i = Inr i))"

interpretation md_canonical: canonical_source ip_literal "md_fetch ip_literal self" "md_good ip_literal"
    for ip_literal self
proof unfold_locales
  show "canonical_issue_of ip_literal i = Inr i"
    if "md_good ip_literal w" "fst (md_fetch ip_literal self c l w) = Inr page" "i \<in> set (page_issues page)"
    for w c l page i
    using that md_load_canonical [of ip_literal self]
    by (auto simp: md_fetch_def md_good_def Let_def split: if_splits option.splits sum.splits
        dest!: in_set_takeD in_set_dropD)
  show "md_good ip_literal (snd (md_fetch ip_literal self c l w))" if "md_good ip_literal w" for w c l
    using that md_load_canonical [of ip_literal self]
    by (auto simp: md_fetch_def md_good_def Let_def split: if_splits option.splits sum.splits)
qed

section \<open>Properties\<close>

text \<open>
  whatever the source answers, \<open>collect_issues\<close> ends after at most \<open>max_issues + 1\<close> requests, and what
  it returns has no identifier twice and at most \<open>max_issues\<close> issues.
\<close>

theorem collection_bounded:
  assumes "\<And>c l w. calls (snd (fetch c l w)) = Suc (calls w)"
  shows "calls (snd (collect_issues fetch page_size max_issues w)) \<le> calls w + nat (max_issues + 1)
    \<and> (case fst (collect_issues fetch page_size max_issues w) of
         Inl _ \<Rightarrow> True | Inr is \<Rightarrow> distinct (map ci_id is) \<and> int (length is) \<le> max_issues)"
proof (cases "1 \<le> max_issues \<and> 1 \<le> page_size \<and> page_size \<le> MAX_PAGE_SIZE")
  case True
  then have run: "collect_issues fetch page_size max_issues w
      = collect_from fetch (nat page_size) (nat max_issues) [] None [] w"
    by (simp add: collect_issues_def bounded_integer_def)
  have n: "Suc (nat max_issues) = nat (max_issues + 1)" using True by linarith
  obtain r w' where rw: "collect_from fetch (nat page_size) (nat max_issues) [] None [] w = (r, w')" by force
  have "distinct (map ci_id is) \<and> length is \<le> nat max_issues" if "r = Inr is" for "is"
    using collect_from_sound [OF rw [unfolded that]] by simp
  with collect_from_calls [of calls fetch "[]" "nat max_issues" "nat page_size" "[]" None w, OF assms] True
  show ?thesis by (auto simp: run rw n split: sum.split)
qed (auto simp: collect_issues_def bounded_integer_def)

definition endless :: "nat source" where
  "endless c l w = (Inr \<lparr>page_issues = [sample_issue\<lparr>ci_id := show_nat w\<rparr>], next_cursor = Some (show_nat w)\<rparr>, Suc w)"

lemma collection_bounded_witness: "snd (collect_issues endless 10 3 0) \<le> 4"
  using collection_bounded [of "\<lambda>n. n" endless 10 3 0] by (simp add: endless_def)

text \<open>
  from the local issues file the collector returns exactly the issues the file holds, in file order,
  for every page size, when their identifiers differ and they are not more than \<open>max_issues\<close>.
\<close>

theorem issues_file_collected:
  assumes "md_load ip_literal self = Inr is" "distinct (map ci_id is)"
    and "1 \<le> page_size" "page_size \<le> MAX_PAGE_SIZE" "1 \<le> max_issues" "int (length is) \<le> max_issues"
  shows "fst (collect_issues (md_fetch ip_literal self) page_size max_issues None) = Inr is"
proof -
  have content: "md_content ip_literal self = is" and "md_serves ip_literal self None"
    using assms(1) by (simp_all add: md_content_def md_serves_def is_ok_iff)
  with md.collect_complete [of ip_literal self max_issues page_size None] assms(2-6) show ?thesis
    by (simp add: nat_le_eq_zle le_nat_iff)
qed

definition sample_text :: string where
  "sample_text = ''## a: A'' @ [LF] @ ''## b: B'' @ [LF] @ ''Depends-On: a''"

definition sample_md :: md_source where
  "sample_md = \<lparr>md_input = Input 29 (Some sample_text), md_prefix = None, md_max_bytes = 10485760\<rparr>"

definition sample_md_issue :: "string \<Rightarrow> string \<Rightarrow> string list \<Rightarrow> canonical_issue" where
  "sample_md_issue i t ds = \<lparr>ci_id = i, ci_kind = ''issues-md'', ci_source_id = i, ci_title = t, ci_body = [],
     ci_deps = ds, ci_criteria = [], ci_labels = [], ci_url = None, ci_state = None, ci_updated = None, ci_version = 1\<rparr>"

definition sample_md_issues :: "canonical_issue list" where
  "sample_md_issues = [sample_md_issue ''a'' ''A'' [], sample_md_issue ''b'' ''B'' [''a'']]"

lemma sample_md_load: "md_load (\<lambda>_. False) sample_md = Inr sample_md_issues"
proof -
  let ?a = "\<lparr>spec_id = ''a'', spec_title = ''A'', spec_body = [], spec_deps = [], spec_criteria = []\<rparr>"
  let ?b = "\<lparr>spec_id = ''b'', spec_title = ''B'', spec_body = [], spec_deps = [''a''], spec_criteria = []\<rparr>"
  have parsed: "parse_issues sample_text = Inr [?a, ?b]" by code_simp
  have ok: "strip ''a'' = ''a''" "strip ''b'' = ''b''" "strip ''A'' = ''A''" "strip ''B'' = ''B''"
    "single_line ''a''" "single_line ''b''" "single_line ''A''" "single_line ''B''" "issue_id_text ''a''" "issue_id_text ''b''"
    by code_simp+
  note checks = canonical_issue_of_def validate_issue_id_def SOURCE_KINDS_def line_value_def utf8_length_def
    lines_value_def check_url_def optional_line_def MAX_SOURCE_ID_CHARS_def MAX_TITLE_CHARS_def MAX_ITEM_CHARS_def
    MAX_ITEMS_def
  have "canonical_issue_of (\<lambda>_. False) (sample_md_issue ''a'' ''A'' []) = Inr (sample_md_issue ''a'' ''A'' [])"
    "canonical_issue_of (\<lambda>_. False) (sample_md_issue ''b'' ''B'' [''a'']) = Inr (sample_md_issue ''b'' ''B'' [''a''])"
    using ok by (simp_all add: checks sample_md_issue_def)
  moreover have "dict_of [(''a'', ''a''), (''b'', ''b'')] = [(''a'', ''a''), (''b'', ''b'')]" by code_simp
  moreover have input: "md_input sample_md = Input 29 (Some sample_text)" "md_max_bytes sample_md = 10485760"
      "md_prefix sample_md = None"
    by (simp_all add: sample_md_def)
  ultimately have "md_issues (\<lambda>_. False) sample_md [?a, ?b] = Inr sample_md_issues"
    by (simp add: md_issues_def md_id_def md_issue_def sample_md_issues_def sample_md_issue_def)
  then show ?thesis by (simp only: md_load_def input input.case parsed sum.case option.case) simp
qed

lemma sample_md_ids: "map ci_id sample_md_issues = [''a'', ''b'']" "length sample_md_issues = 2"
  by (simp_all add: sample_md_issues_def sample_md_issue_def)

lemma issues_file_collected_witness:
  "fst (collect_issues (md_fetch (\<lambda>_. False) sample_md) 1 5 None) = Inr sample_md_issues"
  by (rule issues_file_collected [OF sample_md_load]) (simp_all add: MAX_PAGE_SIZE_def sample_md_ids)

end
