(* ===== verification/Providers.thy ===== *)
theory Providers
  imports Sources Json
begin

text \<open>
  The remote issue providers: the bounded transport of \<open>src/draindeck_intake/http.py\<close> and the GitHub,
  Linear and Jira adapters (\<open>github.py\<close>, \<open>linear.py\<close>, \<open>jira.py\<close>). The network is the parameter
  \<open>opener\<close>, one exchange: it answers a request with an error status, a redirect, a failure, or the size of
  the body and the JSON value it decodes to (\<open>None\<close>: not standard JSON). What urllib's opener does with a
  redirect, with the handler it was built with, is \<open>open_request\<close>. Socket timeouts are not modelled.
\<close>

section \<open>Percent encoding and base 64\<close>

definition utf8_bytes :: "string \<Rightarrow> nat list" where
  "utf8_bytes s = concat (map (\<lambda>c. let n = ord_of c in if n < 128 then [n] else [192 + n div 64, 128 + n mod 64]) s)"

definition upper_hex :: "nat \<Rightarrow> char" where
  "upper_hex d = (if d < 10 then char_of (48 + d) else char_of (55 + d))"

definition quote_byte :: "nat \<Rightarrow> string" where
  "quote_byte n = [CHR ''%'', upper_hex (n div 16), upper_hex (n mod 16)]"

definition unreserved :: "char \<Rightarrow> bool" where
  "unreserved c \<longleftrightarrow> is_alnum c \<or> c \<in> set ''_.-~''"

text \<open>\<open>quote(s, safe="")\<close> and \<open>quote_plus(s)\<close>.\<close>

definition quote :: "string \<Rightarrow> string" where
  "quote s = concat (map (\<lambda>c. if unreserved c then [c] else concat (map quote_byte (utf8_bytes [c]))) s)"

definition quote_plus :: "string \<Rightarrow> string" where
  "quote_plus s = concat (map (\<lambda>c. if c = SP then ''+'' else quote [c]) s)"

definition query_text :: "json \<Rightarrow> string" where
  "query_text v = (case v of JStr s \<Rightarrow> s | JInt i \<Rightarrow> show_int i | _ \<Rightarrow> [])"

definition urlencode :: "(string \<times> json) list \<Rightarrow> string" where
  "urlencode q = join ''&'' (map (\<lambda>(k, v). quote_plus k @ ''='' @ quote_plus (query_text v)) q)"

definition b64_char :: "nat \<Rightarrow> char" where
  "b64_char n = ''ABCDEFGHIJKLMNOPQRSTUVWXYZabcdefghijklmnopqrstuvwxyz0123456789+/'' ! n"

fun b64encode :: "nat list \<Rightarrow> string" where
  "b64encode (a # b # c # s) =
     [b64_char (a div 4), b64_char (a mod 4 * 16 + b div 16), b64_char (b mod 16 * 4 + c div 64), b64_char (c mod 64)]
     @ b64encode s"
| "b64encode [a, b] = [b64_char (a div 4), b64_char (a mod 4 * 16 + b div 16), b64_char (b mod 16 * 4), CHR ''='']"
| "b64encode [a] = [b64_char (a div 4), b64_char (a mod 4 * 16), CHR ''='', CHR ''='']"
| "b64encode [] = []"

section \<open>The transport\<close>

record http_request =
  h_method :: string
  h_url :: string
  h_headers :: "(string \<times> string) list"
  h_body :: "json option"

text \<open>A redirect is a status 301, 302, 303, 307 or 308 with the location it names.\<close>

datatype reply = HttpStatus int | Redirect int string | NetworkFailure | Reply nat "json option"

datatype expectation = ExpectObject | ExpectList | ExpectAny

text \<open>\<open>redirect_request\<close> is the method of the handler the opener is built with.\<close>

record transport =
  allowed_hosts :: "string list"
  max_response_bytes :: int
  redirect_request :: "http_request \<Rightarrow> string \<Rightarrow> http_request option"

type_synonym 'w opener = "http_request \<Rightarrow> 'w \<Rightarrow> reply \<times> 'w"

definition MAX_REQUEST_BYTES :: nat where "MAX_REQUEST_BYTES = 1024 * 1024"

text \<open>\<open>_NoRedirect\<close>: no request follows a redirect.\<close>

definition no_redirect :: "http_request \<Rightarrow> string \<Rightarrow> http_request option" where
  "no_redirect req location = None"

definition new_transport :: "string list \<Rightarrow> int \<Rightarrow> source_error + transport" where
  "new_transport hosts max_bytes =
     (let normal = map lower hosts in
      if normal = [] \<or> \<not> list_all (\<lambda>h. h \<noteq> [] \<and> CHR ''/'' \<notin> set h) normal then Inl (SourceError ''allowed_hosts'')
      else if max_bytes < 1 then Inl (SourceError ''max_response_bytes'')
      else Inr \<lparr>allowed_hosts = normal, max_response_bytes = max_bytes, redirect_request = no_redirect\<rparr>)"

definition url_allowed :: "(string \<Rightarrow> bool) \<Rightarrow> string list \<Rightarrow> url \<Rightarrow> bool" where
  "url_allowed ip_literal hosts u \<longleftrightarrow>
     lower (u_scheme u) = ''https'' \<and> \<not> has_userinfo u
     \<and> (case hostname u of None \<Rightarrow> False | Some h \<Rightarrow> lower h \<in> set hosts)"

definition validated_url :: "(string \<Rightarrow> bool) \<Rightarrow> transport \<Rightarrow> string \<Rightarrow> (string \<times> json) list \<Rightarrow> source_error + string" where
  "validated_url ip_literal self u query =
     (if CR \<in> set u \<or> LF \<in> set u then Inl (SourceError ''request URL'')
      else case urlsplit ip_literal u of
        None \<Rightarrow> Inl (Uncaught ''ValueError'')
      | Some p \<Rightarrow>
          if lower (u_scheme p) \<noteq> ''https'' then Inl (SourceError ''HTTPS'')
          else if has_userinfo p then Inl (SourceError ''credentials'')
          else if (case hostname p of None \<Rightarrow> True | Some h \<Rightarrow> lower h \<notin> set (allowed_hosts self))
          then Inl (SourceError ''host'')
          else if u_fragment p \<noteq> [] \<or> u_query p \<noteq> [] then Inl (SourceError ''query text'')
          else if query = [] then Inr u else Inr (u @ ''?'' @ urlencode query))"

definition header_name_ok :: "string \<Rightarrow> bool" where
  "header_name_ok s \<longleftrightarrow> s \<noteq> [] \<and> list_all (\<lambda>c. is_alnum c \<or> c \<in> set ''!#$%&*+.^_`|~-'' \<or> ord_of c = 39) s"

definition validated_headers :: "(string \<times> string) list \<Rightarrow> source_error + (string \<times> string) list" where
  "validated_headers hs =
     rfold (\<lambda>(k, v) d.
       if \<not> header_name_ok k then Inl (SourceError ''header name'')
       else if CR \<in> set v \<or> LF \<in> set v then Inl (SourceError ''header value'')
       else Inr (AList.update k v d)) hs []"

text \<open>\<open>json.dumps\<close> without escapes for characters beyond ASCII and in insertion order, for its size.\<close>

definition raw_char :: "char \<Rightarrow> string" where
  "raw_char c = (if 127 \<le> ord_of c then [c] else esc_char c)"

primrec dumps_raw :: "json \<Rightarrow> string" where
  "dumps_raw JNull = ''null''"
| "dumps_raw (JBool b) = (if b then ''true'' else ''false'')"
| "dumps_raw (JInt i) = show_int i"
| "dumps_raw (JFloat l) = l"
| "dumps_raw (JStr s) = DQ # concat (map raw_char s) @ [DQ]"
| "dumps_raw (JArr xs) = CHR ''['' # join '','' (map dumps_raw xs) @ '']''"
| "dumps_raw (JObj kvs) = CHR ''{'' # join '',''
     (map (\<lambda>(k, t). DQ # concat (map raw_char k) @ [DQ, CHR '':''] @ t) (map (map_prod id dumps_raw) kvs)) @ ''}''"

definition standard_float :: "string \<Rightarrow> bool" where
  "standard_float l \<longleftrightarrow> l \<notin> {''NaN'', ''Infinity'', ''-Infinity''}"

primrec serializable :: "json \<Rightarrow> bool" where
  "serializable JNull = True"
| "serializable (JBool b) = True"
| "serializable (JInt i) = True"
| "serializable (JFloat l) = standard_float l"
| "serializable (JStr s) = True"
| "serializable (JArr xs) = list_all id (map serializable xs)"
| "serializable (JObj kvs) = list_all snd (map (map_prod id serializable) kvs)"

definition as_expected :: "expectation \<Rightarrow> json \<Rightarrow> bool" where
  "as_expected e v = (case (e, v) of
     (ExpectAny, _) \<Rightarrow> True | (ExpectObject, JObj _) \<Rightarrow> True | (ExpectList, JArr _) \<Rightarrow> True | _ \<Rightarrow> False)"

definition request_headers :: "json option \<Rightarrow> (string \<times> string) list \<Rightarrow> (string \<times> string) list" where
  "request_headers body hs =
     (if body = None \<or> ''Content-Type'' \<in> set (keys hs) then hs else hs @ [(''Content-Type'', ''application/json'')])"

text \<open>
  \<open>self._opener.open(request)\<close>: urllib sends the request its handler answers a redirect with, at most ten
  times; without one, the redirect is an \<open>HTTPError\<close> like any other status.
\<close>

definition max_redirections :: nat where "max_redirections = 10"

fun open_request :: "nat \<Rightarrow> transport \<Rightarrow> 'w opener \<Rightarrow> http_request \<Rightarrow> 'w \<Rightarrow> reply \<times> 'w" where
  "open_request n self opener r w =
     (case opener r w of
        (Redirect code location, w') \<Rightarrow>
          (case (n, redirect_request self r location) of
             (Suc m, Some r') \<Rightarrow> open_request m self opener r' w'
           | _ \<Rightarrow> (HttpStatus code, w'))
      | answer \<Rightarrow> answer)"

definition accept_reply :: "transport \<Rightarrow> expectation \<Rightarrow> reply \<Rightarrow> source_error + json" where
  "accept_reply self shape r =
     (case r of
        HttpStatus _ \<Rightarrow> Inl (SourceError ''HTTP status'')
      | Redirect _ _ \<Rightarrow> Inl (SourceError ''HTTP status'')
      | NetworkFailure \<Rightarrow> Inl (SourceError ''request failed'')
      | Reply n v \<Rightarrow>
          if max_response_bytes self < int n then Inl (SourceError ''response size'')
          else case v of None \<Rightarrow> Inl (SourceError ''not JSON'')
          | Some j \<Rightarrow> if as_expected shape j then Inr j else Inl (SourceError ''JSON shape''))"

definition prepared :: "(string \<Rightarrow> bool) \<Rightarrow> transport \<Rightarrow> string \<Rightarrow> string \<Rightarrow> (string \<times> string) list
    \<Rightarrow> (string \<times> json) list \<Rightarrow> json option \<Rightarrow> source_error + http_request" where
  "prepared ip_literal self meth u headers query body =
     rbind (require (map (\<lambda>c. if is_lower c then char_of (ord_of c - 32) else c) meth \<in> {''GET'', ''POST''})
       (SourceError ''method'')) (\<lambda>_.
     rbind (validated_url ip_literal self u query) (\<lambda>full.
     rbind (validated_headers headers) (\<lambda>hs.
     rbind (case body of None \<Rightarrow> Inr ()
            | Some b \<Rightarrow> rbind (require (serializable b) (SourceError ''body'')) (\<lambda>_.
                require (utf8_length (dumps_raw b) \<le> MAX_REQUEST_BYTES) (SourceError ''body size''))) (\<lambda>_.
     Inr \<lparr>h_method = map (\<lambda>c. if is_lower c then char_of (ord_of c - 32) else c) meth, h_url = full,
          h_headers = request_headers body hs, h_body = body\<rparr>))))"

definition request_json :: "(string \<Rightarrow> bool) \<Rightarrow> transport \<Rightarrow> 'w opener \<Rightarrow> string \<Rightarrow> string \<Rightarrow> (string \<times> string) list
    \<Rightarrow> (string \<times> json) list \<Rightarrow> json option \<Rightarrow> expectation \<Rightarrow> 'w \<Rightarrow> (source_error + json) \<times> 'w" where
  "request_json ip_literal self opener meth u headers query body shape w =
     (case prepared ip_literal self meth u headers query body of
        Inl e \<Rightarrow> (Inl e, w)
      | Inr r \<Rightarrow> (let (rep, w') = open_request max_redirections self opener r w in (accept_reply self shape rep, w')))"

section \<open>GitHub\<close>

definition obj_get :: "json \<Rightarrow> string \<Rightarrow> json" where
  "obj_get raw k = (case raw of JObj kvs \<Rightarrow> (case map_of kvs k of Some v \<Rightarrow> v | None \<Rightarrow> JNull) | _ \<Rightarrow> JNull)"

definition has_key :: "json \<Rightarrow> string \<Rightarrow> bool" where
  "has_key raw k = (case raw of JObj kvs \<Rightarrow> map_of kvs k \<noteq> None | _ \<Rightarrow> False)"

definition as_str :: "string \<Rightarrow> json \<Rightarrow> source_error + string" where
  "as_str what v = (case v of JStr s \<Rightarrow> Inr s | _ \<Rightarrow> Inl (SourceError what))"

definition optional_text :: "string \<Rightarrow> json \<Rightarrow> source_error + string option" where
  "optional_text what v = (case v of JNull \<Rightarrow> Inr None | JStr s \<Rightarrow> Inr (Some s) | _ \<Rightarrow> Inl (SourceError what))"

definition as_list :: "string \<Rightarrow> json \<Rightarrow> source_error + json list" where
  "as_list what v = (case v of JArr xs \<Rightarrow> Inr xs | _ \<Rightarrow> Inl (SourceError what))"

definition is_object :: "json \<Rightarrow> bool" where
  "is_object v = (case v of JObj _ \<Rightarrow> True | _ \<Rightarrow> False)"

text \<open>\<open>except IssueValidationError\<close>: every refusal but the \<open>ValueError\<close> of \<open>urlsplit\<close>.\<close>

definition canonical :: "issue_error + 'a \<Rightarrow> source_error + 'a" where
  "canonical r = (case r of
     Inr i \<Rightarrow> Inr i
   | Inl UrlValueError \<Rightarrow> Inl (Uncaught ''ValueError'')
   | Inl _ \<Rightarrow> Inl (SourceError ''canonical fields''))"

definition label_name :: "json \<Rightarrow> source_error + string" where
  "label_name l = (if is_object l then as_str ''labels'' (obj_get l ''name'') else Inl (SourceError ''labels''))"

record github =
  gh_owner :: string
  gh_repo :: string
  gh_prefix :: string
  gh_token :: "string option"

definition scope_ok :: "string \<Rightarrow> bool" where
  "scope_ok v \<longleftrightarrow> v \<noteq> [] \<and> is_alnum (hd v) \<and> list_all (\<lambda>c. is_alnum c \<or> c \<in> set ''_.-'') (tl v) \<and> length v \<le> 100"

definition secret_ok :: "string \<Rightarrow> bool" where
  "secret_ok v \<longleftrightarrow> v \<noteq> [] \<and> length v \<le> 4096 \<and> CR \<notin> set v \<and> LF \<notin> set v"

definition new_github :: "string \<Rightarrow> string \<Rightarrow> string \<Rightarrow> string option \<Rightarrow> source_error + github" where
  "new_github owner repo prefix token =
     (if \<not> scope_ok owner then Inl (SourceError ''owner'')
      else if \<not> scope_ok repo then Inl (SourceError ''repo'')
      else if token \<noteq> None \<and> \<not> secret_ok (the token) then Inl (SourceError ''token'')
      else Inr \<lparr>gh_owner = owner, gh_repo = repo, gh_prefix = prefix, gh_token = token\<rparr>)"

text \<open>A pull request maps to no issue.\<close>

definition gh_number :: "json \<Rightarrow> source_error + int" where
  "gh_number v = (case v of JInt n \<Rightarrow> if 1 \<le> n then Inr n else Inl (SourceError ''number'') | _ \<Rightarrow> Inl (SourceError ''number''))"

definition gh_map_issue :: "(string \<Rightarrow> bool) \<Rightarrow> github \<Rightarrow> json \<Rightarrow> source_error + canonical_issue option" where
  "gh_map_issue ip_literal self raw =
     (if \<not> is_object raw then Inl (SourceError ''record'')
      else if has_key raw ''pull_request'' then Inr None
      else
        rbind (gh_number (obj_get raw ''number'')) (\<lambda>number.
        rbind (as_str ''title'' (obj_get raw ''title'')) (\<lambda>title.
        rbind (if has_key raw ''labels'' then as_list ''labels'' (obj_get raw ''labels'') else Inr []) (\<lambda>labels_raw.
        rbind (rmap label_name labels_raw) (\<lambda>labels.
        rbind (if obj_get raw ''body'' = JNull then Inr [] else as_str ''body'' (obj_get raw ''body'')) (\<lambda>body.
        rbind (canonical (make_scoped_issue_id (gh_prefix self) [gh_owner self, gh_repo self, show_int number])) (\<lambda>iid.
        rbind (optional_text ''html_url'' (obj_get raw ''html_url'')) (\<lambda>url.
        rbind (optional_text ''state'' (obj_get raw ''state'')) (\<lambda>state.
        rbind (optional_text ''updated_at'' (obj_get raw ''updated_at'')) (\<lambda>updated.
        rbind (canonical (canonical_issue_of ip_literal
          \<lparr>ci_id = iid, ci_kind = ''github'',
           ci_source_id = gh_owner self @ ''/'' @ gh_repo self @ ''#'' @ show_int number, ci_title = title,
           ci_body = body, ci_deps = [], ci_criteria = [], ci_labels = labels, ci_url = url, ci_state = state,
           ci_updated = updated, ci_version = 1\<rparr>)) (\<lambda>i. Inr (Some i))))))))))))"

definition gh_headers :: "github \<Rightarrow> (string \<times> string) list" where
  "gh_headers self =
     [(''Accept'', ''application/vnd.github+json''), (''X-GitHub-Api-Version'', ''2026-03-10''),
      (''User-Agent'', ''draindeck-intake/1'')]
     @ (case gh_token self of None \<Rightarrow> [] | Some t \<Rightarrow> [(''Authorization'', ''Bearer '' @ t)])"

definition gh_url :: "github \<Rightarrow> string" where
  "gh_url self = ''https://api.github.com/repos/'' @ quote (gh_owner self) @ ''/'' @ quote (gh_repo self) @ ''/issues''"

definition gh_query :: "nat \<Rightarrow> nat \<Rightarrow> (string \<times> json) list" where
  "gh_query limit page =
     [(''state'', JStr ''open''), (''sort'', JStr ''created''), (''direction'', JStr ''asc''),
      (''per_page'', JInt (int limit)), (''page'', JInt (int page))]"

definition MAX_SKIPPED_PULL_REQUEST_PAGES :: nat where "MAX_SKIPPED_PULL_REQUEST_PAGES = 100"

text \<open>The \<open>for\<close> loop over pages that hold pull requests only; the first argument counts its rounds.\<close>

fun gh_pages :: "nat \<Rightarrow> (string \<Rightarrow> bool) \<Rightarrow> transport \<Rightarrow> 'w opener \<Rightarrow> github \<Rightarrow> nat \<Rightarrow> nat \<Rightarrow> 'w
    \<Rightarrow> (source_error + issue_page) \<times> 'w" where
  "gh_pages 0 ip_literal tr opener self limit page w = (Inl (SourceError ''pull-request-only pagination''), w)"
| "gh_pages (Suc n) ip_literal tr opener self limit page w =
     (case request_json ip_literal tr opener ''GET'' (gh_url self) (gh_headers self) (gh_query limit page) None ExpectList w of
        (Inl e, w') \<Rightarrow> (Inl e, w')
      | (Inr raw, w') \<Rightarrow>
          (case rbind (as_list ''response'' raw) (\<lambda>items.
              rbind (rmap (gh_map_issue ip_literal self) items) (\<lambda>is. Inr (items, List.map_filter id is))) of
             Inl e \<Rightarrow> (Inl e, w')
           | Inr (items, mapped) \<Rightarrow>
               let next = (if length items = limit then Some (show_nat (page + 1)) else None) in
               if mapped \<noteq> [] \<or> next = None then (Inr \<lparr>page_issues = mapped, next_cursor = next\<rparr>, w')
               else gh_pages n ip_literal tr opener self limit (page + 1) w'))"

definition gh_fetch :: "(string \<Rightarrow> bool) \<Rightarrow> transport \<Rightarrow> 'w opener \<Rightarrow> github \<Rightarrow> 'w source" where
  "gh_fetch ip_literal tr opener self cursor limit w =
     (if \<not> (1 \<le> limit \<and> limit \<le> 100) then (Inl (SourceError ''limit''), w)
      else case cursor of
        None \<Rightarrow> gh_pages MAX_SKIPPED_PULL_REQUEST_PAGES ip_literal tr opener self limit 1 w
      | Some c \<Rightarrow>
          if c \<noteq> [] \<and> list_all is_digit c \<and> 1 \<le> read_nat c
          then gh_pages MAX_SKIPPED_PULL_REQUEST_PAGES ip_literal tr opener self limit (read_nat c) w
          else (Inl (SourceError ''cursor''), w))"

section \<open>Linear\<close>

record linear =
  ln_team_key :: string
  ln_api_key :: string
  ln_prefix :: string

definition new_linear :: "string \<Rightarrow> string \<Rightarrow> string \<Rightarrow> source_error + linear" where
  "new_linear team_key api_key prefix =
     (if \<not> (team_key \<noteq> [] \<and> is_alnum (hd team_key) \<and> list_all id_char (tl team_key) \<and> length team_key \<le> 50)
      then Inl (SourceError ''team_key'')
      else if \<not> secret_ok api_key then Inl (SourceError ''api_key'')
      else Inr \<lparr>ln_team_key = team_key, ln_api_key = api_key, ln_prefix = prefix\<rparr>)"

definition ln_priority :: "json \<Rightarrow> source_error + int" where
  "ln_priority v = (case v of JInt n \<Rightarrow> if 0 \<le> n \<and> n \<le> 4 then Inr n else Inl (SourceError ''priority'')
     | _ \<Rightarrow> Inl (SourceError ''priority''))"

text \<open>All labels of an issue must be on the one page that was asked for.\<close>

definition ln_labels :: "json \<Rightarrow> source_error + string list" where
  "ln_labels raw =
     (if \<not> is_object raw then Inl (SourceError ''labels'')
      else rbind (as_list ''labels'' (obj_get raw ''nodes'')) (\<lambda>nodes.
        if is_object (obj_get raw ''pageInfo'') \<and> obj_get (obj_get raw ''pageInfo'') ''hasNextPage'' = JBool False
        then rmap label_name nodes else Inl (SourceError ''labels pagination'')))"

definition ln_map_issue :: "(string \<Rightarrow> bool) \<Rightarrow> linear \<Rightarrow> json \<Rightarrow> source_error + canonical_issue" where
  "ln_map_issue ip_literal self raw =
     (if \<not> is_object raw then Inl (SourceError ''record'')
      else
        rbind (as_str ''identifier'' (obj_get raw ''identifier'')) (\<lambda>identifier.
        rbind (as_str ''title'' (obj_get raw ''title'')) (\<lambda>title.
        rbind (as_str ''url'' (obj_get raw ''url'')) (\<lambda>url.
        rbind (as_str ''updatedAt'' (obj_get raw ''updatedAt'')) (\<lambda>updated.
        rbind (optional_text ''description'' (obj_get raw ''description'')) (\<lambda>description.
        rbind (ln_priority (obj_get raw ''priority'')) (\<lambda>priority.
        rbind (if is_object (obj_get raw ''state'') then as_str ''state'' (obj_get (obj_get raw ''state'') ''name'')
               else Inl (SourceError ''state'')) (\<lambda>state.
        rbind (ln_labels (obj_get raw ''labels'')) (\<lambda>labels.
        rbind (canonical (make_scoped_issue_id (ln_prefix self) [identifier])) (\<lambda>iid.
        canonical (canonical_issue_of ip_literal
          \<lparr>ci_id = iid, ci_kind = ''linear'', ci_source_id = identifier, ci_title = title,
           ci_body = (case description of None \<Rightarrow> [] | Some d \<Rightarrow> d), ci_deps = [], ci_criteria = [],
           ci_labels = labels @ (if priority = 0 then [] else [''priority:'' @ show_int priority]),
           ci_url = Some url, ci_state = Some state, ci_updated = Some updated, ci_version = 1\<rparr>)))))))))))"

definition cursor_ok :: "string option \<Rightarrow> bool" where
  "cursor_ok cursor = (case cursor of None \<Rightarrow> True | Some c \<Rightarrow> secret_ok c)"

definition ln_errors :: "json \<Rightarrow> source_error + unit" where
  "ln_errors v = (case v of JNull \<Rightarrow> Inr () | JArr xs \<Rightarrow> require (xs = []) (SourceError ''GraphQL errors'')
     | _ \<Rightarrow> Inl (SourceError ''errors''))"

definition ln_page_info :: "json \<Rightarrow> source_error + string option" where
  "ln_page_info info =
     (if \<not> is_object info then Inl (SourceError ''pageInfo'')
      else case obj_get info ''hasNextPage'' of
        JBool True \<Rightarrow> (case obj_get info ''endCursor'' of
            JStr c \<Rightarrow> if c = [] then Inl (SourceError ''pageInfo'') else Inr (Some c)
          | _ \<Rightarrow> Inl (SourceError ''pageInfo''))
      | JBool False \<Rightarrow> Inr None
      | _ \<Rightarrow> Inl (SourceError ''pageInfo''))"

definition ln_response :: "(string \<Rightarrow> bool) \<Rightarrow> linear \<Rightarrow> json \<Rightarrow> source_error + issue_page" where
  "ln_response ip_literal self raw =
     (if \<not> is_object raw then Inl (SourceError ''response'')
      else
        rbind (ln_errors (obj_get raw ''errors'')) (\<lambda>_.
        if \<not> is_object (obj_get raw ''data'') \<or> \<not> is_object (obj_get (obj_get raw ''data'') ''issues'')
        then Inl (SourceError ''data'')
        else let connection = obj_get (obj_get raw ''data'') ''issues'' in
          rbind (as_list ''nodes'' (obj_get connection ''nodes'')) (\<lambda>nodes.
          rbind (ln_page_info (obj_get connection ''pageInfo'')) (\<lambda>next.
          rbind (rmap (ln_map_issue ip_literal self) nodes) (\<lambda>is.
          Inr \<lparr>page_issues = is, next_cursor = next\<rparr>)))))"

definition LINEAR_ISSUES_QUERY :: string where
  "LINEAR_ISSUES_QUERY = unlines
    [''query DraindeckIntakeIssues('',
     ''  $first: Int!'',
     ''  $after: String'',
     ''  $teamKey: String!'',
     '') {'',
     ''  issues('',
     ''    first: $first'',
     ''    after: $after'',
     ''    filter: {team: {key: {eq: $teamKey}}}'',
     ''  ) {'',
     ''    nodes {'',
     ''      identifier'',
     ''      title'',
     ''      description'',
     ''      url'',
     ''      updatedAt'',
     ''      priority'',
     ''      state { name }'',
     ''      labels(first: 101) { nodes { name } pageInfo { hasNextPage endCursor } }'',
     ''    }'',
     ''    pageInfo { hasNextPage endCursor }'',
     ''  }'',
     ''}'']"

definition ln_fetch :: "(string \<Rightarrow> bool) \<Rightarrow> transport \<Rightarrow> 'w opener \<Rightarrow> linear \<Rightarrow> 'w source" where
  "ln_fetch ip_literal tr opener self cursor limit w =
     (if \<not> (1 \<le> limit \<and> limit \<le> 100) then (Inl (SourceError ''limit''), w)
      else if \<not> cursor_ok cursor then (Inl (SourceError ''cursor''), w)
      else case request_json ip_literal tr opener ''POST'' ''https://api.linear.app/graphql''
          [(''Accept'', ''application/json''), (''Authorization'', ln_api_key self)] []
          (Some (JObj [(''query'', JStr LINEAR_ISSUES_QUERY),
             (''variables'', JObj [(''first'', JInt (int limit)),
                (''after'', case cursor of None \<Rightarrow> JNull | Some c \<Rightarrow> JStr c), (''teamKey'', JStr (ln_team_key self))])]))
          ExpectObject w of
        (Inl e, w') \<Rightarrow> (Inl e, w')
      | (Inr raw, w') \<Rightarrow> (ln_response ip_literal self raw, w'))"

section \<open>Jira\<close>

definition ADF_BLOCKS :: "string list" where
  "ADF_BLOCKS = [''blockquote'', ''codeBlock'', ''heading'', ''listItem'', ''panel'', ''paragraph'', ''tableCell'',
     ''tableHeader'', ''tableRow'']"

definition MAX_ADF_DEPTH :: nat where "MAX_ADF_DEPTH = 100"
definition MAX_ADF_NODES :: nat where "MAX_ADF_NODES = 10000"

definition node_content :: "json \<Rightarrow> source_error + json list" where
  "node_content node =
     (if has_key node ''content'' then as_list ''content'' (obj_get node ''content'') else Inr [])"

definition close_block :: "string \<Rightarrow> string list \<Rightarrow> string list" where
  "close_block node_type parts =
     (if node_type \<in> set ADF_BLOCKS \<and> parts \<noteq> [] \<and> (last parts = [] \<or> last (last parts) \<noteq> LF)
      then parts @ [[LF]] else parts)"

text \<open>
  \<open>walk\<close> and its loop over the children; the state is the text so far and the number of visited nodes.
  The depth bound is what makes the recursion end.
\<close>

function walk :: "json \<Rightarrow> nat \<Rightarrow> string list \<times> nat \<Rightarrow> source_error + string list \<times> nat"
  and walk_all :: "json list \<Rightarrow> nat \<Rightarrow> string list \<times> nat \<Rightarrow> source_error + string list \<times> nat" where
  "walk node depth st =
     (if MAX_ADF_NODES < snd st + 1 \<or> MAX_ADF_DEPTH < depth then Inl (SourceError ''structural limits'')
      else case obj_get node ''type'' of
        JStr node_type \<Rightarrow>
          if node_type = ''text'' then
            rbind (as_str ''text node'' (obj_get node ''text'')) (\<lambda>t. Inr (fst st @ [t], snd st + 1))
          else if node_type = ''hardBreak'' then Inr (fst st @ [[LF]], snd st + 1)
          else
            rbind (node_content node) (\<lambda>content.
            rbind (walk_all content (depth + 1) (fst st, snd st + 1)) (\<lambda>st'.
            Inr (close_block node_type (fst st'), snd st')))
      | _ \<Rightarrow> Inl (SourceError ''malformed node''))"
| "walk_all [] depth st = Inr st"
| "walk_all (c # cs) depth st = rbind (walk c depth st) (walk_all cs depth)"
  by pat_completeness auto
termination
  by (relation "measures [\<lambda>x. case x of Inl (_, d, _) \<Rightarrow> MAX_ADF_DEPTH + 1 - d | Inr (_, d, _) \<Rightarrow> MAX_ADF_DEPTH + 1 - d,
      \<lambda>x. case x of Inl _ \<Rightarrow> 0 | Inr (cs, _, _) \<Rightarrow> Suc (length cs)]") auto

declare walk.simps [simp del] walk_all.simps [simp del]

text \<open>\<open>\n{2,}\<close> becomes one line feed.\<close>

fun one_newline :: "string \<Rightarrow> string" where
  "one_newline (a # b # s) = (if a = LF \<and> b = LF then one_newline (b # s) else a # one_newline (b # s))"
| "one_newline s = s"

definition adf_to_text :: "json \<Rightarrow> source_error + string" where
  "adf_to_text document =
     (if document = JNull then Inr []
      else if \<not> is_object document \<or> obj_get document ''type'' \<noteq> JStr ''doc'' then Inl (SourceError ''doc object'')
      else rbind (walk document 0 ([], 0)) (\<lambda>(parts, _). Inr (strip (one_newline (concat parts)))))"

record jira =
  jr_base :: string
  jr_jql :: string
  jr_email :: string
  jr_api_token :: string
  jr_prefix :: string

text \<open>\<open>parsed.port\<close>: the outer \<open>None\<close> is its \<open>ValueError\<close>.\<close>

definition url_port :: "url \<Rightarrow> nat option option" where
  "url_port u =
     (let h = hostinfo u;
          after = (case partition_at CHR ''['' h of Some (_, b) \<Rightarrow> snd (cut CHR '']'' b) | None \<Rightarrow> h);
          p = snd (cut CHR '':'' after)
      in if p = [] then Some None
         else if list_all is_digit p \<and> read_nat p \<le> 65535 then Some (Some (read_nat p)) else None)"

definition ends_with :: "string \<Rightarrow> string \<Rightarrow> bool" where
  "ends_with suffix s \<longleftrightarrow> starts_with (rev suffix) (rev s)"

definition jira_root :: "(string \<Rightarrow> bool) \<Rightarrow> string \<Rightarrow> source_error + string" where
  "jira_root ip_literal base_url =
     (case urlsplit ip_literal base_url of
        None \<Rightarrow> Inl (SourceError ''base_url'')
      | Some u \<Rightarrow>
          (case url_port u of
             None \<Rightarrow> Inl (SourceError ''base_url'')
           | Some port \<Rightarrow>
               let host = (case hostname u of None \<Rightarrow> [] | Some h \<Rightarrow> lower h) in
               if lower (u_scheme u) \<noteq> ''https'' \<or> \<not> ends_with ''.atlassian.net'' host \<or> host = ''atlassian.net''
                  \<or> has_userinfo u \<or> port \<notin> {None, Some 443} \<or> u_path u \<notin> {[], ''/''}
                  \<or> u_query u \<noteq> [] \<or> u_fragment u \<noteq> []
               then Inl (SourceError ''base_url'') else Inr (''https://'' @ host)))"

definition new_jira :: "(string \<Rightarrow> bool) \<Rightarrow> string \<Rightarrow> string \<Rightarrow> string \<Rightarrow> string \<Rightarrow> string \<Rightarrow> source_error + jira" where
  "new_jira ip_literal base_url jql email api_token prefix =
     rbind (jira_root ip_literal base_url) (\<lambda>root.
     rbind (require (jql \<noteq> [] \<and> strip jql = jql \<and> length jql \<le> 20000 \<and> CR \<notin> set jql \<and> LF \<notin> set jql)
       (SourceError ''jql'')) (\<lambda>_.
     rbind (require (secret_ok email \<and> CHR '':'' \<notin> set email) (SourceError ''email'')) (\<lambda>_.
     rbind (require (secret_ok api_token) (SourceError ''api_token'')) (\<lambda>_.
     Inr \<lparr>jr_base = root, jr_jql = jql, jr_email = email, jr_api_token = api_token, jr_prefix = prefix\<rparr>))))"

definition jr_status :: "json \<Rightarrow> source_error + string option" where
  "jr_status v =
     (if v = JNull then Inr None
      else if is_object v then rbind (as_str ''status'' (obj_get v ''name'')) (\<lambda>s. Inr (Some s))
      else Inl (SourceError ''status''))"

definition jr_map_issue :: "(string \<Rightarrow> bool) \<Rightarrow> jira \<Rightarrow> json \<Rightarrow> source_error + canonical_issue" where
  "jr_map_issue ip_literal self raw =
     rbind (as_str ''key'' (obj_get raw ''key'')) (\<lambda>key.
     rbind (as_str ''fields'' (obj_get (obj_get raw ''fields'') ''summary'')) (\<lambda>summary.
     let fields = obj_get raw ''fields'' in
     rbind (if has_key fields ''labels'' then as_list ''labels'' (obj_get fields ''labels'') else Inr []) (\<lambda>labels_raw.
     rbind (rmap (as_str ''labels'') labels_raw) (\<lambda>labels.
     rbind (jr_status (obj_get fields ''status'')) (\<lambda>status.
     rbind (canonical (make_scoped_issue_id (jr_prefix self) [key])) (\<lambda>iid.
     rbind (adf_to_text (obj_get fields ''description'')) (\<lambda>body.
     rbind (optional_text ''updated'' (obj_get fields ''updated'')) (\<lambda>updated.
     canonical (canonical_issue_of ip_literal
       \<lparr>ci_id = iid, ci_kind = ''jira'', ci_source_id = key, ci_title = summary, ci_body = body, ci_deps = [],
        ci_criteria = [], ci_labels = labels, ci_url = Some (jr_base self @ ''/browse/'' @ quote key),
        ci_state = status, ci_updated = updated, ci_version = 1\<rparr>)))))))))"

definition jr_next :: "json \<Rightarrow> json \<Rightarrow> source_error + string option" where
  "jr_next is_last next =
     (case is_last of
        JBool last_page \<Rightarrow>
          (case next of
             JNull \<Rightarrow> if last_page then Inr None else Inl (SourceError ''isLast requires nextPageToken'')
           | JStr c \<Rightarrow> if c = [] then Inl (SourceError ''nextPageToken'')
               else if last_page then Inl (SourceError ''isLast conflicts with nextPageToken'') else Inr (Some c)
           | _ \<Rightarrow> Inl (SourceError ''nextPageToken''))
      | _ \<Rightarrow> Inl (SourceError ''isLast''))"

definition jr_response :: "(string \<Rightarrow> bool) \<Rightarrow> jira \<Rightarrow> json \<Rightarrow> source_error + issue_page" where
  "jr_response ip_literal self raw =
     rbind (as_list ''issues'' (obj_get raw ''issues'')) (\<lambda>items.
     rbind (jr_next (obj_get raw ''isLast'') (obj_get raw ''nextPageToken'')) (\<lambda>next.
     rbind (rmap (jr_map_issue ip_literal self) items) (\<lambda>is.
     Inr \<lparr>page_issues = is, next_cursor = next\<rparr>)))"

definition jr_fetch :: "(string \<Rightarrow> bool) \<Rightarrow> transport \<Rightarrow> 'w opener \<Rightarrow> jira \<Rightarrow> 'w source" where
  "jr_fetch ip_literal tr opener self cursor limit w =
     (if \<not> (1 \<le> limit \<and> limit \<le> 100) then (Inl (SourceError ''limit''), w)
      else if \<not> cursor_ok cursor then (Inl (SourceError ''cursor''), w)
      else case request_json ip_literal tr opener ''POST'' (jr_base self @ ''/rest/api/3/search/jql'')
          [(''Accept'', ''application/json''),
           (''Authorization'', ''Basic '' @ b64encode (utf8_bytes (jr_email self @ '':'' @ jr_api_token self)))] []
          (Some (JObj ([(''jql'', JStr (jr_jql self)),
             (''fields'', JArr (map JStr [''summary'', ''description'', ''labels'', ''status'', ''updated''])),
             (''maxResults'', JInt (int limit))]
             @ (case cursor of None \<Rightarrow> [] | Some c \<Rightarrow> [(''nextPageToken'', JStr c)]))))
          ExpectObject w of
        (Inl e, w') \<Rightarrow> (Inl e, w')
      | (Inr raw, w') \<Rightarrow> (jr_response ip_literal self raw, w'))"

section \<open>Every provider serves canonical issues\<close>

lemma canonical_ok: "canonical (canonical_issue_of ip raw) = Inr i \<Longrightarrow> canonical_issue_of ip i = Inr i"
  using canonical_issue_facts(1) [of ip raw i]
  by (auto simp: canonical_def split: sum.splits issue_error.splits)

lemma rmap_canonical:
  assumes "rmap f xs = Inr is" "\<And>x i. f x = Inr i \<Longrightarrow> P i" "i \<in> set is"
  shows "P i"
  using assms(1,3) unfolding rmap_eq_Inr by (auto simp: list_all2_conv_all_nth in_set_conv_nth intro: assms(2))

lemma gh_map_canonical: "gh_map_issue ip self raw = Inr (Some i) \<Longrightarrow> canonical_issue_of ip i = Inr i"
  by (auto simp: gh_map_issue_def rbind_eq_Inr dest: canonical_ok split: if_splits)

lemma gh_pages_canonical:
  "fst (gh_pages n ip tr opener self limit page w) = Inr pg \<Longrightarrow> i \<in> set (page_issues pg)
     \<Longrightarrow> canonical_issue_of ip i = Inr i"
proof (induction n ip tr opener self limit page w rule: gh_pages.induct)
  case (2 n ip tr opener self limit page w)
  obtain r w' where req: "request_json ip tr opener ''GET'' (gh_url self) (gh_headers self) (gh_query limit page) None
      ExpectList w = (r, w')" by force
  show ?case
  proof (cases "\<exists>raw items is. r = Inr raw \<and> as_list ''response'' raw = Inr items \<and> rmap (gh_map_issue ip self) items = Inr is")
    case False
    with "2.prems"(1) req show ?thesis
      by (auto simp: rbind_eq_Inl rbind_eq_Inr split: sum.splits)
  next
    case True
    then obtain raw items "is" where r: "r = Inr raw" and items: "as_list ''response'' raw = Inr items"
      and "is": "rmap (gh_map_issue ip self) items = Inr is" by blast
    let ?m = "List.map_filter id is"
    let ?n = "if length items = limit then Some (show_nat (page + 1)) else None"
    show ?thesis
    proof (cases "?m \<noteq> [] \<or> ?n = None")
      case True
      with "2.prems" req r items "is" have "Some i \<in> set is"
        by (auto simp: Let_def map_filter_def split: if_splits)
      then show ?thesis
        using gh_map_canonical rmap_canonical [OF "is", of "\<lambda>x. \<forall>i. x = Some i \<longrightarrow> canonical_issue_of ip i = Inr i" "Some i"]
        by blast
    next
      case False
      have bind: "rbind (as_list ''response'' raw) (\<lambda>items. rbind (rmap (gh_map_issue ip self) items)
          (\<lambda>is. Inr (items, List.map_filter id is))) = Inr (items, ?m)" by (simp add: items "is")
      have "fst (gh_pages n ip tr opener self limit (page + 1) w') = Inr pg"
        using "2.prems"(1) False by (simp add: req r bind Let_def split: if_splits)
      from "2.IH" [OF req [symmetric] r bind refl refl False this "2.prems"(2)] show ?thesis .
    qed
  qed
qed simp

lemma ln_map_canonical: "ln_map_issue ip self raw = Inr i \<Longrightarrow> canonical_issue_of ip i = Inr i"
  by (auto simp: ln_map_issue_def rbind_eq_Inr dest: canonical_ok split: if_splits)

lemma ln_response_canonical:
  "ln_response ip self raw = Inr pg \<Longrightarrow> i \<in> set (page_issues pg) \<Longrightarrow> canonical_issue_of ip i = Inr i"
  by (auto simp: ln_response_def rbind_eq_Inr Let_def split: if_splits
      dest: rmap_canonical [OF _ ln_map_canonical])

lemma jr_map_canonical: "jr_map_issue ip self raw = Inr i \<Longrightarrow> canonical_issue_of ip i = Inr i"
  by (auto simp: jr_map_issue_def rbind_eq_Inr Let_def dest: canonical_ok split: if_splits)

lemma jr_response_canonical:
  "jr_response ip self raw = Inr pg \<Longrightarrow> i \<in> set (page_issues pg) \<Longrightarrow> canonical_issue_of ip i = Inr i"
  by (auto simp: jr_response_def rbind_eq_Inr dest: rmap_canonical [OF _ jr_map_canonical])

interpretation gh: canonical_source ip_literal "gh_fetch ip_literal tr opener self" "\<lambda>_. True"
    for ip_literal tr opener self
  by unfold_locales
    (auto simp: gh_fetch_def simp del: gh_pages.simps split: if_splits option.splits dest: gh_pages_canonical)

interpretation ln: canonical_source ip_literal "ln_fetch ip_literal tr opener self" "\<lambda>_. True"
    for ip_literal tr opener self
  by unfold_locales (auto simp: ln_fetch_def split: if_splits prod.splits sum.splits dest: ln_response_canonical)

interpretation jr: canonical_source ip_literal "jr_fetch ip_literal tr opener self" "\<lambda>_. True"
    for ip_literal tr opener self
  by unfold_locales (auto simp: jr_fetch_def split: if_splits prod.splits sum.splits dest: jr_response_canonical)

section \<open>Where requests go\<close>

lemma partition_at_append:
  "partition_at c s = Some (a, b) \<Longrightarrow> partition_at c (s @ t) = Some (a, b @ t)"
proof -
  assume p: "partition_at c s = Some (a, b)"
  then have c: "c \<in> set s" by (simp add: partition_at_def split: if_splits)
  then have "dropWhile (\<lambda>d. d \<noteq> c) s \<noteq> []" by auto
  with p c show ?thesis by (auto simp: partition_at_def takeWhile_append dropWhile_append)
qed

lemma split_scheme_append:
  assumes "split_scheme s = (sc, r)" "sc \<noteq> []"
  shows "split_scheme (s @ t) = (sc, r @ t)"
proof (cases "partition_at CHR '':'' s")
  case None
  with assms show ?thesis by (simp add: split_scheme_def)
next
  case (Some ab)
  obtain a b where "ab = (a, b)" by force
  with Some have p: "partition_at CHR '':'' s = Some (a, b)" by simp
  show ?thesis using assms p partition_at_append [OF p, of t] by (auto simp: split_scheme_def split: if_splits)
qed

lemma takeWhile_until: "\<not> P q \<Longrightarrow> takeWhile P (xs @ q # ys) = takeWhile P xs"
  by (induction xs) auto

text \<open>Query text after a question mark leaves scheme and network location alone.\<close>

lemma urlsplit_query:
  assumes "urlsplit ip s = Some u" "u_scheme u \<noteq> []" "u_netloc u \<noteq> []"
  shows "\<exists>v. urlsplit ip (s @ CHR ''?'' # t) = Some v \<and> u_scheme v = u_scheme u \<and> u_netloc v = u_netloc u"
proof -
  obtain sc r where sc: "split_scheme (clean_url s) = (sc, r)" by force
  note u = urlsplit_fields(2) [OF sc assms(1)]
  let ?d = "dropWhile (\<lambda>c. ord_of c \<le> 32) s" and ?t = "filter (\<lambda>c. c \<notin> {LF, CR, CHR 0x09}) t"
  have "?d \<noteq> []"
  proof
    assume e: "?d = []"
    have "split_scheme (clean_url s) = ([], [])"
      unfolding clean_url_def e by (simp add: split_scheme_def partition_at_def)
    with sc u assms(2) show False by simp
  qed
  then have "clean_url (s @ CHR ''?'' # t) = clean_url s @ CHR ''?'' # ?t"
    by (auto simp: clean_url_def dropWhile_append)
  with split_scheme_append [OF sc] u assms(2)
  have sc': "split_scheme (clean_url (s @ CHR ''?'' # t)) = (sc, r @ CHR ''?'' # ?t)" by simp
  have start: "starts_with ''//'' r" using assms(3) u by (simp add: netloc_of_def split: if_splits)
  then have "2 \<le> length r" unfolding starts_with_def
    by (metis length_Cons length_take list.size(3) min.cobounded1 numeral_2_eq_2)
  then have "netloc_of (r @ CHR ''?'' # ?t) = netloc_of r"
    using start takeWhile_until [of "\<lambda>c. c \<notin> set ''/?#''" "CHR ''?''" "drop 2 r" ?t]
    by (simp add: netloc_of_def starts_with_def)
  with urlsplit_fields [OF sc', of ip] u show ?thesis by auto
qed

definition request_ok :: "(string \<Rightarrow> bool) \<Rightarrow> transport \<Rightarrow> http_request \<Rightarrow> bool" where
  "request_ok ip_literal tr r \<longleftrightarrow>
     (case urlsplit ip_literal (h_url r) of None \<Rightarrow> False | Some u \<Rightarrow> url_allowed ip_literal (allowed_hosts tr) u)
     \<and> h_method r \<in> {''GET'', ''POST''} \<and> list_all (\<lambda>(k, v). header_name_ok k \<and> CR \<notin> set v \<and> LF \<notin> set v) (h_headers r)"

lemma validated_headers_ok:
  "validated_headers hs = Inr r \<Longrightarrow> list_all (\<lambda>(k, v). header_name_ok k \<and> CR \<notin> set v \<and> LF \<notin> set v) r"
proof -
  assume v: "validated_headers hs = Inr r"
  have upd: "list_all P (AList.update k v d)" if "P (k, v)" "list_all P d" for P k v and d :: "(string \<times> string) list"
    using that by (induction d) auto
  show ?thesis
    by (rule rfold_invariant [OF _ _ v [unfolded validated_headers_def]]) (auto intro!: upd split: if_splits)
qed

lemma url_allowed_cong:
  "u_scheme v = u_scheme u \<Longrightarrow> u_netloc v = u_netloc u \<Longrightarrow> url_allowed ip hosts v = url_allowed ip hosts u"
proof -
  assume eq: "u_scheme v = u_scheme u" "u_netloc v = u_netloc u"
  then have "hostinfo v = hostinfo u" by (simp add: hostinfo_def)
  then have "hostname v = hostname u" unfolding hostname_def by (simp only:)
  with eq show ?thesis by (simp add: url_allowed_def has_userinfo_def)
qed

lemma validated_url_ok:
  assumes "validated_url ip tr u q = Inr full"
  shows "\<exists>v. urlsplit ip full = Some v \<and> url_allowed ip (allowed_hosts tr) v"
proof -
  from assms obtain p where p: "urlsplit ip u = Some p" and ok: "url_allowed ip (allowed_hosts tr) p"
    and full: "full = u \<or> (\<exists>t. full = u @ CHR ''?'' # t)"
    by (auto simp: validated_url_def url_allowed_def split: if_splits option.splits)
  have "u_scheme p \<noteq> []" using ok by (auto simp: url_allowed_def lower_def)
  moreover have "u_netloc p \<noteq> []"
    using ok by (auto simp: url_allowed_def hostname_def hostinfo_def after_userinfo_def rpartition_at_def
        partition_at_def cut_def Let_def)
  ultimately have "\<exists>v. urlsplit ip (u @ CHR ''?'' # t) = Some v \<and> url_allowed ip (allowed_hosts tr) v" for t
    using urlsplit_query [OF p] url_allowed_cong ok by metis
  with full p ok show ?thesis by blast
qed

lemma prepared_ok:
  assumes "prepared ip tr meth u hs q body = Inr r"
  shows "request_ok ip tr r"
proof -
  from assms obtain full headers where "validated_url ip tr u q = Inr full" "validated_headers hs = Inr headers"
    and r: "h_url r = full" "h_headers r = request_headers body headers" "h_method r \<in> {''GET'', ''POST''}"
    by (auto simp: prepared_def rbind_eq_Inr)
  moreover have "header_name_ok ''Content-Type''" by code_simp
  ultimately show ?thesis
    using validated_url_ok [of ip tr u q full] validated_headers_ok [of hs headers]
    by (auto simp: request_ok_def request_headers_def)
qed

text \<open>Without a request to follow a redirect with, opening a request is one exchange.\<close>

lemma open_once:
  assumes "redirect_request tr = no_redirect"
  shows "snd (open_request n tr opener r w) = snd (opener r w)"
  by (cases "opener r w"; cases "fst (opener r w)"; cases n) (simp_all add: assms no_redirect_def)

lemma request_json_keeps:
  assumes "redirect_request tr = no_redirect" "\<And>r w. request_ok ip tr r \<Longrightarrow> P w \<Longrightarrow> P (snd (opener r w))" "P w"
  shows "P (snd (request_json ip tr opener meth u hs q body shape w))"
proof (cases "prepared ip tr meth u hs q body")
  case (Inr r)
  from prepared_ok [OF Inr] assms(2,3) have "P (snd (opener r w))" by blast
  with Inr show ?thesis
    by (simp add: request_json_def case_prod_beta Let_def open_once [OF assms(1)] del: open_request.simps)
qed (simp add: request_json_def assms(3))

lemma gh_pages_keeps:
  assumes "redirect_request tr = no_redirect" "\<And>r w. request_ok ip tr r \<Longrightarrow> P w \<Longrightarrow> P (snd (opener r w))"
  shows "P w \<Longrightarrow> P (snd (gh_pages n ip tr opener self limit page w))"
proof (induction n arbitrary: page w)
  case (Suc n)
  obtain r w' where req: "request_json ip tr opener ''GET'' (gh_url self) (gh_headers self) (gh_query limit page) None
      ExpectList w = (r, w')" by force
  with request_json_keeps [of tr ip P opener w] assms Suc.prems have "P w'" by (metis snd_conv)
  with Suc.IH show ?case by (auto simp: req Let_def split: sum.split prod.split)
qed simp

lemma fetch_keeps:
  assumes "redirect_request tr = no_redirect" "\<And>r w. request_ok ip tr r \<Longrightarrow> P w \<Longrightarrow> P (snd (opener r w))" "P w"
  shows "P (snd (gh_fetch ip tr opener gh c l w))" "P (snd (ln_fetch ip tr opener ln c l w))"
    "P (snd (jr_fetch ip tr opener jr c l w))"
proof -
  note keeps = request_json_keeps [of tr ip P opener w, OF assms]
  show "P (snd (gh_fetch ip tr opener gh c l w))"
    using gh_pages_keeps [of tr ip P opener, OF assms(1,2)] assms(3)
    by (auto simp: gh_fetch_def simp del: gh_pages.simps split: option.split)
  show "P (snd (ln_fetch ip tr opener ln c l w))"
    using keeps assms(3) by (auto simp: ln_fetch_def split: prod.split sum.split) (metis snd_conv)+
  show "P (snd (jr_fetch ip tr opener jr c l w))"
    using keeps assms(3) by (auto simp: jr_fetch_def split: prod.split sum.split) (metis snd_conv)+
qed

end
