(* ===== verification/IntakeRun.thy ===== *)
theory IntakeRun
  imports Providers PyFloat
begin

text \<open>
  Publication of the generated file, \<open>src/draindeck_intake/output.py\<close>, and the command that composes
  intake, \<open>cli.py\<close> after argument parsing. The file system around the destination is explicit: before
  each of its steps another process may change the destination (\<open>meddle\<close>), and each step, those of the \<open>finally\<close>
  block included, may fail with an \<open>OSError\<close> (\<open>os_fails\<close>). A file's identity (device, inode, size, times) is a number.
\<close>

section \<open>Publication\<close>

text \<open>A symbolic link shows its target's bytes and identity, if it has one.\<close>

datatype node = Absent | Symlink "(string \<times> nat) option" | NotFile nat | File string nat

definition identity_of :: "node \<Rightarrow> nat option" where
  "identity_of n = (case n of Absent \<Rightarrow> None | Symlink t \<Rightarrow> map_option snd t | NotFile i \<Rightarrow> Some i | File _ i \<Rightarrow> Some i)"

datatype step_op = OpenLock | Look | ReadPrefix | Identify | CompareBytes | CreateTemp | WriteTemp | Recheck | Replace
  | UnlinkTemp | CloseLock | UnlinkLock

record fs =
  dest :: node
  lock_file :: bool
  temp_files :: nat

record os_env =
  meddle :: "step_op \<Rightarrow> node \<Rightarrow> node"
  os_fails :: "step_op \<Rightarrow> bool"
  parent_dir :: bool
  fresh_id :: nat

text \<open>\<open>LockNotClosed\<close> is not an \<open>OutputError\<close>: it is the \<open>OSError\<close> of \<open>os.close\<close>, which leaves the \<open>finally\<close> block.\<close>

datatype output_error = NotManagedContent | NotOneTrailingNewline | NoParent | LockHeld | LockFailed
  | IsSymlink | NotRegular | InspectFailed | UnmanagedOutput | CompareFailed | Changed | PublishFailed
  | LockNotClosed

definition managed_prefix :: string where
  "managed_prefix = MANAGED_MARKER @ [LF]"

definition content_check :: "string \<Rightarrow> output_error + unit" where
  "content_check content =
     (if \<not> starts_with managed_prefix content then Inl NotManagedContent
      else if CR \<in> set content \<or> last content \<noteq> LF \<or> ends_with [LF, LF] content then Inl NotOneTrailingNewline
      else Inr ())"

text \<open>
  The inspection: \<open>Inr None\<close> for an absent destination, \<open>Inr (Some i)\<close> for a regular file, where \<open>i\<close> is the
  identity a separate \<open>stat\<close> of the path returns after the prefix was read.
\<close>

definition inspect :: "os_env \<Rightarrow> bool \<Rightarrow> fs \<Rightarrow> (output_error + nat option) \<times> fs" where
  "inspect env force s0 =
     (let s1 = s0\<lparr>dest := meddle env ReadPrefix (dest s0)\<rparr> in
      if os_fails env Look then (Inl PublishFailed, s1)
      else case dest s1 of
        Absent \<Rightarrow> (Inr None, s1)
      | Symlink _ \<Rightarrow> (Inl IsSymlink, s1)
      | NotFile _ \<Rightarrow> (Inl NotRegular, s1)
      | File bytes _ \<Rightarrow>
          if os_fails env ReadPrefix then (Inl InspectFailed, s1)
          else let s2 = s1\<lparr>dest := meddle env Identify (dest s1)\<rparr> in
            if os_fails env Identify then (Inl InspectFailed, s2)
            else case identity_of (dest s2) of
              None \<Rightarrow> (Inl InspectFailed, s2)
            | Some i \<Rightarrow> if \<not> starts_with managed_prefix bytes \<and> \<not> force then (Inl UnmanagedOutput, s2)
                else (Inr (Some i), s2))"

text \<open>
  Whether the file already holds the content. A directory's size is taken to differ from the content's.
\<close>

definition same_bytes :: "os_env \<Rightarrow> string \<Rightarrow> fs \<Rightarrow> (output_error + bool) \<times> fs" where
  "same_bytes env content s0 =
     (let s1 = s0\<lparr>dest := meddle env CompareBytes (dest s0)\<rparr> in
      (if os_fails env CompareBytes then Inl CompareFailed
       else case dest s1 of
         Absent \<Rightarrow> Inl CompareFailed
       | Symlink None \<Rightarrow> Inl CompareFailed
       | Symlink (Some (bytes, _)) \<Rightarrow> Inr (bytes = content)
       | NotFile _ \<Rightarrow> Inr False
       | File bytes _ \<Rightarrow> Inr (bytes = content), s1))"

definition unchanged :: "nat option \<Rightarrow> node \<Rightarrow> output_error + unit" where
  "unchanged expected n =
     (if (case n of Symlink _ \<Rightarrow> True | _ \<Rightarrow> False) then Inl IsSymlink
      else case expected of
        None \<Rightarrow> if n = Absent then Inr () else Inl Changed
      | Some i \<Rightarrow> if identity_of n = Some i then Inr () else Inl Changed)"

text \<open>
  From the temporary file on. The second result says whether the temporary file is still there when the
  \<open>finally\<close> block runs; \<open>os.replace\<close> consumes it, and fails on a directory.
\<close>

definition write_and_replace :: "os_env \<Rightarrow> string \<Rightarrow> nat option \<Rightarrow> fs \<Rightarrow> (output_error + bool) \<times> bool \<times> fs" where
  "write_and_replace env content expected s0 =
     (if os_fails env CreateTemp then (Inl PublishFailed, False, s0) else
      let s1 = s0\<lparr>dest := meddle env WriteTemp (dest s0), temp_files := temp_files s0 + 1\<rparr> in
      if os_fails env WriteTemp then (Inl PublishFailed, True, s1)
      else let s2 = s1\<lparr>dest := meddle env Recheck (dest s1)\<rparr> in
        if os_fails env Recheck then (Inl PublishFailed, True, s2)
        else case unchanged expected (dest s2) of
          Inl e \<Rightarrow> (Inl e, True, s2)
        | Inr _ \<Rightarrow>
            let s3 = s2\<lparr>dest := meddle env Replace (dest s2)\<rparr> in
            if os_fails env Replace \<or> (case dest s3 of NotFile _ \<Rightarrow> True | _ \<Rightarrow> False)
            then (Inl PublishFailed, True, s3)
            else (Inr True, False, s3\<lparr>dest := File content (fresh_id env), temp_files := temp_files s3 - 1\<rparr>))"

definition locked_part :: "os_env \<Rightarrow> string \<Rightarrow> bool \<Rightarrow> fs \<Rightarrow> (output_error + bool) \<times> bool \<times> fs" where
  "locked_part env content force s0 =
     (case inspect env force s0 of
        (Inl e, s1) \<Rightarrow> (Inl e, False, s1)
      | (Inr None, s1) \<Rightarrow> write_and_replace env content None s1
      | (Inr (Some i), s1) \<Rightarrow>
          (case same_bytes env content s1 of
             (Inl e, s2) \<Rightarrow> (Inl e, False, s2)
           | (Inr same, s2) \<Rightarrow>
               if same then (Inr False, False, s2) else write_and_replace env content (Some i) s2))"

text \<open>
  The \<open>finally\<close> block: a failing removal is passed over and leaves its file behind; a failing \<open>os.close\<close>
  replaces the result, after the lock's removal has been tried.
\<close>

definition cleanup :: "os_env \<Rightarrow> bool \<Rightarrow> output_error + bool \<Rightarrow> fs \<Rightarrow> (output_error + bool) \<times> fs" where
  "cleanup env temporary r s =
     (let s1 = (if temporary \<and> \<not> os_fails env UnlinkTemp then s\<lparr>temp_files := temp_files s - 1\<rparr> else s);
          r' = (if os_fails env CloseLock then Inl LockNotClosed else r);
          s2 = (if os_fails env UnlinkLock then s1 else s1\<lparr>lock_file := False\<rparr>)
      in (r', s2))"

definition publish_managed :: "os_env \<Rightarrow> string \<Rightarrow> bool \<Rightarrow> fs \<Rightarrow> (output_error + bool) \<times> fs" where
  "publish_managed env content force s =
     (case content_check content of
        Inl e \<Rightarrow> (Inl e, s)
      | Inr _ \<Rightarrow>
          if \<not> parent_dir env then (Inl NoParent, s)
          else if lock_file s then (Inl LockHeld, s)
          else if os_fails env OpenLock then (Inl LockFailed, s)
          else case locked_part env content force (s\<lparr>lock_file := True\<rparr>) of
            (r, temporary, s') \<Rightarrow> cleanup env temporary r s')"

section \<open>The command\<close>

datatype provider =
    FromFile input "string option"
  | FromGithub string string string string
  | FromJira string string string string string
  | FromLinear string string string

record cli_args =
  provider :: provider
  page_size :: int
  max_issues :: int
  timeout_seconds :: pyfloat
  force_output :: bool

datatype issue_source = FileSource md_source | GithubSource transport github | JiraSource transport jira
  | LinearSource transport linear

definition env_name_ok :: "string \<Rightarrow> bool" where
  "env_name_ok s \<longleftrightarrow> s \<noteq> [] \<and> \<not> is_digit (hd s) \<and> list_all (\<lambda>c. is_alnum c \<or> c = CHR ''_'') s"

definition optional_environment :: "(string \<times> string) list \<Rightarrow> string \<Rightarrow> string + string option" where
  "optional_environment environ name =
     (if \<not> env_name_ok name then Inl ''environment name''
      else Inr (case map_of environ name of None \<Rightarrow> None | Some v \<Rightarrow> if v = [] then None else Some v))"

definition required_environment :: "(string \<times> string) list \<Rightarrow> string \<Rightarrow> string + string" where
  "required_environment environ name =
     rbind (optional_environment environ name) (\<lambda>v. case v of None \<Rightarrow> Inl ''not set'' | Some s \<Rightarrow> Inr s)"

definition validate_common :: "cli_args \<Rightarrow> string + unit" where
  "validate_common args =
     (if \<not> (1 \<le> page_size args \<and> page_size args \<le> 100) then Inl ''page size''
      else if \<not> (1 \<le> max_issues args \<and> max_issues args \<le> 100000) then Inl ''maximum issues''
      else case timeout_seconds args of
        Fin r \<Rightarrow> if 0 < r \<and> r \<le> 300 then Inr () else Inl ''timeout''
      | _ \<Rightarrow> Inl ''timeout'')"

definition as_input :: "source_error + 'a \<Rightarrow> string + 'a" where
  "as_input r = (case r of Inr a \<Rightarrow> Inr a | Inl _ \<Rightarrow> Inl ''source configuration'')"

definition jira_host :: "(string \<Rightarrow> bool) \<Rightarrow> string \<Rightarrow> string + string" where
  "jira_host ip_literal base_url =
     (case urlsplit ip_literal base_url of
        None \<Rightarrow> Inl ''source configuration''
      | Some u \<Rightarrow> Inr (case hostname u of None \<Rightarrow> ''invalid'' | Some h \<Rightarrow> h))"

definition build_source :: "(string \<Rightarrow> bool) \<Rightarrow> (string \<times> string) list \<Rightarrow> provider \<Rightarrow> string + issue_source" where
  "build_source ip_literal environ p =
     (case p of
        FromFile inp prefix \<Rightarrow>
          rbind (as_input (new_md_source inp prefix (10 * 1024 * 1024))) (\<lambda>s. Inr (FileSource s))
      | FromGithub owner repo token_env prefix \<Rightarrow>
          rbind (as_input (new_transport [''api.github.com''] (2 * 1024 * 1024))) (\<lambda>tr.
          rbind (optional_environment environ token_env) (\<lambda>token.
          rbind (as_input (new_github owner repo prefix token)) (\<lambda>s. Inr (GithubSource tr s))))
      | FromJira base_url jql email_env token_env prefix \<Rightarrow>
          rbind (jira_host ip_literal base_url) (\<lambda>host.
          rbind (as_input (new_transport [host] (2 * 1024 * 1024))) (\<lambda>tr.
          rbind (required_environment environ email_env) (\<lambda>email.
          rbind (required_environment environ token_env) (\<lambda>token.
          rbind (as_input (new_jira ip_literal base_url jql email token prefix)) (\<lambda>s. Inr (JiraSource tr s))))))
      | FromLinear team_key key_env prefix \<Rightarrow>
          rbind (as_input (new_transport [''api.linear.app''] (2 * 1024 * 1024))) (\<lambda>tr.
          rbind (required_environment environ key_env) (\<lambda>key.
          rbind (as_input (new_linear team_key key prefix)) (\<lambda>s. Inr (LinearSource tr s)))))"

definition collect_source :: "(string \<Rightarrow> bool) \<Rightarrow> 'w opener \<Rightarrow> issue_source \<Rightarrow> int \<Rightarrow> int \<Rightarrow> 'w
    \<Rightarrow> (source_error + canonical_issue list) \<times> 'w" where
  "collect_source ip_literal opener src ps m w =
     (case src of
        FileSource s \<Rightarrow> (fst (collect_issues (md_fetch ip_literal s) ps m None), w)
      | GithubSource tr s \<Rightarrow> collect_issues (gh_fetch ip_literal tr opener s) ps m w
      | JiraSource tr s \<Rightarrow> collect_issues (jr_fetch ip_literal tr opener s) ps m w
      | LinearSource tr s \<Rightarrow> collect_issues (ln_fetch ip_literal tr opener s) ps m w)"

datatype outcome = Synced nat bool | InvalidInput | OutputFailed output_error | SourceFailed | InternalFailure

definition exit_code :: "outcome \<Rightarrow> int" where
  "exit_code out = (case out of Synced _ _ \<Rightarrow> 0 | InvalidInput \<Rightarrow> 2 | _ \<Rightarrow> 1)"

definition run_intake :: "(string \<Rightarrow> bool) \<Rightarrow> 'w opener \<Rightarrow> os_env \<Rightarrow> (string \<times> string) list \<Rightarrow> cli_args \<Rightarrow> 'w \<times> fs
    \<Rightarrow> outcome \<times> 'w \<times> fs" where
  "run_intake ip_literal opener env environ args ws =
     (case ws of (w, s) \<Rightarrow>
      (case rbind (validate_common args) (\<lambda>_. build_source ip_literal environ (provider args)) of
         Inl _ \<Rightarrow> (InvalidInput, w, s)
       | Inr src \<Rightarrow>
           (case collect_source ip_literal opener src (page_size args) (max_issues args) w of
              (Inl (Uncaught _), w') \<Rightarrow> (InternalFailure, w', s)
            | (Inl _, w') \<Rightarrow> (SourceFailed, w', s)
            | (Inr is, w') \<Rightarrow>
                (case compile_issues_md is of
                   Inl _ \<Rightarrow> (InternalFailure, w', s)
                 | Inr doc \<Rightarrow>
                     (case publish_managed env doc (force_output args) s of
                        (Inl e, s') \<Rightarrow> (if e = LockNotClosed then InternalFailure else OutputFailed e, w', s')
                      | (Inr changed, s') \<Rightarrow> (Synced (length is) changed, w', s'))))))"

section \<open>What publication guarantees\<close>

lemma inspect_keeps: "inspect env force s = (r, s') \<Longrightarrow> lock_file s' = lock_file s \<and> temp_files s' = temp_files s"
  by (auto simp: inspect_def Let_def split: node.splits if_splits option.splits)

lemma same_bytes_keeps: "same_bytes env c s = (r, s') \<Longrightarrow> lock_file s' = lock_file s \<and> temp_files s' = temp_files s"
  by (auto simp: same_bytes_def Let_def)

lemma write_temps:
  "write_and_replace env c e s = (r, t, s') \<Longrightarrow> temp_files s' = temp_files s + (if t then 1 else 0) \<and> (t \<longrightarrow> (\<exists>x. r = Inl x))"
  by (auto simp: write_and_replace_def Let_def split: if_splits sum.splits)

lemma locked_temps:
  "locked_part env c force s = (r, t, s') \<Longrightarrow> temp_files s' = temp_files s + (if t then 1 else 0) \<and> (t \<longrightarrow> (\<exists>x. r = Inl x))"
  by (auto simp: locked_part_def split: prod.splits sum.splits option.splits if_splits
      dest!: inspect_keeps same_bytes_keeps write_temps)

lemma locked_lock: "locked_part env c force s = (r, t, s') \<Longrightarrow> lock_file s' = lock_file s"
  by (auto simp: locked_part_def write_and_replace_def Let_def split: prod.splits sum.splits option.splits if_splits
      dest!: inspect_keeps same_bytes_keeps)

lemma publish_clean:
  "publish_managed env c force s = (r, s') \<Longrightarrow>
     lock_file s' = (lock_file s \<or> lock_file s' \<and> os_fails env UnlinkLock)
     \<and> (temp_files s' = temp_files s \<or> temp_files s' = Suc (temp_files s) \<and> os_fails env UnlinkTemp \<and> (\<exists>e. r = Inl e))"
  by (auto simp: publish_managed_def cleanup_def Let_def split: sum.splits if_splits prod.splits
      dest: locked_temps locked_lock)

text \<open>The three ends without another process: replaced, already there, refused.\<close>

lemma locked_quiet:
  assumes quiet: "\<And>op n. meddle env op n = n" and run: "locked_part env c force s = (r, t, s')"
  shows "case r of
      Inl e \<Rightarrow> dest s' = dest s
    | Inr True \<Rightarrow> dest s' = File c (fresh_id env) \<and> (dest s = Absent
        \<or> (\<exists>b i. dest s = File b i \<and> b \<noteq> c \<and> (starts_with managed_prefix b \<or> force)))
    | Inr False \<Rightarrow> dest s' = dest s \<and> (\<exists>i. dest s = File c i)"
  using run quiet
  by (cases "dest s")
    (auto simp: locked_part_def inspect_def same_bytes_def write_and_replace_def unchanged_def identity_of_def Let_def
      split: if_splits sum.splits bool.splits)

text \<open>
  What happened to the destination, by the end the locked part reached. An \<open>os.close\<close> that fails hides which.
\<close>

definition published :: "os_env \<Rightarrow> string \<Rightarrow> bool \<Rightarrow> fs \<Rightarrow> fs \<Rightarrow> bool" where
  "published env c force s s' \<longleftrightarrow> dest s' = File c (fresh_id env)
     \<and> (dest s = Absent \<or> (\<exists>b i. dest s = File b i \<and> b \<noteq> c \<and> (starts_with managed_prefix b \<or> force)))"

lemma publish_quiet:
  assumes quiet: "\<And>op n. meddle env op n = n" and run: "publish_managed env c force s = (r, s')"
  shows "case r of
      Inl e \<Rightarrow> dest s' = dest s \<or> e = LockNotClosed \<and> published env c force s s'
    | Inr True \<Rightarrow> published env c force s s'
    | Inr False \<Rightarrow> dest s' = dest s \<and> (\<exists>i. dest s = File c i)"
proof (cases "content_check c = Inr () \<and> parent_dir env \<and> \<not> lock_file s \<and> \<not> os_fails env OpenLock")
  case True
  obtain r1 t s1 where l: "locked_part env c force (s\<lparr>lock_file := True\<rparr>) = (r1, t, s1)" by (metis prod_cases3)
  with True run have "r = (if os_fails env CloseLock then Inl LockNotClosed else r1)" "dest s' = dest s1"
    by (auto simp: publish_managed_def cleanup_def Let_def)
  with locked_quiet [OF quiet l] show ?thesis by (auto simp: published_def split: sum.splits bool.splits)
next
  case False
  then have "\<exists>e. r = Inl e \<and> s' = s" using run by (auto simp: publish_managed_def split: sum.splits if_splits)
  then show ?thesis by auto
qed

section \<open>Compiled documents are publishable\<close>

lemma render_last: "render_lines i \<noteq> [] \<and> last (render_lines i) \<noteq> []"
  by (simp add: render_lines_def source_meta_def optional_meta_def last_map split: option.split)

lemma content_check_unlines:
  assumes "list_all single_line ls" "ls \<noteq> []" "hd ls = MANAGED_MARKER" "last ls \<noteq> []"
  shows "content_check (unlines ls) = Inr ()"
proof -
  obtain rest where ls: "ls = MANAGED_MARKER # rest" using assms(2,3) by (cases ls) auto
  have "starts_with managed_prefix (unlines ls)"
    by (simp add: ls unlines_Cons managed_prefix_def starts_with_def)
  moreover have "CR \<notin> set (unlines ls)" using assms(1) CR_boundary by (auto simp: unlines_def list_all_iff single_line_def simp del: CR_boundary)
  moreover have "unlines ls = unlines (butlast ls) @ last ls @ [LF]"
    using assms(2) unlines_append [of "butlast ls" "[last ls]"] by (simp add: unlines_def)
  moreover have "last (last ls) \<noteq> LF"
    using assms(1,2,4) by (metis LF_boundary last_in_set list_all_iff single_line_def)
  ultimately show ?thesis
    using assms(4) by (cases "last ls" rule: rev_cases) (auto simp: content_check_def ends_with_def starts_with_def)
qed

lemma compiled_publishable:
  assumes "list_all renders is" "compile_issues_md is = Inr doc"
  shows "content_check doc = Inr ()"
proof -
  let ?o = "in_id_order is"
  let ?ls = "MANAGED_MARKER # concat (map (\<lambda>i. [] # render_lines i) ?o)"
  from assms(2) have shape: "doc = join [LF, LF] (MANAGED_MARKER # map render_issue ?o) @ [LF]"
    by (auto simp: compile_issues_md_def Let_def split: option.splits)
  have "doc = unlines ?ls"
    using join_blocks [of "map render_lines ?o" MANAGED_MARKER] render_lines_ne
    by (simp add: shape render_issue_def [abs_def] o_def)
  moreover have "single_line MANAGED_MARKER" by code_simp
  then have "list_all single_line ?ls"
    using assms(1) by (auto simp: list_all_iff renders_def in_id_order_def)
  moreover have "last ?ls \<noteq> []"
  proof (cases ?o rule: rev_cases)
    case Nil
    then show ?thesis by (simp add: MANAGED_MARKER_def)
  next
    case (snoc os i)
    then show ?thesis using render_last [of i] by simp
  qed
  ultimately show ?thesis by (simp add: content_check_unlines)
qed

section \<open>The whole command\<close>

lemma collect_source_parses:
  assumes "collect_source ip opener src ps m w = (Inr is, w')"
  shows "\<exists>doc. compile_issues_md is = Inr doc \<and> parse_issues doc = Inr (map spec_of (in_id_order is))
    \<and> content_check doc = Inr ()"
proof -
  have "list_all renders is
    \<and> (\<exists>doc. compile_issues_md is = Inr doc \<and> parse_issues doc = Inr (map spec_of (in_id_order is)))"
  proof (cases src)
    case (FileSource s)
    with assms obtain c where "collect_issues (md_fetch ip s) ps m None = (Inr is, c)"
      by (cases "collect_issues (md_fetch ip s) ps m None") (auto simp: collect_source_def)
    then show ?thesis by (rule md_canonical.collected_parses) (simp add: md_good_def)
  next
    case (GithubSource tr s)
    with assms have "collect_issues (gh_fetch ip tr opener s) ps m w = (Inr is, w')" by (simp add: collect_source_def)
    then show ?thesis by (rule gh.collected_parses) simp
  next
    case (JiraSource tr s)
    with assms have "collect_issues (jr_fetch ip tr opener s) ps m w = (Inr is, w')" by (simp add: collect_source_def)
    then show ?thesis by (rule jr.collected_parses) simp
  next
    case (LinearSource tr s)
    with assms have "collect_issues (ln_fetch ip tr opener s) ps m w = (Inr is, w')" by (simp add: collect_source_def)
    then show ?thesis by (rule ln.collected_parses) simp
  qed
  then show ?thesis using compiled_publishable by blast
qed

text \<open>The transport a source is built with admits one host and follows no redirect.\<close>

fun source_hosts :: "issue_source \<Rightarrow> string list" where
  "source_hosts (FileSource s) = []"
| "source_hosts (GithubSource tr s) = allowed_hosts tr"
| "source_hosts (JiraSource tr s) = allowed_hosts tr"
| "source_hosts (LinearSource tr s) = allowed_hosts tr"

fun follows_none :: "issue_source \<Rightarrow> bool" where
  "follows_none (FileSource s) = True"
| "follows_none (GithubSource tr s) = (redirect_request tr = no_redirect)"
| "follows_none (JiraSource tr s) = (redirect_request tr = no_redirect)"
| "follows_none (LinearSource tr s) = (redirect_request tr = no_redirect)"

text \<open>The host a provider's requests may go to.\<close>

definition provider_host :: "(string \<Rightarrow> bool) \<Rightarrow> provider \<Rightarrow> string" where
  "provider_host ip p = (case p of
     FromFile _ _ \<Rightarrow> []
   | FromGithub _ _ _ _ \<Rightarrow> ''api.github.com''
   | FromLinear _ _ _ \<Rightarrow> ''api.linear.app''
   | FromJira base _ _ _ _ \<Rightarrow> (case jira_host ip base of Inl _ \<Rightarrow> [] | Inr h \<Rightarrow> lower h))"

definition sent_safely :: "(string \<Rightarrow> bool) \<Rightarrow> string \<Rightarrow> http_request \<Rightarrow> bool" where
  "sent_safely ip host r =
     request_ok ip \<lparr>allowed_hosts = [host], max_response_bytes = 0, redirect_request = no_redirect\<rparr> r"

lemma request_ok_host: "allowed_hosts tr = [h] \<Longrightarrow> request_ok ip tr r = sent_safely ip h r"
  by (simp add: request_ok_def sent_safely_def split: option.split)

lemma built_hosts:
  "build_source ip environ p = Inr src \<Longrightarrow>
     follows_none src \<and> ((\<exists>s. src = FileSource s) \<or> source_hosts src = [provider_host ip p])"
proof -
  have tr: "as_input (new_transport [h] n) = Inr tr \<Longrightarrow> allowed_hosts tr = [lower h] \<and> redirect_request tr = no_redirect" for h n tr
    by (auto simp: as_input_def new_transport_def Let_def split: if_splits)
  have low: "lower ''api.github.com'' = ''api.github.com''" "lower ''api.linear.app'' = ''api.linear.app''" by code_simp+
  show "build_source ip environ p = Inr src \<Longrightarrow> ?thesis"
    by (cases p) (auto simp: build_source_def provider_host_def rbind_eq_Inr low dest!: tr)
qed

lemma collect_source_keeps:
  assumes "build_source ip environ p = Inr src"
    and "\<And>r w. sent_safely ip (provider_host ip p) r \<Longrightarrow> P w \<Longrightarrow> P (snd (opener r w))" and "P w"
  shows "P (snd (collect_source ip opener src ps m w))"
proof -
  note hosts = built_hosts [OF assms(1)]
  have ok: "P (snd (opener r w))" if "allowed_hosts tr = [provider_host ip p]" "request_ok ip tr r" "P w" for tr r w
    using assms(2) that request_ok_host [OF that(1)] by simp
  show ?thesis
  proof (cases src)
    case (FileSource s)
    with assms(3) show ?thesis by (simp add: collect_source_def)
  next
    case (GithubSource tr s)
    with hosts have nr: "redirect_request tr = no_redirect" and "allowed_hosts tr = [provider_host ip p]" by simp_all
    from fetch_keeps(1) [of tr ip P opener, OF nr ok [OF this(2)]] GithubSource assms(3) show ?thesis
      by (simp add: collect_source_def collect_keeps)
  next
    case (JiraSource tr s)
    with hosts have nr: "redirect_request tr = no_redirect" and "allowed_hosts tr = [provider_host ip p]" by simp_all
    from fetch_keeps(3) [of tr ip P opener, OF nr ok [OF this(2)]] JiraSource assms(3) show ?thesis
      by (simp add: collect_source_def collect_keeps)
  next
    case (LinearSource tr s)
    with hosts have nr: "redirect_request tr = no_redirect" and "allowed_hosts tr = [provider_host ip p]" by simp_all
    from fetch_keeps(2) [of tr ip P opener, OF nr ok [OF this(2)]] LinearSource assms(3) show ?thesis
      by (simp add: collect_source_def collect_keeps)
  qed
qed

section \<open>Properties\<close>

text \<open>
  C38: when no other process touches the destination, a successful \<open>sync\<close> from any provider leaves a regular
  file that the runtime's parser reads as exactly the collected number of issues with distinct
  identifiers, and reports a change exactly when the file did not hold these bytes before.
\<close>

theorem intake_file_parses:
  assumes "run_intake ip opener env environ args (w, s) = (Synced n changed, w', s')"
    and "\<And>op k. meddle env op k = k"
  shows "\<exists>doc i ss. dest s' = File doc i \<and> parse_issues doc = Inr ss \<and> length ss = n
    \<and> distinct (map spec_id ss) \<and> (changed \<longleftrightarrow> (\<forall>j. dest s \<noteq> File doc j))"
proof -
  from assms(1) obtain src "is" doc where src: "collect_source ip opener src (page_size args) (max_issues args) w = (Inr is, w')"
    and doc: "compile_issues_md is = Inr doc" and pub: "publish_managed env doc (force_output args) s = (Inr changed, s')"
    and n: "n = length is"
    by (auto simp: run_intake_def split: sum.splits prod.splits source_error.splits if_splits)
  from collect_source_parses [OF src] doc
  have p: "parse_issues doc = Inr (map spec_of (in_id_order is))" by auto
  have "distinct (map spec_id (map spec_of (in_id_order is)))" using parse_issues_heads(2) [OF p] .
  moreover have "length (map spec_of (in_id_order is)) = n" by (simp add: n in_id_order_def)
  moreover have "\<exists>i. dest s' = File doc i \<and> (changed \<longleftrightarrow> (\<forall>j. dest s \<noteq> File doc j))"
    using publish_quiet [OF assms(2) pub] by (cases changed) (auto simp: published_def)
  ultimately show ?thesis using p by blast
qed

definition calm :: os_env where
  "calm = \<lparr>meddle = (\<lambda>_ n. n), os_fails = (\<lambda>_. False), parent_dir = True, fresh_id = 7\<rparr>"

definition sample_args :: cli_args where
  "sample_args = \<lparr>provider = FromFile (Input 29 (Some sample_text)) None, page_size = 1, max_issues = 5,
     timeout_seconds = Fin 30, force_output = False\<rparr>"

definition no_network :: "unit opener" where
  "no_network r w = (NetworkFailure, w)"

lemma sample_run:
  "\<exists>doc. run_intake (\<lambda>_. False) no_network calm [] sample_args ((), \<lparr>dest = Absent, lock_file = False, temp_files = 0\<rparr>)
     = (Synced 2 True, (), \<lparr>dest = File doc 7, lock_file = False, temp_files = 0\<rparr>)"
proof -
  have content: "md_content (\<lambda>_. False) sample_md = sample_md_issues"
    by (simp add: md_content_def sample_md_load)
  have "fst (collect_issues (md_fetch (\<lambda>_. False) sample_md) 1 5 None) = Inr sample_md_issues"
    using md.collect_complete [of "\<lambda>_. False" sample_md 5 1 None]
    by (simp add: content sample_md_ids md_serves_def sample_md_load is_ok_def MAX_PAGE_SIZE_def)
  then have col: "collect_source (\<lambda>_. False) no_network (FileSource sample_md) 1 5 () = (Inr sample_md_issues, ())"
    by (simp add: collect_source_def)
  from collect_source_parses [OF col] obtain doc where doc: "compile_issues_md sample_md_issues = Inr doc"
    and ok: "content_check doc = Inr ()" by blast
  have "publish_managed calm doc False \<lparr>dest = Absent, lock_file = False, temp_files = 0\<rparr>
      = (Inr True, \<lparr>dest = File doc 7, lock_file = False, temp_files = 0\<rparr>)"
    by (simp add: publish_managed_def ok calm_def locked_part_def inspect_def write_and_replace_def unchanged_def cleanup_def)
  moreover have "build_source (\<lambda>_. False) [] (provider sample_args) = Inr (FileSource sample_md)"
    by (simp add: build_source_def sample_args_def as_input_def new_md_source_def sample_md_def)
  moreover have "validate_common sample_args = Inr ()" by (simp add: validate_common_def sample_args_def)
  ultimately show ?thesis
    using col doc sample_md_ids(2) by (simp add: run_intake_def sample_args_def)
qed

lemma intake_file_parses_witness:
  "\<exists>doc ss w' s'. run_intake (\<lambda>_. False) no_network calm [] sample_args
       ((), \<lparr>dest = Absent, lock_file = False, temp_files = 0\<rparr>) = (Synced 2 True, w', s')
     \<and> dest s' = File doc 7 \<and> parse_issues doc = Inr ss \<and> length ss = 2"
proof -
  from sample_run obtain doc where run: "run_intake (\<lambda>_. False) no_network calm [] sample_args
      ((), \<lparr>dest = Absent, lock_file = False, temp_files = 0\<rparr>)
    = (Synced 2 True, (), \<lparr>dest = File doc 7, lock_file = False, temp_files = 0\<rparr>)" by blast
  have "meddle calm op k = k" for op k by (simp add: calm_def)
  from intake_file_parses [OF run this] run show ?thesis by auto
qed

text \<open>
  C39: whatever other processes do and whichever step fails, publication gives back its lock unless the removal
  of the lock itself fails, and its temporary file unless the removal of that file itself fails, which only a
  refused publication has to try; a lock that was already held stays as it is. When nobody else
  touches the destination, it is changed only by a reported success, or when closing the lock fails after the
  replacement, and only over an absent file or one that carries the managed marker (any regular file with
  \<open>--force\<close>).
\<close>

theorem publication_safe:
  assumes "publish_managed env content force s = (r, s')"
  shows "(lock_file s' \<longleftrightarrow> lock_file s \<or> lock_file s' \<and> os_fails env UnlinkLock)
    \<and> (temp_files s' = temp_files s \<or> temp_files s' = Suc (temp_files s) \<and> os_fails env UnlinkTemp \<and> (\<exists>e. r = Inl e))
    \<and> ((\<forall>op k. meddle env op k = k) \<longrightarrow>
        (if r = Inr True \<or> r = Inl LockNotClosed \<and> dest s' \<noteq> dest s
         then dest s' = File content (fresh_id env) \<and> (dest s = Absent
           \<or> (\<exists>b i. dest s = File b i \<and> (starts_with managed_prefix b \<or> force)))
         else dest s' = dest s))"
  using publish_clean [OF assms] publish_quiet [OF _ assms]
  by (auto simp: published_def split: sum.splits bool.splits)

text \<open>A lock whose removal failed refuses every later publication.\<close>

lemma left_lock_refuses:
  assumes "publish_managed env content force s = (r, s')" "lock_file s'" "content_check c = Inr ()" "parent_dir env'"
  shows "publish_managed env' c f s' = (Inl LockHeld, s')"
  using assms(2-4) by (simp add: publish_managed_def)

definition sample_content :: string where
  "sample_content = managed_prefix @ ''x'' @ [LF]"

lemma publication_safe_witness:
  "dest (snd (publish_managed calm sample_content False
     \<lparr>dest = File ''hand written'' 3, lock_file = False, temp_files = 0\<rparr>)) = File ''hand written'' 3"
proof -
  let ?s = "\<lparr>dest = File ''hand written'' 3, lock_file = False, temp_files = 0\<rparr>"
  obtain r s' where run: "publish_managed calm sample_content False ?s = (r, s')" by force
  have "\<not> starts_with managed_prefix ''hand written''" by code_simp
  moreover have "meddle calm op k = k" for op k by (simp add: calm_def)
  ultimately show ?thesis using publication_safe [OF run] unfolding run by (auto split: if_splits)
qed

text \<open>
  C40: every request a remote provider sends goes over HTTPS, without credentials in the URL, to the one
  host of that provider, with header values free of line breaks, also when an answer redirects to another
  place, for no redirect is followed: whatever holds of the network before and is kept by such requests
  holds after the whole command, for every behaviour of the network.
\<close>

theorem requests_confined:
  assumes "\<And>r w. sent_safely ip (provider_host ip (provider args)) r \<Longrightarrow> P w \<Longrightarrow> P (snd (opener r w))" and "P w"
  shows "P (fst (snd (run_intake ip opener env environ args (w, s))))"
proof (cases "rbind (validate_common args) (\<lambda>_. build_source ip environ (provider args))")
  case (Inl e)
  then show ?thesis using assms(2) by (simp add: run_intake_def)
next
  case (Inr src)
  then have b: "build_source ip environ (provider args) = Inr src" by (simp add: rbind_eq_Inr)
  obtain r w' where c: "collect_source ip opener src (page_size args) (max_issues args) w = (r, w')" by force
  with collect_source_keeps [OF b, of P opener, OF assms] have "P w'" by (metis snd_conv)
  then show ?thesis
    by (auto simp: run_intake_def Inr c split: sum.split source_error.split prod.split)
qed

definition log_opener :: "http_request list opener" where
  "log_opener r w = (NetworkFailure, w @ [r])"

lemma requests_confined_witness:
  "list_all (sent_safely (\<lambda>_. False) ''api.github.com'')
     (fst (snd (run_intake (\<lambda>_. False) log_opener calm [] (sample_args\<lparr>provider := FromGithub ''o'' ''r'' ''T'' ''gh''\<rparr>)
       ([], \<lparr>dest = Absent, lock_file = False, temp_files = 0\<rparr>))))"
proof -
  let ?args = "sample_args\<lparr>provider := FromGithub ''o'' ''r'' ''T'' ''gh''\<rparr>"
  have host: "provider_host (\<lambda>_. False) (provider ?args) = ''api.github.com''" by (simp add: provider_host_def)
  show ?thesis
    by (rule requests_confined [of "\<lambda>_. False" ?args "list_all (sent_safely (\<lambda>_. False) ''api.github.com'')"])
      (simp_all only: host, simp_all add: log_opener_def)
qed

text \<open>
  The identity is taken by a second look at the path, after the prefix was read: a file that is moved there
  between the two looks is replaced although it is not managed.
\<close>

lemma unmanaged_file_replaced:
  "\<exists>env s'. publish_managed env sample_content False
       \<lparr>dest = File managed_prefix 1, lock_file = False, temp_files = 0\<rparr> = (Inr True, s')
     \<and> meddle env Identify (File managed_prefix 1) = File ''hand written'' 3
     \<and> (\<forall>op. op \<noteq> Identify \<longrightarrow> (\<forall>n. meddle env op n = n))"
proof -
  define env where "env = calm\<lparr>meddle := (\<lambda>op n. if op = Identify then File ''hand written'' 3 else n)\<rparr>"
  have check: "content_check sample_content = Inr ()" "starts_with managed_prefix managed_prefix"
    "''hand written'' \<noteq> sample_content" by code_simp+
  then have "\<exists>s'. publish_managed env sample_content False
       \<lparr>dest = File managed_prefix 1, lock_file = False, temp_files = 0\<rparr> = (Inr True, s')"
    by (simp add: publish_managed_def env_def calm_def locked_part_def inspect_def same_bytes_def identity_of_def
        write_and_replace_def unchanged_def cleanup_def)
  then show ?thesis by (intro exI [of _ env]) (auto simp: env_def calm_def)
qed

end
