(* ===== verification/Session.thy ===== *)
theory Session
  imports LoopRun Selection ContainmentInv
begin

text \<open>
  \<open>src/runtime/main.py\<close>: the commands that read a log, and one run of the runtime from start-up to
  shutdown: opening the log, containment, recovery, validation of the selection, the lifecycle
  events, ingestion of the issue file, the orchestrator, and the exit. The operating system, SHA-256,
  UTF-8 decoding, the reviewer's endpoint and the workspace lease are parameters; terminal output is
  not modelled.
\<close>

section \<open>Reading commands\<close>

text \<open>\<open>Escapes\<close>: an exception the command does not catch.\<close>

datatype log_verdict = LogMissing | LogIncomplete | LogCorrupt | LogOK nat int | LogEscapes log_error

definition cmd_verify_log :: "string option \<Rightarrow> log_verdict" where
  "cmd_verify_log f = (case read_only_replay f of
     (_, Some LogFileNotFound) \<Rightarrow> LogMissing
   | (_, Some IncompleteLogError) \<Rightarrow> LogIncomplete
   | (_, Some (CorruptionError _)) \<Rightarrow> LogCorrupt
   | (_, Some e) \<Rightarrow> LogEscapes e
   | (evs, None) \<Rightarrow> LogOK (length evs) (if evs = [] then 0 else event_id (last evs)))"

text \<open>Events are applied as the replay yields them, so an illegal one is met before a later corruption.\<close>

datatype state_verdict = StateRefused log_verdict | StateShown projection | StateRaises proj_error

definition cmd_show_state :: "tables \<Rightarrow> string option \<Rightarrow> state_verdict" where
  "cmd_show_state T f = (case rebuild T (fst (read_only_replay f)) empty_projection of
     Inl e \<Rightarrow> StateRaises e
   | Inr p \<Rightarrow> (case cmd_verify_log f of LogOK _ _ \<Rightarrow> StateShown p | v \<Rightarrow> StateRefused v))"

section \<open>Configuration and collaborators of a run\<close>

text \<open>
  What main.py reads of the configuration beside the orchestrator's own part. \<open>hard_stop_usd\<close> is the
  text \<open>json.dumps\<close> writes for the float; \<open>issues_bytes\<close> the issue file, \<open>None\<close> if there is none;
  \<open>endpoint_answers\<close> whether \<open>urlopen\<close> of the reviewer's endpoint succeeds.
\<close>

record 'w session =
  ses_loop :: "'w orchestrator"
  issues_file :: string
  engine_model :: string
  reviewer_provider :: string
  qwen_model :: string
  max_executions :: int
  hard_stop_usd :: string
  proxy_pricing :: string
  validation_timeout :: int
  validation_env :: "(string \<times> string option) list"
  acknowledged_no_gate :: bool
  artifacts_dir :: string
  lease_key :: string
  sha256 :: "string \<Rightarrow> string"
  decode_utf8 :: "string \<Rightarrow> string option"
  issues_bytes :: "'w \<Rightarrow> string option"
  endpoint_answers :: "'w \<Rightarrow> bool \<times> 'w"
  utc_stamp :: "'w \<Rightarrow> string"
  uuid4 :: "'w \<Rightarrow> string \<times> 'w"

record run_args =
  issue_ids :: "string list option"
  all_issues :: bool
  issues_digest :: "string option"
  skip_baseline :: bool

datatype session_error =
    Escapes rt_error
  | LifecycleEventInvalid
  | LifecycleRaised proj_error
  | IngestFailed
  | UnicodeDecodeError
  | ValidatorRefused validator_error
  | ReviewerNotRegistered string

type_synonym ('w, 'a) sprog = "('w lp, session_error, 'a) prog"

text \<open>A program of the runtime inside the session.\<close>

definition rt :: "('w, 'a) lprog \<Rightarrow> ('w, 'a) sprog" where
  "rt m = (\<lambda>s. case m s of (Inl e, s') \<Rightarrow> (Inl (Escapes e), s') | (Inr a, s') \<Rightarrow> (Inr a, s'))"

definition ask :: "('w \<Rightarrow> 'a \<times> 'w) \<Rightarrow> ('w, 'a) sprog" where
  "ask f = (\<lambda>s. let (a, w) = f (rt_world s) in (Inr a, s\<lparr>rt_world := w\<rparr>))"

abbreviation s_tables :: "'w session \<Rightarrow> tables" where
  "s_tables ses \<equiv> o_tables (ses_loop ses)"

abbreviation s_env :: "'w session \<Rightarrow> 'w env" where
  "s_env ses \<equiv> o_env (ses_loop ses)"

section \<open>The lifecycle events\<close>

definition resolve_reviewer_model :: "'w session \<Rightarrow> string option" where
  "resolve_reviewer_model ses = (if reviewer_provider ses = ''qwen'' then Some (qwen_model ses) else None)"

definition budget_object :: "'w session \<Rightarrow> json" where
  "budget_object ses = JObj
     [(''hard_stop_proxy_cost_per_run_usd'', JFloat (hard_stop_usd ses)),
      (''max_attempts_per_issue'', JInt (max_attempts_per_issue (ses_loop ses))),
      (''max_executions_per_run'', JInt (max_executions ses)),
      (''proxy_pricing'', JStr (proxy_pricing ses))]"

definition config_digest :: "'w session \<Rightarrow> string option \<Rightarrow> string" where
  "config_digest ses model = sha256 ses (dumps (JObj
     [(''budget'', budget_object ses),
      (''engine'', JObj [(''max_turns'', JInt (max_turns (ses_loop ses))), (''model'', JStr (engine_model ses)),
         (''provider'', JStr (engine_provider (ses_loop ses))),
         (''timeout_seconds'', JInt (engine_timeout (ses_loop ses)))]),
      (''reviewer'', JObj [(''model'', jopt model), (''provider'', JStr (reviewer_provider ses))])]))"

definition run_started_payload :: "'w session \<Rightarrow> string option \<Rightarrow> string \<Rightarrow> payload" where
  "run_started_payload ses model digest =
     [(''budget'', budget_object ses),
      (''config_digest'', JStr digest),
      (''engine'', JObj [(''model'', JStr (engine_model ses)), (''provider'', JStr (engine_provider (ses_loop ses)))]),
      (''reviewer'', JObj [(''model'', jopt model), (''provider'', JStr (reviewer_provider ses))])]"

definition new_run_id :: "'w session \<Rightarrow> ('w, string) sprog" where
  "new_run_id ses = andthen (gets (utc_stamp ses \<circ> rt_world)) (\<lambda>now.
     andthen (ask (uuid4 ses)) (\<lambda>u. ret (''run-'' @ now @ ''-'' @ u)))"

text \<open>\<open>StateProjection().apply(ev)\<close> on a new projection, before anything is written.\<close>

definition validate_lifecycle_event :: "tables \<Rightarrow> event \<Rightarrow> session_error + unit" where
  "validate_lifecycle_event T ev = (case apply_event T ev empty_projection of
     Inr _ \<Rightarrow> Inr ()
   | Inl (TransitionError _) \<Rightarrow> Inl LifecycleEventInvalid
   | Inl e \<Rightarrow> Inl (LifecycleRaised e))"

definition emit_lifecycle :: "'w session \<Rightarrow> event_type \<Rightarrow> string \<Rightarrow> payload \<Rightarrow> ('w, unit) sprog" where
  "emit_lifecycle ses t rid pl =
     andthen (gets (utcnow (s_env ses) \<circ> rt_world)) (\<lambda>now.
     let candidate = new_event t JNull JNull (JStr rid) pl now
     in andthen (lift (validate_lifecycle_event (s_tables ses) candidate)) (\<lambda>_.
        andthen (rt (emit (s_tables ses) candidate)) (\<lambda>_. ret ())))"

definition emit_run_started :: "'w session \<Rightarrow> string \<Rightarrow> ('w, unit) sprog" where
  "emit_run_started ses rid =
     (let model = resolve_reviewer_model ses
      in emit_lifecycle ses RUN_STARTED rid (run_started_payload ses model (config_digest ses model)))"

definition emit_run_finished :: "'w session \<Rightarrow> string \<Rightarrow> string \<Rightarrow> ('w, unit) sprog" where
  "emit_run_finished ses rid outcome =
     emit_lifecycle ses RUN_FINISHED rid [(''detail'', JNull), (''outcome'', JStr outcome)]"

definition finished_with :: "'w session \<Rightarrow> string \<Rightarrow> string \<Rightarrow> int \<Rightarrow> ('w, int) sprog" where
  "finished_with ses rid outcome code = andthen (emit_run_finished ses rid outcome) (\<lambda>_. ret code)"

section \<open>Validation of the selection\<close>

record selection_plan =
  allowed_ids :: "string list"
  plan_order :: "string list"
  plan_dependencies :: "(string \<times> string list) list"

datatype selection_refusal =
  DigestMalformed | IssuesFileMissing | DigestMismatch | IssuesUnparsable | PlanRefused plan_result

datatype selection_verdict =
  NoSelection | SelectionRefused selection_refusal | RunAllEmpty | Selected selection_plan

definition digest_wellformed :: "string option \<Rightarrow> bool" where
  "digest_wellformed d = (case d of None \<Rightarrow> False
     | Some s \<Rightarrow> length s = 64 \<and> s = lower s \<and> list_all (\<lambda>c. c \<in> set ''0123456789abcdef'') s)"

fun issue_state_value :: "issue_state \<Rightarrow> string" where
  "issue_state_value PENDING = ''PENDING''"
| "issue_state_value ACTIVE = ''ACTIVE''"
| "issue_state_value DONE = ''DONE''"
| "issue_state_value NEEDS_HUMAN = ''NEEDS_HUMAN''"
| "issue_state_value NEEDS_DECOMPOSITION = ''NEEDS_DECOMPOSITION''"

definition states_of :: "projection \<Rightarrow> (string \<times> string) list" where
  "states_of p = map (map_prod id issue_state_value) (issues p)"

definition plan_of :: "issue_spec list \<Rightarrow> plan_result \<Rightarrow> selection_plan" where
  "plan_of ss r = \<lparr>allowed_ids = ordered_ids r, plan_order = ordered_ids r,
     plan_dependencies = dict_of (map (\<lambda>s. (spec_id s, spec_deps s)) ss)\<rparr>"

definition validate_selection :: "'w session \<Rightarrow> run_args \<Rightarrow> 'w \<Rightarrow> projection \<Rightarrow> selection_verdict" where
  "validate_selection ses args w p =
     (let ids = (case issue_ids args of None \<Rightarrow> [] | Some is \<Rightarrow> is)
      in if \<not> all_issues args \<and> ids = [] then NoSelection
      else if \<not> digest_wellformed (issues_digest args) then SelectionRefused DigestMalformed
      else case issues_bytes ses w of
        None \<Rightarrow> SelectionRefused IssuesFileMissing
      | Some raw \<Rightarrow>
          if Some (sha256 ses raw) \<noteq> issues_digest args then SelectionRefused DigestMismatch
          else case decode_utf8 ses raw of
            None \<Rightarrow> SelectionRefused IssuesUnparsable
          | Some text \<Rightarrow>
              (case parse_issues text of
                 Inl _ \<Rightarrow> SelectionRefused IssuesUnparsable
               | Inr ss \<Rightarrow>
                   let r = (if all_issues args then plan_run_all ss (states_of p)
                            else plan_selected ss (states_of p) ids)
                   in if \<not> plan_ok r then SelectionRefused (PlanRefused r)
                      else if all_issues args \<and> ordered_ids r = [] then RunAllEmpty
                      else Selected (plan_of ss r)))"

section \<open>Ingestion\<close>

text \<open>\<open>open(..., newline=None)\<close>: \<open>\r\n\<close> and \<open>\r\<close> are read as \<open>\n\<close>.\<close>

fun universal_newlines :: "string \<Rightarrow> string" where
  "universal_newlines (a # b # s) =
     (if a = CR then LF # universal_newlines (if b = LF then s else b # s) else a # universal_newlines (b # s))"
| "universal_newlines [a] = [if a = CR then LF else a]"
| "universal_newlines [] = []"

definition created_payload :: "'w session \<Rightarrow> issue_spec \<Rightarrow> payload" where
  "created_payload ses spec =
     [(''acceptance_criteria'', JArr (map JStr (spec_criteria spec))),
      (''body'', JStr (spec_body spec)),
      (''depends_on'', JArr (map JStr (spec_deps spec))),
      (''source'', JStr (issues_file ses)),
      (''title'', JStr (spec_title spec))]"

definition ingest_one :: "'w session \<Rightarrow> string \<Rightarrow> issue_spec \<Rightarrow> ('w, bool) sprog" where
  "ingest_one ses rid spec =
     andthen (gets rt_proj) (\<lambda>p.
     if map_of (issues p) (spec_id spec) \<noteq> None then ret False
     else andthen (gets (utcnow (s_env ses) \<circ> rt_world)) (\<lambda>now.
          andthen (rt (emit (s_tables ses) (new_event ISSUE_CREATED (JStr (spec_id spec)) JNull (JStr rid)
            (created_payload ses spec) now))) (\<lambda>_. ret True)))"

definition ingest_issues :: "'w session \<Rightarrow> string \<Rightarrow> ('w, nat) sprog" where
  "ingest_issues ses rid =
     andthen (gets (issues_bytes ses \<circ> rt_world)) (\<lambda>file.
     case file of
       None \<Rightarrow> throw IngestFailed
     | Some raw \<Rightarrow> (case decode_utf8 ses raw of
         None \<Rightarrow> throw UnicodeDecodeError
       | Some text \<Rightarrow> (case parse_issues (universal_newlines text) of
           Inl _ \<Rightarrow> throw IngestFailed
         | Inr ss \<Rightarrow> andthen (for_each (ingest_one ses rid) ss) (\<lambda>created.
             ret (length (filter id created))))))"

section \<open>From recovery to exit\<close>

definition run_validator :: "'w session \<Rightarrow> ('w, validator) sprog" where
  "run_validator ses = lift (case make_validator (validation_commands (ses_loop ses)) (validation_timeout ses)
       (artifacts_dir ses) (validation_env ses) (acknowledged_no_gate ses) of
     Inl e \<Rightarrow> Inl (ValidatorRefused e) | Inr v \<Rightarrow> Inr v)"

text \<open>\<open>head_of(branch) or current_commit()\<close>.\<close>

definition baseline_commit :: "'w session \<Rightarrow> ('w, string) sprog" where
  "baseline_commit ses = rt (andthen (repo_call (head_of (s_env ses) (target (ses_loop ses)))) (residue_commit (s_env ses)))"

definition baseline_green :: "'w session \<Rightarrow> ('w, bool) sprog" where
  "baseline_green ses =
     andthen (run_validator ses) (\<lambda>v.
     andthen (baseline_commit ses) (\<lambda>commit.
     andthen (rt (repo_call (validate (o_os (ses_loop ses)) v (workspace (ses_loop ses)) (JStr commit)
       ''baseline'' []))) (\<lambda>r. ret (v_passed r))))"

definition orchestrator_of :: "'w session \<Rightarrow> string \<Rightarrow> selection_plan option \<Rightarrow> validator \<Rightarrow> 'w orchestrator" where
  "orchestrator_of ses rid plan v = (ses_loop ses)\<lparr>o_validator := v, o_run_id := rid,
     allowed_issue_ids := map_option allowed_ids plan, selection_order := map_option plan_order plan,
     selection_dependencies := map_option plan_dependencies plan\<rparr>"

text \<open>
  \<open>adapter.checkout_branch(branch)\<close>: false where it raises \<open>RepoError\<close>, which main.py handles. The repository is a
  parameter whose only failure is \<open>RepoError\<close> (\<open>RepoFailed\<close>): \<open>repo/adapter.py\<close> turns every failure of git, a timeout
  and an \<open>OSError\<close> included, into one.
\<close>

definition checkout :: "'w session \<Rightarrow> ('w, bool) sprog" where
  "checkout ses = (\<lambda>s. case repo_call (checkout_branch (s_env ses) (target (ses_loop ses)) None) s of
     (Inr _, s') \<Rightarrow> (Inr True, s')
   | (Inl (RepoFailed _), s') \<Rightarrow> (Inr False, s')
   | (Inl e, s') \<Rightarrow> (Inl (Escapes e), s'))"

definition reviewer_reachable :: "'w session \<Rightarrow> ('w, bool) sprog" where
  "reviewer_reachable ses = (if reviewer_provider ses = ''qwen'' then ask (endpoint_answers ses) else ret True)"

text \<open>\<open>_make_reviewer\<close>: the registry has one provider; another one is a \<open>NotImplementedError\<close>, which leaves the run.\<close>

definition make_reviewer :: "'w session \<Rightarrow> session_error + unit" where
  "make_reviewer ses = (if reviewer_provider ses = ''qwen'' then Inr () else Inl (ReviewerNotRegistered (reviewer_provider ses)))"

definition construct :: "'w session \<Rightarrow> string \<Rightarrow> selection_plan option \<Rightarrow> ('w, int + 'w orchestrator) sprog" where
  "construct ses rid plan =
     andthen (run_validator ses) (\<lambda>v.
     andthen (lift (make_reviewer ses)) (\<lambda>_.
     andthen (modify (\<lambda>s. s\<lparr>lp_budget := new_budget (max_executions ses) (float_of_lexeme (hard_stop_usd ses))\<rparr>)) (\<lambda>_.
     ret (Inr (orchestrator_of ses rid plan v)))))"

definition ingest_then_construct ::
  "'w session \<Rightarrow> string \<Rightarrow> selection_plan option \<Rightarrow> ('w, int + 'w orchestrator) sprog" where
  "ingest_then_construct ses rid plan = (\<lambda>s. case ingest_issues ses rid s of
     (Inl IngestFailed, s') \<Rightarrow> andthen (finished_with ses rid ''INGEST_FAILED'' 1) (\<lambda>c. ret (Inl c)) s'
   | (Inl e, s') \<Rightarrow> (Inl e, s')
   | (Inr _, s') \<Rightarrow> construct ses rid plan s')"

text \<open>The checks between \<open>RunStarted\<close> and the orchestrator: an exit code, or the orchestrator.\<close>

definition after_started ::
  "'w session \<Rightarrow> run_args \<Rightarrow> report \<Rightarrow> string \<Rightarrow> selection_plan option \<Rightarrow> ('w, int + 'w orchestrator) sprog" where
  "after_started ses args rep rid plan =
     (let fail = (\<lambda>outcome. andthen (finished_with ses rid outcome 1) (\<lambda>c. ret (Inl c))) in
     andthen (checkout ses) (\<lambda>out.
     if \<not> out then fail ''CHECKOUT_FAILED'' else
     andthen (reviewer_reachable ses) (\<lambda>ok.
     if \<not> ok then fail ''REVIEWER_UNREACHABLE'' else
     andthen (if replayed_events rep = 0 \<and> \<not> skip_baseline args then baseline_green ses else ret True) (\<lambda>green.
     if \<not> green then fail ''BASELINE_FAILED'' else ingest_then_construct ses rid plan))))"

definition start_run ::
  "'w session \<Rightarrow> run_args \<Rightarrow> report \<Rightarrow> selection_plan option \<Rightarrow> ('w, int + 'w orchestrator) sprog" where
  "start_run ses args rep plan =
     andthen (new_run_id ses) (\<lambda>rid s. case emit_run_started ses rid s of
       (Inl LifecycleEventInvalid, s') \<Rightarrow> (Inr (Inl 1), s')
     | (Inl e, s') \<Rightarrow> (Inl e, s')
     | (Inr _, s') \<Rightarrow> after_started ses args rep rid plan s')"

definition prepare :: "'w session \<Rightarrow> run_args \<Rightarrow> report \<Rightarrow> ('w, int + 'w orchestrator) sprog" where
  "prepare ses args rep =
     andthen (gets (\<lambda>s. validate_selection ses args (rt_world s) (rt_proj s))) (\<lambda>v.
     case v of
       RunAllEmpty \<Rightarrow> ret (Inl 0)
     | SelectionRefused _ \<Rightarrow> ret (Inl 1)
     | NoSelection \<Rightarrow> start_run ses args rep None
     | Selected plan \<Rightarrow> start_run ses args rep (Some plan))"

text \<open>The handlers around \<open>orch.run()\<close>, then its \<open>finally\<close>.\<close>

definition handle_outcome :: "'w session \<Rightarrow> string \<Rightarrow> rt_error + stop_reason \<Rightarrow> ('w, int) sprog" where
  "handle_outcome ses rid r = (case r of
     Inr _ \<Rightarrow> finished_with ses rid ''COMPLETED'' 0
   | Inl (OrchestratorHalt _) \<Rightarrow> finished_with ses rid ''HALTED'' 2
   | Inl (ReviewerFailed _) \<Rightarrow> finished_with ses rid ''HALTED'' 2
   | Inl Interrupted \<Rightarrow> finished_with ses rid ''INTERRUPTED'' 0
   | Inl e \<Rightarrow> throw (Escapes e))"

definition restore_branch :: "'w session \<Rightarrow> ('w, unit) sprog" where
  "restore_branch ses = andthen (gets rt_proj) (\<lambda>p.
     if is_workspace_blocked p (lease_key ses) then ret ()
     else andthen (checkout ses) (\<lambda>_. ret ()))"

definition conclude :: "'w session \<Rightarrow> string \<Rightarrow> rt_error + stop_reason \<Rightarrow> ('w, int) sprog" where
  "conclude ses rid r = (\<lambda>s. case handle_outcome ses rid r s of
     (out, s') \<Rightarrow> (case restore_branch ses s' of (Inl e, s'') \<Rightarrow> (Inl e, s'') | (Inr _, s'') \<Rightarrow> (out, s'')))"

text \<open>\<open>None\<close> is a run that does not end.\<close>

definition run_after_startup ::
  "'w session \<Rightarrow> run_args \<Rightarrow> report \<Rightarrow> 'w lp \<Rightarrow> ((session_error + int) \<times> 'w lp) option" where
  "run_after_startup ses args rep s = (case prepare ses args rep s of
     (Inl e, s') \<Rightarrow> Some (Inl e, s')
   | (Inr (Inl code), s') \<Rightarrow> Some (Inr code, s')
   | (Inr (Inr orch), s') \<Rightarrow> (case run orch s' of
       None \<Rightarrow> None
     | Some (r, s'') \<Rightarrow> Some (conclude ses (o_run_id orch) r s'')))"

section \<open>Start-up, and the two commands that own a workspace\<close>

text \<open>
  What start-up asks of the operating system: the workspace lease, the writer lease of the log (the
  constructor of the log after it is \<open>open_owned\<close>), the probe of a controller process, the clock of
  release proofs, and the engine: whether its constructor succeeds, the clean-up of its orphans (it
  emits no event), and the liveness of a process.
\<close>

record 'w startup_os =
  lease_acquired :: bool
  log_lease_acquired :: bool
  probe_controller :: controller_probe
  proof_clock :: "'w \<Rightarrow> string"
  engine_starts :: bool
  reap_orphans :: "'w \<Rightarrow> 'w"
  engine_alive :: "string \<Rightarrow> bool"

datatype startup_error =
    WorkspaceOwnershipUnavailable
  | StartupLogError log_error
  | StartupError rt_error
  | EngineInitFailed

definition startup_program ::
  "'w session \<Rightarrow> 'w startup_os \<Rightarrow> 'w rt \<Rightarrow> (startup_error + projection \<times> report) \<times> 'w rt" where
  "startup_program ses os s =
     (case resolve_startup_containment (s_env ses) (lease_key ses) (probe_controller os) (proof_clock os) s of
        (Inl e, s1) \<Rightarrow> (Inl (StartupError e), s1)
      | (Inr _, s1) \<Rightarrow>
          if \<not> engine_starts os then (Inl EngineInitFailed, s1)
          else (case recover (s_env ses) (bind_reconciler (s_env ses) (target (ses_loop ses)) (engine_alive os))
                  (Some (lease_key ses)) (s1\<lparr>rt_world := reap_orphans os (rt_world s1)\<rparr>) of
             (Inl e, s2) \<Rightarrow> (Inl (StartupError e), s2)
           | (Inr r, s2) \<Rightarrow> (Inr r, s2)))"

text \<open>The outcome, the file of the log, and the world; on success the state the run starts from.\<close>

definition open_startup_recovery ::
  "'w session \<Rightarrow> 'w startup_os \<Rightarrow> string option \<Rightarrow> 'w \<Rightarrow>
     (startup_error + report \<times> 'w rt) \<times> string option \<times> 'w" where
  "open_startup_recovery ses os f w =
     (if \<not> lease_acquired os then (Inl WorkspaceOwnershipUnavailable, f, w)
      else if \<not> log_lease_acquired os then (Inl (StartupLogError (EventLogUnavailable [])), f, w)
      else case open_owned f of
        (Inl e, f', _) \<Rightarrow> (Inl (StartupLogError e), f', w)
      | (Inr wr, f', _) \<Rightarrow>
          (case startup_program ses os \<lparr>rt_log = wr, rt_proj = empty_projection, rt_world = w\<rparr> of
             (Inl e, s) \<Rightarrow> (Inl e, Some (w_bytes (rt_log s)), rt_world s)
           | (Inr (_, rep), s) \<Rightarrow> (Inr (rep, s), Some (w_bytes (rt_log s)), rt_world s)))"

text \<open>\<open>Inr\<close> an exit code, \<open>Inl\<close> an exception that leaves the command.\<close>

datatype command_error = StartupEscapes startup_error | RunEscapes session_error

definition startup_refusal :: "startup_error \<Rightarrow> command_error + int" where
  "startup_refusal e = (case e of
     WorkspaceOwnershipUnavailable \<Rightarrow> Inr 1
   | StartupLogError (EventLogUnavailable _) \<Rightarrow> Inr 1
   | StartupError WorkspaceContainmentBlocked \<Rightarrow> Inr 1
   | EngineInitFailed \<Rightarrow> Inr 1
   | _ \<Rightarrow> Inl (StartupEscapes e))"

definition cmd_recover ::
  "'w session \<Rightarrow> 'w startup_os \<Rightarrow> string option \<Rightarrow> 'w \<Rightarrow> (command_error + int) \<times> string option \<times> 'w" where
  "cmd_recover ses os f w = (case open_startup_recovery ses os f w of
     (Inl e, f', w') \<Rightarrow> (startup_refusal e, f', w')
   | (Inr _, f', w') \<Rightarrow> (Inr 0, f', w'))"

text \<open>The prompts already in the artifacts directory are part of the start; \<open>None\<close> is a run that does not end.\<close>

definition cmd_run ::
  "'w session \<Rightarrow> 'w startup_os \<Rightarrow> run_args \<Rightarrow> (string \<times> string) list \<Rightarrow> string option \<Rightarrow> 'w \<Rightarrow>
     ((command_error + int) \<times> string option \<times> 'w) option" where
  "cmd_run ses os args prompts f w = (case open_startup_recovery ses os f w of
     (Inl e, f', w') \<Rightarrow> Some (startup_refusal e, f', w')
   | (Inr (rep, s), _, _) \<Rightarrow>
       map_option (\<lambda>(r, s'). (case r of Inl e \<Rightarrow> Inl (RunEscapes e) | Inr c \<Rightarrow> Inr c,
           Some (w_bytes (rt_log s')), rt_world s'))
         (run_after_startup ses args rep
           (rt.extend s \<lparr>lp_budget = new_budget 0 (Fin 0), lp_prompts = prompts\<rparr>)))"

end
