(* ===== verification/SessionInv.thy ===== *)
theory SessionInv
  imports Session
begin

text \<open>
  What one run of the runtime leaves behind, for every repository, engine, reviewer, issue file and
  clock: it ends, its log replays, its lifecycle events bracket its work and agree with its exit code.
\<close>

section \<open>The invariant of a session\<close>

definition sound :: "tables \<Rightarrow> ('w, 'z) rt_scheme \<Rightarrow> bool" where
  "sound T s \<longleftrightarrow> in_sync T s \<and> attempts_named (rt_proj s) \<and> commits_pinned (writer_contents (rt_log s))"

text \<open>Since \<open>k\<close> was the log, the run has worked and neither been opened nor closed.\<close>

definition in_session :: "'w session \<Rightarrow> event list \<Rightarrow> 'w lp \<Rightarrow> bool" where
  "in_session ses k s \<longleftrightarrow> sound (s_tables ses) s \<and> grown k (writer_contents (rt_log s)) \<and>
     closed_kept (ses_loop ses) k (writer_contents (rt_log s))"

lemma in_session_world [simp]:
  "in_session ses k (s\<lparr>rt_world := w\<rparr>) = in_session ses k s" "in_session ses k (s\<lparr>lp_budget := b\<rparr>) = in_session ses k s"
  by (simp_all add: in_session_def sound_def in_sync_def)

text \<open>An event that applies and is neither a spawn nor an intent keeps a sound state sound.\<close>

lemma emit_sound:
  assumes s: "sound T s" and e: "good_event ev" "etype ev \<notin> {EXECUTION_SPAWNED, COMMIT_INTENT}"
    and a: "\<And>i. \<exists>p. apply_event T (stamp ev i) (rt_proj s) = Inr p"
  shows "\<exists>i s'. emit T ev s = (Inr (stamp ev i), s') \<and> sound T s' \<and>
    writer_contents (rt_log s') = writer_contents (rt_log s) @ [stamp ev i]"
proof -
  let ?e = "stamp ev (int (length (writer_contents (rt_log s))) + 1)"
  obtain p where p: "apply_event T ?e (rt_proj s) = Inr p" using a by blast
  have sync: "in_sync T s" using s by (simp add: sound_def)
  obtain s' where s': "emit T ev s = (Inr ?e, s')" "in_sync T s'" "rt_proj s' = p"
    "writer_contents (rt_log s') = writer_contents (rt_log s) @ [?e]"
    using emit_sync [OF sync e(1) p] by blast
  have "proj_step T (note_event (rt_proj s) ?e) ?e p" using p by (simp add: apply_event_def handle_step)
  from attempts_named_step [OF this] have "attempts_named p"
    using s e(2) by (auto simp: sound_def attempts_named_def attempts_def)
  moreover have "commits_pinned (writer_contents (rt_log s) @ [?e])"
    using s e(2) by (auto simp: sound_def each_snoc intro: pinned_by_other)
  ultimately have "sound T s'" using s' by (simp add: sound_def)
  with s' show ?thesis by blast
qed

lemma emit_in_session:
  assumes s: "in_session ses k s" and e: "good_event ev"
    and t: "etype ev \<notin> {EXECUTION_SPAWNED, COMMIT_INTENT, RUN_STARTED, RUN_FINISHED, EXECUTION_CONTAINMENT_PREPARED,
      EXECUTION_FINISHED, EXECUTION_CRASHED}"
    and a: "\<And>i. \<exists>p. apply_event (s_tables ses) (stamp ev i) (rt_proj s) = Inr p"
  shows "in_session ses k (snd (emit (s_tables ses) ev s))"
proof -
  obtain i s' where s': "emit (s_tables ses) ev s = (Inr (stamp ev i), s')" "sound (s_tables ses) s'"
    "writer_contents (rt_log s') = writer_contents (rt_log s) @ [stamp ev i]"
    using emit_sound [of "s_tables ses" s ev] s e t a by (auto simp: in_session_def)
  have "grown k (writer_contents (rt_log s'))"
    unfolding s'(3) by (rule grown_snoc) (use s t in \<open>auto simp: in_session_def\<close>)
  moreover have "closed_kept (ses_loop ses) k (writer_contents (rt_log s'))"
    unfolding s'(3) by (rule closed_kept_append) (use s t in \<open>auto simp: in_session_def neutral_def ending_def\<close>)
  ultimately show ?thesis using s' by (simp add: in_session_def)
qed

section \<open>The lifecycle events\<close>

lemma rbind_assoc: "rbind (rbind m f) g = rbind m (\<lambda>x. rbind (f x) g)"
  by (cases m) simp_all

lemma run_envelope_stamp [simp]: "run_envelope (stamp ev i) = run_envelope ev"
  by (cases "run_id ev") (simp_all add: run_envelope_def)

text \<open>Their handlers look at the event alone, so what an empty projection accepts, any does.\<close>

lemma lifecycle_anywhere:
  "h_run_started p (stamp ev i) = rbind (h_run_started q ev) (\<lambda>_. Inr p)"
  "h_run_finished p (stamp ev i) = rbind (h_run_finished q ev) (\<lambda>_. Inr p)"
  by (simp_all add: h_run_started_def h_run_finished_def Let_def rbind_assoc)

lemma lifecycle_applies:
  assumes "validate_lifecycle_event T ev = Inr u" and "etype ev \<in> {RUN_STARTED, RUN_FINISHED}"
  shows "\<exists>p'. apply_event T (stamp ev i) p = Inr p'"
proof -
  obtain q where "handle T (note_event empty_projection ev) ev = Inr q"
    using assms(1) by (auto simp: validate_lifecycle_event_def apply_event_def split: sum.splits proj_error.splits)
  then show ?thesis using assms(2) lifecycle_anywhere [of "note_event p (stamp ev i)" ev i "note_event empty_projection ev"]
    by (auto simp: apply_event_def handle_def)
qed

definition lifecycle_like :: "event_type \<Rightarrow> string \<Rightarrow> payload \<Rightarrow> event \<Rightarrow> bool" where
  "lifecycle_like t rid pl ev \<longleftrightarrow> etype ev = t \<and> run_id ev = JStr rid \<and> payload ev = pl \<and>
     issue_id ev = JNull \<and> execution_id ev = JNull"

text \<open>A refused lifecycle event changes nothing; an accepted one is the only change.\<close>

lemma emit_lifecycle_cases:
  assumes s: "sound (s_tables ses) s" and t: "t \<in> {RUN_STARTED, RUN_FINISHED}" and pl: "stored (JObj pl)"
  obtains (refused) e where "emit_lifecycle ses t rid pl s = (Inl e, s)"
      "\<exists>ev. lifecycle_like t rid pl ev \<and> validate_lifecycle_event (s_tables ses) ev = Inl e"
  | (accepted) ev s' where "emit_lifecycle ses t rid pl s = (Inr (), s')" "lifecycle_like t rid pl ev"
      "run_envelope ev = Inr ()" "sound (s_tables ses) s'"
      "writer_contents (rt_log s') = writer_contents (rt_log s) @ [ev]"
proof -
  let ?T = "s_tables ses" and ?c = "new_event t JNull JNull (JStr rid) pl (utcnow (s_env ses) (rt_world s))"
  have like: "lifecycle_like t rid pl (stamp ?c i)" "lifecycle_like t rid pl ?c" for i
    by (simp_all add: lifecycle_like_def)
  show thesis
  proof (cases "validate_lifecycle_event ?T ?c")
    case (Inl e)
    then show ?thesis using refused [of e] like(2) by (auto simp: emit_lifecycle_def andthen_def Let_def)
  next
    case (Inr u)
    have g: "good_event ?c" using pl by (simp add: good_new_event)
    have a: "\<And>i. \<exists>p. apply_event ?T (stamp ?c i) (rt_proj s) = Inr p"
      by (rule lifecycle_applies [OF Inr]) (use t in simp)
    obtain i s' where s': "emit ?T ?c s = (Inr (stamp ?c i), s')" "sound ?T s'"
      "writer_contents (rt_log s') = writer_contents (rt_log s) @ [stamp ?c i]"
      using emit_sound [OF s g _ a] t by auto
    obtain q where "handle ?T (note_event empty_projection ?c) ?c = Inr q"
      using Inr by (auto simp: validate_lifecycle_event_def apply_event_def split: sum.splits proj_error.splits)
    then have "run_envelope (stamp ?c i) = Inr ()"
      using t by (auto simp: handle_def h_run_started_def h_run_finished_def rbind_eq_Inr Let_def)
    then show ?thesis using accepted [OF _ like(1) _ s'(2,3)] s'(1) Inr
      by (simp add: emit_lifecycle_def andthen_def Let_def rt_def)
  qed
qed

text \<open>Once a run is open, its end can always be recorded.\<close>

definition run_id_ok :: "string \<Rightarrow> bool" where
  "run_id_ok rid \<longleftrightarrow> (\<exists>ev. run_id ev = JStr rid \<and> run_envelope ev = Inr ())"

lemma run_envelope_same:
  "run_id ev = run_id ev' \<Longrightarrow> issue_id ev = JNull \<Longrightarrow> execution_id ev = JNull \<Longrightarrow> run_envelope ev' = Inr () \<Longrightarrow>
   run_envelope ev = Inr ()"
  by (cases "run_id ev'") (auto simp: run_envelope_def rbind_eq_Inr)

definition closes :: "string \<Rightarrow> string \<Rightarrow> event \<Rightarrow> bool" where
  "closes rid outcome ev \<longleftrightarrow> lifecycle_like RUN_FINISHED rid [(''detail'', JNull), (''outcome'', JStr outcome)] ev"

lemma finish_valid:
  assumes "run_id_ok rid" and "closes rid outcome ev" and "outcome \<in> set RUN_OUTCOMES"
  shows "validate_lifecycle_event T ev = Inr ()"
proof -
  obtain ev' where ev': "run_id ev' = JStr rid" "run_envelope ev' = Inr ()" using assms(1) by (auto simp: run_id_ok_def)
  have "run_envelope ev = Inr ()"
    by (rule run_envelope_same [OF _ _ _ ev'(2)]) (use assms(2) ev'(1) in \<open>simp_all add: closes_def lifecycle_like_def\<close>)
  then have "h_run_finished (note_event empty_projection ev) ev = Inr (note_event empty_projection ev)"
    using assms(2,3) by (auto simp: h_run_finished_def closes_def lifecycle_like_def exact_keys_def string_field_def
        field_of_def RUN_OUTCOMES_def refuse_if_def)
  then show ?thesis using assms(2)
    by (simp add: validate_lifecycle_event_def apply_event_def handle_def closes_def lifecycle_like_def)
qed

lemma finished_with_ok:
  assumes "sound (s_tables ses) s" and "run_id_ok rid" and "outcome \<in> set RUN_OUTCOMES"
  shows "\<exists>ev s'. finished_with ses rid outcome code s = (Inr code, s') \<and> closes rid outcome ev \<and>
    sound (s_tables ses) s' \<and> writer_contents (rt_log s') = writer_contents (rt_log s) @ [ev]"
proof -
  let ?pl = "[(''detail'', JNull), (''outcome'', JStr outcome)]"
  have pl: "stored (JObj ?pl)" by (rule stored_JObj) auto
  show ?thesis
  proof (rule emit_lifecycle_cases [OF assms(1) _ pl, of RUN_FINISHED rid])
    fix e assume "\<exists>ev. lifecycle_like RUN_FINISHED rid ?pl ev \<and> validate_lifecycle_event (s_tables ses) ev = Inl e"
    then show ?thesis using finish_valid [OF assms(2) _ assms(3)] by (auto simp: closes_def)
  next
    fix ev s' assume "emit_lifecycle ses RUN_FINISHED rid ?pl s = (Inr (), s')" "lifecycle_like RUN_FINISHED rid ?pl ev"
      "sound (s_tables ses) s'" "writer_contents (rt_log s') = writer_contents (rt_log s) @ [ev]"
    then show ?thesis by (auto simp: finished_with_def emit_run_finished_def andthen_def closes_def)
  qed simp
qed

section \<open>Ingestion\<close>

lemma id_title_named: "id_title rest = Some (i, t) \<Longrightarrow> i \<noteq> []"
  by (auto simp: id_title_def issue_id_text_def Let_def split: if_splits)

lemma parsed_named:
  assumes "parse_issues text = Inr ss" and "spec \<in> set ss"
  shows "spec_id spec \<noteq> []"
proof -
  have "Some (spec_id spec, spec_title spec) \<in> set (map id_title (headings (splitlines text)))"
    unfolding parse_issues_heads(1) [OF assms(1), symmetric] using assms(2) by simp
  then obtain h where "id_title h = Some (spec_id spec, spec_title spec)" by (metis (no_types) image_iff list.set_map)
  then show ?thesis by (rule id_title_named)
qed

lemma json_or_list [simp]: "json_or (JArr xs) (JArr []) = JArr xs"
  by (simp add: json_or_def truthy_def)

lemma issue_created_applies:
  assumes "map_of (issues p) i = None" and "i \<noteq> []"
  shows "\<exists>p'. apply_event T (stamp (new_event ISSUE_CREATED (JStr i) JNull r (created_payload ses spec) now) n) p = Inr p'"
proof -
  let ?e = "stamp (new_event ISSUE_CREATED (JStr i) JNull r (created_payload ses spec) now) n"
  have n: "need_issue ?e = Inr i" using assms(2) by (simp add: need_issue_def need_eq)
  have d: "jget (payload ?e) ''depends_on'' = JArr (map JStr (spec_deps spec))"
    by (simp add: created_payload_def jget_def)
  have "\<exists>p'. h_issue_created (note_event p ?e) ?e = Inr p'"
    using assms(1) unfolding h_issue_created_def n d
    by (cases "truthy (JArr (map JStr (spec_deps spec)))") (simp_all add: refuse_if_def Let_def py_list_def)
  then show ?thesis by (simp add: apply_event_def handle_def)
qed

lemma created_stored: "stored (JObj (created_payload ses spec))"
  unfolding created_payload_def by (rule stored_JObj) auto

lemma rt_keeps: "keeps I m \<Longrightarrow> keeps I (rt m)"
  by (rule keepsI) (drule (1) keepsD, auto simp: rt_def split: prod.splits sum.splits)

lemma ask_keeps: "(\<And>s w. I s \<Longrightarrow> I (s\<lparr>rt_world := w\<rparr>)) \<Longrightarrow> keeps I (ask f)"
  by (rule keepsI) (simp add: ask_def split: prod.split)

lemma ingest_one_keeps:
  fixes ses :: "'w session"
  assumes "spec_id spec \<noteq> []"
  shows "keeps (in_session ses k) (ingest_one ses rid spec)"
proof (rule keepsI)
  fix s :: "'w lp" assume s: "in_session ses k s"
  let ?e = "new_event ISSUE_CREATED (JStr (spec_id spec)) JNull (JStr rid) (created_payload ses spec)
    (utcnow (s_env ses) (rt_world s))"
  show "in_session ses k (snd (ingest_one ses rid spec s))"
  proof (cases "map_of (issues (rt_proj s)) (spec_id spec)")
    case None
    have "in_session ses k (snd (emit (s_tables ses) ?e s))"
      by (rule emit_in_session [OF s good_new_event]) (simp_all add: created_stored issue_created_applies [OF None assms])
    then show ?thesis using None
      by (cases "emit (s_tables ses) ?e s"; cases "fst (emit (s_tables ses) ?e s)")
        (simp_all add: ingest_one_def andthen_def rt_def)
  qed (use s in \<open>simp add: ingest_one_def andthen_def\<close>)
qed

lemma ingest_keeps: "keeps (in_session ses k) (ingest_issues ses rid)"
  unfolding ingest_issues_def
  by (intro keeps_rules) (auto split: option.split sum.split
      intro!: keeps_rules ingest_one_keeps dest: parsed_named)

section \<open>From RunStarted to the orchestrator\<close>

text \<open>How the log ended: an open run (it was cut short), or one closed with an outcome that fits the exit code.\<close>

definition exit_code_of :: "string \<Rightarrow> int" where
  "exit_code_of outcome =
     (if outcome \<in> {''COMPLETED'', ''INTERRUPTED''} then 0 else if outcome = ''HALTED'' then 2 else 1)"

definition closed_after :: "string \<Rightarrow> event list \<Rightarrow> int \<Rightarrow> event list \<Rightarrow> bool" where
  "closed_after rid k code es \<longleftrightarrow> (\<exists>mid fin outcome. es = k @ mid @ [fin] \<and> closes rid outcome fin \<and>
     outcome \<in> set RUN_OUTCOMES \<and> code = exit_code_of outcome \<and>
     (\<forall>e \<in> set mid. etype e \<notin> {RUN_STARTED, RUN_FINISHED}))"

definition closed_state :: "'w session \<Rightarrow> string \<Rightarrow> event list \<Rightarrow> int \<Rightarrow> 'w lp \<Rightarrow> bool" where
  "closed_state ses rid k code s \<longleftrightarrow> sound (s_tables ses) s \<and> closed_after rid k code (writer_contents (rt_log s)) \<and>
     closed_kept (ses_loop ses) k (writer_contents (rt_log s))"

lemma closed_state_world [simp]: "closed_state ses rid k code (s\<lparr>rt_world := w\<rparr>) = closed_state ses rid k code s"
  by (simp add: closed_state_def sound_def in_sync_def)

lemma triple_finished:
  fixes ses :: "'w session"
  assumes "run_id_ok rid" and "outcome \<in> set RUN_OUTCOMES" and "code = exit_code_of outcome"
  shows "triple (in_session ses k) (finished_with ses rid outcome code)
    (\<lambda>c s. c = code \<and> closed_state ses rid k code s) E"
proof (rule triple_total)
  fix s :: "'w lp" assume s: "in_session ses k s"
  have "sound (s_tables ses) s" using s by (simp add: in_session_def)
  then obtain ev s' where f: "finished_with ses rid outcome code s = (Inr code, s')" "closes rid outcome ev"
    "sound (s_tables ses) s'" "writer_contents (rt_log s') = writer_contents (rt_log s) @ [ev]"
    using finished_with_ok [OF _ assms(1,2), of ses s code] by blast
  obtain mid where "writer_contents (rt_log s) = k @ mid" "\<forall>e \<in> set mid. etype e \<notin> {RUN_STARTED, RUN_FINISHED}"
    using s by (auto simp: in_session_def grown_def)
  then have "closed_after rid k code (writer_contents (rt_log s'))"
    unfolding closed_after_def f(4) using f(2) assms(2,3)
    by (intro exI [of _ mid] exI [of _ ev] exI [of _ outcome]) simp
  moreover have "closed_kept (ses_loop ses) k (writer_contents (rt_log s'))"
    unfolding f(4) by (rule closed_kept_append)
      (use s f(2) in \<open>auto simp: in_session_def neutral_def ending_def closes_def lifecycle_like_def\<close>)
  ultimately show "\<exists>c s'. finished_with ses rid outcome code s = (Inr c, s') \<and> c = code \<and> closed_state ses rid k code s'"
    using f(1,3) by (auto simp: closed_state_def)
qed

text \<open>What \<open>prepare\<close> hands over: a finished run, or an orchestrator and a state it can run from.\<close>

definition handed :: "'w session \<Rightarrow> string \<Rightarrow> event list \<Rightarrow> int + 'w orchestrator \<Rightarrow> 'w lp \<Rightarrow> bool" where
  "handed ses rid k r s = (case r of
     Inl code \<Rightarrow> closed_state ses rid k code s
   | Inr orch \<Rightarrow> in_session ses k s \<and> executions_started (lp_budget s) = 0 \<and>
       (\<exists>plan v. orch = orchestrator_of ses rid plan v))"

lemma run_id_of [simp]: "o_run_id (orchestrator_of ses rid plan v) = rid"
  "o_tables (orchestrator_of ses rid plan v) = s_tables ses"
  by (simp_all add: orchestrator_of_def)

lemma collaborators_of [simp]: "collaborators_ok (orchestrator_of ses rid plan v) = collaborators_ok (ses_loop ses)"
  by (simp add: collaborators_ok_def engine_ok_def reviewer_ok_def orchestrator_of_def)

lemma RUN_OUTCOMES_all: "set RUN_OUTCOMES = {''CHECKOUT_FAILED'', ''REVIEWER_UNREACHABLE'', ''BASELINE_FAILED'',
    ''INGEST_FAILED'', ''COMPLETED'', ''HALTED'', ''INTERRUPTED''}"
  by (auto simp: RUN_OUTCOMES_def)

lemma checkout_keeps: "keeps (in_session ses k) (checkout ses)"
  by (rule keepsI) (auto simp: checkout_def repo_call_def split: prod.split sum.split)

lemma repo_keeps [keeps_rules]: "keeps (in_session ses k) (rt (repo_call c))"
  by (intro rt_keeps keeps_repo_call) simp

lemma reachable_keeps: "keeps (in_session ses' k) (reviewer_reachable ses)"
  unfolding reviewer_reachable_def by (intro keeps_rules ask_keeps) simp

lemma baseline_keeps: "keeps (in_session ses' k) (baseline_green ses)"
proof -
  have "keeps (in_session ses' k) (residue_commit env sha)" for env and sha
    unfolding residue_commit_def by (intro keeps_rules) (auto intro: keeps_rules)
  then show ?thesis
    unfolding baseline_green_def run_validator_def baseline_commit_def
    by (intro keeps_rules rt_keeps) simp_all
qed

lemma triple_fail:
  assumes "run_id_ok rid" and "outcome \<in> set RUN_OUTCOMES" and "exit_code_of outcome = 1"
  shows "triple (in_session ses k) (andthen (finished_with ses rid outcome 1) (\<lambda>c. ret (Inl c)))
    (handed ses rid k) E"
  by (rule triple_andthen [OF triple_finished [OF assms(1,2)]])
    (use assms(3) in \<open>auto simp: handed_def intro!: triple_ret\<close>)

lemma triple_construct:
  "triple (in_session ses k) (construct ses rid plan) (handed ses rid k) (\<lambda>_. in_session ses k)"
  by (auto simp: triple_def construct_def run_validator_def make_reviewer_def andthen_def handed_def new_budget_def
      split: sum.split)

lemma triple_ingest:
  fixes ses :: "'w session"
  assumes "run_id_ok rid"
  shows "triple (in_session ses k) (ingest_then_construct ses rid plan) (handed ses rid k)
    (\<lambda>_. in_session ses k)"
proof (rule tripleI)
  fix r and s s' :: "'w lp" assume s: "in_session ses k s" and r: "ingest_then_construct ses rid plan s = (Inr r, s')"
  have i: "in_session ses k (snd (ingest_issues ses rid s))" using ingest_keeps s by (rule keepsD)
  note fail = triple_fail [OF assms, of "''INGEST_FAILED''" ses k]
  show "handed ses rid k r s'"
    using r i tripleD(1) [OF fail] tripleD(1) [OF triple_construct]
    by (fastforce simp: ingest_then_construct_def RUN_OUTCOMES_all exit_code_of_def
        split: prod.splits sum.splits session_error.splits)
next
  fix e and s s' :: "'w lp" assume s: "in_session ses k s" and r: "ingest_then_construct ses rid plan s = (Inl e, s')"
  have i: "in_session ses k (snd (ingest_issues ses rid s))" using ingest_keeps s by (rule keepsD)
  note fail = triple_fail [OF assms, of "''INGEST_FAILED''" ses k "\<lambda>_ _. False"]
  show "in_session ses k s'"
    using r i tripleD(2) [OF fail] tripleD(2) [OF triple_construct]
    by (fastforce simp: ingest_then_construct_def RUN_OUTCOMES_all exit_code_of_def
        split: prod.splits sum.splits session_error.splits)
qed

lemma triple_after_started:
  assumes "run_id_ok rid"
  shows "triple (in_session ses k) (after_started ses args rep rid plan) (handed ses rid k)
    (\<lambda>_. in_session ses k)"
  unfolding after_started_def Let_def
  by (intro triple_after checkout_keeps reachable_keeps keeps_rules baseline_keeps triple_if triple_fail [OF assms]
      triple_ingest [OF assms]) (simp_all add: RUN_OUTCOMES_all exit_code_of_def)

section \<open>The whole run\<close>

definition session_ok :: "'w session \<Rightarrow> bool" where
  "session_ok ses \<longleftrightarrow> collaborators_ok (ses_loop ses) \<and> stored (JFloat (hard_stop_usd ses))"

definition opens :: "string \<Rightarrow> event \<Rightarrow> bool" where
  "opens rid ev \<longleftrightarrow> etype ev = RUN_STARTED \<and> run_id ev = JStr rid"

text \<open>The log of a run that was cut short: untouched, or opened and not closed.\<close>

definition open_after :: "event list \<Rightarrow> event list \<Rightarrow> bool" where
  "open_after old es \<longleftrightarrow> es = old \<or> (\<exists>st rid. opens rid st \<and> grown (old @ [st]) es)"

text \<open>The log of a run that returned: untouched (nothing to do, or refused), or opened and closed.\<close>

definition bracketed :: "event list \<Rightarrow> int \<Rightarrow> event list \<Rightarrow> bool" where
  "bracketed old code es \<longleftrightarrow> es = old \<and> code \<in> {0, 1} \<or>
     (\<exists>st rid. opens rid st \<and> closed_after rid (old @ [st]) code es)"

lemma started_stored:
  assumes "session_ok ses"
  shows "stored (JObj (run_started_payload ses model digest))"
proof -
  have "stored (budget_object ses)"
    unfolding budget_object_def by (rule stored_JObj) (use assms in \<open>auto simp: session_ok_def\<close>)
  moreover have "stored (JObj [(''model'', JStr a), (''provider'', JStr b)])"
    "stored (JObj [(''model'', jopt c), (''provider'', JStr b)])" for a b c
    by (rule stored_JObj; auto)+
  ultimately show ?thesis unfolding run_started_payload_def by (intro stored_JObj) auto
qed

text \<open>What \<open>prepare\<close> leaves, having started from the log \<open>old\<close>.\<close>

definition prepared_from :: "'w session \<Rightarrow> event list \<Rightarrow> int + 'w orchestrator \<Rightarrow> 'w lp \<Rightarrow> bool" where
  "prepared_from ses old r s \<longleftrightarrow>
     r \<in> {Inl 0, Inl 1} \<and> sound (s_tables ses) s \<and> writer_contents (rt_log s) = old \<or>
     (\<exists>st rid. opens rid st \<and> run_id_ok rid \<and> handed ses rid (old @ [st]) r s)"

definition cut_short :: "'w session \<Rightarrow> event list \<Rightarrow> 'w lp \<Rightarrow> bool" where
  "cut_short ses old s \<longleftrightarrow> sound (s_tables ses) s \<and> open_after old (writer_contents (rt_log s)) \<and>
     closed_kept (ses_loop ses) old (writer_contents (rt_log s))"

lemma opened_kept: "opens rid st \<Longrightarrow> closed_kept self (old @ [st]) es \<Longrightarrow> closed_kept self old es"
  by (rule closed_kept_trans [OF closed_kept_append [OF closed_kept_refl]])
    (auto simp: opens_def neutral_def ending_def)

lemma in_session_cut: "opens rid st \<Longrightarrow> in_session ses (old @ [st]) s \<Longrightarrow> cut_short ses old s"
  by (auto simp: cut_short_def open_after_def in_session_def dest: opened_kept)

lemma triple_emit_started:
  fixes ses :: "'w session" and old and s :: "'w lp"
  assumes "session_ok ses" and s: "sound (s_tables ses) s \<and> writer_contents (rt_log s) = old"
  shows "(\<exists>e. emit_run_started ses rid s = (Inl e, s)) \<or>
    (\<exists>st s'. emit_run_started ses rid s = (Inr (), s') \<and> opens rid st \<and> run_id_ok rid \<and>
      in_session ses (old @ [st]) s')"
proof -
  let ?pl = "run_started_payload ses (resolve_reviewer_model ses) (config_digest ses (resolve_reviewer_model ses))"
  have eq: "emit_run_started ses rid = emit_lifecycle ses RUN_STARTED rid ?pl"
    by (simp add: emit_run_started_def Let_def)
  have sd: "sound (s_tables ses) s" using s by simp
  show ?thesis unfolding eq
  proof (rule emit_lifecycle_cases [OF sd _ started_stored [OF assms(1)], of RUN_STARTED rid
        "resolve_reviewer_model ses" "config_digest ses (resolve_reviewer_model ses)"])
    fix ev s' assume e: "emit_lifecycle ses RUN_STARTED rid ?pl s = (Inr (), s')" "lifecycle_like RUN_STARTED rid ?pl ev"
      "run_envelope ev = Inr ()" "sound (s_tables ses) s'"
      "writer_contents (rt_log s') = writer_contents (rt_log s) @ [ev]"
    then have "opens rid ev" "run_id_ok rid" "in_session ses (old @ [ev]) s'"
      using s by (auto simp: opens_def run_id_ok_def lifecycle_like_def in_session_def)
    with e(1) show "(\<exists>e. emit_lifecycle ses RUN_STARTED rid ?pl s = (Inl e, s)) \<or>
      (\<exists>st s'. emit_lifecycle ses RUN_STARTED rid ?pl s = (Inr (), s') \<and> opens rid st \<and> run_id_ok rid \<and>
        in_session ses (old @ [st]) s')" by blast
  qed auto
qed

lemma triple_start:
  fixes ses :: "'w session"
  assumes "session_ok ses"
  shows "triple (\<lambda>s. sound (s_tables ses) s \<and> writer_contents (rt_log s) = old) (start_run ses args rep plan)
    (prepared_from ses old) (\<lambda>_. cut_short ses old)"
proof -
  let ?P = "\<lambda>s. sound (s_tables ses) s \<and> writer_contents (rt_log s) = old"
  have id: "keeps ?P (new_run_id ses)"
    unfolding new_run_id_def by (intro keeps_rules ask_keeps) (auto simp: sound_def in_sync_def)
  have "triple ?P (\<lambda>s. case emit_run_started ses rid s of
       (Inl LifecycleEventInvalid, s') \<Rightarrow> (Inr (Inl 1), s')
     | (Inl e, s') \<Rightarrow> (Inl e, s')
     | (Inr _, s') \<Rightarrow> after_started ses args rep rid plan s') (prepared_from ses old) (\<lambda>_. cut_short ses old)" for rid
    unfolding triple_def
  proof (intro allI impI)
    fix s :: "'w lp" assume s: "?P s"
    from triple_emit_started [OF assms s, of rid]
    show "case (case emit_run_started ses rid s of
       (Inl LifecycleEventInvalid, s') \<Rightarrow> (Inr (Inl 1), s')
     | (Inl e, s') \<Rightarrow> (Inl e, s')
     | (Inr _, s') \<Rightarrow> after_started ses args rep rid plan s') of
       (Inr a, s') \<Rightarrow> prepared_from ses old a s' | (Inl e, s') \<Rightarrow> cut_short ses old s'"
    proof (elim disjE exE conjE)
      fix e assume "emit_run_started ses rid s = (Inl e, s)"
      then show ?thesis using s
        by (cases e) (simp_all add: prepared_from_def cut_short_def open_after_def)
    next
      fix st s' assume e: "emit_run_started ses rid s = (Inr (), s')" "opens rid st" "run_id_ok rid"
        "in_session ses (old @ [st]) s'"
      have "case after_started ses args rep rid plan s' of
          (Inr a, s') \<Rightarrow> handed ses rid (old @ [st]) a s' | (Inl e, s') \<Rightarrow> in_session ses (old @ [st]) s'"
        by (rule triple_after_started [OF e(3), unfolded triple_def, rule_format, OF e(4)])
      then show ?thesis using e in_session_cut [OF e(2)]
        by (auto simp: prepared_from_def split: prod.splits sum.splits)
    qed
  qed
  then show ?thesis unfolding start_run_def
    by (intro triple_after [OF id]) (auto simp: cut_short_def open_after_def)
qed

lemma triple_prepare:
  fixes ses :: "'w session"
  assumes "session_ok ses"
  shows "triple (\<lambda>s. sound (s_tables ses) s \<and> writer_contents (rt_log s) = old) (prepare ses args rep)
    (prepared_from ses old) (\<lambda>_. cut_short ses old)"
  unfolding prepare_def
  by (rule triple_gets_any)
    (auto split: selection_verdict.split intro!: triple_start [OF assms] triple_ret simp: prepared_from_def)

lemma grown_trans: "grown k es \<Longrightarrow> grown es es' \<Longrightarrow> grown k es'"
  by (auto simp: grown_def)

lemma closed_kept_of [simp]: "closed_kept (orchestrator_of ses rid plan v) = closed_kept (ses_loop ses)"
  by (simp add: fun_eq_iff closed_kept_def engine_contained_def orchestrator_of_def)

lemma run_in_session:
  fixes ses :: "'w session"
  assumes "collaborators_ok orch" and "in_session ses k s" and "executions_started (lp_budget s) = 0"
    and orch: "orch = orchestrator_of ses rid plan v"
  shows "\<exists>r s'. run orch s = Some (r, s') \<and> in_session ses k s'"
proof -
  have "fresh_run orch s" using assms(2,3) orch by (simp add: fresh_run_def in_session_def sound_def)
  from run_result [OF assms(1) fresh_inv [OF this]] obtain r s' where
    "run orch s = Some (r, s')" "loop_inv orch (writer_contents (rt_log s)) (max_executions_per_run (lp_budget s)) s'"
    by blast
  then show ?thesis using assms(2) orch
    by (auto simp: in_session_def sound_def loop_inv_def intro: grown_trans closed_kept_trans)
qed

lemma checkout_world: "\<exists>b w. checkout ses s = (Inr b, s\<lparr>rt_world := w\<rparr>)"
  by (cases "checkout_branch (s_env ses) (target (ses_loop ses)) None (rt_world s)";
      cases "fst (checkout_branch (s_env ses) (target (ses_loop ses)) None (rt_world s))")
    (auto simp: checkout_def repo_call_def)

lemma restore_world: "\<exists>w. restore_branch ses s = (Inr (), s\<lparr>rt_world := w\<rparr>)"
proof -
  have "s = s\<lparr>rt_world := rt_world s\<rparr>" by simp
  moreover obtain b w where "checkout ses s = (Inr b, s\<lparr>rt_world := w\<rparr>)"
    using checkout_world [of ses s] by (elim exE)
  ultimately show ?thesis by (auto simp: restore_branch_def andthen_def intro: exI [of _ "rt_world s"])
qed

lemma conclude_result:
  fixes ses :: "'w session"
  assumes "run_id_ok rid" and "in_session ses k s" and "conclude ses rid r s = (out, s')"
  shows "case out of Inr code \<Rightarrow> closed_state ses rid k code s' | Inl _ \<Rightarrow> in_session ses k s'"
proof -
  have "triple (in_session ses k) (handle_outcome ses rid r) (\<lambda>code. closed_state ses rid k code)
      (\<lambda>_. in_session ses k)"
    unfolding handle_outcome_def
    by (auto split: sum.split rt_error.split intro!: triple_throw
        intro: triple_conseq [OF triple_finished [OF assms(1)]] simp: RUN_OUTCOMES_all exit_code_of_def)
  then have h: "case handle_outcome ses rid r s of (Inr code, t) \<Rightarrow> closed_state ses rid k code t
      | (Inl _, t) \<Rightarrow> in_session ses k t"
    using assms(2) by (simp add: triple_def)
  obtain out1 s1 where o1: "handle_outcome ses rid r s = (out1, s1)" by fastforce
  obtain w where "restore_branch ses s1 = (Inr (), s1\<lparr>rt_world := w\<rparr>)" using restore_world [of ses s1] by (elim exE)
  then show ?thesis using assms(3) h o1 by (auto simp: conclude_def split: sum.splits)
qed

lemma after_startup_result:
  fixes ses :: "'w session"
  assumes "session_ok ses" and "sound (s_tables ses) s"
  shows "\<exists>r s'. run_after_startup ses args rep s = Some (r, s') \<and> sound (s_tables ses) s' \<and>
    closed_kept (ses_loop ses) (writer_contents (rt_log s)) (writer_contents (rt_log s')) \<and>
    (case r of Inr code \<Rightarrow> bracketed (writer_contents (rt_log s)) code (writer_contents (rt_log s'))
     | Inl _ \<Rightarrow> open_after (writer_contents (rt_log s)) (writer_contents (rt_log s')))"
proof -
  let ?old = "writer_contents (rt_log s)" and ?T = "s_tables ses"
  obtain p s1 where p: "prepare ses args rep s = (p, s1)" by fastforce
  have t: "case p of Inr a \<Rightarrow> prepared_from ses ?old a s1 | Inl _ \<Rightarrow> cut_short ses ?old s1"
    using triple_prepare [OF assms(1), of ?old args rep] assms(2) p
    unfolding triple_def by (auto split: sum.splits)
  have closed: "sound ?T s' \<and> bracketed ?old code (writer_contents (rt_log s')) \<and>
      closed_kept (ses_loop ses) ?old (writer_contents (rt_log s'))"
    if "opens rid st" "closed_state ses rid (?old @ [st]) code s'" for rid st code s'
    using that opened_kept by (auto simp: closed_state_def bracketed_def)
  consider (raised) e where "p = Inl e" | (code) c where "p = Inr (Inl c)" | (orch) oc where "p = Inr (Inr oc)"
    by (cases p) (metis sum.exhaust)+
  then show ?thesis
  proof cases
    case raised
    then show ?thesis using p t by (auto simp: run_after_startup_def cut_short_def)
  next
    case code
    then have "sound ?T s1 \<and> bracketed ?old c (writer_contents (rt_log s1)) \<and>
        closed_kept (ses_loop ses) ?old (writer_contents (rt_log s1))"
      using t closed by (auto simp: prepared_from_def handed_def bracketed_def)
    then show ?thesis using p code by (auto simp: run_after_startup_def)
  next
    case orch
    then obtain rid st plan v where h: "opens rid st" "run_id_ok rid" "in_session ses (?old @ [st]) s1"
      "executions_started (lp_budget s1) = 0" "oc = orchestrator_of ses rid plan v"
      using t by (auto simp: prepared_from_def handed_def)
    have "collaborators_ok oc" using assms(1) h(5) by (simp add: session_ok_def)
    from run_in_session [OF this, of ses "?old @ [st]" s1 rid plan v] h(3-5) obtain r2 s2 where
      r2: "run oc s1 = Some (r2, s2)" "in_session ses (?old @ [st]) s2" by auto
    obtain out s3 where c: "conclude ses rid r2 s2 = (out, s3)" by fastforce
    have "case out of Inr code \<Rightarrow> closed_state ses rid (?old @ [st]) code s3 | Inl _ \<Rightarrow> in_session ses (?old @ [st]) s3"
      by (rule conclude_result [OF h(2) r2(2) c])
    then have "sound ?T s3 \<and> closed_kept (ses_loop ses) ?old (writer_contents (rt_log s3)) \<and> (case out of Inr code \<Rightarrow> bracketed ?old code (writer_contents (rt_log s3))
       | Inl _ \<Rightarrow> open_after ?old (writer_contents (rt_log s3)))"
      using closed [OF h(1)] in_session_cut [OF h(1), of ses ?old s3] by (cases out) (simp_all add: cut_short_def)
    then show ?thesis using p orch r2(1) c h(5) by (auto simp: run_after_startup_def)
  qed
qed

end
