(* ===== verification/Restart.thy ===== *)
theory Restart
  imports SessionInv
begin

text \<open>
  Sessions in sequence: a log written by any number of runs, each of which may have been killed at any
  byte it was writing, is one that the next run can open, replay and continue.
\<close>

section \<open>A prefix of a log\<close>

lemma take_concat:
  "n < length (concat ls) \<Longrightarrow> \<exists>m k. m < length ls \<and> k < length (ls ! m) \<and>
     take n (concat ls) = concat (take m ls) @ take k (ls ! m)"
proof (induction ls arbitrary: n)
  case (Cons l ls)
  show ?case
  proof (cases "n < length l")
    case True
    then show ?thesis by (intro exI [of _ 0] exI [of _ n]) simp
  next
    case False
    then have "n - length l < length (concat ls)" using Cons.prems by auto
    from Cons.IH [OF this] obtain m k where "m < length ls" "k < length (ls ! m)"
      "take (n - length l) (concat ls) = concat (take m ls) @ take k (ls ! m)" by blast
    then show ?thesis using False by (intro exI [of _ "Suc m"] exI [of _ k]) simp
  qed
qed simp

text \<open>What the next start needs of the events it finds.\<close>

definition log_sound :: "tables \<Rightarrow> bool \<Rightarrow> string \<Rightarrow> event list \<Rightarrow> bool" where
  "log_sound T jobs key es \<longleftrightarrow> storable es \<and> commits_pinned es \<and> closed_log T jobs key es \<and>
     (\<exists>p. rebuild T es empty_projection = Inr p \<and> attempts_named p)"

lemma issue_execs_grow: "proj_step T p e p' \<Longrightarrow> \<exists>new. issue_execs p' i = issue_execs p i @ new"
  by (induction rule: proj_step.induct) (simp_all add: issue_execs_update)

lemma attempts_named_earlier:
  assumes "rebuild T new p = Inr p'" and "attempts_named p'"
  shows "attempts_named p"
  using assms
proof (induction new arbitrary: p)
  case (Cons e new)
  then obtain q where q: "apply_event T e p = Inr q" "rebuild T new q = Inr p'" by (auto simp: rebuild_Cons rbind_eq_Inr)
  have st: "proj_step T (note_event p e) e q" using q(1) by (simp add: apply_event_def handle_step)
  have grow: "\<exists>ys. issue_execs q i = issue_execs p i @ ys" for i
    using issue_execs_grow [OF st, of i] by (simp add: issue_execs_def)
  have "issue_execs p i ! k = attempt_id i (k + 1)" if "k < attempts p i" for i k
  proof -
    obtain ys where ys: "issue_execs q i = issue_execs p i @ ys" using grow by blast
    then have "k < attempts q i" using that by (simp add: attempts_def)
    then have "issue_execs q i ! k = attempt_id i (k + 1)"
      using Cons.IH [OF q(2) Cons.prems(2)] by (simp add: attempts_named_def)
    then show ?thesis using ys that by (simp add: nth_append attempts_def)
  qed
  then show ?case by (simp add: attempts_named_def)
qed simp

lemma each_prefix: "each P (es @ new) \<Longrightarrow> each P es"
  unfolding each_def by (metis append.assoc append_Cons)

lemma log_sound_prefix:
  assumes "log_sound T jobs key (es @ new)"
  shows "log_sound T jobs key es"
proof -
  obtain p' where p': "rebuild T (es @ new) empty_projection = Inr p'" "attempts_named p'"
    using assms by (auto simp: log_sound_def)
  then obtain p where p: "rebuild T es empty_projection = Inr p" "rebuild T new p = Inr p'"
    by (auto simp: rebuild_append rbind_eq_Inr)
  have "storable es" using assms by (auto simp: log_sound_def storable_def numbered_append)
  moreover have "commits_pinned es" "closed_log T jobs key es"
    using assms by (auto simp: log_sound_def intro: each_prefix)
  ultimately show ?thesis using p attempts_named_earlier [OF p(2) p'(2)] by (auto simp: log_sound_def)
qed

text \<open>A file that holds a prefix of the bytes of a sound log opens on a sound log.\<close>

definition opens_on :: "string option \<Rightarrow> event list \<Rightarrow> bool" where
  "opens_on f es \<longleftrightarrow> (\<exists>wr f' sc. open_owned f = (Inr wr, f', sc) \<and> writer_ok wr \<and> writer_contents wr = es)"

lemma opens_on_fresh: "opens_on None []"
proof -
  have "open_owned None = (Inr empty_writer, Some [], None)"
    by (simp add: open_owned_def repair_torn_tail_def scan_last_event_id_def empty_writer_def)
  then show ?thesis using empty_writer_ok by (auto simp: opens_on_def)
qed

lemma opens_on_torn:
  assumes es: "storable es" and e: "wf_event e" and k: "k < length (to_line e)"
  shows "opens_on (Some (concat (map to_line es) @ take k (to_line e))) es"
proof -
  let ?t = "take k (to_line e)" and ?b = "concat (map to_line es)"
  have h: "holds_events es (log_of es)" using es by (simp add: holds_events_def log_of_def storable_def list_all_iff)
  obtain b where b: "to_line e = b @ [LF]" "LF \<notin> set b" using to_line_framed [OF e] by (auto simp: framed_def)
  have lf: "LF \<notin> set ?t" using k b by (auto dest: in_set_takeD)
  have ends: "?b = [] \<or> ends_with_LF ?b" using holds_ends [OF h] by (simp add: log_of_def)
  have r: "fst (repair_torn_tail (Some (?b @ ?t))) = Some ?b"
    using repair_torn [OF lf _ ends] repair_whole [OF ends] by (cases "?t = []") auto
  have "scan_last_event_id (Some ?b) = Inr (int (length es))" using holds_scan [OF h] by (simp add: log_of_def)
  then have "open_owned (Some (?b @ ?t)) = (Inr (log_of es), Some ?b, snd (repair_torn_tail (Some (?b @ ?t))))"
    using r by (cases "repair_torn_tail (Some (?b @ ?t))") (simp add: open_owned_def log_of_def Let_def)
  then show ?thesis using log_of_ok [OF es] by (auto simp: opens_on_def)
qed

lemma opens_on_prefix:
  assumes "writer_ok wr" and "log_sound T jobs key (writer_contents wr)"
  shows "\<exists>es. opens_on (Some (take n (w_bytes wr))) es \<and> log_sound T jobs key es"
proof -
  let ?es = "writer_contents wr"
  have b: "w_bytes wr = concat (map to_line ?es)" and st: "storable ?es"
    using assms(1) writer_ok_storable by (auto simp: writer_ok_def holds_events_def)
  show ?thesis
  proof (cases "n < length (w_bytes wr)")
    case False
    obtain w' where "open_owned (Some (w_bytes wr)) = (Inr w', Some (w_bytes wr), None)" "holds_events ?es w'" "\<not> w_closed w'"
      using holds_reopen [of ?es wr] assms(1) by (auto simp: writer_ok_def)
    then have "opens_on (Some (take n (w_bytes wr))) ?es"
      using False writer_okI [of ?es w'] by (simp add: opens_on_def)
    then show ?thesis using assms(2) by blast
  next
    case True
    then obtain m k where m: "m < length ?es" "k < length (to_line (?es ! m))"
      "take n (w_bytes wr) = concat (map to_line (take m ?es)) @ take k (to_line (?es ! m))"
      using take_concat [of n "map to_line ?es"] b by (auto simp: take_map)
    have s: "log_sound T jobs key (take m ?es)" using log_sound_prefix [of T jobs key "take m ?es" "drop m ?es"] assms(2) by simp
    have "wf_event (?es ! m)" using st m(1) by (auto simp: storable_def list_all_iff)
    then have "opens_on (Some (take n (w_bytes wr))) (take m ?es)"
      unfolding m(3) using s m(2) by (intro opens_on_torn) (simp_all add: log_sound_def)
    then show ?thesis using s by blast
  qed
qed

section \<open>Start-up keeps the log sound\<close>

lemma attempts_named_rebuild:
  "rebuild T new p = Inr p' \<Longrightarrow> \<forall>e \<in> set new. etype e \<noteq> EXECUTION_SPAWNED \<Longrightarrow> attempts_named p \<Longrightarrow> attempts_named p'"
proof (induction new arbitrary: p)
  case (Cons e new)
  then obtain q where q: "apply_event T e p = Inr q" "rebuild T new q = Inr p'" by (auto simp: rebuild_Cons rbind_eq_Inr)
  have "proj_step T (note_event p e) e q" using q(1) by (simp add: apply_event_def handle_step)
  from attempts_named_step [OF this] have "attempts_named q"
    using Cons.prems by (auto simp: attempts_named_def attempts_def issue_execs_def)
  then show ?case using Cons.IH [OF q(2)] Cons.prems(2) by simp
qed simp

lemma sound_extends:
  assumes "sound T s0" and "in_sync T s" and "extends P s0 s"
    and "\<And>e. P e \<Longrightarrow> etype e \<notin> {EXECUTION_SPAWNED, COMMIT_INTENT}"
  shows "sound T s"
proof -
  obtain new where new: "writer_contents (rt_log s) = writer_contents (rt_log s0) @ new" "\<forall>e \<in> set new. P e"
    using assms(3) by (auto simp: extends_def)
  have "rebuild T new (rt_proj s0) = Inr (rt_proj s)"
    using assms(1,2) new(1) by (simp add: sound_def in_sync_def rebuild_append)
  then have "attempts_named (rt_proj s)"
    by (rule attempts_named_rebuild) (use assms(1,4) new(2) in \<open>auto simp: sound_def\<close>)
  moreover have "commits_pinned (writer_contents (rt_log s))"
    unfolding new(1) by (rule commits_pinned_append) (use assms(1,4) new(2) in \<open>auto simp: sound_def\<close>)
  ultimately show ?thesis using assms(2) by (simp add: sound_def)
qed

text \<open>A sound state whose log is closed for the workspace.\<close>

definition sound_closed :: "tables \<Rightarrow> bool \<Rightarrow> string \<Rightarrow> ('w, 'z) rt_scheme \<Rightarrow> bool" where
  "sound_closed T jobs key s \<longleftrightarrow> sound T s \<and> closed_log T jobs key (writer_contents (rt_log s))"

lemma sound_log: "sound_closed T jobs key s \<Longrightarrow> writer_ok (rt_log s) \<and> log_sound T jobs key (writer_contents (rt_log s))"
  using writer_ok_storable by (auto simp: sound_closed_def sound_def in_sync_def log_sound_def)

lemma releases_closed:
  assumes "closed_log T jobs key (writer_contents (rt_log s0))"
    and "extends (\<lambda>e. etype e = EXECUTION_CONTAINMENT_RELEASED) s0 s"
  shows "closed_log T jobs key (writer_contents (rt_log s))"
proof -
  obtain new where new: "writer_contents (rt_log s) = writer_contents (rt_log s0) @ new"
    "\<forall>e \<in> set new. etype e = EXECUTION_CONTAINMENT_RELEASED" using assms(2) by (auto simp: extends_def)
  show ?thesis unfolding new(1)
    by (rule closed_log_append [OF assms(1)]) (use new(2) in \<open>auto simp: closed_by_neutral neutral_def ending_def\<close>)
qed

lemma recovery_closed:
  assumes "in_sync T s0" and "closed_log T jobs key (writer_contents (rt_log s0))"
    and "\<not> is_workspace_blocked (rt_proj s0) key" and "recovering alive T s0 s"
  shows "closed_log T jobs key (writer_contents (rt_log s))"
proof -
  obtain new where new: "writer_contents (rt_log s) = writer_contents (rt_log s0) @ new" "\<forall>e \<in> set new. recovery_fact alive e"
    and sync: "in_sync T s" using assms(4) by (auto simp: recovering_def extends_def)
  have "rebuild T new (rt_proj s0) = Inr (rt_proj s)" using assms(1) sync new(1) by (simp add: in_sync_def rebuild_append)
  moreover have "\<forall>e \<in> set new. etype e \<in> {EXECUTION_CRASHED, COMMIT_CREATED}"
    using new(2) by (auto simp: recovery_fact_def)
  ultimately show ?thesis
    using closed_log_recovery [OF _ assms(3,2)] assms(1) new(1) by (auto simp: in_sync_def)
qed

lemma startup_sound:
  assumes T: "complete_tables (s_tables ses)" and clock: "\<And>w. proof_clock os w \<noteq> []"
    and s: "sound_closed (s_tables ses) jobs (lease_key ses) (s\<lparr>rt_proj := p\<rparr>)"
    and r: "startup_program ses os s = (r, t)"
  shows "sound_closed (s_tables ses) jobs (lease_key ses) t"
proof -
  let ?T = "s_tables ses" and ?key = "lease_key ses"
  note D = complete_doc03 [OF T]
  have rep: "replays ?T s p" and sd: "sound ?T (s\<lparr>rt_proj := p\<rparr>)" and cl: "closed_log ?T jobs ?key (writer_contents (rt_log s))"
    using s by (simp_all add: sound_closed_def sound_def in_sync_def replays_def)
  have "boundaries_live p ?key"
    using rep closed_log_live [OF D _ cl] by (simp add: replays_def)
  then have live: "\<forall>v \<in> set (unreleased_containments p (Some ?key)). release_open (probe_controller os) p v"
    by (simp add: boundaries_live_def release_open_def)
  obtain c s1 where c: "resolve_startup_containment (s_env ses) ?key (probe_controller os) (proof_clock os) s = (c, s1)"
    by fastforce
  note out = startup_outcome [where clock = "proof_clock os" and probe = "probe_controller os", OF D clock rep live]
  have rel: "releasing ?T s s1" using out c by auto
  have free: "\<not> is_workspace_blocked (rt_proj s1) ?key" if "is_ok c"
    using out c that by (auto simp: blocked_set list_all_iff is_ok_def split: if_splits)
  from rel have s1: "sound ?T s1"
    by (intro sound_extends [OF sd, of s1 "\<lambda>e. etype e = EXECUTION_CONTAINMENT_RELEASED"])
      (auto simp: releasing_def extends_def)
  have c1: "closed_log ?T jobs ?key (writer_contents (rt_log s1))"
    using rel by (intro releases_closed [OF cl]) (simp add: releasing_def)
  let ?s1 = "s1\<lparr>rt_world := reap_orphans os (rt_world s1)\<rparr>"
  have s1': "sound ?T ?s1" using s1 by (simp add: sound_def in_sync_def)
  obtain d s2 where d: "recover (s_env ses) (bind_reconciler (s_env ses) (target (ses_loop ses)) (engine_alive os))
      (Some ?key) ?s1 = (d, s2)" by fastforce
  have "replays ?T ?s1 (rt_proj ?s1)" using s1' by (intro in_sync_replays) (simp add: sound_def)
  note rec = recover_outcome(1) [OF D this d]
  then have s2: "sound ?T s2"
    by (intro sound_extends [OF s1', of s2 "recovery_fact (engine_alive os)"])
      (auto simp: recovering_def recovery_fact_def)
  have "closed_log ?T jobs ?key (writer_contents (rt_log s2))" if "is_ok c"
    using recovery_closed [OF _ _ _ rec, of jobs ?key] free [OF that] s1' c1 by (simp add: sound_def)
  then show ?thesis using r c d s1 s2 c1
    by (auto simp: startup_program_def sound_closed_def is_ok_iff split: sum.splits if_splits)
qed

section \<open>Any number of sessions\<close>

text \<open>The bytes of a file are a prefix of those of a sound log.\<close>

definition sound_file :: "tables \<Rightarrow> bool \<Rightarrow> string \<Rightarrow> string option \<Rightarrow> bool" where
  "sound_file T jobs key f \<longleftrightarrow> (\<forall>b. f = Some b \<longrightarrow> (\<exists>wr n. b = take n (w_bytes wr) \<and> writer_ok wr \<and>
     log_sound T jobs key (writer_contents wr)))"

lemma sound_file_opens: "sound_file T jobs key f \<Longrightarrow> \<exists>es. opens_on f es \<and> log_sound T jobs key es"
proof (cases f)
  case None
  moreover have "log_sound T jobs key []"
    by (simp add: log_sound_def storable_def attempts_named_def attempts_def issue_execs_def empty_projection_def)
  ultimately show ?thesis using opens_on_fresh by blast
next
  case (Some b)
  assume "sound_file T jobs key f"
  then show ?thesis using Some opens_on_prefix by (force simp: sound_file_def)
qed

lemma sound_file_take: "sound_file T jobs key f \<Longrightarrow> sound_file T jobs key (map_option (take n) f)"
  by (cases f) (simp_all add: sound_file_def, metis take_take)

lemma sound_file_writer: "sound_closed T jobs key s \<Longrightarrow> sound_file T jobs key (Some (w_bytes (rt_log s)))"
  using sound_log by (auto simp: sound_file_def intro!: exI [of _ "rt_log s"] exI [of _ "length (w_bytes (rt_log s))"])

lemma open_startup_sound:
  assumes T: "complete_tables (s_tables ses)" and clock: "\<And>w. proof_clock os w \<noteq> []"
    and f: "sound_file (s_tables ses) jobs (lease_key ses) f"
  shows "case open_startup_recovery ses os f w of
      (Inr (rep, s), f', _) \<Rightarrow> sound_closed (s_tables ses) jobs (lease_key ses) s \<and> f' = Some (w_bytes (rt_log s))
    | (Inl _, f', _) \<Rightarrow> sound_file (s_tables ses) jobs (lease_key ses) f'"
proof -
  let ?T = "s_tables ses" and ?key = "lease_key ses"
  obtain es where es: "opens_on f es" "log_sound ?T jobs ?key es" using sound_file_opens [OF f] by blast
  then obtain wr f' sc p where o: "open_owned f = (Inr wr, f', sc)" "writer_ok wr" "writer_contents wr = es"
    and p: "rebuild ?T es empty_projection = Inr p" "attempts_named p"
    by (auto simp: opens_on_def log_sound_def)
  let ?s = "\<lparr>rt_log = wr, rt_proj = empty_projection, rt_world = w\<rparr>"
  have s: "sound_closed ?T jobs ?key (?s\<lparr>rt_proj := p\<rparr>)"
    using o p es(2) by (simp add: sound_closed_def sound_def in_sync_def log_sound_def)
  obtain r t where r: "startup_program ses os ?s = (r, t)" by fastforce
  have "sound_closed ?T jobs ?key t" by (rule startup_sound [OF T clock s r])
  then show ?thesis using r o(1) f sound_file_writer [of ?T jobs ?key t]
    by (auto simp: open_startup_recovery_def split: sum.splits)
qed

lemma sound_extend: "sound T s \<Longrightarrow> sound T (rt.extend s x)"
  by (simp add: sound_def in_sync_def rt.defs)

lemma cmd_run_sound:
  assumes "session_ok ses" and clock: "\<And>w. proof_clock os w \<noteq> []"
    and e: "engine_contained (ses_loop ses) jobs (lease_key ses)" and f: "sound_file (s_tables ses) jobs (lease_key ses) f"
  shows "\<exists>r f' w'. cmd_run ses os args prompts f w = Some (r, f', w') \<and> sound_file (s_tables ses) jobs (lease_key ses) f'"
proof -
  have T: "complete_tables (s_tables ses)" using assms(1) by (simp add: session_ok_def collaborators_ok_def)
  note st = open_startup_sound [OF T clock f, of w]
  show ?thesis
  proof (cases "open_startup_recovery ses os f w")
    case (fields a f' w')
    show ?thesis
    proof (cases a)
      case (Inl e)
      then show ?thesis using fields st by (auto simp: cmd_run_def)
    next
      case (Inr b)
      then obtain rep s where b: "a = Inr (rep, s)" by (cases b) simp
      have s: "sound (s_tables ses) s" "closed_log (s_tables ses) jobs (lease_key ses) (writer_contents (rt_log s))"
        using st fields b by (simp_all add: sound_closed_def)
      let ?s = "rt.extend s \<lparr>lp_budget = new_budget 0 (Fin 0), lp_prompts = prompts\<rparr>"
      obtain r s' where r: "run_after_startup ses args rep ?s = Some (r, s')" "sound (s_tables ses) s'"
        "closed_kept (ses_loop ses) (writer_contents (rt_log ?s)) (writer_contents (rt_log s'))"
        using after_startup_result [OF assms(1) sound_extend [OF s(1)]] by blast
      have "sound_closed (s_tables ses) jobs (lease_key ses) s'"
        using r(2,3) s(2) e by (simp add: sound_closed_def closed_kept_def rt.defs)
      then show ?thesis using fields b r(1) sound_file_writer [of _ _ _ s'] by (auto simp: cmd_run_def)
    qed
  qed
qed

lemma cmd_recover_sound:
  assumes "complete_tables (s_tables ses)" and "\<And>w. proof_clock os w \<noteq> []"
    and "sound_file (s_tables ses) jobs (lease_key ses) f"
  shows "sound_file (s_tables ses) jobs (lease_key ses) (fst (snd (cmd_recover ses os f w)))"
  using open_startup_sound [OF assms, of w] sound_file_writer
  by (auto simp: cmd_recover_def split: prod.splits sum.splits)

text \<open>
  The files a repository's log can be in: none, or what a run or a recovery left, whole or cut at any
  byte by a crash. \<open>P\<close> says which configurations and environments are used.
\<close>

inductive history :: "('w session \<Rightarrow> 'w startup_os \<Rightarrow> bool) \<Rightarrow> string option \<Rightarrow> bool" for P where
  fresh: "history P None"
| ran: "history P f \<Longrightarrow> P ses os \<Longrightarrow> cmd_run ses os args prompts f w = Some (r, f', w') \<Longrightarrow>
    history P (map_option (take n) f')"
| recovered: "history P f \<Longrightarrow> P ses os \<Longrightarrow> cmd_recover ses os f w = (r, f', w') \<Longrightarrow>
    history P (map_option (take n) f')"

lemma history_sound:
  assumes "history P f" and P: "\<And>ses os. P ses os \<Longrightarrow> session_ok ses \<and> s_tables ses = T \<and> lease_key ses = key \<and>
      engine_contained (ses_loop ses) jobs key \<and> (\<forall>w. proof_clock os w \<noteq> [])"
  shows "sound_file T jobs key f"
  using assms(1)
proof induction
  case (ran f ses os args prompts w r f' w' n)
  then show ?case using P [OF ran.hyps(2)] cmd_run_sound [of ses os jobs f args prompts w] sound_file_take by fastforce
next
  case (recovered f ses os w r f' w' n)
  have "complete_tables (s_tables ses)" using P [OF recovered.hyps(2)] by (auto simp: session_ok_def collaborators_ok_def)
  then show ?case using P [OF recovered.hyps(2)] recovered cmd_recover_sound [of ses os jobs f w] sound_file_take by fastforce
qed (simp add: sound_file_def)

section \<open>Properties\<close>

text \<open>A configuration and environment whose every collaborator succeeds, for the witnesses.\<close>

definition sample_session :: "'w session" where
  "sample_session = \<lparr>ses_loop = sample_loop, issues_file = ''Issues.md'', engine_model = ''m'',
     reviewer_provider = ''qwen'', qwen_model = ''q'', max_executions = 5, hard_stop_usd = ''10.0'',
     proxy_pricing = ''api_list_rates'', validation_timeout = 600, validation_env = [], acknowledged_no_gate = True,
     artifacts_dir = ''a'', lease_key = ''w'', sha256 = (\<lambda>_. replicate 64 (CHR ''0'')), decode_utf8 = Some,
     issues_bytes = (\<lambda>_. Some ''## i1: t''), endpoint_answers = (\<lambda>w. (True, w)),
     utc_stamp = (\<lambda>_. ''20260101T000000Z''), uuid4 = (\<lambda>w. (''00000000-0000-4000-8000-000000000000'', w))\<rparr>"

definition sample_startup :: "'w startup_os" where
  "sample_startup = \<lparr>lease_acquired = True, log_lease_acquired = True, probe_controller = (\<lambda>_. (DEAD, ''gone'')),
     proof_clock = (\<lambda>_. ''2026-01-01T00:00:00Z''), engine_starts = True, reap_orphans = id, engine_alive = (\<lambda>_. False)\<rparr>"

definition no_selection :: run_args where
  "no_selection = \<lparr>issue_ids = None, all_issues = False, issues_digest = None, skip_baseline = True\<rparr>"

definition sample_report :: report where
  "sample_report = \<lparr>replayed_events = 1, orphans_crashed = [], emitted = [], checks_run = [], checks_skipped = [],
     workspace_repairs = []\<rparr>"

lemma sample_session_ok: "session_ok sample_session"
proof -
  have "stored (JFloat ''10.0'')" unfolding stored_def by code_simp
  then show ?thesis using sample_loop_ok by (simp add: session_ok_def sample_session_def)
qed

lemma sample_session_sound: "sound (s_tables (sample_session :: unit session)) (sample_lp sample_created sample_start)"
  using sample_fresh by (simp add: fresh_run_def sound_def sample_session_def)

text \<open>
  C3: every run of the runtime ends, whatever the repository, the engine, the reviewer, the issue file
  and the clock do, and the log it leaves replays to the projection it holds, with every commit intent
  pinned. \<open>None\<close> would be a run that does not end.
\<close>

theorem session_ends:
  assumes "session_ok ses" and "sound (s_tables ses) s"
  shows "\<exists>r s'. run_after_startup ses args rep s = Some (r, s') \<and> in_sync (s_tables ses) s' \<and>
    commits_pinned (writer_contents (rt_log s'))"
  using after_startup_result [OF assms, of args rep] by (auto simp: sound_def)

theorem session_ends_witness:
  "\<exists>r s'. run_after_startup sample_session no_selection sample_report (sample_lp sample_created sample_start) = Some (r, s') \<and>
     in_sync doc03 s'"
  using session_ends [OF sample_session_ok sample_session_sound, of no_selection sample_report]
  by (simp add: sample_session_def sample_loop_def sample_env_def) blast

text \<open>
  C4: the lifecycle events bracket a run. A run that returns an exit code either added nothing to the
  log, or one \<open>RunStarted\<close>, then no lifecycle event, then one \<open>RunFinished\<close> of the same run with a
  null detail, whose outcome agrees with the exit code. A run that leaves by an exception never
  fabricates a \<open>RunFinished\<close>.
\<close>

theorem lifecycle_brackets:
  assumes "session_ok ses" and "sound (s_tables ses) s" and "run_after_startup ses args rep s = Some (r, s')"
  shows "case r of
      Inr code \<Rightarrow> writer_contents (rt_log s') = writer_contents (rt_log s) \<and> code \<in> {0, 1} \<or>
        (\<exists>st mid fin rid outcome. writer_contents (rt_log s') = writer_contents (rt_log s) @ st # mid @ [fin] \<and>
          opens rid st \<and> closes rid outcome fin \<and> code = exit_code_of outcome \<and>
          (\<forall>e \<in> set mid. etype e \<notin> {RUN_STARTED, RUN_FINISHED}))
    | Inl _ \<Rightarrow> \<exists>new. writer_contents (rt_log s') = writer_contents (rt_log s) @ new \<and>
        (\<forall>e \<in> set new. etype e \<noteq> RUN_FINISHED)"
proof -
  have "case r of Inr code \<Rightarrow> bracketed (writer_contents (rt_log s)) code (writer_contents (rt_log s'))
     | Inl _ \<Rightarrow> open_after (writer_contents (rt_log s)) (writer_contents (rt_log s'))"
    using after_startup_result [OF assms(1,2), of args rep] assms(3) by auto
  then show ?thesis
    by (fastforce simp: bracketed_def closed_after_def open_after_def grown_def opens_def split: sum.splits)
qed

theorem lifecycle_brackets_witness:
  "\<exists>r s'. run_after_startup sample_session no_selection sample_report (sample_lp sample_created sample_start) = Some (r, s') \<and>
     (\<forall>e. r = Inl e \<longrightarrow> (\<exists>new. writer_contents (rt_log s') = sample_created @ new \<and> (\<forall>e \<in> set new. etype e \<noteq> RUN_FINISHED)))"
proof -
  obtain r s' where r: "run_after_startup sample_session no_selection sample_report (sample_lp sample_created sample_start) = Some (r, s')"
    using after_startup_result [OF sample_session_ok sample_session_sound, of no_selection sample_report] by blast
  have "storable sample_created" unfolding storable_def canonical_def sample_created_def by code_simp
  then have "writer_contents (rt_log (sample_lp sample_created sample_start)) = sample_created"
    using log_of_ok by (simp add: sample_lp_def)
  then show ?thesis using lifecycle_brackets [OF sample_session_ok sample_session_sound r] r by auto
qed

text \<open>
  C2: a log survives any history. After any number of runs and recoveries of a workspace, with any configurations
  and environments, each of which may have been cut off at any byte it wrote, the file opens, the events it holds
  replay strictly, and every commit intent among them names a tree that was validated and approved; no boundary of the
  workspace is open behind an ended execution, so the next start-up never writes a release that the log cannot
  take. What this asks of the engine: with job containment, a call that returns a result leaves no boundary of its execution
  open; without it, the engine writes no events.
\<close>

theorem history_replays:
  assumes "history P f"
    and "\<And>ses os. P ses os \<Longrightarrow> session_ok ses \<and> s_tables ses = T \<and> lease_key ses = key \<and>
      engine_contained (ses_loop ses) jobs key \<and> (\<forall>w. proof_clock os w \<noteq> [])"
    and "doc03_tables T"
  shows "\<exists>wr f' torn p. open_owned f = (Inr wr, f', torn) \<and>
    rebuild T (writer_contents wr) empty_projection = Inr p \<and> commits_pinned (writer_contents wr) \<and>
    boundaries_live p key"
proof -
  obtain es where es: "opens_on f es" "log_sound T jobs key es"
    using sound_file_opens [OF history_sound [OF assms(1,2)]] by blast
  then show ?thesis using closed_log_live [OF assms(3)] by (fastforce simp: opens_on_def log_sound_def)
qed

text \<open>
  The witness: one run from no log at all, cut off after any number of bytes, with an engine that honours the
  contract of job containment by refusing to answer behind an open boundary.
\<close>

definition guarded_session :: "'w session" where
  "guarded_session = sample_session\<lparr>ses_loop := sample_loop\<lparr>run_engine := (\<lambda>x prompt s.
     (if no_boundary (rt_proj s) ''w'' (JStr x) then Inr sample_result else Inl (EngineContainmentError ''open''), s))\<rparr>\<rparr>"

lemma guarded_ok:
  "session_ok (guarded_session :: 'w session)" "engine_contained (ses_loop (guarded_session :: 'w session)) True ''w''"
proof -
  let ?ses = "guarded_session :: 'w session"
  have "float_lexeme ''1.5''" by code_simp
  then have "stored (JFloat ''1.5'')" "stored (JObj [(''dollars'', JInt 1)])" by (auto simp: stored_def [of "JFloat _"] intro: stored_JObj)
  then have "engine_ok (ses_loop ?ses)"
    by (auto simp: engine_ok_def guarded_session_def sample_result_def split: if_splits)
  moreover have "reviewer_ok (ses_loop ?ses) = reviewer_ok (sample_loop :: 'w orchestrator)"
    "o_env (ses_loop ?ses) = o_env sample_loop" "o_os (ses_loop ?ses) = o_os sample_loop"
    "hard_stop_usd ?ses = hard_stop_usd (sample_session :: 'w session)"
    by (simp_all add: reviewer_ok_def guarded_session_def)
  ultimately show "session_ok ?ses"
    using sample_session_ok [where 'a = 'w] sample_loop_ok [where 'a = 'w] by (simp add: session_ok_def collaborators_ok_def)
  show "engine_contained (ses_loop ?ses) True ''w''"
    by (simp add: engine_contained_def guarded_session_def)
qed

theorem history_replays_witness:
  "\<exists>f. \<forall>n. \<exists>wr f' torn p. open_owned (map_option (take n) f) = (Inr wr, f', torn) \<and>
     rebuild doc03 (writer_contents wr) empty_projection = Inr p \<and> boundaries_live p ''w''"
proof -
  let ?P = "\<lambda>(ses :: unit session) os. ses = guarded_session \<and> os = sample_startup"
  have T: "s_tables (guarded_session :: unit session) = doc03" "lease_key (guarded_session :: unit session) = ''w''"
    by (simp_all add: guarded_session_def sample_session_def sample_loop_def sample_env_def)
  have P: "\<And>ses os. ?P ses os \<Longrightarrow> session_ok ses \<and> s_tables ses = doc03 \<and> lease_key ses = ''w'' \<and>
      engine_contained (ses_loop ses) True ''w'' \<and> (\<forall>w. proof_clock os w \<noteq> [])"
    using guarded_ok T by (auto simp: sample_startup_def)
  obtain r f' w' where run: "cmd_run guarded_session sample_startup no_selection [] None () = Some (r, f', w')"
    using cmd_run_sound [OF guarded_ok(1), of sample_startup True None no_selection "[]" "()"] guarded_ok(2) T(2)
    by (auto simp: sound_file_def sample_startup_def)
  have "history ?P (map_option (take n) f')" for n
    by (rule history.ran [OF history.fresh _ run]) simp
  from history_replays [OF this P doc03_doc03_tables] show ?thesis by blast
qed

end
