(* ===== verification/Batch.thy ===== *)
theory Batch
  imports Restart
begin

text \<open>
  Selection and orchestrator composed: what a drained queue means for a validated batch. Main.py
  validates the batch against the projection it recovered and hands its order and dependencies to the
  orchestrator; the file may change before it is ingested, and issues may fail while the run works.
\<close>

section \<open>What the plan hands over\<close>

definition planned :: "issue_spec list \<Rightarrow> (string \<times> string) list \<Rightarrow> selection_plan \<Rightarrow> bool" where
  "planned ss states plan \<longleftrightarrow> distinct (map spec_id ss) \<and> runs_in_order ss states (plan_order plan) \<and>
     allowed_ids plan = plan_order plan \<and> plan_dependencies plan = dict_of (map (\<lambda>s. (spec_id s, spec_deps s)) ss)"

lemma keys_states_of: "keys (states_of p) = keys (issues p)"
  by (simp add: states_of_def)

lemma done_at_planning: "map_of (states_of p) d = Some ''DONE'' \<Longrightarrow> map_of (issues p) d = Some DONE"
proof -
  have "map_of (map (map_prod id issue_state_value) kvs) d = map_option issue_state_value (map_of kvs d)" for kvs
    by (induction kvs) auto
  then have "map_of (states_of p) d = map_option issue_state_value (map_of (issues p) d)" by (simp add: states_of_def)
  moreover have "issue_state_value st = ''DONE'' \<Longrightarrow> st = DONE" for st by (cases st) simp_all
  ultimately show "map_of (states_of p) d = Some ''DONE'' \<Longrightarrow> ?thesis" by auto
qed

lemma validated_planned:
  assumes "validate_selection ses args w p = Selected plan" and "distinct (keys (issues p))"
  obtains ss where "planned ss (states_of p) plan"
proof -
  obtain ss r t where ss: "parse_issues t = Inr ss" and r: "plan_ok r" "plan = plan_of ss r"
    "r = (if all_issues args then plan_run_all ss (states_of p)
          else plan_selected ss (states_of p) (case issue_ids args of None \<Rightarrow> [] | Some is \<Rightarrow> is))"
    "all_issues args \<longrightarrow> ordered_ids r \<noteq> []"
    using assms(1) by (auto simp: validate_selection_def Let_def split: if_splits option.splits sum.splits)
  have d: "distinct (map spec_id ss)" by (rule parse_issues_heads(2) [OF ss])
  have k: "distinct (keys (states_of p))" using assms(2) by (simp add: keys_states_of)
  have "runs_in_order ss (states_of p) (ordered_ids r)"
  proof (cases "all_issues args")
    case False
    then show ?thesis using plan_order_runs [OF d k] r by auto
  next
    case True
    let ?nt = "filter (\<lambda>i. \<not> is_terminal (states_of p) i) (map spec_id ss)"
    have "?nt \<noteq> []"
    proof
      assume "?nt = []"
      then have "ordered_ids r = []" using r(3) True
        by (simp add: plan_run_all_def default_plan_def Let_def topological_order_def kahn.simps case_prod_beta)
      then show False using r(4) True by simp
    qed
    from run_all_selected [OF d k this] plan_order_runs [OF d k, of ?nt] show ?thesis using r True by auto
  qed
  then have "planned ss (states_of p) plan" using d r(2) by (simp add: planned_def plan_of_def)
  then show thesis by (rule that)
qed

lemma plan_deps:
  assumes "distinct (map spec_id ss)"
  shows "(case map_of (dict_of (map (\<lambda>s. (spec_id s, spec_deps s)) ss)) i of None \<Rightarrow> [] | Some ds \<Rightarrow> ds) = deps_in ss i"
proof -
  have "dict_of (map (\<lambda>s. (spec_id s, spec_deps s)) ss) = map (\<lambda>s. (spec_id s, spec_deps s)) ss"
    "spec_by_id ss = map (\<lambda>s. (spec_id s, s)) ss"
    using assms by (simp_all add: dict_of_distinct spec_by_id_def o_def)
  moreover have "map_of (map (\<lambda>s. (spec_id s, spec_deps s)) ss) i = map_option spec_deps (map_of (map (\<lambda>s. (spec_id s, s)) ss) i)"
    by (induction ss) auto
  ultimately have "map_of (dict_of (map (\<lambda>s. (spec_id s, spec_deps s)) ss)) i = map_option spec_deps (map_of (spec_by_id ss) i)"
    by simp
  then show ?thesis by (simp add: deps_in_def split: option.split)
qed

section \<open>A drained queue\<close>

text \<open>An issue that neither will be done nor can move: escalated, or no longer in the queue.\<close>

definition stuck :: "projection \<Rightarrow> string \<Rightarrow> bool" where
  "stuck p i \<longleftrightarrow> map_of (issues p) i \<notin> {Some PENDING, Some ACTIVE, Some DONE}"

text \<open>\<open>i\<close> depends on \<open>j\<close> in the plan, directly or through others.\<close>

definition plan_deps_of :: "selection_plan \<Rightarrow> string \<Rightarrow> string list" where
  "plan_deps_of plan i = (case map_of (plan_dependencies plan) i of None \<Rightarrow> [] | Some ds \<Rightarrow> ds)"

inductive needs :: "selection_plan \<Rightarrow> string \<Rightarrow> string \<Rightarrow> bool" for plan where
  direct: "d \<in> set (plan_deps_of plan i) \<Longrightarrow> needs plan i d"
| via: "d \<in> set (plan_deps_of plan i) \<Longrightarrow> needs plan d j \<Longrightarrow> needs plan i j"

lemma drained_selected:
  assumes none: "next_actionable_selected p ids ids deps = None" and i: "i \<in> set ids"
  shows "map_of (issues p) i \<noteq> Some ACTIVE \<and> (map_of (issues p) i = Some PENDING \<longrightarrow>
    (\<exists>d \<in> set (case map_of deps i of None \<Rightarrow> [] | Some ds \<Rightarrow> ds). map_of (issues p) d \<noteq> Some DONE))"
proof -
  have a: "List.find (\<lambda>(iid, st). iid \<in> set ids \<and> st = ACTIVE) (issues p) = None"
    using none by (auto simp: next_actionable_selected_def split: option.splits)
  have "map_of (issues p) i \<noteq> Some ACTIVE"
  proof
    assume "map_of (issues p) i = Some ACTIVE"
    then have "(i, ACTIVE) \<in> set (issues p)" by (rule map_of_SomeD)
    then show False using a i by (auto simp: find_None_iff)
  qed
  moreover have "List.find (\<lambda>iid. map_of (issues p) iid = Some PENDING \<and>
      (\<forall>d \<in> set (case map_of deps iid of None \<Rightarrow> [] | Some ds \<Rightarrow> ds). map_of (issues p) d = Some DONE)) ids = None"
    using none a by (simp add: next_actionable_selected_def)
  ultimately show ?thesis using i unfolding find_None_iff by blast
qed

text \<open>In a drained queue every issue of the batch is final, or waits for one that is stuck.\<close>

lemma drained_batch:
  assumes plan: "planned ss states plan" and none: "next_actionable_selected p (allowed_ids plan) (plan_order plan) (plan_dependencies plan) = None"
    and kept: "\<And>d. map_of states d = Some ''DONE'' \<Longrightarrow> map_of (issues p) d = Some DONE"
    and i: "i \<in> set (plan_order plan)"
  shows "map_of (issues p) i \<noteq> Some ACTIVE \<and> (map_of (issues p) i = Some PENDING \<longrightarrow> (\<exists>j. needs plan i j \<and> stuck p j))"
proof -
  let ?ids = "plan_order plan"
  have d: "distinct (map spec_id ss)" and ord: "runs_in_order ss states ?ids" using plan by (simp_all add: planned_def)
  have none': "next_actionable_selected p ?ids ?ids (plan_dependencies plan) = None" using none plan by (simp add: planned_def)
  have deps: "plan_deps_of plan k = deps_in ss k" for k
    using plan_deps [OF d] plan by (simp add: planned_def plan_deps_of_def)
  note dr = drained_selected [OF none', folded plan_deps_of_def]
  have "\<forall>k \<in> set xs. map_of (issues p) k = Some PENDING \<longrightarrow> (\<exists>j. needs plan k j \<and> stuck p j)" if "?ids = xs @ ys" for xs ys
    using that
  proof (induction xs arbitrary: ys rule: rev_induct)
    case (snoc k xs)
    have "\<exists>j. needs plan k j \<and> stuck p j" if pending: "map_of (issues p) k = Some PENDING"
    proof -
      have "k \<in> set ?ids" using snoc.prems by simp
      then obtain e where e: "e \<in> set (plan_deps_of plan k)" "map_of (issues p) e \<noteq> Some DONE" using dr [of k] pending by auto
      then have "e \<in> set xs" using ord snoc.prems kept unfolding deps by (auto simp: runs_in_order_def)
      then have "e \<in> set ?ids" "map_of (issues p) e = Some PENDING \<longrightarrow> (\<exists>j. needs plan e j \<and> stuck p j)"
        using snoc.IH [of "k # ys"] snoc.prems by auto
      then show ?thesis
        using dr [of e] e needs.direct [OF e(1)] needs.via [OF e(1)] unfolding stuck_def by blast
    qed
    then show ?case using snoc.IH [of "k # ys"] snoc.prems by auto
  qed simp
  from this [of ?ids "[]"] show ?thesis using dr i by auto
qed

section \<open>From the selection to the end of the run\<close>

lemma construct_orch: "construct ses rid plan s = (Inr (Inr orch), s') \<Longrightarrow> \<exists>v. orch = orchestrator_of ses rid plan v"
  by (auto simp: construct_def andthen_eq)

lemma ingest_orch:
  "ingest_then_construct ses rid plan s = (Inr (Inr orch), s') \<Longrightarrow> \<exists>v. orch = orchestrator_of ses rid plan v"
  by (auto simp: ingest_then_construct_def andthen_eq dest: construct_orch
      split: prod.splits sum.splits session_error.splits)

lemma after_started_orch:
  "after_started ses args rep rid plan s = (Inr (Inr orch), s') \<Longrightarrow> \<exists>v. orch = orchestrator_of ses rid plan v"
  by (auto simp: after_started_def andthen_eq Let_def dest: ingest_orch split: if_splits)

lemma start_orch:
  "start_run ses args rep plan s = (Inr (Inr orch), s') \<Longrightarrow> \<exists>rid v. orch = orchestrator_of ses rid plan v"
proof -
  assume "start_run ses args rep plan s = (Inr (Inr orch), s')"
  then obtain rid s1 where r: "(case emit_run_started ses rid s1 of
       (Inl LifecycleEventInvalid, s') \<Rightarrow> (Inr (Inl 1), s')
     | (Inl e, s') \<Rightarrow> (Inl e, s')
     | (Inr _, s') \<Rightarrow> after_started ses args rep rid plan s') = (Inr (Inr orch), s')"
    unfolding start_run_def andthen_eq by blast
  obtain x s2 where "emit_run_started ses rid s1 = (x, s2)" by fastforce
  then have "after_started ses args rep rid plan s2 = (Inr (Inr orch), s')"
    using r by (cases x) (auto split: session_error.splits)
  then show ?thesis using after_started_orch by blast
qed

lemma prepare_orch:
  assumes "prepare ses args rep s = (Inr (Inr orch), s')" and "validate_selection ses args (rt_world s) (rt_proj s) = Selected plan"
  shows "\<exists>rid v. orch = orchestrator_of ses rid (Some plan) v"
  using assms by (auto simp: prepare_def andthen_eq dest: start_orch)

lemma done_kept:
  assumes T: "doc03_tables T" and "rebuild T es empty_projection = Inr p" "rebuild T (es @ new) empty_projection = Inr p'"
    and "map_of (issues p) d = Some DONE"
  shows "map_of (issues p') d = Some DONE"
proof -
  have "rebuild T new p = Inr p'" using assms(2,3) by (simp add: rebuild_append)
  from issue_closed_rebuild [OF T _ _ this, of DONE d "issue_execs p d"] show ?thesis
    using assms(4) by (simp add: issue_closed_def issue_final_def)
qed

lemma grown_from: "open_after old es \<Longrightarrow> \<exists>new. es = old @ new"
  by (auto simp: open_after_def grown_def)

text \<open>
  C5: nothing of a validated batch is silently left behind. If the run of a selection reports a drained
  queue, then every selected issue is done or escalated (or vanished from the file between validation
  and ingestion), or is pending because an issue it depends on, directly or not, is: no selected issue
  is in flight, and none is pending that could run.
\<close>

theorem selected_batch_drained:
  fixes ses :: "'w session"
  assumes "session_ok ses" and "sound (s_tables ses) s"
    and sel: "validate_selection ses args (rt_world s) (rt_proj s) = Selected plan"
    and prep: "prepare ses args rep s = (Inr (Inr orch), s1)"
    and run: "run orch s1 = Some (Inr QueueDrained, s2)"
  shows "\<forall>i \<in> set (plan_order plan). map_of (issues (rt_proj s2)) i \<noteq> Some ACTIVE \<and>
    (map_of (issues (rt_proj s2)) i = Some PENDING \<longrightarrow> (\<exists>j. needs plan i j \<and> stuck (rt_proj s2) j))"
proof -
  let ?T = "s_tables ses" and ?old = "writer_contents (rt_log s)"
  have T: "doc03_tables ?T" using assms(1) complete_doc03 by (simp add: session_ok_def collaborators_ok_def)
  obtain rid v where oc: "orch = orchestrator_of ses rid (Some plan) v" using prepare_orch [OF prep sel] by blast
  have "prepared_from ses ?old (Inr orch) s1"
    using triple_prepare [OF assms(1), of ?old args rep] assms(2) prep by (force simp: triple_def)
  then obtain st where s1: "in_session ses (?old @ [st]) s1" "executions_started (lp_budget s1) = 0"
    by (auto simp: prepared_from_def handed_def)
  have c: "collaborators_ok orch" using assms(1) oc by (simp add: session_ok_def)
  have fresh: "fresh_run orch s1" using s1 oc by (simp add: fresh_run_def in_session_def sound_def)
  have none: "next_actionable orch (rt_proj s2) = Inr None" and inv: "loop_inv orch (writer_contents (rt_log s1)) (max_executions_per_run (lp_budget s1)) s2"
    using run_result [OF c fresh_inv [OF fresh]] run by auto
  obtain new where new: "writer_contents (rt_log s2) = ?old @ new"
    using inv s1(1) by (auto simp: loop_inv_def in_session_def grown_def)
  have r: "rebuild ?T ?old empty_projection = Inr (rt_proj s)" "rebuild ?T (?old @ new) empty_projection = Inr (rt_proj s2)"
    using assms(2) inv new oc by (simp_all add: sound_def in_sync_def loop_inv_def)
  have "proj_ok ?T (rt_proj s)" by (rule in_sync_proj_ok [OF T]) (use assms(2) in \<open>simp add: sound_def\<close>)
  then have "distinct (keys (issues (rt_proj s)))" by (simp add: proj_ok_def keys_ok_def)
  from validated_planned [OF sel this] obtain ss where ss: "planned ss (states_of (rt_proj s)) plan" .
  have none': "next_actionable_selected (rt_proj s2) (allowed_ids plan) (plan_order plan) (plan_dependencies plan) = None"
    using none oc by (simp add: next_actionable_def orchestrator_of_def)
  have "map_of (issues (rt_proj s2)) i \<noteq> Some ACTIVE \<and>
    (map_of (issues (rt_proj s2)) i = Some PENDING \<longrightarrow> (\<exists>j. needs plan i j \<and> stuck (rt_proj s2) j))"
    if "i \<in> set (plan_order plan)" for i
    using drained_batch [OF ss none' _ that] done_kept [OF T r] done_at_planning by blast
  then show ?thesis by blast
qed

text \<open>
  The witness: the file lists \<open>i1\<close> when the selection is validated and is empty when it is ingested; the
  world is whether the file has been emptied, which happens as the run identifier is drawn.
\<close>

definition fading_session :: "bool session" where
  "fading_session = sample_session\<lparr>issues_bytes := (\<lambda>w. Some (if w then [] else ''## i1: t'')),
     uuid4 := (\<lambda>w. (''00000000-0000-4000-8000-000000000000'', True))\<rparr>"

definition fading_start :: "bool lp" where
  "fading_start = \<lparr>rt_log = empty_writer, rt_proj = empty_projection, rt_world = False,
     lp_budget = new_budget 0 (Fin 0), lp_prompts = []\<rparr>"

definition select_i1 :: run_args where
  "select_i1 = \<lparr>issue_ids = Some [''i1''], all_issues = False, issues_digest = Some (replicate 64 (CHR ''0'')),
     skip_baseline = True\<rparr>"

lemma fading_ok: "session_ok fading_session" "sound (s_tables fading_session) fading_start"
proof -
  show "session_ok fading_session" using sample_session_ok by (simp add: session_ok_def fading_session_def)
  show "sound (s_tables fading_session) fading_start"
    using empty_writer_ok by (simp add: sound_def in_sync_def fading_start_def attempts_named_def attempts_def
        issue_execs_def empty_projection_def)
qed

lemma fading_selected:
  "validate_selection fading_session select_i1 (rt_world fading_start) (rt_proj fading_start) =
     Selected \<lparr>allowed_ids = [''i1''], plan_order = [''i1''], plan_dependencies = [(''i1'', [])]\<rparr>"
  unfolding fading_session_def fading_start_def by code_simp

abbreviation fading_run :: string where
  "fading_run \<equiv> ''run-20260101T000000Z-00000000-0000-4000-8000-000000000000''"

lemma fading_valid:
  "validate_lifecycle_event (s_tables fading_session) (new_event RUN_STARTED JNull JNull (JStr fading_run)
     (run_started_payload fading_session (Some ''q'') (replicate 64 (CHR ''0''))) (utcnow (s_env fading_session) True)) = Inr ()"
  unfolding fading_session_def by code_simp

lemma fading_opened:
  "\<exists>s'. emit_run_started fading_session fading_run (fading_start\<lparr>rt_world := True\<rparr>) = (Inr (), s') \<and> rt_world s' \<and>
     issues (rt_proj s') = []"
proof -
  let ?T = "s_tables fading_session" and ?s = "fading_start\<lparr>rt_world := True\<rparr>"
  let ?pl = "run_started_payload fading_session (Some ''q'') (replicate 64 (CHR ''0''))"
  let ?c = "new_event RUN_STARTED JNull JNull (JStr fading_run) ?pl (utcnow (s_env fading_session) True)"
  have eq: "emit_run_started fading_session fading_run = emit_lifecycle fading_session RUN_STARTED fading_run ?pl"
    by (simp add: emit_run_started_def fading_session_def sample_session_def resolve_reviewer_model_def config_digest_def)
  have st: "stored (JObj ?pl)" by (rule started_stored) (rule fading_ok(1))
  have g: "good_event ?c" using st by (simp add: good_new_event)
  have sync: "in_sync ?T ?s" using fading_ok(2) by (simp add: sound_def in_sync_def)
  obtain p where p: "apply_event ?T (stamp ?c (int (length (writer_contents (rt_log ?s))) + 1)) (rt_proj ?s) = Inr p"
    using lifecycle_applies [OF fading_valid] by force
  have "h_run_started q e = Inr q' \<Longrightarrow> q' = q" for q q' e by (auto simp: h_run_started_def Let_def rbind_eq_Inr)
  from this [of "note_event (rt_proj ?s) (stamp ?c (int (length (writer_contents (rt_log ?s))) + 1))"
      "stamp ?c (int (length (writer_contents (rt_log ?s))) + 1)" p] p
  have "issues p = []" by (simp add: apply_event_def handle_def) (simp add: note_event_def fading_start_def empty_projection_def)
  moreover obtain s' where "emit ?T ?c ?s = (Inr (stamp ?c (int (length (writer_contents (rt_log ?s))) + 1)), s')"
    "rt_proj s' = p" "rt_world s' = rt_world ?s"
    using emit_sync [OF sync g p] by blast
  ultimately show ?thesis using fading_valid
    by (auto simp: eq emit_lifecycle_def andthen_def gets_def lift_def rt_def ret_def Let_def)
qed

lemma fading_prepared:
  "\<exists>orch s1. prepare fading_session select_i1 sample_report fading_start = (Inr (Inr orch), s1) \<and>
     run orch s1 = Some (Inr QueueDrained, s1) \<and> issues (rt_proj s1) = []"
proof -
  let ?plan = "\<lparr>allowed_ids = [''i1''], plan_order = [''i1''], plan_dependencies = [(''i1'', [])]\<rparr>"
  obtain s1 where s1: "emit_run_started fading_session fading_run (fading_start\<lparr>rt_world := True\<rparr>) = (Inr (), s1)"
    "rt_world s1" "issues (rt_proj s1) = []" using fading_opened by blast
  have "new_run_id fading_session fading_start = (Inr fading_run, fading_start\<lparr>rt_world := True\<rparr>)"
    by (simp add: new_run_id_def andthen_def gets_def ask_def ret_def fading_session_def sample_session_def Let_def)
  then have "prepare fading_session select_i1 sample_report fading_start =
      after_started fading_session select_i1 sample_report fading_run (Some ?plan) s1"
    using s1 fading_selected by (simp add: prepare_def start_run_def andthen_def gets_def)
  moreover have "checkout fading_session s1 = (Inr True, s1)"
    by (simp add: checkout_def repo_call_def fading_session_def sample_session_def sample_loop_def sample_env_def ret_def)
  moreover have "reviewer_reachable fading_session s1 = (Inr True, s1)"
    using s1(2) by (simp add: reviewer_reachable_def ask_def fading_session_def sample_session_def Let_def)
  moreover have "ingest_issues fading_session fading_run s1 = (Inr 0, s1)"
  proof -
    have "issues_bytes fading_session (rt_world s1) = Some []" "decode_utf8 fading_session [] = Some []"
      using s1(2) by (simp_all add: fading_session_def sample_session_def)
    moreover have "parse_issues [] = Inr []" by code_simp
    ultimately show ?thesis by (simp add: ingest_issues_def andthen_def gets_def ret_def)
  qed
  moreover obtain v where "run_validator fading_session s1 = (Inr v, s1)"
    by (simp add: run_validator_def lift_def make_validator_def require_def fading_session_def sample_session_def
        sample_loop_def has_dollar_def)
  moreover have "make_reviewer fading_session = Inr ()"
    by (simp add: make_reviewer_def fading_session_def sample_session_def)
  ultimately obtain orch s2 where p: "prepare fading_session select_i1 sample_report fading_start = (Inr (Inr orch), s2)"
    "orch = orchestrator_of fading_session fading_run (Some ?plan) v" "issues (rt_proj s2) = []"
    using s1(3) by (simp add: after_started_def ingest_then_construct_def construct_def andthen_def ret_def
        lift_def
        modify_def sample_report_def select_i1_def)
  have "run orch s2 = Some (Inr QueueDrained, s2)"
    by (subst run.simps) (simp add: p(2,3) next_actionable_def next_actionable_selected_def orchestrator_of_def)
  with p show ?thesis by blast
qed

theorem selected_batch_drained_witness:
  "\<exists>orch s1. prepare fading_session select_i1 sample_report fading_start = (Inr (Inr orch), s1) \<and>
     map_of (issues (rt_proj s1)) ''i1'' \<noteq> Some ACTIVE"
proof -
  obtain orch s1 where p: "prepare fading_session select_i1 sample_report fading_start = (Inr (Inr orch), s1)"
    "run orch s1 = Some (Inr QueueDrained, s1)" using fading_prepared by blast
  from selected_batch_drained [OF fading_ok fading_selected p] p show ?thesis by auto
qed

end
