(* ===== verification/Configured.thy ===== *)
theory Configured
  imports Selection Recovery
begin

text \<open>
  \<open>src/draindeck_dashboard/configured_issues.py\<close>, the lookups of \<open>repositories.py\<close> and
  \<open>worktree_preflight.py\<close>: what the dashboard reads before it plans a run. The tables the dashboard
  owns are the state; the file system, git, child processes and the configuration loader are a host
  whose every call may fail the way the code handles (\<open>Failed\<close>) or in a way it does not, the death of
  the dashboard included (\<open>Died\<close>). Messages of errors are not modelled, their codes are.
\<close>

section \<open>The host\<close>

datatype fault = Failed | Died

type_synonym ('w, 'a) call = "'w \<Rightarrow> (fault + 'a) \<times> 'w"

record target_config =
  cfg_repository :: string
  cfg_issues_file :: string
  cfg_event_log :: string
  cfg_auth_mode :: string
  cfg_budget :: "int \<times> int \<times> string"

datatype issues_node = NoFile | NotRegular | RegularFile string

text \<open>
  \<open>canonical_path\<close> is \<open>os.path.normcase(str(Path(p).resolve()))\<close>; \<open>cfg_event_log\<close> is what
  \<open>resolve_event_log_path\<close> returns for the configuration. \<open>read_model\<close>, \<open>issue_rows\<close> and
  \<open>run_rows\<close> are the tables the indexer writes: the generation and status of a repository's read
  model, the issue states of a generation, and the outcome of a run of the current generation.
  \<open>process_probe\<close> fails where the Windows API cannot be loaded. \<open>drained\<close> holds the chunks the two
  threads have read so far from the output streams of a child.
\<close>

record 'w host =
  load_config :: "string \<Rightarrow> ('w, target_config) call"
  canonical_path :: "'w \<Rightarrow> string \<Rightarrow> string"
  absolute_path :: "string \<Rightarrow> bool"
  join_path :: "string \<Rightarrow> string \<Rightarrow> string"
  issues_node :: "string \<Rightarrow> ('w, issues_node) call"
  hash_bytes :: "string \<Rightarrow> string"
  utf8_text :: "string \<Rightarrow> string option"
  read_model :: "int \<Rightarrow> 'w \<Rightarrow> (int \<times> string) option"
  issue_rows :: "int \<Rightarrow> int \<Rightarrow> 'w \<Rightarrow> (string \<times> string) list"
  run_rows :: "int \<Rightarrow> string \<Rightarrow> 'w \<Rightarrow> string option option"
  worktree_status :: "string \<Rightarrow> ('w, bool \<times> nat) call"
  process_probe :: "int \<Rightarrow> ('w, string \<times> string option \<times> int) call"
  popen :: "string list \<Rightarrow> (string \<times> string) list \<Rightarrow> ('w, int) call"
  poll :: "int \<Rightarrow> ('w, int option) call"
  drained :: "int \<Rightarrow> 'w \<Rightarrow> string list \<times> string list"
  host_environ :: "'w \<Rightarrow> (string \<times> string) list"
  clock :: "'w \<Rightarrow> string"

section \<open>The dashboard's own tables\<close>

record registration =
  reg_id :: int
  project_path :: string
  log_path :: "string option"
  registered_at :: string
  config_path :: "string option"

datatype cmd_status =
    QUEUED | CLAIMED | LAUNCHED | LAUNCH_FAILED | LAUNCH_OWNERSHIP_UNKNOWN | REFUSED
  | COMPLETED | ABNORMAL_EXIT | ACKNOWLEDGED | CANCELLED

text \<open>Which message the column \<open>refusal_reason\<close> holds.\<close>

datatype refusal =
    RefusedBy string
  | SelectionStale
  | WorktreeDirty
  | AmbiguousClaim
  | ExecutableFailed
  | ExitedWith int nat nat
  | ExitedUnwatched
  | AcknowledgedByOperator
  | CancelledByOperator

text \<open>
  A row of \<open>run_commands\<close>. The two JSON columns hold the values they are written from:
  \<open>cmd_request\<close> the mode, the sorted issue identifiers and the digest of the request.
\<close>

type_synonym run_request = "string \<times> string list option \<times> string"

record command =
  cmd_id :: int
  cmd_repo :: int
  cmd_mode :: string
  cmd_issue_ids :: "string list option"
  cmd_digest :: string
  cmd_key :: string
  cmd_request :: run_request
  cmd_status :: cmd_status
  cmd_refusal :: "refusal option"
  process_pid :: "int option"
  process_creation_time :: "string option"
  run_id_correlation :: "string option"
  created_at :: string
  claimed_at :: "string option"
  finished_at :: "string option"

text \<open>
  \<open>command_seq\<close> is the sequence of the \<open>AUTOINCREMENT\<close> identifier, \<open>commands\<close> the rows in
  the order of their identifiers, \<open>queue_pauses\<close> the repository, time and cancelled command of a
  pause. \<open>live\<close> is the process's own table of handles. \<open>spawned\<close> is a ghost: the repository and
  command of every process ever started, in order.
\<close>

record 'w dash =
  registrations :: "registration list"
  commands :: "command list"
  command_seq :: int
  queue_pauses :: "(int \<times> string \<times> int) list"
  live :: "(int \<times> int) list"
  spawned :: "(int \<times> int) list"
  d_world :: 'w

text \<open>\<open>ApiError\<close> carries the code of a \<open>DashboardApiError\<close>; \<open>Unhandled\<close> is any other exception.\<close>

datatype queue_error = ApiError string | BatchRefused plan_result | Unhandled

type_synonym ('w, 'a) dprog = "('w dash, queue_error, 'a) prog"

text \<open>A call of the host: \<open>None\<close> where it failed as the code expects.\<close>

definition host_call :: "('w, 'a) call \<Rightarrow> ('w, 'a option) dprog" where
  "host_call f = (\<lambda>s. case f (d_world s) of
     (Inr a, w) \<Rightarrow> (Inr (Some a), s\<lparr>d_world := w\<rparr>)
   | (Inl Failed, w) \<Rightarrow> (Inr None, s\<lparr>d_world := w\<rparr>)
   | (Inl Died, w) \<Rightarrow> (Inl Unhandled, s\<lparr>d_world := w\<rparr>))"

definition or_raise :: "string \<Rightarrow> 'a option \<Rightarrow> ('w, 'a) dprog" where
  "or_raise code x = (case x of None \<Rightarrow> throw (ApiError code) | Some a \<Rightarrow> ret a)"

definition refuse_when :: "bool \<Rightarrow> string \<Rightarrow> ('w, unit) dprog" where
  "refuse_when b code = (if b then throw (ApiError code) else ret ())"

section \<open>Repositories\<close>

definition get_repository :: "int \<Rightarrow> ('w, registration) dprog" where
  "get_repository repo = andthen (gets (\<lambda>s. List.find (\<lambda>r. reg_id r = repo) (registrations s))) (or_raise ''NOT_FOUND'')"

text \<open>The registered configuration, loaded.\<close>

definition registered_config :: "'w host \<Rightarrow> int \<Rightarrow> ('w, registration \<times> string \<times> target_config) dprog" where
  "registered_config h repo =
     andthen (get_repository repo) (\<lambda>r.
     andthen (or_raise ''CONFIG_NOT_REGISTERED'' (config_path r)) (\<lambda>path.
     andthen (host_call (load_config h path)) (\<lambda>c.
     andthen (or_raise ''CONFIG_INVALID'' c) (\<lambda>cfg. ret (r, path, cfg)))))"

definition verify_config_matches_registration :: "'w host \<Rightarrow> target_config \<Rightarrow> registration \<Rightarrow> ('w, unit) dprog" where
  "verify_config_matches_registration h cfg r =
     andthen (gets (canonical_path h \<circ> d_world)) (\<lambda>canon.
     andthen (refuse_when (canon (cfg_repository cfg) \<noteq> canon (project_path r)) ''CONFIG_REPOSITORY_DRIFT'') (\<lambda>_.
     case log_path r of
       None \<Rightarrow> ret ()
     | Some registered \<Rightarrow> refuse_when (canon (cfg_event_log cfg) \<noteq> canon registered) ''CONFIG_LOG_PATH_DRIFT''))"

section \<open>Configured issues\<close>

record configured =
  configured_path :: string
  issues_file_path :: string
  issues_revision :: string
  parser_warning :: bool
  configured_budget :: "int \<times> int \<times> string"
  model_status :: string
  active_outside_file :: "string list"
  configured_issues :: "(issue_spec \<times> string) list"

definition resolve_issues_file :: "'w host \<Rightarrow> target_config \<Rightarrow> string" where
  "resolve_issues_file h cfg =
     (if absolute_path h (cfg_issues_file cfg) then cfg_issues_file cfg
      else join_path h (cfg_repository cfg) (cfg_issues_file cfg))"

lemma dropWhile_shorter: "dropWhile P s = c # rest \<Longrightarrow> length rest < length s"
  using length_dropWhile_le [of P s] by simp

text \<open>The expression \<open>^[ \t]*[-*][ \t]+Depends-On\s*:\<close>, ignoring case, at any line start.\<close>

function line_starts :: "string \<Rightarrow> string list" where
  "line_starts s = s # (case dropWhile (\<lambda>c. c \<noteq> LF) s of [] \<Rightarrow> [] | _ # rest \<Rightarrow> line_starts rest)"
  by pat_completeness auto

termination
  by (relation "measure length") (auto dest: dropWhile_shorter)

abbreviation blank :: "char \<Rightarrow> bool" where
  "blank c \<equiv> c = SP \<or> c = CHR 0x09"

definition bulleted_depends_on_at :: "string \<Rightarrow> bool" where
  "bulleted_depends_on_at s = (case dropWhile blank s of
     mark # b # rest \<Rightarrow> mark \<in> set ''-*'' \<and> blank b \<and>
       (let name = dropWhile blank rest
        in lower (take 10 name) = ''depends-on'' \<and> starts_with '':'' (dropWhile py_space (drop 10 name)))
   | _ \<Rightarrow> False)"

definition bulleted_depends_on :: "string \<Rightarrow> bool" where
  "bulleted_depends_on t = list_ex bulleted_depends_on_at (line_starts t)"

text \<open>The states of the issues of the file, and the active issues the file does not list.\<close>

definition indexed_states :: "issue_spec list \<Rightarrow> (string \<times> string) list \<Rightarrow> (issue_spec \<times> string) list \<times> string list" where
  "indexed_states ss rows =
     (let states = dict_of rows
      in (map (\<lambda>s. (s, case map_of states (spec_id s) of None \<Rightarrow> ''NOT_INGESTED'' | Some st \<Rightarrow> st)) ss,
          sort (filter (\<lambda>i. i \<notin> set (map spec_id ss)) (keys (filter (\<lambda>(i, st). st = ''ACTIVE'') states)))))"

text \<open>The bytes of the file, its text, and the issues it lists.\<close>

definition read_issues_file :: "'w host \<Rightarrow> string \<Rightarrow> ('w, string \<times> string \<times> issue_spec list) dprog" where
  "read_issues_file h file =
     andthen (host_call (issues_node h file)) (\<lambda>read.
     andthen (or_raise ''ISSUES_FILE_UNREADABLE'' read) (\<lambda>node.
     case node of
       NoFile \<Rightarrow> throw (ApiError ''ISSUES_FILE_NOT_FOUND'')
     | NotRegular \<Rightarrow> throw (ApiError ''ISSUES_FILE_NOT_REGULAR_FILE'')
     | RegularFile raw \<Rightarrow>
         andthen (or_raise ''ISSUES_FILE_INVALID_UTF8'' (utf8_text h raw)) (\<lambda>text.
         case parse_issues text of
           Inl _ \<Rightarrow> throw (ApiError ''ISSUES_PARSE_ERROR'')
         | Inr ss \<Rightarrow> ret (raw, text, ss))))"

text \<open>The answer; without a ready index every state is unavailable.\<close>

definition configured_from ::
  "'w host \<Rightarrow> int \<Rightarrow> string \<Rightarrow> target_config \<Rightarrow> string \<times> string \<times> issue_spec list \<Rightarrow> 'w \<Rightarrow> configured" where
  "configured_from h repo path cfg content w =
     (let (raw, text, ss) = content;
          model = read_model h repo w;
          (issues, outside) = (case model of
             Some (gen, ''READY'') \<Rightarrow> indexed_states ss (issue_rows h repo gen w)
           | _ \<Rightarrow> (map (\<lambda>s. (s, ''UNAVAILABLE'')) ss, []))
      in \<lparr>configured_path = path, issues_file_path = resolve_issues_file h cfg, issues_revision = hash_bytes h raw,
           parser_warning = bulleted_depends_on text, configured_budget = cfg_budget cfg,
           model_status = (case model of None \<Rightarrow> ''UNAVAILABLE'' | Some (_, st) \<Rightarrow> st),
           active_outside_file = outside, configured_issues = issues\<rparr>)"

definition get_configured_issues :: "'w host \<Rightarrow> int \<Rightarrow> ('w, configured) dprog" where
  "get_configured_issues h repo =
     andthen (registered_config h repo) (\<lambda>(r, path, cfg).
     andthen (verify_config_matches_registration h cfg r) (\<lambda>_.
     andthen (read_issues_file h (resolve_issues_file h cfg)) (\<lambda>content.
     gets (configured_from h repo path cfg content \<circ> d_world))))"

section \<open>The clean-worktree preflight\<close>

record preflight =
  pf_clean :: bool
  pf_blocking :: bool
  pf_untracked :: nat

text \<open>\<open>except Exception\<close> around the probe: whatever it raises, the tree is not clean.\<close>

definition evaluate_worktree_preflight :: "'w host \<Rightarrow> int \<Rightarrow> ('w, preflight) dprog" where
  "evaluate_worktree_preflight h repo =
     andthen (registered_config h repo) (\<lambda>(r, path, cfg).
     andthen (host_call (worktree_status h (cfg_repository cfg))) (\<lambda>st.
     case st of
       None \<Rightarrow> ret \<lparr>pf_clean = False, pf_blocking = True, pf_untracked = 0\<rparr>
     | Some (blocked, untracked) \<Rightarrow>
         ret \<lparr>pf_clean = (\<not> blocked \<and> untracked = 0), pf_blocking = blocked, pf_untracked = untracked\<rparr>))"

end
