(* ===== verification/RunQueue.thy ===== *)
theory RunQueue
  imports Configured
begin

text \<open>
  The dashboard's run queue: \<open>run_queue.py\<close> and \<open>run_launcher.py\<close> of \<open>src/draindeck_dashboard\<close>, the
  pass of \<open>queue_scheduler.py\<close>, the routes of \<open>app.py\<close> that act on the queue, and the process identity
  probe of \<open>src/runtime/workspace_lease.py\<close>. The handlers and the scheduler run on one event loop and
  never await inside an operation, so an operation is atomic apart from the host it calls; the
  preflight probe is the one the application always passes.
\<close>

section \<open>Rows\<close>

definition blocking_status :: "cmd_status \<Rightarrow> bool" where
  "blocking_status st \<longleftrightarrow> st \<in> {CLAIMED, LAUNCHED, LAUNCH_OWNERSHIP_UNKNOWN, ABNORMAL_EXIT}"

definition of_repo :: "int \<Rightarrow> (cmd_status \<Rightarrow> bool) \<Rightarrow> command \<Rightarrow> bool" where
  "of_repo repo P c \<longleftrightarrow> cmd_repo c = repo \<and> P (cmd_status c)"

definition find_command :: "int \<Rightarrow> command list \<Rightarrow> command option" where
  "find_command i cs = List.find (\<lambda>c. cmd_id c = i) cs"

text \<open>\<open>UPDATE run_commands SET ... WHERE id = ?\<close>.\<close>

definition update_command :: "int \<Rightarrow> (command \<Rightarrow> command) \<Rightarrow> ('w, unit) dprog" where
  "update_command i f = modify (\<lambda>s. s\<lparr>commands := map (\<lambda>c. if cmd_id c = i then f c else c) (commands s)\<rparr>)"

definition finish_command :: "'w host \<Rightarrow> int \<Rightarrow> cmd_status \<Rightarrow> refusal option \<Rightarrow> ('w, unit) dprog" where
  "finish_command h i st why = andthen (gets (clock h \<circ> d_world)) (\<lambda>now.
     update_command i (\<lambda>c. c\<lparr>cmd_status := st, finished_at := Some now,
       cmd_refusal := (case why of None \<Rightarrow> cmd_refusal c | Some _ \<Rightarrow> why)\<rparr>))"

record command_view =
  view_of :: command
  queue_position :: "nat option"
  runtime_outcome :: "string option"

definition resolve_runtime_outcome :: "'w host \<Rightarrow> int \<Rightarrow> string option \<Rightarrow> 'w \<Rightarrow> string option" where
  "resolve_runtime_outcome h repo rid w = (case rid of
     None \<Rightarrow> None
   | Some r \<Rightarrow> (case run_rows h repo r w of None \<Rightarrow> None | Some outcome \<Rightarrow> outcome))"

definition row_to_view :: "'w host \<Rightarrow> 'w dash \<Rightarrow> command \<Rightarrow> command_view" where
  "row_to_view h s c = \<lparr>view_of = c,
     queue_position = (if cmd_status c \<in> {QUEUED, CLAIMED}
       then Some (length (filter (\<lambda>d. of_repo (cmd_repo c) (\<lambda>st. st \<in> {QUEUED, CLAIMED}) d \<and> cmd_id d \<le> cmd_id c) (commands s)))
       else None),
     runtime_outcome = resolve_runtime_outcome h (cmd_repo c) (run_id_correlation c) (d_world s)\<rparr>"

definition get_command :: "'w host \<Rightarrow> int \<Rightarrow> ('w, command_view) dprog" where
  "get_command h i = andthen (gets (find_command i \<circ> commands)) (\<lambda>c.
     andthen (or_raise ''NOT_FOUND'' c) (\<lambda>c. gets (\<lambda>s. row_to_view h s c)))"

definition list_commands_for_repository :: "'w host \<Rightarrow> int \<Rightarrow> 'w dash \<Rightarrow> command_view list" where
  "list_commands_for_repository h repo s = map (row_to_view h s) (filter (of_repo repo (\<lambda>_. True)) (commands s))"

definition repository_has_active_command :: "int \<Rightarrow> 'w dash \<Rightarrow> bool" where
  "repository_has_active_command repo s = list_ex (of_repo repo blocking_status) (commands s)"

definition is_queue_paused :: "int \<Rightarrow> 'w dash \<Rightarrow> bool" where
  "is_queue_paused repo s = list_ex (\<lambda>p. fst p = repo) (queue_pauses s)"

definition next_queued :: "int \<Rightarrow> 'w dash \<Rightarrow> command option" where
  "next_queued repo s = List.find (of_repo repo (\<lambda>st. st = QUEUED)) (commands s)"

definition has_launchable_command :: "int \<Rightarrow> 'w dash \<Rightarrow> bool" where
  "has_launchable_command repo s \<longleftrightarrow>
     \<not> repository_has_active_command repo s \<and> \<not> is_queue_paused repo s \<and> next_queued repo s \<noteq> None"

definition clear_pause :: "int \<Rightarrow> 'w dash \<Rightarrow> 'w dash" where
  "clear_pause repo s = s\<lparr>queue_pauses := filter (\<lambda>p. fst p \<noteq> repo) (queue_pauses s)\<rparr>"

definition delete_commands_for_repository :: "int \<Rightarrow> ('w, unit) dprog" where
  "delete_commands_for_repository repo = modify (\<lambda>s.
     clear_pause repo (s\<lparr>commands := filter (\<lambda>c. cmd_repo c \<noteq> repo) (commands s)\<rparr>))"

section \<open>Planning\<close>

record run_plan =
  rp_result :: plan_result
  terminal_exclusions :: "(string \<times> string) list"
  to_run_count :: nat
  terminal_counts :: "(string \<times> nat) list"

text \<open>The states the planner sees: those of the index, then the active issues outside the file.\<close>

definition planner_states :: "configured \<Rightarrow> (string \<times> string) list" where
  "planner_states c =
     foldl (\<lambda>d i. AList.update i ''ACTIVE'' d)
       (dict_of (map (\<lambda>(s, st). (spec_id s, st))
          (filter (\<lambda>(_, st). st \<notin> {''NOT_INGESTED'', ''UNAVAILABLE''}) (configured_issues c))))
       (active_outside_file c)"

definition plan_run :: "'w host \<Rightarrow> int \<Rightarrow> string \<Rightarrow> string list option \<Rightarrow> string \<Rightarrow> ('w, run_plan) dprog" where
  "plan_run h repo md ids digest =
     andthen (get_configured_issues h repo) (\<lambda>c.
     andthen (refuse_when (issues_revision c \<noteq> digest) ''ISSUES_REVISION_CONFLICT'') (\<lambda>_.
     andthen (refuse_when (model_status c \<noteq> ''READY'') ''PROJECTION_UNAVAILABLE'') (\<lambda>_.
     let ss = map fst (configured_issues c);
         r = (if md = ''ALL'' then plan_run_all ss (planner_states c)
              else plan_selected ss (planner_states c) (case ids of None \<Rightarrow> [] | Some is \<Rightarrow> is));
         gone = (if md = ''ALL'' then excluded r else terminal_selected r)
     in ret \<lparr>rp_result = r, terminal_exclusions = gone, to_run_count = length (ordered_ids r),
          terminal_counts = map (\<lambda>st. (st, length (filter (\<lambda>e. snd e = st) gone)))
            [''DONE'', ''NEEDS_HUMAN'', ''NEEDS_DECOMPOSITION'']\<rparr>)))"

section \<open>Enqueueing\<close>

datatype enqueued = Enqueued command_view | NoOp "(string \<times> string) list"

definition normalized_request :: "string \<Rightarrow> string list option \<Rightarrow> string \<Rightarrow> run_request" where
  "normalized_request md ids digest =
     (md, (case ids of None \<Rightarrow> None | Some is \<Rightarrow> if is = [] then None else Some (sort is)), digest)"

definition find_key :: "int \<Rightarrow> string \<Rightarrow> 'w dash \<Rightarrow> command option" where
  "find_key repo key s = List.find (\<lambda>c. cmd_repo c = repo \<and> cmd_key c = key) (commands s)"

text \<open>A row with the key exists: the same request repeated, or the key reused.\<close>

definition repeated :: "'w host \<Rightarrow> run_request \<Rightarrow> command \<Rightarrow> ('w, enqueued) dprog" where
  "repeated h req c = (if cmd_request c \<noteq> req then throw (ApiError ''IDEMPOTENCY_KEY_REUSED'')
     else andthen (get_command h (cmd_id c)) (\<lambda>v. ret (Enqueued v)))"

definition new_command ::
  "int \<Rightarrow> int \<Rightarrow> string \<Rightarrow> string list option \<Rightarrow> string \<Rightarrow> string \<Rightarrow> run_request \<Rightarrow> string \<Rightarrow> command" where
  "new_command i repo md ids digest key req now = \<lparr>cmd_id = i, cmd_repo = repo, cmd_mode = md,
     cmd_issue_ids = ids, cmd_digest = digest, cmd_key = key, cmd_request = req, cmd_status = QUEUED,
     cmd_refusal = None, process_pid = None, process_creation_time = None, run_id_correlation = None,
     created_at = now, claimed_at = None, finished_at = None\<rparr>"

text \<open>The \<open>INSERT\<close>: the unique index on repository and key may refuse it, which the code then reads as a repeat.\<close>

definition insert_command ::
  "'w host \<Rightarrow> int \<Rightarrow> string \<Rightarrow> string list option \<Rightarrow> string \<Rightarrow> string \<Rightarrow> run_request \<Rightarrow> ('w, enqueued) dprog" where
  "insert_command h repo md ids digest key req =
     andthen (gets (clock h \<circ> d_world)) (\<lambda>now.
     andthen (gets (find_key repo key)) (\<lambda>dup.
     case dup of
       Some c \<Rightarrow> repeated h req c
     | None \<Rightarrow>
         andthen (gets (\<lambda>s. command_seq s + 1)) (\<lambda>i.
         andthen (modify (\<lambda>s. s\<lparr>command_seq := i,
           commands := commands s @ [new_command i repo md ids digest key req now]\<rparr>)) (\<lambda>_.
         andthen (get_command h i) (\<lambda>v. ret (Enqueued v))))))"

definition enqueue_command ::
  "'w host \<Rightarrow> int \<Rightarrow> string \<Rightarrow> string list option \<Rightarrow> string \<Rightarrow> string \<Rightarrow> ('w, enqueued) dprog" where
  "enqueue_command h repo md ids digest key =
     (let req = normalized_request md ids digest in
     andthen (gets (find_key repo key)) (\<lambda>existing.
     case existing of
       Some c \<Rightarrow> repeated h req c
     | None \<Rightarrow>
         andthen (plan_run h repo md ids digest) (\<lambda>plan.
         let r = rp_result plan in
         if \<not> plan_ok r then throw (BatchRefused r)
         else if ordered_ids r = [] then ret (NoOp (excluded r))
         else andthen (evaluate_worktree_preflight h repo) (\<lambda>pf.
              andthen (refuse_when (\<not> pf_clean pf) ''WORKTREE_NOT_CLEAN'') (\<lambda>_.
              insert_command h repo md (if md = ''SELECTED'' then Some (ordered_ids r) else None) digest key req)))))"

section \<open>Claiming\<close>

definition claim_next_launchable_command :: "'w host \<Rightarrow> int \<Rightarrow> ('w, command_view option) dprog" where
  "claim_next_launchable_command h repo =
     andthen (gets (\<lambda>s. (repository_has_active_command repo s, is_queue_paused repo s, next_queued repo s))) (\<lambda>(active, paused, nxt).
     if active \<or> paused then ret None
     else case nxt of
       None \<Rightarrow> ret None
     | Some c \<Rightarrow>
         andthen (gets (clock h \<circ> d_world)) (\<lambda>now.
         andthen (update_command (cmd_id c) (\<lambda>c. c\<lparr>cmd_status := CLAIMED, claimed_at := Some now\<rparr>)) (\<lambda>_.
         andthen (get_command h (cmd_id c)) (\<lambda>v. ret (Some v)))))"

text \<open>The plan of a claimed command; every typed refusal is a value here.\<close>

definition typed_error :: "queue_error \<Rightarrow> string option" where
  "typed_error e = (case e of ApiError code \<Rightarrow> Some code | BatchRefused _ \<Rightarrow> Some ''SELECTION_REFUSED'' | Unhandled \<Rightarrow> None)"

definition revalidate_claimed_command :: "'w host \<Rightarrow> command_view \<Rightarrow> ('w, command_view) dprog" where
  "revalidate_claimed_command h v =
     (let c = view_of v; refuse = (\<lambda>why. andthen (finish_command h (cmd_id c) REFUSED (Some why)) (\<lambda>_. get_command h (cmd_id c)))
      in andthen (catch (andthen (plan_run h (cmd_repo c) (cmd_mode c) (cmd_issue_ids c) (cmd_digest c)) (\<lambda>p. ret (Inr p)))
           (\<lambda>e. case typed_error e of None \<Rightarrow> throw e | Some code \<Rightarrow> ret (Inl code))) (\<lambda>planned.
      case planned of
        Inl code \<Rightarrow> refuse (RefusedBy code)
      | Inr p \<Rightarrow>
          let r = rp_result p in
          if \<not> plan_ok r then refuse SelectionStale
          else if ordered_ids r = [] then andthen (finish_command h (cmd_id c) COMPLETED None) (\<lambda>_. get_command h (cmd_id c))
          else andthen (evaluate_worktree_preflight h (cmd_repo c)) (\<lambda>pf.
               if \<not> pf_clean pf then refuse WorktreeDirty else ret v)))"

section \<open>Launching\<close>

definition build_runtime_launch_env :: "(string \<times> string) list \<Rightarrow> string \<Rightarrow> (string \<times> string) list" where
  "build_runtime_launch_env base auth =
     (let upper = map (\<lambda>c. if is_lower c then char_of (of_char c - 32 :: nat) else c);
          allowed = [''PATH'', ''SYSTEMROOT'', ''PATHEXT'', ''TEMP'', ''TMP'', ''WINDIR'', ''COMSPEC'',
            ''USERPROFILE'', ''HOMEDRIVE'', ''HOMEPATH'', ''APPDATA'', ''LOCALAPPDATA'', ''CLAUDE_CONFIG_DIR''];
          env = filter (\<lambda>(k, _). upper k \<in> set allowed) base
      in if auth = ''api_key'' then
           foldl (\<lambda>d (k, v). AList.update k v d) env (filter (\<lambda>(k, _). upper k = ''ANTHROPIC_API_KEY'') base)
         else foldl (\<lambda>d k. AList.delete k d) env
           [''ANTHROPIC_API_KEY'', ''ANTHROPIC_AUTH_TOKEN'', ''ANTHROPIC_BASE_URL''])"

definition build_launch_argv :: "string \<Rightarrow> string \<Rightarrow> string \<Rightarrow> string \<Rightarrow> string list option \<Rightarrow> string list" where
  "build_launch_argv exe path digest md ids =
     [exe, ''run'', ''--config'', path, ''--issues-digest'', digest] @
     (if md = ''ALL'' then [''--all-issues'']
      else concat (map (\<lambda>i. [''--issue'', i]) (case ids of None \<Rightarrow> [] | Some is \<Rightarrow> is)))"

definition launch_claimed_command :: "'w host \<Rightarrow> string \<Rightarrow> string \<Rightarrow> command_view \<Rightarrow> ('w, command_view) dprog" where
  "launch_claimed_command h exe path v =
     (let c = view_of v; i = cmd_id c in
     andthen (host_call (load_config h path)) (\<lambda>loaded.
     case loaded of
       None \<Rightarrow> throw Unhandled
     | Some cfg \<Rightarrow>
         andthen (gets (host_environ h \<circ> d_world)) (\<lambda>base.
         andthen (host_call (popen h (build_launch_argv exe path (cmd_digest c) (cmd_mode c) (cmd_issue_ids c))
           (build_runtime_launch_env base (cfg_auth_mode cfg)))) (\<lambda>child.
         case child of
           None \<Rightarrow> andthen (finish_command h i LAUNCH_FAILED (Some ExecutableFailed)) (\<lambda>_. get_command h i)
         | Some pid \<Rightarrow>
             andthen (modify (\<lambda>s. s\<lparr>spawned := spawned s @ [(cmd_repo c, i)]\<rparr>)) (\<lambda>_.
             andthen (host_call (process_probe h pid)) (\<lambda>seen.
             andthen (modify (\<lambda>s. s\<lparr>live := AList.update i pid (live s)\<rparr>)) (\<lambda>_.
             andthen (update_command i (\<lambda>c. c\<lparr>cmd_status := LAUNCHED, process_pid := Some pid,
               process_creation_time := Option.bind seen (\<lambda>(_, created, _). created)\<rparr>)) (\<lambda>_.
             get_command h i))))))))"

section \<open>The output of a child\<close>

abbreviation max_diagnostic_bytes :: nat where
  "max_diagnostic_bytes \<equiv> 4096"

record stream_counter =
  bytes_read :: nat
  head_buffer :: string

definition fresh_counter :: stream_counter where
  "fresh_counter = \<lparr>bytes_read = 0, head_buffer = []\<rparr>"

definition add_chunk :: "stream_counter \<Rightarrow> string \<Rightarrow> stream_counter" where
  "add_chunk k chunk = \<lparr>bytes_read = bytes_read k + length chunk,
     head_buffer = (if length (head_buffer k) < max_diagnostic_bytes
       then head_buffer k @ take (max_diagnostic_bytes - length (head_buffer k)) chunk else head_buffer k)\<rparr>"

definition drain_stream :: "string list \<Rightarrow> stream_counter" where
  "drain_stream chunks = foldl add_chunk fresh_counter chunks"

definition run_id_hint_prefix :: string where
  "run_id_hint_prefix = ''DRAINDECK_RUN_ID=''"

text \<open>The expression \<open>DRAINDECK_RUN_ID=(\S+)\<close> over bytes, leftmost.\<close>

abbreviation byte_space :: "char \<Rightarrow> bool" where
  "byte_space c \<equiv> c \<in> {SP, CHR 0x09, LF, CHR 0x0B, CHR 0x0C, CR}"

definition hint_at :: "string \<Rightarrow> string option" where
  "hint_at s = (let rid = takeWhile (\<lambda>c. \<not> byte_space c) (drop (length run_id_hint_prefix) s)
     in if starts_with run_id_hint_prefix s \<and> rid \<noteq> [] then Some rid else None)"

fun search_hint :: "string \<Rightarrow> string option" where
  "search_hint [] = None"
| "search_hint (c # s) = (case hint_at (c # s) of Some rid \<Rightarrow> Some rid | None \<Rightarrow> search_hint s)"

definition extract_correlation_hint :: "string \<Rightarrow> string option" where
  "extract_correlation_hint out = (case search_hint out of
     None \<Rightarrow> None
   | Some rid \<Rightarrow> if list_all (\<lambda>c. ord_of c < 128) rid then Some rid else None)"

definition confirm_correlated_run :: "'w host \<Rightarrow> int \<Rightarrow> string \<Rightarrow> 'w \<Rightarrow> bool" where
  "confirm_correlated_run h repo rid w \<longleftrightarrow> run_rows h repo rid w \<noteq> None"

text \<open>The hint of a child, once the index has it as a run.\<close>

definition confirmed_hint :: "'w host \<Rightarrow> int \<Rightarrow> string \<Rightarrow> 'w \<Rightarrow> string option" where
  "confirmed_hint h repo out w = (case extract_correlation_hint out of
     None \<Rightarrow> None
   | Some rid \<Rightarrow> if confirm_correlated_run h repo rid w then Some rid else None)"

section \<open>Process identity\<close>

definition probe_controller_identity :: "'w host \<Rightarrow> int option \<Rightarrow> string option \<Rightarrow> ('w, controller_state) dprog" where
  "probe_controller_identity h pid creation = (case (pid, creation) of
     (Some p, Some created) \<Rightarrow>
       if p < 1 \<or> created = [] then ret UNKNOWN
       else andthen (host_call (process_probe h p)) (\<lambda>seen.
         case seen of
           None \<Rightarrow> ret UNKNOWN
         | Some (observed, current, _) \<Rightarrow>
             if observed = ''dead'' then ret DEAD
             else if observed \<noteq> ''live'' \<or> current = None \<or> current = Some [] then ret UNKNOWN
             else if current = Some created then ret LIVE_MATCH
             else ret PID_REUSED)
   | _ \<Rightarrow> ret UNKNOWN)"

section \<open>Reconciling a launched command\<close>

definition exited :: "'w host \<Rightarrow> command \<Rightarrow> int \<Rightarrow> ('w, unit) dprog" where
  "exited h c code =
     andthen (modify (\<lambda>s. s\<lparr>live := AList.delete (cmd_id c) (live s)\<rparr>)) (\<lambda>_.
     andthen (gets d_world) (\<lambda>w.
     let (out, err) = drained h (cmd_id c) w;
         rid = confirmed_hint h (cmd_repo c) (head_buffer (drain_stream out)) w
     in andthen (gets (clock h \<circ> d_world)) (\<lambda>now.
        update_command (cmd_id c) (\<lambda>c. (if code = 0 then c\<lparr>cmd_status := COMPLETED\<rparr>
            else c\<lparr>cmd_status := ABNORMAL_EXIT,
              cmd_refusal := Some (ExitedWith code (bytes_read (drain_stream out)) (bytes_read (drain_stream err)))\<rparr>)
          \<lparr>finished_at := Some now, run_id_correlation := rid\<rparr>))))"

text \<open>Without a handle the exit code is unknown, and the row keeps its finishing time.\<close>

definition reconcile_launched_command :: "'w host \<Rightarrow> command \<Rightarrow> ('w, unit) dprog" where
  "reconcile_launched_command h c =
     (if cmd_status c \<noteq> LAUNCHED then ret ()
      else andthen (gets (\<lambda>s. map_of (live s) (cmd_id c))) (\<lambda>handle.
      case handle of
        Some pid \<Rightarrow>
          andthen (host_call (poll h pid)) (\<lambda>polled.
          case polled of
            Some (Some code) \<Rightarrow> exited h c code
          | Some None \<Rightarrow> ret ()
          | None \<Rightarrow> throw Unhandled)
      | None \<Rightarrow>
          andthen (probe_controller_identity h (process_pid c) (process_creation_time c)) (\<lambda>st.
          if st \<in> {DEAD, PID_REUSED} then
            update_command (cmd_id c) (\<lambda>c. c\<lparr>cmd_status := ABNORMAL_EXIT, cmd_refusal := Some ExitedUnwatched\<rparr>)
          else ret ())))"

section \<open>Progress of a queue\<close>

definition launched_command :: "int \<Rightarrow> 'w dash \<Rightarrow> command option" where
  "launched_command repo s = List.find (of_repo repo (\<lambda>st. st = LAUNCHED)) (commands s)"

definition claim_and_launch :: "'w host \<Rightarrow> string \<Rightarrow> int \<Rightarrow> ('w, command_view option) dprog" where
  "claim_and_launch h exe repo =
     andthen (claim_next_launchable_command h repo) (\<lambda>claimed.
     case claimed of
       None \<Rightarrow> ret None
     | Some v \<Rightarrow>
         andthen (revalidate_claimed_command h v) (\<lambda>v.
         if cmd_status (view_of v) \<noteq> CLAIMED then ret (Some v)
         else andthen (get_repository repo) (\<lambda>r.
              case config_path r of
                None \<Rightarrow> throw Unhandled
              | Some path \<Rightarrow> andthen (launch_claimed_command h exe path v) (\<lambda>v. ret (Some v)))))"

text \<open>The preflight comes before the claim: a dirty worktree leaves the waiting command queued.\<close>

definition try_launch_next :: "'w host \<Rightarrow> string \<Rightarrow> int \<Rightarrow> ('w, command_view option) dprog" where
  "try_launch_next h exe repo =
     andthen (gets (launched_command repo)) (\<lambda>running.
     andthen (case running of None \<Rightarrow> ret () | Some c \<Rightarrow> reconcile_launched_command h c) (\<lambda>_.
     andthen (gets (has_launchable_command repo)) (\<lambda>launchable.
     andthen (if launchable then andthen (evaluate_worktree_preflight h repo) (\<lambda>pf. ret (pf_clean pf)) else ret True) (\<lambda>clean.
     if \<not> clean then ret None else claim_and_launch h exe repo))))"

text \<open>One pass of the scheduler; each repository's exceptions are swallowed.\<close>

definition scheduler_tick :: "'w host \<Rightarrow> string \<Rightarrow> ('w, unit) dprog" where
  "scheduler_tick h exe =
     andthen (gets (map reg_id \<circ> registrations)) (\<lambda>repos.
     andthen (for_each (\<lambda>repo. catch (andthen (try_launch_next h exe repo) (\<lambda>_. ret ())) (\<lambda>_. ret ())) repos) (\<lambda>_. ret ()))"

section \<open>Operator actions\<close>

definition command_of_repository :: "'w host \<Rightarrow> int \<Rightarrow> int \<Rightarrow> ('w, command_view) dprog" where
  "command_of_repository h repo i = andthen (get_command h i) (\<lambda>v.
     if cmd_repo (view_of v) \<noteq> repo then throw (ApiError ''NOT_FOUND'') else ret v)"

text \<open>The gates of an acknowledgement: the process, the correlated run, the target.\<close>

definition acknowledge_gates :: "'w host \<Rightarrow> int \<Rightarrow> command \<Rightarrow> ('w, unit) dprog" where
  "acknowledge_gates h repo c =
     andthen (probe_controller_identity h (process_pid c) (process_creation_time c)) (\<lambda>st.
     andthen (refuse_when (st \<noteq> DEAD) ''ACK_PROCESS_NOT_TERMINAL'') (\<lambda>_.
     andthen (gets (\<lambda>s. resolve_runtime_outcome h repo (run_id_correlation c) (d_world s))) (\<lambda>outcome.
     andthen (refuse_when (run_id_correlation c \<noteq> None \<and> outcome = None) ''ACK_RUN_NOT_TERMINAL'') (\<lambda>_.
     andthen (catch (get_configured_issues h repo)
       (\<lambda>e. if typed_error e = None then throw e else throw (ApiError ''ACK_TARGET_UNVERIFIABLE''))) (\<lambda>_. ret ())))))"

text \<open>The transaction that releases; the answer and whether the command had been acknowledged before.\<close>

definition acknowledge_flip :: "'w host \<Rightarrow> int \<Rightarrow> ('w, command_view \<times> bool) dprog" where
  "acknowledge_flip h i =
     andthen (gets (\<lambda>s. map_option cmd_status (find_command i (commands s)))) (\<lambda>current.
     andthen (whenever (current = Some ABNORMAL_EXIT) (finish_command h i ACKNOWLEDGED (Some AcknowledgedByOperator))) (\<lambda>_.
     andthen (get_command h i) (\<lambda>v.
     if cmd_status (view_of v) = ACKNOWLEDGED then ret (v, current \<noteq> Some ABNORMAL_EXIT)
     else throw (ApiError ''ACK_NOT_ABNORMAL''))))"

definition acknowledge_abnormal_command :: "'w host \<Rightarrow> int \<Rightarrow> int \<Rightarrow> ('w, command_view \<times> bool) dprog" where
  "acknowledge_abnormal_command h repo i =
     andthen (command_of_repository h repo i) (\<lambda>v.
     if cmd_status (view_of v) = ACKNOWLEDGED then ret (v, True) else
     andthen (refuse_when (cmd_status (view_of v) \<noteq> ABNORMAL_EXIT) ''ACK_NOT_ABNORMAL'') (\<lambda>_.
     andthen (acknowledge_gates h repo (view_of v)) (\<lambda>_. acknowledge_flip h i)))"

definition cancel_queued_command :: "'w host \<Rightarrow> int \<Rightarrow> int \<Rightarrow> ('w, command_view) dprog" where
  "cancel_queued_command h repo i =
     andthen (command_of_repository h repo i) (\<lambda>v.
     andthen (refuse_when (cmd_status (view_of v) \<noteq> QUEUED) ''CANCEL_NOT_QUEUED'') (\<lambda>_.
     andthen (gets (clock h \<circ> d_world)) (\<lambda>now.
     andthen (gets (\<lambda>s. map_option cmd_status (find_command i (commands s)) = Some QUEUED)) (\<lambda>changed.
     if \<not> changed then throw (ApiError ''CANCEL_NOT_QUEUED'') else
     andthen (finish_command h i CANCELLED (Some CancelledByOperator)) (\<lambda>_.
     andthen (modify (\<lambda>s. if is_queue_paused repo s then s
       else s\<lparr>queue_pauses := queue_pauses s @ [(repo, now, i)]\<rparr>)) (\<lambda>_.
     get_command h i))))))"

definition reconcile_ambiguous_claims_on_startup :: "'w dash \<Rightarrow> 'w dash" where
  "reconcile_ambiguous_claims_on_startup s = s\<lparr>commands := map (\<lambda>c.
     if cmd_status c = CLAIMED then c\<lparr>cmd_status := LAUNCH_OWNERSHIP_UNKNOWN, cmd_refusal := Some AmbiguousClaim\<rparr>
     else c) (commands s)\<rparr>"

section \<open>The routes\<close>

text \<open>The validators of the request body, then the bounds; \<open>ValueError\<close> of a validator is a 422 of the framework.\<close>

definition utf8_length :: "string \<Rightarrow> nat" where
  "utf8_length s = sum_list (map (\<lambda>c. if ord_of c < 128 then 1 else 2) s)"

definition check_run_request_bounds :: "string \<Rightarrow> string list option \<Rightarrow> ('w, unit) dprog" where
  "check_run_request_bounds md ids =
     (let is = (case ids of None \<Rightarrow> [] | Some is \<Rightarrow> is) in
     andthen (refuse_when (md = ''ALL'' \<and> ids \<noteq> None) ''RUN_ALL_REJECTS_ISSUE_IDS'') (\<lambda>_.
     andthen (refuse_when (md = ''SELECTED'' \<and> 500 < length is) ''TOO_MANY_ISSUE_IDS'') (\<lambda>_.
     refuse_when (md = ''SELECTED'' \<and> list_ex (\<lambda>i. 200 < utf8_length i) is) ''ISSUE_ID_TOO_LONG'')))"

definition run_mode_request_ok :: "string \<Rightarrow> string \<Rightarrow> bool" where
  "run_mode_request_ok md digest \<longleftrightarrow> md \<in> {''SELECTED'', ''ALL''} \<and> length digest = 64 \<and> digest = lower digest \<and>
     list_all (\<lambda>c. c \<in> set ''0123456789abcdef'') digest"

definition create_run_command ::
  "'w host \<Rightarrow> string \<Rightarrow> int \<Rightarrow> string \<Rightarrow> string list option \<Rightarrow> string \<Rightarrow> string \<Rightarrow> ('w, enqueued) dprog" where
  "create_run_command h exe repo md ids digest key =
     andthen (refuse_when (\<not> run_mode_request_ok md digest) ''VALIDATION_ERROR'') (\<lambda>_.
     andthen (check_run_request_bounds md ids) (\<lambda>_.
     andthen (refuse_when (key = [] \<or> 200 < length key) ''INVALID_IDEMPOTENCY_KEY'') (\<lambda>_.
     andthen (enqueue_command h repo md ids digest key) (\<lambda>r.
     andthen (try_launch_next h exe repo) (\<lambda>_.
     case r of
       NoOp gone \<Rightarrow> ret r
     | Enqueued v \<Rightarrow> andthen (get_command h (cmd_id (view_of v))) (\<lambda>v. ret (Enqueued v)))))))"

text \<open>The answer: whether a waiting command was deferred because the worktree is not clean.\<close>

definition resume_run_command_queue :: "'w host \<Rightarrow> string \<Rightarrow> int \<Rightarrow> ('w, bool) dprog" where
  "resume_run_command_queue h exe repo =
     andthen (get_repository repo) (\<lambda>_.
     andthen (modify (clear_pause repo)) (\<lambda>_.
     andthen (try_launch_next h exe repo) (\<lambda>_.
     andthen (gets (has_launchable_command repo)) (\<lambda>launchable.
     if \<not> launchable then ret False
     else andthen (evaluate_worktree_preflight h repo) (\<lambda>pf. ret (\<not> pf_clean pf))))))"

definition drain_run_commands :: "'w host \<Rightarrow> string \<Rightarrow> int \<Rightarrow> ('w, command_view option) dprog" where
  "drain_run_commands h exe repo = andthen (get_repository repo) (\<lambda>_. try_launch_next h exe repo)"

definition delete_repository :: "int \<Rightarrow> ('w, unit) dprog" where
  "delete_repository repo = andthen (get_repository repo) (\<lambda>_.
     modify (\<lambda>s. s\<lparr>registrations := filter (\<lambda>r. reg_id r \<noteq> repo) (registrations s)\<rparr>))"

definition remove_repository :: "int \<Rightarrow> ('w, unit) dprog" where
  "remove_repository repo =
     andthen (gets (repository_has_active_command repo)) (\<lambda>active.
     andthen (refuse_when active ''REPOSITORY_HAS_ACTIVE_RUN'') (\<lambda>_.
     andthen (delete_commands_for_repository repo) (\<lambda>_.
     delete_repository repo)))"

end
