(* ===== verification/QueueMoves.thy ===== *)
theory QueueMoves
  imports RunQueue
begin

text \<open>
  The contract of the run queue: the moves a command and its repository may make, as a relation on the
  dashboard's state, and the invariant they keep. The operations of the code are shown to be sequences
  of these moves elsewhere.
\<close>

section \<open>Moves\<close>

abbreviation update_rows :: "int \<Rightarrow> (command \<Rightarrow> command) \<Rightarrow> command list \<Rightarrow> command list" where
  "update_rows i f cs \<equiv> map (\<lambda>c. if cmd_id c = i then f c else c) cs"

text \<open>The columns no update writes.\<close>

definition same_request :: "command \<Rightarrow> command \<Rightarrow> bool" where
  "same_request c d \<longleftrightarrow> cmd_id c = cmd_id d \<and> cmd_repo c = cmd_repo d \<and> cmd_mode c = cmd_mode d \<and>
     cmd_issue_ids c = cmd_issue_ids d \<and> cmd_digest c = cmd_digest d \<and> cmd_key c = cmd_key d \<and>
     cmd_request c = cmd_request d \<and> created_at c = created_at d"

definition statuses :: "(command \<Rightarrow> command) \<Rightarrow> cmd_status \<Rightarrow> bool" where
  "statuses f st \<longleftrightarrow> (\<forall>c. same_request (f c) c \<and> cmd_status (f c) = st)"

text \<open>How a command that holds its repository may let go of it, or be kept.\<close>

definition settles :: "cmd_status \<Rightarrow> cmd_status \<Rightarrow> bool" where
  "settles st st' \<longleftrightarrow> (st, st') \<in> {(CLAIMED, REFUSED), (CLAIMED, COMPLETED), (CLAIMED, LAUNCH_FAILED),
     (LAUNCHED, COMPLETED), (LAUNCHED, ABNORMAL_EXIT), (ABNORMAL_EXIT, ACKNOWLEDGED)}"

text \<open>Nobody resumes or unregisters the repositories of \<open>R\<close>.\<close>

inductive qmove :: "int set \<Rightarrow> 'w dash \<Rightarrow> 'w dash \<Rightarrow> bool" for R where
  outside: "qmove R s (s\<lparr>d_world := w, registrations := rs\<rparr>)"
| insert: "find_key repo key s = None \<Longrightarrow>
    qmove R s (s\<lparr>command_seq := command_seq s + 1,
      commands := commands s @ [new_command (command_seq s + 1) repo md ids digest key req now]\<rparr>)"
| claim: "has_launchable_command repo s \<Longrightarrow> next_queued repo s = Some c \<Longrightarrow> statuses f CLAIMED \<Longrightarrow>
    qmove R s (s\<lparr>commands := update_rows (cmd_id c) f (commands s)\<rparr>)"
| settle: "c \<in> set (commands s) \<Longrightarrow> settles (cmd_status c) st \<Longrightarrow> map_of (live s) (cmd_id c) = None \<Longrightarrow> statuses f st \<Longrightarrow>
    qmove R s (s\<lparr>commands := update_rows (cmd_id c) f (commands s)\<rparr>)"
| spawn: "c \<in> set (commands s) \<Longrightarrow> cmd_status c = CLAIMED \<Longrightarrow> (cmd_repo c, cmd_id c) \<notin> set (spawned s) \<Longrightarrow>
    qmove R s (s\<lparr>spawned := spawned s @ [(cmd_repo c, cmd_id c)]\<rparr>)"
| launch: "c \<in> set (commands s) \<Longrightarrow> cmd_status c = CLAIMED \<Longrightarrow> (cmd_repo c, cmd_id c) \<in> set (spawned s) \<Longrightarrow>
    statuses f LAUNCHED \<Longrightarrow> (\<And>d. process_pid (f d) = Some pid) \<Longrightarrow>
    qmove R s (s\<lparr>live := AList.update (cmd_id c) pid (live s),
      commands := update_rows (cmd_id c) f (commands s)\<rparr>)"
| forget: "qmove R s (s\<lparr>live := AList.delete i (live s)\<rparr>)"
| cancel: "c \<in> set (commands s) \<Longrightarrow> cmd_status c = QUEUED \<Longrightarrow> statuses f CANCELLED \<Longrightarrow>
    is_queue_paused (cmd_repo c) (s\<lparr>queue_pauses := ps\<rparr>) \<Longrightarrow>
    (\<And>r. is_queue_paused r s \<Longrightarrow> is_queue_paused r (s\<lparr>queue_pauses := ps\<rparr>)) \<Longrightarrow>
    qmove R s (s\<lparr>commands := update_rows (cmd_id c) f (commands s), queue_pauses := ps\<rparr>)"
| resume: "repo \<notin> R \<Longrightarrow> qmove R s (clear_pause repo s)"
| unregister: "repo \<notin> R \<Longrightarrow> \<not> repository_has_active_command repo s \<Longrightarrow>
    qmove R s (clear_pause repo (s\<lparr>commands := filter (\<lambda>c. cmd_repo c \<noteq> repo) (commands s)\<rparr>))"
| restart: "qmove R s (reconcile_ambiguous_claims_on_startup (s\<lparr>live := []\<rparr>))"

section \<open>The invariant\<close>

text \<open>
  Identifiers grow; a repository has at most one command that holds it; processes are started in
  the order of the identifiers, so at most one per command; a handle belongs to a launched command.
\<close>

definition row_keys :: "command list \<Rightarrow> (int \<times> int \<times> string) list" where
  "row_keys cs = map (\<lambda>c. (cmd_id c, cmd_repo c, cmd_key c)) cs"

definition rows_ok :: "'w dash \<Rightarrow> bool" where
  "rows_ok s \<longleftrightarrow> sorted_wrt (<) (map fst (row_keys (commands s))) \<and> (\<forall>k \<in> set (row_keys (commands s)). fst k \<le> command_seq s) \<and>
     distinct (map snd (row_keys (commands s)))"

definition one_blocking :: "'w dash \<Rightarrow> bool" where
  "one_blocking s \<longleftrightarrow> (\<forall>c \<in> set (commands s). \<forall>d \<in> set (commands s). cmd_repo c = cmd_repo d \<longrightarrow>
     blocking_status (cmd_status c) \<longrightarrow> blocking_status (cmd_status d) \<longrightarrow> \<not> cmd_id c < cmd_id d)"

definition spawn_order :: "'w dash \<Rightarrow> bool" where
  "spawn_order s \<longleftrightarrow> sorted_wrt (\<lambda>(r, i) (r', j). r = r' \<longrightarrow> i < j) (spawned s) \<and>
     (\<forall>(r, i) \<in> set (spawned s). i \<le> command_seq s)"

definition fifo :: "'w dash \<Rightarrow> bool" where
  "fifo s \<longleftrightarrow> (\<forall>c \<in> set (commands s). \<forall>(r, i) \<in> set (spawned s). r = cmd_repo c \<longrightarrow>
       (cmd_status c = QUEUED \<longrightarrow> i < cmd_id c) \<and> (cmd_status c = CLAIMED \<longrightarrow> i \<le> cmd_id c)) \<and>
     (\<forall>c \<in> set (commands s). \<forall>d \<in> set (commands s). cmd_repo c = cmd_repo d \<longrightarrow> cmd_status c = CLAIMED \<longrightarrow>
       cmd_status d = QUEUED \<longrightarrow> cmd_id c < cmd_id d)"

definition handles_ok :: "'w dash \<Rightarrow> bool" where
  "handles_ok s \<longleftrightarrow> (\<forall>i pid. map_of (live s) i = Some pid \<longrightarrow>
     (\<exists>c \<in> set (commands s). cmd_id c = i \<and> cmd_status c = LAUNCHED \<and> process_pid c = Some pid))"

definition queue_inv :: "'w dash \<Rightarrow> bool" where
  "queue_inv s \<longleftrightarrow> rows_ok s \<and> one_blocking s \<and> spawn_order s \<and> fifo s \<and> handles_ok s"

lemmas queue_inv_defs = queue_inv_def rows_ok_def one_blocking_def spawn_order_def fifo_def handles_ok_def

lemma rows_okD:
  assumes "rows_ok s"
  shows "sorted_wrt (<) (map cmd_id (commands s))" "\<And>c. c \<in> set (commands s) \<Longrightarrow> cmd_id c \<le> command_seq s"
    "\<And>c d. c \<in> set (commands s) \<Longrightarrow> d \<in> set (commands s) \<Longrightarrow> cmd_id c = cmd_id d \<Longrightarrow> c = d"
proof -
  have m: "map fst (row_keys (commands s)) = map cmd_id (commands s)" by (simp add: row_keys_def)
  then show "sorted_wrt (<) (map cmd_id (commands s))" using assms by (simp add: rows_ok_def)
  then have "distinct (map cmd_id (commands s))" by (simp add: strict_sorted_iff)
  then show "c \<in> set (commands s) \<Longrightarrow> d \<in> set (commands s) \<Longrightarrow> cmd_id c = cmd_id d \<Longrightarrow> c = d" for c d
    by (simp add: distinct_map inj_on_def)
  show "c \<in> set (commands s) \<Longrightarrow> cmd_id c \<le> command_seq s" for c
    using assms by (auto simp: rows_ok_def row_keys_def)
qed

lemma find_command_in:
  "find_command i cs = Some c \<Longrightarrow> c \<in> set cs \<and> cmd_id c = i"
  by (auto simp: find_command_def dest: find_SomeD)

lemma next_queued_least:
  assumes "rows_ok s" and "next_queued repo s = Some c"
  shows "c \<in> set (commands s)" "cmd_repo c = repo" "cmd_status c = QUEUED"
    "\<And>d. d \<in> set (commands s) \<Longrightarrow> cmd_repo d = repo \<Longrightarrow> cmd_status d = QUEUED \<Longrightarrow> cmd_id c \<le> cmd_id d"
proof -
  obtain k where k: "k < length (commands s)" "c = commands s ! k" "of_repo repo (\<lambda>st. st = QUEUED) c"
    "\<forall>j < k. \<not> of_repo repo (\<lambda>st. st = QUEUED) (commands s ! j)"
    using assms(2) by (auto simp: next_queued_def find_Some_iff)
  show "c \<in> set (commands s)" "cmd_repo c = repo" "cmd_status c = QUEUED" using k by (auto simp: of_repo_def)
  fix d assume d: "d \<in> set (commands s)" "cmd_repo d = repo" "cmd_status d = QUEUED"
  then obtain j where j: "j < length (commands s)" "d = commands s ! j" by (auto simp: in_set_conv_nth)
  then have "k \<le> j" using k(4) d by (force simp: of_repo_def not_less)
  then show "cmd_id c \<le> cmd_id d"
    using rows_okD(1) [OF assms(1)] j k(1,2) sorted_wrt_nth_less [of "(<)" "map cmd_id (commands s)" k j]
    by (cases "k = j") auto
qed

text \<open>An update that writes no request column keeps the rows well formed.\<close>

lemma update_rows_old:
  assumes "c' \<in> set (update_rows i f cs)" and "\<And>c. same_request (f c) c"
  shows "\<exists>c \<in> set cs. same_request c' c \<and> (cmd_id c = i \<longrightarrow> c' = f c) \<and> (cmd_id c \<noteq> i \<longrightarrow> c' = c)"
proof -
  obtain c where c: "c \<in> set cs" "c' = (if cmd_id c = i then f c else c)" using assms(1) by auto
  have "same_request c' c" using assms(2) [of c] c(2) by (simp add: same_request_def)
  then show ?thesis using c by auto
qed

lemma update_rows_keys:
  assumes "\<And>c. same_request (f c) c"
  shows "row_keys (update_rows i f cs) = row_keys cs"
proof -
  have "(cmd_id (f c), cmd_repo (f c), cmd_key (f c)) = (cmd_id c, cmd_repo c, cmd_key c)" for c
    using assms [of c] by (simp add: same_request_def)
  then show ?thesis by (induction cs) (auto simp: row_keys_def)
qed

lemma update_rows_ok:
  assumes "rows_ok s" and "\<And>c. same_request (f c) c" and "commands s' = update_rows i f (commands s)"
    and "command_seq s' = command_seq s"
  shows "rows_ok s'"
  using assms(1) unfolding rows_ok_def assms(3,4) update_rows_keys [OF assms(2)] .

lemma statuses_same: "statuses f st \<Longrightarrow> same_request (f c) c"
  by (simp add: statuses_def)

text \<open>After the row of \<open>c\<close> was given the status \<open>st\<close>, a row is that row, or another one as it was.\<close>

lemma rows_after:
  assumes "rows_ok s" and "c \<in> set (commands s)" and "statuses f st"
    and "c' \<in> set (update_rows (cmd_id c) f (commands s))"
  shows "c' = f c \<and> cmd_status c' = st \<and> cmd_id c' = cmd_id c \<and> cmd_repo c' = cmd_repo c \<or>
    c' \<in> set (commands s) \<and> cmd_id c' \<noteq> cmd_id c"
proof -
  obtain c0 where c0: "c0 \<in> set (commands s)" "cmd_id c0 = cmd_id c \<longrightarrow> c' = f c0" "cmd_id c0 \<noteq> cmd_id c \<longrightarrow> c' = c0"
    using update_rows_old [OF assms(4) statuses_same [OF assms(3)]] by blast
  show ?thesis
  proof (cases "cmd_id c0 = cmd_id c")
    case True
    then have "c0 = c" using rows_okD(3) [OF assms(1) c0(1) assms(2)] by blast
    then show ?thesis using c0 assms(3) by (simp add: statuses_def same_request_def)
  qed (use c0 in auto)
qed

lemma one_blocking_update:
  assumes "rows_ok s" "one_blocking s" and c: "c \<in> set (commands s)" and f: "statuses f st"
    and s': "commands s' = update_rows (cmd_id c) f (commands s)"
    and b: "blocking_status st \<Longrightarrow> blocking_status (cmd_status c) \<or> \<not> repository_has_active_command (cmd_repo c) s"
  shows "one_blocking s'"
  unfolding one_blocking_def s'
proof (intro ballI impI)
  fix d e
  assume d: "d \<in> set (update_rows (cmd_id c) f (commands s))" and e: "e \<in> set (update_rows (cmd_id c) f (commands s))"
    and r: "cmd_repo d = cmd_repo e" and bd: "blocking_status (cmd_status d)" and be: "blocking_status (cmd_status e)"
  have other: "\<not> blocking_status (cmd_status x) \<or> cmd_id x = cmd_id c"
    if "x \<in> set (commands s)" "cmd_repo x = cmd_repo c" "blocking_status st" for x
    using b [OF that(3)]
  proof
    assume "blocking_status (cmd_status c)"
    then show ?thesis using assms(2) that c unfolding one_blocking_def by (metis linorder_neqE)
  next
    assume "\<not> repository_has_active_command (cmd_repo c) s"
    then show ?thesis using that by (auto simp: repository_has_active_command_def list_ex_iff of_repo_def)
  qed
  show "\<not> cmd_id d < cmd_id e"
    using rows_after [OF assms(1) c f d] rows_after [OF assms(1) c f e]
  proof (elim disjE conjE)
    assume "d \<in> set (commands s)" "e \<in> set (commands s)"
    then show ?thesis using assms(2) r bd be by (simp add: one_blocking_def)
  next
    assume "cmd_status d = st" "cmd_repo d = cmd_repo c" "e \<in> set (commands s)" "cmd_id e \<noteq> cmd_id c"
    then show ?thesis using other [of e] r bd be by simp
  next
    assume "cmd_status e = st" "cmd_repo e = cmd_repo c" "d \<in> set (commands s)" "cmd_id d \<noteq> cmd_id c"
    then show ?thesis using other [of d] r bd be by simp
  qed simp
qed

text \<open>\<open>fifo\<close> looks at waiting and claimed rows only.\<close>

lemma fifo_fewer:
  assumes "fifo s" and "spawned s' = spawned s"
    and "\<And>d. d \<in> set (commands s') \<Longrightarrow> cmd_status d = QUEUED \<or> cmd_status d = CLAIMED \<Longrightarrow> d \<in> set (commands s)"
  shows "fifo s'"
  unfolding fifo_def assms(2)
proof (intro conjI ballI)
  fix c x assume "c \<in> set (commands s')" "x \<in> set (spawned s)"
  then show "case x of (r, i) \<Rightarrow> r = cmd_repo c \<longrightarrow> (cmd_status c = QUEUED \<longrightarrow> i < cmd_id c) \<and> (cmd_status c = CLAIMED \<longrightarrow> i \<le> cmd_id c)"
    using assms(1) assms(3) [of c] by (cases "cmd_status c = QUEUED \<or> cmd_status c = CLAIMED") (auto simp: fifo_def)
next
  fix c d assume "c \<in> set (commands s')" "d \<in> set (commands s')"
  then show "cmd_repo c = cmd_repo d \<longrightarrow> cmd_status c = CLAIMED \<longrightarrow> cmd_status d = QUEUED \<longrightarrow> cmd_id c < cmd_id d"
    using assms(1) assms(3) [of c] assms(3) [of d] unfolding fifo_def by blast
qed

lemma fifo_update:
  assumes "rows_ok s" "fifo s" and c: "c \<in> set (commands s)" and f: "statuses f st" and st: "st \<notin> {QUEUED, CLAIMED}"
    and s': "commands s' = update_rows (cmd_id c) f (commands s)" "spawned s' = spawned s"
  shows "fifo s'"
  by (rule fifo_fewer [OF assms(2) s'(2)])
    (use rows_after [OF assms(1) c f] st in \<open>unfold s'(1), blast\<close>)

lemma handles_update:
  assumes "rows_ok s" "handles_ok s" and c: "c \<in> set (commands s)" and "map_of (live s) (cmd_id c) = None"
    and s': "commands s' = update_rows (cmd_id c) f (commands s)" "live s' = live s"
  shows "handles_ok s'"
  unfolding handles_ok_def
proof (intro allI impI)
  fix i pid assume l: "map_of (live s') i = Some pid"
  then obtain d where d: "d \<in> set (commands s)" "cmd_id d = i" "cmd_status d = LAUNCHED" "process_pid d = Some pid"
    using assms(2) s'(2) by (auto simp: handles_ok_def)
  then have "cmd_id d \<noteq> cmd_id c" using l assms(4) s'(2) by auto
  then have "d \<in> set (commands s')" using d(1) s'(1) by force
  then show "\<exists>d \<in> set (commands s'). cmd_id d = i \<and> cmd_status d = LAUNCHED \<and> process_pid d = Some pid" using d by blast
qed

lemma no_handle:
  assumes "rows_ok s" "handles_ok s" "c \<in> set (commands s)" "cmd_status c \<noteq> LAUNCHED"
  shows "map_of (live s) (cmd_id c) = None"
proof (rule ccontr)
  assume "map_of (live s) (cmd_id c) \<noteq> None"
  then obtain d where "d \<in> set (commands s)" "cmd_id d = cmd_id c" "cmd_status d = LAUNCHED"
    using assms(2) by (auto simp: handles_ok_def)
  then show False using rows_okD(3) [OF assms(1) _ assms(3)] assms(4) by blast
qed

lemma insert_inv:
  assumes inv: "queue_inv s" and key: "find_key repo key s = None"
  shows "queue_inv (s\<lparr>command_seq := command_seq s + 1,
    commands := commands s @ [new_command (command_seq s + 1) repo md ids digest key req now]\<rparr>)"
    (is "queue_inv ?s")
proof -
  let ?n = "new_command (command_seq s + 1) repo md ids digest key req now"
  have n: "cmd_id ?n = command_seq s + 1" "cmd_repo ?n = repo" "cmd_key ?n = key" "cmd_status ?n = QUEUED"
    by (simp_all add: new_command_def)
  have ok: "rows_ok s" and bl: "one_blocking s" and so: "spawn_order s" and ff: "fifo s" and hd: "handles_ok s"
    using inv by (simp_all add: queue_inv_def)
  have small: "cmd_id c < command_seq s + 1" if "c \<in> set (commands s)" for c using rows_okD(2) [OF ok that] by simp
  have "(repo, key) \<notin> set (map snd (row_keys (commands s)))"
    using key by (auto simp: find_key_def find_None_all row_keys_def)
  then have "rows_ok ?s" using ok n by (auto simp: rows_ok_def row_keys_def sorted_wrt_append)
  moreover have "one_blocking ?s" using bl n(4) by (auto simp: one_blocking_def blocking_status_def)
  moreover have "spawn_order ?s" using so by (fastforce simp: spawn_order_def)
  moreover have "fifo ?s"
    unfolding fifo_def
  proof (intro conjI ballI)
    fix c x assume "c \<in> set (commands ?s)" "x \<in> set (spawned ?s)"
    then show "case x of (r, i) \<Rightarrow> r = cmd_repo c \<longrightarrow> (cmd_status c = QUEUED \<longrightarrow> i < cmd_id c) \<and> (cmd_status c = CLAIMED \<longrightarrow> i \<le> cmd_id c)"
      using ff so n by (auto simp: fifo_def spawn_order_def)
  next
    fix c d assume "c \<in> set (commands ?s)" "d \<in> set (commands ?s)"
    then show "cmd_repo c = cmd_repo d \<longrightarrow> cmd_status c = CLAIMED \<longrightarrow> cmd_status d = QUEUED \<longrightarrow> cmd_id c < cmd_id d"
      using ff n small by (auto simp: fifo_def)
  qed
  moreover have "handles_ok ?s" using hd by (fastforce simp: handles_ok_def)
  ultimately show ?thesis by (simp add: queue_inv_def)
qed

lemma claim_inv:
  assumes inv: "queue_inv s" and free: "has_launchable_command repo s" and nq: "next_queued repo s = Some c"
    and f: "statuses f CLAIMED"
  shows "queue_inv (s\<lparr>commands := update_rows (cmd_id c) f (commands s)\<rparr>)" (is "queue_inv ?s")
proof -
  have ok: "rows_ok s" and bl: "one_blocking s" and so: "spawn_order s" and ff: "fifo s" and hd: "handles_ok s"
    using inv by (simp_all add: queue_inv_def)
  note c = next_queued_least [OF ok nq]
  have idle: "\<not> repository_has_active_command (cmd_repo c) s" using free c(2) by (simp add: has_launchable_command_def)
  have "rows_ok ?s" by (rule update_rows_ok [OF ok, of f _ "cmd_id c"]) (simp_all add: statuses_same [OF f])
  moreover have "one_blocking ?s" by (rule one_blocking_update [OF ok bl c(1) f, of _]) (simp_all add: idle)
  moreover have "spawn_order ?s" using so by (simp add: spawn_order_def)
  moreover have "fifo ?s"
    unfolding fifo_def
  proof (intro conjI ballI impI)
    fix d x assume d: "d \<in> set (commands ?s)" "x \<in> set (spawned ?s)"
    then consider "cmd_status d = CLAIMED" "cmd_id d = cmd_id c" "cmd_repo d = cmd_repo c" | "d \<in> set (commands s)"
      using rows_after [OF ok c(1) f, of d] by auto
    then show "case x of (r, i) \<Rightarrow> r = cmd_repo d \<longrightarrow> (cmd_status d = QUEUED \<longrightarrow> i < cmd_id d) \<and> (cmd_status d = CLAIMED \<longrightarrow> i \<le> cmd_id d)"
    proof cases
      case 1
      then show ?thesis using ff c(1,3) d(2) by (fastforce simp: fifo_def)
    next
      case 2
      then show ?thesis using ff d(2) by (simp add: fifo_def)
    qed
  next
    fix d e assume d: "d \<in> set (commands ?s)" "e \<in> set (commands ?s)" "cmd_repo d = cmd_repo e"
      "cmd_status d = CLAIMED" "cmd_status e = QUEUED"
    then have e: "e \<in> set (commands s)" "cmd_id e \<noteq> cmd_id c" using rows_after [OF ok c(1) f, of e] by auto
    show "cmd_id d < cmd_id e"
      using rows_after [OF ok c(1) f, of d] d e ff c(2) c(4) [of e] by (auto simp: fifo_def)
  qed
  moreover have "handles_ok ?s"
    by (rule handles_update [OF ok hd c(1) no_handle [OF ok hd c(1)], of _ f]) (simp_all add: c(3))
  ultimately show ?thesis by (simp add: queue_inv_def)
qed

text \<open>Every other update of a status: the command is let go of, or was holding the repository already.\<close>

lemma settle_inv:
  assumes inv: "queue_inv s" and c: "c \<in> set (commands s)" and f: "statuses f st" and st: "st \<notin> {QUEUED, CLAIMED}"
    and b: "blocking_status st \<Longrightarrow> blocking_status (cmd_status c)" and l: "map_of (live s) (cmd_id c) = None"
    and s': "commands s' = update_rows (cmd_id c) f (commands s)" "command_seq s' = command_seq s"
      "spawned s' = spawned s" "live s' = live s"
  shows "queue_inv s'"
proof -
  have ok: "rows_ok s" and bl: "one_blocking s" and so: "spawn_order s" and ff: "fifo s" and hd: "handles_ok s"
    using inv by (simp_all add: queue_inv_def)
  have "rows_ok s'" by (rule update_rows_ok [OF ok _ s'(1,2)]) (rule statuses_same [OF f])
  moreover have "one_blocking s'" by (rule one_blocking_update [OF ok bl c f s'(1)]) (use b in blast)
  moreover have "spawn_order s'" using so s' by (simp add: spawn_order_def)
  moreover have "fifo s'" by (rule fifo_update [OF ok ff c f st s'(1,3)])
  moreover have "handles_ok s'" by (rule handles_update [OF ok hd c l s'(1,4)])
  ultimately show ?thesis by (simp add: queue_inv_def)
qed

lemma spawn_inv:
  assumes inv: "queue_inv s" and c: "c \<in> set (commands s)" "cmd_status c = CLAIMED"
    and new: "(cmd_repo c, cmd_id c) \<notin> set (spawned s)"
  shows "queue_inv (s\<lparr>spawned := spawned s @ [(cmd_repo c, cmd_id c)]\<rparr>)" (is "queue_inv ?s")
proof -
  have ok: "rows_ok s" and bl: "one_blocking s" and so: "spawn_order s" and ff: "fifo s" and hd: "handles_ok s"
    using inv by (simp_all add: queue_inv_def)
  have less: "i < cmd_id c" if "(cmd_repo c, i) \<in> set (spawned s)" for i
  proof -
    have "i \<le> cmd_id c" using ff c that by (fastforce simp: fifo_def)
    moreover have "i \<noteq> cmd_id c" using that new by auto
    ultimately show ?thesis by simp
  qed
  have "rows_ok ?s" "one_blocking ?s" "handles_ok ?s" using ok bl hd by (simp_all add: rows_ok_def one_blocking_def handles_ok_def)
  moreover have "spawn_order ?s"
    using so less rows_okD(2) [OF ok c(1)] by (auto simp: spawn_order_def sorted_wrt_append)
  moreover have "fifo ?s"
    unfolding fifo_def
  proof (intro conjI ballI)
    fix d x assume d: "d \<in> set (commands ?s)" "x \<in> set (spawned ?s)"
    have "\<not> cmd_id d < cmd_id c" if "cmd_repo d = cmd_repo c" "cmd_status d = CLAIMED"
      using bl d c that by (simp add: one_blocking_def blocking_status_def)
    moreover have "cmd_id c < cmd_id d" if "cmd_repo d = cmd_repo c" "cmd_status d = QUEUED"
      using ff d c that by (simp add: fifo_def)
    ultimately show "case x of (r, i) \<Rightarrow> r = cmd_repo d \<longrightarrow> (cmd_status d = QUEUED \<longrightarrow> i < cmd_id d) \<and> (cmd_status d = CLAIMED \<longrightarrow> i \<le> cmd_id d)"
      using d ff by (fastforce simp: fifo_def not_less)
  next
    fix d e assume "d \<in> set (commands ?s)" "e \<in> set (commands ?s)"
    then show "cmd_repo d = cmd_repo e \<longrightarrow> cmd_status d = CLAIMED \<longrightarrow> cmd_status e = QUEUED \<longrightarrow> cmd_id d < cmd_id e"
      using ff by (simp add: fifo_def)
  qed
  ultimately show ?thesis by (simp add: queue_inv_def)
qed

lemma launch_inv:
  assumes inv: "queue_inv s" and c: "c \<in> set (commands s)" "cmd_status c = CLAIMED" and f: "statuses f LAUNCHED"
    and pid: "\<And>d. process_pid (f d) = Some pid"
  shows "queue_inv (s\<lparr>live := AList.update (cmd_id c) pid (live s), commands := update_rows (cmd_id c) f (commands s)\<rparr>)"
    (is "queue_inv ?s")
proof -
  have ok: "rows_ok s" and hd: "handles_ok s" using inv by (simp_all add: queue_inv_def)
  let ?m = "s\<lparr>commands := update_rows (cmd_id c) f (commands s)\<rparr>"
  have "queue_inv ?m"
    by (rule settle_inv [OF inv c(1) f]) (simp_all add: blocking_status_def c(2) no_handle [OF ok hd c(1)])
  moreover have "handles_ok ?s"
    unfolding handles_ok_def
  proof (intro allI impI)
    fix i p assume l: "map_of (live ?s) i = Some p"
    show "\<exists>d \<in> set (commands ?s). cmd_id d = i \<and> cmd_status d = LAUNCHED \<and> process_pid d = Some p"
    proof (cases "i = cmd_id c")
      case True
      then have "f c \<in> set (commands ?s)" "cmd_id (f c) = i" "cmd_status (f c) = LAUNCHED" "process_pid (f c) = Some p"
        using l c(1) f pid by (auto simp: statuses_def same_request_def)
      then show ?thesis by blast
    next
      case False
      then have "map_of (live s) i = Some p" using l by simp
      then obtain d where "d \<in> set (commands s)" "cmd_id d = i" "cmd_status d = LAUNCHED" "process_pid d = Some p"
        using hd by (auto simp: handles_ok_def)
      then show ?thesis using False by (intro bexI [of _ d]) (auto simp: image_iff intro!: bexI [of _ d])
    qed
  qed
  ultimately show ?thesis by (simp add: queue_inv_def rows_ok_def one_blocking_def spawn_order_def fifo_def)
qed

lemma restart_inv:
  assumes inv: "queue_inv s"
  shows "queue_inv (reconcile_ambiguous_claims_on_startup (s\<lparr>live := []\<rparr>))" (is "queue_inv ?s")
proof -
  have ok: "rows_ok s" and bl: "one_blocking s" and so: "spawn_order s" and ff: "fifo s"
    using inv by (simp_all add: queue_inv_def)
  let ?g = "\<lambda>c. if cmd_status c = CLAIMED then c\<lparr>cmd_status := LAUNCH_OWNERSHIP_UNKNOWN, cmd_refusal := Some AmbiguousClaim\<rparr> else c"
  have rows: "commands ?s = map ?g (commands s)" and rest: "spawned ?s = spawned s" "command_seq ?s = command_seq s" "live ?s = []"
    by (simp_all add: reconcile_ambiguous_claims_on_startup_def)
  have g: "cmd_id (?g c) = cmd_id c" "cmd_repo (?g c) = cmd_repo c" "cmd_key (?g c) = cmd_key c"
    "blocking_status (cmd_status (?g c)) = blocking_status (cmd_status c)" "cmd_status (?g c) \<noteq> CLAIMED"
    "cmd_status (?g c) = QUEUED \<longleftrightarrow> cmd_status c = QUEUED" for c
    by (simp_all add: blocking_status_def)
  have "row_keys (commands ?s) = row_keys (commands s)" unfolding rows row_keys_def by simp
  then have "rows_ok ?s" using ok rest by (simp add: rows_ok_def)
  moreover have "one_blocking ?s"
    unfolding one_blocking_def rows
  proof (intro ballI impI)
    fix c d assume "c \<in> set (map ?g (commands s))" "d \<in> set (map ?g (commands s))" and r: "cmd_repo c = cmd_repo d"
      "blocking_status (cmd_status c)" "blocking_status (cmd_status d)"
    then obtain c0 d0 where "c0 \<in> set (commands s)" "c = ?g c0" "d0 \<in> set (commands s)" "d = ?g d0" by auto
    moreover from this have "cmd_repo c0 = cmd_repo d0" "blocking_status (cmd_status c0)" "blocking_status (cmd_status d0)"
      "cmd_id c = cmd_id c0" "cmd_id d = cmd_id d0" using r by (simp_all only: g)
    ultimately show "\<not> cmd_id c < cmd_id d" using bl by (simp add: one_blocking_def)
  qed
  moreover have "spawn_order ?s" using so rest by (simp add: spawn_order_def)
  moreover have "fifo ?s"
  proof (rule fifo_fewer [OF ff rest(1)])
    fix d assume "d \<in> set (commands ?s)" "cmd_status d = QUEUED \<or> cmd_status d = CLAIMED"
    then show "d \<in> set (commands s)" unfolding rows by (auto split: if_splits)
  qed
  moreover have "handles_ok ?s" using rest by (simp add: handles_ok_def)
  ultimately show ?thesis by (simp add: queue_inv_def)
qed

lemma unregister_inv:
  assumes inv: "queue_inv s" and idle: "\<not> repository_has_active_command repo s"
  shows "queue_inv (clear_pause repo (s\<lparr>commands := filter (\<lambda>c. cmd_repo c \<noteq> repo) (commands s)\<rparr>))" (is "queue_inv ?s")
proof -
  have ok: "rows_ok s" and bl: "one_blocking s" and so: "spawn_order s" and ff: "fifo s" and hd: "handles_ok s"
    using inv by (simp_all add: queue_inv_def)
  have e: "commands ?s = filter (\<lambda>c. cmd_repo c \<noteq> repo) (commands s)" "spawned ?s = spawned s"
    "command_seq ?s = command_seq s" "live ?s = live s" by (simp_all add: clear_pause_def)
  have k: "row_keys (commands ?s) = filter (\<lambda>(i, r, key). r \<noteq> repo) (row_keys (commands s))"
    by (simp add: e row_keys_def filter_map o_def)
  have "rows_ok ?s" using ok e(3) unfolding rows_ok_def k by (simp add: sorted_wrt_map sorted_wrt_filter distinct_map_filter)
  moreover have "one_blocking ?s" using bl by (simp add: one_blocking_def e)
  moreover have "spawn_order ?s" using so by (simp add: spawn_order_def e)
  moreover have "fifo ?s" by (rule fifo_fewer [OF ff e(2)]) (simp add: e)
  moreover have "handles_ok ?s"
    unfolding handles_ok_def
  proof (intro allI impI)
    fix i p assume "map_of (live ?s) i = Some p"
    then obtain d where d: "d \<in> set (commands s)" "cmd_id d = i" "cmd_status d = LAUNCHED" "process_pid d = Some p"
      using hd e(4) by (auto simp: handles_ok_def)
    then have "cmd_repo d \<noteq> repo" using idle
      by (auto simp: repository_has_active_command_def list_ex_iff of_repo_def blocking_status_def)
    then show "\<exists>d \<in> set (commands ?s). cmd_id d = i \<and> cmd_status d = LAUNCHED \<and> process_pid d = Some p"
      using d e(1) by auto
  qed
  ultimately show ?thesis by (simp add: queue_inv_def)
qed

lemma qmove_inv: "qmove R s s' \<Longrightarrow> queue_inv s \<Longrightarrow> queue_inv s'"
proof (induction rule: qmove.induct)
  case (settle c s st f)
  show ?case by (rule settle_inv [OF settle.prems settle.hyps(1,4)])
    (use settle.hyps in \<open>auto simp: settles_def blocking_status_def\<close>)
next
  case (cancel c s f ps)
  have h: "map_of (live s) (cmd_id c) = None"
    using cancel by (intro no_handle) (simp_all add: queue_inv_def)
  show ?case by (rule settle_inv [OF cancel.prems cancel.hyps(1,3)]) (simp_all add: h blocking_status_def)
next
  case (insert repo key s md ids digest req now)
  then show ?case by (intro insert_inv)
next
  case (claim repo s c f)
  then show ?case by (intro claim_inv)
next
  case (spawn c s)
  then show ?case by (intro spawn_inv)
next
  case (launch c s f pid)
  show ?case by (rule launch_inv [OF launch.prems launch.hyps(1,2,4,5)])
next
  case (forget s i)
  have "map_of (AList.delete i (live s)) j = Some pid \<Longrightarrow> map_of (live s) j = Some pid" for j pid
    by (auto simp: delete_conv split: if_splits)
  with forget show ?case by (simp add: queue_inv_def rows_ok_def one_blocking_def spawn_order_def fifo_def handles_ok_def)
next
  case (unregister repo s)
  then show ?case by (intro unregister_inv)
next
  case (restart s)
  then show ?case by (rule restart_inv)
qed (simp_all add: queue_inv_def rows_ok_def one_blocking_def spawn_order_def fifo_def handles_ok_def clear_pause_def)

end
