(* ===== verification/QueueRun.thy ===== *)
theory QueueRun
  imports QueueMoves
begin

text \<open>
  The operations of the run queue are sequences of the contract's moves, whatever the host does, the
  death of the dashboard in the middle of an operation included; and what follows for a dashboard
  that serves any sequence of requests, scheduler passes and restarts.
\<close>

section \<open>Operations that only look\<close>

definition readonly :: "('w, 'a) dprog \<Rightarrow> bool" where
  "readonly m \<longleftrightarrow> (\<forall>s. \<exists>w. snd (m s) = s\<lparr>d_world := w\<rparr>)"

named_theorems readonly_rules \<open>programs that change nothing of the dashboard's own\<close>

lemma readonly_same: "(\<And>s. snd (m s) = s) \<Longrightarrow> readonly m"
proof -
  assume a: "\<And>s. snd (m s) = s"
  have "s = s\<lparr>d_world := d_world s\<rparr>" for s :: "'a dash" by simp
  then show "readonly m" unfolding readonly_def a by blast
qed

lemma readonly_simple [readonly_rules]:
  "readonly (ret a)" "readonly (throw e)" "readonly (gets f)" "readonly (lift r)"
  by (rule readonly_same; simp)+

lemma readonly_host_call [readonly_rules]: "readonly (host_call f)"
  unfolding readonly_def host_call_def by (auto split: prod.splits sum.splits fault.splits)

lemma readonly_andthen [readonly_rules]:
  assumes "readonly m" and "\<And>a. readonly (f a)"
  shows "readonly (andthen m f)"
  unfolding readonly_def
proof
  fix s
  obtain w where w: "snd (m s) = s\<lparr>d_world := w\<rparr>" using assms(1) by (auto simp: readonly_def)
  show "\<exists>w. snd (andthen m f s) = s\<lparr>d_world := w\<rparr>"
  proof (cases "fst (m s)")
    case (Inl e)
    then show ?thesis using w by (cases "m s") (auto simp: andthen_def)
  next
    case (Inr a)
    obtain w' where "snd (f a (s\<lparr>d_world := w\<rparr>)) = s\<lparr>d_world := w\<rparr>\<lparr>d_world := w'\<rparr>"
      using assms(2) [of a] unfolding readonly_def by fastforce
    then show ?thesis using w Inr by (cases "m s") (auto simp: andthen_def)
  qed
qed

lemma readonly_catch [readonly_rules]:
  assumes "readonly m" and "\<And>e. readonly (h e)"
  shows "readonly (catch m h)"
  unfolding readonly_def
proof
  fix s
  obtain w where w: "snd (m s) = s\<lparr>d_world := w\<rparr>" using assms(1) by (auto simp: readonly_def)
  show "\<exists>w. snd (catch m h s) = s\<lparr>d_world := w\<rparr>"
  proof (cases "fst (m s)")
    case (Inr a)
    then show ?thesis using w by (cases "m s") (auto simp: catch_def)
  next
    case (Inl e)
    obtain w' where "snd (h e (s\<lparr>d_world := w\<rparr>)) = s\<lparr>d_world := w\<rparr>\<lparr>d_world := w'\<rparr>"
      using assms(2) [of e] unfolding readonly_def by fastforce
    then show ?thesis using w Inl by (cases "m s") (auto simp: catch_def)
  qed
qed

lemma readonly_if [readonly_rules]: "readonly m \<Longrightarrow> readonly n \<Longrightarrow> readonly (if b then m else n)"
  by simp

lemma readonly_option [readonly_rules]:
  "readonly m \<Longrightarrow> (\<And>a. readonly (f a)) \<Longrightarrow> readonly (case x of None \<Rightarrow> m | Some a \<Rightarrow> f a)"
  by (cases x) simp_all

lemma readonly_sum [readonly_rules]:
  "(\<And>a. readonly (f a)) \<Longrightarrow> (\<And>b. readonly (g b)) \<Longrightarrow> readonly (case x of Inl a \<Rightarrow> f a | Inr b \<Rightarrow> g b)"
  by (cases x) simp_all

lemma readonly_prod [readonly_rules]: "(\<And>a b. readonly (f a b)) \<Longrightarrow> readonly (case x of (a, b) \<Rightarrow> f a b)"
  by (cases x) simp

lemma readonly_node [readonly_rules]:
  "readonly m \<Longrightarrow> readonly n \<Longrightarrow> (\<And>raw. readonly (f raw)) \<Longrightarrow>
   readonly (case x of NoFile \<Rightarrow> m | NotRegular \<Rightarrow> n | RegularFile raw \<Rightarrow> f raw)"
  by (cases x) simp_all

lemma readonly_checks [readonly_rules]: "readonly (or_raise code x)" "readonly (refuse_when b code)"
  unfolding or_raise_def refuse_when_def by (intro readonly_rules)+

lemma readonly_reads [readonly_rules]:
  "readonly (get_repository repo)" "readonly (registered_config h repo)"
  "readonly (verify_config_matches_registration h cfg r)"
  "readonly (get_configured_issues h repo)"
  "readonly (evaluate_worktree_preflight h repo)" "readonly (get_command h i)" "readonly (plan_run h repo md ids digest)"
  "readonly (probe_controller_identity h pid created)" "readonly (repeated h req c)"
  "readonly (command_of_repository h repo i)" "readonly (check_run_request_bounds md ids)"
  "readonly (acknowledge_gates h repo c)"
  unfolding get_repository_def registered_config_def verify_config_matches_registration_def get_configured_issues_def read_issues_file_def
    evaluate_worktree_preflight_def get_command_def plan_run_def probe_controller_identity_def repeated_def
    command_of_repository_def check_run_request_bounds_def acknowledge_gates_def Let_def
  by (intro readonly_rules)+

lemma readonly_triple:
  assumes "readonly m" and "\<And>s w. P s \<Longrightarrow> P (s\<lparr>d_world := w\<rparr>)"
  shows "triple P m (\<lambda>_. P) (\<lambda>_. P)"
proof (rule tripleI)
  fix s a s' assume "P s" "m s = (Inr a, s')"
  then show "P s'" using assms unfolding readonly_def by (metis snd_conv)
next
  fix s e s' assume "P s" "m s = (Inl e, s')"
  then show "P s'" using assms unfolding readonly_def by (metis snd_conv)
qed

text \<open>A read before the rest, with any exception of its own.\<close>

lemma readonly_then:
  assumes "readonly m" and "\<And>s w. P s \<Longrightarrow> P (s\<lparr>d_world := w\<rparr>)" and "\<And>e s. P s \<Longrightarrow> E e s"
    and "\<And>a. triple P (f a) Q E"
  shows "triple P (andthen m f) Q E"
proof (rule triple_andthen)
  have "triple P m (\<lambda>_. P) (\<lambda>_. P)" by (rule readonly_triple [OF assms(1)]) (rule assms(2))
  then show "triple P m (\<lambda>_. P) E" by (rule triple_conseq) (use assms(3) in auto)
qed (rule assms(4))

section \<open>Sequences of moves\<close>

definition run_from :: "int set \<Rightarrow> 'w dash \<Rightarrow> 'w dash \<Rightarrow> bool" where
  "run_from R s0 s \<longleftrightarrow> queue_inv s \<and> (qmove R)\<^sup>*\<^sup>* s0 s"

lemma run_from_move: "run_from R s0 s \<Longrightarrow> qmove R s s' \<Longrightarrow> run_from R s0 s'"
  unfolding run_from_def using qmove_inv by (metis rtranclp.rtrancl_into_rtrancl)

lemma run_from_world [simp]: "run_from R s0 s \<Longrightarrow> run_from R s0 (s\<lparr>d_world := w\<rparr>)"
  using run_from_move [OF _ qmove.outside [of R s "registrations s" w]] by simp

lemma keeps_readonly: "readonly m \<Longrightarrow> keeps (run_from R s0) m"
  unfolding keeps_def by (rule readonly_triple) simp_all

definition claimed :: "command \<Rightarrow> 'w dash \<Rightarrow> bool" where
  "claimed c s \<longleftrightarrow> c \<in> set (commands s) \<and> cmd_status c = CLAIMED \<and> (cmd_repo c, cmd_id c) \<notin> set (spawned s)"

lemma claimed_world [simp]: "claimed c (s\<lparr>d_world := w\<rparr>) = claimed c s"
  by (simp add: claimed_def)

lemma find_updated:
  assumes "find_command i cs = Some c" and "\<And>d. cmd_id (f d) = cmd_id d"
  shows "find_command i (update_rows i f cs) = Some (f c)"
  using assms(1) by (induction cs) (auto simp: find_command_def assms(2))

lemma row_found:
  assumes "rows_ok s" and "c \<in> set (commands s)"
  shows "find_command (cmd_id c) (commands s) = Some c"
proof (cases "find_command (cmd_id c) (commands s)")
  case None
  then show ?thesis using assms(2) by (auto simp: find_command_def find_None_iff)
next
  case (Some d)
  with find_command_in [OF Some] rows_okD(3) [OF assms(1) _ assms(2), of d] show ?thesis by simp
qed

definition shows_status :: "int \<Rightarrow> cmd_status \<Rightarrow> 'w dash \<Rightarrow> bool" where
  "shows_status i st s \<longleftrightarrow> (\<exists>d. find_command i (commands s) = Some d \<and> cmd_status d = st)"

text \<open>An update that is a move, and reading the row back.\<close>

lemma update_settles:
  assumes "run_from R s0 s" and "c \<in> set (commands s)" and "settles (cmd_status c) st"
    and "map_of (live s) (cmd_id c) = None" and f: "statuses f st"
  shows "run_from R s0 (s\<lparr>commands := update_rows (cmd_id c) f (commands s)\<rparr>) \<and>
    shows_status (cmd_id c) st (s\<lparr>commands := update_rows (cmd_id c) f (commands s)\<rparr>)"
proof -
  have "find_command (cmd_id c) (update_rows (cmd_id c) f (commands s)) = Some (f c)"
    by (rule find_updated [OF row_found]) (use assms in \<open>auto simp: run_from_def queue_inv_def statuses_def same_request_def\<close>)
  then show ?thesis
    using run_from_move [OF assms(1) qmove.settle [OF assms(2-5)]] f by (auto simp: shows_status_def statuses_def)
qed

lemma triple_finish_row:
  assumes "settles (cmd_status c) st"
  shows "triple (\<lambda>s. run_from R s0 s \<and> c \<in> set (commands s) \<and> map_of (live s) (cmd_id c) = None)
    (finish_command h (cmd_id c) st why) (\<lambda>_ s. run_from R s0 s \<and> shows_status (cmd_id c) st s) E"
proof (rule triple_total)
  fix s assume p: "run_from R s0 s \<and> c \<in> set (commands s) \<and> map_of (live s) (cmd_id c) = None"
  let ?f = "\<lambda>c. c\<lparr>cmd_status := st, finished_at := Some (clock h (d_world s)),
    cmd_refusal := (case why of None \<Rightarrow> cmd_refusal c | Some _ \<Rightarrow> why)\<rparr>"
  have "finish_command h (cmd_id c) st why s = (Inr (), s\<lparr>commands := update_rows (cmd_id c) ?f (commands s)\<rparr>)"
    by (simp add: finish_command_def update_command_def andthen_def)
  moreover have "statuses ?f st" by (simp add: statuses_def same_request_def)
  ultimately show "\<exists>a s'. finish_command h (cmd_id c) st why s = (Inr a, s') \<and> run_from R s0 s' \<and> shows_status (cmd_id c) st s'"
    using update_settles [of R s0 s c st ?f] p assms by auto
qed

lemma triple_read_back:
  "triple (\<lambda>s. run_from R s0 s \<and> shows_status i st s) (get_command h i)
     (\<lambda>v s. run_from R s0 s \<and> cmd_status (view_of v) = st) E"
  unfolding get_command_def shows_status_def triple_def
  by (auto simp: andthen_def or_raise_def row_to_view_def)

lemma triple_finish_read:
  assumes "settles (cmd_status c) st"
  shows "triple (\<lambda>s. run_from R s0 s \<and> c \<in> set (commands s) \<and> map_of (live s) (cmd_id c) = None)
    (andthen (finish_command h (cmd_id c) st why) (\<lambda>_. get_command h (cmd_id c)))
    (\<lambda>v s. run_from R s0 s \<and> cmd_status (view_of v) = st) E"
  by (rule triple_andthen [OF triple_finish_row [OF assms] triple_read_back])

section \<open>Claim, revalidation, launch\<close>

lemma claimed_unhandled:
  assumes "run_from R s0 s" and "claimed c s"
  shows "c \<in> set (commands s) \<and> map_of (live s) (cmd_id c) = None"
  using assms no_handle [of s c] by (simp add: run_from_def queue_inv_def claimed_def)

lemma triple_claim:
  "triple (run_from R s0) (claim_next_launchable_command h repo)
     (\<lambda>r s. run_from R s0 s \<and> (\<forall>v. r = Some v \<longrightarrow> claimed (view_of v) s \<and> cmd_repo (view_of v) = repo)) (\<lambda>_. run_from R s0)"
proof (rule triple_total)
  fix s assume p: "run_from R s0 s"
  then have inv: "queue_inv s" by (simp add: run_from_def)
  show "\<exists>r s'. claim_next_launchable_command h repo s = (Inr r, s') \<and> run_from R s0 s' \<and>
    (\<forall>v. r = Some v \<longrightarrow> claimed (view_of v) s' \<and> cmd_repo (view_of v) = repo)"
  proof (cases "has_launchable_command repo s")
    case False
    then show ?thesis using p
      by (auto simp: claim_next_launchable_command_def andthen_def has_launchable_command_def)
  next
    case True
    then obtain c where nq: "next_queued repo s = Some c" by (auto simp: has_launchable_command_def)
    have ok: "rows_ok s" using inv by (simp add: queue_inv_def)
    note c = next_queued_least [OF ok nq]
    let ?f = "\<lambda>c. c\<lparr>cmd_status := CLAIMED, claimed_at := Some (clock h (d_world s))\<rparr>"
    let ?s = "s\<lparr>commands := update_rows (cmd_id c) ?f (commands s)\<rparr>"
    have f: "statuses ?f CLAIMED" by (simp add: statuses_def same_request_def)
    have "run_from R s0 ?s" by (rule run_from_move [OF p qmove.claim [OF True nq f]])
    moreover have "find_command (cmd_id c) (commands ?s) = Some (?f c)"
      using find_updated [OF row_found [OF ok c(1)], of ?f] by simp
    moreover have "(cmd_repo c, cmd_id c) \<notin> set (spawned s)"
      using inv c(1,3) by (fastforce simp: queue_inv_def fifo_def)
    moreover have "?f c \<in> set (commands ?s)" using c(1) by force
    ultimately show ?thesis using True nq c(2)
      by (simp add: claim_next_launchable_command_def andthen_def has_launchable_command_def update_command_def
          get_command_def or_raise_def row_to_view_def claimed_def)
  qed
qed

definition still_claimed :: "int set \<Rightarrow> 'w dash \<Rightarrow> command_view \<Rightarrow> command_view \<Rightarrow> 'w dash \<Rightarrow> bool" where
  "still_claimed R s0 v v' s \<longleftrightarrow> run_from R s0 s \<and> (cmd_status (view_of v') = CLAIMED \<longrightarrow> v' = v \<and> claimed (view_of v) s)"

lemma triple_let_go:
  assumes "cmd_status (view_of v) = CLAIMED" and "st \<in> {REFUSED, COMPLETED, LAUNCH_FAILED}"
  shows "triple (\<lambda>s. run_from R s0 s \<and> claimed (view_of v) s)
    (andthen (finish_command h (cmd_id (view_of v)) st why) (\<lambda>_. get_command h (cmd_id (view_of v))))
    (still_claimed R s0 v) (\<lambda>_. run_from R s0)"
proof -
  have "settles (cmd_status (view_of v)) st" using assms by (auto simp: settles_def)
  from triple_finish_read [OF this, of R s0 h why "\<lambda>_. run_from R s0"] show ?thesis
    by (rule triple_conseq) (use assms(2) claimed_unhandled in \<open>auto simp: still_claimed_def\<close>)
qed

lemma triple_revalidate:
  assumes v: "cmd_status (view_of v) = CLAIMED"
  shows "triple (\<lambda>s. run_from R s0 s \<and> claimed (view_of v) s) (revalidate_claimed_command h v) (still_claimed R s0 v) (\<lambda>_. run_from R s0)"
proof -
  let ?P = "\<lambda>s. run_from R s0 s \<and> claimed (view_of v) s"
  note go = triple_let_go [OF v]
  show ?thesis
    unfolding revalidate_claimed_command_def Let_def
  proof (rule readonly_then)
    fix planned :: "string + run_plan"
    show "triple ?P (case planned of
        Inl code \<Rightarrow> andthen (finish_command h (cmd_id (view_of v)) REFUSED (Some (RefusedBy code))) (\<lambda>_. get_command h (cmd_id (view_of v)))
      | Inr p \<Rightarrow> if \<not> plan_ok (rp_result p) then
            andthen (finish_command h (cmd_id (view_of v)) REFUSED (Some SelectionStale)) (\<lambda>_. get_command h (cmd_id (view_of v)))
          else if ordered_ids (rp_result p) = [] then
            andthen (finish_command h (cmd_id (view_of v)) COMPLETED None) (\<lambda>_. get_command h (cmd_id (view_of v)))
          else andthen (evaluate_worktree_preflight h (cmd_repo (view_of v))) (\<lambda>pf. if \<not> pf_clean pf then
              andthen (finish_command h (cmd_id (view_of v)) REFUSED (Some WorktreeDirty)) (\<lambda>_. get_command h (cmd_id (view_of v)))
            else ret v)) (still_claimed R s0 v) (\<lambda>_. run_from R s0)"
    proof (cases planned)
      case (Inr p)
      have "triple ?P (andthen (evaluate_worktree_preflight h (cmd_repo (view_of v))) (\<lambda>pf. if \<not> pf_clean pf then
              andthen (finish_command h (cmd_id (view_of v)) REFUSED (Some WorktreeDirty)) (\<lambda>_. get_command h (cmd_id (view_of v)))
            else ret v)) (still_claimed R s0 v) (\<lambda>_. run_from R s0)"
        by (rule readonly_then) (auto intro!: readonly_reads go triple_ret simp: still_claimed_def)
      then show ?thesis unfolding Inr by (auto intro!: go)
    qed (auto intro: go)
  qed (auto intro!: readonly_rules)
qed

text \<open>Starting the process: the row was claimed and never spawned, and is launched or let go of.\<close>

lemma triple_launch:
  assumes v: "cmd_status (view_of v) = CLAIMED"
  shows "triple (\<lambda>s. run_from R s0 s \<and> claimed (view_of v) s) (launch_claimed_command h exe path v) (\<lambda>_. run_from R s0) (\<lambda>_. run_from R s0)"
proof -
  let ?c = "view_of v" and ?P = "\<lambda>s. run_from R s0 s \<and> claimed (view_of v) s"
  let ?S = "\<lambda>s. run_from R s0 s \<and> ?c \<in> set (commands s) \<and> (cmd_repo ?c, cmd_id ?c) \<in> set (spawned s)"
  have started: "triple ?P (modify (\<lambda>s. s\<lparr>spawned := spawned s @ [(cmd_repo ?c, cmd_id ?c)]\<rparr>)) (\<lambda>_. ?S) (\<lambda>_. run_from R s0)"
  proof (rule triple_modify)
    fix s :: "'a dash" assume p: "?P s"
    then have "qmove R s (s\<lparr>spawned := spawned s @ [(cmd_repo ?c, cmd_id ?c)]\<rparr>)"
      by (intro qmove.spawn) (simp_all add: claimed_def)
    with p show "?S (s\<lparr>spawned := spawned s @ [(cmd_repo ?c, cmd_id ?c)]\<rparr>)"
      using run_from_move by (auto simp: claimed_def)
  qed
  have recorded: "triple ?S (andthen (modify (\<lambda>s. s\<lparr>live := AList.update (cmd_id ?c) pid (live s)\<rparr>)) (\<lambda>_.
      andthen (update_command (cmd_id ?c) (\<lambda>c. c\<lparr>cmd_status := LAUNCHED, process_pid := Some pid, process_creation_time := t\<rparr>)) (\<lambda>_.
      get_command h (cmd_id ?c)))) (\<lambda>_. run_from R s0) (\<lambda>_. run_from R s0)" for pid t
  proof -
    let ?f = "\<lambda>c. c\<lparr>cmd_status := LAUNCHED, process_pid := Some pid, process_creation_time := t\<rparr>"
    let ?g = "\<lambda>s :: 'a dash. s\<lparr>live := AList.update (cmd_id ?c) pid (live s), commands := update_rows (cmd_id ?c) ?f (commands s)\<rparr>"
    have eq: "andthen (modify (\<lambda>s. s\<lparr>live := AList.update (cmd_id ?c) pid (live s)\<rparr>)) (\<lambda>_.
      andthen (update_command (cmd_id ?c) ?f) (\<lambda>_. get_command h (cmd_id ?c))) = andthen (modify ?g) (\<lambda>_. get_command h (cmd_id ?c))"
      by (rule ext) (simp add: andthen_def update_command_def)
    have "triple ?S (modify ?g) (\<lambda>_. run_from R s0) (\<lambda>_. run_from R s0)"
    proof (rule triple_modify)
      fix s :: "'a dash" assume p: "?S s"
      have "qmove R s (?g s)" by (rule qmove.launch) (use p v in \<open>simp_all add: statuses_def same_request_def\<close>)
      then show "run_from R s0 (?g s)" using p run_from_move by blast
    qed
    then show ?thesis unfolding eq
      by (rule triple_andthen) (use keeps_readonly [OF readonly_reads(6)] in \<open>simp add: keeps_def\<close>)
  qed
  show ?thesis
    unfolding launch_claimed_command_def Let_def
  proof (rule readonly_then, goal_cases)
    case (4 loaded)
    show ?case
    proof (cases loaded)
      case None
      then show ?thesis by (auto intro: triple_throw)
    next
      case (Some cfg)
      show ?thesis
        unfolding Some option.case
      proof (intro readonly_then, goal_cases)
        case (7 base child)
        show ?case
        proof (cases child)
          case None
          have "triple ?P (andthen (finish_command h (cmd_id ?c) LAUNCH_FAILED (Some ExecutableFailed)) (\<lambda>_. get_command h (cmd_id ?c)))
              (still_claimed R s0 v) (\<lambda>_. run_from R s0)" by (rule triple_let_go [OF v]) simp
          then show ?thesis unfolding None option.case
            by (rule triple_conseq) (auto simp: still_claimed_def)
        next
          case (Some pid)
          show ?thesis unfolding Some option.case
            by (rule triple_andthen [OF started], rule readonly_then) (auto intro: readonly_rules recorded)
        qed
      qed (auto intro: readonly_rules)
    qed
  qed (auto intro: readonly_rules)
qed

section \<open>Reconciliation and progress\<close>

lemma triple_update_settles:
  assumes "settles (cmd_status c) st" and "statuses f st"
  shows "triple (\<lambda>s. run_from R s0 s \<and> c \<in> set (commands s) \<and> map_of (live s) (cmd_id c) = None)
    (update_command (cmd_id c) f) (\<lambda>_. run_from R s0) E"
  unfolding update_command_def using update_settles [of R s0 _ c st f] assms by (intro triple_modify) blast

lemma triple_exited:
  assumes c: "cmd_status c = LAUNCHED"
  shows "triple (\<lambda>s. run_from R s0 s \<and> c \<in> set (commands s)) (exited h c code) (\<lambda>_. run_from R s0) (\<lambda>_. run_from R s0)"
proof -
  let ?Q = "\<lambda>s. run_from R s0 s \<and> c \<in> set (commands s) \<and> map_of (live s) (cmd_id c) = None"
  have dropped: "triple (\<lambda>s. run_from R s0 s \<and> c \<in> set (commands s)) (modify (\<lambda>s. s\<lparr>live := AList.delete (cmd_id c) (live s)\<rparr>))
      (\<lambda>_. ?Q) (\<lambda>_. run_from R s0)"
    by (rule triple_modify) (auto intro: run_from_move [OF _ qmove.forget] simp: delete_conv)
  have upd: "triple ?Q (update_command (cmd_id c) (\<lambda>c. (if code = 0 then c\<lparr>cmd_status := COMPLETED\<rparr>
            else c\<lparr>cmd_status := ABNORMAL_EXIT, cmd_refusal := why\<rparr>)\<lparr>finished_at := Some now, run_id_correlation := rid\<rparr>))
      (\<lambda>_. run_from R s0) (\<lambda>_. run_from R s0)" for why now rid
    by (rule triple_update_settles [where st = "if code = 0 then COMPLETED else ABNORMAL_EXIT"])
      (simp_all add: c settles_def statuses_def same_request_def)
  show ?thesis
    unfolding exited_def Let_def
    by (rule triple_andthen [OF dropped], rule readonly_then)
      (auto intro!: readonly_rules readonly_then upd triple_case_prod)
qed

lemma triple_reconcile:
  "triple (\<lambda>s. run_from R s0 s \<and> c \<in> set (commands s)) (reconcile_launched_command h c) (\<lambda>_. run_from R s0) (\<lambda>_. run_from R s0)"
proof (cases "cmd_status c = LAUNCHED")
  case False
  then show ?thesis by (simp add: reconcile_launched_command_def) (auto intro: triple_ret)
next
  case True
  let ?P = "\<lambda>s. run_from R s0 s \<and> c \<in> set (commands s)"
  show ?thesis
    unfolding reconcile_launched_command_def
  proof (simp add: True, rule triple_gets_then)
    fix handle
    show "triple (\<lambda>s. (run_from R s0 s \<and> c \<in> set (commands s)) \<and> map_of (live s) (cmd_id c) = handle)
        (case handle of
          None \<Rightarrow> andthen (probe_controller_identity h (process_pid c) (process_creation_time c)) (\<lambda>st.
            if st = DEAD \<or> st = PID_REUSED then
              update_command (cmd_id c) (\<lambda>c. c\<lparr>cmd_status := ABNORMAL_EXIT, cmd_refusal := Some ExitedUnwatched\<rparr>)
            else ret ())
        | Some pid \<Rightarrow> andthen (host_call (poll h pid)) (\<lambda>polled. case polled of
            None \<Rightarrow> throw Unhandled | Some None \<Rightarrow> ret () | Some (Some code) \<Rightarrow> exited h c code))
        (\<lambda>_. run_from R s0) (\<lambda>_. run_from R s0)"
    proof (cases handle)
      case None
      have "triple (\<lambda>s. run_from R s0 s \<and> c \<in> set (commands s) \<and> map_of (live s) (cmd_id c) = None)
          (update_command (cmd_id c) (\<lambda>c. c\<lparr>cmd_status := ABNORMAL_EXIT, cmd_refusal := Some ExitedUnwatched\<rparr>))
          (\<lambda>_. run_from R s0) (\<lambda>_. run_from R s0)"
        by (rule triple_update_settles [where st = ABNORMAL_EXIT]) (simp_all add: True settles_def statuses_def same_request_def)
      then show ?thesis unfolding None
        by (simp, intro readonly_then) (auto intro: readonly_rules triple_ret)
    next
      case (Some pid)
      have "triple ?P (case polled of None \<Rightarrow> throw Unhandled | Some None \<Rightarrow> ret () | Some (Some code) \<Rightarrow> exited h c code)
          (\<lambda>_. run_from R s0) (\<lambda>_. run_from R s0)" for polled
        by (auto intro: triple_throw triple_ret triple_exited [OF True] split: option.split)
      then have "triple ?P (andthen (host_call (poll h pid)) (\<lambda>polled. case polled of
            None \<Rightarrow> throw Unhandled | Some None \<Rightarrow> ret () | Some (Some code) \<Rightarrow> exited h c code)) (\<lambda>_. run_from R s0) (\<lambda>_. run_from R s0)"
        by (intro readonly_then) (auto intro: readonly_rules)
      then show ?thesis unfolding Some option.case by (rule triple_conseq) auto
    qed
  qed
qed

lemma keeps_claim_and_launch: "keeps (run_from R s0) (claim_and_launch h exe repo)"
  unfolding keeps_def claim_and_launch_def
proof (rule triple_andthen [OF triple_claim])
  fix r :: "command_view option"
  show "triple (\<lambda>s. run_from R s0 s \<and> (\<forall>v. r = Some v \<longrightarrow> claimed (view_of v) s \<and> cmd_repo (view_of v) = repo))
    (case r of None \<Rightarrow> ret None
     | Some v \<Rightarrow> andthen (revalidate_claimed_command h v) (\<lambda>v.
         if cmd_status (view_of v) \<noteq> CLAIMED then ret (Some v)
         else andthen (get_repository repo) (\<lambda>r. case config_path r of None \<Rightarrow> throw Unhandled
              | Some path \<Rightarrow> andthen (launch_claimed_command h exe path v) (\<lambda>v. ret (Some v)))))
    (\<lambda>_. run_from R s0) (\<lambda>_. run_from R s0)"
  proof (cases r)
    case None
    then show ?thesis by (auto intro: triple_ret)
  next
    case (Some v)
    show ?thesis
    proof (cases "cmd_status (view_of v) = CLAIMED")
      case False
      then show ?thesis using Some by (auto simp: triple_def claimed_def)
    next
      case True
      let ?P = "\<lambda>s. run_from R s0 s \<and> claimed (view_of v) s"
      have go: "triple ?P (andthen (get_repository repo) (\<lambda>r. case config_path r of None \<Rightarrow> throw Unhandled
              | Some path \<Rightarrow> andthen (launch_claimed_command h exe path v) (\<lambda>v. ret (Some v)))) (\<lambda>_. run_from R s0) (\<lambda>_. run_from R s0)"
        by (rule readonly_then)
          (auto intro!: readonly_rules triple_throw triple_andthen [OF triple_launch [OF True]] triple_ret split: option.split)
      have "triple (still_claimed R s0 v v') (if cmd_status (view_of v') \<noteq> CLAIMED then ret (Some v')
         else andthen (get_repository repo) (\<lambda>r. case config_path r of None \<Rightarrow> throw Unhandled
              | Some path \<Rightarrow> andthen (launch_claimed_command h exe path v') (\<lambda>v. ret (Some v)))) (\<lambda>_. run_from R s0) (\<lambda>_. run_from R s0)" for v'
      proof (cases "cmd_status (view_of v') = CLAIMED")
        case False
        then show ?thesis by (auto intro: triple_ret simp: still_claimed_def)
      next
        case True
        show ?thesis
          by (rule triple_fact [where B = "v' = v"]) (use True in \<open>auto simp: still_claimed_def intro: triple_conseq [OF go]\<close>)
      qed
      then have "triple ?P (andthen (revalidate_claimed_command h v) (\<lambda>v.
         if cmd_status (view_of v) \<noteq> CLAIMED then ret (Some v)
         else andthen (get_repository repo) (\<lambda>r. case config_path r of None \<Rightarrow> throw Unhandled
              | Some path \<Rightarrow> andthen (launch_claimed_command h exe path v) (\<lambda>v. ret (Some v))))) (\<lambda>_. run_from R s0) (\<lambda>_. run_from R s0)"
        by (rule triple_andthen [OF triple_revalidate [OF True]])
      then show ?thesis unfolding Some option.case by (rule triple_conseq) auto
    qed
  qed
qed

lemma keeps_try_launch: "keeps (run_from R s0) (try_launch_next h exe repo)"
proof -
  have rec: "triple (run_from R s0) (andthen (gets (launched_command repo)) (\<lambda>running. andthen
      (case running of None \<Rightarrow> ret () | Some c \<Rightarrow> reconcile_launched_command h c) k)) (\<lambda>_. run_from R s0) (\<lambda>_. run_from R s0)"
    if k: "\<And>a. keeps (run_from R s0) (k a)" for k :: "unit \<Rightarrow> ('a, command_view option) dprog"
  proof (rule triple_gets_then)
    fix running
    have "triple (\<lambda>s. run_from R s0 s \<and> launched_command repo s = running)
        (case running of None \<Rightarrow> ret () | Some c \<Rightarrow> reconcile_launched_command h c) (\<lambda>_. run_from R s0) (\<lambda>_. run_from R s0)"
      by (cases running) (auto intro: triple_ret triple_conseq [OF triple_reconcile] simp: launched_command_def dest: find_SomeD)
    then show "triple (\<lambda>s. run_from R s0 s \<and> launched_command repo s = running)
        (andthen (case running of None \<Rightarrow> ret () | Some c \<Rightarrow> reconcile_launched_command h c) k) (\<lambda>_. run_from R s0) (\<lambda>_. run_from R s0)"
      by (rule triple_andthen) (use k in \<open>simp add: keeps_def\<close>)
  qed
  show ?thesis
    unfolding try_launch_next_def keeps_def
    by (rule rec, intro keeps_andthen keeps_if) (auto intro!: keeps_readonly readonly_rules keeps_rules keeps_claim_and_launch)
qed

lemma keeps_scheduler: "keeps (run_from R s0) (scheduler_tick h exe)"
  unfolding scheduler_tick_def by (intro keeps_rules keeps_try_launch)

section \<open>Operator actions and routes\<close>

lemma found_status:
  assumes "map_option cmd_status (find_command i cs) = Some st"
  obtains c where "c \<in> set cs" "cmd_id c = i" "cmd_status c = st"
proof -
  obtain c where "find_command i cs = Some c" "cmd_status c = st" using assms by auto
  from find_command_in [OF this(1)] this(2) show thesis using that by blast
qed

lemma keeps_acknowledge: "keeps (run_from R s0) (acknowledge_abnormal_command h repo i)"
proof -
  have fin: "triple (\<lambda>s. run_from R s0 s \<and> map_option cmd_status (find_command i (commands s)) = current)
      (whenever (current = Some ABNORMAL_EXIT) (finish_command h i ACKNOWLEDGED why)) (\<lambda>_. run_from R s0) (\<lambda>_. run_from R s0)" for current why
  proof (rule triple_whenever)
    assume cur: "current = Some ABNORMAL_EXIT"
    show "triple (\<lambda>s. run_from R s0 s \<and> map_option cmd_status (find_command i (commands s)) = current)
      (finish_command h i ACKNOWLEDGED why) (\<lambda>_. run_from R s0) (\<lambda>_. run_from R s0)"
      unfolding triple_def
    proof (intro allI impI)
      fix s :: "'a dash" assume p: "run_from R s0 s \<and> map_option cmd_status (find_command i (commands s)) = current"
      then have "map_option cmd_status (find_command i (commands s)) = Some ABNORMAL_EXIT" using cur by simp
      then obtain c where c: "c \<in> set (commands s)" "cmd_id c = i" "cmd_status c = ABNORMAL_EXIT" by (rule found_status)
      have "map_of (live s) (cmd_id c) = None" using p c by (intro no_handle) (simp_all add: run_from_def queue_inv_def)
      moreover have "settles (cmd_status c) ACKNOWLEDGED" using c by (simp add: settles_def)
      ultimately show "case finish_command h i ACKNOWLEDGED why s of (Inl e, s') \<Rightarrow> run_from R s0 s' | (Inr a, s') \<Rightarrow> run_from R s0 s'"
        using triple_finish_row [of c ACKNOWLEDGED R s0 h why "\<lambda>_. run_from R s0"] p c
        unfolding triple_def by (fastforce split: prod.splits sum.splits)
    qed
  qed auto
  have "keeps (run_from R s0) (acknowledge_flip h i)"
    unfolding keeps_def acknowledge_flip_def
    by (rule triple_gets_then, rule triple_andthen [OF fin])
      (auto intro!: keeps_readonly [unfolded keeps_def] readonly_rules)
  then show ?thesis
    unfolding acknowledge_abnormal_command_def
    by (intro keeps_andthen keeps_if) (auto intro!: keeps_readonly readonly_rules)
qed

lemma keeps_cancel: "keeps (run_from R s0) (cancel_queued_command h repo i)"
proof (rule keepsI)
  fix s :: "'a dash" assume p: "run_from R s0 s"
  have get: "command_of_repository h repo i s = (case find_command i (commands s) of
      None \<Rightarrow> (Inl (ApiError ''NOT_FOUND''), s)
    | Some c \<Rightarrow> if cmd_repo c \<noteq> repo then (Inl (ApiError ''NOT_FOUND''), s) else (Inr (row_to_view h s c), s))"
    by (simp add: command_of_repository_def get_command_def andthen_def or_raise_def row_to_view_def split: option.split)
  show "run_from R s0 (snd (cancel_queued_command h repo i s))"
  proof (cases "\<exists>c. find_command i (commands s) = Some c \<and> cmd_repo c = repo \<and> cmd_status c = QUEUED")
    case False
    then show ?thesis using p
      by (auto simp: cancel_queued_command_def andthen_def get refuse_when_def row_to_view_def split: option.split)
  next
    case True
    then obtain c where c: "find_command i (commands s) = Some c" "cmd_repo c = repo" "cmd_status c = QUEUED" by blast
    let ?now = "clock h (d_world s)"
    let ?f = "\<lambda>c. c\<lparr>cmd_status := CANCELLED, finished_at := Some ?now, cmd_refusal := Some CancelledByOperator\<rparr>"
    let ?ps = "if is_queue_paused repo s then queue_pauses s else queue_pauses s @ [(repo, ?now, i)]"
    let ?s = "s\<lparr>commands := update_rows i ?f (commands s), queue_pauses := ?ps\<rparr>"
    have "qmove R s (s\<lparr>commands := update_rows (cmd_id c) ?f (commands s), queue_pauses := ?ps\<rparr>)"
      by (rule qmove.cancel)
        (use find_command_in [OF c(1)] c in \<open>auto simp: statuses_def same_request_def is_queue_paused_def\<close>)
    then have "run_from R s0 ?s" using p run_from_move find_command_in [OF c(1)] by auto
    moreover obtain w where "snd (cancel_queued_command h repo i s) = ?s\<lparr>d_world := w\<rparr>"
    proof (rule exE)
      have "snd (cancel_queued_command h repo i s) = snd (get_command h i ?s)"
        using c by (auto simp: cancel_queued_command_def andthen_def get refuse_when_def row_to_view_def finish_command_def
            update_command_def is_queue_paused_def)
      then show "\<exists>w. snd (cancel_queued_command h repo i s) = ?s\<lparr>d_world := w\<rparr>"
        using readonly_reads(6) [of h i] unfolding readonly_def by (simp only:)
    qed
    ultimately show ?thesis using run_from_world [of R s0 ?s w] by (simp only:)
  qed
qed

lemma keeps_insert: "keeps (run_from R s0) (insert_command h repo md ids digest key req)"
  unfolding insert_command_def keeps_def
proof (rule triple_gets_any, rule triple_gets_then)
  fix now dup
  show "triple (\<lambda>s. run_from R s0 s \<and> find_key repo key s = dup)
    (case dup of Some c \<Rightarrow> repeated h req c
     | None \<Rightarrow> andthen (gets (\<lambda>s. command_seq s + 1)) (\<lambda>i.
         andthen (modify (\<lambda>s. s\<lparr>command_seq := i, commands := commands s @ [new_command i repo md ids digest key req now]\<rparr>)) (\<lambda>_.
         andthen (get_command h i) (\<lambda>v. ret (Enqueued v))))) (\<lambda>_. run_from R s0) (\<lambda>_. run_from R s0)"
  proof (cases dup)
    case (Some c)
    have "triple (run_from R s0) (repeated h req c) (\<lambda>_. run_from R s0) (\<lambda>_. run_from R s0)"
      using keeps_readonly [OF readonly_reads(9)] by (simp add: keeps_def)
    then show ?thesis unfolding Some option.case by (rule triple_conseq) auto
  next
    case None
    have read: "triple (run_from R s0) (andthen (get_command h i) (\<lambda>v. ret (Enqueued v))) (\<lambda>_. run_from R s0) (\<lambda>_. run_from R s0)" for i
      using keeps_readonly [of "andthen (get_command h i) (\<lambda>v. ret (Enqueued v))" R s0]
      by (simp add: keeps_def readonly_rules)
    have "triple (\<lambda>s. (run_from R s0 s \<and> find_key repo key s = None) \<and> command_seq s + 1 = i)
        (modify (\<lambda>s. s\<lparr>command_seq := i, commands := commands s @ [new_command i repo md ids digest key req now]\<rparr>))
        (\<lambda>_. run_from R s0) (\<lambda>_. run_from R s0)" for i
      by (rule triple_modify) (auto intro: run_from_move [OF _ qmove.insert])
    then show ?thesis unfolding None option.case
      by (intro triple_gets_then) (rule triple_andthen [OF _ read])
  qed
qed

lemma keeps_enqueue: "keeps (run_from R s0) (enqueue_command h repo md ids digest key)"
  unfolding enqueue_command_def Let_def
  by (intro keeps_andthen keeps_case_option keeps_if keeps_insert) (auto intro!: keeps_readonly readonly_rules)

lemma keeps_resume: "repo \<notin> R \<Longrightarrow> keeps (run_from R s0) (resume_run_command_queue h exe repo)"
proof -
  assume r: "repo \<notin> R"
  have "keeps (run_from R s0) (modify (clear_pause repo))"
    by (rule keepsI) (auto intro: run_from_move [OF _ qmove.resume [OF r]])
  then show ?thesis unfolding resume_run_command_queue_def
    by (intro keeps_andthen keeps_if keeps_try_launch) (auto intro!: keeps_readonly readonly_rules)
qed

lemma keeps_remove: "repo \<notin> R \<Longrightarrow> keeps (run_from R s0) (remove_repository repo)"
proof (rule keepsI)
  fix s :: "'a dash" assume r: "repo \<notin> R" and p: "run_from R s0 s"
  show "run_from R s0 (snd (remove_repository repo s))"
  proof (cases "repository_has_active_command repo s")
    case True
    then show ?thesis using p by (simp add: remove_repository_def andthen_def refuse_when_def)
  next
    case False
    let ?s = "clear_pause repo (s\<lparr>commands := filter (\<lambda>c. cmd_repo c \<noteq> repo) (commands s)\<rparr>)"
    have u: "run_from R s0 ?s" by (rule run_from_move [OF p qmove.unregister [OF r False]])
    have "run_from R s0 (snd (delete_repository repo ?s))"
      using u run_from_move [OF u qmove.outside [of R ?s _ "d_world ?s"]]
      by (auto simp: delete_repository_def get_repository_def andthen_def or_raise_def split: option.split)
    then show ?thesis using False by (simp add: remove_repository_def andthen_def refuse_when_def delete_commands_for_repository_def)
  qed
qed

lemma keeps_create: "keeps (run_from R s0) (create_run_command h exe repo md ids digest key)"
proof -
  have "keeps (run_from R s0) (case r of NoOp gone \<Rightarrow> ret r
     | Enqueued v \<Rightarrow> andthen (get_command h (cmd_id (view_of v))) (\<lambda>v. ret (Enqueued v)))" for r
    by (cases r) (auto intro!: keeps_readonly readonly_rules)
  then show ?thesis unfolding create_run_command_def
    by (intro keeps_andthen keeps_enqueue keeps_try_launch) (auto intro!: keeps_readonly readonly_rules)
qed

section \<open>The dashboard as a whole\<close>

text \<open>What arrives: requests, scheduler passes, registrations, changes outside, and restarts.\<close>

datatype 'w request =
    Create int string "string list option" string string
  | Acknowledge int int
  | Cancel int int
  | Resume int
  | Drain int
  | Unregister int
  | Tick
  | Register registration
  | Elsewhere 'w
  | Restart

fun serve :: "'w host \<Rightarrow> string \<Rightarrow> 'w request \<Rightarrow> 'w dash \<Rightarrow> 'w dash" where
  "serve h exe (Create repo md ids digest key) s = snd (create_run_command h exe repo md ids digest key s)"
| "serve h exe (Acknowledge repo i) s = snd (acknowledge_abnormal_command h repo i s)"
| "serve h exe (Cancel repo i) s = snd (cancel_queued_command h repo i s)"
| "serve h exe (Resume repo) s = snd (resume_run_command_queue h exe repo s)"
| "serve h exe (Drain repo) s = snd (drain_run_commands h exe repo s)"
| "serve h exe (Unregister repo) s = snd (remove_repository repo s)"
| "serve h exe Tick s = snd (scheduler_tick h exe s)"
| "serve h exe (Register r) s = s\<lparr>registrations := registrations s @ [r]\<rparr>"
| "serve h exe (Elsewhere w) s = s\<lparr>d_world := w\<rparr>"
| "serve h exe Restart s = reconcile_ambiguous_claims_on_startup (s\<lparr>live := []\<rparr>)"

definition serve_all :: "'w host \<Rightarrow> string \<Rightarrow> 'w request list \<Rightarrow> 'w dash \<Rightarrow> 'w dash" where
  "serve_all h exe rs s = foldl (\<lambda>s r. serve h exe r s) s rs"

definition new_dashboard :: "'w \<Rightarrow> 'w dash" where
  "new_dashboard w = \<lparr>registrations = [], commands = [], command_seq = 0, queue_pauses = [], live = [],
     spawned = [], d_world = w\<rparr>"

lemma keeps_drain: "keeps (run_from R s0) (drain_run_commands h exe repo)"
  unfolding drain_run_commands_def
  by (intro keeps_andthen keeps_try_launch) (auto intro!: keeps_readonly readonly_rules)

lemmas keeps_requests = keeps_create keeps_acknowledge keeps_cancel keeps_drain keeps_scheduler

text \<open>The repository whose pause a request may lift.\<close>

fun lifts :: "'w request \<Rightarrow> int set" where
  "lifts (Resume repo) = {repo}"
| "lifts (Unregister repo) = {repo}"
| "lifts _ = {}"

lemma serve_keeps:
  assumes "run_from R s0 s" and "lifts r \<inter> R = {}"
  shows "run_from R s0 (serve h exe r s)"
  using assms(2) by (cases r) (simp_all add: assms(1) keeps_requests [THEN keepsD, OF assms(1)]
    keepsD [OF keeps_resume assms(1)] keepsD [OF keeps_remove assms(1)] run_from_move [OF assms(1) qmove.restart]
    run_from_move [OF assms(1) qmove.outside, of _ "d_world s", simplified])

lemma serve_all_keeps:
  assumes "run_from R s0 s" and "\<And>r. r \<in> set rs \<Longrightarrow> lifts r \<inter> R = {}"
  shows "run_from R s0 (serve_all h exe rs s)"
  using assms unfolding serve_all_def by (induction rs arbitrary: s) (simp_all add: serve_keeps)

lemma new_dashboard_ok: "queue_inv (new_dashboard w)"
  by (simp add: queue_inv_defs new_dashboard_def row_keys_def)

lemma run_from_start: "queue_inv s \<Longrightarrow> run_from R s s"
  by (simp add: run_from_def)

end
