(* ===== verification/QueueProps.thy ===== *)
theory QueueProps
  imports QueueRun
begin

text \<open>
  What the run queue promises over any history: requests, scheduler passes, registrations, changes
  outside the dashboard, deaths in the middle of an operation and restarts, in any order.
\<close>

section \<open>Along a sequence of moves\<close>

lemma moves_invariant:
  assumes "run_from R s0 s" and "queue_inv s0" and "I s0"
    and step: "\<And>s s'. queue_inv s \<Longrightarrow> qmove R s s' \<Longrightarrow> I s \<Longrightarrow> I s'"
  shows "I s"
proof -
  have "(qmove R)\<^sup>*\<^sup>* s0 s" using assms(1) by (simp add: run_from_def)
  then have "I s \<and> queue_inv s"
  proof induction
    case (step s s')
    then show ?case using assms(4) [of s s'] qmove_inv [of R s s'] by blast
  qed (use assms(2,3) in simp)
  then show ?thesis by simp
qed

text \<open>A state of the dashboard after any history.\<close>

abbreviation served :: "'w host \<Rightarrow> string \<Rightarrow> 'w request list \<Rightarrow> 'w \<Rightarrow> 'w dash" where
  "served h exe rs w \<equiv> serve_all h exe rs (new_dashboard w)"

lemma served_ok: "queue_inv (served h exe rs w)"
proof -
  have "run_from {} (new_dashboard w) (served h exe rs w)"
    by (rule serve_all_keeps [OF run_from_start [OF new_dashboard_ok]]) simp
  then show ?thesis by (simp add: run_from_def)
qed

lemma served_from:
  assumes "\<And>r. r \<in> set rest \<Longrightarrow> lifts r \<inter> R = {}"
  shows "run_from R (served h exe rs w) (serve_all h exe rest (served h exe rs w))"
  by (rule serve_all_keeps [OF run_from_start [OF served_ok]]) (rule assms)

lemma served_append: "served h exe (rs @ rest) w = serve_all h exe rest (served h exe rs w)"
  by (simp add: serve_all_def)

section \<open>One at a time, in order, once\<close>

lemma at_most_one:
  assumes "sorted_wrt (<) (map f xs)" and "\<And>x y. x \<in> set xs \<Longrightarrow> y \<in> set xs \<Longrightarrow> P x \<Longrightarrow> P y \<Longrightarrow> \<not> f x < (f y :: int)"
  shows "length (filter P xs) \<le> 1"
proof (cases "filter P xs")
  case (Cons x ys)
  show ?thesis
  proof (cases ys)
    case (Cons y zs)
    with \<open>filter P xs = x # ys\<close> have f: "filter P xs = x # y # zs" by simp
    have "sorted_wrt (<) (map f (filter P xs))"
      using assms(1) by (simp add: sorted_wrt_map sorted_wrt_filter)
    then have "f x < f y" using f by simp
    moreover have "x \<in> set (filter P xs)" "y \<in> set (filter P xs)" using f by simp_all
    ultimately show ?thesis using assms(2) [of x y] by simp
  qed (use Cons in simp)
qed simp

text \<open>
  C6: After any history, at most one command of a repository holds it (claimed, launched, of unknown
  ownership or abnormally ended); the processes of a repository were started in the order in which its
  commands were enqueued and at most one per command; and a process handle belongs to a launched
  command.
\<close>

theorem queue_serial:
  shows "length (filter (of_repo repo blocking_status) (commands (served h exe rs w))) \<le> 1 \<and>
    sorted_wrt (<) (map snd (filter (\<lambda>x. fst x = repo) (spawned (served h exe rs w)))) \<and>
    list_all (\<lambda>(i, pid). map_of (live (served h exe rs w)) i = Some pid \<longrightarrow>
      list_ex (\<lambda>c. cmd_id c = i \<and> cmd_status c = LAUNCHED \<and> process_pid c = Some pid) (commands (served h exe rs w)))
      (live (served h exe rs w))"
proof (intro conjI)
  let ?s = "served h exe rs w"
  have inv: "queue_inv ?s" by (rule served_ok)
  then have ok: "rows_ok ?s" and bl: "one_blocking ?s" and so: "spawn_order ?s" and hd: "handles_ok ?s"
    by (simp_all add: queue_inv_def)
  show "length (filter (of_repo repo blocking_status) (commands ?s)) \<le> 1"
    by (rule at_most_one [OF rows_okD(1) [OF ok]]) (use bl in \<open>auto simp: one_blocking_def of_repo_def\<close>)
  have "sorted_wrt (\<lambda>(r, i) (r', j). r = r' \<longrightarrow> i < j) (filter (\<lambda>x. fst x = repo) (spawned ?s))"
    using so by (simp add: spawn_order_def sorted_wrt_filter)
  then show "sorted_wrt (<) (map snd (filter (\<lambda>x. fst x = repo) (spawned ?s)))"
    unfolding sorted_wrt_map by (rule sorted_wrt_mono_rel [rotated]) auto
  show "list_all (\<lambda>(i, pid). map_of (live ?s) i = Some pid \<longrightarrow>
      list_ex (\<lambda>c. cmd_id c = i \<and> cmd_status c = LAUNCHED \<and> process_pid c = Some pid) (commands ?s)) (live ?s)"
    using hd by (auto simp: handles_ok_def list_all_iff list_ex_iff)
qed

section \<open>The life of a command\<close>

inductive may_become :: "cmd_status \<Rightarrow> cmd_status \<Rightarrow> bool" where
  "may_become QUEUED CLAIMED"
| "may_become QUEUED CANCELLED"
| "may_become CLAIMED REFUSED"
| "may_become CLAIMED COMPLETED"
| "may_become CLAIMED LAUNCH_FAILED"
| "may_become CLAIMED LAUNCHED"
| "may_become CLAIMED LAUNCH_OWNERSHIP_UNKNOWN"
| "may_become LAUNCHED COMPLETED"
| "may_become LAUNCHED ABNORMAL_EXIT"
| "may_become ABNORMAL_EXIT ACKNOWLEDGED"

lemma same_request_trans: "same_request a b \<Longrightarrow> same_request b c \<Longrightarrow> same_request a c"
  by (simp add: same_request_def)

text \<open>A row after a move is the row before, with the same request and its status moved on, or the new row.\<close>

definition stems_from :: "'w dash \<Rightarrow> command \<Rightarrow> bool" where
  "stems_from s d \<longleftrightarrow> (\<exists>c \<in> set (commands s). same_request d c \<and> may_become\<^sup>*\<^sup>* (cmd_status c) (cmd_status d))"

lemma stems_same: "d \<in> set (commands s) \<Longrightarrow> stems_from s d"
  by (auto simp: stems_from_def same_request_def intro!: bexI [of _ d])

lemma stems_update:
  assumes "rows_ok s" and "c \<in> set (commands s)" and "statuses f st" and "may_become (cmd_status c) st"
    and "d \<in> set (update_rows (cmd_id c) f (commands s))"
  shows "stems_from s d"
  using rows_after [OF assms(1,2,3,5)]
proof
  assume "d \<in> set (commands s) \<and> cmd_id d \<noteq> cmd_id c"
  then show ?thesis by (simp add: stems_same)
next
  assume "d = f c \<and> cmd_status d = st \<and> cmd_id d = cmd_id c \<and> cmd_repo d = cmd_repo c"
  then show ?thesis using assms(2,3,4) by (auto simp: stems_from_def statuses_def intro!: bexI [of _ c])
qed

lemma qmove_rows:
  assumes "qmove R s s'" and "queue_inv s" and "d \<in> set (commands s')"
  shows "stems_from s d \<or> cmd_id d = command_seq s + 1 \<and> command_seq s' = command_seq s + 1"
  using assms
proof (induction rule: qmove.induct)
  case (claim repo s c f)
  have ok: "rows_ok s" using claim.prems by (simp add: queue_inv_def)
  note c = next_queued_least [OF ok claim.hyps(2)]
  show ?case using stems_update [OF ok c(1) claim.hyps(3), of d] claim.prems c(3) by (simp add: may_become.intros)
next
  case (settle c s st f)
  have "may_become (cmd_status c) st" using settle.hyps(2) by (auto simp: settles_def intro: may_become.intros)
  then show ?case using stems_update [OF _ settle.hyps(1,4), of d] settle.prems by (simp add: queue_inv_def)
next
  case (launch c s f pid)
  then show ?case using stems_update [OF _ launch.hyps(1,4), of d] by (simp add: queue_inv_def may_become.intros)
next
  case (cancel c s f ps)
  then show ?case using stems_update [OF _ cancel.hyps(1,3), of d] by (simp add: queue_inv_def may_become.intros)
next
  case (restart s)
  then obtain c where c: "c \<in> set (commands s)" "d = (if cmd_status c = CLAIMED
      then c\<lparr>cmd_status := LAUNCH_OWNERSHIP_UNKNOWN, cmd_refusal := Some AmbiguousClaim\<rparr> else c)"
    by (auto simp: reconcile_ambiguous_claims_on_startup_def)
  then show ?case by (auto simp: stems_from_def same_request_def may_become.intros intro!: bexI [of _ c] r_into_rtranclp)
qed (auto intro: stems_same simp: clear_pause_def new_command_def)

lemma qmove_seq: "qmove R s s' \<Longrightarrow> command_seq s \<le> command_seq s'"
  by (induction rule: qmove.induct) (simp_all add: clear_pause_def reconcile_ambiguous_claims_on_startup_def)

text \<open>
  C13: The life of a command. Whatever happens after a command was seen, a command with its identifier
  is the same request (repository, mode, issues, digest, key), and its status has moved only along the
  transitions above: identifiers are never reused, and a refused, completed, failed, acknowledged or
  cancelled command stays that.
\<close>

theorem command_life:
  assumes "c \<in> set (commands (served h exe rs w))" and "d \<in> set (commands (served h exe (rs @ rest) w))"
    and "cmd_id d = cmd_id c"
  shows "same_request d c \<and> may_become\<^sup>*\<^sup>* (cmd_status c) (cmd_status d)"
proof -
  let ?old = "served h exe rs w" and ?s = "served h exe (rs @ rest) w"
  have inv: "queue_inv ?old" by (rule served_ok)
  let ?I = "\<lambda>s. command_seq ?old \<le> command_seq s \<and> (\<forall>d \<in> set (commands s). cmd_id d \<le> command_seq ?old \<longrightarrow> stems_from ?old d)"
  have "?I ?s"
    unfolding served_append
  proof (rule moves_invariant [where I = ?I, OF served_from inv])
    show "lifts r \<inter> {} = {}" for r :: "'a request" by simp
    show "?I ?old" by (simp add: stems_same)
    fix s s' assume q: "queue_inv s" and m: "qmove {} s s'" and i: "?I s"
    have "stems_from ?old d" if d: "d \<in> set (commands s')" "cmd_id d \<le> command_seq ?old" for d
      using qmove_rows [OF m q d(1)]
    proof
      assume "stems_from s d"
      then obtain e where e: "e \<in> set (commands s)" "same_request d e" "may_become\<^sup>*\<^sup>* (cmd_status e) (cmd_status d)"
        by (auto simp: stems_from_def)
      then have "stems_from ?old e" using i d(2) by (simp add: same_request_def)
      then show ?thesis using e(2,3) same_request_trans unfolding stems_from_def by (meson rtranclp_trans)
    qed (use i d(2) in simp)
    then show "?I s'" using i qmove_seq [OF m] by auto
  qed
  moreover have "cmd_id c \<le> command_seq ?old" using inv assms(1) rows_okD(2) by (auto simp: queue_inv_def)
  ultimately have "stems_from ?old d" using assms(2,3) by simp
  then obtain e where e: "e \<in> set (commands ?old)" "same_request d e" "may_become\<^sup>*\<^sup>* (cmd_status e) (cmd_status d)"
    by (auto simp: stems_from_def)
  moreover have "e = c" using rows_okD(3) [of ?old e c] inv e(1,2) assms(1,3) by (simp add: queue_inv_def same_request_def)
  ultimately show ?thesis by simp
qed

section \<open>What one move does to a row, to the pauses and to the processes\<close>

inductive_cases becomes_cases: "may_become st st'"

lemma row_updated:
  assumes "rows_ok s" and c: "c \<in> set (commands s)" and d: "d \<in> set (commands s)" and f: "statuses f st"
    and "may_become (cmd_status c) st" and "st = CLAIMED \<longrightarrow> has_launchable_command (cmd_repo c) s"
  shows "\<exists>d' \<in> set (update_rows (cmd_id c) f (commands s)). same_request d' d \<and>
    (d' = d \<or> may_become (cmd_status d) (cmd_status d') \<and> (cmd_status d' = CLAIMED \<longrightarrow> has_launchable_command (cmd_repo d) s))"
proof (cases "cmd_id d = cmd_id c")
  case True
  then have "d = c" using rows_okD(3) [OF assms(1) d c] by blast
  moreover have "f c \<in> set (update_rows (cmd_id c) f (commands s))" using c by force
  ultimately show ?thesis using f assms(5,6) by (auto simp: statuses_def)
next
  case False
  then have "d \<in> set (update_rows (cmd_id c) f (commands s))" using d by force
  then show ?thesis by (auto simp: same_request_def)
qed

lemma qmove_forward:
  assumes "qmove R s s'" and "queue_inv s" and "d \<in> set (commands s)"
  shows "(\<exists>d' \<in> set (commands s'). same_request d' d \<and>
      (d' = d \<or> may_become (cmd_status d) (cmd_status d') \<and> (cmd_status d' = CLAIMED \<longrightarrow> has_launchable_command (cmd_repo d) s)))
    \<or> cmd_repo d \<notin> R \<and> \<not> repository_has_active_command (cmd_repo d) s"
  using assms
proof (induction rule: qmove.induct)
  case (claim repo s c f)
  have ok: "rows_ok s" using claim.prems by (simp add: queue_inv_def)
  note c = next_queued_least [OF ok claim.hyps(2)]
  show ?case using row_updated [OF ok c(1) claim.prems(2) claim.hyps(3)] claim.hyps(1) c(2,3) by (simp add: may_become.intros)
next
  case (settle c s st f)
  have "may_become (cmd_status c) st" "st \<noteq> CLAIMED" using settle.hyps(2) by (auto simp: settles_def intro: may_become.intros)
  then show ?case using row_updated [OF _ settle.hyps(1) settle.prems(2) settle.hyps(4)] settle.prems by (simp add: queue_inv_def)
next
  case (launch c s f pid)
  then show ?case using row_updated [OF _ launch.hyps(1) launch.prems(2) launch.hyps(4)] by (simp add: queue_inv_def may_become.intros)
next
  case (cancel c s f ps)
  then show ?case using row_updated [OF _ cancel.hyps(1) cancel.prems(2) cancel.hyps(3)] by (simp add: queue_inv_def may_become.intros)
next
  case (restart s)
  let ?d = "if cmd_status d = CLAIMED then d\<lparr>cmd_status := LAUNCH_OWNERSHIP_UNKNOWN, cmd_refusal := Some AmbiguousClaim\<rparr> else d"
  have "?d \<in> set (commands (reconcile_ambiguous_claims_on_startup (s\<lparr>live := []\<rparr>)))"
    using restart.prems by (auto simp: reconcile_ambiguous_claims_on_startup_def image_iff)
  moreover have "same_request ?d d" "?d = d \<or> may_become (cmd_status d) (cmd_status ?d)" "cmd_status ?d \<noteq> CLAIMED"
    by (auto simp: same_request_def may_become.intros)
  ultimately show ?case by blast
qed (auto simp: clear_pause_def same_request_def)

lemma qmove_spawned:
  "qmove R s s' \<Longrightarrow> spawned s' = spawned s \<or>
     (\<exists>c \<in> set (commands s). cmd_status c = CLAIMED \<and> spawned s' = spawned s @ [(cmd_repo c, cmd_id c)])"
  by (induction rule: qmove.induct) (auto simp: clear_pause_def reconcile_ambiguous_claims_on_startup_def)

lemma qmove_paused: "qmove R s s' \<Longrightarrow> r \<in> R \<Longrightarrow> is_queue_paused r s \<Longrightarrow> is_queue_paused r s'"
  by (induction rule: qmove.induct)
    (fastforce simp: is_queue_paused_def clear_pause_def reconcile_ambiguous_claims_on_startup_def list_ex_iff)+

section \<open>Unknown ownership\<close>

definition same_spawns :: "int \<Rightarrow> 'w dash \<Rightarrow> 'w dash \<Rightarrow> bool" where
  "same_spawns repo s s' \<longleftrightarrow> filter (\<lambda>x. fst x = repo) (spawned s) = filter (\<lambda>x. fst x = repo) (spawned s')"

text \<open>
  C12: A launch whose outcome is unknown is never repeated: after a restart found a claimed command, its
  row keeps that status whatever is requested later, and no process is started for its repository.
\<close>

theorem unresolved_blocks_forever:
  assumes "c \<in> set (commands (served h exe rs w))" and "cmd_status c = LAUNCH_OWNERSHIP_UNKNOWN"
  shows "c \<in> set (commands (served h exe (rs @ rest) w)) \<and>
    same_spawns (cmd_repo c) (served h exe rs w) (served h exe (rs @ rest) w)"
  unfolding served_append
proof (rule moves_invariant [OF served_from served_ok,
      where I = "\<lambda>s. c \<in> set (commands s) \<and> same_spawns (cmd_repo c) (served h exe rs w) s"])
  show "lifts r \<inter> {} = {}" for r :: "'a request" by simp
  show "c \<in> set (commands (served h exe rs w)) \<and> same_spawns (cmd_repo c) (served h exe rs w) (served h exe rs w)"
    using assms(1) by (simp add: same_spawns_def)
  fix s s' assume inv: "queue_inv s" and m: "qmove {} s s'"
    and i: "c \<in> set (commands s) \<and> same_spawns (cmd_repo c) (served h exe rs w) s"
  have b: "blocking_status (cmd_status c)" using assms(2) by (simp add: blocking_status_def)
  then have "repository_has_active_command (cmd_repo c) s"
    using i by (auto simp: repository_has_active_command_def list_ex_iff of_repo_def)
  then have "c \<in> set (commands s')"
    using qmove_forward [OF m inv, of c] i assms(2) by (auto elim: becomes_cases)
  moreover have "cmd_repo d \<noteq> cmd_repo c" if d: "d \<in> set (commands s)" "cmd_status d = CLAIMED" for d
  proof
    assume r: "cmd_repo d = cmd_repo c"
    have "blocking_status (cmd_status d)" using d(2) by (simp add: blocking_status_def)
    then have "cmd_id d = cmd_id c" using inv d(1) r i b unfolding queue_inv_def one_blocking_def by (metis linorder_neqE)
    then have "d = c" using rows_okD(3) [of s d c] inv d(1) i by (simp add: queue_inv_def)
    then show False using d(2) assms(2) by simp
  qed
  ultimately show "c \<in> set (commands s') \<and> same_spawns (cmd_repo c) (served h exe rs w) s'"
    using qmove_spawned [OF m] i by (auto simp: same_spawns_def)
qed

section \<open>Pauses\<close>

text \<open>
  C16: A paused queue waits for its operator: as long as nobody resumes or unregisters the repository,
  it stays paused, and a command that was waiting is still waiting or was cancelled; it was not
  claimed, and no process was started for it.
\<close>

theorem pause_holds:
  assumes "is_queue_paused (cmd_repo c) (served h exe rs w)" and "c \<in> set (commands (served h exe rs w))"
    and "cmd_status c = QUEUED" and "\<And>r. r \<in> set rest \<Longrightarrow> cmd_repo c \<notin> lifts r"
  shows "is_queue_paused (cmd_repo c) (served h exe (rs @ rest) w) \<and>
    (\<exists>d \<in> set (commands (served h exe (rs @ rest) w)). same_request d c \<and> cmd_status d \<in> {QUEUED, CANCELLED}) \<and>
    (cmd_repo c, cmd_id c) \<notin> set (spawned (served h exe (rs @ rest) w))"
  unfolding served_append
proof (rule moves_invariant [OF served_from served_ok, where R = "{cmd_repo c}" and I = "\<lambda>s. is_queue_paused (cmd_repo c) s \<and>
    (\<exists>d \<in> set (commands s). same_request d c \<and> cmd_status d \<in> {QUEUED, CANCELLED}) \<and> (cmd_repo c, cmd_id c) \<notin> set (spawned s)"])
  let ?old = "served h exe rs w"
  show "lifts r \<inter> {cmd_repo c} = {}" if "r \<in> set rest" for r using assms(4) [OF that] by blast
  have "(cmd_repo c, cmd_id c) \<notin> set (spawned ?old)"
    using served_ok [of h exe rs w] assms(2,3) by (fastforce simp: queue_inv_def fifo_def)
  then show "is_queue_paused (cmd_repo c) ?old \<and>
      (\<exists>d \<in> set (commands ?old). same_request d c \<and> cmd_status d \<in> {QUEUED, CANCELLED}) \<and> (cmd_repo c, cmd_id c) \<notin> set (spawned ?old)"
    using assms(1-3) by (auto simp: same_request_def intro!: bexI [of _ c])
  fix s s' assume inv: "queue_inv s" and m: "qmove {cmd_repo c} s s'"
    and i: "is_queue_paused (cmd_repo c) s \<and>
      (\<exists>d \<in> set (commands s). same_request d c \<and> cmd_status d \<in> {QUEUED, CANCELLED}) \<and> (cmd_repo c, cmd_id c) \<notin> set (spawned s)"
  then obtain d where d: "d \<in> set (commands s)" "same_request d c" "cmd_status d = QUEUED \<or> cmd_status d = CANCELLED" by auto
  have repo: "cmd_repo d = cmd_repo c" "cmd_id d = cmd_id c" using d(2) by (simp_all add: same_request_def)
  have "\<not> has_launchable_command (cmd_repo d) s" using i repo by (simp add: has_launchable_command_def)
  then obtain d' where d': "d' \<in> set (commands s')" "same_request d' d"
      "d' = d \<or> may_become (cmd_status d) (cmd_status d') \<and> cmd_status d' \<noteq> CLAIMED"
    using qmove_forward [OF m inv d(1)] repo by auto
  have "cmd_status d' \<in> {QUEUED, CANCELLED}" using d'(3) d(3) by (auto elim: becomes_cases)
  moreover have "same_request d' c" by (rule same_request_trans [OF d'(2) d(2)])
  moreover have "\<forall>e \<in> set (commands s). cmd_status e = CLAIMED \<longrightarrow> cmd_id e \<noteq> cmd_id c"
  proof (intro ballI impI notI)
    fix e assume e: "e \<in> set (commands s)" "cmd_status e = CLAIMED" "cmd_id e = cmd_id c"
    have "e = d" by (rule rows_okD(3) [of s]) (use inv e(1,3) d(1) repo(2) in \<open>simp_all add: queue_inv_def\<close>)
    then show False using e(2) d(3) by simp
  qed
  then have "(cmd_repo c, cmd_id c) \<notin> set (spawned s')" using qmove_spawned [OF m] i by auto
  moreover have "is_queue_paused (cmd_repo c) s'" by (rule qmove_paused [OF m]) (use i in auto)
  ultimately show "is_queue_paused (cmd_repo c) s' \<and>
      (\<exists>d \<in> set (commands s'). same_request d c \<and> cmd_status d \<in> {QUEUED, CANCELLED}) \<and> (cmd_repo c, cmd_id c) \<notin> set (spawned s')"
    using d'(1) by blast
qed

section \<open>Idempotent requests\<close>

lemma key_found:
  assumes "queue_inv s" and c: "c \<in> set (commands s)"
  shows "find_key (cmd_repo c) (cmd_key c) s = Some c"
proof (cases "find_key (cmd_repo c) (cmd_key c) s")
  case None
  then show ?thesis using c by (auto simp: find_key_def find_None_iff)
next
  case (Some d)
  then have d: "d \<in> set (commands s)" "cmd_repo d = cmd_repo c" "cmd_key d = cmd_key c"
    by (auto simp: find_key_def dest: find_SomeD)
  have "distinct (map (\<lambda>c. (cmd_repo c, cmd_key c)) (commands s))"
    using assms(1) by (simp add: queue_inv_def rows_ok_def row_keys_def o_def)
  then have "d = c" using d c by (auto simp: distinct_map dest: inj_onD)
  with Some show ?thesis by simp
qed

text \<open>
  A request is enqueued once: repeating the key of a command that is still known answers with that
  command if mode, issues (in any order) and digest are the same, and refuses the key otherwise;
  either way nothing changes, whatever the host would have answered.
\<close>

theorem enqueue_repeat:
  assumes "c \<in> set (commands (served h exe rs w))"
  shows "enqueue_command h' (cmd_repo c) md ids digest (cmd_key c) (served h exe rs w) =
    (if normalized_request md ids digest = cmd_request c
     then (Inr (Enqueued (row_to_view h' (served h exe rs w) c)), served h exe rs w)
     else (Inl (ApiError ''IDEMPOTENCY_KEY_REUSED''), served h exe rs w))"
proof -
  let ?s = "served h exe rs w"
  have inv: "queue_inv ?s" by (rule served_ok)
  then have "find_command (cmd_id c) (commands ?s) = Some c" by (intro row_found assms) (simp add: queue_inv_def)
  then show ?thesis using key_found [OF inv assms]
    by (auto simp: enqueue_command_def andthen_def repeated_def get_command_def or_raise_def Let_def)
qed

section \<open>Acknowledgement\<close>

text \<open>
  A failed command is released only on proof, in this order: the probe of its recorded process answers that it is dead;
  in the world that probe leaves, its run, if known, has an outcome; and then the repository's configured queue can
  be read.
\<close>

definition released_on_proof :: "'w host \<Rightarrow> 'w dash \<Rightarrow> command \<Rightarrow> bool" where
  "released_on_proof h s c \<longleftrightarrow> cmd_status c = ABNORMAL_EXIT \<and>
     (\<exists>pid created current err w. process_pid c = Some pid \<and> process_creation_time c = Some created \<and> created \<noteq> [] \<and>
        process_probe h pid (d_world s) = (Inr (''dead'', current, err), w) \<and>
        (\<forall>rid. run_id_correlation c = Some rid \<longrightarrow> (\<exists>outcome. run_rows h (cmd_repo c) rid w = Some (Some outcome))) \<and>
        is_ok (fst (get_configured_issues h (cmd_repo c) (s\<lparr>d_world := w\<rparr>))))"

lemma probe_dead:
  assumes "probe_controller_identity h pid created s = (Inr DEAD, s')"
  obtains p t current err w where "pid = Some p" "created = Some t" "t \<noteq> []"
    "process_probe h p (d_world s) = (Inr (''dead'', current, err), w)" "s' = s\<lparr>d_world := w\<rparr>"
proof -
  obtain p t where pt: "pid = Some p" "created = Some t"
    using assms by (auto simp: probe_controller_identity_def split: option.splits)
  then have "t \<noteq> []" and d: "andthen (host_call (process_probe h p)) (\<lambda>seen. case seen of
           None \<Rightarrow> ret UNKNOWN
         | Some (observed, current, _) \<Rightarrow>
             if observed = ''dead'' then ret DEAD
             else if observed \<noteq> ''live'' \<or> current = None \<or> current = Some [] then ret UNKNOWN
             else if current = Some t then ret LIVE_MATCH
             else ret PID_REUSED) s = (Inr DEAD, s')"
    using assms by (auto simp: probe_controller_identity_def split: if_splits)
  obtain r w where r: "process_probe h p (d_world s) = (r, w)" by fastforce
  then obtain observed current err where "r = Inr (observed, current, err)"
    using d by (cases r) (auto simp: andthen_def host_call_def split: fault.splits)
  moreover from this have "observed = ''dead''" "s' = s\<lparr>d_world := w\<rparr>"
    using d r by (auto simp: andthen_def host_call_def split: if_splits)
  ultimately show thesis using that [OF pt \<open>t \<noteq> []\<close>] r by simp
qed

lemma readonlyD:
  assumes "readonly m" and "m s = (r, s')"
  obtains w where "s' = s\<lparr>d_world := w\<rparr>"
proof -
  obtain w where "snd (m s) = s\<lparr>d_world := w\<rparr>" using assms(1) unfolding readonly_def by blast
  then show thesis using that assms(2) by simp
qed

lemma andthen_Inr:
  assumes "andthen m f s = (Inr b, s')"
  obtains a s1 where "m s = (Inr a, s1)" "f a s1 = (Inr b, s')"
  using assms by (auto simp: andthen_eq)

lemma refuse_whenD: "refuse_when b code s = (Inr u, s') \<Longrightarrow> \<not> b \<and> s' = s"
  by (auto simp: refuse_when_def split: if_splits)

lemma command_of_repositoryD:
  assumes "command_of_repository h repo i s = (Inr v, s')"
  shows "s' = s \<and> find_command i (commands s) = Some (view_of v) \<and> cmd_repo (view_of v) = repo"
  using assms by (auto simp: command_of_repository_def get_command_def or_raise_def row_to_view_def andthen_eq
      split: option.splits if_splits)

lemma gates_passed:
  assumes "acknowledge_gates h (cmd_repo c) c s = (Inr u, s')" and "cmd_status c = ABNORMAL_EXIT"
  shows "released_on_proof h s c"
proof -
  note a = assms(1) [unfolded acknowledge_gates_def]
  obtain st s1 where p: "probe_controller_identity h (process_pid c) (process_creation_time c) s = (Inr st, s1)"
    using a by (rule andthen_Inr)
  have st: "st = DEAD" using a p by (auto simp: andthen_eq refuse_when_def split: if_splits)
  have "resolve_runtime_outcome h (cmd_repo c) (run_id_correlation c) (d_world s1) \<noteq> None \<or> run_id_correlation c = None"
    using a p by (auto simp: andthen_eq refuse_when_def split: if_splits)
  then have runs: "\<forall>rid. run_id_correlation c = Some rid \<longrightarrow> (\<exists>outcome. run_rows h (cmd_repo c) rid (d_world s1) = Some (Some outcome))"
    by (auto simp: resolve_runtime_outcome_def split: option.splits)
  have "is_ok (fst (get_configured_issues h (cmd_repo c) s1))"
    using a p by (auto simp: andthen_eq refuse_when_def catch_def is_ok_def split: if_splits prod.splits sum.splits)
  moreover obtain pid t current err w where "process_pid c = Some pid" "process_creation_time c = Some t" "t \<noteq> []"
    "process_probe h pid (d_world s) = (Inr (''dead'', current, err), w)" "s1 = s\<lparr>d_world := w\<rparr>"
    by (rule probe_dead [OF p [unfolded st]])
  ultimately show ?thesis using assms(2) runs unfolding released_on_proof_def by auto
qed

text \<open>
  C15: Acknowledging releases a repository on proof only. If it succeeds now, the command had ended
  abnormally, the probe of its recorded process identity answered that the process is dead, a run
  correlated with it had an outcome in the index right after that probe, and the configured queue could be read;
  the only change is then that its row has the status, the reason and the time of the acknowledgement: every other
  column of it, every other row, and every other part of the state (processes, launches, pauses, registrations) are as
  they were.
\<close>

theorem acknowledge_safe:
  assumes "acknowledge_abnormal_command h repo i s = (Inr (v, False), s')"
  shows "\<exists>c. find_command i (commands s) = Some c \<and> cmd_repo c = repo \<and> released_on_proof h s c \<and>
    s' = s\<lparr>commands := update_rows i (\<lambda>d. d\<lparr>cmd_status := ACKNOWLEDGED, finished_at := Some (clock h (d_world s')),
        cmd_refusal := Some AcknowledgedByOperator\<rparr>) (commands s), d_world := d_world s'\<rparr>"
proof -
  obtain v0 where v0: "find_command i (commands s) = Some (view_of v0)" "cmd_repo (view_of v0) = repo"
    and a: "(if cmd_status (view_of v0) = ACKNOWLEDGED then ret (v0, True) else
      andthen (refuse_when (cmd_status (view_of v0) \<noteq> ABNORMAL_EXIT) ''ACK_NOT_ABNORMAL'') (\<lambda>_.
      andthen (acknowledge_gates h repo (view_of v0)) (\<lambda>_. acknowledge_flip h i))) s = (Inr (v, False), s')"
    using assms unfolding acknowledge_abnormal_command_def by (elim andthen_Inr) (auto dest: command_of_repositoryD)
  then obtain u s1 where st: "cmd_status (view_of v0) = ABNORMAL_EXIT"
    and g: "acknowledge_gates h repo (view_of v0) s = (Inr u, s1)" and f: "acknowledge_flip h i s1 = (Inr (v, False), s')"
    by (auto simp: andthen_eq refuse_when_def split: if_splits)
  obtain w where w: "s1 = s\<lparr>d_world := w\<rparr>" by (rule readonlyD [OF readonly_reads(12) g])
  let ?f = "\<lambda>c. c\<lparr>cmd_status := ACKNOWLEDGED, finished_at := Some (clock h w), cmd_refusal := Some AcknowledgedByOperator\<rparr>"
  have "s' = s1\<lparr>commands := update_rows i ?f (commands s)\<rparr>"
    using f v0 st w
    by (auto simp: acknowledge_flip_def andthen_eq whenever_def finish_command_def update_command_def get_command_def
        or_raise_def split: option.splits if_splits)
  then show ?thesis using v0 w gates_passed [of h "view_of v0" s u s1] g st
    by (intro exI [of _ "view_of v0"]) simp
qed

section \<open>A dirty worktree\<close>

definition never_clean :: "'w host \<Rightarrow> bool" where
  "never_clean h \<longleftrightarrow> (\<forall>path w. case fst (worktree_status h path w) of Inl _ \<Rightarrow> True | Inr (blocked, untracked) \<Rightarrow> blocked \<or> untracked \<noteq> 0)"

lemma preflight_dirty:
  assumes "never_clean h" and "evaluate_worktree_preflight h repo s = (Inr pf, s')"
  shows "\<not> pf_clean pf"
proof -
  obtain path s1 where "andthen (host_call (worktree_status h path)) (\<lambda>st. case st of
       None \<Rightarrow> ret \<lparr>pf_clean = False, pf_blocking = True, pf_untracked = 0\<rparr>
     | Some (blocked, untracked) \<Rightarrow>
         ret \<lparr>pf_clean = (\<not> blocked \<and> untracked = 0), pf_blocking = blocked, pf_untracked = untracked\<rparr>) s1 = (Inr pf, s')"
    using assms(2) unfolding evaluate_worktree_preflight_def by (elim andthen_Inr) (auto split: prod.splits)
  moreover have "case fst (worktree_status h path (d_world s1)) of Inl _ \<Rightarrow> True | Inr (b, n) \<Rightarrow> b \<or> n \<noteq> 0"
    using assms(1) by (simp add: never_clean_def)
  ultimately show ?thesis
    by (auto simp: andthen_def host_call_def split: prod.splits sum.splits fault.splits)
qed

text \<open>The commands \<open>q\<close> wait and the processes \<open>sp\<close> were started.\<close>

definition waiting :: "command set \<Rightarrow> (int \<times> int) list \<Rightarrow> 'w dash \<Rightarrow> bool" where
  "waiting q sp s \<longleftrightarrow> rows_ok s \<and> (\<forall>c \<in> q. c \<in> set (commands s) \<and> cmd_status c = QUEUED) \<and> spawned s = sp"

lemma waiting_readonly: "readonly m \<Longrightarrow> keeps (waiting q sp) m"
  unfolding keeps_def by (rule readonly_triple) (simp_all add: waiting_def rows_ok_def)

lemma waiting_update:
  assumes "waiting q sp s" and "c \<in> set (commands s)" and "cmd_status c \<noteq> QUEUED" and f: "\<And>d. same_request (f d) d"
  shows "waiting q sp (s\<lparr>commands := update_rows (cmd_id c) f (commands s)\<rparr>)"
proof -
  have "rows_ok (s\<lparr>commands := update_rows (cmd_id c) f (commands s)\<rparr>)"
    by (rule update_rows_ok [of s f _ "cmd_id c"]) (use assms(1) f in \<open>simp_all add: waiting_def\<close>)
  moreover have "d \<in> set (update_rows (cmd_id c) f (commands s))" if "d \<in> q" for d
  proof -
    have d: "d \<in> set (commands s)" "cmd_status d = QUEUED" using assms(1) that by (simp_all add: waiting_def)
    then have "cmd_id d \<noteq> cmd_id c" using rows_okD(3) [of s d c] assms(1-3) by (auto simp: waiting_def)
    then show ?thesis using d by force
  qed
  ultimately show ?thesis using assms(1) by (simp add: waiting_def)
qed

lemma waiting_live [simp]: "waiting q sp (s\<lparr>live := l\<rparr>) = waiting q sp s"
  "waiting q sp (s\<lparr>queue_pauses := ps\<rparr>) = waiting q sp s"
  by (simp_all add: waiting_def rows_ok_def)

lemma waiting_update_command:
  assumes "cmd_status c \<noteq> QUEUED" and "\<And>d. same_request (f d) d"
  shows "triple (\<lambda>s. waiting q sp s \<and> c \<in> set (commands s)) (update_command (cmd_id c) f) (\<lambda>_. waiting q sp) E"
  unfolding update_command_def using waiting_update [OF _ _ assms] by (intro triple_modify) blast

lemma waiting_reconcile:
  "triple (\<lambda>s. waiting q sp s \<and> c \<in> set (commands s)) (reconcile_launched_command h c) (\<lambda>_. waiting q sp) (\<lambda>_. waiting q sp)"
proof (cases "cmd_status c = LAUNCHED")
  case False
  then show ?thesis by (simp add: reconcile_launched_command_def) (auto intro: triple_ret)
next
  case True
  let ?P = "\<lambda>s. waiting q sp s \<and> c \<in> set (commands s)"
  have P: "\<And>s w. ?P s \<Longrightarrow> ?P (s\<lparr>d_world := w\<rparr>)" by (simp add: waiting_def rows_ok_def)
  note upd = waiting_update_command [of c, unfolded True, simplified]
  have ex: "triple ?P (exited h c code) (\<lambda>_. waiting q sp) (\<lambda>_. waiting q sp)" for code
    unfolding exited_def Let_def
    by (rule triple_andthen [OF triple_modify [where Q = "\<lambda>_. ?P"]])
      (auto intro!: triple_gets_any upd triple_case_prod simp: same_request_def)
  have un: "triple ?P (andthen (probe_controller_identity h (process_pid c) (process_creation_time c)) (\<lambda>st.
      if st \<in> {DEAD, PID_REUSED} then
        update_command (cmd_id c) (\<lambda>c. c\<lparr>cmd_status := ABNORMAL_EXIT, cmd_refusal := Some ExitedUnwatched\<rparr>)
      else ret ())) (\<lambda>_. waiting q sp) (\<lambda>_. waiting q sp)"
    by (rule readonly_then [where P = ?P, OF readonly_reads(8) P])
      (auto intro!: upd triple_ret simp: same_request_def)
  have pl: "triple ?P (andthen (host_call (poll h pid)) (\<lambda>polled. case polled of
      Some (Some code) \<Rightarrow> exited h c code | Some None \<Rightarrow> ret () | None \<Rightarrow> throw Unhandled)) (\<lambda>_. waiting q sp) (\<lambda>_. waiting q sp)" for pid
    by (rule readonly_then [where P = ?P, OF readonly_host_call P])
      (auto intro!: ex triple_ret triple_throw split: option.split)
  show ?thesis
    unfolding reconcile_launched_command_def using True un pl
    by (auto intro!: triple_gets_any split: option.split)
qed

lemma waiting_claim:
  "triple (\<lambda>s. waiting q sp s \<and> \<not> has_launchable_command repo s) (claim_and_launch h exe repo) (\<lambda>_. waiting q sp) (\<lambda>_. waiting q sp)"
  unfolding triple_def claim_and_launch_def claim_next_launchable_command_def has_launchable_command_def
  by (auto simp: andthen_def)

lemma waiting_try_launch:
  assumes "never_clean h"
  shows "keeps (waiting q sp) (try_launch_next h exe repo)"
proof -
  have go: "triple (waiting q sp) (andthen (gets (has_launchable_command repo)) (\<lambda>launchable.
     andthen (if launchable then andthen (evaluate_worktree_preflight h repo) (\<lambda>pf. ret (pf_clean pf)) else ret True) (\<lambda>clean.
     if \<not> clean then ret None else claim_and_launch h exe repo))) (\<lambda>_. waiting q sp) (\<lambda>_. waiting q sp)"
  proof (rule triple_gets_then)
    fix b
    show "triple (\<lambda>s. waiting q sp s \<and> has_launchable_command repo s = b)
      (andthen (if b then andthen (evaluate_worktree_preflight h repo) (\<lambda>pf. ret (pf_clean pf)) else ret True) (\<lambda>clean.
        if \<not> clean then ret None else claim_and_launch h exe repo)) (\<lambda>_. waiting q sp) (\<lambda>_. waiting q sp)"
    proof (cases b)
      case False
      then show ?thesis using waiting_claim [of q sp repo h exe] by (simp add: triple_def andthen_def)
    next
      case True
      have "triple (waiting q sp) (andthen (evaluate_worktree_preflight h repo) (\<lambda>pf. ret (pf_clean pf)))
          (\<lambda>clean s. waiting q sp s \<and> \<not> clean) (\<lambda>_. waiting q sp)"
        using waiting_readonly [of "evaluate_worktree_preflight h repo" q sp] preflight_dirty [OF assms]
        unfolding keeps_def triple_def by (fastforce simp: andthen_def readonly_rules split: prod.splits sum.splits)
      then have "triple (waiting q sp) (andthen (andthen (evaluate_worktree_preflight h repo) (\<lambda>pf. ret (pf_clean pf))) (\<lambda>clean.
          if \<not> clean then ret None else claim_and_launch h exe repo)) (\<lambda>_. waiting q sp) (\<lambda>_. waiting q sp)"
        by (rule triple_andthen) (auto simp: triple_def)
      then show ?thesis using True by (auto intro: triple_conseq)
    qed
  qed
  show ?thesis
    unfolding keeps_def try_launch_next_def
  proof (rule triple_gets_then, rule triple_andthen [OF _ go])
    fix running
    show "triple (\<lambda>s. waiting q sp s \<and> launched_command repo s = running)
        (case running of None \<Rightarrow> ret () | Some c \<Rightarrow> reconcile_launched_command h c) (\<lambda>_. waiting q sp) (\<lambda>_. waiting q sp)"
      by (cases running)
        (auto intro: triple_ret triple_conseq [OF waiting_reconcile] simp: launched_command_def dest: find_SomeD)
  qed
qed

lemma waiting_enqueue:
  assumes "never_clean h"
  shows "keeps (waiting q sp) (enqueue_command h repo md ids digest key)"
proof -
  have pre: "keeps (waiting q sp) (andthen (evaluate_worktree_preflight h repo) (\<lambda>pf.
      andthen (refuse_when (\<not> pf_clean pf) ''WORKTREE_NOT_CLEAN'') (\<lambda>_. k)))" for k :: "('a, enqueued) dprog"
  proof (rule keepsI)
    fix s :: "'a dash" assume "waiting q sp s"
    then have "waiting q sp (snd (evaluate_worktree_preflight h repo s))"
      using waiting_readonly [THEN keepsD] readonly_reads(5) by blast
    then show "waiting q sp (snd (andthen (evaluate_worktree_preflight h repo) (\<lambda>pf.
      andthen (refuse_when (\<not> pf_clean pf) ''WORKTREE_NOT_CLEAN'') (\<lambda>_. k)) s))"
      using preflight_dirty [OF assms, of repo s] by (auto simp: andthen_def refuse_when_def split: prod.splits sum.splits)
  qed
  show ?thesis
    unfolding enqueue_command_def Let_def
    by (intro pre keeps_if keeps_andthen [OF waiting_readonly] keeps_case_option waiting_readonly) (intro readonly_rules)+
qed

fun launches :: "'w request \<Rightarrow> bool" where
  "launches (Create repo md ids digest key) = True"
| "launches (Resume repo) = True"
| "launches (Drain repo) = True"
| "launches Tick = True"
| "launches _ = False"

text \<open>
  C14: A dirty worktree defers, it does not lose: as long as the preflight never finds the tree clean, no
  request, resume, drain or scheduler pass starts a process, and every waiting command still waits,
  unchanged.
\<close>

theorem dirty_defers:
  assumes "never_clean h'" and "c \<in> set (commands (served h exe rs w))" and "cmd_status c = QUEUED" and "launches r"
  shows "c \<in> set (commands (serve h' exe' r (served h exe rs w))) \<and>
    spawned (serve h' exe' r (served h exe rs w)) = spawned (served h exe rs w)"
proof -
  let ?s = "served h exe rs w" and ?W = "waiting {c} (spawned (served h exe rs w))"
  note go = waiting_try_launch [OF assms(1)]
  have W: "?W ?s" using assms(2,3) served_ok [of h exe rs w] by (simp add: waiting_def queue_inv_def)
  have clear: "keeps ?W (modify (clear_pause repo))" for repo by (rule keepsI) (simp add: clear_pause_def)
  have a: "keeps ?W (create_run_command h' exe' repo md ids digest key)" for repo md ids digest key
    unfolding create_run_command_def
    by (intro keeps_andthen waiting_enqueue [OF assms(1)] go)
      (auto intro!: waiting_readonly readonly_rules split: enqueued.split)
  have b: "keeps ?W (resume_run_command_queue h' exe' repo)" for repo
    unfolding resume_run_command_queue_def
    by (intro keeps_andthen keeps_if go clear) (auto intro!: waiting_readonly readonly_rules)
  have d: "keeps ?W (drain_run_commands h' exe' repo)" for repo
    unfolding drain_run_commands_def by (intro keeps_andthen go) (auto intro!: waiting_readonly readonly_rules)
  have e: "keeps ?W (scheduler_tick h' exe')"
    unfolding scheduler_tick_def by (intro keeps_rules go)
  have "?W (serve h' exe' r ?s)" using assms(4)
    by (cases r) (simp_all add: keepsD [OF a W] keepsD [OF b W] keepsD [OF d W] keepsD [OF e W])
  then show ?thesis by (simp add: waiting_def)
qed

section \<open>Witnesses\<close>

text \<open>A host with one registered repository, whose file lists one issue; \<open>child\<close> is what \<open>Popen\<close> answers.\<close>

definition sample_host :: "bool \<Rightarrow> fault + int \<Rightarrow> unit host" where
  "sample_host dirty child = \<lparr>load_config = (\<lambda>_ w. (Inr \<lparr>cfg_repository = ''/r'', cfg_issues_file = ''Issues.md'',
       cfg_event_log = ''/r/e'', cfg_auth_mode = ''subscription'', cfg_budget = (3, 5, ''10.0'')\<rparr>, w)),
     canonical_path = (\<lambda>_ p. p), absolute_path = (\<lambda>_. False), join_path = (\<lambda>a b. a @ ''/'' @ b),
     issues_node = (\<lambda>_ w. (Inr (RegularFile ''## i1: t''), w)), hash_bytes = (\<lambda>_. replicate 64 (CHR ''0'')),
     utf8_text = Some, read_model = (\<lambda>_ _. Some (1, ''READY'')), issue_rows = (\<lambda>_ _ _. []), run_rows = (\<lambda>_ _ _. None),
     worktree_status = (\<lambda>_ w. (Inr (dirty, 0), w)), process_probe = (\<lambda>_ w. (Inr (''dead'', None, 0), w)),
     popen = (\<lambda>_ _ w. (child, w)), poll = (\<lambda>_ w. (Inr None, w)), drained = (\<lambda>_ _. ([], [])),
     host_environ = (\<lambda>_. []), clock = (\<lambda>_. ''2026'')\<rparr>"

definition sample_registration :: registration where
  "sample_registration = \<lparr>reg_id = 1, project_path = ''/r'', log_path = None, registered_at = ''2026'', config_path = Some ''c''\<rparr>"

definition run_all :: "string \<Rightarrow> unit request" where
  "run_all key = Create 1 ''ALL'' None (replicate 64 (CHR ''0'')) key"

text \<open>Two requests: the first is launched, the second waits. The third host dies while it launches.\<close>

definition busy :: "unit request list" where
  "busy = [Register sample_registration, run_all ''k1'', run_all ''k2'']"

definition paused_queue :: "unit request list" where
  "paused_queue = [Register sample_registration, run_all ''k1'', run_all ''k2'', run_all ''k3'', Cancel 1 2]"

definition died :: "unit request list" where
  "died = [Register sample_registration, run_all ''k1'', Restart]"

lemma busy_rows:
  "map (\<lambda>c. (cmd_id c, cmd_repo c, cmd_key c, cmd_status c)) (commands (served (sample_host False (Inr 7)) ''d'' busy ())) =
     [(1, 1, ''k1'', LAUNCHED), (2, 1, ''k2'', QUEUED)]"
  unfolding busy_def by code_simp

lemma paused_rows:
  "map (\<lambda>c. (cmd_id c, cmd_repo c, cmd_status c)) (commands (served (sample_host False (Inr 7)) ''d'' paused_queue ())) =
     [(1, 1, LAUNCHED), (2, 1, CANCELLED), (3, 1, QUEUED)] \<and>
   is_queue_paused 1 (served (sample_host False (Inr 7)) ''d'' paused_queue ())"
  unfolding paused_queue_def by code_simp

lemma died_rows:
  "map (\<lambda>c. (cmd_id c, cmd_repo c, cmd_status c)) (commands (served (sample_host False (Inl Died)) ''d'' died ())) =
     [(1, 1, LAUNCH_OWNERSHIP_UNKNOWN)]"
  unfolding died_def by code_simp

lemma row_at: "map f xs = ys \<Longrightarrow> k < length ys \<Longrightarrow> xs ! k \<in> set xs \<and> f (xs ! k) = ys ! k"
  by auto

abbreviation busy_queue :: "unit dash" where
  "busy_queue \<equiv> served (sample_host False (Inr 7)) ''d'' busy ()"

lemmas busy_first = row_at [OF busy_rows, of 0, simplified]
lemmas busy_second = row_at [OF busy_rows, of 1, simplified]

abbreviation first_launched :: "unit dash" where
  "first_launched \<equiv> served (sample_host False (Inr 7)) ''d'' [Register sample_registration, run_all ''k1''] ()"

lemma first_rows: "map cmd_id (commands first_launched) = [1]"
  by code_simp

lemma busy_later: "busy_queue = served (sample_host False (Inr 7)) ''d'' ([Register sample_registration, run_all ''k1''] @ [run_all ''k2'']) ()"
  by (simp add: busy_def)

theorem queue_serial_witness:
  "live busy_queue = [(1, 7)] \<and> length (filter (of_repo 1 blocking_status) (commands busy_queue)) \<le> 1 \<and>
   list_ex (\<lambda>c. cmd_id c = 1 \<and> cmd_status c = LAUNCHED \<and> process_pid c = Some 7) (commands busy_queue)"
proof -
  have live: "live busy_queue = [(1, 7)]" unfolding busy_def by code_simp
  from queue_serial [of 1 "sample_host False (Inr 7)" "''d''" busy "()"] live show ?thesis by simp
qed

theorem command_life_witness:
  "same_request (commands busy_queue ! 0) (commands first_launched ! 0)"
proof -
  have c: "commands first_launched ! 0 \<in> set (commands first_launched)" "cmd_id (commands first_launched ! 0) = 1"
    using row_at [OF first_rows, of 0] by simp_all
  have d: "commands busy_queue ! 0 \<in> set (commands busy_queue)" "cmd_id (commands busy_queue ! 0) = 1"
    using busy_first by simp_all
  show ?thesis by (rule conjunct1 [OF command_life [OF c(1) d(1) [unfolded busy_later], folded busy_later]]) (simp only: c(2) d(2))
qed

theorem unresolved_blocks_forever_witness:
  "same_spawns 1 (served (sample_host False (Inl Died)) ''d'' died ())
     (served (sample_host False (Inl Died)) ''d'' (died @ [run_all ''k2'', Tick]) ())"
proof -
  let ?s = "served (sample_host False (Inl Died)) ''d'' died ()"
  have c: "commands ?s ! 0 \<in> set (commands ?s)" "cmd_repo (commands ?s ! 0) = 1"
    "cmd_status (commands ?s ! 0) = LAUNCH_OWNERSHIP_UNKNOWN"
    using row_at [OF died_rows, of 0] by simp_all
  from unresolved_blocks_forever [OF c(1,3), of "[run_all ''k2'', Tick]"] c(2) show ?thesis by simp
qed

theorem pause_holds_witness:
  "is_queue_paused 1 (served (sample_host False (Inr 7)) ''d'' (paused_queue @ [Tick, Drain 1]) ())"
proof -
  let ?s = "served (sample_host False (Inr 7)) ''d'' paused_queue ()"
  have c: "commands ?s ! 2 \<in> set (commands ?s)" "cmd_repo (commands ?s ! 2) = 1" "cmd_status (commands ?s ! 2) = QUEUED"
    using row_at [of _ _ "[(1, 1, LAUNCHED), (2, 1, CANCELLED), (3, 1, QUEUED)]" 2, OF conjunct1 [OF paused_rows]] by simp_all
  have p: "is_queue_paused (cmd_repo (commands ?s ! 2)) ?s" using paused_rows c(2) by simp
  have "is_queue_paused (cmd_repo (commands ?s ! 2)) (served (sample_host False (Inr 7)) ''d'' (paused_queue @ [Tick, Drain 1]) ())"
    by (rule conjunct1 [OF pause_holds [OF p c(1,3)]]) auto
  then show ?thesis unfolding c(2) .
qed

theorem enqueue_repeat_witness:
  "fst (enqueue_command (sample_host True (Inr 7)) 1 ''SELECTED'' None [] ''k2'' busy_queue) =
     Inl (ApiError ''IDEMPOTENCY_KEY_REUSED'')"
proof -
  have c: "commands busy_queue ! 1 \<in> set (commands busy_queue)" "cmd_repo (commands busy_queue ! 1) = 1"
    "cmd_key (commands busy_queue ! 1) = ''k2''" using busy_second by simp_all
  have "map cmd_request (commands busy_queue) =
      [(''ALL'', None, replicate 64 (CHR ''0'')), (''ALL'', None, replicate 64 (CHR ''0''))]"
    unfolding busy_def by code_simp
  from row_at [OF this, of 1] have "normalized_request ''SELECTED'' None [] \<noteq> cmd_request (commands busy_queue ! 1)"
    by (simp add: normalized_request_def)
  with enqueue_repeat [OF c(1), of "sample_host True (Inr 7)" "''SELECTED''" None "[]"] c(2,3) show ?thesis by simp
qed

theorem dirty_defers_witness:
  "spawned (serve (sample_host True (Inr 7)) ''d'' Tick busy_queue) = spawned busy_queue"
proof -
  have n: "never_clean (sample_host True (Inr 7))" by (simp add: never_clean_def sample_host_def)
  have c: "commands busy_queue ! 1 \<in> set (commands busy_queue)" "cmd_status (commands busy_queue ! 1) = QUEUED"
    using busy_second by simp_all
  show ?thesis using dirty_defers [OF n c, where r = Tick] by simp
qed

text \<open>A command whose process ended while nobody watched, and its acknowledgement.\<close>

definition abnormal_row :: command where
  "abnormal_row = \<lparr>cmd_id = 1, cmd_repo = 1, cmd_mode = ''ALL'', cmd_issue_ids = None, cmd_digest = [], cmd_key = ''k'',
     cmd_request = (''ALL'', None, []), cmd_status = ABNORMAL_EXIT, cmd_refusal = Some ExitedUnwatched,
     process_pid = Some 7, process_creation_time = Some ''t'', run_id_correlation = None, created_at = ''2026'',
     claimed_at = Some ''2026'', finished_at = None\<rparr>"

definition abnormal_queue :: "unit dash" where
  "abnormal_queue = \<lparr>registrations = [sample_registration], commands = [abnormal_row], command_seq = 1,
     queue_pauses = [], live = [], spawned = [(1, 1)], d_world = ()\<rparr>"

theorem acknowledge_safe_witness:
  "\<exists>v s'. acknowledge_abnormal_command (sample_host False (Inr 7)) 1 1 abnormal_queue = (Inr (v, False), s') \<and>
     released_on_proof (sample_host False (Inr 7)) abnormal_queue abnormal_row"
proof -
  have "case acknowledge_abnormal_command (sample_host False (Inr 7)) 1 1 abnormal_queue of
      (Inr (v, already), s') \<Rightarrow> \<not> already | _ \<Rightarrow> False" by code_simp
  then obtain v s' where a: "acknowledge_abnormal_command (sample_host False (Inr 7)) 1 1 abnormal_queue = (Inr (v, False), s')"
    by (auto split: prod.splits sum.splits)
  have "find_command 1 (commands abnormal_queue) = Some abnormal_row"
    by (simp add: find_command_def abnormal_queue_def abnormal_row_def)
  with acknowledge_safe [OF a] a show ?thesis by auto
qed

end
