(* ===== verification/QueueAgree.thy ===== *)
theory QueueAgree
  imports QueueProps Restart
begin

text \<open>
  Dashboard and runtime composed: the plan the dashboard makes from its index before it launches, and
  the validation the launched runtime makes from its own log. The dashboard is the stricter one, so a
  batch it launches is refused by the runtime only if something changed in between.
\<close>

section \<open>The dashboard's view of the states\<close>

text \<open>\<open>P\<close> knows of \<open>S\<close> the issues of the file, and the active ones outside it.\<close>

definition restricts :: "issue_spec list \<Rightarrow> (string \<times> string) list \<Rightarrow> (string \<times> string) list \<Rightarrow> bool" where
  "restricts ss P S \<longleftrightarrow> (\<forall>i. map_of P i = (if i \<in> set (map spec_id ss) then map_of S i
     else if map_of S i = Some ''ACTIVE'' then Some ''ACTIVE'' else None))"

lemma active_outside_Nil:
  assumes "distinct (keys S)"
  shows "active_outside S ids = [] \<longleftrightarrow> (\<forall>i. map_of S i = Some ''ACTIVE'' \<longrightarrow> i \<in> set ids)"
proof -
  have "active_outside S ids = [] \<longleftrightarrow> (\<forall>(i, st) \<in> set S. st = ''ACTIVE'' \<longrightarrow> i \<in> set ids)"
    unfolding active_outside_def by (auto simp: filter_empty_conv simp flip: set_empty)
  then show ?thesis using assms by (auto simp: map_of_eq_Some_iff)
qed

lemma restricts_active:
  assumes "restricts ss P S" and "distinct (keys P)" "distinct (keys S)"
  shows "active_outside P ids = [] \<longleftrightarrow> active_outside S ids = []"
  using assms(1) unfolding active_outside_Nil [OF assms(2)] active_outside_Nil [OF assms(3)] restricts_def by auto

lemma restricts_terminal:
  "restricts ss P S \<Longrightarrow> i \<in> set (map spec_id ss) \<Longrightarrow> is_terminal P i = is_terminal S i"
  by (simp add: restricts_def is_terminal_def)

lemma restricts_blockers:
  assumes "restricts ss P S" and "blockers_of ss P ids = []"
  shows "blockers_of ss S ids = []"
proof -
  have "is_satisfied P d \<Longrightarrow> is_satisfied S d" for d
    using assms(1) by (auto simp: restricts_def is_satisfied_def split: if_splits)
  then show ?thesis using assms(2) by (fastforce simp: blockers_of_def filter_empty_conv)
qed

lemma with_state_Nil: "with_state S ids = [] \<longleftrightarrow> (\<forall>i \<in> set ids. \<not> is_terminal S i)"
  by (simp add: with_state_def filter_empty_conv)

lemma known_in_file: "i \<in> set (known_selected ss sel) \<Longrightarrow> i \<in> set (map spec_id ss)"
  by (auto simp: known_selected_def Let_def)

text \<open>What the dashboard accepts, the runtime accepts in the same order.\<close>

lemma selected_transfers:
  assumes "restricts ss P S" "distinct (keys P)" "distinct (keys S)" and "plan_ok (plan_selected ss P sel)"
  shows "plan_ok (plan_selected ss S sel) \<and> ordered_ids (plan_selected ss S sel) = ordered_ids (plan_selected ss P sel)"
proof -
  let ?ids = "known_selected ss sel"
  have ne: "sel \<noteq> []" using assms(4) by (auto simp: plan_selected_def default_plan_def)
  have P: "with_state P ?ids = []" "blockers_of ss P ?ids = []" "active_outside P ?ids = []"
    using assms(4) ne by (auto simp: plan_selected_def Let_def split: prod.splits)
  have "with_state S ?ids = []"
    unfolding with_state_Nil
  proof
    fix i assume i: "i \<in> set ?ids"
    then have "\<not> is_terminal P i" using P(1) by (simp add: with_state_Nil)
    then show "\<not> is_terminal S i" using restricts_terminal [OF assms(1) known_in_file [OF i]] by simp
  qed
  moreover have "blockers_of ss S ?ids = []" by (rule restricts_blockers [OF assms(1) P(2)])
  moreover have "active_outside S ?ids = []" using restricts_active [OF assms(1-3)] P(3) by simp
  ultimately show ?thesis using assms(4) ne P by (auto simp: plan_selected_def Let_def split: prod.splits)
qed

lemma run_all_transfers:
  assumes "restricts ss P S" "distinct (keys P)" "distinct (keys S)" and "plan_ok (plan_run_all ss P)"
  shows "plan_ok (plan_run_all ss S) \<and> ordered_ids (plan_run_all ss S) = ordered_ids (plan_run_all ss P)"
proof -
  have ids: "filter (\<lambda>i. \<not> is_terminal S i) (map spec_id ss) = filter (\<lambda>i. \<not> is_terminal P i) (map spec_id ss)"
    by (rule filter_cong [OF refl]) (simp add: restricts_terminal [OF assms(1)])
  let ?ids = "filter (\<lambda>i. \<not> is_terminal P i) (map spec_id ss)"
  have P: "blockers_of ss P ?ids = []" "active_outside P (keys (spec_by_id ss)) = []"
    using assms(4) by (auto simp: plan_run_all_def Let_def split: prod.splits)
  have "blockers_of ss S ?ids = []" by (rule restricts_blockers [OF assms(1) P(1)])
  moreover have "active_outside S (keys (spec_by_id ss)) = []" using restricts_active [OF assms(1-3)] P(2) by simp
  ultimately show ?thesis using assms(4) P by (auto simp: plan_run_all_def Let_def ids split: prod.splits)
qed

section \<open>What the dashboard reads\<close>

text \<open>The file holds \<open>raw\<close> and the index \<open>rows\<close>, whenever they are read.\<close>

definition reads :: "'w host \<Rightarrow> int \<Rightarrow> string \<Rightarrow> (string \<times> string) list \<Rightarrow> bool" where
  "reads h repo raw rows \<longleftrightarrow>
     (\<forall>path w node. fst (issues_node h path w) = Inr node \<longrightarrow> node = RegularFile raw) \<and>
     (\<forall>gen w. issue_rows h repo gen w = rows)"

lemma content_read:
  assumes "reads h repo raw rows" and "read_issues_file h path s = (Inr content, s')"
  shows "\<exists>t ss. content = (raw, t, ss) \<and> utf8_text h raw = Some t \<and> parse_issues t = Inr ss"
proof -
  obtain r w where r: "issues_node h path (d_world s) = (r, w)" by fastforce
  show ?thesis
  proof (cases r)
    case (Inl e)
    then show ?thesis using assms(2) r
      by (cases e) (simp_all add: read_issues_file_def host_call_def andthen_def or_raise_def)
  next
    case (Inr node)
    then have "fst (issues_node h path (d_world s)) = Inr node" using r by simp
    then have "node = RegularFile raw" using assms(1) unfolding reads_def by blast
    with assms(2) r Inr show ?thesis
      by (auto simp: read_issues_file_def host_call_def andthen_def or_raise_def split: option.splits sum.splits)
  qed
qed

lemma configured_reads:
  assumes "reads h repo raw rows" and "get_configured_issues h repo s = (Inr c, s')" and "model_status c = ''READY''"
  shows "\<exists>t ss. utf8_text h raw = Some t \<and> parse_issues t = Inr ss \<and> issues_revision c = hash_bytes h raw \<and>
    (configured_issues c, active_outside_file c) = indexed_states ss rows"
proof -
  obtain node content path cfg w s1 s2 where r: "read_issues_file h node s1 = (Inr content, s2)"
    and c: "c = configured_from h repo path cfg content w"
    using assms(2) unfolding get_configured_issues_def by (elim andthen_Inr) (auto split: prod.splits elim!: andthen_Inr)
  obtain t ss where "content = (raw, t, ss)" "utf8_text h raw = Some t" "parse_issues t = Inr ss"
    using content_read [OF assms(1) r] by blast
  moreover from this assms(3) c obtain gen where "read_model h repo w = Some (gen, ''READY'')"
    by (auto simp: configured_from_def Let_def split: option.splits prod.splits)
  ultimately show ?thesis using c assms(1)
    by (auto simp: configured_from_def reads_def split: prod.splits)
qed

text \<open>The runtime's states, as the planner sees them through the index.\<close>

lemma dict_keys [simp]: "distinct (keys (dict_of kvs))"
proof -
  have "distinct (keys d) \<Longrightarrow> distinct (keys (foldl (\<lambda>d kv. AList.update (fst kv) (snd kv) d) d kvs))" for d :: "('a \<times> 'b) list"
    by (induction kvs arbitrary: d) simp_all
  from this [of "[]"] show ?thesis by (simp add: dict_of_def)
qed

lemma issue_state_values: "map_of (states_of p) i = Some st \<Longrightarrow> st \<notin> {''NOT_INGESTED'', ''UNAVAILABLE''}"
proof -
  assume "map_of (states_of p) i = Some st"
  then have "(i, st) \<in> set (states_of p)" by (rule map_of_SomeD)
  then obtain x where "st = issue_state_value x" by (auto simp: states_of_def)
  then show ?thesis by (cases x) simp_all
qed

lemma kept_states:
  assumes "\<And>i st. S i = Some st \<Longrightarrow> st \<notin> {''NOT_INGESTED'', ''UNAVAILABLE''}" and "distinct (map spec_id ss)"
  defines "kvs \<equiv> map (\<lambda>(s, st). (spec_id s, st)) (filter (\<lambda>(_, st). st \<notin> {''NOT_INGESTED'', ''UNAVAILABLE''})
    (map (\<lambda>s. (s, case S (spec_id s) of None \<Rightarrow> ''NOT_INGESTED'' | Some st \<Rightarrow> st)) ss))"
  shows "map_of kvs i = (if i \<in> set (map spec_id ss) then S i else None) \<and> distinct (keys kvs) \<and> set (keys kvs) \<subseteq> set (map spec_id ss)"
  using assms(2) unfolding kvs_def
proof (induction ss)
  case (Cons s ss)
  then show ?case using assms(1) [of "spec_id s"] by (cases "S (spec_id s)") (auto simp: map_of_eq_None_iff)
qed simp

lemma mark_active:
  "map_of (foldl (\<lambda>d i. AList.update i ''ACTIVE'' d) kvs xs) i = (if i \<in> set xs then Some ''ACTIVE'' else map_of kvs i)"
  by (induction xs arbitrary: kvs) auto

lemma mark_active_keys: "distinct (keys kvs) \<Longrightarrow> distinct (keys (foldl (\<lambda>d i. AList.update i ''ACTIVE'' d) kvs xs))"
  by (induction xs arbitrary: kvs) simp_all

lemma planner_restricts:
  assumes "(configured_issues c, active_outside_file c) = indexed_states ss rows" and d: "distinct (map spec_id ss)"
    and S: "map_of (dict_of rows) = map_of (states_of p)"
  shows "restricts ss (planner_states c) (states_of p) \<and> distinct (keys (planner_states c))"
proof -
  let ?S = "map_of (states_of p)"
  have iss: "configured_issues c = map (\<lambda>s. (s, case ?S (spec_id s) of None \<Rightarrow> ''NOT_INGESTED'' | Some st \<Rightarrow> st)) ss"
    using assms(1) by (simp add: indexed_states_def Let_def S)
  have "set (active_outside_file c) = {i. map_of (dict_of rows) i = Some ''ACTIVE''} - set (map spec_id ss)"
    using assms(1) by (auto simp: indexed_states_def Let_def map_of_eq_Some_iff) force
  then have out: "set (active_outside_file c) = {i. ?S i = Some ''ACTIVE''} - set (map spec_id ss)" by (simp only: S)
  let ?kvs = "map (\<lambda>(s, st). (spec_id s, st)) (filter (\<lambda>(_, st). st \<notin> {''NOT_INGESTED'', ''UNAVAILABLE''}) (configured_issues c))"
  have k0: "map_of ?kvs i = (if i \<in> set (map spec_id ss) then ?S i else None) \<and> distinct (keys ?kvs) \<and>
      set (keys ?kvs) \<subseteq> set (map spec_id ss)" for i
    unfolding iss by (rule kept_states [of ?S, OF _ d]) (rule issue_state_values)
  then have k: "map_of ?kvs i = (if i \<in> set (map spec_id ss) then ?S i else None)" "distinct (keys ?kvs)" for i
    by blast+
  let ?out = "active_outside_file c"
  have ps: "planner_states c = foldl (\<lambda>d i. AList.update i ''ACTIVE'' d) ?kvs ?out"
    unfolding planner_states_def dict_of_distinct [OF k(2)] ..
  have "map_of (planner_states c) i = (if i \<in> set ?out then Some ''ACTIVE'' else
      if i \<in> set (map spec_id ss) then ?S i else None)" for i
    unfolding ps mark_active k(1) ..
  moreover have "distinct (keys (planner_states c))"
    unfolding ps by (rule mark_active_keys [OF k(2)])
  ultimately show ?thesis unfolding restricts_def out by simp
qed

section \<open>The batch the dashboard launches\<close>

text \<open>The options of \<open>draindeck run\<close> the launcher passes: \<open>build_launch_argv\<close>, as the parser reads them.\<close>

definition launched_args :: "command \<Rightarrow> run_args" where
  "launched_args c = \<lparr>issue_ids = (if cmd_mode c = ''ALL'' then None else cmd_issue_ids c), all_issues = (cmd_mode c = ''ALL''),
     issues_digest = Some (cmd_digest c), skip_baseline = False\<rparr>"

text \<open>
  C7: What the dashboard decides to launch, the runtime accepts, in the same order. If the plan of a
  command is good (the plan made when it is dequeued), and the runtime reads the same file and replays
  the states the index holds, then validating the launched selection succeeds, with the same batch in
  the same order.
\<close>

theorem launched_batch_accepted:
  assumes "plan_run h repo (cmd_mode c) (cmd_issue_ids c) (cmd_digest c) s = (Inr p, s')"
    and "plan_ok (rp_result p)" and "ordered_ids (rp_result p) \<noteq> []" and "run_mode_request_ok (cmd_mode c) (cmd_digest c)"
    and "reads h repo raw rows" and "issues_bytes ses w = Some raw"
    and "sha256 ses = hash_bytes h" and "decode_utf8 ses = utf8_text h"
    and "distinct (keys (issues proj))" and "map_of (dict_of rows) = map_of (states_of proj)"
  shows "\<exists>plan. validate_selection ses (launched_args c) w proj = Selected plan \<and>
    plan_order plan = ordered_ids (rp_result p)"
proof -
  obtain cfd s1 where g: "get_configured_issues h repo s = (Inr cfd, s1)" and dg: "issues_revision cfd = cmd_digest c"
    and rd: "model_status cfd = ''READY''" and res: "rp_result p = (if cmd_mode c = ''ALL''
      then plan_run_all (map fst (configured_issues cfd)) (planner_states cfd)
      else plan_selected (map fst (configured_issues cfd)) (planner_states cfd) (case cmd_issue_ids c of None \<Rightarrow> [] | Some is \<Rightarrow> is))"
    using assms(1) unfolding plan_run_def Let_def by (elim andthen_Inr) (auto dest!: refuse_whenD)
  obtain t ss where ss: "utf8_text h raw = Some t" "parse_issues t = Inr ss" "issues_revision cfd = hash_bytes h raw"
    "(configured_issues cfd, active_outside_file cfd) = indexed_states ss rows"
    using configured_reads [OF assms(5) g rd] by blast
  have d: "distinct (map spec_id ss)" by (rule parse_issues_heads(2) [OF ss(2)])
  have fst: "map fst (configured_issues cfd) = ss" using ss(4) by (simp add: indexed_states_def Let_def o_def)
  have r: "restricts ss (planner_states cfd) (states_of proj)" "distinct (keys (planner_states cfd))"
    using planner_restricts [OF ss(4) d assms(10)] by simp_all
  have k: "distinct (keys (states_of proj))" using assms(9) by (simp add: states_of_def)
  let ?r = "if cmd_mode c = ''ALL'' then plan_run_all ss (states_of proj)
      else plan_selected ss (states_of proj) (case cmd_issue_ids c of None \<Rightarrow> [] | Some is \<Rightarrow> is)"
  have ok: "plan_ok ?r \<and> ordered_ids ?r = ordered_ids (rp_result p)"
    using selected_transfers [OF r k] run_all_transfers [OF r k] assms(2) res fst by (auto split: if_splits)
  have "cmd_mode c \<noteq> ''ALL'' \<longrightarrow> (case cmd_issue_ids c of None \<Rightarrow> [] | Some is \<Rightarrow> is) \<noteq> []"
    using assms(2) res by (auto simp: plan_selected_def default_plan_def)
  then show ?thesis using ok assms(3,4,6-8) ss dg
    by (auto simp: validate_selection_def launched_args_def Let_def plan_of_def digest_wellformed_def run_mode_request_ok_def)
qed

theorem launched_batch_accepted_witness:
  "\<exists>p s' plan. plan_run (sample_host False (Inr 7)) 1 ''ALL'' None (replicate 64 (CHR ''0''))
       (new_dashboard ()\<lparr>registrations := [sample_registration]\<rparr>) = (Inr p, s') \<and>
     validate_selection sample_session (launched_args (new_command 1 1 ''ALL'' None (replicate 64 (CHR ''0'')) ''k'' (''ALL'', None, []) [])) ()
       empty_projection = Selected plan \<and> plan_order plan = [''i1'']"
proof -
  let ?c = "new_command 1 1 ''ALL'' None (replicate 64 (CHR ''0'')) ''k'' (''ALL'', None, []) []"
  let ?s = "new_dashboard ()\<lparr>registrations := [sample_registration]\<rparr>" and ?h = "sample_host False (Inr 7)"
  have c: "cmd_mode ?c = ''ALL''" "cmd_issue_ids ?c = None" "cmd_digest ?c = replicate 64 (CHR ''0'')"
    by (simp_all add: new_command_def)
  have "case plan_run ?h 1 ''ALL'' None (replicate 64 (CHR ''0'')) ?s of
      (Inr p, _) \<Rightarrow> plan_ok (rp_result p) \<and> ordered_ids (rp_result p) = [''i1''] | _ \<Rightarrow> False" by code_simp
  then obtain p s' where p: "plan_run ?h 1 ''ALL'' None (replicate 64 (CHR ''0'')) ?s = (Inr p, s')"
    "plan_ok (rp_result p)" "ordered_ids (rp_result p) = [''i1'']" by (auto split: prod.splits sum.splits)
  have ok: "run_mode_request_ok (cmd_mode ?c) (cmd_digest ?c)" unfolding c by code_simp
  have rd: "reads ?h 1 ''## i1: t'' []" by (simp add: reads_def sample_host_def)
  have p1: "plan_run ?h 1 (cmd_mode ?c) (cmd_issue_ids ?c) (cmd_digest ?c) ?s = (Inr p, s')" using p(1) by (simp only: c)
  have "\<exists>plan. validate_selection (sample_session :: unit session) (launched_args ?c) () empty_projection = Selected plan \<and>
      plan_order plan = ordered_ids (rp_result p)"
    by (rule launched_batch_accepted [OF p1 p(2) _ ok rd])
      (simp_all add: c p sample_session_def sample_host_def empty_projection_def states_of_def dict_of_def)
  then show ?thesis using p(1,3) by auto
qed

text \<open>
  The converse fails: an issue whose dependency is done and no longer listed in the file is runnable
  for the runtime and blocked for the dashboard, which looks the dependency up among the listed issues.
\<close>

lemma dashboard_is_stricter:
  defines "ss \<equiv> [\<lparr>spec_id = ''i2'', spec_title = ''t'', spec_body = [], spec_deps = [''i1''], spec_criteria = []\<rparr>]"
    and "rows \<equiv> [(''i1'', ''DONE'')]"
  shows "plan_ok (plan_run_all ss rows) \<and>
    (\<forall>c. (configured_issues c, active_outside_file c) = indexed_states ss rows \<longrightarrow>
      \<not> plan_ok (plan_run_all ss (planner_states c)))"
proof -
  have "plan_ok (plan_run_all ss rows)" unfolding ss_def rows_def by code_simp
  moreover have "\<not> plan_ok (plan_run_all ss [])" unfolding ss_def by code_simp
  moreover have "planner_states c = []" if "(configured_issues c, active_outside_file c) = indexed_states ss rows" for c
  proof -
    have "indexed_states ss rows = ([(hd ss, ''NOT_INGESTED'')], [])" unfolding ss_def rows_def by code_simp
    then show ?thesis using that by (simp add: planner_states_def dict_of_def)
  qed
  ultimately show ?thesis by simp
qed

end
