(* ===== verification/Tolerant.thy ===== *)
theory Tolerant
  imports ProjectionInv Session
begin

text \<open>
  The dashboard's projection of a log: \<open>projections.py\<close> and the validation of metered usage in
  \<open>proxy_cost.py\<close>, both of \<open>src/draindeck_dashboard\<close>. Where the runtime's replay raises, this one marks
  the entity inconsistent and goes on. A row is what the indexer stored of an event; the column
  \<open>payload_json\<close> holds the value it was printed from.
\<close>

section \<open>Metered usage\<close>

text \<open>What Python raises here: \<open>OverflowError\<close>, \<open>decimal.InvalidOperation\<close>, \<open>TypeError\<close>.\<close>

datatype tolerant_error = TolerantOverflow | InvalidOperation | Unhashable

text \<open>
  \<open>Decimal(str(x))\<close> of a positive float: the shortest decimal that rounds to it, and of the shortest
  the nearest. \<open>decimal_exponent\<close> is the place of the leading digit.
\<close>

definition pow10 :: "int \<Rightarrow> rat" where
  "pow10 e = (if 0 \<le> e then 10 ^ nat e else 1 / 10 ^ nat (- e))"

definition decimal_exponent :: "rat \<Rightarrow> int" where
  "decimal_exponent r = (let (p, q) = quotient_of r;
       e = int (length (show_nat (nat p))) - int (length (show_nat (nat q)))
     in if pow10 e \<le> r then e else e - 1)"

text \<open>The neighbours of \<open>r\<close> with \<open>n\<close> significant digits that denote the same float, the nearer one first.\<close>

definition short_decimals :: "rat \<Rightarrow> nat \<Rightarrow> rat list" where
  "short_decimals r n = (let u = pow10 (decimal_exponent r - int n + 1); m = \<lfloor>r / u\<rfloor>;
       low = of_int m * u; high = of_int (m + 1) * u
     in filter (\<lambda>d. round_double d = Fin r)
          (if r - low < high - r \<or> (r - low = high - r \<and> even m) then [low, high] else [high, low]))"

definition repr_decimal :: "rat \<Rightarrow> rat" where
  "repr_decimal r = (if r = 0 then 0
     else case concat (map (short_decimals r) [1..<18]) of [] \<Rightarrow> r | d # _ \<Rightarrow> d)"

text \<open>The context keeps 28 digits, and \<open>quantize\<close> refuses a result that needs more.\<close>

definition micro_of :: "rat \<Rightarrow> tolerant_error + int" where
  "micro_of d = (let m = \<lfloor>d * 1000000 + 1 / 2\<rfloor> in if 10 ^ 28 \<le> m then Inl InvalidOperation else Inr m)"

definition validate_dollars :: "json \<Rightarrow> tolerant_error + int option" where
  "validate_dollars v = (case v of
     JInt i \<Rightarrow> (case float_of_int i of
         None \<Rightarrow> Inl TolerantOverflow
       | Some _ \<Rightarrow> if i < 0 then Inr None else rbind (micro_of (of_int i)) (Inr \<circ> Some))
   | JFloat l \<Rightarrow> (case float_of_lexeme l of
         Fin r \<Rightarrow> if r < 0 then Inr None else rbind (micro_of (repr_decimal r)) (Inr \<circ> Some)
       | _ \<Rightarrow> Inr None)
   | _ \<Rightarrow> Inr None)"

definition validate_tokens :: "json \<Rightarrow> int option" where
  "validate_tokens v = (case v of JInt i \<Rightarrow> if i < 0 then None else Some i | _ \<Rightarrow> None)"

section \<open>Rows and views\<close>

record evidence_row =
  ev_event_id :: "int option"
  ev_event_type :: "string option"
  ev_issue_id :: "string option"
  ev_execution_id :: "string option"
  ev_run_id :: "string option"
  ev_payload :: "payload option"
  ev_ts :: "string option"

record issue_view =
  iv_state :: string
  iv_title :: string
  iv_last :: "int option"
  iv_inconsistent :: bool

record dash_execution =
  de_issue :: "string option"
  de_state :: string
  de_last :: "int option"
  de_inconsistent :: bool
  de_run :: "string option"
  de_micro :: "int option"
  de_cost_valid :: bool
  de_input_tokens :: "int option"
  de_output_tokens :: "int option"
  de_tokens_valid :: bool

record run_fields =
  rf_engine_provider :: "string option"
  rf_engine_model :: "string option"
  rf_reviewer_provider :: "string option"
  rf_reviewer_model :: "string option"
  rf_budget :: payload
  rf_config_digest :: "string option"

record run_view =
  rv_fields :: run_fields
  rv_outcome :: "string option"
  rv_last :: "int option"
  rv_inconsistent :: bool
  rv_finished_seen :: bool
  rv_started_valid :: bool
  rv_finished_valid :: bool
  rv_started_at :: "string option"
  rv_finished_at :: "string option"

record containment_gen =
  cg_workspace_key :: "string option"
  cg_state :: string
  cg_last :: "int option"
  cg_inconsistent :: bool

text \<open>Each view is stored under its key, which is also its identifier.\<close>

record dash_projection =
  v_issues :: "(string \<times> issue_view) list"
  v_executions :: "(string \<times> dash_execution) list"
  v_runs :: "(string \<times> run_view) list"
  v_containments :: "((string \<times> string) \<times> containment_gen) list"
  unknown_event_type_count :: nat

definition no_views :: dash_projection where
  "no_views = \<lparr>v_issues = [], v_executions = [], v_runs = [], v_containments = [], unknown_event_type_count = 0\<rparr>"

fun execution_state_value :: "execution_state \<Rightarrow> string" where
  "execution_state_value SPAWNED = ''SPAWNED''"
| "execution_state_value EXECUTING = ''EXECUTING''"
| "execution_state_value VALIDATING = ''VALIDATING''"
| "execution_state_value REVIEWING = ''REVIEWING''"
| "execution_state_value ACCEPTED = ''ACCEPTED''"
| "execution_state_value REJECTED = ''REJECTED''"
| "execution_state_value CRASHED = ''CRASHED''"

fun containment_state_value :: "containment_state \<Rightarrow> string" where
  "containment_state_value PREPARED = ''PREPARED''"
| "containment_state_value ESTABLISHED = ''ESTABLISHED''"
| "containment_state_value UNCONFIRMED = ''UNCONFIRMED''"
| "containment_state_value RELEASED = ''RELEASED''"

text \<open>\<open>IssueState(s)\<close> and \<open>ExecutionState(s)\<close>; \<open>None\<close> is the \<open>ValueError\<close>.\<close>

definition issue_state_named :: "string \<Rightarrow> issue_state option" where
  "issue_state_named s = List.find (\<lambda>st. issue_state_value st = s) [PENDING, ACTIVE, DONE, NEEDS_HUMAN, NEEDS_DECOMPOSITION]"

definition execution_state_named :: "string \<Rightarrow> execution_state option" where
  "execution_state_named s = List.find (\<lambda>st. execution_state_value st = s)
     [SPAWNED, EXECUTING, VALIDATING, REVIEWING, ACCEPTED, REJECTED, CRASHED]"

definition PENDING_RECONCILIATION :: string where
  "PENDING_RECONCILIATION = ''Pending reconciliation''"

definition try_event_type :: "string option \<Rightarrow> event_type option" where
  "try_event_type raw = Option.bind raw (\<lambda>s. type_of_value (JStr s))"

definition load_payload :: "payload option \<Rightarrow> payload" where
  "load_payload pl = (case pl of None \<Rightarrow> [] | Some p \<Rightarrow> p)"

definition str_or_none :: "payload \<Rightarrow> string \<Rightarrow> string option" where
  "str_or_none m k = (case jget m k of JStr s \<Rightarrow> Some s | _ \<Rightarrow> None)"

section \<open>Issues and executions\<close>

definition apply_issue_created :: "dash_projection \<Rightarrow> string option \<Rightarrow> payload \<Rightarrow> int option \<Rightarrow> dash_projection" where
  "apply_issue_created r iid pl eid = (case iid of
     None \<Rightarrow> r
   | Some i \<Rightarrow> r\<lparr>v_issues := AList.update i (case map_of (v_issues r) i of
         Some v \<Rightarrow> v\<lparr>iv_inconsistent := True\<rparr>
       | None \<Rightarrow> \<lparr>iv_state = issue_state_value PENDING,
           iv_title = (case str_or_none pl ''title'' of None \<Rightarrow> [] | Some t \<Rightarrow> t),
           iv_last = eid, iv_inconsistent = False\<rparr>) (v_issues r)\<rparr>)"

text \<open>A transition of a view; whatever the table's function raises is an inconsistency.\<close>

definition moved_issue :: "tables \<Rightarrow> event_type \<Rightarrow> payload \<Rightarrow> int option \<Rightarrow> issue_view \<Rightarrow> issue_view" where
  "moved_issue T et pl eid v =
     (if iv_inconsistent v then v
      else case issue_state_named (iv_state v) of
        None \<Rightarrow> v\<lparr>iv_inconsistent := True\<rparr>
      | Some cur \<Rightarrow> (case ISSUE_TRANSITIONS T (cur, et) of
          None \<Rightarrow> v\<lparr>iv_inconsistent := True\<rparr>
        | Some fn \<Rightarrow> (case fn pl of
            Inl _ \<Rightarrow> v\<lparr>iv_inconsistent := True\<rparr>
          | Inr st \<Rightarrow> v\<lparr>iv_state := issue_state_value st, iv_last := eid\<rparr>)))"

definition apply_issue_transition ::
  "tables \<Rightarrow> dash_projection \<Rightarrow> event_type \<Rightarrow> string option \<Rightarrow> payload \<Rightarrow> int option \<Rightarrow> dash_projection" where
  "apply_issue_transition T r et iid pl eid = (case iid of
     None \<Rightarrow> r
   | Some i \<Rightarrow> (case map_of (v_issues r) i of
       None \<Rightarrow> r
     | Some v \<Rightarrow> r\<lparr>v_issues := AList.update i (moved_issue T et pl eid v) (v_issues r)\<rparr>))"

definition apply_execution_spawned ::
  "dash_projection \<Rightarrow> string option \<Rightarrow> string option \<Rightarrow> string option \<Rightarrow> int option \<Rightarrow> dash_projection" where
  "apply_execution_spawned r xid iid rid eid = (case xid of
     None \<Rightarrow> r
   | Some x \<Rightarrow> r\<lparr>v_executions := AList.update x (case map_of (v_executions r) x of
         Some v \<Rightarrow> v\<lparr>de_inconsistent := True\<rparr>
       | None \<Rightarrow> \<lparr>de_issue = iid, de_state = execution_state_value EXECUTING, de_last = eid,
           de_inconsistent = False, de_run = rid, de_micro = None, de_cost_valid = False,
           de_input_tokens = None, de_output_tokens = None, de_tokens_valid = False\<rparr>) (v_executions r)\<rparr>)"

definition capture_usage :: "dash_execution \<Rightarrow> payload \<Rightarrow> tolerant_error + dash_execution" where
  "capture_usage v pl = (case jget pl ''usage'' of
     JObj metered \<Rightarrow>
       rbind (validate_dollars (jget metered ''dollars'')) (\<lambda>micro.
       let v1 = (case micro of None \<Rightarrow> v | Some m \<Rightarrow> v\<lparr>de_micro := Some m, de_cost_valid := True\<rparr>);
           inp = validate_tokens (jget metered ''input_tokens'');
           out = validate_tokens (jget metered ''output_tokens'')
       in Inr (if inp \<noteq> None \<and> out \<noteq> None
          then v1\<lparr>de_input_tokens := inp, de_output_tokens := out, de_tokens_valid := True\<rparr> else v1))
   | _ \<Rightarrow> Inr v)"

definition moved_execution ::
  "tables \<Rightarrow> event_type \<Rightarrow> payload \<Rightarrow> int option \<Rightarrow> dash_execution \<Rightarrow> tolerant_error + dash_execution" where
  "moved_execution T et pl eid v =
     (if de_inconsistent v then Inr v
      else case execution_state_named (de_state v) of
        None \<Rightarrow> Inr (v\<lparr>de_inconsistent := True\<rparr>)
      | Some cur \<Rightarrow> (case EXECUTION_TRANSITIONS T (cur, et) of
          None \<Rightarrow> Inr (v\<lparr>de_inconsistent := True\<rparr>)
        | Some fn \<Rightarrow> (case fn pl of
            Inl _ \<Rightarrow> Inr (v\<lparr>de_inconsistent := True\<rparr>)
          | Inr st \<Rightarrow> (let v1 = v\<lparr>de_state := execution_state_value st, de_last := eid\<rparr>
              in if et = EXECUTION_FINISHED then capture_usage v1 pl else Inr v1))))"

definition apply_execution_transition ::
  "tables \<Rightarrow> dash_projection \<Rightarrow> event_type \<Rightarrow> string option \<Rightarrow> payload \<Rightarrow> int option \<Rightarrow>
   tolerant_error + dash_projection" where
  "apply_execution_transition T r et xid pl eid = (case xid of
     None \<Rightarrow> Inr r
   | Some x \<Rightarrow> (case map_of (v_executions r) x of
       None \<Rightarrow> Inr r
     | Some v \<Rightarrow> rbind (moved_execution T et pl eid v) (\<lambda>v'.
         Inr (r\<lparr>v_executions := AList.update x v' (v_executions r)\<rparr>))))"

section \<open>Containment\<close>

definition containment_transition :: "string \<Rightarrow> event_type \<Rightarrow> string option" where
  "containment_transition st et = map_of
     [((''PREPARED'', EXECUTION_CONTAINMENT_ESTABLISHED), ''ESTABLISHED''),
      ((''ESTABLISHED'', EXECUTION_TERMINATION_UNCONFIRMED), ''UNCONFIRMED''),
      ((''PREPARED'', EXECUTION_CONTAINMENT_RELEASED), ''RELEASED''),
      ((''ESTABLISHED'', EXECUTION_CONTAINMENT_RELEASED), ''RELEASED''),
      ((''UNCONFIRMED'', EXECUTION_CONTAINMENT_RELEASED), ''RELEASED'')] (st, et)"

definition moved_containment :: "event_type \<Rightarrow> string option \<Rightarrow> int option \<Rightarrow> containment_gen \<Rightarrow> containment_gen" where
  "moved_containment et wk eid v =
     (if cg_inconsistent v then v
      else if wk \<noteq> None \<and> cg_workspace_key v \<noteq> wk then v\<lparr>cg_inconsistent := True\<rparr>
      else case containment_transition (cg_state v) et of
        None \<Rightarrow> v\<lparr>cg_inconsistent := True\<rparr>
      | Some st \<Rightarrow> v\<lparr>cg_state := st, cg_last := eid\<rparr>)"

definition apply_containment_event ::
  "dash_projection \<Rightarrow> event_type \<Rightarrow> string option \<Rightarrow> payload \<Rightarrow> int option \<Rightarrow> dash_projection" where
  "apply_containment_event r et xid pl eid = (case (xid, str_or_none pl ''containment_generation'') of
     (Some x, Some g) \<Rightarrow>
       let wk = str_or_none pl ''workspace_key''; old = map_of (v_containments r) (x, g) in
       if et = EXECUTION_CONTAINMENT_PREPARED then
         r\<lparr>v_containments := AList.update (x, g) (case old of
             Some v \<Rightarrow> v\<lparr>cg_inconsistent := True\<rparr>
           | None \<Rightarrow> \<lparr>cg_workspace_key = wk, cg_state = ''PREPARED'', cg_last = eid, cg_inconsistent = False\<rparr>)
           (v_containments r)\<rparr>
       else (case old of
           None \<Rightarrow> r
         | Some v \<Rightarrow> r\<lparr>v_containments := AList.update (x, g) (moved_containment et wk eid v) (v_containments r)\<rparr>)
   | _ \<Rightarrow> r)"

section \<open>Runs\<close>

definition dict_or_empty :: "payload \<Rightarrow> string \<Rightarrow> payload" where
  "dict_or_empty m k = (case jget m k of JObj kvs \<Rightarrow> kvs | _ \<Rightarrow> [])"

definition has_nonempty_str :: "payload \<Rightarrow> string \<Rightarrow> bool" where
  "has_nonempty_str m k = (case jget m k of JStr s \<Rightarrow> s \<noteq> [] | _ \<Rightarrow> False)"

definition has_nullable_str :: "payload \<Rightarrow> string \<Rightarrow> bool" where
  "has_nullable_str m k = (case map_of m k of
     None \<Rightarrow> False | Some JNull \<Rightarrow> True | Some (JStr s) \<Rightarrow> s \<noteq> [] | Some _ \<Rightarrow> False)"

definition has_positive_int :: "payload \<Rightarrow> string \<Rightarrow> bool" where
  "has_positive_int m k = (case jget m k of JInt i \<Rightarrow> 1 \<le> i | _ \<Rightarrow> False)"

definition has_finite_positive_number :: "payload \<Rightarrow> string \<Rightarrow> tolerant_error + bool" where
  "has_finite_positive_number m k = (case jget m k of
     JInt i \<Rightarrow> (case float_of_int i of None \<Rightarrow> Inl TolerantOverflow | Some _ \<Rightarrow> Inr (0 < i))
   | JFloat l \<Rightarrow> Inr (case float_of_lexeme l of Fin r \<Rightarrow> 0 < r | _ \<Rightarrow> False)
   | _ \<Rightarrow> Inr False)"

text \<open>\<open>x in frozenset(...)\<close>: a list or a dict cannot be hashed.\<close>

definition known_pricing :: "json \<Rightarrow> tolerant_error + bool" where
  "known_pricing v = (case v of
     JArr _ \<Rightarrow> Inl Unhashable | JObj _ \<Rightarrow> Inl Unhashable | _ \<Rightarrow> Inr (v = JStr ''api_list_rates''))"

definition has_only_keys :: "payload \<Rightarrow> string list \<Rightarrow> bool" where
  "has_only_keys m allowed \<longleftrightarrow> set (keys m) \<subseteq> set allowed"

definition DASH_RUN_OUTCOMES :: "string list" where
  "DASH_RUN_OUTCOMES = [''CHECKOUT_FAILED'', ''REVIEWER_UNREACHABLE'', ''BASELINE_FAILED'',
     ''INGEST_FAILED'', ''COMPLETED'', ''HALTED'', ''INTERRUPTED'']"

text \<open>The conditions are evaluated from left to right, and the first that is false ends them.\<close>

definition run_started_complete :: "payload \<Rightarrow> tolerant_error + bool" where
  "run_started_complete pl =
     (let engine = dict_or_empty pl ''engine''; reviewer = dict_or_empty pl ''reviewer'';
          budget = dict_or_empty pl ''budget''; digest = str_or_none pl ''config_digest''
      in if \<not> (has_only_keys pl [''engine'', ''reviewer'', ''budget'', ''config_digest'']
           \<and> has_only_keys engine [''provider'', ''model''] \<and> has_only_keys reviewer [''provider'', ''model'']
           \<and> has_only_keys budget [''max_attempts_per_issue'', ''max_executions_per_run'',
                ''hard_stop_proxy_cost_per_run_usd'', ''proxy_pricing'']
           \<and> has_nonempty_str engine ''provider'' \<and> has_nonempty_str engine ''model''
           \<and> has_nonempty_str reviewer ''provider'' \<and> has_nullable_str reviewer ''model''
           \<and> has_positive_int budget ''max_attempts_per_issue'' \<and> has_positive_int budget ''max_executions_per_run'')
         then Inr False
         else rbind (has_finite_positive_number budget ''hard_stop_proxy_cost_per_run_usd'') (\<lambda>cost.
              if \<not> cost then Inr False
              else rbind (known_pricing (jget budget ''proxy_pricing'')) (\<lambda>pricing.
              Inr (pricing \<and> (case digest of None \<Rightarrow> False | Some d \<Rightarrow> fullmatch (replicate 64 is_hex) d)))))"

definition run_started_fields :: "payload \<Rightarrow> tolerant_error + (run_fields \<times> bool)" where
  "run_started_fields pl =
     (let engine = dict_or_empty pl ''engine''; reviewer = dict_or_empty pl ''reviewer'' in
      rbind (run_started_complete pl) (\<lambda>complete.
      Inr (\<lparr>rf_engine_provider = str_or_none engine ''provider'', rf_engine_model = str_or_none engine ''model'',
            rf_reviewer_provider = str_or_none reviewer ''provider'', rf_reviewer_model = str_or_none reviewer ''model'',
            rf_budget = dict_or_empty pl ''budget'', rf_config_digest = str_or_none pl ''config_digest''\<rparr>, complete)))"

text \<open>A second start is an anomaly; it replaces what an invalid first one left.\<close>

definition started_run :: "run_fields \<Rightarrow> bool \<Rightarrow> int option \<Rightarrow> string option \<Rightarrow> run_view option \<Rightarrow> run_view" where
  "started_run fs valid eid tm old = (case old of
     Some v \<Rightarrow>
       let v1 = v\<lparr>rv_inconsistent := True\<rparr>
       in if valid \<and> \<not> rv_started_valid v
          then v1\<lparr>rv_fields := fs, rv_last := eid, rv_started_valid := True\<rparr> else v1
   | None \<Rightarrow> \<lparr>rv_fields = fs, rv_outcome = None, rv_last = eid, rv_inconsistent = (\<not> valid),
       rv_finished_seen = False, rv_started_valid = valid, rv_finished_valid = False,
       rv_started_at = tm, rv_finished_at = None\<rparr>)"

definition apply_run_started ::
  "dash_projection \<Rightarrow> string option \<Rightarrow> payload \<Rightarrow> int option \<Rightarrow> string option \<Rightarrow> tolerant_error + dash_projection" where
  "apply_run_started r rid pl eid tm = (case rid of
     None \<Rightarrow> Inr r
   | Some i \<Rightarrow> rbind (run_started_fields pl) (\<lambda>(fs, complete).
       Inr (r\<lparr>v_runs := AList.update i (started_run fs complete eid tm (map_of (v_runs r) i)) (v_runs r)\<rparr>)))"

definition valid_finish :: "payload \<Rightarrow> bool" where
  "valid_finish pl \<longleftrightarrow> has_only_keys pl [''outcome'', ''detail''] \<and>
     (case jget pl ''outcome'' of JStr s \<Rightarrow> s \<in> set DASH_RUN_OUTCOMES | _ \<Rightarrow> False) \<and>
     map_of pl ''detail'' = Some JNull"

definition finished_run :: "payload \<Rightarrow> int option \<Rightarrow> string option \<Rightarrow> run_view \<Rightarrow> run_view" where
  "finished_run pl eid tm v =
     (let accept = (\<lambda>v. v\<lparr>rv_outcome := str_or_none pl ''outcome'', rv_last := eid, rv_finished_valid := True\<rparr>)
      in if rv_finished_seen v then
           (let v1 = v\<lparr>rv_inconsistent := True\<rparr>
            in if valid_finish pl \<and> \<not> rv_finished_valid v then accept v1 else v1)
         else (let v1 = v\<lparr>rv_finished_seen := True, rv_finished_at := tm\<rparr>
            in if valid_finish pl then accept v1 else v1\<lparr>rv_inconsistent := True\<rparr>))"

definition apply_run_finished ::
  "dash_projection \<Rightarrow> string option \<Rightarrow> payload \<Rightarrow> int option \<Rightarrow> string option \<Rightarrow> dash_projection" where
  "apply_run_finished r rid pl eid tm = (case rid of
     None \<Rightarrow> r
   | Some i \<Rightarrow> (case map_of (v_runs r) i of
       None \<Rightarrow> r
     | Some v \<Rightarrow> r\<lparr>v_runs := AList.update i (finished_run pl eid tm v) (v_runs r)\<rparr>))"

section \<open>The reducer\<close>

definition apply_row :: "tables \<Rightarrow> 'a evidence_row_scheme \<Rightarrow> dash_projection \<Rightarrow> tolerant_error + dash_projection" where
  "apply_row T row r =
     (let pl = load_payload (ev_payload row); eid = ev_event_id row;
          iid = ev_issue_id row; xid = ev_execution_id row; rid = ev_run_id row
      in case try_event_type (ev_event_type row) of
        None \<Rightarrow> Inr (r\<lparr>unknown_event_type_count := unknown_event_type_count r + 1\<rparr>)
      | Some et \<Rightarrow>
          if et = ISSUE_CREATED then Inr (apply_issue_created r iid pl eid)
          else if et \<in> {ISSUE_ACTIVATED, ISSUE_COMPLETED, ISSUE_ESCALATED} then
            Inr (apply_issue_transition T r et iid pl eid)
          else if et = EXECUTION_SPAWNED then Inr (apply_execution_spawned r xid iid rid eid)
          else if et \<in> {EXECUTION_FINISHED, EXECUTION_CRASHED, VALIDATION_PASSED, VALIDATION_FAILED,
              REVIEW_APPROVED, REVIEW_REJECTED} then apply_execution_transition T r et xid pl eid
          else if et \<in> {EXECUTION_CONTAINMENT_PREPARED, EXECUTION_CONTAINMENT_ESTABLISHED,
              EXECUTION_TERMINATION_UNCONFIRMED, EXECUTION_CONTAINMENT_RELEASED} then
            Inr (apply_containment_event r et xid pl eid)
          else if et = RUN_STARTED then apply_run_started r rid pl eid (ev_ts row)
          else if et = RUN_FINISHED then Inr (apply_run_finished r rid pl eid (ev_ts row))
          else Inr r)"

definition pending :: "dash_execution \<Rightarrow> dash_execution" where
  "pending v = (if \<not> de_inconsistent v \<and> de_state v = execution_state_value EXECUTING
     then v\<lparr>de_state := PENDING_RECONCILIATION\<rparr> else v)"

definition apply_ok_evidence_rows :: "tables \<Rightarrow> 'a evidence_row_scheme list \<Rightarrow> tolerant_error + dash_projection" where
  "apply_ok_evidence_rows T rows = rbind (rfold (apply_row T) rows no_views) (\<lambda>r.
     Inr (r\<lparr>v_executions := map (map_prod id pending) (v_executions r)\<rparr>))"

end
