(* ===== verification/TolerantProps.thy ===== *)
theory TolerantProps
  imports Tolerant
begin

text \<open>
  What the dashboard's projection promises: on a log the runtime accepts it shows the runtime's states,
  and the view of one entity can be recomputed from the rows that name it.
\<close>

section \<open>Associations seen through a function\<close>

abbreviation seen :: "('a \<Rightarrow> 'b) \<Rightarrow> ('k \<times> 'a) list \<Rightarrow> ('k \<times> 'b) list" where
  "seen f d \<equiv> map (map_prod id f) d"

lemma seen_update [simp]: "seen f (AList.update k v d) = AList.update k (f v) (seen f d)"
  by (induction d) auto

lemma seen_lookup: "map_of (seen f d) k = map_option f (map_of d k)"
  by (induction d) auto

lemma seen_Some:
  assumes "seen f d = seen g e" and "map_of e k = Some w"
  obtains v where "map_of d k = Some v" and "f v = g w"
  using assms seen_lookup [of f d k] seen_lookup [of g e k] by (cases "map_of d k") auto

lemma seen_None: "seen f d = seen g e \<Longrightarrow> map_of e k = None \<Longrightarrow> map_of d k = None"
  using seen_lookup [of f d k] seen_lookup [of g e k] by (cases "map_of d k") auto

lemma update_same: "map_of d k = Some v \<Longrightarrow> AList.update k v d = d"
  by (induction d) (auto split: if_splits)

lemma in_update: "kv \<in> set (AList.update k v d) \<Longrightarrow> kv = (k, v) \<or> kv \<in> set d"
  by (induction d) (auto split: if_splits)

section \<open>Rows of a log the runtime accepts\<close>

definition string_of :: "json \<Rightarrow> string option" where
  "string_of v = (case v of JStr s \<Rightarrow> Some s | _ \<Rightarrow> None)"

definition row_of_event :: "event \<Rightarrow> evidence_row" where
  "row_of_event e = \<lparr>ev_event_id = Some (event_id e), ev_event_type = Some (type_value (etype e)),
     ev_issue_id = string_of (issue_id e), ev_execution_id = string_of (execution_id e),
     ev_run_id = string_of (run_id e), ev_payload = Some (payload e), ev_ts = string_of (ts e)\<rparr>"

text \<open>The metered dollars fit the decimal context.\<close>

definition dollars_fit :: "payload \<Rightarrow> bool" where
  "dollars_fit pl \<longleftrightarrow> is_ok (validate_dollars (jget (dict_or_empty pl ''usage'') ''dollars''))"

lemma issue_state_named [simp]: "issue_state_named (issue_state_value st) = Some st"
  by (cases st) (simp_all add: issue_state_named_def)

lemma execution_state_named [simp]: "execution_state_named (execution_state_value st) = Some st"
  by (cases st) (simp_all add: execution_state_named_def)

lemma execution_state_value_inj: "execution_state_value st = execution_state_value st' \<longleftrightarrow> st = st'"
  by (cases st; cases st') simp_all

lemma try_event_type_of [simp]: "try_event_type (Some (type_value t)) = Some t"
  by (simp add: try_event_type_def)

text \<open>What a view shows of an entity, in either projection.\<close>

definition shown_issue :: "issue_view \<Rightarrow> string \<times> bool" where
  "shown_issue v = (iv_state v, iv_inconsistent v)"

definition shown_execution :: "dash_execution \<Rightarrow> string option \<times> string \<times> bool" where
  "shown_execution v = (de_issue v, de_state v, de_inconsistent v)"

definition shown_containment :: "containment_gen \<Rightarrow> string option \<times> string \<times> bool" where
  "shown_containment v = (cg_workspace_key v, cg_state v, cg_inconsistent v)"

definition true_issue :: "issue_state \<Rightarrow> string \<times> bool" where
  "true_issue st = (issue_state_value st, False)"

definition true_execution :: "execution_view \<Rightarrow> string option \<times> string \<times> bool" where
  "true_execution v = (Some (x_issue_id v), execution_state_value (x_state v), False)"

definition true_containment :: "containment_view \<Rightarrow> string option \<times> string \<times> bool" where
  "true_containment v = (Some (workspace_key v), containment_state_value (c_state v), False)"

lemmas shown_defs = shown_issue_def shown_execution_def shown_containment_def
  true_issue_def true_execution_def true_containment_def

definition agrees :: "projection \<Rightarrow> dash_projection \<Rightarrow> bool" where
  "agrees p r \<longleftrightarrow>
     seen shown_issue (v_issues r) = seen true_issue (issues p) \<and>
     seen shown_execution (v_executions r) = seen true_execution (executions p) \<and>
     seen shown_containment (v_containments r) = seen true_containment (containments p) \<and>
     (\<forall>(i, v) \<in> set (v_runs r). rv_started_valid v) \<and> unknown_event_type_count r = 0"

lemma agrees_issue:
  assumes "agrees p r" and "map_of (issues p) i = Some st"
  obtains v where "map_of (v_issues r) i = Some v" "iv_state v = issue_state_value st" "\<not> iv_inconsistent v"
proof -
  obtain v where "map_of (v_issues r) i = Some v" "shown_issue v = true_issue st"
    using assms seen_Some [of shown_issue "v_issues r" true_issue "issues p" i st thesis] unfolding agrees_def by metis
  with that show thesis by (simp add: shown_defs)
qed

lemma agrees_execution:
  assumes "agrees p r" and "map_of (executions p) x = Some w"
  obtains v where "map_of (v_executions r) x = Some v" "de_issue v = Some (x_issue_id w)"
    "de_state v = execution_state_value (x_state w)" "\<not> de_inconsistent v"
proof -
  obtain v where "map_of (v_executions r) x = Some v" "shown_execution v = true_execution w"
    using assms seen_Some [of shown_execution "v_executions r" true_execution "executions p" x w thesis]
    unfolding agrees_def by metis
  with that show thesis by (simp add: shown_defs)
qed

lemma agrees_containment:
  assumes "agrees p r" and "map_of (containments p) k = Some w"
  obtains v where "map_of (v_containments r) k = Some v" "cg_workspace_key v = Some (workspace_key w)"
    "cg_state v = containment_state_value (c_state w)" "\<not> cg_inconsistent v"
proof -
  obtain v where "map_of (v_containments r) k = Some v" "shown_containment v = true_containment w"
    using assms seen_Some [of shown_containment "v_containments r" true_containment "containments p" k w thesis]
    unfolding agrees_def by metis
  with that show thesis by (simp add: shown_defs)
qed

lemma agrees_None:
  assumes "agrees p r"
  shows "map_of (issues p) i = None \<Longrightarrow> map_of (v_issues r) i = None"
    and "map_of (executions p) x = None \<Longrightarrow> map_of (v_executions r) x = None"
    and "map_of (containments p) k = None \<Longrightarrow> map_of (v_containments r) k = None"
  using assms unfolding agrees_def by (blast dest: seen_None)+

lemma annotate_shown: "annotate e v = Inr v' \<Longrightarrow> x_issue_id v' = x_issue_id v \<and> x_state v' = x_state v"
  by (auto simp: annotate_def Let_def rbind_eq_Inr split: if_splits)

lemma capture_shown:
  assumes "dollars_fit pl"
  shows "\<exists>v'. capture_usage v pl = Inr v' \<and> shown_execution v' = shown_execution v"
proof -
  obtain m where "validate_dollars (jget (dict_or_empty pl ''usage'') ''dollars'') = Inr m"
    using assms by (auto simp: dollars_fit_def is_ok_iff)
  then show ?thesis
    by (auto simp: capture_usage_def dict_or_empty_def shown_defs Let_def split: json.splits option.splits)
qed

lemma moved_execution_shown:
  assumes "de_state v = execution_state_value st" "\<not> de_inconsistent v" "EXECUTION_TRANSITIONS T (st, et) = Some fn"
    "fn pl = Inr st'" "dollars_fit pl"
  shows "\<exists>v'. moved_execution T et pl eid v = Inr v' \<and>
    shown_execution v' = (de_issue v, execution_state_value st', False)"
  using assms capture_shown [OF assms(5), of "v\<lparr>de_state := execution_state_value st', de_last := eid\<rparr>"]
  by (auto simp: moved_execution_def shown_defs Let_def)

lemma run_started_accepted: "h_run_started p e = Inr p' \<Longrightarrow> run_started_complete (payload e) = Inr True"
proof -
  assume h: "h_run_started p e = Inr p'"
  have m: "mapping_field pl n = Inr kvs \<longleftrightarrow> map_of pl n = Some (JObj kvs)" for pl n kvs
    by (auto simp: mapping_field_def field_of_def rbind_eq_Inr split: option.splits json.splits)
  have i: "positive_int pl n = Inr i \<longleftrightarrow> map_of pl n = Some (JInt i) \<and> 1 \<le> i" for pl n i
    by (auto simp: positive_int_def field_of_def rbind_eq_Inr split: option.splits json.splits)
  have f: "field_of pl n = Inr v \<longleftrightarrow> map_of pl n = Some v" for pl n v
    by (auto simp: field_of_def split: option.splits)
  have k: "exact_keys pl ks w = Inr u \<longleftrightarrow> has_only_keys pl ks" for pl ks w u
    by (auto simp: exact_keys_def has_only_keys_def)
  have c: "map_of pl n = Some v \<Longrightarrow> cost_check v = Inr u \<Longrightarrow> has_finite_positive_number pl n = Inr True" for pl n v u
    by (auto simp: cost_check_def has_finite_positive_number_def jget_def Let_def is_finite_float_def
        split: json.splits option.splits pyfloat.splits)
  obtain engine reviewer budget cost rm digest u
    where pl: "map_of (payload e) ''engine'' = Some (JObj engine)" "map_of (payload e) ''reviewer'' = Some (JObj reviewer)"
        "map_of (payload e) ''budget'' = Some (JObj budget)" "map_of (payload e) ''config_digest'' = Some (JStr digest)"
        "fullmatch (replicate 64 is_hex) digest"
      and keys: "has_only_keys (payload e) [''engine'', ''reviewer'', ''budget'', ''config_digest'']"
        "has_only_keys engine [''provider'', ''model'']" "has_only_keys reviewer [''provider'', ''model'']"
        "has_only_keys budget [''max_attempts_per_issue'', ''max_executions_per_run'',
           ''hard_stop_proxy_cost_per_run_usd'', ''proxy_pricing'']"
      and engine: "has_nonempty_str engine ''provider''" "has_nonempty_str engine ''model''"
      and reviewer: "has_nonempty_str reviewer ''provider''" "map_of reviewer ''model'' = Some rm" "reviewer_model_ok rm"
      and budget: "has_positive_int budget ''max_attempts_per_issue''" "has_positive_int budget ''max_executions_per_run''"
        "map_of budget ''hard_stop_proxy_cost_per_run_usd'' = Some cost" "cost_check cost = Inr u"
        "map_of budget ''proxy_pricing'' = Some (JStr ''api_list_rates'')"
    using h unfolding h_run_started_def Let_def rbind_eq_Inr m i f k string_field_eq KNOWN_PROXY_PRICING_def
    by (auto simp: has_nonempty_str_def has_positive_int_def jget_def)
  have "has_nullable_str reviewer ''model''"
    using reviewer(2,3) by (auto simp: has_nullable_str_def reviewer_model_ok_def split: json.splits)
  moreover note c [OF budget(3,4)]
  ultimately show ?thesis using pl keys engine reviewer(1) budget(1,2,5)
    by (simp add: run_started_complete_def dict_or_empty_def str_or_none_def jget_def known_pricing_def)
qed

section \<open>Every accepted event keeps the agreement\<close>

lemma row_fields [simp]:
  "ev_event_type (row_of_event e) = Some (type_value (etype e))" "ev_event_id (row_of_event e) = Some (event_id e)"
  "ev_issue_id (row_of_event e) = string_of (issue_id e)" "ev_execution_id (row_of_event e) = string_of (execution_id e)"
  "ev_run_id (row_of_event e) = string_of (run_id e)" "ev_ts (row_of_event e) = string_of (ts e)" "ev_payload (row_of_event e) = Some (payload e)"
  "load_payload (Some pl) = pl" "string_of (JStr s) = Some s"
  by (simp_all add: row_of_event_def load_payload_def string_of_def)

text \<open>What a row does, by the type of its event.\<close>

lemma apply_row_event:
  "apply_row T (row_of_event e) r =
     (let pl = payload e; eid = Some (event_id e); iid = string_of (issue_id e);
          xid = string_of (execution_id e); rid = string_of (run_id e)
      in if etype e = ISSUE_CREATED then Inr (apply_issue_created r iid pl eid)
         else if etype e \<in> {ISSUE_ACTIVATED, ISSUE_COMPLETED, ISSUE_ESCALATED} then
           Inr (apply_issue_transition T r (etype e) iid pl eid)
         else if etype e = EXECUTION_SPAWNED then Inr (apply_execution_spawned r xid iid rid eid)
         else if etype e \<in> {EXECUTION_FINISHED, EXECUTION_CRASHED, VALIDATION_PASSED, VALIDATION_FAILED,
             REVIEW_APPROVED, REVIEW_REJECTED} then apply_execution_transition T r (etype e) xid pl eid
         else if etype e \<in> {EXECUTION_CONTAINMENT_PREPARED, EXECUTION_CONTAINMENT_ESTABLISHED,
             EXECUTION_TERMINATION_UNCONFIRMED, EXECUTION_CONTAINMENT_RELEASED} then
           Inr (apply_containment_event r (etype e) xid pl eid)
         else if etype e = RUN_STARTED then apply_run_started r rid pl eid (string_of (ts e))
         else if etype e = RUN_FINISHED then Inr (apply_run_finished r rid pl eid (string_of (ts e)))
         else Inr r)"
  by (simp only: apply_row_def row_fields try_event_type_of option.case Let_def)

lemma agrees_note [simp]: "agrees (note_event p e) r = agrees p r"
  by (simp add: agrees_def note_event_def)

lemma agrees_same_executions:
  "agrees p r \<Longrightarrow> map_of (executions p) x = Some w \<Longrightarrow> true_execution w' = true_execution w \<Longrightarrow>
   agrees (p\<lparr>executions := AList.update x w' (executions p)\<rparr>) r"
  using update_same [of "seen true_execution (executions p)" x "true_execution w"] by (simp add: agrees_def seen_lookup)

lemma agrees_run_started:
  assumes "agrees p r" and "etype e = RUN_STARTED \<Longrightarrow> run_started_complete (payload e) = Inr True" and "etype e = RUN_STARTED"
  shows "\<exists>r'. apply_run_started r rid (payload e) eid tm = Inr r' \<and> agrees p r'"
proof -
  have "rv_started_valid v" if "map_of (v_runs r) i = Some v" for i v
    using assms(1) map_of_SomeD [OF that] by (auto simp: agrees_def)
  then show ?thesis using assms(1) assms(2) [OF assms(3)]
    by (auto simp: apply_run_started_def run_started_fields_def started_run_def agrees_def Let_def dest!: in_update
        split: option.splits)
qed

lemma agrees_run_finished: "agrees p r \<Longrightarrow> agrees p (apply_run_finished r rid pl eid tm)"
proof -
  assume a: "agrees p r"
  have "rv_started_valid v" if "map_of (v_runs r) i = Some v" for i v
    using a map_of_SomeD [OF that] by (auto simp: agrees_def)
  moreover have "rv_started_valid (finished_run pl eid tm v) = rv_started_valid v" for v
    by (simp add: finished_run_def Let_def)
  ultimately show ?thesis using a
    by (auto simp: apply_run_finished_def agrees_def dest!: in_update split: option.splits)
qed

lemma agrees_step:
  assumes "proj_step T p e p'" and "agrees p r" and "dollars_fit (payload e)"
    and "etype e = RUN_STARTED \<Longrightarrow> run_started_complete (payload e) = Inr True"
  shows "\<exists>r'. apply_row T (row_of_event e) r = Inr r' \<and> agrees p' r'"
  using assms(1)
proof cases
  case (create iid deps meta)
  then show ?thesis using assms(2) agrees_None(1) [OF assms(2) create(5)]
    by (simp add: apply_row_event apply_issue_created_def agrees_def shown_defs)
next
  case (move_issue iid cur fn st bcs)
  obtain v where "map_of (v_issues r) iid = Some v" "iv_state v = issue_state_value cur" "\<not> iv_inconsistent v"
    by (rule agrees_issue [OF assms(2) move_issue(4)])
  then show ?thesis using assms(2) move_issue
    by (auto simp: apply_row_event apply_issue_transition_def moved_issue_def agrees_def shown_defs)
next
  case (spawn xid iid base pre)
  then show ?thesis using assms(2) agrees_None(2) [OF assms(2) spawn(5)]
    by (simp add: apply_row_event apply_execution_spawned_def agrees_def shown_defs new_execution_view_def)
next
  case (move_execution xid w fn st w')
  obtain v where v: "map_of (v_executions r) xid = Some v" "de_issue v = Some (x_issue_id w)"
    "de_state v = execution_state_value (x_state w)" "\<not> de_inconsistent v"
    by (rule agrees_execution [OF assms(2) move_execution(3)])
  obtain v' where v': "moved_execution T (etype e) (payload e) (Some (event_id e)) v = Inr v'"
    "shown_execution v' = (de_issue v, execution_state_value st, False)"
    using moved_execution_shown [OF v(3,4) move_execution(4,5) assms(3)] by blast
  have "shown_execution v' = true_execution w'"
    using v' v annotate_shown [OF move_execution(6)] by (simp add: true_execution_def)
  then have "agrees p' (r\<lparr>v_executions := AList.update xid v' (v_executions r)\<rparr>)"
    using assms(2) move_execution(1) by (simp add: agrees_def)
  then show ?thesis using v v' move_execution
    by (auto simp: apply_row_event apply_execution_transition_def)
next
  case (intend xid w ec tb)
  then show ?thesis using assms(2) agrees_same_executions [OF assms(2) intend(4)]
    by (simp add: apply_row_event true_execution_def)
next
  case (commit xid w)
  then show ?thesis using assms(2) agrees_same_executions [OF assms(2) commit(4)]
    by (simp add: apply_row_event true_execution_def)
next
  case (prepare xid w g wk)
  then show ?thesis using assms(2) agrees_None(3) [OF assms(2) prepare(6)]
    by (simp add: apply_row_event apply_containment_event_def str_or_none_def agrees_def shown_defs)
next
  case (move_containment xid x g w w')
  obtain v where "map_of (v_containments r) (xid, g) = Some v" "cg_workspace_key v = Some (workspace_key w)"
    "cg_state v = containment_state_value (c_state w)" "\<not> cg_inconsistent v"
    by (rule agrees_containment [OF assms(2) move_containment(6)])
  then show ?thesis using assms(2) move_containment
    by (cases "c_state w") (auto simp: apply_row_event apply_containment_event_def str_or_none_def moved_containment_def
        containment_transition_def agrees_def shown_defs)
next
  case frame
  then show ?thesis
    using assms(2) agrees_run_started [OF assms(2,4)] agrees_run_finished [OF assms(2)] by (auto simp: apply_row_event)
qed


lemma agrees_rebuild:
  assumes "rebuild T es p = Inr p'" and "agrees p r" and "\<forall>e \<in> set es. dollars_fit (payload e)"
  shows "\<exists>r'. rfold (apply_row T) (map row_of_event es) r = Inr r' \<and> agrees p' r'"
  using assms
proof (induction es arbitrary: p r)
  case (Cons e es)
  from Cons.prems(1) obtain q where q: "apply_event T e p = Inr q" "rebuild T es q = Inr p'"
    by (auto simp: rebuild_Cons rbind_eq_Inr)
  have h: "handle T (note_event p e) e = Inr q" using q(1) by (simp add: apply_event_def)
  have c: "etype e = RUN_STARTED \<Longrightarrow> run_started_complete (payload e) = Inr True"
    using h run_started_accepted [of "note_event p e" e q] by (simp add: handle_def)
  have "agrees (note_event p e) r" using Cons.prems(2) by simp
  then obtain r1 where "apply_row T (row_of_event e) r = Inr r1" "agrees q r1"
    using agrees_step [OF handle_step [OF h] _ _ c] Cons.prems(3) by auto
  then show ?case using Cons.IH [OF q(2)] Cons.prems(3) by simp
qed simp

lemma agrees_empty: "agrees empty_projection no_views"
  by (simp add: agrees_def empty_projection_def no_views_def)


section \<open>Recomputing one entity\<close>

text \<open>
  A reducer, what it shows of one entity, and the rows that name the entity: rows that do not name it
  leave the view alone, and a row that does changes it depending on that view only.
\<close>

locale scoped_view =
  fixes step :: "'row \<Rightarrow> 's \<Rightarrow> 'e + 's" and look :: "'s \<Rightarrow> 'v" and names :: "'row \<Rightarrow> bool"
  assumes unnamed: "step row r = Inr r' \<Longrightarrow> \<not> names row \<Longrightarrow> look r' = look r"
    and named: "step row r = Inr r' \<Longrightarrow> step row q = Inr q' \<Longrightarrow> look r = look q \<Longrightarrow> look r' = look q'"
begin

lemma scoped_same:
  assumes "rfold step rows r = Inr r'" and "rfold step (filter names rows) q = Inr q'" and "look r = look q"
  shows "look r' = look q'"
  using assms
proof (induction rows arbitrary: r q)
  case (Cons row rows)
  from Cons.prems(1) obtain r1 where r1: "step row r = Inr r1" "rfold step rows r1 = Inr r'"
    by (auto simp: rbind_eq_Inr)
  show ?case
  proof (cases "names row")
    case True
    then obtain q1 where q1: "step row q = Inr q1" "rfold step (filter names rows) q1 = Inr q'"
      using Cons.prems(2) by (auto simp: rbind_eq_Inr)
    show ?thesis by (rule Cons.IH [OF r1(2) q1(2) named [OF r1(1) q1(1) Cons.prems(3)]])
  next
    case False
    then show ?thesis using Cons.IH [OF r1(2), of q] Cons.prems(2,3) unnamed [OF r1(1) False] by simp
  qed
qed simp

lemma unnamed_rows: "rfold step rows r = Inr r' \<Longrightarrow> \<forall>row \<in> set rows. \<not> names row \<Longrightarrow> look r' = look r"
proof (induction rows arbitrary: r)
  case (Cons row rows)
  then obtain r1 where r1: "step row r = Inr r1" "rfold step rows r1 = Inr r'" by (auto simp: rbind_eq_Inr)
  then show ?case using Cons.IH [OF r1(2)] unnamed [OF r1(1)] Cons.prems(2) by simp
qed simp

end

text \<open>The reducer is one on every kind of entity.\<close>

lemmas row_defs = apply_row_def apply_issue_created_def apply_issue_transition_def apply_execution_spawned_def
  apply_execution_transition_def apply_containment_event_def apply_run_started_def apply_run_finished_def Let_def

interpretation issue_scope: scoped_view "apply_row T" "\<lambda>r. map_of (v_issues r) i" "\<lambda>row. ev_issue_id row = Some i" for T i
  by unfold_locales
    (auto simp: row_defs rbind_eq_Inr split: option.splits if_splits)

interpretation execution_scope: scoped_view "apply_row T" "\<lambda>r. map_of (v_executions r) x" "\<lambda>row. ev_execution_id row = Some x" for T x
  by unfold_locales
    (auto simp: row_defs rbind_eq_Inr split: option.splits if_splits)

interpretation containment_scope: scoped_view "apply_row T" "\<lambda>r. map_of (v_containments r) (x, g)"
    "\<lambda>row. ev_execution_id row = Some x" for T x g
  by unfold_locales
    (auto simp: row_defs rbind_eq_Inr split: option.splits if_splits)

interpretation run_scope: scoped_view "apply_row T" "\<lambda>r. map_of (v_runs r) i" "\<lambda>row. ev_run_id row = Some i" for T i
  by unfold_locales
    (auto simp: row_defs rbind_eq_Inr split: option.splits if_splits)


text \<open>Rows whose numbers Python can handle: on those the reducer raises nothing.\<close>

definition tame :: "'a evidence_row_scheme \<Rightarrow> bool" where
  "tame row \<longleftrightarrow> dollars_fit (load_payload (ev_payload row)) \<and> is_ok (run_started_complete (load_payload (ev_payload row)))"

lemma moved_execution_total: "dollars_fit pl \<Longrightarrow> \<exists>v'. moved_execution T et pl eid v = Inr v'"
  using capture_shown [of pl] by (fastforce simp: moved_execution_def Let_def split: option.splits sum.splits)

lemma apply_row_total: "tame row \<Longrightarrow> \<exists>r'. apply_row T row r = Inr r'"
proof -
  assume t: "tame row"
  let ?pl = "load_payload (ev_payload row)"
  obtain b where "run_started_complete ?pl = Inr b" using t by (auto simp: tame_def is_ok_iff)
  then have "\<exists>r'. apply_run_started r (ev_run_id row) ?pl (ev_event_id row) (ev_ts row) = Inr r'"
    by (auto simp: apply_run_started_def run_started_fields_def Let_def split: option.splits)
  moreover have "\<exists>r'. apply_execution_transition T r et (ev_execution_id row) ?pl (ev_event_id row) = Inr r'" for et
    using moved_execution_total [of ?pl T et "ev_event_id row"] t
    by (fastforce simp: apply_execution_transition_def tame_def rbind_eq_Inr split: option.splits)
  ultimately show ?thesis by (auto simp: apply_row_def Let_def split: option.splits)
qed

lemma apply_rows_total: "\<forall>row \<in> set rows. tame row \<Longrightarrow> \<exists>r'. rfold (apply_row T) rows r = Inr r'"
proof (induction rows arbitrary: r)
  case (Cons row rows)
  then show ?case using apply_row_total [of row T r] by fastforce
qed simp

lemma reduced:
  assumes "\<forall>row \<in> set rows. tame row"
  obtains r where "rfold (apply_row T) rows no_views = Inr r"
    and "apply_ok_evidence_rows T rows = Inr (r\<lparr>v_executions := seen pending (v_executions r)\<rparr>)"
  using apply_rows_total [OF assms, of T no_views] by (auto simp: apply_ok_evidence_rows_def)

section \<open>The properties\<close>

text \<open>
  The dashboard shows what the runtime knows. For every log the strict replay accepts (whose metered
  dollars fit Python's decimal context) the tolerant projection of its rows raises nothing, lists the
  same issues in the same states, the same executions and containment boundaries (an executing one as
  pending reconciliation), marks none of them inconsistent, and has every run's start as valid.
\<close>

theorem dashboard_shows_runtime:
  assumes "rebuild T es empty_projection = Inr p" and "\<forall>e \<in> set es. dollars_fit (payload e)"
  shows "\<exists>r. apply_ok_evidence_rows T (map row_of_event es) = Inr r \<and>
    map (\<lambda>(i, v). (i, iv_state v, iv_inconsistent v)) (v_issues r) =
      map (\<lambda>(i, st). (i, issue_state_value st, False)) (issues p) \<and>
    map (\<lambda>(x, v). (x, de_issue v, de_state v, de_inconsistent v)) (v_executions r) =
      map (\<lambda>(x, v). (x, Some (x_issue_id v), if x_state v = EXECUTING then PENDING_RECONCILIATION
        else execution_state_value (x_state v), False)) (executions p) \<and>
    map (\<lambda>(k, v). (k, cg_workspace_key v, cg_state v, cg_inconsistent v)) (v_containments r) =
      map (\<lambda>(k, v). (k, Some (workspace_key v), containment_state_value (c_state v), False)) (containments p) \<and>
    (\<forall>(i, v) \<in> set (v_runs r). rv_started_valid v) \<and> unknown_event_type_count r = 0"
proof -
  obtain r where r: "rfold (apply_row T) (map row_of_event es) no_views = Inr r" and a: "agrees p r"
    using agrees_rebuild [OF assms(1) agrees_empty assms(2)] by blast
  let ?p = "\<lambda>(xi, st, bad). (xi, if \<not> bad \<and> st = execution_state_value EXECUTING then PENDING_RECONCILIATION else st, bad)"
  have pend: "shown_execution (pending v) = ?p (shown_execution v)" for v
    by (simp add: shown_execution_def pending_def)
  have "seen shown_execution (seen pending (v_executions r)) = seen ?p (seen shown_execution (v_executions r))"
    by (auto simp: pend simp del: execution_state_value.simps)
  also have "\<dots> = seen ?p (seen true_execution (executions p))" using a by (simp add: agrees_def)
  finally have x: "seen shown_execution (seen pending (v_executions r)) = seen ?p (seen true_execution (executions p))" .
  show ?thesis
    using a x execution_state_value_inj [of _ EXECUTING]
    by (auto simp: apply_ok_evidence_rows_def r agrees_def shown_defs map_prod_def case_prod_unfold comp_def
        simp del: execution_state_value.simps)
qed

lemma sample_fits: "\<forall>e \<in> set sample_log. dollars_fit (payload e)"
  by (simp add: sample_log_def sample_event_def dollars_fit_def dict_or_empty_def jget_def validate_dollars_def is_ok_def)

theorem dashboard_shows_runtime_witness:
  "\<exists>p r. rebuild doc03 sample_log empty_projection = Inr p \<and>
     apply_ok_evidence_rows doc03 (map row_of_event sample_log) = Inr r \<and>
     map (\<lambda>(i, v). (i, iv_state v, iv_inconsistent v)) (v_issues r) =
       map (\<lambda>(i, st). (i, issue_state_value st, False)) (issues p)"
proof -
  obtain p where p: "rebuild doc03 sample_log empty_projection = Inr p" using sample_replays by blast
  show ?thesis using p dashboard_shows_runtime [OF p sample_fits] by blast
qed

text \<open>
  One entity can be recomputed from its own rows. The projection of a generation raises nothing when
  no row has a number Python cannot handle, and for every issue, execution, containment boundary and run
  the projection of only the rows that name it shows the same view of it as the projection of all rows.
\<close>

theorem scoped_recompute:
  assumes "\<forall>row \<in> set rows. tame row"
  shows "\<exists>r. apply_ok_evidence_rows T rows = Inr r \<and>
    (\<forall>i. \<exists>q. apply_ok_evidence_rows T (filter (\<lambda>row. ev_issue_id row = Some i) rows) = Inr q \<and>
      map_of (v_issues q) i = map_of (v_issues r) i) \<and>
    (\<forall>x. \<exists>q. apply_ok_evidence_rows T (filter (\<lambda>row. ev_execution_id row = Some x) rows) = Inr q \<and>
      map_of (v_executions q) x = map_of (v_executions r) x \<and>
      (\<forall>g. map_of (v_containments q) (x, g) = map_of (v_containments r) (x, g))) \<and>
    (\<forall>i. \<exists>q. apply_ok_evidence_rows T (filter (\<lambda>row. ev_run_id row = Some i) rows) = Inr q \<and>
      map_of (v_runs q) i = map_of (v_runs r) i)"
proof -
  obtain r where r: "rfold (apply_row T) rows no_views = Inr r"
    "apply_ok_evidence_rows T rows = Inr (r\<lparr>v_executions := seen pending (v_executions r)\<rparr>)"
    by (rule reduced [OF assms])
  have scoped: "\<exists>q. rfold (apply_row T) (filter P rows) no_views = Inr q \<and>
      apply_ok_evidence_rows T (filter P rows) = Inr (q\<lparr>v_executions := seen pending (v_executions q)\<rparr>)" for P
    using assms by (auto intro: reduced [of "filter P rows" T])
  let ?R = "r\<lparr>v_executions := seen pending (v_executions r)\<rparr>"
  have A: "\<exists>q. apply_ok_evidence_rows T (filter (\<lambda>row. ev_issue_id row = Some i) rows) = Inr q \<and>
      map_of (v_issues q) i = map_of (v_issues ?R) i" for i
    using scoped [of "\<lambda>row. ev_issue_id row = Some i"] issue_scope.scoped_same [OF r(1) _ refl, of i] by fastforce
  have B: "\<exists>q. apply_ok_evidence_rows T (filter (\<lambda>row. ev_execution_id row = Some x) rows) = Inr q \<and>
      map_of (v_executions q) x = map_of (v_executions ?R) x \<and>
      (\<forall>g. map_of (v_containments q) (x, g) = map_of (v_containments ?R) (x, g))" for x
    using scoped [of "\<lambda>row. ev_execution_id row = Some x"] execution_scope.scoped_same [OF r(1) _ refl, of x]
      containment_scope.scoped_same [OF r(1) _ refl, of x] by (fastforce simp: seen_lookup)
  have C: "\<exists>q. apply_ok_evidence_rows T (filter (\<lambda>row. ev_run_id row = Some i) rows) = Inr q \<and>
      map_of (v_runs q) i = map_of (v_runs ?R) i" for i
    using scoped [of "\<lambda>row. ev_run_id row = Some i"] run_scope.scoped_same [OF r(1) _ refl, of i] by fastforce
  show ?thesis unfolding r(2) using A B C by blast
qed

theorem scoped_recompute_witness:
  "\<exists>r q. apply_ok_evidence_rows doc03 (map row_of_event sample_log) = Inr r \<and>
     apply_ok_evidence_rows doc03 (filter (\<lambda>row. ev_execution_id row = Some ''i1-e2'') (map row_of_event sample_log)) = Inr q \<and>
     map_of (v_executions q) ''i1-e2'' = map_of (v_executions r) ''i1-e2''"
proof -
  have "\<forall>e \<in> set sample_log. is_ok (run_started_complete (payload e))"
    by (simp add: sample_log_def sample_event_def run_started_complete_def dict_or_empty_def jget_def
        has_only_keys_def has_nonempty_str_def is_ok_def)
  then have "\<forall>row \<in> set (map row_of_event sample_log). tame row" using sample_fits by (simp add: tame_def)
  from scoped_recompute [OF this, of doc03] show ?thesis by blast
qed

text \<open>Dollars of ten to the twenty-second and more are no metered cost and no missing one: the conversion raises.\<close>

lemma huge_dollars_raise: "10 ^ 22 \<le> i \<Longrightarrow> \<not> is_ok (validate_dollars (JInt i))"
proof -
  assume i: "10 ^ 22 \<le> i"
  then have "(10::int) ^ 28 \<le> i * 1000000" by simp
  then have "of_int (10 ^ 28) \<le> (of_int (i * 1000000) :: rat)" by (simp only: of_int_le_iff)
  also have "\<dots> \<le> of_int i * (1000000::rat) + 1 / 2" by simp
  finally have "(10::int) ^ 28 \<le> \<lfloor>of_int i * (1000000::rat) + 1 / 2\<rfloor>" by (simp only: le_floor_iff)
  then show ?thesis using i by (auto simp: validate_dollars_def micro_of_def is_ok_def Let_def split: option.splits)
qed

end
