(* ===== verification/Observe.thy ===== *)
theory Observe
  imports EventLog
begin

text \<open>
  \<open>src/runtime/observe.py\<close>: the read-only observer of a log. It reads the file in chunks while the
  writer may be appending, so the file is a function from the number of accesses made so far to the
  bytes it holds then. SHA-256 is a parameter. Messages of errors are not modelled, their codes are.
\<close>

section \<open>Base 64\<close>

text \<open>\<open>base64.b64encode\<close> over an alphabet given by its last two characters.\<close>

definition b64_alphabet :: "string \<Rightarrow> string" where
  "b64_alphabet special = ''ABCDEFGHIJKLMNOPQRSTUVWXYZabcdefghijklmnopqrstuvwxyz0123456789'' @ special"

fun b64_groups :: "nat list \<Rightarrow> nat option list" where
  "b64_groups [] = []"
| "b64_groups [a] = [Some (a div 4), Some (a mod 4 * 16), None, None]"
| "b64_groups [a, b] = [Some (a div 4), Some (a mod 4 * 16 + b div 16), Some (b mod 16 * 4), None]"
| "b64_groups (a # b # c # rest) =
     [Some (a div 4), Some (a mod 4 * 16 + b div 16), Some (b mod 16 * 4 + c div 64), Some (c mod 64)] @ b64_groups rest"

definition b64_char :: "string \<Rightarrow> nat option \<Rightarrow> char" where
  "b64_char alphabet v = (case v of None \<Rightarrow> CHR ''='' | Some n \<Rightarrow> alphabet ! n)"

definition b64_encode :: "string \<Rightarrow> string \<Rightarrow> string" where
  "b64_encode alphabet bytes = map (b64_char alphabet) (b64_groups (map ord_of bytes))"

text \<open>
  \<open>binascii.a2b_base64\<close> in its lenient mode: characters outside the alphabet are skipped, and a complete
  pad ends the input. The arguments are the place in the quadruple, the bits left over and the pads seen.
\<close>

definition b64_value :: "string \<Rightarrow> char \<Rightarrow> nat option" where
  "b64_value alphabet c = (if c \<in> set alphabet then Some (length (takeWhile (\<lambda>d. d \<noteq> c) alphabet)) else None)"

fun a2b :: "string \<Rightarrow> nat \<Rightarrow> nat \<Rightarrow> nat \<Rightarrow> string \<Rightarrow> nat list option" where
  "a2b alphabet q left pads [] = (if q = 0 then Some [] else None)"
| "a2b alphabet q left pads (c # rest) =
     (if c = CHR ''='' then
        (if 2 \<le> q \<and> 4 \<le> q + (pads + 1) then Some []
         else a2b alphabet q left (if 2 \<le> q then pads + 1 else pads) rest)
      else case b64_value alphabet c of
        None \<Rightarrow> a2b alphabet q left pads rest
      | Some v \<Rightarrow>
          if q = 0 then a2b alphabet 1 v 0 rest
          else if q = 1 then map_option (Cons (left * 4 + v div 16)) (a2b alphabet 2 (v mod 16) 0 rest)
          else if q = 2 then map_option (Cons (left * 16 + v div 4)) (a2b alphabet 3 (v mod 4) 0 rest)
          else map_option (Cons (left * 64 + v)) (a2b alphabet 0 0 0 rest))"

definition b64_decode :: "string \<Rightarrow> string option" where
  "b64_decode text = map_option (map char_of) (a2b (b64_alphabet ''+/'') 0 0 0 text)"

text \<open>The URL-safe alphabet is translated to the other one before decoding.\<close>

definition urlsafe_b64_decode :: "string \<Rightarrow> string option" where
  "urlsafe_b64_decode text = b64_decode (map (\<lambda>c. if c = CHR ''-'' then CHR ''+'' else if c = CHR ''_'' then CHR ''/'' else c) text)"

section \<open>Input\<close>

datatype observer_error = ObserverInputError string | ObserverUnmodelled

definition validate_log_path :: "bool \<Rightarrow> bool \<Rightarrow> bool \<Rightarrow> observer_error + unit" where
  "validate_log_path absolute exists regular =
     (if \<not> absolute then Inl (ObserverInputError ''LOG_PATH_NOT_ABSOLUTE'')
      else require (\<not> (exists \<and> \<not> regular)) (ObserverInputError ''LOG_PATH_NOT_REGULAR_FILE''))"

definition validate_limit :: "int \<Rightarrow> observer_error + int" where
  "validate_limit n = (if n < 1 \<or> 500 < n then Inl (ObserverInputError ''LIMIT_OUT_OF_RANGE'') else Inr n)"

section \<open>Cursors\<close>

text \<open>The device and file index of the log, if the file system has them.\<close>

type_synonym file_generation = "int option \<times> int option"

definition generation_token :: "int \<Rightarrow> int \<Rightarrow> file_generation" where
  "generation_token dev ino = (if ino = 0 then (None, None) else (Some dev, Some ino))"

text \<open>\<open>json.dumps\<close> of the payload keeps the order of its keys.\<close>

definition null_or :: "('a \<Rightarrow> json) \<Rightarrow> 'a option \<Rightarrow> json" where
  "null_or f v = (case v of None \<Rightarrow> JNull | Some a \<Rightarrow> f a)"

definition cursor_members :: "nat \<Rightarrow> string option \<Rightarrow> file_generation \<Rightarrow> payload" where
  "cursor_members off lineage gen = [(''o'', JInt (int off)), (''cl'', null_or JStr lineage),
     (''fg'', JArr [null_or JInt (fst gen), null_or JInt (snd gen)])]"

definition cursor_text :: "nat \<Rightarrow> string option \<Rightarrow> file_generation \<Rightarrow> string" where
  "cursor_text off lineage gen = ''{'' @ join '','' (map member_text (cursor_members off lineage gen)) @ ''}''"

definition encode_cursor :: "nat \<Rightarrow> string option \<Rightarrow> file_generation \<Rightarrow> string" where
  "encode_cursor off lineage gen = b64_encode (b64_alphabet ''-_'') (cursor_text off lineage gen)"

record cursor =
  cur_offset :: nat
  cur_lineage :: json
  cur_generation :: "json \<times> json"

definition cursor_invalid :: "observer_error + 'a" where
  "cursor_invalid = Inl (ObserverInputError ''CURSOR_INVALID'')"

text \<open>\<open>tuple(x or (None, None))\<close>, if it has two elements.\<close>

definition pair_of :: "json \<Rightarrow> (json \<times> json) option" where
  "pair_of v = (let items = (case v of
       JArr xs \<Rightarrow> Some xs | JStr s \<Rightarrow> Some (map (\<lambda>c. JStr [c]) s) | JObj kvs \<Rightarrow> Some (map (JStr \<circ> fst) kvs) | _ \<Rightarrow> None);
       falsy = v \<in> {JNull, JBool False, JInt 0, JArr [], JStr [], JObj []} \<or>
         (case v of JFloat l \<Rightarrow> float_of_lexeme l = Fin 0 | _ \<Rightarrow> False)
     in if falsy then Some (JNull, JNull) else case items of Some [a, b] \<Rightarrow> Some (a, b) | _ \<Rightarrow> None)"

definition decode_cursor :: "string \<Rightarrow> observer_error + cursor" where
  "decode_cursor text =
     (if \<exists>c \<in> set text. 128 \<le> ord_of c then cursor_invalid
      else case urlsafe_b64_decode text of None \<Rightarrow> cursor_invalid | Some raw \<Rightarrow>
      (case loads raw of
         Inl JSONDecodeError \<Rightarrow> cursor_invalid
       | Inl Unmodelled \<Rightarrow> Inl ObserverUnmodelled
       | Inr (JObj kvs) \<Rightarrow>
           (case Option.bind (map_of kvs ''o'') int_value of
              None \<Rightarrow> cursor_invalid
            | Some off \<Rightarrow> if off < 0 then cursor_invalid
                else (case pair_of (jget kvs ''fg'') of
                  None \<Rightarrow> cursor_invalid
                | Some gen \<Rightarrow> Inr \<lparr>cur_offset = nat off, cur_lineage = jget kvs ''cl'', cur_generation = gen\<rparr>))
       | Inr _ \<Rightarrow> cursor_invalid))"

text \<open>Python's \<open>==\<close> of a decoded value and a string or \<open>None\<close>, an integer or \<open>None\<close>.\<close>

definition same_text :: "json \<Rightarrow> string option \<Rightarrow> bool" where
  "same_text v s = (v = null_or JStr s)"

definition same_number :: "json \<Rightarrow> int option \<Rightarrow> bool" where
  "same_number v n = (case n of
     None \<Rightarrow> v = JNull
   | Some i \<Rightarrow> int_value v = Some i \<or> (case v of JFloat l \<Rightarrow> float_of_lexeme l = Fin (of_int i) | _ \<Rightarrow> False))"

definition start_offset :: "string option \<Rightarrow> string option \<Rightarrow> file_generation \<Rightarrow> nat \<Rightarrow> observer_error + nat" where
  "start_offset after lineage gen bytes = (case after of
     None \<Rightarrow> Inr 0
   | Some text \<Rightarrow> rbind (decode_cursor text) (\<lambda>c.
       if \<not> same_text (cur_lineage c) lineage \<or>
          \<not> (same_number (fst (cur_generation c)) (fst gen) \<and> same_number (snd (cur_generation c)) (snd gen)) \<or>
          bytes < cur_offset c
       then Inl (ObserverInputError ''CURSOR_LOG_REPLACED'') else Inr (cur_offset c)))"

section \<open>Records\<close>

definition CHUNK_SIZE :: nat where
  "CHUNK_SIZE = 64 * 1024"

definition MAX_RECORD_BYTES :: nat where
  "MAX_RECORD_BYTES = 8 * 1024 * 1024"

record raw_record =
  rec_offset :: nat
  rec_raw :: string
  rec_terminated :: bool
  rec_oversized :: bool
  rec_continues :: bool

text \<open>\<open>buf.find(b"\n", 0, MAX_RECORD_BYTES)\<close>, as the length of the line with its end.\<close>

definition find_line :: "string \<Rightarrow> nat option" where
  "find_line buf = (let n = length (takeWhile (\<lambda>c. c \<noteq> LF) buf)
     in if n < length buf \<and> n < MAX_RECORD_BYTES then Some (Suc n) else None)"

definition read_chunk :: "string \<Rightarrow> nat \<Rightarrow> string" where
  "read_chunk bytes pos = take CHUNK_SIZE (drop pos bytes)"

text \<open>The lineage, everything read while looking for it, and the number of accesses made.\<close>

function read_head :: "(string \<Rightarrow> string) \<Rightarrow> (nat \<Rightarrow> string) \<Rightarrow> nat \<Rightarrow> string \<Rightarrow> string option \<times> string \<times> nat" where
  "read_head sha file k buf = (case find_line buf of
     Some n \<Rightarrow> (Some (sha (take n buf)), buf, k)
   | None \<Rightarrow>
       if MAX_RECORD_BYTES \<le> length buf then (None, buf, k)
       else let chunk = read_chunk (file k) (length buf)
            in if chunk = [] then (None, buf, Suc k) else read_head sha file (Suc k) (buf @ chunk))"
  by pat_completeness auto

termination
  by (relation "measure (\<lambda>(sha, file, k, buf). MAX_RECORD_BYTES - length buf)") (auto intro!: diff_less_mono2)

text \<open>
  The generator of records: \<open>buf\<close> holds the bytes from \<open>pos\<close> that were read and not yet yielded, and the
  file position is at their end.
\<close>

function stream_records :: "(nat \<Rightarrow> string) \<Rightarrow> nat \<Rightarrow> nat \<Rightarrow> string \<Rightarrow> nat \<Rightarrow> raw_record list" where
  "stream_records file k pos buf 0 = []"
| "stream_records file k pos buf (Suc room) = (case find_line buf of
     Some n \<Rightarrow>
       \<lparr>rec_offset = pos, rec_raw = take n buf, rec_terminated = True, rec_oversized = False, rec_continues = False\<rparr>
       # stream_records file k (pos + n) (drop n buf) room
   | None \<Rightarrow>
       if MAX_RECORD_BYTES \<le> length buf then
         (let capped = take MAX_RECORD_BYTES buf
          in [\<lparr>rec_offset = pos, rec_raw = capped, rec_terminated = False, rec_oversized = True,
               rec_continues = (pos + length capped < length (file k))\<rparr>])
       else let chunk = read_chunk (file k) (pos + length buf)
            in if chunk = [] then
                 (if buf = [] then []
                  else [\<lparr>rec_offset = pos, rec_raw = buf, rec_terminated = False, rec_oversized = False, rec_continues = False\<rparr>])
               else stream_records file (Suc k) pos (buf @ chunk) (Suc room))"
  by pat_completeness auto

termination
  by (relation "measures [\<lambda>(file, k, pos, buf, room). room, \<lambda>(file, k, pos, buf, room). MAX_RECORD_BYTES - length buf]") (auto intro!: diff_less_mono2)

section \<open>Views\<close>

datatype integrity = OK | MALFORMED | TORN | OVERSIZED

record record_view =
  rec_cursor :: string
  length_bytes :: nat
  record_bytes :: "string option"
  record_hash :: "string option"
  rec_integrity :: integrity
  rec_event_id :: "int option"
  rec_event_type :: "string option"
  rec_schema_version :: "int option"
  truncated_prefix_hash :: "string option"
  truncated_prefix_bytes :: "nat option"

definition str_value :: "json \<Rightarrow> string option" where
  "str_value v = (case v of JStr s \<Rightarrow> Some s | _ \<Rightarrow> None)"

definition without_LF :: "string \<Rightarrow> string" where
  "without_LF raw = (if ends_with_LF raw then butlast raw else raw)"

definition classify :: "string \<Rightarrow> observer_error + (integrity \<times> int option \<times> string option \<times> int option)" where
  "classify raw = (case loads (without_LF raw) of
     Inl JSONDecodeError \<Rightarrow> Inr (MALFORMED, None, None, None)
   | Inl Unmodelled \<Rightarrow> Inl ObserverUnmodelled
   | Inr (JObj kvs) \<Rightarrow> Inr (OK, int_value (jget kvs ''event_id''), str_value (jget kvs ''type''), int_value (jget kvs ''schema_version''))
   | Inr _ \<Rightarrow> Inr (MALFORMED, None, None, None))"

definition record_view_of ::
  "(string \<Rightarrow> string) \<Rightarrow> string option \<Rightarrow> file_generation \<Rightarrow> raw_record \<Rightarrow> observer_error + record_view" where
  "record_view_of sha lineage gen r =
     (let cursor = encode_cursor (rec_offset r) lineage gen; n = length (rec_raw r) in
      if rec_oversized r then
        Inr \<lparr>rec_cursor = cursor, length_bytes = n, record_bytes = None, record_hash = None, rec_integrity = OVERSIZED,
          rec_event_id = None, rec_event_type = None, rec_schema_version = None,
          truncated_prefix_hash = Some (sha (rec_raw r)), truncated_prefix_bytes = Some n\<rparr>
      else rbind (if rec_terminated r then classify (rec_raw r) else Inr (TORN, None, None, None)) (\<lambda>(st, eid, et, sv).
        Inr \<lparr>rec_cursor = cursor, length_bytes = n,
          record_bytes = Some (b64_encode (b64_alphabet ''+/'') (rec_raw r)), record_hash = Some (sha (rec_raw r)),
          rec_integrity = st, rec_event_id = eid, rec_event_type = et, rec_schema_version = sv,
          truncated_prefix_hash = None, truncated_prefix_bytes = None\<rparr>))"

record events_page =
  availability :: string
  log_size :: nat
  content_lineage :: "string option"
  page_generation :: file_generation
  page_records :: "record_view list"
  next_cursor :: "string option"
  has_more :: bool

text \<open>The loop over the stream: at most \<open>limit\<close> records, and where the next page starts.\<close>

fun take_records ::
  "(string \<Rightarrow> string) \<Rightarrow> string option \<Rightarrow> file_generation \<Rightarrow> nat \<Rightarrow> raw_record list \<Rightarrow>
   observer_error + (record_view list \<times> string option \<times> bool)" where
  "take_records sha lineage gen room [] = Inr ([], None, False)"
| "take_records sha lineage gen 0 (r # rs) = Inr ([], Some (encode_cursor (rec_offset r) lineage gen), True)"
| "take_records sha lineage gen (Suc room) (r # rs) =
     rbind (record_view_of sha lineage gen r) (\<lambda>v.
     if \<not> rec_terminated r then
       Inr ([v], Some (encode_cursor (rec_offset r) lineage gen), rec_oversized r \<and> rec_continues r)
     else rbind (take_records sha lineage gen room rs) (\<lambda>(vs, nxt, more). Inr (v # vs, nxt, more)))"

text \<open>What opening the file gives: the device and index it reports, and its bytes at each access.\<close>

datatype opened = LogMissing | LogUnreadable | LogOpened int int "nat \<Rightarrow> string"

definition empty_events_page :: "string \<Rightarrow> string option \<Rightarrow> observer_error + events_page" where
  "empty_events_page avail after = (case after of
     None \<Rightarrow> Inr \<lparr>availability = avail, log_size = 0, content_lineage = None, page_generation = (None, None),
       page_records = [], next_cursor = None, has_more = False\<rparr>
   | Some text \<Rightarrow> rbind (decode_cursor text) (\<lambda>_. Inl (ObserverInputError ''CURSOR_LOG_REPLACED'')))"

definition read_events_page ::
  "(string \<Rightarrow> string) \<Rightarrow> opened \<Rightarrow> string option \<Rightarrow> nat \<Rightarrow> observer_error + events_page" where
  "read_events_page sha file after limit = (case file of
     LogMissing \<Rightarrow> empty_events_page ''NOT_INITIALIZED'' after
   | LogUnreadable \<Rightarrow> empty_events_page ''OFFLINE'' after
   | LogOpened dev ino reads \<Rightarrow>
       let size = length (reads 0); gen = generation_token dev ino; (lineage, head, k) = read_head sha reads 1 [] in
       rbind (start_offset after lineage gen size) (\<lambda>off.
       rbind (take_records sha lineage gen limit
           (stream_records reads k off (if off = 0 then head else []) (limit + 1))) (\<lambda>(vs, nxt, more).
       Inr \<lparr>availability = (if size = 0 then ''EMPTY'' else ''AVAILABLE''), log_size = size, content_lineage = lineage,
         page_generation = gen, page_records = vs, next_cursor = nxt, has_more = more\<rparr>)))"

text \<open>\<open>observe status\<close>: what \<open>stat\<close> of the path gives.\<close>

datatype stat_result = StatMissing | StatFailed | StatSize nat

definition log_availability :: "stat_result \<Rightarrow> string \<times> nat" where
  "log_availability st = (case st of
     StatMissing \<Rightarrow> (''NOT_INITIALIZED'', 0)
   | StatFailed \<Rightarrow> (''OFFLINE'', 0)
   | StatSize n \<Rightarrow> (if n = 0 then ''EMPTY'' else ''AVAILABLE'', n))"

end
