(* ===== verification/ObserveProps.thy ===== *)
theory ObserveProps
  imports Observe
begin

text \<open>
  What the observer promises: a cursor it issued is read back as it was, and a page reads the log as of
  one moment, however the writer appends while it is read.
\<close>

section \<open>Base 64 round trip\<close>

abbreviation std_alphabet :: string where
  "std_alphabet \<equiv> b64_alphabet ''+/''"

lemma std_alphabet_values:
  "n < 64 \<Longrightarrow> b64_value std_alphabet (std_alphabet ! n) = Some n \<and> std_alphabet ! n \<noteq> CHR ''=''"
proof -
  have "list_all (\<lambda>n. b64_value std_alphabet (std_alphabet ! n) = Some n \<and> std_alphabet ! n \<noteq> CHR ''='') [0..<64]"
    by code_simp
  then show "n < 64 \<Longrightarrow> ?thesis" by (simp add: list_all_iff)
qed

lemma a2b_value:
  "n < 64 \<Longrightarrow> a2b std_alphabet q left pads (b64_char std_alphabet (Some n) # rest) =
     (if q = 0 then a2b std_alphabet 1 n 0 rest
      else if q = 1 then map_option (Cons (left * 4 + n div 16)) (a2b std_alphabet 2 (n mod 16) 0 rest)
      else if q = 2 then map_option (Cons (left * 16 + n div 4)) (a2b std_alphabet 3 (n mod 4) 0 rest)
      else map_option (Cons (left * 64 + n)) (a2b std_alphabet 0 0 0 rest))"
  using std_alphabet_values [of n] by (simp add: b64_char_def)

lemma a2b_pad:
  "a2b std_alphabet q left pads (b64_char std_alphabet None # rest) =
     (if 2 \<le> q \<and> 4 \<le> q + (pads + 1) then Some []
      else a2b std_alphabet q left (if 2 \<le> q then pads + 1 else pads) rest)"
  by (simp add: b64_char_def)

lemma b64_pieces:
  fixes a b c :: nat
  assumes "a < 256" "b < 256" "c < 256"
  shows "a div 4 < 64" "a mod 4 * 16 + b div 16 < 64" "b mod 16 * 4 + c div 64 < 64" "c mod 64 < 64"
    "a mod 4 * 16 < 64" "b mod 16 * 4 < 64"
    "a div 4 * 4 + (a mod 4 * 16 + b div 16) div 16 = a" "(a mod 4 * 16 + b div 16) mod 16 = b div 16"
    "b div 16 * 16 + (b mod 16 * 4 + c div 64) div 4 = b" "(b mod 16 * 4 + c div 64) mod 4 = c div 64"
    "b div 16 mod 16 = b div 16" "c div 64 * 64 + c mod 64 = c" "a div 4 * 4 + a mod 4 * 16 div 16 = a" "b div 16 * 16 + b mod 16 * 4 div 4 = b"
  using assms by (auto simp: div_mult_mod_eq) (presburger+)?

lemma a2b_groups:
  "\<forall>n \<in> set ns. n < 256 \<Longrightarrow> a2b std_alphabet 0 0 0 (map (b64_char std_alphabet) (b64_groups ns)) = Some ns"
proof (induction ns rule: b64_groups.induct)
  case (2 a)
  then show ?case using b64_pieces [of a 0 0] by (simp add: a2b_value a2b_pad del: a2b.simps(2))
next
  case (3 a b)
  then show ?case using b64_pieces [of a b 0] by (simp add: a2b_value a2b_pad del: a2b.simps(2))
next
  case (4 a b c rest)
  then show ?case using b64_pieces [of a b c] by (simp add: a2b_value del: a2b.simps(2))
qed simp

lemma groups_small: "\<forall>n \<in> set ns. n < 256 \<Longrightarrow> v \<in> set (b64_groups ns) \<Longrightarrow> v = None \<or> (\<exists>n < 64. v = Some n)"
proof (induction ns rule: b64_groups.induct)
  case (2 a)
  then show ?case using b64_pieces [of a 0 0] by auto
next
  case (3 a b)
  then show ?case using b64_pieces [of a b 0] by auto
next
  case (4 a b c rest)
  then show ?case using b64_pieces [of a b c] by auto
qed simp

lemma b64_round_trip: "b64_decode (b64_encode std_alphabet bytes) = Some bytes"
proof -
  have "\<forall>n \<in> set (map ord_of bytes). n < 256" using ord_of_less by auto
  from a2b_groups [OF this] show ?thesis by (simp add: b64_decode_def b64_encode_def o_def char_of_ord)
qed

text \<open>The URL-safe characters are those the decoder translates back, and ASCII.\<close>

definition from_urlsafe :: "char \<Rightarrow> char" where
  "from_urlsafe c = (if c = CHR ''-'' then CHR ''+'' else if c = CHR ''_'' then CHR ''/'' else c)"

lemma urlsafe_values:
  "n < 64 \<Longrightarrow> from_urlsafe (b64_char (b64_alphabet ''-_'') (Some n)) = b64_char std_alphabet (Some n) \<and>
     ord_of (b64_char (b64_alphabet ''-_'') (Some n)) < 128"
proof -
  have "list_all (\<lambda>n. from_urlsafe (b64_char (b64_alphabet ''-_'') (Some n)) = b64_char std_alphabet (Some n) \<and>
     ord_of (b64_char (b64_alphabet ''-_'') (Some n)) < 128) [0..<64]" by code_simp
  then show "n < 64 \<Longrightarrow> ?thesis" by (simp add: list_all_iff)
qed

lemma urlsafe_char:
  assumes "v \<in> set (b64_groups (map ord_of bytes))"
  shows "from_urlsafe (b64_char (b64_alphabet ''-_'') v) = b64_char std_alphabet v \<and>
    ord_of (b64_char (b64_alphabet ''-_'') v) < 128"
proof -
  have "v = None \<or> (\<exists>n < 64. v = Some n)" using groups_small [OF _ assms] ord_of_less by auto
  then show ?thesis
  proof
    assume "v = None"
    then show ?thesis by (simp add: b64_char_def from_urlsafe_def ord_of_def)
  qed (use urlsafe_values in blast)
qed

lemma urlsafe_translated: "urlsafe_b64_decode t = b64_decode (map from_urlsafe t)"
  by (simp add: urlsafe_b64_decode_def from_urlsafe_def [abs_def])

lemma urlsafe_round_trip:
  "urlsafe_b64_decode (b64_encode (b64_alphabet ''-_'') bytes) = Some bytes \<and>
   (\<forall>c \<in> set (b64_encode (b64_alphabet ''-_'') bytes). ord_of c < 128)"
proof -
  have "map from_urlsafe (b64_encode (b64_alphabet ''-_'') bytes) = b64_encode std_alphabet bytes"
    using urlsafe_char [of _ bytes] by (simp add: b64_encode_def o_def)
  moreover have "\<forall>c \<in> set (b64_encode (b64_alphabet ''-_'') bytes). ord_of c < 128"
    using urlsafe_char [of _ bytes] by (auto simp: b64_encode_def)
  ultimately show ?thesis by (simp add: urlsafe_translated b64_round_trip)
qed

section \<open>Cursor round trip\<close>

lemma members_read:
  "loads (cursor_text off lineage gen) = Inr (JObj (cursor_members off lineage gen))"
proof -
  let ?kvs = "cursor_members off lineage gen"
  let ?s = "join '','' (map member_text ?kvs) @ CHR ''}'' # []"
  have wf: "\<forall>kv \<in> set ?kvs. wf_json (snd kv) \<and> norm_json (snd kv) = snd kv"
    by (auto simp: cursor_members_def null_or_def split: option.splits)
  have body: "cursor_text off lineage gen = CHR ''{'' # ?s" by (simp add: cursor_text_def)
  have "printable c" if "c \<in> set (cursor_text off lineage gen)" for c
  proof -
    have "c \<in> {CHR '','', CHR ''{'', CHR ''}''} \<or> (\<exists>kv \<in> set ?kvs. c \<in> set (member_text kv))"
      using that set_join [of "'',''" "map member_text ?kvs"] by (auto simp: body)
    then show ?thesis
    proof (elim disjE bexE)
      assume "c \<in> {CHR '','', CHR ''{'', CHR ''}''}"
      then show ?thesis by (auto simp: printable_def ord_of_def)
    next
      fix kv assume kv: "kv \<in> set ?kvs" and c: "c \<in> set (member_text kv)"
      then show ?thesis using wf printable_dump_str [of c "fst kv"] printable_dumps [of "snd kv" c]
        by (auto simp: member_text_def) (auto simp: printable_def ord_of_def)
    qed
  qed
  then have ascii: "\<not> (\<exists>c \<in> set (cursor_text off lineage gen). ord_of c = 0 \<or> 126 < ord_of c)"
    by (fastforce simp: printable_def)
  have ne: "?kvs \<noteq> []" by (simp add: cursor_members_def)
  have ws: "skip_ws ?s = ?s" using ne by (rule skip_ws_members)
  have hd: "\<not> (?s \<noteq> [] \<and> hd ?s = CHR ''}'')" by (simp add: cursor_members_def member_text_def dump_str_def)
  have "read_members (length ?s) ?s = Inr (map (map_prod id norm_json) ?kvs, [])"
    using ne wf wf_reads_back by (intro read_members_join) auto
  moreover have "map (map_prod id norm_json) ?kvs = ?kvs" using wf by (intro map_idI) auto
  moreover have "dict_of ?kvs = ?kvs" by (intro dict_of_distinct) (simp add: cursor_members_def)
  ultimately have "read_value (Suc (length ?s)) (CHR ''{'' # ?s) = Inr (JObj ?kvs, [])"
    using ws hd by (simp add: read_value.simps)
  then show ?thesis using ascii by (simp add: loads_def body skip_ws_def json_ws_def)
qed

definition json_cursor :: "nat \<Rightarrow> string option \<Rightarrow> file_generation \<Rightarrow> cursor" where
  "json_cursor off lineage gen = \<lparr>cur_offset = off, cur_lineage = null_or JStr lineage,
     cur_generation = (null_or JInt (fst gen), null_or JInt (snd gen))\<rparr>"

lemma decode_encode: "decode_cursor (encode_cursor off lineage gen) = Inr (json_cursor off lineage gen)"
proof -
  have "\<not> (\<exists>c \<in> set (encode_cursor off lineage gen). 128 \<le> ord_of c)"
    using urlsafe_round_trip [of "cursor_text off lineage gen"] by (auto simp: encode_cursor_def)
  then show ?thesis
    using urlsafe_round_trip [of "cursor_text off lineage gen"]
    by (simp add: decode_cursor_def encode_cursor_def members_read)
      (simp add: cursor_members_def jget_def int_value_def pair_of_def json_cursor_def Let_def)
qed

lemma start_offset_issued: "off \<le> bytes \<Longrightarrow> start_offset (Some (encode_cursor off lineage gen)) lineage gen bytes = Inr off"
  by (simp add: start_offset_def decode_encode json_cursor_def same_text_def same_number_def null_or_def int_value_def
      split: option.splits)

lemma encode_cursor_inj: "encode_cursor off lineage gen = encode_cursor off' lineage' gen' \<Longrightarrow> off = off'"
  using decode_encode [of off lineage gen] decode_encode [of off' lineage' gen'] by (simp add: json_cursor_def)


section \<open>The records of a file\<close>

text \<open>The records from \<open>pos\<close> on of a file whose bytes from there are \<open>s\<close>, read in one piece.\<close>

lemma find_lineD:
  "find_line s = Some n \<Longrightarrow> 0 < n \<and> n \<le> length s \<and> n \<le> MAX_RECORD_BYTES \<and>
     (\<exists>l. take n s = l @ [LF] \<and> LF \<notin> set l)"
proof -
  assume f: "find_line s = Some n"
  let ?l = "takeWhile (\<lambda>c. c \<noteq> LF) s"
  have n: "n = Suc (length ?l)" "length ?l < length s" "length ?l < MAX_RECORD_BYTES"
    using f by (auto simp: find_line_def Let_def split: if_splits)
  have "s ! length ?l = LF" using nth_length_takeWhile [of "\<lambda>c. c \<noteq> LF" s] n(2) by simp
  then have "take n s = ?l @ [LF]" using n by (simp add: take_Suc_conv_app_nth takeWhile_eq_take [symmetric])
  moreover have "LF \<notin> set ?l" by (auto dest: set_takeWhileD)
  ultimately show ?thesis using n by auto
qed

function ref_records :: "nat \<Rightarrow> string \<Rightarrow> raw_record list" where
  "ref_records pos s = (if s = [] then [] else case find_line s of
     Some n \<Rightarrow>
       \<lparr>rec_offset = pos, rec_raw = take n s, rec_terminated = True, rec_oversized = False, rec_continues = False\<rparr>
       # ref_records (pos + n) (drop n s)
   | None \<Rightarrow>
       if MAX_RECORD_BYTES \<le> length s then
         [\<lparr>rec_offset = pos, rec_raw = take MAX_RECORD_BYTES s, rec_terminated = False, rec_oversized = True,
           rec_continues = (MAX_RECORD_BYTES < length s)\<rparr>]
       else [\<lparr>rec_offset = pos, rec_raw = s, rec_terminated = False, rec_oversized = False, rec_continues = False\<rparr>])"
  by pat_completeness auto

termination
  by (relation "measure (\<lambda>(pos, s). length s)") (auto dest: find_lineD)

declare ref_records.simps [simp del] stream_records.simps(2) [simp del]

lemma find_line_longer:
  assumes "find_line buf = Some n"
  shows "find_line (buf @ t) = Some n \<and> take n (buf @ t) = take n buf"
proof -
  have n: "n \<le> length buf" using find_lineD [OF assms] by simp
  have "length (takeWhile (\<lambda>c. c \<noteq> LF) buf) < length buf"
    using assms by (auto simp: find_line_def Let_def split: if_splits)
  then have "takeWhile (\<lambda>c. c \<noteq> LF) (buf @ t) = takeWhile (\<lambda>c. c \<noteq> LF) buf"
    by (metis length_takeWhile_le not_less takeWhile_append1 takeWhile_eq_all_conv)
  then show ?thesis using assms n by (auto simp: find_line_def Let_def split: if_splits)
qed

lemma find_line_long:
  assumes "find_line buf = None" and "MAX_RECORD_BYTES \<le> length buf"
  shows "find_line (buf @ t) = None"
proof -
  let ?w = "takeWhile (\<lambda>c. c \<noteq> LF)"
  have "MAX_RECORD_BYTES \<le> length (?w buf)"
  proof (cases "length (?w buf) < length buf")
    case False
    then show ?thesis using assms(2) by simp
  qed (use assms(1) in \<open>auto simp: find_line_def Let_def split: if_splits\<close>)
  moreover have "length (?w buf) \<le> length (?w (buf @ t))"
    by (induction buf) simp_all
  ultimately show ?thesis by (simp add: find_line_def Let_def)
qed

text \<open>The file only grows.\<close>

definition appended_to :: "(nat \<Rightarrow> string) \<Rightarrow> bool" where
  "appended_to file \<longleftrightarrow> (\<forall>k. \<exists>t. file (Suc k) = file k @ t)"

lemma appended_later: "appended_to file \<Longrightarrow> k \<le> j \<Longrightarrow> \<exists>t. file j = file k @ t"
proof (induction j)
  case (Suc j)
  then show ?case using Suc.prems by (cases "k = Suc j") (auto simp: appended_to_def, metis append.assoc le_Suc_eq)
qed simp

lemma CHUNK_positive: "0 < CHUNK_SIZE" "0 < MAX_RECORD_BYTES"
  by (simp_all add: CHUNK_SIZE_def MAX_RECORD_BYTES_def)

text \<open>However the file grows meanwhile, the stream is that of the file at one of its accesses.\<close>

lemma stream_snapshot:
  assumes "appended_to file" and "file k = front @ buf @ t" and "length front = pos"
  shows "\<exists>j \<ge> k. \<exists>u. file j = front @ buf @ u \<and>
    stream_records file k pos buf room = take room (ref_records pos (buf @ u))"
  using assms
proof (induction "file" k pos buf room arbitrary: front t rule: stream_records.induct)
  case (1 reads k pos buf)
  then show ?case by auto
next
  case (2 reads k pos buf room)
  note grows = "2.prems"(1) and at = "2.prems"(2) and pos = "2.prems"(3)
  show ?case
  proof (cases "find_line buf")
    case (Some n)
    have n: "n \<le> length buf" "0 < n" using find_lineD [OF Some] by simp_all
    then have "buf \<noteq> []" by auto
    have "reads k = (front @ take n buf) @ drop n buf @ t" using at by simp
    moreover have "length (front @ take n buf) = pos + n" using pos n by simp
    ultimately obtain j u where j: "k \<le> j" "reads j = (front @ take n buf) @ drop n buf @ u"
      "stream_records reads k (pos + n) (drop n buf) room = take room (ref_records (pos + n) (drop n buf @ u))"
      using "2.IH"(2) [OF Some grows] by blast
    moreover have "ref_records pos (buf @ u) =
        \<lparr>rec_offset = pos, rec_raw = take n buf, rec_terminated = True, rec_oversized = False, rec_continues = False\<rparr>
        # ref_records (pos + n) (drop n buf @ u)"
      using find_line_longer [OF Some, of u] n \<open>buf \<noteq> []\<close> by (simp add: ref_records.simps [of pos "buf @ u"])
    ultimately show ?thesis using Some
      by (intro exI [of _ j] conjI exI [of _ u]) (simp_all add: stream_records.simps(2))
  next
    case None
    show ?thesis
    proof (cases "MAX_RECORD_BYTES \<le> length buf")
      case True
      have "buf \<noteq> []" using True CHUNK_positive by auto
      then show ?thesis using at pos None True find_line_long [OF None True, of t]
        by (intro exI [of _ k] conjI exI [of _ t])
          (auto simp: stream_records.simps(2) ref_records.simps [of pos "buf @ t"] Let_def)
    next
      case False
      let ?chunk = "read_chunk (reads k) (pos + length buf)"
      have chunk: "?chunk = take CHUNK_SIZE t" using at pos by (simp add: read_chunk_def)
      show ?thesis
      proof (cases "?chunk = []")
        case True
        then have "t = []" using chunk CHUNK_positive by simp
        then show ?thesis using at None False True
          by (intro exI [of _ k] conjI exI [of _ "[]"])
            (simp_all add: stream_records.simps(2) ref_records.simps [of pos buf] Let_def)
      next
        case False': False
        obtain v where v: "reads (Suc k) = reads k @ v" using grows by (auto simp: appended_to_def)
        have "reads (Suc k) = front @ (buf @ ?chunk) @ drop CHUNK_SIZE t @ v" using at v chunk by simp
        then obtain j u where j: "Suc k \<le> j" "reads j = front @ (buf @ ?chunk) @ u"
          "stream_records reads (Suc k) pos (buf @ ?chunk) (Suc room) = take (Suc room) (ref_records pos ((buf @ ?chunk) @ u))"
          using "2.IH"(1) [OF None False refl False' grows _ pos] by blast
        have "stream_records reads k pos buf (Suc room) = stream_records reads (Suc k) pos (buf @ ?chunk) (Suc room)"
          using None False False' by (simp add: stream_records.simps(2) Let_def)
        then show ?thesis using j by (intro exI [of _ j] conjI exI [of _ "?chunk @ u"]) simp_all
      qed
    qed
  qed
qed


lemma read_head_at:
  assumes "appended_to reads" and "read_head sha reads k buf = (lineage, head, j)" and "\<exists>t. reads k = buf @ t"
  shows "k \<le> j \<and> (\<exists>t. reads j = head @ t) \<and> lineage = map_option (\<lambda>n. sha (take n head)) (find_line head)"
  using assms
proof (induction sha reads k buf rule: read_head.induct)
  case (1 sha reads k buf)
  note IH = "1.IH" and grows = "1.prems"(1) and run = "1.prems"(2) and at = "1.prems"(3)
  show ?case
  proof (cases "find_line buf = None \<and> length buf < MAX_RECORD_BYTES \<and> read_chunk (reads k) (length buf) \<noteq> []")
    case False
    have "\<exists>t. reads (Suc k) = buf @ t" using at appended_later [OF grows, of k "Suc k"] by auto
    then show ?thesis using False run at by (auto simp: Let_def split: option.splits if_splits)
  next
    case True
    let ?chunk = "read_chunk (reads k) (length buf)"
    obtain t where t: "reads k = buf @ t" using at by blast
    obtain v where v: "reads (Suc k) = reads k @ v" using grows by (auto simp: appended_to_def)
    have "?chunk = take CHUNK_SIZE t" using t by (simp add: read_chunk_def)
    then have "reads (Suc k) = (buf @ ?chunk) @ drop CHUNK_SIZE t @ v" using t v by simp
    moreover have "read_head sha reads (Suc k) (buf @ ?chunk) = (lineage, head, j)"
      using run True by (simp add: Let_def)
    ultimately show ?thesis using IH [OF _ _ refl _ grows] True by fastforce
  qed
qed

lemma take_records_enough: "take_records sha lineage gen room (take (Suc room) rs) = take_records sha lineage gen room rs"
proof (induction rs arbitrary: room)
  case (Cons r rs)
  then show ?case by (cases room) (simp_all cong: if_cong)
qed simp

text \<open>A page that reads a log as of one moment.\<close>

definition page_as_of :: "(string \<Rightarrow> string) \<Rightarrow> string \<Rightarrow> string option \<Rightarrow> nat \<Rightarrow> events_page \<Rightarrow> bool" where
  "page_as_of sha bytes after limit page \<longleftrightarrow>
     (\<exists>off \<le> length bytes. (case after of None \<Rightarrow> off = 0
         | Some text \<Rightarrow> (\<exists>c. decode_cursor text = Inr c \<and> off = cur_offset c \<and> same_text (cur_lineage c) (content_lineage page) \<and>
             same_number (fst (cur_generation c)) (fst (page_generation page)) \<and>
             same_number (snd (cur_generation c)) (snd (page_generation page)))) \<and>
       take_records sha (content_lineage page) (page_generation page) limit (ref_records off (drop off bytes)) =
         Inr (page_records page, next_cursor page, has_more page))"

lemma read_as_of:
  assumes "appended_to reads" and "read_events_page sha (LogOpened dev ino reads) after limit = Inr page"
  shows "\<exists>j. page_as_of sha (reads j) after limit page \<and> page_generation page = generation_token dev ino \<and>
    (\<forall>h. content_lineage page = Some h \<longrightarrow> (\<exists>n. find_line (reads j) = Some n \<and> h = sha (take n (reads j))))"
proof -
  obtain lineage head k where h: "read_head sha reads 1 [] = (lineage, head, k)" by (metis prod_cases3)
  let ?gen = "generation_token dev ino" and ?size = "length (reads 0)"
  obtain off vs nxt more where off: "start_offset after lineage ?gen ?size = Inr off"
    and tk: "take_records sha lineage ?gen limit (stream_records reads k off (if off = 0 then head else []) (limit + 1))
      = Inr (vs, nxt, more)"
    and page: "content_lineage page = lineage" "page_generation page = ?gen" "page_records page = vs"
      "next_cursor page = nxt" "has_more page = more"
    using assms(2) h by (auto simp: read_events_page_def Let_def rbind_eq_Inr)
  have k: "1 \<le> k" "\<exists>t. reads k = head @ t" "lineage = map_option (\<lambda>n. sha (take n head)) (find_line head)"
    using read_head_at [OF assms(1) h] by simp_all
  have le: "off \<le> ?size" using off by (auto simp: start_offset_def rbind_eq_Inr split: option.splits if_splits)
  obtain w where w: "reads k = reads 0 @ w" using appended_later [OF assms(1), of 0 k] by auto
  let ?buf = "if off = 0 then head else []"
  have "\<exists>t. reads k = take off (reads k) @ ?buf @ t"
  proof (cases "off = 0")
    case False
    then show ?thesis by (intro exI [of _ "drop off (reads k)"]) simp
  qed (use k(2) in simp)
  moreover have "length (take off (reads k)) = off" using le w by simp
  ultimately obtain j u where j: "k \<le> j" "reads j = take off (reads k) @ ?buf @ u"
    "stream_records reads k off ?buf (Suc limit) = take (Suc limit) (ref_records off (?buf @ u))"
    using stream_snapshot [OF assms(1)] by blast
  have len: "off \<le> length (reads j)" using appended_later [OF assms(1), of 0 j] le by auto
  have "?buf @ u = drop off (reads j)" using j(2) le w by simp
  then have "take_records sha lineage ?gen limit (ref_records off (drop off (reads j))) = Inr (vs, nxt, more)"
    using tk j(3) by (simp add: take_records_enough)
  moreover have "case after of None \<Rightarrow> off = 0 | Some text \<Rightarrow> (\<exists>c. decode_cursor text = Inr c \<and> off = cur_offset c \<and>
      same_text (cur_lineage c) lineage \<and> same_number (fst (cur_generation c)) (fst ?gen) \<and>
      same_number (snd (cur_generation c)) (snd ?gen))"
    using off by (auto simp: start_offset_def rbind_eq_Inr split: option.splits if_splits)
  ultimately have "page_as_of sha (reads j) after limit page"
    unfolding page_as_of_def using len page by (intro exI [of _ off]) (simp cong: option.case_cong)
  moreover have "\<exists>n. find_line (reads j) = Some n \<and> x = sha (take n (reads j))" if x: "lineage = Some x" for x
  proof -
    obtain n where n: "find_line head = Some n" "x = sha (take n head)" using x k(3) by auto
    obtain t where "reads j = head @ t" using k(2) appended_later [OF assms(1) j(1)] by auto
    then show ?thesis using find_line_longer [OF n(1), of t] n(2) by auto
  qed
  ultimately show ?thesis using page by auto
qed

text \<open>
  C11: A page reads the log as of one moment. However the writer appends while the observer reads the file
  in chunks, there is one of the file's contents from which the records of the page, its cursor and
  whether there is more are those of a single undivided read from the cursor's offset; the cursor was
  issued for the same lineage and file, and the lineage is the hash of the first line of that content
  whenever the page has one.
\<close>

theorem page_is_snapshot:
  assumes "appended_to reads" and "read_events_page sha (LogOpened dev ino reads) after limit = Inr page"
  shows "\<exists>j. page_as_of sha (reads j) after limit page \<and> page_generation page = generation_token dev ino \<and>
    (\<forall>h. content_lineage page = Some h \<longrightarrow> (\<exists>n. find_line (reads j) = Some n \<and> h = sha (take n (reads j))))"
  by (rule read_as_of [OF assms])

text \<open>The log is empty when the reader asks for its size, and has the start of a record when it reads it.\<close>

definition growing_reads :: "nat \<Rightarrow> string" where
  "growing_reads k = (if k = 0 then [] else ''{'')"

lemma page_is_snapshot_witness:
  "\<exists>page. appended_to growing_reads \<and> read_events_page id (LogOpened 1 2 growing_reads) None 1 = Inr page \<and>
     map rec_integrity (page_records page) = [TORN] \<and> (\<exists>j. page_as_of id (growing_reads j) None 1 page)"
proof -
  have g: "appended_to growing_reads" by (simp add: appended_to_def growing_reads_def)
  have f: "find_line ''{'' = None" "find_line [] = None" by (simp_all add: find_line_def)
  have c: "read_chunk (growing_reads (Suc k)) 0 = ''{''" "read_chunk (growing_reads (Suc k)) (Suc 0) = []" for k
    by (simp_all add: read_chunk_def growing_reads_def CHUNK_SIZE_def)
  have m: "\<not> MAX_RECORD_BYTES \<le> 0" "\<not> MAX_RECORD_BYTES \<le> Suc 0" by (simp_all add: MAX_RECORD_BYTES_def)
  have h: "read_head id growing_reads (Suc 0) [] = (None, ''{'', 3)" using f c [of 0] c [of 1] m
    by (simp add: read_head.simps [of _ _ "Suc 0"] read_head.simps [of _ _ "Suc (Suc 0)"] Let_def numeral_eq_Suc)
  have s: "stream_records growing_reads 3 0 ''{'' (Suc (Suc 0)) = [\<lparr>rec_offset = 0, rec_raw = ''{'',
      rec_terminated = False, rec_oversized = False, rec_continues = False\<rparr>]"
    using f c [of 2] m by (simp add: stream_records.simps(2) Let_def numeral_eq_Suc)
  obtain page where p: "read_events_page id (LogOpened 1 2 growing_reads) None 1 = Inr page"
      "map rec_integrity (page_records page) = [TORN]"
    using h s by (simp add: read_events_page_def start_offset_def record_view_of_def Let_def)
  have "\<exists>j. page_as_of id (growing_reads j) None 1 page" using page_is_snapshot [OF g p(1)] by blast
  then show ?thesis using p g by (intro exI [of _ page] conjI)
qed

text \<open>
  C32: A cursor the observer issued means the place it was issued for: decoding it gives back the offset,
  and it is accepted for the same lineage and file as long as the log has not become shorter.
\<close>

theorem cursor_round_trip:
  assumes "off \<le> bytes"
  shows "decode_cursor (encode_cursor off lineage gen) = Inr (json_cursor off lineage gen) \<and>
    start_offset (Some (encode_cursor off lineage gen)) lineage gen bytes = Inr off \<and>
    (lineage' \<noteq> lineage \<or> gen' \<noteq> gen \<or> bytes' < off \<longrightarrow>
      start_offset (Some (encode_cursor off lineage gen)) lineage' gen' bytes' = Inl (ObserverInputError ''CURSOR_LOG_REPLACED''))"
proof -
  have "same_text (null_or JStr lineage) lineage' \<longleftrightarrow> lineage' = lineage"
    by (auto simp: same_text_def null_or_def split: option.splits)
  moreover have "same_number (null_or JInt n) n' \<longleftrightarrow> n' = n" for n n'
    by (auto simp: same_number_def null_or_def int_value_def split: option.splits)
  ultimately show ?thesis using start_offset_issued [OF assms]
    by (auto simp: decode_encode start_offset_def json_cursor_def prod_eq_iff)
qed

lemma cursor_round_trip_witness:
  "start_offset (Some (encode_cursor 3 (Some ''h'') (Some 1, Some 2))) (Some ''h'') (Some 1, Some 2) 5 = Inr 3 \<and>
   start_offset (Some (encode_cursor 3 (Some ''h'') (Some 1, Some 2))) (Some ''h'') (Some 1, Some 2) 2 =
     Inl (ObserverInputError ''CURSOR_LOG_REPLACED'')"
  using cursor_round_trip [of 3 5 "Some ''h''" "(Some 1, Some 2)" "Some ''h''" "(Some 1, Some 2)" 2] by simp

end
