(* ===== verification/Index.thy ===== *)
theory Index
  imports TolerantProps ObserveProps "HOL-Library.Option_ord"
begin

text \<open>
  The dashboard's index of one log: \<open>indexer.py\<close>, \<open>read_models.py\<close>, \<open>poller.py\<close>, the lease test of
  \<open>lease.py\<close>, \<open>prune_changes\<close> of \<open>sse.py\<close> and the repository loop of \<open>scheduler.py\<close>, all of
  \<open>src/draindeck_dashboard\<close>. The state holds the rows of one repository, the changes table and the lease
  row. The observer process, the clock and what other processes do to the lease are the \<open>index_host\<close>.
  Columns that only record the time of a write are not modelled. What a row of a view table has is kept
  as the view it was written from; the integer columns hold 64 bits, and Python raises \<open>OverflowError\<close>
  for a number that does not fit.
\<close>

section \<open>Rows\<close>

record generation_row =
  gn_id :: nat
  gn_number :: nat
  gn_lineage :: "string option"
  gn_file :: file_generation

record checkpoint_row =
  ck_generation :: nat
  ck_cursor :: "string option"
  ck_hash :: "string option"
  ck_halted :: bool
  ck_reduced :: bool
  ck_availability :: string

record evidence = evidence_row +
  ev_id :: nat
  ev_generation :: nat
  ev_cursor :: string
  ev_integrity :: integrity
  ev_schema_version :: "int option"
  ev_hash :: "string option"
  ev_length :: nat

record corruption_row =
  co_generation :: nat
  co_event_id :: int
  co_first :: "string \<times> string option"
  co_second :: "string \<times> string option"

datatype model_status = PREPARING | READY | REBUILDING | REBUILD_ERROR

record model_row =
  mr_generation :: nat
  mr_status :: model_status
  mr_completed :: "nat option"
  mr_error :: "string option"

text \<open>The columns of a run; which of its two events were seen is not among them.\<close>

record run_row =
  rr_fields :: run_fields
  rr_outcome :: "string option"
  rr_inconsistent :: bool
  rr_last :: "int option"
  rr_started_at :: "string option"
  rr_finished_at :: "string option"

record lease_row =
  ls_owner :: string
  ls_heartbeat :: int

record 'w index =
  ix_generations :: "generation_row list"
  ix_next_generation :: nat
  ix_checkpoint :: "checkpoint_row option"
  ix_evidence :: "evidence list"
  ix_next_evidence :: nat
  ix_corruptions :: "corruption_row list"
  ix_changes :: "(nat \<times> int \<times> string \<times> string) list"
  ix_next_change :: nat
  ix_model :: "model_row option"
  ix_issues :: "((nat \<times> string) \<times> issue_view) list"
  ix_executions :: "((nat \<times> string) \<times> dash_execution) list"
  ix_runs :: "((nat \<times> string) \<times> run_row) list"
  ix_containments :: "((nat \<times> string \<times> string) \<times> containment_gen) list"
  ix_lease :: "lease_row option"
  ix_world :: 'w

datatype index_error = Tolerant tolerant_error | SqliteOverflow | LeaseLost | IndexUnmodelled

definition fits64 :: "int option \<Rightarrow> bool" where
  "fits64 v = (case v of None \<Rightarrow> True | Some i \<Rightarrow> - (2 ^ 63) \<le> i \<and> i < 2 ^ 63)"

section \<open>View tables\<close>

definition reduce :: "tables \<Rightarrow> evidence list \<Rightarrow> index_error + dash_projection" where
  "reduce T rows = (case apply_ok_evidence_rows T rows of Inl e \<Rightarrow> Inl (Tolerant e) | Inr r \<Rightarrow> Inr r)"

text \<open>Rows with the same event id come in the order they were inserted.\<close>

definition fetch_ok :: "nat \<Rightarrow> (evidence \<Rightarrow> bool) \<Rightarrow> evidence list \<Rightarrow> evidence list" where
  "fetch_ok g scope rows = sort_key ev_event_id (filter (\<lambda>r. ev_generation r = g \<and> ev_integrity r = OK \<and> scope r) rows)"

definition run_columns :: "run_view \<Rightarrow> run_row" where
  "run_columns v = \<lparr>rr_fields = rv_fields v, rr_outcome = rv_outcome v, rr_inconsistent = rv_inconsistent v,
     rr_last = rv_last v, rr_started_at = rv_started_at v, rr_finished_at = rv_finished_at v\<rparr>"

definition write_issue_view :: "nat \<Rightarrow> string \<times> issue_view \<Rightarrow> 'w index \<Rightarrow> index_error + 'w index" where
  "write_issue_view g kv s = Inr (s\<lparr>ix_issues := AList.update (g, fst kv) (snd kv) (ix_issues s)\<rparr>)"

definition write_execution_view :: "nat \<Rightarrow> string \<times> dash_execution \<Rightarrow> 'w index \<Rightarrow> index_error + 'w index" where
  "write_execution_view g kv s =
     (let v = snd kv in
      if fits64 (de_micro v) \<and> fits64 (de_input_tokens v) \<and> fits64 (de_output_tokens v)
      then Inr (s\<lparr>ix_executions := AList.update (g, fst kv) v (ix_executions s)\<rparr>) else Inl SqliteOverflow)"

definition write_run_view :: "nat \<Rightarrow> string \<times> run_view \<Rightarrow> 'w index \<Rightarrow> index_error + 'w index" where
  "write_run_view g kv s = Inr (s\<lparr>ix_runs := AList.update (g, fst kv) (run_columns (snd kv)) (ix_runs s)\<rparr>)"

definition write_containment_view ::
  "nat \<Rightarrow> (string \<times> string) \<times> containment_gen \<Rightarrow> 'w index \<Rightarrow> index_error + 'w index" where
  "write_containment_view g kv s =
     Inr (s\<lparr>ix_containments := AList.update (g, fst kv) (snd kv) (ix_containments s)\<rparr>)"

definition publish :: "nat \<Rightarrow> dash_projection \<Rightarrow> 'w index \<Rightarrow> index_error + 'w index" where
  "publish g r s =
     rbind (rfold (write_issue_view g) (v_issues r) s) (\<lambda>s.
     rbind (rfold (write_execution_view g) (v_executions r) s) (\<lambda>s.
     rbind (rfold (write_run_view g) (v_runs r) s) (\<lambda>s.
     rfold (write_containment_view g) (v_containments r) s)))"

definition mark_preparing :: "nat \<Rightarrow> 'w index \<Rightarrow> 'w index" where
  "mark_preparing g s = s\<lparr>ix_model := Some \<lparr>mr_generation = g, mr_status = PREPARING, mr_completed = None, mr_error = None\<rparr>\<rparr>"

definition mark_rebuilding :: "'w index \<Rightarrow> 'w index" where
  "mark_rebuilding s = s\<lparr>ix_model := map_option
     (\<lambda>m. if mr_status m = READY then m\<lparr>mr_status := REBUILDING\<rparr> else m) (ix_model s)\<rparr>"

section \<open>Recomputing the entities a page names\<close>

record changed_ids =
  ch_issues :: "string list"
  ch_executions :: "string list"
  ch_runs :: "string list"
  ch_unsafe :: bool

definition write_found :: "('k \<times> 'v \<Rightarrow> 's \<Rightarrow> 'e + 's) \<Rightarrow> ('k \<times> 'v) list \<Rightarrow> 'k \<Rightarrow> 's \<Rightarrow> 'e + 's" where
  "write_found write views k s = (case map_of views k of None \<Rightarrow> Inr s | Some v \<Rightarrow> write (k, v) s)"

definition apply_issue :: "tables \<Rightarrow> nat \<Rightarrow> string \<Rightarrow> 'w index \<Rightarrow> index_error + 'w index" where
  "apply_issue T g i s =
     rbind (reduce T (fetch_ok g (\<lambda>r. ev_issue_id r = Some i) (ix_evidence s))) (\<lambda>r.
     write_found (write_issue_view g) (v_issues r) i s)"

definition apply_execution :: "tables \<Rightarrow> nat \<Rightarrow> string \<Rightarrow> 'w index \<Rightarrow> index_error + 'w index" where
  "apply_execution T g x s =
     rbind (reduce T (fetch_ok g (\<lambda>r. ev_execution_id r = Some x) (ix_evidence s))) (\<lambda>r.
     rbind (write_found (write_execution_view g) (v_executions r) x s) (\<lambda>s.
     rfold (write_containment_view g) (filter (\<lambda>(k, v). fst k = x) (v_containments r))
       (s\<lparr>ix_containments := filter (\<lambda>((g', x', _), v). \<not> (g' = g \<and> x' = x)) (ix_containments s)\<rparr>)))"

definition apply_run :: "tables \<Rightarrow> nat \<Rightarrow> string \<Rightarrow> 'w index \<Rightarrow> index_error + 'w index" where
  "apply_run T g i s =
     rbind (reduce T (fetch_ok g (\<lambda>r. ev_run_id r = Some i) (ix_evidence s))) (\<lambda>r.
     write_found (write_run_view g) (v_runs r) i s)"

text \<open>The three loops run over sets; the order of their elements makes no difference.\<close>

definition apply_changed_entities_locked ::
  "tables \<Rightarrow> nat \<Rightarrow> changed_ids \<Rightarrow> 'w index \<Rightarrow> index_error + 'w index" where
  "apply_changed_entities_locked T g c s =
     rbind (rfold (apply_issue T g) (remdups (ch_issues c)) s) (\<lambda>s.
     rbind (rfold (apply_execution T g) (remdups (ch_executions c)) s) (\<lambda>s.
     rfold (apply_run T g) (remdups (ch_runs c)) s))"

section \<open>Evidence\<close>

definition record_change :: "int \<Rightarrow> string \<Rightarrow> string \<Rightarrow> 'w index \<Rightarrow> 'w index" where
  "record_change repo entity_type entity_id s =
     s\<lparr>ix_changes := ix_changes s @ [(ix_next_change s, repo, entity_type, entity_id)], ix_next_change := Suc (ix_next_change s)\<rparr>"

text \<open>The issue, execution and run ids, the time and the payload. Characters that are not ASCII do not decode.\<close>

definition decode_ok_payload ::
  "string option \<Rightarrow> index_error + (string option \<times> string option \<times> string option \<times> string option \<times> payload option)" where
  "decode_ok_payload encoded =
     (let nothing = Inr (None, None, None, None, None) in
      case encoded of None \<Rightarrow> nothing
      | Some text \<Rightarrow>
          if \<exists>c \<in> set text. 128 \<le> ord_of c then nothing
          else (case b64_decode text of None \<Rightarrow> nothing
          | Some raw \<Rightarrow> (case loads (without_LF raw) of
              Inl JSONDecodeError \<Rightarrow> nothing
            | Inl Unmodelled \<Rightarrow> Inl IndexUnmodelled
            | Inr (JObj obj) \<Rightarrow> Inr (str_value (jget obj ''issue_id''), str_value (jget obj ''execution_id''),
                str_value (jget obj ''run_id''), str_value (jget obj ''ts''),
                (case jget obj ''payload'' of JObj p \<Rightarrow> Some p | _ \<Rightarrow> None))
            | Inr _ \<Rightarrow> nothing)))"

definition record_hash_of :: "record_view \<Rightarrow> string option" where
  "record_hash_of rec = (if rec_integrity rec = OVERSIZED then truncated_prefix_hash rec else record_hash rec)"

definition evidence_at :: "nat \<Rightarrow> string \<Rightarrow> evidence list \<Rightarrow> evidence option" where
  "evidence_at g c rows = List.find (\<lambda>r. ev_generation r = g \<and> ev_cursor r = c) rows"

text \<open>An update keeps the id of the row.\<close>

definition put_evidence :: "evidence \<Rightarrow> 'w index \<Rightarrow> 'w index" where
  "put_evidence e s = (let same = (\<lambda>r. ev_generation r = ev_generation e \<and> ev_cursor r = ev_cursor e) in
     if \<exists>r \<in> set (ix_evidence s). same r
     then s\<lparr>ix_evidence := map (\<lambda>r. if same r then e\<lparr>ev_id := ev_id r\<rparr> else r) (ix_evidence s)\<rparr>
     else s\<lparr>ix_evidence := ix_evidence s @ [e\<lparr>ev_id := ix_next_evidence s\<rparr>], ix_next_evidence := Suc (ix_next_evidence s)\<rparr>)"

text \<open>SQL's comparison with \<open>NULL\<close> is not true.\<close>

definition conflicting_row :: "nat \<Rightarrow> record_view \<Rightarrow> evidence list \<Rightarrow> evidence option" where
  "conflicting_row g rec rows =
     (if rec_integrity rec = OK \<and> rec_event_id rec \<noteq> None
      then List.find (\<lambda>r. ev_generation r = g \<and> ev_integrity r = OK \<and> ev_event_id r = rec_event_id rec \<and>
        ev_hash r \<noteq> None \<and> record_hash_of rec \<noteq> None \<and> ev_hash r \<noteq> record_hash_of rec) rows
      else None)"

definition note_corruption :: "int \<Rightarrow> nat \<Rightarrow> record_view \<Rightarrow> 'w index \<Rightarrow> 'w index" where
  "note_corruption repo g rec s = (case (conflicting_row g rec (ix_evidence s), rec_event_id rec) of
     (Some r, Some e) \<Rightarrow> record_change repo ''corruption'' (show_int e)
       (s\<lparr>ix_corruptions := ix_corruptions s @ [\<lparr>co_generation = g, co_event_id = e,
          co_first = (ev_cursor r, ev_hash r), co_second = (rec_cursor rec, record_hash_of rec)\<rparr>]\<rparr>)
   | _ \<Rightarrow> s)"

definition evidence_of ::
  "nat \<Rightarrow> record_view \<Rightarrow> string option \<times> string option \<times> string option \<times> string option \<times> payload option \<Rightarrow> evidence" where
  "evidence_of g rec ids = (case ids of (iid, xid, rid, tm, pl) \<Rightarrow>
     \<lparr>ev_event_id = rec_event_id rec, ev_event_type = rec_event_type rec, ev_issue_id = iid, ev_execution_id = xid,
      ev_run_id = rid, ev_payload = pl, ev_ts = tm, ev_id = 0, ev_generation = g, ev_cursor = rec_cursor rec,
      ev_integrity = rec_integrity rec, ev_schema_version = rec_schema_version rec, ev_hash = record_hash_of rec,
      ev_length = length_bytes rec\<rparr>)"

definition list_of :: "'a option \<Rightarrow> 'a list" where
  "list_of v = (case v of None \<Rightarrow> [] | Some a \<Rightarrow> [a])"

definition content_changed :: "record_view \<Rightarrow> evidence option \<Rightarrow> bool" where
  "content_changed rec old = (case old of None \<Rightarrow> True
     | Some r \<Rightarrow> (ev_integrity r, ev_hash r) \<noteq> (rec_integrity rec, record_hash_of rec))"

definition ids_named :: "bool \<Rightarrow> bool \<Rightarrow> evidence \<Rightarrow> changed_ids" where
  "ids_named named unsafe e = \<lparr>ch_issues = (if named then list_of (ev_issue_id e) else []),
     ch_executions = (if named then list_of (ev_execution_id e) else []),
     ch_runs = (if named then list_of (ev_run_id e) else []), ch_unsafe = unsafe\<rparr>"

definition upsert_record :: "int \<Rightarrow> nat \<Rightarrow> record_view \<Rightarrow> 'w index \<Rightarrow> index_error + (changed_ids \<times> 'w index)" where
  "upsert_record repo g rec s =
     rbind (if rec_integrity rec = OK then decode_ok_payload (record_bytes rec) else Inr (None, None, None, None, None)) (\<lambda>ids.
     if \<not> (fits64 (rec_event_id rec) \<and> fits64 (rec_schema_version rec)) then Inl SqliteOverflow
     else let e = evidence_of g rec ids; old = evidence_at g (rec_cursor rec) (ix_evidence s);
       changed = content_changed rec old;
       s1 = put_evidence e (note_corruption repo g rec s)
     in Inr (ids_named (changed \<and> rec_integrity rec = OK) (changed \<and> map_option ev_integrity old = Some OK) e,
         if changed then record_change repo ''evidence'' (rec_cursor rec) s1 else s1))"

definition no_changes :: changed_ids where
  "no_changes = \<lparr>ch_issues = [], ch_executions = [], ch_runs = [], ch_unsafe = False\<rparr>"

definition join_changes :: "changed_ids \<Rightarrow> changed_ids \<Rightarrow> changed_ids" where
  "join_changes c d = \<lparr>ch_issues = ch_issues c @ ch_issues d, ch_executions = ch_executions c @ ch_executions d,
     ch_runs = ch_runs c @ ch_runs d, ch_unsafe = (ch_unsafe c \<or> ch_unsafe d)\<rparr>"

fun upsert_records :: "int \<Rightarrow> nat \<Rightarrow> record_view list \<Rightarrow> 'w index \<Rightarrow> index_error + (changed_ids \<times> 'w index)" where
  "upsert_records repo g [] s = Inr (no_changes, s)"
| "upsert_records repo g (rec # recs) s =
     rbind (upsert_record repo g rec s) (\<lambda>(c, s). rbind (upsert_records repo g recs s) (\<lambda>(d, s). Inr (join_changes c d, s)))"

section \<open>One page\<close>

definition next_number :: "generation_row list \<Rightarrow> nat" where
  "next_number rows = Suc (Max (set (0 # map gn_number rows)))"

definition open_new_generation :: "events_page \<Rightarrow> 'w index \<Rightarrow> index_error + (nat \<times> 'w index)" where
  "open_new_generation page s =
     (if fits64 (fst (page_generation page)) \<and> fits64 (snd (page_generation page))
      then let g = ix_next_generation s in
        Inr (g, s\<lparr>ix_generations := ix_generations s @ [\<lparr>gn_id = g, gn_number = next_number (ix_generations s),
            gn_lineage = content_lineage page, gn_file = page_generation page\<rparr>], ix_next_generation := Suc g\<rparr>)
      else Inl SqliteOverflow)"

definition reduced_confidence :: "events_page \<Rightarrow> bool" where
  "reduced_confidence page = (snd (page_generation page) = None)"

definition set_checkpoint :: "nat \<Rightarrow> string option \<Rightarrow> string option \<Rightarrow> bool \<Rightarrow> events_page \<Rightarrow> 'w index \<Rightarrow> 'w index" where
  "set_checkpoint g cur hsh halted page s = s\<lparr>ix_checkpoint := Some \<lparr>ck_generation = g, ck_cursor = cur, ck_hash = hsh,
     ck_halted = halted, ck_reduced = reduced_confidence page, ck_availability = availability page\<rparr>\<rparr>"

definition RETENTION_LIMIT :: nat where
  "RETENTION_LIMIT = 10000"

definition prune_changes :: "'w index \<Rightarrow> 'w index" where
  "prune_changes s = (if ix_changes s = [] then s
     else let max_seq = Max (set (map fst (ix_changes s)))
       in s\<lparr>ix_changes := filter (\<lambda>c. max_seq \<le> RETENTION_LIMIT \<or> max_seq - RETENTION_LIMIT < fst c) (ix_changes s)\<rparr>)"

type_synonym position = "nat option \<times> string option \<times> string option"

definition persist_page ::
  "int \<Rightarrow> tables \<Rightarrow> position \<Rightarrow> events_page \<Rightarrow> 'w index \<Rightarrow> index_error + ((position \<times> bool) \<times> 'w index)" where
  "persist_page repo T pos page s = (case pos of (gid, cur, hsh) \<Rightarrow>
     let recs = page_records page in
     rbind (case gid of
         Some g \<Rightarrow> Inr (g, s)
       | None \<Rightarrow> rbind (open_new_generation page s) (\<lambda>(g, s). Inr (g, mark_preparing g s))) (\<lambda>(g, s).
     rbind (upsert_records repo g recs s) (\<lambda>(c, s).
     rbind (if ch_issues c \<noteq> [] \<or> ch_executions c \<noteq> [] \<or> ch_runs c \<noteq> []
       then apply_changed_entities_locked T g c s else Inr s) (\<lambda>s.
     let s = (if ch_unsafe c then mark_rebuilding s else s);
       cur' = (if next_cursor page \<noteq> None then next_cursor page
         else if recs \<noteq> [] then Some (rec_cursor (last recs)) else cur);
       hsh' = (if recs \<noteq> [] then record_hash_of (last recs) else hsh);
       halted = (\<exists>r \<in> set recs. rec_integrity r = OVERSIZED)
     in Inr (((Some g, cur', hsh'), halted), prune_changes (set_checkpoint g cur' hsh' halted page s))))))"

section \<open>One tick\<close>

record 'w index_host =
  ih_repository :: int
  ih_tables :: tables
  ih_token :: string
  ih_observe :: "string option \<Rightarrow> nat \<Rightarrow> 'w \<Rightarrow> (string + events_page) \<times> 'w"
  ih_now :: "'w \<Rightarrow> int"
  ih_elapse :: "'w \<Rightarrow> 'w"
  ih_rivals :: "'w \<Rightarrow> lease_row option \<Rightarrow> lease_row option"

type_synonym ('w, 'a) index_prog = "('w index, index_error, 'a) prog"

definition observe_events :: "'w index_host \<Rightarrow> string option \<Rightarrow> nat \<Rightarrow> ('w, string + events_page) index_prog" where
  "observe_events h after limit = (\<lambda>s. let (r, w) = ih_observe h after limit (ix_world s) in (Inr r, s\<lparr>ix_world := w\<rparr>))"

text \<open>
  What other processes, and this one's lease task, did to the lease until now. \<open>BEGIN IMMEDIATE\<close> waits for
  the write lock; after that nobody else writes, and an exception rolls everything back.
\<close>

definition settle :: "'w index_host \<Rightarrow> 'w index \<Rightarrow> 'w index" where
  "settle h s = s\<lparr>ix_lease := ih_rivals h (ix_world s) (ix_lease s), ix_world := ih_elapse h (ix_world s)\<rparr>"

definition transaction :: "'w index_host \<Rightarrow> ('w index \<Rightarrow> index_error + ('a \<times> 'w index)) \<Rightarrow> ('w, 'a) index_prog" where
  "transaction h body = (\<lambda>s.
     let s = settle h s in case body s of Inl e \<Rightarrow> (Inl e, s) | Inr (a, s') \<Rightarrow> (Inr a, s'))"

datatype tick_status = TickHalted | TickOk | CursorRetained | CursorRolled | TickError string

record tick_outcome =
  tick_status :: tick_status
  pages_ingested :: nat
  records_ingested :: nat

definition MAX_PAGES_PER_TICK :: nat where
  "MAX_PAGES_PER_TICK = 4"

definition PAGE_LIMIT :: nat where
  "PAGE_LIMIT = 500"

definition identity_matches :: "generation_row \<Rightarrow> events_page \<Rightarrow> bool" where
  "identity_matches g page \<longleftrightarrow> gn_lineage g = content_lineage page \<and> gn_file g = page_generation page"

definition generation_at :: "nat \<Rightarrow> 'w index \<Rightarrow> generation_row option" where
  "generation_at g s = List.find (\<lambda>r. gn_id r = g) (ix_generations s)"

definition replace_generation :: "events_page \<Rightarrow> 'w index \<Rightarrow> index_error + (unit \<times> 'w index)" where
  "replace_generation probe s = rbind (open_new_generation probe s) (\<lambda>(g, s).
     Inr ((), set_checkpoint g None None False probe (mark_preparing g s)))"

definition stopped :: "tick_status \<Rightarrow> nat \<Rightarrow> nat \<Rightarrow> tick_outcome" where
  "stopped st pages recs = \<lparr>tick_status = st, pages_ingested = pages, records_ingested = recs\<rparr>"

definition handle_cursor_log_replaced :: "'w index_host \<Rightarrow> ('w, tick_outcome) index_prog" where
  "handle_cursor_log_replaced h =
     andthen (observe_events h None 1) (\<lambda>r. case r of
       Inl _ \<Rightarrow> ret (stopped CursorRetained 0 0)
     | Inr probe \<Rightarrow>
         if availability probe \<notin> {''AVAILABLE'', ''EMPTY''} then ret (stopped CursorRetained 0 0)
         else andthen (gets (\<lambda>s. Option.bind (ix_checkpoint s) (\<lambda>c. generation_at (ck_generation c) s))) (\<lambda>old.
           if (case old of None \<Rightarrow> False | Some g \<Rightarrow> identity_matches g probe)
           then ret (stopped CursorRetained 0 0)
           else andthen (transaction h (replace_generation probe)) (\<lambda>_. ret (stopped CursorRolled 0 0))))"

text \<open>The pages of a tick, each in a transaction of its own, until the cap, the end or an error.\<close>

fun ingest_pages :: "'w index_host \<Rightarrow> nat \<Rightarrow> string option \<Rightarrow> position \<Rightarrow> nat \<Rightarrow> nat \<Rightarrow> ('w, tick_outcome) index_prog" where
  "ingest_pages h 0 after pos pages recs = ret (stopped TickOk pages recs)"
| "ingest_pages h (Suc room) after pos pages recs =
     andthen (observe_events h after PAGE_LIMIT) (\<lambda>r. case r of
       Inl code \<Rightarrow>
         if code = ''CURSOR_LOG_REPLACED'' then handle_cursor_log_replaced h else ret (stopped (TickError code) 0 0)
     | Inr page \<Rightarrow>
         andthen (transaction h (persist_page (ih_repository h) (ih_tables h) pos page)) (\<lambda>(pos', halted).
         let pages' = pages + 1; recs' = recs + length (page_records page) in
         if halted then ret (stopped TickHalted pages' recs')
         else if \<not> has_more page then ret (stopped TickOk pages' recs')
         else ingest_pages h room (next_cursor page) pos' pages' recs'))"

definition ingest_repository_tick :: "'w index_host \<Rightarrow> ('w, tick_outcome) index_prog" where
  "ingest_repository_tick h = andthen (gets ix_checkpoint) (\<lambda>ck. case ck of
     None \<Rightarrow> ingest_pages h MAX_PAGES_PER_TICK None (None, None, None) 0 0
   | Some c \<Rightarrow>
       if ck_halted c then ret (stopped TickHalted 0 0)
       else ingest_pages h MAX_PAGES_PER_TICK (ck_cursor c) (Some (ck_generation c), ck_cursor c, ck_hash c) 0 0)"

section \<open>Rebuilding a generation\<close>

text \<open>Ten seconds, in microseconds.\<close>

definition TTL :: int where
  "TTL = 10 * 1000000"

definition owned_lease :: "string \<Rightarrow> int \<Rightarrow> lease_row option \<Rightarrow> bool" where
  "owned_lease token now l = (case l of None \<Rightarrow> False | Some r \<Rightarrow> now - ls_heartbeat r \<le> TTL \<and> ls_owner r = token)"

definition require_owned_lease :: "'w index_host \<Rightarrow> 'w index \<Rightarrow> index_error + unit" where
  "require_owned_lease h s = require (owned_lease (ih_token h) (ih_now h (ix_world s)) (ix_lease s)) LeaseLost"

definition delete_views :: "(nat \<Rightarrow> bool) \<Rightarrow> 'w index \<Rightarrow> 'w index" where
  "delete_views gone s = s\<lparr>
     ix_issues := filter (\<lambda>(k, v). \<not> gone (fst k)) (ix_issues s),
     ix_executions := filter (\<lambda>(k, v). \<not> gone (fst k)) (ix_executions s),
     ix_runs := filter (\<lambda>(k, v). \<not> gone (fst k)) (ix_runs s),
     ix_containments := filter (\<lambda>(k, v). \<not> gone (fst k)) (ix_containments s)\<rparr>"

definition max_evidence_id :: "nat \<Rightarrow> evidence list \<Rightarrow> nat option" where
  "max_evidence_id g rows = (let ids = map ev_id (filter (\<lambda>r. ev_generation r = g) rows)
     in if ids = [] then None else Some (Max (set ids)))"

definition prune_old_generation_views :: "nat \<Rightarrow> 'w index \<Rightarrow> 'w index" where
  "prune_old_generation_views g s = (delete_views (\<lambda>g'. g' \<noteq> g) s)
     \<lparr>ix_model := (case ix_model s of None \<Rightarrow> None | Some m \<Rightarrow> if mr_generation m \<noteq> g then None else Some m)\<rparr>"

text \<open>Inside the transaction. Time passes between the lock and the second look at the lease.\<close>

definition rebuild_locked :: "'w index_host \<Rightarrow> nat \<Rightarrow> 'w index \<Rightarrow> index_error + (unit \<times> 'w index)" where
  "rebuild_locked h g s =
     rbind (reduce (ih_tables h) (fetch_ok g (\<lambda>_. True) (ix_evidence s))) (\<lambda>r.
     let s = s\<lparr>ix_world := ih_elapse h (ix_world s)\<rparr> in
     rbind (require_owned_lease h s) (\<lambda>_.
     rbind (publish g r (delete_views (\<lambda>g'. g' = g) s)) (\<lambda>s.
     Inr ((), prune_old_generation_views g (s\<lparr>ix_model := Some \<lparr>mr_generation = g, mr_status = READY,
       mr_completed = max_evidence_id g (ix_evidence s), mr_error = None\<rparr>\<rparr>)))))"

definition rebuild_read_models :: "'w index_host \<Rightarrow> nat \<Rightarrow> ('w, unit) index_prog" where
  "rebuild_read_models h g = andthen (\<lambda>s. let s = settle h s in (require_owned_lease h s, s)) (\<lambda>_.
      transaction h (rebuild_locked h g))"

definition mark_error :: "'w index_host \<Rightarrow> nat \<Rightarrow> string \<Rightarrow> ('w, unit) index_prog" where
  "mark_error h g code = transaction h (\<lambda>s. rbind (require_owned_lease h s) (\<lambda>_.
     Inr ((), s\<lparr>ix_model := map_option
       (\<lambda>m. if mr_generation m = g then m\<lparr>mr_status := REBUILD_ERROR, mr_error := Some code\<rparr> else m) (ix_model s)\<rparr>)))"

section \<open>The loop of a repository\<close>

fun error_name :: "index_error \<Rightarrow> string" where
  "error_name (Tolerant TolerantOverflow) = ''OverflowError''"
| "error_name (Tolerant InvalidOperation) = ''InvalidOperation''"
| "error_name (Tolerant Unhashable) = ''TypeError''"
| "error_name SqliteOverflow = ''OverflowError''"
| "error_name LeaseLost = ''LeaseLostError''"
| "error_name IndexUnmodelled = []"

definition needs_rebuild :: "nat \<Rightarrow> model_row option \<Rightarrow> bool" where
  "needs_rebuild g m = (case m of None \<Rightarrow> True | Some r \<Rightarrow> mr_generation r \<noteq> g \<or> mr_status r \<noteq> READY)"

definition urgent :: "model_row option \<Rightarrow> bool" where
  "urgent m = (case m of None \<Rightarrow> False | Some r \<Rightarrow> mr_status r \<in> {REBUILDING, REBUILD_ERROR})"

definition caught_up :: "tick_outcome \<Rightarrow> bool" where
  "caught_up out \<longleftrightarrow> tick_status out = TickOk \<and> pages_ingested out < MAX_PAGES_PER_TICK"

definition maybe_rebuild :: "'w index_host \<Rightarrow> tick_outcome \<Rightarrow> ('w, unit) index_prog" where
  "maybe_rebuild h out = andthen (gets ix_checkpoint) (\<lambda>ck. case ck of
     None \<Rightarrow> ret ()
   | Some c \<Rightarrow> andthen (gets ix_model) (\<lambda>m.
       let g = ck_generation c in
       if \<not> needs_rebuild g m \<or> \<not> (urgent m \<or> caught_up out \<or> tick_status out = TickHalted) then ret ()
       else catch (rebuild_read_models h g) (\<lambda>e. if e = LeaseLost then ret ()
         else catch (mark_error h g (error_name e)) (\<lambda>e. if e = LeaseLost then ret () else throw e))))"

definition tick_needs_backoff :: "tick_outcome \<Rightarrow> 'w index \<Rightarrow> bool" where
  "tick_needs_backoff out s \<longleftrightarrow> (case tick_status out of TickError _ \<Rightarrow> True | CursorRetained \<Rightarrow> True | _ \<Rightarrow> False) \<or>
     (case ix_checkpoint s of None \<Rightarrow> False | Some c \<Rightarrow> ck_availability c \<in> {''OFFLINE'', ''NOT_INITIALIZED''})"

definition next_backoff_seconds :: "int option \<Rightarrow> int" where
  "next_backoff_seconds b = (case b of None \<Rightarrow> 2 | Some n \<Rightarrow> min (n * 2) 60)"

text \<open>One round of the loop: the back-off it leaves and how long it sleeps. It ends with no exception.\<close>

definition repository_round :: "'w index_host \<Rightarrow> int option \<Rightarrow> ('w, int option \<times> int) index_prog" where
  "repository_round h backoff =
     andthen (catch (andthen (ingest_repository_tick h) (\<lambda>out.
         andthen (gets (tick_needs_backoff out)) (\<lambda>needs.
         andthen (case tick_status out of TickError _ \<Rightarrow> ret () | _ \<Rightarrow> maybe_rebuild h out) (\<lambda>_. ret needs))))
       (\<lambda>_. ret True)) (\<lambda>needs.
     ret (if needs then (Some (next_backoff_seconds backoff), next_backoff_seconds backoff) else (None, 2)))"

definition new_index :: "'w \<Rightarrow> 'w index" where
  "new_index w = \<lparr>ix_generations = [], ix_next_generation = 1, ix_checkpoint = None, ix_evidence = [], ix_next_evidence = 1,
     ix_corruptions = [], ix_changes = [], ix_next_change = 1, ix_model = None, ix_issues = [], ix_executions = [],
     ix_runs = [], ix_containments = [], ix_lease = None, ix_world = w\<rparr>"

end
