(* ===== verification/IndexLog.thy ===== *)
theory IndexLog
  imports Index
begin

text \<open>
  What the index stores of a log of events: the observer's page over whole lines and a torn tail, the
  row of every line, and how the rows of a generation grow when a page is stored.
\<close>

section \<open>A page over whole lines\<close>

definition log_bytes :: "event list \<Rightarrow> string" where
  "log_bytes es = concat (map to_line es)"

definition offset_at :: "event list \<Rightarrow> nat \<Rightarrow> nat" where
  "offset_at es i = length (log_bytes (take i es))"

text \<open>An event the observer reads whole and the index can store.\<close>

definition line_fits :: "event \<Rightarrow> bool" where
  "line_fits e \<longleftrightarrow> wf_event e \<and> length (to_line e) \<le> MAX_RECORD_BYTES"

lemma log_bytes_append: "log_bytes (es @ fs) = log_bytes es @ log_bytes fs"
  by (simp add: log_bytes_def)

lemma log_bytes_Cons: "log_bytes (e # es) = to_line e @ log_bytes es"
  by (simp add: log_bytes_def)

lemma offset_Suc: "i < length es \<Longrightarrow> offset_at es (Suc i) = offset_at es i + length (to_line (es ! i))"
  by (simp add: offset_at_def take_Suc_conv_app_nth log_bytes_append log_bytes_def)

lemma offset_mono:
  assumes "i < j" and "j \<le> length es" and "\<forall>e \<in> set es. line_fits e"
  shows "offset_at es i < offset_at es j"
  using assms(1,2)
proof (induction j)
  case (Suc j)
  have "es ! j \<in> set es" using Suc.prems by simp
  then have "to_line (es ! j) \<noteq> []" using assms(3) to_line_shape [of "es ! j"] by (auto simp: line_fits_def)
  then have "offset_at es j < offset_at es (Suc j)" using Suc.prems by (simp add: offset_Suc)
  then show ?case using Suc by (cases "i = j") auto
qed simp

lemma offset_inj:
  "offset_at es i = offset_at es j \<Longrightarrow> i \<le> length es \<Longrightarrow> j \<le> length es \<Longrightarrow> \<forall>e \<in> set es. line_fits e \<Longrightarrow> i = j"
  using offset_mono [of i j es] offset_mono [of j i es] by (metis less_irrefl linorder_neqE_nat)

lemma offset_bytes: "offset_at es i \<le> length (log_bytes es @ tail)"
proof -
  have "log_bytes es = log_bytes (take i es) @ log_bytes (drop i es)" by (simp flip: log_bytes_append)
  then show ?thesis by (simp add: offset_at_def)
qed

lemma drop_offset: "drop (offset_at es i) (log_bytes es @ tail) = log_bytes (drop i es) @ tail"
proof -
  have "log_bytes es = log_bytes (take i es) @ log_bytes (drop i es)"
    by (simp flip: log_bytes_append)
  then show ?thesis by (simp add: offset_at_def)
qed

text \<open>The records of those lines, and of what follows the last of them.\<close>

fun line_records :: "nat \<Rightarrow> event list \<Rightarrow> raw_record list" where
  "line_records pos [] = []"
| "line_records pos (e # es) =
     \<lparr>rec_offset = pos, rec_raw = to_line e, rec_terminated = True, rec_oversized = False, rec_continues = False\<rparr>
     # line_records (pos + length (to_line e)) es"

definition tail_records :: "nat \<Rightarrow> string \<Rightarrow> raw_record list" where
  "tail_records pos tail = (if tail = [] then [] else if MAX_RECORD_BYTES \<le> length tail
     then [\<lparr>rec_offset = pos, rec_raw = take MAX_RECORD_BYTES tail, rec_terminated = False, rec_oversized = True,
       rec_continues = (MAX_RECORD_BYTES < length tail)\<rparr>]
     else [\<lparr>rec_offset = pos, rec_raw = tail, rec_terminated = False, rec_oversized = False, rec_continues = False\<rparr>])"

lemma find_line_event:
  assumes "line_fits e"
  shows "find_line (to_line e @ rest) = Some (length (to_line e))"
proof -
  obtain l where l: "to_line e = l @ [LF]" "LF \<notin> set l" using assms to_line_shape by (auto simp: line_fits_def)
  then have "takeWhile (\<lambda>c. c \<noteq> LF) (to_line e @ rest) = l" by (auto simp: takeWhile_tail)
  then show ?thesis using assms l by (simp add: find_line_def line_fits_def)
qed

lemma find_line_tail: "LF \<notin> set tail \<Longrightarrow> find_line tail = None"
proof -
  assume "LF \<notin> set tail"
  then have "takeWhile (\<lambda>c. c \<noteq> LF) tail = tail" by (auto simp: takeWhile_eq_all_conv)
  then have "\<not> length (takeWhile (\<lambda>c. c \<noteq> LF) tail) < length tail" by (simp only:)
  then show ?thesis by (simp only: find_line_def Let_def simp_thms if_False)
qed

lemma ref_records_log:
  assumes "\<forall>e \<in> set es. line_fits e" and "LF \<notin> set tail"
  shows "ref_records pos (log_bytes es @ tail) = line_records pos es @ tail_records (pos + length (log_bytes es)) tail"
  using assms(1)
proof (induction es arbitrary: pos)
  case Nil
  then show ?case using find_line_tail [OF assms(2)]
    by (simp add: log_bytes_def ref_records.simps [of pos tail] tail_records_def)
next
  case (Cons e es)
  then have f: "find_line (to_line e @ log_bytes es @ tail) = Some (length (to_line e))"
    by (intro find_line_event) simp
  have "to_line e \<noteq> []" using Cons.prems to_line_shape [of e] by (auto simp: line_fits_def)
  then show ?case using Cons f
    by (simp add: log_bytes_Cons ref_records.simps [of pos "to_line e @ log_bytes es @ tail"] add.assoc)
qed

text \<open>The views of the lines from \<open>i\<close> on.\<close>

definition view_at :: "(string \<Rightarrow> string) \<Rightarrow> string option \<Rightarrow> file_generation \<Rightarrow> event list \<Rightarrow> nat \<Rightarrow> record_view" where
  "view_at sha lineage gen es i = (let e = es ! i; l = to_line e in
     \<lparr>rec_cursor = encode_cursor (offset_at es i) lineage gen, length_bytes = length l,
      record_bytes = Some (b64_encode (b64_alphabet ''+/'') l), record_hash = Some (sha l),
      rec_integrity = OK, rec_event_id = Some (event_id e), rec_event_type = Some (type_value (etype e)),
      rec_schema_version = Some (schema_version e), truncated_prefix_hash = None, truncated_prefix_bytes = None\<rparr>)"

lemma event_members:
  assumes "wf_event e"
  obtains kvs where "loads (dumps (event_obj e)) = Inr (JObj kvs)"
    and "map_of kvs = map_of
      [(''event_id'', JInt (event_id e)), (''schema_version'', JInt (schema_version e)),
       (''ts'', norm_json (ts e)), (''run_id'', norm_json (run_id e)),
       (''type'', JStr (type_value (etype e))), (''issue_id'', norm_json (issue_id e)),
       (''execution_id'', norm_json (execution_id e)), (''payload'', norm_json (JObj (payload e)))]"
  using norm_event_obj [of e] loads_dumps [OF wf_event_obj [OF assms]] by force

lemma without_LF_line [simp]: "without_LF (to_line e) = dumps (event_obj e)"
  by (simp add: without_LF_def to_line_def ends_with_LF_def)

lemma classify_line:
  "wf_event e \<Longrightarrow> classify (to_line e) =
     Inr (OK, Some (event_id e), Some (type_value (etype e)), Some (schema_version e))"
  by (erule event_members) (simp add: classify_def jget_def int_value_def str_value_def)

lemma record_view_line:
  "line_fits (es ! i) \<Longrightarrow> record_view_of sha lineage gen \<lparr>rec_offset = offset_at es i, rec_raw = to_line (es ! i),
     rec_terminated = True, rec_oversized = False, rec_continues = False\<rparr> = Inr (view_at sha lineage gen es i)"
  by (simp add: record_view_of_def classify_line line_fits_def view_at_def Let_def)

text \<open>A torn or oversized record at offset \<open>pos\<close>.\<close>

definition unfinished :: "nat \<Rightarrow> string option \<Rightarrow> file_generation \<Rightarrow> record_view \<Rightarrow> bool" where
  "unfinished pos lineage gen v \<longleftrightarrow> rec_cursor v = encode_cursor pos lineage gen \<and> rec_integrity v \<in> {TORN, OVERSIZED} \<and>
     rec_event_id v = None \<and> rec_schema_version v = None"

lemma record_view_tail:
  assumes "r \<in> set (tail_records pos tail)"
  obtains v where "record_view_of sha lineage gen r = Inr v" and "unfinished pos lineage gen v"
    and "\<not> rec_terminated r" and "rec_offset r = pos" and "rec_oversized r \<Longrightarrow> rec_integrity v = OVERSIZED"
  using assms by (auto simp: tail_records_def record_view_of_def unfinished_def Let_def split: if_splits)

text \<open>What a page over a log has: the lines from \<open>i\<close> to \<open>m\<close>, perhaps the tail, and where it goes on.\<close>

definition page_of_log ::
  "(string \<Rightarrow> string) \<Rightarrow> string option \<Rightarrow> file_generation \<Rightarrow> event list \<Rightarrow> nat \<Rightarrow> nat \<Rightarrow>
   record_view list \<times> string option \<times> bool \<Rightarrow> bool" where
  "page_of_log sha lineage gen es i m page \<longleftrightarrow> (case page of (vs, nxt, left_over) \<Rightarrow>
     i \<le> m \<and> m \<le> length es \<and>
     ((vs = map (view_at sha lineage gen es) [i..<m] \<and> nxt = Some (encode_cursor (offset_at es m) lineage gen) \<and> left_over)
    \<or> (vs = map (view_at sha lineage gen es) [i..<m] \<and> nxt = None \<and> \<not> left_over \<and> m = length es)
    \<or> (\<exists>v. vs = map (view_at sha lineage gen es) [i..<m] @ [v] \<and> nxt = Some (encode_cursor (offset_at es m) lineage gen) \<and>
         unfinished (offset_at es m) lineage gen v \<and> m = length es \<and> (left_over \<longrightarrow> rec_integrity v = OVERSIZED))))"

lemma take_records_tail:
  assumes "i = length es"
  shows "\<exists>page. take_records sha lineage gen room (tail_records (offset_at es i) tail) = Inr page \<and>
    page_of_log sha lineage gen es i i page"
proof (cases "tail_records (offset_at es i) tail")
  case Nil
  then show ?thesis using assms by (simp add: page_of_log_def)
next
  case (Cons r rs)
  then have "rs = []" by (auto simp: tail_records_def split: if_splits)
  obtain v where v: "record_view_of sha lineage gen r = Inr v" "unfinished (offset_at es i) lineage gen v"
    "\<not> rec_terminated r" "rec_offset r = offset_at es i" "rec_oversized r \<Longrightarrow> rec_integrity v = OVERSIZED"
    by (rule record_view_tail [of r "offset_at es i" tail sha lineage gen]) (use Cons in auto)
  show ?thesis
  proof (cases room)
    case 0
    then show ?thesis using Cons v(4) assms by (simp add: page_of_log_def)
  next
    case (Suc n)
    then show ?thesis using Cons v \<open>rs = []\<close> assms by (simp add: page_of_log_def)
  qed
qed

lemma page_of_log_Cons:
  assumes "page_of_log sha lineage gen es (Suc i) m (vs, nxt, left_over)" and "i < length es"
  shows "page_of_log sha lineage gen es i m (view_at sha lineage gen es i # vs, nxt, left_over)"
proof -
  have "[i..<m] = i # [Suc i..<m]" if "Suc i \<le> m" using that by (simp add: upt_conv_Cons)
  then show ?thesis using assms by (auto simp: page_of_log_def)
qed

lemma take_records_log:
  assumes "\<forall>e \<in> set es. line_fits e" and "i \<le> length es"
  shows "\<exists>m page. take_records sha lineage gen room
      (line_records (offset_at es i) (drop i es) @ tail_records (offset_at es (length es)) tail) = Inr page \<and>
    page_of_log sha lineage gen es i m page"
  using assms(2)
proof (induction room arbitrary: i)
  case 0
  show ?case
  proof (cases "i = length es")
    case True
    then show ?thesis using take_records_tail [of i es sha lineage gen 0 tail] by auto
  next
    case False
    then have "drop i es = es ! i # drop (Suc i) es" using 0 by (simp add: Cons_nth_drop_Suc)
    then show ?thesis using 0 by (auto simp: page_of_log_def)
  qed
next
  case (Suc room)
  show ?case
  proof (cases "i = length es")
    case True
    then show ?thesis using take_records_tail [of i es sha lineage gen "Suc room" tail] by auto
  next
    case False
    then have i: "i < length es" using Suc.prems by simp
    then have d: "drop i es = es ! i # drop (Suc i) es" by (simp add: Cons_nth_drop_Suc)
    have f: "line_fits (es ! i)" using assms(1) i by simp
    obtain m vs nxt left_over where "take_records sha lineage gen room
        (line_records (offset_at es (Suc i)) (drop (Suc i) es) @ tail_records (offset_at es (length es)) tail) = Inr (vs, nxt, left_over)"
      and p: "page_of_log sha lineage gen es (Suc i) m (vs, nxt, left_over)"
      using Suc.IH [of "Suc i"] i by fastforce
    then have "take_records sha lineage gen (Suc room)
        (line_records (offset_at es i) (drop i es) @ tail_records (offset_at es (length es)) tail)
      = Inr (view_at sha lineage gen es i # vs, nxt, left_over)"
      using d record_view_line [OF f, of sha lineage gen] offset_Suc [OF i] by simp
    then show ?thesis using page_of_log_Cons [OF p i] by blast
  qed
qed


section \<open>The rows of a generation\<close>

text \<open>The event as the line has it.\<close>

definition line_ids :: "event \<Rightarrow> string option \<times> string option \<times> string option \<times> string option \<times> payload option" where
  "line_ids e = (let n = norm_event e in
     (string_of (issue_id n), string_of (execution_id n), string_of (run_id n), string_of (ts n), Some (payload n)))"

lemma std_ascii: "c \<in> set (b64_encode std_alphabet bytes) \<Longrightarrow> ord_of c < 128"
proof -
  have "list_all (\<lambda>c. ord_of c < 128) (CHR ''='' # std_alphabet)" by code_simp
  then have a: "\<forall>c \<in> set (CHR ''='' # std_alphabet). ord_of c < 128" by (simp only: list_all_iff)
  have l: "length std_alphabet = 64" by code_simp
  assume "c \<in> set (b64_encode std_alphabet bytes)"
  then obtain v where v: "v \<in> set (b64_groups (map ord_of bytes))" "c = b64_char std_alphabet v"
    by (auto simp: b64_encode_def)
  have n: "v = None \<or> (\<exists>n < 64. v = Some n)" using groups_small [OF _ v(1)] ord_of_less by auto
  have "b64_char std_alphabet None \<in> set (CHR ''='' # std_alphabet)" by (simp add: b64_char_def)
  moreover have "b64_char std_alphabet (Some n) \<in> set (CHR ''='' # std_alphabet)" if "n < 64" for n
    using nth_mem [of n std_alphabet] that unfolding b64_char_def l option.case list.set(2) by blast
  ultimately show ?thesis using a n v(2) by blast
qed

lemma string_of_value [simp]: "str_value v = string_of v"
  by (simp add: str_value_def string_of_def)

lemma decode_line: "wf_event e \<Longrightarrow> decode_ok_payload (Some (b64_encode std_alphabet (to_line e))) = Inr (line_ids e)"
proof -
  assume wf: "wf_event e"
  obtain kvs where k: "loads (dumps (event_obj e)) = Inr (JObj kvs)"
    "map_of kvs = map_of
      [(''event_id'', JInt (event_id e)), (''schema_version'', JInt (schema_version e)),
       (''ts'', norm_json (ts e)), (''run_id'', norm_json (run_id e)),
       (''type'', JStr (type_value (etype e))), (''issue_id'', norm_json (issue_id e)),
       (''execution_id'', norm_json (execution_id e)), (''payload'', norm_json (JObj (payload e)))]"
    by (rule event_members [OF wf])
  have "\<not> (\<exists>c \<in> set (b64_encode std_alphabet (to_line e)). 128 \<le> ord_of c)" using std_ascii by (auto simp: not_le)
  then show ?thesis using k
    by (simp add: decode_ok_payload_def b64_round_trip jget_def line_ids_def norm_event_def norm_JObj_obj Let_def
        del: norm_json.simps) (simp add: norm_JObj)
qed

definition row_at :: "(string \<Rightarrow> string) \<Rightarrow> nat \<Rightarrow> string option \<Rightarrow> file_generation \<Rightarrow> event list \<Rightarrow> nat \<Rightarrow> evidence" where
  "row_at sha g lineage gen es i = evidence_of g (view_at sha lineage gen es i) (line_ids (es ! i))"

lemma row_fields_at [simp]:
  "ev_cursor (row_at sha g lineage gen es i) = encode_cursor (offset_at es i) lineage gen"
  "ev_integrity (row_at sha g lineage gen es i) = OK"
  "ev_hash (row_at sha g lineage gen es i) = Some (sha (to_line (es ! i)))"
  "ev_generation (row_at sha g lineage gen es i) = g"
  "ev_id (row_at sha g lineage gen es i) = 0"
  by (simp_all add: row_at_def evidence_of_def view_at_def record_hash_of_def line_ids_def Let_def)

lemma row_truncated: "evidence_row.truncate (row_at sha g lineage gen es i) = row_of_event (norm_event (es ! i))"
  by (simp add: row_at_def evidence_of_def view_at_def line_ids_def row_of_event_def evidence_row.truncate_def Let_def)
    (simp add: norm_event_def)

definition plain :: "evidence \<Rightarrow> evidence" where
  "plain r = r\<lparr>ev_id := 0\<rparr>"

lemma plain_fields [simp]:
  "ev_cursor (plain r) = ev_cursor r" "ev_integrity (plain r) = ev_integrity r" "ev_hash (plain r) = ev_hash r"
  "ev_generation (plain r) = ev_generation r" "evidence_row.truncate (plain r) = evidence_row.truncate r"
  "plain (r\<lparr>ev_id := n\<rparr>) = plain r" "plain (plain r) = plain r"
  by (simp_all add: plain_def evidence_row.truncate_def)

lemma plain_row [simp]: "plain (row_at sha g lineage gen es i) = row_at sha g lineage gen es i"
  by (simp add: plain_def)

text \<open>The rows of a generation, but for their ids.\<close>

definition gen_rows :: "nat \<Rightarrow> evidence list \<Rightarrow> evidence list" where
  "gen_rows g rows = map plain (filter (\<lambda>r. ev_generation r = g) rows)"

lemma evidence_at_rows: "map_option plain (evidence_at g c rows) = List.find (\<lambda>r. ev_cursor r = c) (gen_rows g rows)"
  by (induction rows) (auto simp: evidence_at_def gen_rows_def)

lemma put_rows:
  assumes "ev_generation e = g"
  shows "gen_rows g (ix_evidence (put_evidence e s)) =
    (if \<exists>r \<in> set (gen_rows g (ix_evidence s)). ev_cursor r = ev_cursor e
     then map (\<lambda>r. if ev_cursor r = ev_cursor e then plain e else r) (gen_rows g (ix_evidence s))
     else gen_rows g (ix_evidence s) @ [plain e])"
proof -
  have "gen_rows g (map (\<lambda>r. if ev_generation r = g \<and> ev_cursor r = c then e\<lparr>ev_id := ev_id r\<rparr> else r) rows) =
      map (\<lambda>r. if ev_cursor r = c then plain e else r) (gen_rows g rows)" for rows c
    using assms by (induction rows) (auto simp: gen_rows_def)
  moreover have "(\<exists>r \<in> set (gen_rows g rows). ev_cursor r = c) \<longleftrightarrow> (\<exists>r \<in> set rows. ev_generation r = g \<and> ev_cursor r = c)" for rows c
    by (auto simp: gen_rows_def)
  moreover have "gen_rows g (rows @ [e\<lparr>ev_id := n\<rparr>]) = gen_rows g rows @ [plain e]" for rows n
    using assms by (simp add: gen_rows_def)
  ultimately show ?thesis using assms by (simp add: put_evidence_def Let_def)
qed

text \<open>
  The generation holds the first \<open>k\<close> events, and perhaps something unfinished after them: a tail that was
  torn when it was read.
\<close>

definition held ::
  "(string \<Rightarrow> string) \<Rightarrow> event list \<Rightarrow> nat \<Rightarrow> string option \<Rightarrow> file_generation \<Rightarrow> nat \<Rightarrow> evidence list \<Rightarrow> bool" where
  "held sha es g lineage gen k rows \<longleftrightarrow> k \<le> length es \<and>
     (\<exists>tl. gen_rows g rows = map (row_at sha g lineage gen es) [0..<k] @ tl \<and>
       (tl = [] \<or> (\<exists>r. tl = [r] \<and> ev_cursor r = encode_cursor (offset_at es k) lineage gen \<and> ev_integrity r \<noteq> OK)))"

text \<open>Only the evidence and what is noted about it differ.\<close>

definition evidence_only :: "'w index \<Rightarrow> 'w index \<Rightarrow> bool" where
  "evidence_only s s' \<longleftrightarrow> (\<exists>rows n co ch m. s' = s\<lparr>ix_evidence := rows, ix_next_evidence := n,
     ix_corruptions := co, ix_changes := ch, ix_next_change := m\<rparr>)"

lemma evidence_only_refl [simp]: "evidence_only s s"
proof -
  have "s = s\<lparr>ix_evidence := ix_evidence s, ix_next_evidence := ix_next_evidence s,
     ix_corruptions := ix_corruptions s, ix_changes := ix_changes s, ix_next_change := ix_next_change s\<rparr>" by simp
  then show ?thesis unfolding evidence_only_def by blast
qed

lemma evidence_only_trans: "evidence_only s t \<Longrightarrow> evidence_only t u \<Longrightarrow> evidence_only s u"
proof -
  assume "evidence_only s t" "evidence_only t u"
  then obtain rows n co ch m rows' n' co' ch' m' where "t = s\<lparr>ix_evidence := rows, ix_next_evidence := n,
      ix_corruptions := co, ix_changes := ch, ix_next_change := m\<rparr>"
    and "u = t\<lparr>ix_evidence := rows', ix_next_evidence := n', ix_corruptions := co', ix_changes := ch', ix_next_change := m'\<rparr>"
    unfolding evidence_only_def by metis
  then have "u = s\<lparr>ix_evidence := rows', ix_next_evidence := n', ix_corruptions := co', ix_changes := ch', ix_next_change := m'\<rparr>"
    by simp
  then show ?thesis unfolding evidence_only_def by blast
qed

lemma evidence_only_put [simp]: "evidence_only s (put_evidence e s)"
proof -
  have "put_evidence e s = s\<lparr>ix_evidence := ix_evidence (put_evidence e s), ix_next_evidence := ix_next_evidence (put_evidence e s),
     ix_corruptions := ix_corruptions s, ix_changes := ix_changes s, ix_next_change := ix_next_change s\<rparr>"
    by (simp add: put_evidence_def Let_def)
  then show ?thesis unfolding evidence_only_def by blast
qed

lemma evidence_only_change [simp]: "evidence_only s (record_change repo t i s)"
proof -
  have "record_change repo t i s = s\<lparr>ix_evidence := ix_evidence s, ix_next_evidence := ix_next_evidence s,
     ix_corruptions := ix_corruptions s, ix_changes := ix_changes (record_change repo t i s),
     ix_next_change := ix_next_change (record_change repo t i s)\<rparr>"
    by (simp add: record_change_def)
  then show ?thesis unfolding evidence_only_def by blast
qed

lemma evidence_only_corruption [simp]: "evidence_only s (note_corruption repo g rec s)"
proof -
  have "evidence_only s (s\<lparr>ix_corruptions := co\<rparr>)" for co
  proof -
    have "s\<lparr>ix_corruptions := co\<rparr> = s\<lparr>ix_evidence := ix_evidence s, ix_next_evidence := ix_next_evidence s,
     ix_corruptions := co, ix_changes := ix_changes s, ix_next_change := ix_next_change s\<rparr>" by simp
    then show ?thesis unfolding evidence_only_def by blast
  qed
  then show ?thesis
    by (auto simp: note_corruption_def split: option.splits intro: evidence_only_trans [OF _ evidence_only_change])
qed

lemma corruption_evidence [simp]:
  "ix_evidence (note_corruption repo g rec s) = ix_evidence s" "ix_evidence (record_change repo t i s) = ix_evidence s"
  by (simp_all add: note_corruption_def record_change_def split: option.splits)

section \<open>Storing the records of a page\<close>

text \<open>What is stored of one record, if the numbers fit.\<close>

lemma content_changed_plain: "content_changed rec (map_option plain old) = content_changed rec old"
  by (simp add: content_changed_def split: option.splits)

lemma upsert_record_eq:
  assumes "(if rec_integrity rec = OK then decode_ok_payload (record_bytes rec) else Inr (None, None, None, None, None)) = Inr ids"
    and "fits64 (rec_event_id rec)" "fits64 (rec_schema_version rec)"
    and "old = List.find (\<lambda>r. ev_cursor r = rec_cursor rec) (gen_rows g (ix_evidence s))"
  obtains s' where "upsert_record repo g rec s = Inr (ids_named (content_changed rec old \<and> rec_integrity rec = OK)
      (content_changed rec old \<and> map_option ev_integrity old = Some OK) (evidence_of g rec ids), s')"
    and "evidence_only s s'"
    and "ix_evidence s' = ix_evidence (put_evidence (evidence_of g rec ids) (note_corruption repo g rec s))"
proof -
  let ?old = "evidence_at g (rec_cursor rec) (ix_evidence s)" and ?e = "evidence_of g rec ids"
  let ?s1 = "put_evidence ?e (note_corruption repo g rec s)"
  let ?s2 = "if content_changed rec ?old then record_change repo ''evidence'' (rec_cursor rec) ?s1 else ?s1"
  have old: "old = map_option plain ?old" using assms(4) by (simp add: evidence_at_rows)
  have "map_option ev_integrity old = map_option ev_integrity ?old" unfolding old by (cases ?old) simp_all
  moreover have "content_changed rec old = content_changed rec ?old" unfolding old by (rule content_changed_plain)
  ultimately have u: "upsert_record repo g rec s = Inr (ids_named (content_changed rec old \<and> rec_integrity rec = OK)
      (content_changed rec old \<and> map_option ev_integrity old = Some OK) ?e, ?s2)"
    unfolding upsert_record_def assms(1) rbind_Inr Let_def using assms(2,3) by (simp only: simp_thms if_True if_False)
  have "evidence_only s ?s1" by (rule evidence_only_trans [OF evidence_only_corruption evidence_only_put])
  from evidence_only_trans [OF this evidence_only_change] this have o: "evidence_only s ?s2" by simp
  have "ix_evidence ?s2 = ix_evidence ?s1" by simp
  with u o show thesis by (rule that)
qed

text \<open>An event of the log: nothing happens when it is stored, and it goes to the end when it is next.\<close>

definition storable :: "event \<Rightarrow> bool" where
  "storable e \<longleftrightarrow> line_fits e \<and> event_id e < 2 ^ 63"

lemma storable_line: "\<forall>e \<in> set es. storable e \<Longrightarrow> \<forall>e \<in> set es. line_fits e"
  by (simp add: storable_def)

lemma view_fields [simp]:
  "rec_cursor (view_at sha lineage gen es i) = encode_cursor (offset_at es i) lineage gen"
  "rec_integrity (view_at sha lineage gen es i) = OK"
  "record_hash_of (view_at sha lineage gen es i) = Some (sha (to_line (es ! i)))"
  "rec_event_id (view_at sha lineage gen es i) = Some (event_id (es ! i))"
  "rec_schema_version (view_at sha lineage gen es i) = Some (schema_version (es ! i))"
  "record_bytes (view_at sha lineage gen es i) = Some (b64_encode std_alphabet (to_line (es ! i)))"
  by (simp_all add: view_at_def record_hash_of_def Let_def)

lemma storable_fits: "storable e \<Longrightarrow> fits64 (Some (event_id e)) \<and> fits64 (Some (schema_version e)) \<and> wf_event e"
  by (simp add: storable_def line_fits_def wf_event_def fits64_def)

lemma cursor_at_inj:
  assumes "\<forall>e \<in> set es. line_fits e" and "i \<le> length es" and "j \<le> length es"
  shows "encode_cursor (offset_at es i) lineage gen = encode_cursor (offset_at es j) lineage gen \<longleftrightarrow> i = j"
  using encode_cursor_inj [of "offset_at es i" lineage gen "offset_at es j" lineage gen] offset_inj [of es i j] assms by auto

lemma find_held:
  assumes "\<forall>e \<in> set es. line_fits e" and "k \<le> length es" and "i < k"
  shows "List.find (\<lambda>r. ev_cursor r = encode_cursor (offset_at es i) lineage gen) (map (row_at sha g lineage gen es) [0..<k] @ rest)
    = Some (row_at sha g lineage gen es i)"
proof -
  let ?rows = "map (row_at sha g lineage gen es) [0..<k] @ rest"
  have at: "?rows ! j = row_at sha g lineage gen es j" if "j < k" for j using that by (simp add: nth_append)
  have "ev_cursor (?rows ! j) \<noteq> encode_cursor (offset_at es i) lineage gen" if "j < i" for j
    using cursor_at_inj [OF assms(1), of j i lineage gen] that assms(2,3) at [of j] by simp
  then show ?thesis using at [OF assms(3)] assms(3) unfolding find_Some_iff by (intro exI [of _ i]) simp
qed

lemma cursor_later:
  assumes "\<forall>e \<in> set es. line_fits e" and "k \<le> length es" and "r \<in> set (map (row_at sha g lineage gen es) [0..<k])"
  shows "ev_cursor r \<noteq> encode_cursor (offset_at es k) lineage gen"
proof -
  obtain j where j: "j < k" "r = row_at sha g lineage gen es j" using assms(3) by auto
  then show ?thesis using cursor_at_inj [OF assms(1), of j k lineage gen] assms(2) by simp
qed

lemma find_not_held:
  assumes "\<forall>e \<in> set es. line_fits e" and "k \<le> length es"
  shows "List.find (\<lambda>r. ev_cursor r = encode_cursor (offset_at es k) lineage gen) (map (row_at sha g lineage gen es) [0..<k] @ rest)
    = List.find (\<lambda>r. ev_cursor r = encode_cursor (offset_at es k) lineage gen) rest"
proof -
  have skip: "List.find P (xs @ rest) = List.find P rest" if "\<forall>x \<in> set xs. \<not> P x" for P and xs :: "evidence list"
    using that by (induction xs) auto
  show ?thesis by (rule skip) (use cursor_later [OF assms] in blast)
qed

text \<open>Putting a row at a place before, at the end, or at the end in the place of what was unfinished there.\<close>

lemma put_old:
  assumes "\<forall>e \<in> set es. line_fits e" and "held sha es g lineage gen k (ix_evidence s)" and "i < k"
  shows "gen_rows g (ix_evidence (put_evidence (row_at sha g lineage gen es i) s)) = gen_rows g (ix_evidence s)"
proof -
  obtain rest where k: "k \<le> length es" and r: "gen_rows g (ix_evidence s) = map (row_at sha g lineage gen es) [0..<k] @ rest"
    "rest = [] \<or> (\<exists>r. rest = [r] \<and> ev_cursor r = encode_cursor (offset_at es k) lineage gen \<and> ev_integrity r \<noteq> OK)"
    using assms(2) by (auto simp: held_def)
  have "\<forall>r \<in> set rest. ev_cursor r \<noteq> encode_cursor (offset_at es i) lineage gen"
    using r(2) cursor_at_inj [OF assms(1), where lineage = lineage and gen = gen] k assms(3) by auto
  moreover have "ev_cursor (row_at sha g lineage gen es j) = encode_cursor (offset_at es i) lineage gen \<longleftrightarrow> j = i" if "j < k" for j
    using cursor_at_inj [OF assms(1), where lineage = lineage and gen = gen] k assms(3) that by simp
  ultimately have "map (\<lambda>r. if ev_cursor r = encode_cursor (offset_at es i) lineage gen then row_at sha g lineage gen es i else r)
      (gen_rows g (ix_evidence s)) = gen_rows g (ix_evidence s)"
    unfolding r(1) by (auto intro!: map_idI)
  moreover have "\<exists>r \<in> set (gen_rows g (ix_evidence s)). ev_cursor r = encode_cursor (offset_at es i) lineage gen"
    unfolding r(1) using assms(3) by (intro bexI [of _ "row_at sha g lineage gen es i"]) simp_all
  ultimately show ?thesis using put_rows [of "row_at sha g lineage gen es i" g s] by (simp only: row_fields_at plain_row if_True)
qed

lemma put_next:
  assumes "\<forall>e \<in> set es. line_fits e" and "held sha es g lineage gen k (ix_evidence s)"
    and "ev_generation e = g" and "ev_cursor e = encode_cursor (offset_at es k) lineage gen"
  shows "gen_rows g (ix_evidence (put_evidence e s)) = map (row_at sha g lineage gen es) [0..<k] @ [plain e]"
proof -
  obtain rest where k: "k \<le> length es" and r: "gen_rows g (ix_evidence s) = map (row_at sha g lineage gen es) [0..<k] @ rest"
    "rest = [] \<or> (\<exists>r. rest = [r] \<and> ev_cursor r = encode_cursor (offset_at es k) lineage gen \<and> ev_integrity r \<noteq> OK)"
    using assms(2) by (auto simp: held_def)
  have n: "\<forall>r \<in> set (map (row_at sha g lineage gen es) [0..<k]). ev_cursor r \<noteq> ev_cursor e"
    unfolding assms(4) using cursor_later [OF assms(1) k] by blast
  then have "map (\<lambda>r. if ev_cursor r = ev_cursor e then plain e else r) (map (row_at sha g lineage gen es) [0..<k])
      = map (row_at sha g lineage gen es) [0..<k]" by (intro map_idI) auto
  then show ?thesis using r(2) n unfolding put_rows [OF assms(3)] r(1) assms(4) by auto
qed

lemma upsert_line:
  assumes "\<forall>e \<in> set es. storable e" and "held sha es g lineage gen k (ix_evidence s)" and "i \<le> k" and "i < length es"
  obtains s' c where "upsert_record repo g (view_at sha lineage gen es i) s = Inr (c, s')" and "evidence_only s s'"
    and "held sha es g lineage gen (max k (Suc i)) (ix_evidence s')" and "\<not> ch_unsafe c"
    and "i = k \<longrightarrow> ch_issues c = list_of (ev_issue_id (row_at sha g lineage gen es i)) \<and>
      ch_executions c = list_of (ev_execution_id (row_at sha g lineage gen es i)) \<and>
      ch_runs c = list_of (ev_run_id (row_at sha g lineage gen es i))"
proof -
  let ?v = "view_at sha lineage gen es i" and ?row = "row_at sha g lineage gen es"
  let ?old = "List.find (\<lambda>r. ev_cursor r = encode_cursor (offset_at es i) lineage gen) (gen_rows g (ix_evidence s))"
  note fits = storable_line [OF assms(1)]
  have e: "storable (es ! i)" using assms(1,4) by simp
  then have f: "fits64 (rec_event_id ?v)" "fits64 (rec_schema_version ?v)" using storable_fits by simp_all
  have d: "(if rec_integrity ?v = OK then decode_ok_payload (record_bytes ?v) else Inr (None, None, None, None, None)) = Inr (line_ids (es ! i))"
    using decode_line [of "es ! i"] storable_fits [OF e] by simp
  have old: "?old = List.find (\<lambda>r. ev_cursor r = rec_cursor ?v) (gen_rows g (ix_evidence s))" by simp
  obtain s' where u: "upsert_record repo g ?v s = Inr (ids_named (content_changed ?v ?old \<and> rec_integrity ?v = OK)
      (content_changed ?v ?old \<and> map_option ev_integrity ?old = Some OK) (?row i), s')" "evidence_only s s'"
    "ix_evidence s' = ix_evidence (put_evidence (?row i) (note_corruption repo g ?v s))"
    by (rule upsert_record_eq [OF d f old, of repo]) (simp add: row_at_def)
  obtain rest where k: "k \<le> length es" and r: "gen_rows g (ix_evidence s) = map ?row [0..<k] @ rest"
    "rest = [] \<or> (\<exists>r. rest = [r] \<and> ev_cursor r = encode_cursor (offset_at es k) lineage gen \<and> ev_integrity r \<noteq> OK)"
    using assms(2) by (auto simp: held_def)
  have held: "held sha es g lineage gen k (ix_evidence (note_corruption repo g ?v s))" using assms(2) by simp
  show thesis
  proof (cases "i < k")
    case True
    have o: "?old = Some (?row i)" unfolding r(1) by (rule find_held [OF fits k True])
    have "gen_rows g (ix_evidence s') = gen_rows g (ix_evidence s)"
      unfolding u(3) put_old [OF fits held True] by simp
    moreover have "max k (Suc i) = k" using True by simp
    ultimately have "held sha es g lineage gen (max k (Suc i)) (ix_evidence s')" using assms(2) by (simp only: held_def)
    moreover have "\<not> content_changed ?v ?old" unfolding o by (simp add: content_changed_def)
    ultimately show thesis using that u True by (simp add: ids_named_def)
  next
    case False
    then have i: "i = k" using assms(3) by simp
    have o: "?old = List.find (\<lambda>r. ev_cursor r = encode_cursor (offset_at es k) lineage gen) rest"
      unfolding r(1) i by (rule find_not_held [OF fits k])
    have c: "content_changed ?v ?old" "map_option ev_integrity ?old \<noteq> Some OK"
      unfolding o using r(2) by (auto simp: content_changed_def)
    have "gen_rows g (ix_evidence s') = map ?row [0..<k] @ [?row i]"
      unfolding u(3) using put_next [OF fits held, of "?row i"] i by simp
    then have "held sha es g lineage gen (max k (Suc i)) (ix_evidence s')" using i assms(4) by (simp add: held_def)
    then show thesis using that u c by (simp add: ids_named_def)
  qed
qed

definition names_row :: "changed_ids \<Rightarrow> evidence \<Rightarrow> bool" where
  "names_row c r \<longleftrightarrow> set (list_of (ev_issue_id r)) \<subseteq> set (ch_issues c) \<and>
     set (list_of (ev_execution_id r)) \<subseteq> set (ch_executions c) \<and> set (list_of (ev_run_id r)) \<subseteq> set (ch_runs c)"

lemma names_join: "names_row c r \<or> names_row d r \<Longrightarrow> names_row (join_changes c d) r"
  by (auto simp: names_row_def join_changes_def)

lemma upsert_lines:
  assumes "\<forall>e \<in> set es. storable e" and "held sha es g lineage gen k (ix_evidence s)"
    and "i \<le> k" and "i \<le> m" and "m \<le> length es"
  shows "\<exists>s' c. upsert_records repo g (map (view_at sha lineage gen es) [i..<m]) s = Inr (c, s') \<and> evidence_only s s' \<and>
    held sha es g lineage gen (max k m) (ix_evidence s') \<and> \<not> ch_unsafe c \<and>
    (\<forall>j. k \<le> j \<longrightarrow> j < m \<longrightarrow> names_row c (row_at sha g lineage gen es j))"
  using assms(2-5)
proof (induction "m - i" arbitrary: i k s)
  case 0
  then have "[i..<m] = []" "max k m = k" by simp_all
  then show ?case using 0 by (simp add: no_changes_def)
next
  case (Suc n)
  then have i: "i < m" "[i..<m] = i # [Suc i..<m]" "i < length es" by (simp_all add: upt_conv_Cons)
  obtain s1 c where u: "upsert_record repo g (view_at sha lineage gen es i) s = Inr (c, s1)" "evidence_only s s1"
    "held sha es g lineage gen (max k (Suc i)) (ix_evidence s1)" "\<not> ch_unsafe c"
    "i = k \<longrightarrow> ch_issues c = list_of (ev_issue_id (row_at sha g lineage gen es i)) \<and>
      ch_executions c = list_of (ev_execution_id (row_at sha g lineage gen es i)) \<and>
      ch_runs c = list_of (ev_run_id (row_at sha g lineage gen es i))"
    by (rule upsert_line [OF assms(1) Suc.prems(1,2) i(3), of repo])
  have "n = m - Suc i" "Suc i \<le> max k (Suc i)" "Suc i \<le> m" using Suc.hyps(2) i(1) by simp_all
  from Suc.hyps(1) [OF this(1) u(3) this(2,3) assms(5)] obtain s2 d where
    v: "upsert_records repo g (map (view_at sha lineage gen es) [Suc i..<m]) s1 = Inr (d, s2)" "evidence_only s1 s2"
      "held sha es g lineage gen (max (max k (Suc i)) m) (ix_evidence s2)" "\<not> ch_unsafe d"
      "\<forall>j. max k (Suc i) \<le> j \<longrightarrow> j < m \<longrightarrow> names_row d (row_at sha g lineage gen es j)" by blast
  have "names_row (join_changes c d) (row_at sha g lineage gen es j)" if "k \<le> j" "j < m" for j
  proof (cases "j = i")
    case True
    then have "i = k" using that Suc.prems(2) by simp
    then have "names_row c (row_at sha g lineage gen es j)" using u(5) True by (simp add: names_row_def)
    then show ?thesis by (simp add: names_join)
  next
    case False
    then have "max k (Suc i) \<le> j" using that Suc.prems(2) by auto
    then show ?thesis using v(5) that(2) by (simp add: names_join)
  qed
  moreover have "max (max k (Suc i)) m = max k m" using i(1) by simp
  ultimately show ?case using u(1,4) v(1,3,4) evidence_only_trans [OF u(2) v(2)] i(2) by (simp add: join_changes_def)
qed

lemma upsert_tail:
  assumes "\<forall>e \<in> set es. storable e" and "held sha es g lineage gen k (ix_evidence s)"
    and "unfinished (offset_at es k) lineage gen v"
  shows "\<exists>s'. upsert_record repo g v s = Inr (no_changes, s') \<and> evidence_only s s' \<and> held sha es g lineage gen k (ix_evidence s')"
proof -
  let ?old = "List.find (\<lambda>r. ev_cursor r = rec_cursor v) (gen_rows g (ix_evidence s))"
  let ?e = "evidence_of g v (None, None, None, None, None)"
  note fits = storable_line [OF assms(1)]
  have v: "rec_cursor v = encode_cursor (offset_at es k) lineage gen" "rec_integrity v \<noteq> OK"
    "fits64 (rec_event_id v)" "fits64 (rec_schema_version v)"
    using assms(3) by (auto simp: unfinished_def fits64_def)
  then have d: "(if rec_integrity v = OK then decode_ok_payload (record_bytes v) else Inr (None, None, None, None, None))
    = Inr (None, None, None, None, None)" by simp
  obtain rest where k: "k \<le> length es" and r: "gen_rows g (ix_evidence s) = map (row_at sha g lineage gen es) [0..<k] @ rest"
    "rest = [] \<or> (\<exists>r. rest = [r] \<and> ev_cursor r = encode_cursor (offset_at es k) lineage gen \<and> ev_integrity r \<noteq> OK)"
    using assms(2) by (auto simp: held_def)
  have "?old = List.find (\<lambda>r. ev_cursor r = encode_cursor (offset_at es k) lineage gen) rest"
    unfolding r(1) v(1) by (rule find_not_held [OF fits k])
  then have o: "map_option ev_integrity ?old \<noteq> Some OK" using r(2) by auto
  obtain s' where u: "upsert_record repo g v s = Inr (ids_named (content_changed v ?old \<and> rec_integrity v = OK)
      (content_changed v ?old \<and> map_option ev_integrity ?old = Some OK) ?e, s')" "evidence_only s s'"
    "ix_evidence s' = ix_evidence (put_evidence ?e (note_corruption repo g v s))"
    by (rule upsert_record_eq [OF d v(3,4) refl, of repo])
  have e: "ev_generation ?e = g" "ev_cursor ?e = encode_cursor (offset_at es k) lineage gen" "ev_integrity ?e \<noteq> OK"
    using v by (simp_all add: evidence_of_def)
  have "held sha es g lineage gen k (ix_evidence (note_corruption repo g v s))" using assms(2) by simp
  from put_next [OF fits this e(1,2)]
  have "held sha es g lineage gen k (ix_evidence s')" unfolding u(3) using k e(2,3) by (simp add: held_def)
  then show ?thesis using u(1,2) o v(2) by (simp add: ids_named_def no_changes_def)
qed

lemma upsert_records_append:
  "upsert_records repo g (vs @ ws) s = rbind (upsert_records repo g vs s) (\<lambda>(c, s1).
     rbind (upsert_records repo g ws s1) (\<lambda>(d, s2). Inr (join_changes c d, s2)))"
proof (induction vs arbitrary: s)
  case Nil
  have "join_changes no_changes d = d" for d by (simp add: join_changes_def no_changes_def)
  then show ?case by (simp add: rbind_def split: sum.splits prod.splits)
next
  case (Cons v vs)
  have "join_changes (join_changes a b) c = join_changes a (join_changes b c)" for a b c by (simp add: join_changes_def)
  then show ?case by (simp add: Cons.IH rbind_def split: sum.splits prod.splits)
qed

text \<open>The records of a page over the log, stored into a generation that holds the first \<open>k\<close> events.\<close>

lemma upsert_page:
  assumes "\<forall>e \<in> set es. storable e" and "held sha es g lineage gen k (ix_evidence s)"
    and "i \<le> k" and "page_of_log sha lineage gen es i m (vs, nxt, goes_on)"
  shows "\<exists>s' c. upsert_records repo g vs s = Inr (c, s') \<and> evidence_only s s' \<and>
    held sha es g lineage gen (max k m) (ix_evidence s') \<and> \<not> ch_unsafe c \<and>
    (\<forall>j. k \<le> j \<longrightarrow> j < m \<longrightarrow> names_row c (row_at sha g lineage gen es j))"
proof -
  have m: "i \<le> m" "m \<le> length es" and vs: "vs = map (view_at sha lineage gen es) [i..<m] \<or>
    (\<exists>v. vs = map (view_at sha lineage gen es) [i..<m] @ [v] \<and> unfinished (offset_at es m) lineage gen v \<and> m = length es)"
    using assms(4) by (auto simp: page_of_log_def)
  obtain s1 c where u: "upsert_records repo g (map (view_at sha lineage gen es) [i..<m]) s = Inr (c, s1)" "evidence_only s s1"
    "held sha es g lineage gen (max k m) (ix_evidence s1)" "\<not> ch_unsafe c"
    "\<forall>j. k \<le> j \<longrightarrow> j < m \<longrightarrow> names_row c (row_at sha g lineage gen es j)"
    using upsert_lines [OF assms(1-3) m] by blast
  from vs show ?thesis
  proof
    assume "\<exists>v. vs = map (view_at sha lineage gen es) [i..<m] @ [v] \<and> unfinished (offset_at es m) lineage gen v \<and> m = length es"
    then obtain v where v: "vs = map (view_at sha lineage gen es) [i..<m] @ [v]" "unfinished (offset_at es m) lineage gen v"
      "m = length es" by blast
    have "max k m = m" using assms(2) v(3) by (simp add: held_def)
    then obtain s2 where s2: "upsert_record repo g v s1 = Inr (no_changes, s2)" "evidence_only s1 s2"
      "held sha es g lineage gen m (ix_evidence s2)"
      using upsert_tail [OF assms(1) _ v(2)] u(3) by fastforce
    have "join_changes c (join_changes no_changes no_changes) = c" by (simp add: join_changes_def no_changes_def)
    then have "upsert_records repo g vs s = Inr (c, s2)" using u(1) s2(1) unfolding v(1) upsert_records_append by simp
    then show ?thesis using s2(3) \<open>max k m = m\<close> u(4,5) evidence_only_trans [OF u(2) s2(2)] by auto
  qed (use u in auto)
qed

text \<open>No other generation gets a row.\<close>

lemma put_generations: "ev_generation ` set (ix_evidence (put_evidence e s)) \<subseteq> insert (ev_generation e) (ev_generation ` set (ix_evidence s))"
  by (auto simp: put_evidence_def Let_def)

lemma upsert_generations:
  "upsert_records repo g vs s = Inr (c, s') \<Longrightarrow>
   ev_generation ` set (ix_evidence s') \<subseteq> insert g (ev_generation ` set (ix_evidence s))"
proof (induction vs arbitrary: s c)
  case (Cons v vs)
  obtain d s1 c' where u: "upsert_record repo g v s = Inr (d, s1)" "upsert_records repo g vs s1 = Inr (c', s')"
    using Cons.prems by (auto simp: rbind_eq_Inr)
  obtain ids where "ix_evidence s1 = ix_evidence (put_evidence (evidence_of g v ids) (note_corruption repo g v s))"
    using u(1) by (auto simp: upsert_record_def rbind_eq_Inr Let_def split: if_splits)
  then have "ev_generation ` set (ix_evidence s1) \<subseteq> insert g (ev_generation ` set (ix_evidence s))"
    using put_generations [of "evidence_of g v ids" "note_corruption repo g v s"] by (simp add: evidence_of_def split: prod.splits)
  then show ?case using Cons.IH [OF u(2)] by blast
qed auto

lemma take_by_index: "k \<le> length xs \<Longrightarrow> take k xs = map ((!) xs) [0..<k]"
  by (intro nth_equalityI) simp_all

text \<open>What the reducer is given: the lines' events, in the order of the log if their ids are.\<close>

lemma fetch_held:
  assumes "held sha es g lineage gen k rows" and "sorted (map event_id es)"
  shows "map evidence_row.truncate (fetch_ok g (\<lambda>_. True) rows) = map (row_of_event \<circ> norm_event) (take k es)"
proof -
  obtain rest where k: "k \<le> length es" and r: "gen_rows g rows = map (row_at sha g lineage gen es) [0..<k] @ rest"
    "\<forall>r \<in> set rest. ev_integrity r \<noteq> OK"
    using assms(1) by (auto simp: held_def)
  let ?ok = "filter (\<lambda>r. ev_generation r = g \<and> ev_integrity r = OK) rows"
  have "map plain ?ok = filter (\<lambda>r. ev_integrity r = OK) (gen_rows g rows)"
    by (induction rows) (auto simp: gen_rows_def)
  also have "\<dots> = map (row_at sha g lineage gen es) [0..<k]" unfolding r(1) using r(2) by (simp add: filter_id_conv)
  finally have p: "map plain ?ok = map (row_at sha g lineage gen es) [0..<k]" .
  have "map (evidence_row.truncate \<circ> plain) ?ok = map (row_of_event \<circ> norm_event \<circ> (!) es) [0..<k]"
    using arg_cong [OF p, of "map evidence_row.truncate"] by (simp add: row_truncated o_def)
  then have t: "map evidence_row.truncate ?ok = map (row_of_event \<circ> norm_event) (take k es)"
    using k unfolding take_by_index [OF k] by (simp add: o_def)
  have "map ev_event_id ?ok = map (ev_event_id \<circ> evidence_row.truncate) ?ok" by (simp add: evidence_row.truncate_def)
  also have "\<dots> = map (Some \<circ> event_id) (take k es)"
    using arg_cong [OF t, of "map ev_event_id"] by (simp add: o_def norm_event_def)
  finally have "sorted (map ev_event_id ?ok)" using assms(2)
    by (simp add: sorted_map o_def sorted_wrt_take)
  then have "fetch_ok g (\<lambda>_. True) rows = ?ok" by (simp add: fetch_ok_def sorted_sort_id sort_key_id_if_sorted)
  then show ?thesis using t by simp
qed

end
