(* ===== verification/IndexViews.thy ===== *)
theory IndexViews
  imports IndexLog
begin

text \<open>
  The view tables of the index: what a full publication writes and what a recomputation of the changed
  entities writes, against the projection of all rows of the generation.
\<close>

section \<open>The projection of a generation\<close>

lemma truncate_fields:
  "ev_event_id (evidence_row.truncate row) = ev_event_id row" "ev_event_type (evidence_row.truncate row) = ev_event_type row"
  "ev_issue_id (evidence_row.truncate row) = ev_issue_id row" "ev_execution_id (evidence_row.truncate row) = ev_execution_id row"
  "ev_run_id (evidence_row.truncate row) = ev_run_id row" "ev_payload (evidence_row.truncate row) = ev_payload row"
  "ev_ts (evidence_row.truncate row) = ev_ts row"
  by (simp_all add: evidence_row.truncate_def)

lemma apply_row_truncate: "apply_row T (evidence_row.truncate row) r = apply_row T row r"
  by (simp only: apply_row_def truncate_fields)

lemma rows_truncate: "rfold (apply_row T) (map evidence_row.truncate rows) r = rfold (apply_row T) rows r"
  by (induction rows arbitrary: r) (simp_all add: apply_row_truncate rbind_def split: sum.splits)

text \<open>Metered numbers that fit the integer columns.\<close>

definition usage_fits :: "payload \<Rightarrow> bool" where
  "usage_fits pl \<longleftrightarrow> (let metered = dict_or_empty pl ''usage'' in
     (\<forall>m. validate_dollars (jget metered ''dollars'') = Inr m \<longrightarrow> fits64 m) \<and>
     fits64 (validate_tokens (jget metered ''input_tokens'')) \<and> fits64 (validate_tokens (jget metered ''output_tokens'')))"

definition sound_row :: "'a evidence_row_scheme \<Rightarrow> bool" where
  "sound_row row \<longleftrightarrow> tame row \<and> usage_fits (load_payload (ev_payload row))"

lemma sound_truncate [simp]: "sound_row (evidence_row.truncate row) = sound_row row"
  by (simp add: sound_row_def tame_def evidence_row.truncate_def)

definition exec_fits :: "dash_execution \<Rightarrow> bool" where
  "exec_fits v \<longleftrightarrow> fits64 (de_micro v) \<and> fits64 (de_input_tokens v) \<and> fits64 (de_output_tokens v)"

lemma fits64_None [simp]: "fits64 None"
  by (simp add: fits64_def)

lemma exec_fits_state [simp]:
  "exec_fits (v\<lparr>de_state := st\<rparr>) = exec_fits v" "exec_fits (v\<lparr>de_last := l\<rparr>) = exec_fits v"
  "exec_fits (v\<lparr>de_inconsistent := b\<rparr>) = exec_fits v" "exec_fits (pending v) = exec_fits v"
  by (simp_all add: exec_fits_def pending_def)

lemma capture_fits: "capture_usage v pl = Inr v' \<Longrightarrow> usage_fits pl \<Longrightarrow> exec_fits v \<Longrightarrow> exec_fits v'"
  by (auto simp: capture_usage_def usage_fits_def dict_or_empty_def exec_fits_def rbind_eq_Inr Let_def
      split: json.splits option.splits if_splits)

lemma moved_fits: "moved_execution T et pl eid v = Inr v' \<Longrightarrow> usage_fits pl \<Longrightarrow> exec_fits v \<Longrightarrow> exec_fits v'"
  by (auto simp: moved_execution_def Let_def split: if_splits option.splits sum.splits dest!: capture_fits)

text \<open>What every projection of sound rows has: distinct keys, and numbers that fit.\<close>

definition writable :: "dash_projection \<Rightarrow> bool" where
  "writable r \<longleftrightarrow> distinct (keys (v_issues r)) \<and> distinct (keys (v_executions r)) \<and> distinct (keys (v_runs r)) \<and>
     distinct (keys (v_containments r)) \<and> (\<forall>xv \<in> set (v_executions r). exec_fits (snd xv))"

lemma apply_row_kinds:
  assumes "apply_row T row r = Inr r'"
  shows "r' = r \<or> r' = r\<lparr>unknown_event_type_count := unknown_event_type_count r + 1\<rparr>
    \<or> r' = apply_issue_created r (ev_issue_id row) (load_payload (ev_payload row)) (ev_event_id row)
    \<or> (\<exists>et. r' = apply_issue_transition T r et (ev_issue_id row) (load_payload (ev_payload row)) (ev_event_id row))
    \<or> r' = apply_execution_spawned r (ev_execution_id row) (ev_issue_id row) (ev_run_id row) (ev_event_id row)
    \<or> (\<exists>et. apply_execution_transition T r et (ev_execution_id row) (load_payload (ev_payload row)) (ev_event_id row) = Inr r')
    \<or> (\<exists>et. r' = apply_containment_event r et (ev_execution_id row) (load_payload (ev_payload row)) (ev_event_id row))
    \<or> apply_run_started r (ev_run_id row) (load_payload (ev_payload row)) (ev_event_id row) (ev_ts row) = Inr r'
    \<or> r' = apply_run_finished r (ev_run_id row) (load_payload (ev_payload row)) (ev_event_id row) (ev_ts row)"
proof (cases "try_event_type (ev_event_type row)")
  case (Some et)
  then show ?thesis using assms by (cases et) (simp_all add: apply_row_def Let_def, blast+)
qed (use assms in \<open>simp add: apply_row_def Let_def\<close>)

lemma writable_update:
  assumes "writable r"
  shows "writable (r\<lparr>v_issues := AList.update i iv (v_issues r)\<rparr>)"
    and "writable (r\<lparr>v_runs := AList.update j rv (v_runs r)\<rparr>)"
    and "writable (r\<lparr>v_containments := AList.update k cv (v_containments r)\<rparr>)"
  using assms by (simp_all add: writable_def)

lemma execution_transition_cases:
  "apply_execution_transition T r et xid pl eid = Inr r' \<Longrightarrow> r' = r \<or>
     (\<exists>x v v'. map_of (v_executions r) x = Some v \<and> moved_execution T et pl eid v = Inr v' \<and>
        r' = r\<lparr>v_executions := AList.update x v' (v_executions r)\<rparr>)"
  by (simp add: apply_execution_transition_def rbind_def split: option.splits sum.splits) blast

lemma writable_row:
  assumes "apply_row T row r = Inr r'" and "sound_row row" and "writable r"
  shows "writable r'"
proof -
  let ?pl = "load_payload (ev_payload row)"
  have u: "usage_fits ?pl" using assms(2) by (simp add: sound_row_def)
  have old: "exec_fits v" if "map_of (v_executions r) x = Some v" for x v
    using assms(3) map_of_SomeD [OF that] by (force simp: writable_def)
  have x: "writable r''" if a: "apply_execution_transition T r et xid ?pl eid = Inr r''" for et xid eid r''
  proof -
    from execution_transition_cases [OF a] show ?thesis
    proof (elim disjE exE conjE)
      fix y v v' assume v: "map_of (v_executions r) y = Some v" "moved_execution T et ?pl eid v = Inr v'"
        "r'' = r\<lparr>v_executions := AList.update y v' (v_executions r)\<rparr>"
      then have "exec_fits v'" using moved_fits [OF v(2) u] old by blast
      then show ?thesis using assms(3) v(3) by (auto simp: writable_def dest!: in_update)
    qed (use assms(3) in simp)
  qed
  have s: "writable (apply_execution_spawned r xid iid rid eid)" for xid iid rid eid
    using assms(3) old by (auto simp: apply_execution_spawned_def writable_def exec_fits_def split: option.splits dest!: in_update)
  have i: "writable (apply_issue_created r iid ?pl eid)" for iid eid
    using assms(3) by (simp add: apply_issue_created_def writable_update split: option.splits)
  have t: "writable (apply_issue_transition T r et iid ?pl eid)" for et iid eid
    using assms(3) by (simp add: apply_issue_transition_def writable_update split: option.splits)
  have g: "writable (apply_containment_event r et xid ?pl eid)" for et xid eid
    using assms(3) by (simp add: apply_containment_event_def writable_update Let_def split: option.splits)
  have f: "writable (apply_run_finished r rid ?pl eid tm)" for rid eid tm
    using assms(3) by (simp add: apply_run_finished_def writable_update split: option.splits)
  have c: "writable r''" if "apply_run_started r rid ?pl eid tm = Inr r''" for rid eid tm r''
    using that assms(3) by (auto simp: writable_update apply_run_started_def rbind_eq_Inr split: option.splits)
  have n: "writable (r\<lparr>unknown_event_type_count := n\<rparr>)" for n using assms(3) by (simp add: writable_def)
  from apply_row_kinds [OF assms(1)] show ?thesis
    by (elim disjE exE) (use s i t g f n x c assms(3) in simp_all)
qed

lemma writable_rows: "rfold (apply_row T) rows r = Inr r' \<Longrightarrow> \<forall>row \<in> set rows. sound_row row \<Longrightarrow> writable r \<Longrightarrow> writable r'"
proof (induction rows arbitrary: r)
  case (Cons row rows)
  then show ?case using writable_row [of T row r] by (auto simp: rbind_eq_Inr)
qed simp

lemma writable_none: "writable no_views"
  by (simp add: writable_def no_views_def)

text \<open>The raw projection, and the one that is shown.\<close>

definition shown_views :: "dash_projection \<Rightarrow> dash_projection" where
  "shown_views r = r\<lparr>v_executions := seen pending (v_executions r)\<rparr>"

lemma shown_fields [simp]:
  "v_issues (shown_views r) = v_issues r" "v_runs (shown_views r) = v_runs r"
  "v_containments (shown_views r) = v_containments r" "v_executions (shown_views r) = seen pending (v_executions r)"
  by (simp_all add: shown_views_def)

lemma writable_shown: "writable r \<Longrightarrow> writable (shown_views r)"
  by (auto simp: writable_def o_def case_prod_unfold)

lemma reduce_rows: "rfold (apply_row T) rows no_views = Inr r \<Longrightarrow> reduce T rows = Inr (shown_views r)"
  by (simp add: reduce_def apply_ok_evidence_rows_def shown_views_def)

lemma fetch_scope: "fetch_ok g scope rows = filter scope (fetch_ok g (\<lambda>_. True) rows)"
  by (simp add: fetch_ok_def filter_sort conj_ac)

section \<open>Full publication\<close>

text \<open>A table after the views of a projection were written to it under a generation.\<close>

definition written :: "nat \<Rightarrow> ('k \<times> 'v) list \<Rightarrow> ((nat \<times> 'k) \<times> 'v) list \<Rightarrow> ((nat \<times> 'k) \<times> 'v) list" where
  "written g kvs t = fold (\<lambda>kv. AList.update (g, fst kv) (snd kv)) kvs t"

lemma map_of_written:
  "distinct (keys kvs) \<Longrightarrow> map_of (written g kvs t) (g', k) =
     (case map_of kvs k of Some v \<Rightarrow> if g' = g then Some v else map_of t (g', k) | None \<Rightarrow> map_of t (g', k))"
proof (induction kvs arbitrary: t)
  case (Cons kv kvs)
  have "map_of kvs (fst kv) = None" using Cons.prems by (auto simp: map_of_eq_None_iff)
  then show ?case using Cons by (auto simp: written_def update_conv' split: option.splits)
qed (simp add: written_def)

text \<open>The generations a table has rows of.\<close>

definition table_gens :: "((nat \<times> 'k) \<times> 'v) list \<Rightarrow> nat set" where
  "table_gens t = (fst \<circ> fst) ` set t"

lemma table_gens_update: "table_gens (AList.update (g, k) v t) \<subseteq> insert g (table_gens t)"
  by (auto simp: table_gens_def dest!: in_update)

lemma table_gens_written: "table_gens (written g kvs t) \<subseteq> insert g (table_gens t)"
proof (induction kvs arbitrary: t)
  case (Cons kv kvs)
  then show ?case using table_gens_update [of g "fst kv" "snd kv" t] unfolding written_def by simp blast
qed (auto simp: written_def)

lemma table_gens_filter: "table_gens (filter P t) \<subseteq> table_gens t"
  by (auto simp: table_gens_def)

lemma table_gens_fresh: "g \<notin> table_gens t \<Longrightarrow> map_of t (g, k) = None"
  by (force simp: table_gens_def map_of_eq_None_iff)

lemma write_issues: "rfold (write_issue_view g) kvs s = Inr (s\<lparr>ix_issues := written g kvs (ix_issues s)\<rparr>)"
  by (induction kvs arbitrary: s) (simp_all add: write_issue_view_def written_def)

lemma write_runs: "rfold (write_run_view g) kvs s = Inr (s\<lparr>ix_runs := written g (seen run_columns kvs) (ix_runs s)\<rparr>)"
  by (induction kvs arbitrary: s) (simp_all add: write_run_view_def written_def case_prod_unfold map_prod_def)

lemma write_containments:
  "rfold (write_containment_view g) kvs s = Inr (s\<lparr>ix_containments := written g kvs (ix_containments s)\<rparr>)"
  by (induction kvs arbitrary: s) (simp_all add: write_containment_view_def written_def)

lemma write_executions:
  "\<forall>xv \<in> set kvs. exec_fits (snd xv) \<Longrightarrow>
   rfold (write_execution_view g) kvs s = Inr (s\<lparr>ix_executions := written g kvs (ix_executions s)\<rparr>)"
  by (induction kvs arbitrary: s) (simp_all add: write_execution_view_def written_def exec_fits_def)

text \<open>The tables show a projection, as the view of the generation.\<close>

definition tables_show :: "nat \<Rightarrow> dash_projection \<Rightarrow> 'w index \<Rightarrow> bool" where
  "tables_show g r s \<longleftrightarrow> (\<forall>i. map_of (ix_issues s) (g, i) = map_of (v_issues r) i) \<and>
     (\<forall>x. map_of (ix_executions s) (g, x) = map_of (v_executions r) x) \<and>
     (\<forall>i. map_of (ix_runs s) (g, i) = map_option run_columns (map_of (v_runs r) i)) \<and>
     (\<forall>k. map_of (ix_containments s) (g, k) = map_of (v_containments r) k)"

definition view_gens :: "'w index \<Rightarrow> nat set" where
  "view_gens s = table_gens (ix_issues s) \<union> table_gens (ix_executions s) \<union> table_gens (ix_runs s) \<union> table_gens (ix_containments s)"

text \<open>Only the view tables differ.\<close>

definition views_only :: "'w index \<Rightarrow> 'w index \<Rightarrow> bool" where
  "views_only s s' \<longleftrightarrow> (\<exists>a b c d. s' = s\<lparr>ix_issues := a, ix_executions := b, ix_runs := c, ix_containments := d\<rparr>)"

lemma publish_shows:
  assumes "writable r" and "g \<notin> view_gens s"
  obtains s' where "publish g r s = Inr s'" and "views_only s s'" and "tables_show g r s'"
    and "view_gens s' \<subseteq> insert g (view_gens s)"
proof -
  let ?s' = "s\<lparr>ix_issues := written g (v_issues r) (ix_issues s), ix_executions := written g (v_executions r) (ix_executions s),
    ix_runs := written g (seen run_columns (v_runs r)) (ix_runs s),
    ix_containments := written g (v_containments r) (ix_containments s)\<rparr>"
  have f: "map_of (ix_issues s) (g, i) = None" "map_of (ix_executions s) (g, i) = None" "map_of (ix_runs s) (g, i) = None"
    "map_of (ix_containments s) (g, k) = None" for i k
    using assms(2) by (auto simp: view_gens_def intro: table_gens_fresh)
  have "publish g r s = Inr ?s'" using assms(1)
    by (simp add: publish_def write_issues write_runs write_containments write_executions writable_def)
  moreover have "views_only s ?s'" unfolding views_only_def by blast
  moreover have "tables_show g r ?s'" using assms(1) f
    by (simp add: tables_show_def writable_def map_of_written seen_lookup o_def case_prod_unfold split: option.splits)
  moreover have "view_gens ?s' \<subseteq> insert g (view_gens s)"
    using table_gens_written [of g "v_issues r" "ix_issues s"] table_gens_written [of g "v_executions r" "ix_executions s"]
      table_gens_written [of g "seen run_columns (v_runs r)" "ix_runs s"] table_gens_written [of g "v_containments r" "ix_containments s"]
    by (auto simp: view_gens_def)
  ultimately show thesis by (rule that)
qed

section \<open>Recomputing what changed\<close>

lemma rfold_put: "(\<And>i a. f i (put a) = Inr (put (h i a))) \<Longrightarrow> rfold f is (put a) = Inr (put (fold h is a))"
  by (induction "is" arbitrary: a) simp_all

lemma fold_pair: "fold (\<lambda>x (t, u). (h x t, k x u)) xs (t, u) = (fold h xs t, fold k xs u)"
  by (induction xs arbitrary: t u) simp_all

text \<open>Writing the views that are there, by identifier.\<close>

definition write_want :: "nat \<Rightarrow> ('k \<Rightarrow> 'v option) \<Rightarrow> 'k \<Rightarrow> ((nat \<times> 'k) \<times> 'v) list \<Rightarrow> ((nat \<times> 'k) \<times> 'v) list" where
  "write_want g want i t = (case want i of None \<Rightarrow> t | Some v \<Rightarrow> AList.update (g, i) v t)"

lemma write_want_lookup:
  "map_of (fold (write_want g want) is t) (g', i) =
     (if g' = g \<and> i \<in> set is \<and> want i \<noteq> None then want i else map_of t (g', i))"
  by (induction "is" arbitrary: t) (auto simp: write_want_def update_conv' split: option.splits)

lemma write_want_gens: "table_gens (fold (write_want g want) is t) \<subseteq> insert g (table_gens t)"
proof (induction "is" arbitrary: t)
  case (Cons i js)
  have "table_gens (write_want g want i t) \<subseteq> insert g (table_gens t)"
    using table_gens_update [of g i _ t] by (auto simp: write_want_def split: option.splits)
  then show ?case using Cons.IH [of "write_want g want i t"] by auto
qed auto

text \<open>Replacing what a table has of the pairs with a first component.\<close>

definition replace_first ::
  "nat \<Rightarrow> ('a \<Rightarrow> (('a \<times> 'b) \<times> 'v) list) \<Rightarrow> 'a \<Rightarrow> ((nat \<times> 'a \<times> 'b) \<times> 'v) list \<Rightarrow> ((nat \<times> 'a \<times> 'b) \<times> 'v) list" where
  "replace_first g rows x u = written g (filter (\<lambda>(k, v). fst k = x) (rows x)) (filter (\<lambda>((g', x', _), v). \<not> (g' = g \<and> x' = x)) u)"

lemma replace_first_lookup:
  assumes "\<And>x. distinct (keys (rows x))"
  shows "map_of (fold (replace_first g rows) xs u) (g', x, c) =
     (if g' = g \<and> x \<in> set xs then map_of (rows x) (x, c) else map_of u (g', x, c))"
proof (induction xs arbitrary: u)
  case (Cons y ys)
  have d: "distinct (keys (filter (\<lambda>(k, v). fst k = y) (rows y)))"
    using assms [of y] by (simp add: distinct_map_filter)
  have f: "map_of (filter (\<lambda>(k, v). fst k = y) kvs) (x, c) = (if x = y then map_of kvs (x, c) else None)" for kvs :: "(('a \<times> 'b) \<times> 'v) list"
    by (induction kvs) auto
  have h: "map_of (filter (\<lambda>((g', x', _), v). \<not> (g' = g \<and> x' = y)) u) (g', x, c) =
      (if g' = g \<and> x = y then None else map_of u (g', x, c))"
    by (induction u) auto
  have "map_of (replace_first g rows y u) (g', x, c) = (if g' = g \<and> x = y then map_of (rows y) (x, c) else map_of u (g', x, c))"
    unfolding replace_first_def map_of_written [OF d] f h by (auto split: option.splits)
  then show ?case using Cons.IH [of "replace_first g rows y u"] by auto
qed simp

lemma replace_first_gens: "table_gens (fold (replace_first g rows) xs u) \<subseteq> insert g (table_gens u)"
proof (induction xs arbitrary: u)
  case (Cons y ys)
  have "table_gens (replace_first g rows y u) \<subseteq> insert g (table_gens u)"
    unfolding replace_first_def using table_gens_written table_gens_filter by (rule order_trans [OF _ insert_mono])
  then show ?case using Cons.IH [of "replace_first g rows y u"] by auto
qed auto

text \<open>
  The projection \<open>r\<close> of all rows, and for every entity that of the rows naming it: recomputing any set of
  entities writes what \<open>r\<close> has of them.
\<close>

definition scoped_projections :: "tables \<Rightarrow> nat \<Rightarrow> evidence list \<Rightarrow> dash_projection \<Rightarrow> bool" where
  "scoped_projections T g rows r \<longleftrightarrow>
     (\<forall>i. \<exists>q. reduce T (fetch_ok g (\<lambda>e. ev_issue_id e = Some i) rows) = Inr q \<and> map_of (v_issues q) i = map_of (v_issues r) i) \<and>
     (\<forall>x. \<exists>q. reduce T (fetch_ok g (\<lambda>e. ev_execution_id e = Some x) rows) = Inr q \<and> writable q \<and>
        map_of (v_executions q) x = map_of (v_executions r) x \<and>
        (\<forall>c. map_of (v_containments q) (x, c) = map_of (v_containments r) (x, c))) \<and>
     (\<forall>i. \<exists>q. reduce T (fetch_ok g (\<lambda>e. ev_run_id e = Some i) rows) = Inr q \<and> map_of (v_runs q) i = map_of (v_runs r) i)"

lemma apply_issues:
  assumes "scoped_projections T g (ix_evidence s) r"
  shows "rfold (apply_issue T g) is s = Inr (s\<lparr>ix_issues := fold (write_want g (map_of (v_issues r))) is (ix_issues s)\<rparr>)"
proof -
  have "apply_issue T g i (s\<lparr>ix_issues := t\<rparr>) = Inr (s\<lparr>ix_issues := write_want g (map_of (v_issues r)) i t\<rparr>)" for i t
    using assms unfolding scoped_projections_def
    by (auto dest!: spec [of _ i] simp: apply_issue_def write_found_def write_issue_view_def write_want_def split: option.splits)
  from rfold_put [of "apply_issue T g" "\<lambda>t. s\<lparr>ix_issues := t\<rparr>", OF this, of "is" "ix_issues s"] show ?thesis by simp
qed

lemma apply_runs:
  assumes "scoped_projections T g (ix_evidence s) r"
  shows "rfold (apply_run T g) is s = Inr (s\<lparr>ix_runs := fold (write_want g (map_option run_columns \<circ> map_of (v_runs r))) is (ix_runs s)\<rparr>)"
proof -
  have "apply_run T g i (s\<lparr>ix_runs := t\<rparr>) = Inr (s\<lparr>ix_runs := write_want g (map_option run_columns \<circ> map_of (v_runs r)) i t\<rparr>)" for i t
  proof -
    obtain q where "reduce T (fetch_ok g (\<lambda>e. ev_run_id e = Some i) (ix_evidence s)) = Inr q" "map_of (v_runs q) i = map_of (v_runs r) i"
      using assms unfolding scoped_projections_def by blast
    then show ?thesis by (simp add: apply_run_def write_found_def write_run_view_def write_want_def split: option.splits)
  qed
  from rfold_put [of "apply_run T g" "\<lambda>t. s\<lparr>ix_runs := t\<rparr>", OF this, of "is" "ix_runs s"] show ?thesis by simp
qed

lemma apply_executions:
  assumes "scoped_projections T g (ix_evidence s) r"
  obtains rows where "rfold (apply_execution T g) xs s =
      Inr (s\<lparr>ix_executions := fold (write_want g (map_of (v_executions r))) xs (ix_executions s),
        ix_containments := fold (replace_first g rows) xs (ix_containments s)\<rparr>)"
    and "\<forall>x. distinct (keys (rows x))" and "\<forall>x c. map_of (rows x) (x, c) = map_of (v_containments r) (x, c)"
proof -
  have "\<forall>x. \<exists>q. reduce T (fetch_ok g (\<lambda>e. ev_execution_id e = Some x) (ix_evidence s)) = Inr q \<and> writable q \<and>
      map_of (v_executions q) x = map_of (v_executions r) x \<and>
      (\<forall>c. map_of (v_containments q) (x, c) = map_of (v_containments r) (x, c))"
    using assms unfolding scoped_projections_def by blast
  then obtain Q where Q: "\<And>x. reduce T (fetch_ok g (\<lambda>e. ev_execution_id e = Some x) (ix_evidence s)) = Inr (Q x)"
    "\<And>x. writable (Q x)" "\<And>x. map_of (v_executions (Q x)) x = map_of (v_executions r) x"
    "\<And>x c. map_of (v_containments (Q x)) (x, c) = map_of (v_containments r) (x, c)" by metis
  let ?put = "\<lambda>(t, u). s\<lparr>ix_executions := t, ix_containments := u\<rparr>" and ?rows = "\<lambda>x. v_containments (Q x)"
  have "apply_execution T g x (?put a) =
      Inr (?put (case a of (t, u) \<Rightarrow> (write_want g (map_of (v_executions r)) x t, replace_first g ?rows x u)))" for x a
  proof (cases a)
    case (Pair t u)
    have e: "exec_fits v" if "map_of (v_executions r) x = Some v" for v
    proof -
      have "(x, v) \<in> set (v_executions (Q x))" using that Q(3) [of x] by (intro map_of_SomeD) simp
      moreover have "\<forall>xv \<in> set (v_executions (Q x)). exec_fits (snd xv)" using Q(2) by (simp add: writable_def)
      ultimately show ?thesis by fastforce
    qed
    have w: "write_found (write_execution_view g) (v_executions (Q x)) x (?put a) =
        Inr (?put (write_want g (map_of (v_executions r)) x t, u))"
    proof (cases "map_of (v_executions r) x")
      case None
      then show ?thesis using Pair Q(3) [of x] by (simp add: write_found_def write_want_def)
    next
      case (Some v)
      then show ?thesis using Pair Q(3) [of x] e [OF Some]
        by (simp add: write_found_def write_execution_view_def write_want_def exec_fits_def)
    qed
    show ?thesis using w Pair Q(1) [of x]
      by (simp add: apply_execution_def write_containments replace_first_def)
  qed
  from rfold_put [of "apply_execution T g" ?put, OF this, of xs "(ix_executions s, ix_containments s)"]
  have "rfold (apply_execution T g) xs s =
      Inr (s\<lparr>ix_executions := fold (write_want g (map_of (v_executions r))) xs (ix_executions s),
        ix_containments := fold (replace_first g ?rows) xs (ix_containments s)\<rparr>)"
    by (simp add: fold_pair)
  moreover have "distinct (keys (?rows x))" for x using Q(2) by (simp add: writable_def)
  ultimately show thesis using that Q(4) by blast
qed

text \<open>Sound rows give the scoped projections.\<close>

lemma scoped_from_sound:
  assumes "rfold (apply_row T) (fetch_ok g (\<lambda>_. True) rows) no_views = Inr r"
    and "\<forall>row \<in> set (fetch_ok g (\<lambda>_. True) rows). sound_row row"
  shows "scoped_projections T g rows (shown_views r)"
proof -
  let ?all = "fetch_ok g (\<lambda>_. True) rows"
  have scoped: "\<exists>q. rfold (apply_row T) (filter P ?all) no_views = Inr q \<and> reduce T (fetch_ok g P rows) = Inr (shown_views q) \<and> writable q"
    for P
  proof -
    have "\<forall>row \<in> set (filter P ?all). tame row" using assms(2) by (simp add: sound_row_def)
    from apply_rows_total [OF this] obtain q where q: "rfold (apply_row T) (filter P ?all) no_views = Inr q" by blast
    moreover have "writable q" using writable_rows [OF q] assms(2) writable_none by simp
    ultimately show ?thesis using reduce_rows [OF q] fetch_scope [of g P rows] by simp
  qed
  have "\<exists>q. reduce T (fetch_ok g (\<lambda>e. ev_issue_id e = Some i) rows) = Inr q \<and>
      map_of (v_issues q) i = map_of (v_issues (shown_views r)) i" for i
  proof -
    obtain q where q: "rfold (apply_row T) (filter (\<lambda>e. ev_issue_id e = Some i) ?all) no_views = Inr q"
      "reduce T (fetch_ok g (\<lambda>e. ev_issue_id e = Some i) rows) = Inr (shown_views q)"
      using scoped by blast
    show ?thesis using issue_scope.scoped_same [OF assms(1) q(1) refl] q(2) by simp
  qed
  moreover have "\<exists>q. reduce T (fetch_ok g (\<lambda>e. ev_execution_id e = Some x) rows) = Inr q \<and> writable q \<and>
      map_of (v_executions q) x = map_of (v_executions (shown_views r)) x \<and>
      (\<forall>c. map_of (v_containments q) (x, c) = map_of (v_containments (shown_views r)) (x, c))" for x
  proof -
    obtain q where q: "rfold (apply_row T) (filter (\<lambda>e. ev_execution_id e = Some x) ?all) no_views = Inr q"
      "reduce T (fetch_ok g (\<lambda>e. ev_execution_id e = Some x) rows) = Inr (shown_views q)" "writable q"
      using scoped by blast
    have "map_of (v_executions r) x = map_of (v_executions q) x"
      by (rule execution_scope.scoped_same [OF assms(1) q(1) refl])
    moreover have "map_of (v_containments r) (x, c) = map_of (v_containments q) (x, c)" for c
      by (rule containment_scope.scoped_same [OF assms(1) q(1) refl])
    ultimately show ?thesis using q(2) writable_shown [OF q(3)] by (simp add: seen_lookup)
  qed
  moreover have "\<exists>q. reduce T (fetch_ok g (\<lambda>e. ev_run_id e = Some i) rows) = Inr q \<and>
      map_of (v_runs q) i = map_of (v_runs (shown_views r)) i" for i
  proof -
    obtain q where q: "rfold (apply_row T) (filter (\<lambda>e. ev_run_id e = Some i) ?all) no_views = Inr q"
      "reduce T (fetch_ok g (\<lambda>e. ev_run_id e = Some i) rows) = Inr (shown_views q)"
      using scoped by blast
    show ?thesis using run_scope.scoped_same [OF assms(1) q(1) refl] q(2) by simp
  qed
  ultimately show ?thesis unfolding scoped_projections_def by blast
qed

text \<open>A view that is there stays there.\<close>

lemma views_kept_row:
  assumes "apply_row T row r = Inr r'"
  shows "map_of (v_issues r') i = None \<Longrightarrow> map_of (v_issues r) i = None"
    and "map_of (v_executions r') x = None \<Longrightarrow> map_of (v_executions r) x = None"
    and "map_of (v_runs r') j = None \<Longrightarrow> map_of (v_runs r) j = None"
  using assms by (auto simp: row_defs rbind_eq_Inr update_conv' split: option.splits if_splits)

lemma views_kept:
  assumes "rfold (apply_row T) rows r = Inr r'"
  shows "(map_of (v_issues r') i = None \<longrightarrow> map_of (v_issues r) i = None) \<and>
    (map_of (v_executions r') x = None \<longrightarrow> map_of (v_executions r) x = None) \<and>
    (map_of (v_runs r') j = None \<longrightarrow> map_of (v_runs r) j = None)"
  using assms
proof (induction rows arbitrary: r)
  case (Cons row rows)
  then obtain r1 where r1: "apply_row T row r = Inr r1" "rfold (apply_row T) rows r1 = Inr r'" by (auto simp: rbind_eq_Inr)
  show ?case using Cons.IH [OF r1(2)] views_kept_row [OF r1(1)] by blast
qed simp

text \<open>
  The tables show the projection of the rows before; new rows came, and what was changed names them all:
  after the recomputation the tables show the projection of the rows now.
\<close>

lemma recomputed:
  assumes "tables_show g (shown_views r) s" and "rfold (apply_row T) new r = Inr r'"
    and "scoped_projections T g (ix_evidence s) (shown_views r')"
    and "\<And>row. row \<in> set new \<Longrightarrow> set (list_of (ev_issue_id row)) \<subseteq> set (ch_issues c) \<and>
      set (list_of (ev_execution_id row)) \<subseteq> set (ch_executions c) \<and> set (list_of (ev_run_id row)) \<subseteq> set (ch_runs c)"
  obtains s' where "apply_changed_entities_locked T g c s = Inr s'" and "views_only s s'"
    and "tables_show g (shown_views r') s'" and "view_gens s' \<subseteq> insert g (view_gens s)"
proof -
  let ?R = "shown_views r'"
  let ?s1 = "s\<lparr>ix_issues := fold (write_want g (map_of (v_issues ?R))) (remdups (ch_issues c)) (ix_issues s)\<rparr>"
  have one: "rfold (apply_issue T g) (remdups (ch_issues c)) s = Inr ?s1" by (rule apply_issues [OF assms(3)])
  have sc: "scoped_projections T g (ix_evidence ?s1) ?R" using assms(3) by simp
  obtain rows where two: "rfold (apply_execution T g) (remdups (ch_executions c)) ?s1 =
      Inr (?s1\<lparr>ix_executions := fold (write_want g (map_of (v_executions ?R))) (remdups (ch_executions c)) (ix_executions ?s1),
        ix_containments := fold (replace_first g rows) (remdups (ch_executions c)) (ix_containments ?s1)\<rparr>)"
    and rows: "\<forall>x. distinct (keys (rows x))" "\<forall>x c. map_of (rows x) (x, c) = map_of (v_containments ?R) (x, c)"
    by (rule apply_executions [OF sc, where xs = "remdups (ch_executions c)"])
  let ?s2 = "?s1\<lparr>ix_executions := fold (write_want g (map_of (v_executions ?R))) (remdups (ch_executions c)) (ix_executions ?s1),
        ix_containments := fold (replace_first g rows) (remdups (ch_executions c)) (ix_containments ?s1)\<rparr>"
  have sc2: "scoped_projections T g (ix_evidence ?s2) ?R" using assms(3) by simp
  let ?s3 = "?s2\<lparr>ix_runs := fold (write_want g (map_option run_columns \<circ> map_of (v_runs ?R))) (remdups (ch_runs c)) (ix_runs ?s2)\<rparr>"
  have "rfold (apply_run T g) (remdups (ch_runs c)) ?s2 = Inr ?s3" by (rule apply_runs [OF sc2])
  then have all: "apply_changed_entities_locked T g c s = Inr ?s3"
    unfolding apply_changed_entities_locked_def one rbind_Inr two .
  have i: "map_of (v_issues r') i = map_of (v_issues r) i" if "i \<notin> set (ch_issues c)" for i
    by (rule issue_scope.unnamed_rows [OF assms(2)]) (use that assms(4) in \<open>force simp: list_of_def\<close>)
  have x: "map_of (v_executions r') x = map_of (v_executions r) x" if "x \<notin> set (ch_executions c)" for x
    by (rule execution_scope.unnamed_rows [OF assms(2)]) (use that assms(4) in \<open>force simp: list_of_def\<close>)
  have k: "map_of (v_containments r') (x, b) = map_of (v_containments r) (x, b)" if "x \<notin> set (ch_executions c)" for x b
    by (rule containment_scope.unnamed_rows [OF assms(2)]) (use that assms(4) in \<open>force simp: list_of_def\<close>)
  have j: "map_of (v_runs r') i = map_of (v_runs r) i" if "i \<notin> set (ch_runs c)" for i
    by (rule run_scope.unnamed_rows [OF assms(2)]) (use that assms(4) in \<open>force simp: list_of_def\<close>)
  note kept = views_kept [OF assms(2)]
  have "map_of (ix_issues ?s3) (g, i) = map_of (v_issues ?R) i" for i
    using assms(1) i [of i] kept [of i] by (auto simp: write_want_lookup tables_show_def)
  moreover have "map_of (ix_executions ?s3) (g, x) = map_of (v_executions ?R) x" for x
    using assms(1) x [of x] kept [of _ x] by (auto simp: write_want_lookup tables_show_def seen_lookup)
  moreover have "map_of (ix_runs ?s3) (g, i) = map_option run_columns (map_of (v_runs ?R) i)" for i
    using assms(1) j [of i] kept [of _ _ i] by (auto simp: write_want_lookup tables_show_def)
  moreover have "map_of (ix_containments ?s3) (g, x, b) = map_of (v_containments ?R) (x, b)" for x b
    using assms(1) k [of x b] rows by (auto simp: replace_first_lookup tables_show_def)
  ultimately have "tables_show g ?R ?s3" unfolding tables_show_def by auto
  moreover have "views_only s ?s3"
  proof -
    have "?s3 = s\<lparr>ix_issues := ix_issues ?s3, ix_executions := ix_executions ?s3, ix_runs := ix_runs ?s3, ix_containments := ix_containments ?s3\<rparr>"
      by simp
    then show ?thesis unfolding views_only_def by blast
  qed
  moreover have "view_gens ?s3 \<subseteq> insert g (view_gens s)"
    using write_want_gens [of g "map_of (v_issues ?R)" "remdups (ch_issues c)" "ix_issues s"]
      write_want_gens [of g "map_of (v_executions ?R)" "remdups (ch_executions c)" "ix_executions s"]
      write_want_gens [of g "map_option run_columns \<circ> map_of (v_runs ?R)" "remdups (ch_runs c)" "ix_runs s"]
      replace_first_gens [of g rows "remdups (ch_executions c)" "ix_containments s"]
    by (simp add: view_gens_def) blast
  ultimately show thesis using all that by blast
qed

end
