(* ===== verification/IndexProps.thy ===== *)
theory IndexProps
  imports IndexViews
begin

text \<open>
  The index of a log that the runtime writes: whatever the observer sees of it and whenever, the tables of
  the current generation show what the strict replay of a prefix of the log shows.
\<close>

section \<open>Logs that grow\<close>

definition log_extends :: "event list \<Rightarrow> event list \<Rightarrow> bool" where
  "log_extends es es' \<longleftrightarrow> (\<exists>t. es' = es @ t)"

lemma log_extends_refl [simp]: "log_extends es es"
  by (simp add: log_extends_def)

lemma log_extends_trans: "log_extends a b \<Longrightarrow> log_extends b c \<Longrightarrow> log_extends a c"
  by (auto simp: log_extends_def)

lemma log_extends_length: "log_extends es es' \<Longrightarrow> length es \<le> length es'"
  by (auto simp: log_extends_def)

lemma log_extends_take: "log_extends es es' \<Longrightarrow> k \<le> length es \<Longrightarrow> take k es' = take k es"
  by (auto simp: log_extends_def)

lemma offset_extends: "log_extends es es' \<Longrightarrow> i \<le> length es \<Longrightarrow> offset_at es' i = offset_at es i"
  by (simp add: offset_at_def log_extends_take)

lemma row_extends:
  assumes "log_extends es es'" and "i < length es"
  shows "row_at sha g lineage gen es' i = row_at sha g lineage gen es i"
proof -
  have "es' ! i = es ! i" using assms by (auto simp: log_extends_def nth_append)
  then show ?thesis using offset_extends [OF assms(1), of i] assms(2) by (simp add: row_at_def view_at_def)
qed

lemma held_extends:
  assumes "log_extends es es'" and "held sha es g lineage gen k rows"
  shows "held sha es' g lineage gen k rows"
proof -
  have k: "k \<le> length es" using assms(2) by (simp add: held_def)
  have m: "map (row_at sha g lineage gen es') [0..<k] = map (row_at sha g lineage gen es) [0..<k]"
    using row_extends [OF assms(1)] k by simp
  have "k \<le> length es'" using k log_extends_length [OF assms(1)] by simp
  then show ?thesis using assms(2) unfolding held_def m offset_extends [OF assms(1) k] by blast
qed

text \<open>A log the runtime wrote, with numbers the index can store.\<close>

definition good_log :: "tables \<Rightarrow> event list \<Rightarrow> bool" where
  "good_log T es \<longleftrightarrow> (\<forall>e \<in> set es. storable e \<and> sound_row (row_of_event (norm_event e))) \<and> sorted (map event_id es) \<and>
     is_ok (rebuild T (map norm_event es) empty_projection)"

lemma good_prefix: "log_extends es es' \<Longrightarrow> good_log T es' \<Longrightarrow> good_log T es"
  by (auto simp: log_extends_def good_log_def sorted_append rebuild_append is_ok_iff rbind_eq_Inr)

section \<open>The observer's page of a log\<close>

text \<open>
  A file the observer opens while the log grows from \<open>es\<close> to \<open>es'\<close>: every look at it shows whole lines and
  a torn tail, and nothing is taken back while it is open. Or it is not there.
\<close>

definition log_file :: "event list \<Rightarrow> event list \<Rightarrow> opened \<Rightarrow> bool" where
  "log_file es es' file \<longleftrightarrow> (case file of LogOpened dev ino reads \<Rightarrow> appended_to reads \<and>
       (\<forall>j. \<exists>ds tail. log_extends es ds \<and> log_extends ds es' \<and> LF \<notin> set tail \<and> reads j = log_bytes ds @ tail)
     | _ \<Rightarrow> True)"

definition blank_page :: "events_page \<Rightarrow> bool" where
  "blank_page page \<longleftrightarrow> page_records page = [] \<and> next_cursor page = None \<and> \<not> has_more page \<and>
     availability page \<notin> {''AVAILABLE'', ''EMPTY''}"

lemma blank_read: "empty_events_page avail after = Inr page \<Longrightarrow> avail \<notin> {''AVAILABLE'', ''EMPTY''} \<Longrightarrow> blank_page page"
  by (auto simp: empty_events_page_def blank_page_def rbind_eq_Inr split: option.splits)

lemma page_over_log:
  assumes "log_file es es' file" and "read_events_page sha file after limit = Inr page" and "good_log T es'"
    and "case after of None \<Rightarrow> i = 0 | Some c \<Rightarrow> i \<le> length es \<and> c = encode_cursor (offset_at es i) lineage gen"
  shows "blank_page page \<or> (\<exists>ds m. log_extends es ds \<and> log_extends ds es' \<and>
    (after \<noteq> None \<longrightarrow> content_lineage page = lineage \<and> page_generation page = gen) \<and>
    page_of_log sha (content_lineage page) (page_generation page) ds i m (page_records page, next_cursor page, has_more page))"
proof (cases "file")
  case (LogOpened dev ino reads)
  have grows: "appended_to reads" and look: "\<forall>j. \<exists>ds tail. log_extends es ds \<and> log_extends ds es' \<and> LF \<notin> set tail \<and> reads j = log_bytes ds @ tail"
    using assms(1) LogOpened by (simp_all add: log_file_def)
  obtain j where p: "page_as_of sha (reads j) after limit page"
    using read_as_of [OF grows assms(2) [unfolded LogOpened]] by blast
  obtain ds tail where ds: "log_extends es ds" "log_extends ds es'" "LF \<notin> set tail" "reads j = log_bytes ds @ tail"
    using look by blast
  have fits: "\<forall>e \<in> set ds. line_fits e" using good_prefix [OF ds(2) assms(3)] by (simp add: good_log_def storable_def)
  obtain off where off: "case after of None \<Rightarrow> off = 0 | Some text \<Rightarrow> (\<exists>c. decode_cursor text = Inr c \<and> off = cur_offset c \<and>
        same_text (cur_lineage c) (content_lineage page) \<and> same_number (fst (cur_generation c)) (fst (page_generation page)) \<and>
        same_number (snd (cur_generation c)) (snd (page_generation page)))"
    and tk: "take_records sha (content_lineage page) (page_generation page) limit (ref_records off (drop off (log_bytes ds @ tail))) =
      Inr (page_records page, next_cursor page, has_more page)"
    using p unfolding page_as_of_def ds(4) by blast
  have at: "off = offset_at ds i \<and> i \<le> length ds \<and> (after \<noteq> None \<longrightarrow> content_lineage page = lineage \<and> page_generation page = gen)"
  proof (cases after)
    case None
    then show ?thesis using off assms(4) by (simp add: offset_at_def log_bytes_def)
  next
    case (Some c)
    then have i: "i \<le> length es" "c = encode_cursor (offset_at es i) lineage gen" using assms(4) by simp_all
    have "off = offset_at es i \<and> content_lineage page = lineage \<and> page_generation page = gen"
      using off Some unfolding i(2)
      by (auto simp: decode_encode json_cursor_def same_text_def same_number_def null_or_def int_value_def prod_eq_iff
          split: option.splits)
    then show ?thesis using i(1) offset_extends [OF ds(1) i(1)] log_extends_length [OF ds(1)] by simp
  qed
  have "offset_at ds i + length (log_bytes (drop i ds)) = offset_at ds (length ds)"
    unfolding offset_at_def length_append [symmetric] log_bytes_append [symmetric] by simp
  moreover have d: "\<forall>e \<in> set (drop i ds). line_fits e" using fits by (auto dest: in_set_dropD)
  ultimately have "ref_records off (drop off (log_bytes ds @ tail)) =
      line_records (offset_at ds i) (drop i ds) @ tail_records (offset_at ds (length ds)) tail"
    using at ref_records_log [OF d ds(3), of "offset_at ds i"] by (simp only: drop_offset)
  then obtain m where "page_of_log sha (content_lineage page) (page_generation page) ds i m (page_records page, next_cursor page, has_more page)"
    using take_records_log [OF fits, of i sha "content_lineage page" "page_generation page" limit tail] at tk by auto
  then show ?thesis using ds(1,2) at by blast
qed (use assms(2) in \<open>auto simp: read_events_page_def intro!: blank_read\<close>)

section \<open>The invariant\<close>

text \<open>
  A generation holds the first \<open>k\<close> events of the log, its position is at one of them or their end, and the
  tables show their projection.
\<close>

definition generation_holds ::
  "(string \<Rightarrow> string) \<Rightarrow> tables \<Rightarrow> event list \<Rightarrow> nat \<Rightarrow> string option \<Rightarrow> nat \<Rightarrow> 'w index \<Rightarrow> bool" where
  "generation_holds sha T es g cur k s \<longleftrightarrow> (\<exists>lineage gen r.
     held sha es g lineage gen k (ix_evidence s) \<and>
     (case cur of None \<Rightarrow> gen_rows g (ix_evidence s) = [] | Some c \<Rightarrow> \<exists>j \<le> k. c = encode_cursor (offset_at es j) lineage gen) \<and>
     rfold (apply_row T) (map (row_of_event \<circ> norm_event) (take k es)) no_views = Inr r \<and> tables_show g (shown_views r) s)"

text \<open>Every generation there is a row of was opened.\<close>

definition numbered_below :: "'w index \<Rightarrow> bool" where
  "numbered_below s \<longleftrightarrow> (\<forall>g \<in> ev_generation ` set (ix_evidence s) \<union> view_gens s. g < ix_next_generation s)"

definition position_ok :: "(string \<Rightarrow> string) \<Rightarrow> tables \<Rightarrow> event list \<Rightarrow> position \<Rightarrow> 'w index \<Rightarrow> bool" where
  "position_ok sha T es pos s \<longleftrightarrow> (case pos of (gid, cur, _) \<Rightarrow> (case gid of None \<Rightarrow> cur = None
     | Some g \<Rightarrow> g < ix_next_generation s \<and> (\<exists>k. generation_holds sha T es g cur k s)))"

definition checkpoint_position :: "checkpoint_row option \<Rightarrow> position" where
  "checkpoint_position ck = (case ck of None \<Rightarrow> (None, None, None) | Some c \<Rightarrow> (Some (ck_generation c), ck_cursor c, ck_hash c))"

definition index_ok :: "(string \<Rightarrow> string) \<Rightarrow> tables \<Rightarrow> event list \<Rightarrow> 'w index \<Rightarrow> bool" where
  "index_ok sha T es s \<longleftrightarrow> numbered_below s \<and> position_ok sha T es (checkpoint_position (ix_checkpoint s)) s"

lemma generation_extends:
  assumes "log_extends es es'" and "generation_holds sha T es g cur k s"
  shows "generation_holds sha T es' g cur k s"
proof -
  obtain lineage gen r where h: "held sha es g lineage gen k (ix_evidence s)"
    "case cur of None \<Rightarrow> gen_rows g (ix_evidence s) = [] | Some c \<Rightarrow> \<exists>j \<le> k. c = encode_cursor (offset_at es j) lineage gen"
    "rfold (apply_row T) (map (row_of_event \<circ> norm_event) (take k es)) no_views = Inr r" "tables_show g (shown_views r) s"
    using assms(2) by (auto simp: generation_holds_def)
  have k: "k \<le> length es" using h(1) by (simp add: held_def)
  have "case cur of None \<Rightarrow> gen_rows g (ix_evidence s) = [] | Some c \<Rightarrow> \<exists>j \<le> k. c = encode_cursor (offset_at es' j) lineage gen"
  proof (cases cur)
    case (Some c)
    then obtain j where "j \<le> k" "c = encode_cursor (offset_at es j) lineage gen" using h(2) by auto
    then show ?thesis using Some offset_extends [OF assms(1), of j] k by auto
  qed (use h(2) in simp)
  then show ?thesis unfolding generation_holds_def
    using held_extends [OF assms(1) h(1)] h(3,4) unfolding log_extends_take [OF assms(1) k]
    by (intro exI [of _ lineage] exI [of _ gen] exI [of _ r] conjI)
qed

lemma position_extends: "log_extends es es' \<Longrightarrow> position_ok sha T es pos s \<Longrightarrow> position_ok sha T es' pos s"
  by (auto simp: position_ok_def dest: generation_extends split: option.splits prod.splits)

lemma index_extends: "log_extends es es' \<Longrightarrow> index_ok sha T es s \<Longrightarrow> index_ok sha T es' s"
  by (simp add: index_ok_def position_extends)

text \<open>The fields the invariant looks at.\<close>

definition same_index :: "'w index \<Rightarrow> 'w index \<Rightarrow> bool" where
  "same_index s s' \<longleftrightarrow> ix_evidence s' = ix_evidence s \<and> ix_issues s' = ix_issues s \<and> ix_executions s' = ix_executions s \<and>
     ix_runs s' = ix_runs s \<and> ix_containments s' = ix_containments s \<and> ix_next_generation s' = ix_next_generation s"

lemma same_generation: "same_index s s' \<Longrightarrow> generation_holds sha T es g cur k s' = generation_holds sha T es g cur k s"
  by (simp add: generation_holds_def tables_show_def same_index_def cong: option.case_cong)

lemma same_position: "same_index s s' \<Longrightarrow> position_ok sha T es pos s' = position_ok sha T es pos s"
  using same_generation [of s s' sha T es] by (simp add: position_ok_def same_index_def split: option.splits prod.splits)

lemma same_numbered: "same_index s s' \<Longrightarrow> numbered_below s' = numbered_below s"
  by (simp add: numbered_below_def view_gens_def same_index_def)

lemma same_ok: "same_index s s' \<Longrightarrow> ix_checkpoint s' = ix_checkpoint s \<Longrightarrow> index_ok sha T es s' = index_ok sha T es s"
  by (simp add: index_ok_def same_position same_numbered)

section \<open>Opening a generation\<close>

lemma open_fresh:
  assumes "open_new_generation page s = Inr (g, s')" and "numbered_below s"
  shows "g < ix_next_generation s'" and "numbered_below s'" and "ix_world s' = ix_world s" and "g \<notin> view_gens s'"
    and "generation_holds sha T es g None 0 s'"
proof -
  let ?file = "\<lparr>gn_id = g, gn_number = next_number (ix_generations s), gn_lineage = content_lineage page, gn_file = page_generation page\<rparr>"
  have s': "g = ix_next_generation s" "s' = s\<lparr>ix_generations := ix_generations s @ [?file], ix_next_generation := Suc g\<rparr>"
    using assms(1) by (auto simp: open_new_generation_def Let_def split: if_splits)
  have fresh: "g \<notin> ev_generation ` set (ix_evidence s) \<union> view_gens s"
    using assms(2) less_irrefl unfolding numbered_below_def s'(1) by blast
  have v: "view_gens s' = view_gens s" using s'(2) by (simp add: view_gens_def)
  show "g < ix_next_generation s'" "ix_world s' = ix_world s" using s' by simp_all
  have "\<forall>g' \<in> ev_generation ` set (ix_evidence s) \<union> view_gens s. g' < Suc (ix_next_generation s)"
    using assms(2) less_SucI unfolding numbered_below_def by blast
  moreover have "ix_evidence s' = ix_evidence s" "ix_next_generation s' = Suc (ix_next_generation s)" using s' by simp_all
  ultimately show "numbered_below s'" unfolding numbered_below_def v by simp
  show n: "g \<notin> view_gens s'" using fresh v by simp
  have e: "gen_rows g (ix_evidence s') = []" using fresh s'(2) by (auto simp: gen_rows_def filter_empty_conv)
  have "tables_show g (shown_views no_views) s'" using n
    by (simp add: tables_show_def no_views_def view_gens_def table_gens_fresh)
  then show "generation_holds sha T es g None 0 s'" using e
    unfolding generation_holds_def by (intro exI [of _ None] exI [of _ "(None, None)"] exI [of _ no_views]) (simp add: held_def)
qed

section \<open>Storing a page\<close>

lemma evidence_only_same:
  "evidence_only s s' \<Longrightarrow> view_gens s' = view_gens s \<and> ix_next_generation s' = ix_next_generation s \<and> ix_world s' = ix_world s \<and>
     tables_show g r s' = tables_show g r s"
  by (auto simp: evidence_only_def view_gens_def tables_show_def)

lemma views_only_same:
  "views_only s s' \<Longrightarrow> ix_evidence s' = ix_evidence s \<and> ix_next_generation s' = ix_next_generation s \<and> ix_world s' = ix_world s"
  by (auto simp: views_only_def)

lemma finished_page:
  "same_index s (prune_changes (set_checkpoint g cur hsh halted page s))"
  "ix_world (prune_changes (set_checkpoint g cur hsh halted page s)) = ix_world s"
  "ix_checkpoint (prune_changes (set_checkpoint g cur hsh halted page s)) = Some \<lparr>ck_generation = g, ck_cursor = cur, ck_hash = hsh,
     ck_halted = halted, ck_reduced = reduced_confidence page, ck_availability = availability page\<rparr>"
  by (simp_all add: same_index_def prune_changes_def set_checkpoint_def Let_def)

lemma in_segment:
  assumes "row \<in> set (map f (drop k (take n xs)))" and "n \<le> length xs"
  shows "\<exists>j. k \<le> j \<and> j < n \<and> row = f (xs ! j)"
proof -
  obtain x where x: "x \<in> set (drop k (take n xs))" "row = f x" using assms(1) by auto
  then obtain i where "i < length (drop k (take n xs))" "x = drop k (take n xs) ! i" by (auto simp: in_set_conv_nth)
  then show ?thesis using x(2) assms(2) by (intro exI [of _ "k + i"]) auto
qed

text \<open>The evidence and the tables after the records of a page over the log were stored.\<close>

lemma records_stored:
  assumes "good_log T ds" and "held sha ds g lineage gen k (ix_evidence s)" and "i \<le> k"
    and "rfold (apply_row T) (map (row_of_event \<circ> norm_event) (take k ds)) no_views = Inr r" and "tables_show g (shown_views r) s"
    and "page_of_log sha lineage gen ds i m (vs, nxt, goes_on)" and "numbered_below s" and "g < ix_next_generation s"
  obtains c s2 s3 r' where "upsert_records repo g vs s = Inr (c, s2)" and "\<not> ch_unsafe c"
    and "apply_changed_entities_locked T g c s2 = Inr s3"
    and "held sha ds g lineage gen (max k m) (ix_evidence s3)"
    and "rfold (apply_row T) (map (row_of_event \<circ> norm_event) (take (max k m) ds)) no_views = Inr r'"
    and "tables_show g (shown_views r') s3" and "numbered_below s3"
    and "ix_world s3 = ix_world s" and "ix_next_generation s3 = ix_next_generation s"
proof -
  let ?k = "max k m" and ?row = "row_of_event \<circ> norm_event"
  have st: "\<forall>e \<in> set ds. storable e" and so: "\<forall>e \<in> set ds. sound_row (?row e)" and sorted: "sorted (map event_id ds)"
    using assms(1) by (simp_all add: good_log_def)
  obtain s2 c where u: "upsert_records repo g vs s = Inr (c, s2)" "evidence_only s s2"
    "held sha ds g lineage gen ?k (ix_evidence s2)" "\<not> ch_unsafe c"
    "\<forall>j. k \<le> j \<longrightarrow> j < m \<longrightarrow> names_row c (row_at sha g lineage gen ds j)"
    using upsert_page [OF st assms(2,3,6)] by blast
  have k: "k \<le> length ds" "?k \<le> length ds" using assms(2) u(3) by (simp_all add: held_def)
  let ?new = "map ?row (drop k (take ?k ds))"
  have split: "map ?row (take ?k ds) = map ?row (take k ds) @ ?new"
    using append_take_drop_id [of k "take ?k ds"] by (simp flip: map_append add: min_def)
  have "\<forall>row \<in> set (map ?row (take ?k ds)). sound_row row" using so by (auto dest: in_set_takeD)
  then have tame: "\<forall>row \<in> set (map ?row (take ?k ds)). tame row" unfolding sound_row_def by blast
  obtain r' where r': "rfold (apply_row T) (map ?row (take ?k ds)) no_views = Inr r'" using apply_rows_total [OF tame] by blast
  then have new: "rfold (apply_row T) ?new r = Inr r'" using assms(4) unfolding split by (simp add: rfold_append)
  have f: "map evidence_row.truncate (fetch_ok g (\<lambda>_. True) (ix_evidence s2)) = map ?row (take ?k ds)"
    by (rule fetch_held [OF u(3) sorted])
  have all: "rfold (apply_row T) (fetch_ok g (\<lambda>_. True) (ix_evidence s2)) no_views = Inr r'"
    using r' rows_truncate [of T "fetch_ok g (\<lambda>_. True) (ix_evidence s2)" no_views] unfolding f by simp
  have "sound_row row" if "row \<in> set (fetch_ok g (\<lambda>_. True) (ix_evidence s2))" for row
  proof -
    have "evidence_row.truncate row \<in> set (map ?row (take ?k ds))" unfolding f [symmetric] using that by simp
    then obtain e where e: "e \<in> set ds" "evidence_row.truncate row = ?row e" by (auto dest: in_set_takeD)
    then have "sound_row (evidence_row.truncate row)" unfolding e(2) using so by blast
    then show ?thesis by simp
  qed
  then have sc: "scoped_projections T g (ix_evidence s2) (shown_views r')" using scoped_from_sound [OF all] by blast
  have names: "set (list_of (ev_issue_id row)) \<subseteq> set (ch_issues c) \<and> set (list_of (ev_execution_id row)) \<subseteq> set (ch_executions c) \<and>
      set (list_of (ev_run_id row)) \<subseteq> set (ch_runs c)" if row: "row \<in> set ?new" for row
  proof -
    obtain j where j: "k \<le> j" "j < ?k" "row = ?row (ds ! j)" using in_segment [OF row k(2)] by blast
    then have n: "names_row c (row_at sha g lineage gen ds j)" using u(5) by simp
    have "row = evidence_row.truncate (row_at sha g lineage gen ds j)" using j(3) by (simp add: row_truncated)
    then show ?thesis using n by (simp add: names_row_def truncate_fields)
  qed
  have t: "tables_show g (shown_views r) s2" using assms(5) evidence_only_same [OF u(2)] by blast
  obtain s3 where s3: "apply_changed_entities_locked T g c s2 = Inr s3" "views_only s2 s3" "tables_show g (shown_views r') s3"
    "view_gens s3 \<subseteq> insert g (view_gens s2)"
    by (rule recomputed [OF t new sc names])
  have "ev_generation ` set (ix_evidence s3) \<union> view_gens s3 \<subseteq> insert g (ev_generation ` set (ix_evidence s) \<union> view_gens s)"
    using upsert_generations [OF u(1)] s3(4) views_only_same [OF s3(2)] evidence_only_same [OF u(2)] by auto
  then have "numbered_below s3"
    using assms(7,8) views_only_same [OF s3(2)] evidence_only_same [OF u(2)] unfolding numbered_below_def by auto
  then show thesis
    using that u(1,3,4) s3(1,3) r' views_only_same [OF s3(2)] evidence_only_same [OF u(2)] by (metis (no_types, lifting))
qed

text \<open>A page of the log is stored: what is true of the position it leaves.\<close>

definition page_stored ::
  "(string \<Rightarrow> string) \<Rightarrow> tables \<Rightarrow> event list \<Rightarrow> event list \<Rightarrow> events_page \<Rightarrow> 'w index \<Rightarrow> (position \<times> bool) \<times> 'w index \<Rightarrow> bool" where
  "page_stored sha T es es' page s result \<longleftrightarrow> (case result of ((pos', halted), s') \<Rightarrow>
     index_ok sha T es' s' \<and> checkpoint_position (ix_checkpoint s') = pos' \<and> ix_world s' = ix_world s \<and>
     (has_more page \<longrightarrow> fst (snd pos') = next_cursor page) \<and> map_option ck_availability (ix_checkpoint s') = Some (availability page) \<and>
     (\<not> has_more page \<and> \<not> halted \<and> availability page \<in> {''AVAILABLE'', ''EMPTY''} \<longrightarrow>
       (\<exists>g k. fst pos' = Some g \<and> length es \<le> k \<and> generation_holds sha T es' g (fst (snd pos')) k s')))"

lemma page_finished:
  assumes "generation_holds sha T ds g cur' k s3" and "numbered_below s3" and "g < ix_next_generation s3"
    and "log_extends ds es'" and "ix_world s3 = ix_world s" and "has_more page \<longrightarrow> cur' = next_cursor page"
    and "\<not> has_more page \<and> \<not> halted \<and> availability page \<in> {''AVAILABLE'', ''EMPTY''} \<longrightarrow> length es \<le> k"
  shows "page_stored sha T es es' page s (((Some g, cur', hsh'), halted), prune_changes (set_checkpoint g cur' hsh' halted page s3))"
proof -
  let ?s' = "prune_changes (set_checkpoint g cur' hsh' halted page s3)"
  have same: "same_index s3 ?s'" by (rule finished_page(1))
  have h: "generation_holds sha T es' g cur' k ?s'"
    using generation_extends [OF assms(4,1)] same_generation [OF same] by blast
  have n: "numbered_below ?s'" "g < ix_next_generation ?s'"
    using assms(2,3) same_numbered [OF same] same by (simp_all add: same_index_def)
  have c: "checkpoint_position (ix_checkpoint ?s') = (Some g, cur', hsh')"
    by (simp add: checkpoint_position_def finished_page(3))
  have "index_ok sha T es' ?s'" unfolding index_ok_def c using n h by (auto simp: position_ok_def)
  then show ?thesis using h c assms(5-7) by (auto simp: page_stored_def finished_page(2,3))
qed

text \<open>Where the index goes on after a page.\<close>

definition position_after :: "events_page \<Rightarrow> string option \<Rightarrow> string option" where
  "position_after page cur = (if next_cursor page \<noteq> None then next_cursor page
     else if page_records page \<noteq> [] then Some (rec_cursor (last (page_records page))) else cur)"

lemma position_after_page:
  assumes "page_of_log sha lineage gen ds i m (page_records page, next_cursor page, has_more page)"
  shows "(\<exists>j \<le> m. position_after page cur = Some (encode_cursor (offset_at ds j) lineage gen)) \<or>
    (page_records page = [] \<and> position_after page cur = cur)"
    and "\<not> has_more page \<Longrightarrow> m = length ds"
proof -
  have "rec_cursor (last (map (view_at sha lineage gen ds) [i..<m])) = encode_cursor (offset_at ds (m - 1)) lineage gen"
    if "i < m" using that by (simp add: last_map)
  then show "(\<exists>j \<le> m. position_after page cur = Some (encode_cursor (offset_at ds j) lineage gen)) \<or>
    (page_records page = [] \<and> position_after page cur = cur)"
    using assms by (cases "i < m") (auto simp: page_of_log_def position_after_def intro: exI [of _ "m - 1"])
  show "\<not> has_more page \<Longrightarrow> m = length ds" using assms by (auto simp: page_of_log_def)
qed

lemma stored_page:
  assumes "log_file es es' file" and "read_events_page sha file cur limit = Inr page" and "good_log T es'"
    and "position_ok sha T es (gid, cur, hsh) s" and "numbered_below s" and "log_extends es es'"
  shows "(\<exists>result. persist_page repo T (gid, cur, hsh) page s = Inr result \<and> page_stored sha T es es' page s result)
    \<or> (gid = None \<and> persist_page repo T (gid, cur, hsh) page s = Inl SqliteOverflow \<and>
      open_new_generation page s = Inl SqliteOverflow)"
proof -
  let ?opened = "case gid of Some g \<Rightarrow> Inr (g, s)
    | None \<Rightarrow> rbind (open_new_generation page s) (\<lambda>(g, s). Inr (g, mark_preparing g s))"
  show ?thesis
  proof (cases ?opened)
    case (Inl e)
    then show ?thesis by (auto simp: persist_page_def open_new_generation_def Let_def split: option.splits if_splits)
  next
    case (Inr gs)
    obtain g s1 where gs: "gs = (g, s1)" by fastforce
    have opened: "g < ix_next_generation s1 \<and> numbered_below s1 \<and> ix_world s1 = ix_world s \<and> (\<exists>k. generation_holds sha T es g cur k s1)"
    proof (cases gid)
      case None
      then obtain s0 where s0: "open_new_generation page s = Inr (g, s0)" "s1 = mark_preparing g s0" and "cur = None"
        using Inr gs assms(4) by (auto simp: rbind_eq_Inr position_ok_def)
      have "same_index s0 s1" "ix_world s1 = ix_world s0" using s0(2) by (simp_all add: same_index_def mark_preparing_def)
      moreover have "ix_next_generation s1 = ix_next_generation s0" using s0(2) by (simp add: mark_preparing_def)
      ultimately show ?thesis using open_fresh(1-3) [OF s0(1) assms(5)] \<open>cur = None\<close>
          open_fresh(5) [OF s0(1) assms(5), where sha = sha and T = T and es = es]
        by (auto simp: same_numbered same_generation)
    next
      case (Some g')
      then show ?thesis using Inr gs assms(4,5) by (auto simp: position_ok_def)
    qed
    then obtain k lineage gen r where h: "held sha es g lineage gen k (ix_evidence s1)"
      "case cur of None \<Rightarrow> gen_rows g (ix_evidence s1) = [] | Some c \<Rightarrow> \<exists>j \<le> k. c = encode_cursor (offset_at es j) lineage gen"
      "rfold (apply_row T) (map (row_of_event \<circ> norm_event) (take k es)) no_views = Inr r" "tables_show g (shown_views r) s1"
      unfolding generation_holds_def by blast
    obtain i where i: "i \<le> k" "case cur of None \<Rightarrow> i = 0 | Some c \<Rightarrow> i \<le> length es \<and> c = encode_cursor (offset_at es i) lineage gen"
    proof (cases cur)
      case (Some c)
      then show thesis using that h(1,2) by (force simp: held_def)
    qed (use that [of 0] in simp)
    let ?vs = "page_records page" and ?cur = "position_after page cur"
    let ?hsh = "if ?vs \<noteq> [] then record_hash_of (last ?vs) else hsh" and ?halted = "\<exists>r \<in> set ?vs. rec_integrity r = OVERSIZED"
    have run: "persist_page repo T (gid, cur, hsh) page s =
        Inr (((Some g, ?cur, ?hsh), ?halted), prune_changes (set_checkpoint g ?cur ?hsh ?halted page s3))"
      if "upsert_records repo g ?vs s1 = Inr (c, s2)" "\<not> ch_unsafe c" "apply_changed_entities_locked T g c s2 = Inr s3" for c s2 s3
    proof -
      have "(if ch_issues c \<noteq> [] \<or> ch_executions c \<noteq> [] \<or> ch_runs c \<noteq> [] then apply_changed_entities_locked T g c s2 else Inr s2) = Inr s3"
        using that(3) by (auto simp: apply_changed_entities_locked_def)
      then show ?thesis using that(1,2) Inr gs by (simp add: persist_page_def position_after_def Let_def)
    qed
    from page_over_log [OF assms(1-3) i(2)] show ?thesis
    proof (elim disjE exE conjE)
      assume b: "blank_page page"
      then have "upsert_records repo g ?vs s1 = Inr (no_changes, s1)" by (simp add: blank_page_def)
      moreover have "apply_changed_entities_locked T g no_changes s1 = Inr s1"
        by (simp add: apply_changed_entities_locked_def no_changes_def)
      ultimately have "persist_page repo T (gid, cur, hsh) page s =
          Inr (((Some g, ?cur, ?hsh), ?halted), prune_changes (set_checkpoint g ?cur ?hsh ?halted page s1))"
        using run [of no_changes s1 s1] by (simp add: no_changes_def)
      moreover have "?cur = cur" using b by (simp add: blank_page_def position_after_def)
      moreover obtain k where "generation_holds sha T es g cur k s1" using opened by blast
      ultimately show ?thesis using opened b assms(6)
        page_finished [of sha T es g cur k s1 es' s page ?halted es ?hsh] by (auto simp: blank_page_def)
    next
      fix ds m assume ds: "log_extends es ds" "log_extends ds es'"
        and same: "cur \<noteq> None \<longrightarrow> content_lineage page = lineage \<and> page_generation page = gen"
        and p: "page_of_log sha (content_lineage page) (page_generation page) ds i m (?vs, next_cursor page, has_more page)"
      let ?lineage = "content_lineage page" and ?gen = "page_generation page"
      have k: "k \<le> length es" using h(1) by (simp add: held_def)
      have "held sha es g ?lineage ?gen k (ix_evidence s1)"
      proof (cases cur)
        case None
        then have "gen_rows g (ix_evidence s1) = []" using h(2) by simp
        then show ?thesis using h(1) by (simp add: held_def)
      qed (use h(1) same in simp)
      then have held: "held sha ds g ?lineage ?gen k (ix_evidence s1)" by (rule held_extends [OF ds(1)])
      have fold: "rfold (apply_row T) (map (row_of_event \<circ> norm_event) (take k ds)) no_views = Inr r"
        using h(3) log_extends_take [OF ds(1) k] by simp
      obtain c s2 s3 r' where st: "upsert_records repo g ?vs s1 = Inr (c, s2)" "\<not> ch_unsafe c"
        "apply_changed_entities_locked T g c s2 = Inr s3" "held sha ds g ?lineage ?gen (max k m) (ix_evidence s3)"
        "rfold (apply_row T) (map (row_of_event \<circ> norm_event) (take (max k m) ds)) no_views = Inr r'"
        "tables_show g (shown_views r') s3" "numbered_below s3" "ix_world s3 = ix_world s1"
        "ix_next_generation s3 = ix_next_generation s1"
        using records_stored [OF good_prefix [OF ds(2) assms(3)] held i(1) fold h(4) p] opened by metis
      have "case ?cur of None \<Rightarrow> gen_rows g (ix_evidence s3) = []
        | Some c \<Rightarrow> \<exists>j \<le> max k m. c = encode_cursor (offset_at ds j) ?lineage ?gen"
        using position_after_page(1) [OF p, of cur]
      proof (elim disjE exE conjE)
        assume e: "?vs = []" "?cur = cur"
        then have "c = no_changes" "s2 = s1" using st(1) by simp_all
        then have s3: "s3 = s1" using st(3) by (simp add: apply_changed_entities_locked_def no_changes_def)
        show ?thesis
        proof (cases cur)
          case (Some d)
          then obtain j where "j \<le> k" "d = encode_cursor (offset_at es j) lineage gen" using h(2) by auto
          then have "d = encode_cursor (offset_at ds j) ?lineage ?gen" "j \<le> max k m"
            using Some same offset_extends [OF ds(1), of j] k by simp_all
          moreover have "?cur = Some d" using e(2) Some by simp
          ultimately show ?thesis by auto
        qed (use h(2) e(2) s3 in simp)
      next
        fix j assume "j \<le> m" "?cur = Some (encode_cursor (offset_at ds j) ?lineage ?gen)"
        then show ?thesis by (auto intro!: exI [of _ j])
      qed
      then have holds: "generation_holds sha T ds g ?cur (max k m) s3"
        unfolding generation_holds_def using st(4-6) by blast
      have "\<not> has_more page \<longrightarrow> length es \<le> max k m"
        using position_after_page(2) [OF p] log_extends_length [OF ds(1)] by auto
      moreover have "has_more page \<longrightarrow> ?cur = next_cursor page"
        using p by (auto simp: page_of_log_def position_after_def)
      ultimately have "page_stored sha T es es' page s
          (((Some g, ?cur, ?hsh), ?halted), prune_changes (set_checkpoint g ?cur ?hsh ?halted page s3))"
        using opened st(7-9) by (intro page_finished [OF holds _ _ ds(2)]) simp_all
      then show ?thesis using run [OF st(1-3)] by blast
    qed
  qed
qed

section \<open>Ticks\<close>

text \<open>
  The host: \<open>logged w\<close> are the events in the log when the world is \<open>w\<close>. The log only grows; a page the observer
  returns was read while it grew; it may fail at any time, with any code.
\<close>

definition observes :: "(string \<Rightarrow> string) \<Rightarrow> ('w \<Rightarrow> event list) \<Rightarrow> 'w index_host \<Rightarrow> bool" where
  "observes sha logged h \<longleftrightarrow> (\<forall>w. log_extends (logged w) (logged (ih_elapse h w))) \<and>
     (\<forall>after limit w r w'. ih_observe h after limit w = (r, w') \<longrightarrow> log_extends (logged w) (logged w') \<and>
       (\<forall>page. r = Inr page \<longrightarrow> (\<exists>file. log_file (logged w) (logged w') file \<and>
          read_events_page sha file after limit = Inr page)))"

definition watches :: "(string \<Rightarrow> string) \<Rightarrow> ('w \<Rightarrow> event list) \<Rightarrow> 'w index_host \<Rightarrow> bool" where
  "watches sha logged h \<longleftrightarrow> observes sha logged h \<and> (\<forall>w. good_log (ih_tables h) (logged w))"

definition in_index :: "(string \<Rightarrow> string) \<Rightarrow> ('w \<Rightarrow> event list) \<Rightarrow> 'w index_host \<Rightarrow> 'w index \<Rightarrow> bool" where
  "in_index sha logged h s \<longleftrightarrow> index_ok sha (ih_tables h) (logged (ix_world s)) s"

definition later :: "('w \<Rightarrow> event list) \<Rightarrow> 'w index \<Rightarrow> 'w index \<Rightarrow> bool" where
  "later logged s s' \<longleftrightarrow> log_extends (logged (ix_world s)) (logged (ix_world s'))"

lemma later_refl [simp]: "later logged s s"
  by (simp add: later_def)

lemma later_trans: "later logged s t \<Longrightarrow> later logged t u \<Longrightarrow> later logged s u"
  unfolding later_def by (rule log_extends_trans)

text \<open>What only passes time, or touches the lease.\<close>

lemma in_index_later:
  assumes "in_index sha logged h s" and "same_index s s'" and "ix_checkpoint s' = ix_checkpoint s" and "later logged s s'"
  shows "in_index sha logged h s'"
  using assms index_extends [of "logged (ix_world s)" "logged (ix_world s')" sha "ih_tables h" s] same_ok [OF assms(2,3)]
  by (simp add: in_index_def later_def)

lemma settle_same: "same_index s (settle h s)" "ix_checkpoint (settle h s) = ix_checkpoint s" "ix_model (settle h s) = ix_model s"
  by (simp_all add: settle_def same_index_def)

lemma settle_later: "observes sha logged h \<Longrightarrow> later logged s (settle h s)"
  by (simp add: observes_def later_def settle_def)

lemma settle_in_index: "observes sha logged h \<Longrightarrow> in_index sha logged h s \<Longrightarrow> in_index sha logged h (settle h s)"
  using in_index_later [OF _ settle_same(1,2) settle_later] by blast

lemma transaction_cases:
  "transaction h body s = (r, s') \<Longrightarrow> (\<exists>e. r = Inl e \<and> body (settle h s) = Inl e \<and> s' = settle h s) \<or>
     (\<exists>a. r = Inr a \<and> body (settle h s) = Inr (a, s'))"
  by (auto simp: transaction_def Let_def split: sum.splits)

lemma replace_keeps:
  assumes "replace_generation probe s = Inr (u, s')" and "index_ok sha T es s"
  shows "index_ok sha T es s' \<and> ix_world s' = ix_world s"
proof -
  obtain g s1 where s1: "open_new_generation probe s = Inr (g, s1)" "s' = set_checkpoint g None None False probe (mark_preparing g s1)"
    using assms(1) by (auto simp: replace_generation_def rbind_eq_Inr)
  have n: "numbered_below s" using assms(2) by (simp add: index_ok_def)
  have same: "same_index s1 s'" "ix_world s' = ix_world s1" "ix_next_generation s' = ix_next_generation s1"
    "checkpoint_position (ix_checkpoint s') = (Some g, None, None)"
    using s1(2) by (simp_all add: same_index_def set_checkpoint_def mark_preparing_def checkpoint_position_def)
  show ?thesis using open_fresh(1-3) [OF s1(1) n] open_fresh(5) [OF s1(1) n, where sha = sha and T = T and es = es] same(2-4)
    by (auto simp: index_ok_def position_ok_def same_numbered [OF same(1)] same_generation [OF same(1)])
qed

lemma observe_run:
  assumes "observes sha logged h" and "observe_events h after limit s = (r, s')"
  obtains x where "r = Inr x" and "same_index s s'" and "ix_checkpoint s' = ix_checkpoint s" and "later logged s s'"
    and "\<forall>page. x = Inr page \<longrightarrow> (\<exists>file. log_file (logged (ix_world s)) (logged (ix_world s')) file \<and>
      read_events_page sha file after limit = Inr page)"
proof -
  obtain x w where x: "ih_observe h after limit (ix_world s) = (x, w)" by fastforce
  then have "r = Inr x" "s' = s\<lparr>ix_world := w\<rparr>" using assms(2) by (simp_all add: observe_events_def)
  moreover have "log_extends (logged (ix_world s)) (logged w)"
    "\<forall>page. x = Inr page \<longrightarrow> (\<exists>file. log_file (logged (ix_world s)) (logged w) file \<and> read_events_page sha file after limit = Inr page)"
    using assms(1) x unfolding observes_def by blast+
  ultimately show thesis using that [of x] by (simp add: same_index_def later_def)
qed

lemma handle_replaced_keeps:
  assumes "observes sha logged h" and "in_index sha logged h s" and "handle_cursor_log_replaced h s = (r, s')"
  shows "in_index sha logged h s' \<and> later logged s s' \<and> (\<forall>out. r = Inr out \<longrightarrow> tick_status out \<in> {CursorRetained, CursorRolled})"
proof -
  obtain r1 s1 where o: "observe_events h None 1 s = (r1, s1)" by fastforce
  obtain x where x: "r1 = Inr x" "same_index s s1" "ix_checkpoint s1 = ix_checkpoint s" "later logged s s1"
    by (rule observe_run [OF assms(1) o])
  have i1: "in_index sha logged h s1" by (rule in_index_later [OF assms(2) x(2-4)])
  consider (kept) "s' = s1" "r = Inr (stopped CursorRetained 0 0)"
    | (rolled) probe r2 where "transaction h (replace_generation probe) s1 = (r2, s')"
      "r = (case r2 of Inl e \<Rightarrow> Inl e | Inr _ \<Rightarrow> Inr (stopped CursorRolled 0 0))"
    using assms(3) o x(1)
    by (auto simp: handle_cursor_log_replaced_def andthen_def split: sum.splits prod.splits if_splits option.splits)
  then show ?thesis
  proof cases
    case kept
    then show ?thesis using i1 x(4) by (simp add: stopped_def)
  next
    case rolled
    have st: "in_index sha logged h (settle h s1)" "later logged s (settle h s1)"
      using settle_in_index [OF assms(1) i1] later_trans [OF x(4) settle_later [OF assms(1)]] by simp_all
    from transaction_cases [OF rolled(1)] show ?thesis
    proof (elim disjE exE conjE)
      fix e assume "r2 = Inl e" "s' = settle h s1"
      then show ?thesis using st rolled(2) by simp
    next
      fix u assume u: "r2 = Inr u" "replace_generation probe (settle h s1) = Inr (u, s')"
      show ?thesis using replace_keeps [OF u(2), of sha "ih_tables h" "logged (ix_world (settle h s1))"] st rolled(2) u(1)
        by (simp add: in_index_def later_def stopped_def)
    qed
  qed
qed

text \<open>A tick that caught up: the current generation holds at least the events \<open>es\<close>.\<close>

definition holds_all :: "(string \<Rightarrow> string) \<Rightarrow> tables \<Rightarrow> event list \<Rightarrow> event list \<Rightarrow> 'w index \<Rightarrow> bool" where
  "holds_all sha T es now s \<longleftrightarrow> (\<exists>c k. ix_checkpoint s = Some c \<and> length es \<le> k \<and>
     generation_holds sha T now (ck_generation c) (ck_cursor c) k s)"

definition log_seen :: "'w index \<Rightarrow> bool" where
  "log_seen s \<longleftrightarrow> (\<exists>c. ix_checkpoint s = Some c \<and> ck_availability c \<in> {''AVAILABLE'', ''EMPTY''})"

lemma persist_run:
  assumes "watches sha logged h" and "in_index sha logged h s" and "position_ok sha (ih_tables h) (logged (ix_world s)) pos s"
    and "observe_events h (fst (snd pos)) limit s = (Inr (Inr page), s1)"
    and "transaction h (persist_page (ih_repository h) (ih_tables h) pos page) s1 = (r, s2)"
  shows "(\<exists>e. r = Inl e \<and> in_index sha logged h s2 \<and> later logged s s2) \<or>
    (\<exists>result. r = Inr result \<and> later logged s s2 \<and>
      page_stored sha (ih_tables h) (logged (ix_world s)) (logged (ix_world s2)) page (settle h s1) (result, s2))"
proof -
  have ob: "observes sha logged h" and good: "\<And>w. good_log (ih_tables h) (logged w)" using assms(1) by (simp_all add: watches_def)
  obtain x :: "string + events_page" where x: "(Inr (Inr page) :: index_error + _) = Inr x" "same_index s s1" "ix_checkpoint s1 = ix_checkpoint s" "later logged s s1"
    "\<forall>page. x = Inr page \<longrightarrow> (\<exists>file. log_file (logged (ix_world s)) (logged (ix_world s1)) file \<and>
      read_events_page sha file (fst (snd pos)) limit = Inr page)"
    by (rule observe_run [OF ob assms(4)])
  let ?t = "settle h s1" and ?es = "logged (ix_world s)" and ?es1 = "logged (ix_world s1)" and ?es' = "logged (ix_world (settle h s1))"
  have l: "log_extends ?es1 ?es'" "log_extends ?es ?es1" using settle_later [OF ob] x(4) by (simp_all add: later_def)
  obtain "file" where f: "log_file ?es ?es1 file" "read_events_page sha file (fst (snd pos)) limit = Inr page" using x(1,5) by auto
  have f': "log_file ?es ?es' file"
    using f(1) log_extends_trans [OF _ l(1)] unfolding log_file_def by (cases "file") (auto, blast)
  have same: "same_index s ?t" "ix_checkpoint ?t = ix_checkpoint s"
    using x(2,3) by (simp_all add: settle_def same_index_def)
  have i: "in_index sha logged h ?t" "later logged s ?t"
    using in_index_later [OF assms(2) same] log_extends_trans [OF l(2,1)] by (simp_all add: later_def)
  obtain gid cur hsh where pos: "pos = (gid, cur, hsh)" by (metis prod_cases3)
  have p: "position_ok sha (ih_tables h) ?es (gid, cur, hsh) ?t" using assms(3) same_position [OF same(1)] pos by blast
  have n: "numbered_below ?t" using i(1) by (simp add: in_index_def index_ok_def)
  have e: "log_extends ?es ?es'" by (rule log_extends_trans [OF l(2,1)])
  have rd: "read_events_page sha file cur limit = Inr page" using f(2) pos by simp
  from transaction_cases [OF assms(5)] show ?thesis
  proof (elim disjE exE conjE)
    fix err assume "r = Inl err" "s2 = ?t"
    then show ?thesis using i by blast
  next
    fix a assume a: "r = Inr a" "persist_page (ih_repository h) (ih_tables h) pos page ?t = Inr (a, s2)"
    then have st: "page_stored sha (ih_tables h) ?es ?es' page ?t (a, s2)"
      using stored_page [OF f' rd good p n e, of "ih_repository h"] pos by auto
    then have "ix_world s2 = ix_world ?t" by (simp add: page_stored_def split: prod.splits)
    then show ?thesis using a(1) st i(2) by (simp add: later_def)
  qed
qed

lemma ingest_pages_keeps:
  assumes "watches sha logged h" and "in_index sha logged h s" and "position_ok sha (ih_tables h) (logged (ix_world s)) pos s"
    and "after = fst (snd pos)" and "ingest_pages h room after pos pages recs s = (r, s')"
  shows "in_index sha logged h s' \<and> later logged s s' \<and>
    (\<forall>out. r = Inr out \<longrightarrow> tick_status out = TickOk \<longrightarrow> pages_ingested out < pages + room \<longrightarrow> log_seen s' \<longrightarrow>
      holds_all sha (ih_tables h) (logged (ix_world s)) (logged (ix_world s')) s')"
  using assms(2-5)
proof (induction room arbitrary: after pos pages recs s)
  case 0
  then show ?case by (auto simp: stopped_def)
next
  case (Suc room)
  have ob: "observes sha logged h" using assms(1) by (simp add: watches_def)
  obtain r1 s1 where o: "observe_events h after 500 s = (r1, s1)" by fastforce
  obtain x where x: "r1 = Inr x" "same_index s s1" "ix_checkpoint s1 = ix_checkpoint s" "later logged s s1"
    by (rule observe_run [OF ob o])
  have i1: "in_index sha logged h s1" by (rule in_index_later [OF Suc.prems(1) x(2-4)])
  show ?case
  proof (cases x)
    case (Inl code)
    consider "code = ''CURSOR_LOG_REPLACED''" "handle_cursor_log_replaced h s1 = (r, s')"
      | "r = Inr (stopped (TickError code) 0 0)" "s' = s1"
      using Suc.prems(4) o x(1) Inl by (auto simp: andthen_def PAGE_LIMIT_def split: if_splits)
    then show ?thesis
    proof cases
      case 1
      then show ?thesis using handle_replaced_keeps [OF ob i1 1(2)] later_trans [OF x(4)] by auto
    next
      case 2
      then show ?thesis using i1 x(4) by (simp add: stopped_def)
    qed
  next
    case (Inr page)
    obtain r2 s2 where t: "transaction h (persist_page (ih_repository h) (ih_tables h) pos page) s1 = (r2, s2)" by fastforce
    have o': "observe_events h (fst (snd pos)) 500 s = (Inr (Inr page), s1)" using o x(1) Inr Suc.prems(3) by simp
    from persist_run [OF assms(1) Suc.prems(1,2) o' t] show ?thesis
    proof (elim disjE exE conjE)
      fix e assume "r2 = Inl e" "in_index sha logged h s2" "later logged s s2"
      moreover from this have "r = Inl e" "s' = s2"
        using Suc.prems(4) o x(1) Inr t by (auto simp: andthen_def PAGE_LIMIT_def)
      ultimately show ?thesis by simp
    next
      fix result assume res: "r2 = Inr result" and l: "later logged s s2"
        and st: "page_stored sha (ih_tables h) (logged (ix_world s)) (logged (ix_world s2)) page (settle h s1) (result, s2)"
      obtain pos' halted where rs: "result = (pos', halted)" by fastforce
      have i2: "in_index sha logged h s2"
        using conjunct1 [OF st [unfolded page_stored_def rs prod.case]] unfolding in_index_def .
      have c: "checkpoint_position (ix_checkpoint s2) = pos'" using st rs by (simp add: page_stored_def)
      let ?recs = "recs + length (page_records page)"
      consider (stop) "r = Inr (stopped TickHalted (pages + 1) ?recs)" "s' = s2"
        | (ended) "\<not> halted" "\<not> has_more page" "r = Inr (stopped TickOk (pages + 1) ?recs)" "s' = s2"
        | (more_pages) "has_more page" "ingest_pages h room (next_cursor page) pos' (pages + 1) ?recs s2 = (r, s')"
        using Suc.prems(4) o x(1) Inr t res rs by (auto simp: andthen_def PAGE_LIMIT_def Let_def split: if_splits)
      then show ?thesis
      proof cases
        case stop
        then show ?thesis using i2 l by (simp add: stopped_def)
      next
        case ended
        have "holds_all sha (ih_tables h) (logged (ix_world s)) (logged (ix_world s2)) s2" if "log_seen s2"
        proof -
          have "availability page \<in> {''AVAILABLE'', ''EMPTY''}"
            using that st rs by (auto simp: log_seen_def page_stored_def)
          then obtain g k where k: "fst pos' = Some g" "length (logged (ix_world s)) \<le> k"
            "generation_holds sha (ih_tables h) (logged (ix_world s2)) g (fst (snd pos')) k s2"
            using st rs ended(1,2) by (auto simp: page_stored_def)
          then obtain ck where "ix_checkpoint s2 = Some ck" "ck_generation ck = g" "ck_cursor ck = fst (snd pos')"
            using c by (auto simp: checkpoint_position_def split: option.splits)
          then show ?thesis using k(2,3) unfolding holds_all_def by (intro exI [of _ ck] exI [of _ k]) simp
        qed
        then show ?thesis using i2 l ended(3,4) by (simp add: stopped_def)
      next
        case more_pages
        have p2: "position_ok sha (ih_tables h) (logged (ix_world s2)) pos' s2"
          using i2 c by (simp add: in_index_def index_ok_def)
        have a: "next_cursor page = fst (snd pos')" using st rs more_pages(1) by (simp add: page_stored_def)
        from Suc.IH [OF i2 p2 a more_pages(2)] have ih: "in_index sha logged h s'" "later logged s2 s'"
          "\<forall>out. r = Inr out \<longrightarrow> tick_status out = TickOk \<longrightarrow> pages_ingested out < pages + 1 + room \<longrightarrow> log_seen s' \<longrightarrow>
            holds_all sha (ih_tables h) (logged (ix_world s2)) (logged (ix_world s')) s'" by simp_all
        have "length (logged (ix_world s)) \<le> length (logged (ix_world s2))"
          using l by (simp add: later_def log_extends_length)
        then have "holds_all sha (ih_tables h) (logged (ix_world s2)) now s' \<Longrightarrow> holds_all sha (ih_tables h) (logged (ix_world s)) now s'" for now
          unfolding holds_all_def by (meson order_trans)
        then show ?thesis using ih later_trans [OF l ih(2)] by simp
      qed
    qed
  qed
qed

lemma tick_keeps:
  assumes "watches sha logged h" and "in_index sha logged h s" and "ingest_repository_tick h s = (r, s')"
  shows "in_index sha logged h s' \<and> later logged s s' \<and>
    (\<forall>out. r = Inr out \<longrightarrow> caught_up out \<longrightarrow> log_seen s' \<longrightarrow>
      holds_all sha (ih_tables h) (logged (ix_world s)) (logged (ix_world s')) s')"
proof -
  have p: "position_ok sha (ih_tables h) (logged (ix_world s)) (checkpoint_position (ix_checkpoint s)) s"
    using assms(2) by (simp add: in_index_def index_ok_def)
  consider (halt) c where "ix_checkpoint s = Some c" "r = Inr (stopped TickHalted 0 0)" "s' = s"
    | (run) "ingest_pages h 4 (fst (snd (checkpoint_position (ix_checkpoint s)))) (checkpoint_position (ix_checkpoint s)) 0 0 s = (r, s')"
    using assms(3) by (auto simp: ingest_repository_tick_def andthen_def checkpoint_position_def MAX_PAGES_PER_TICK_def
        split: option.splits if_splits)
  then show ?thesis
  proof cases
    case halt
    then show ?thesis using assms(2) by (simp add: caught_up_def stopped_def)
  next
    case run
    from ingest_pages_keeps [OF assms(1,2) p refl run] show ?thesis by (simp add: caught_up_def MAX_PAGES_PER_TICK_def)
  qed
qed

section \<open>Rebuilding\<close>

lemma deleted_lookup: "map_of (filter (\<lambda>(k, v). \<not> gone (fst k)) t) (g, i) = (if gone g then None else map_of t (g, i))"
  by (induction t) auto

lemma deleted_gens: "table_gens (filter (\<lambda>(k, v). \<not> gone (fst k)) t) = {g \<in> table_gens t. \<not> gone g}"
  by (auto simp: table_gens_def)

lemma deleted_views:
  "view_gens (delete_views gone s) = {g \<in> view_gens s. \<not> gone g}"
  "\<not> gone g \<Longrightarrow> tables_show g r (delete_views gone s) = tables_show g r s"
  "ix_evidence (delete_views gone s) = ix_evidence s" "ix_checkpoint (delete_views gone s) = ix_checkpoint s"
  "ix_world (delete_views gone s) = ix_world s" "ix_next_generation (delete_views gone s) = ix_next_generation s"
  by (auto simp: delete_views_def view_gens_def deleted_gens tables_show_def deleted_lookup)

lemma model_only [simp]:
  "view_gens (s\<lparr>ix_model := m\<rparr>) = view_gens s" "tables_show g r (s\<lparr>ix_model := m\<rparr>) = tables_show g r s"
  by (simp_all add: view_gens_def tables_show_def)

lemma views_only_checkpoint: "views_only s s' \<Longrightarrow> ix_checkpoint s' = ix_checkpoint s \<and> ix_lease s' = ix_lease s"
  by (auto simp: views_only_def)

text \<open>The projection of a generation that holds a prefix of the log.\<close>

lemma generation_reduced:
  assumes "generation_holds sha T es g cur k s" and "good_log T es"
  obtains r where "reduce T (fetch_ok g (\<lambda>_. True) (ix_evidence s)) = Inr (shown_views r)" and "writable (shown_views r)"
    and "rfold (apply_row T) (map (row_of_event \<circ> norm_event) (take k es)) no_views = Inr r" and "tables_show g (shown_views r) s"
proof -
  obtain lineage gen r where h: "held sha es g lineage gen k (ix_evidence s)"
    "rfold (apply_row T) (map (row_of_event \<circ> norm_event) (take k es)) no_views = Inr r" "tables_show g (shown_views r) s"
    using assms(1) unfolding generation_holds_def by blast
  have "rfold (apply_row T) (fetch_ok g (\<lambda>_. True) (ix_evidence s)) no_views = Inr r"
    using h(2) rows_truncate [of T "fetch_ok g (\<lambda>_. True) (ix_evidence s)" no_views] fetch_held [OF h(1)] assms(2)
    by (simp add: good_log_def)
  moreover have "\<forall>row \<in> set (map (row_of_event \<circ> norm_event) (take k es)). sound_row row"
    using assms(2) by (auto simp: good_log_def dest: in_set_takeD)
  ultimately show thesis using that reduce_rows h(2,3) writable_shown [OF writable_rows [OF h(2) _ writable_none]] by blast
qed

lemma rebuild_keeps:
  assumes "rebuild_locked h g s = Inr (u, s')" and "index_ok sha (ih_tables h) es s" and "good_log (ih_tables h) es"
    and "ix_checkpoint s = Some c" and "g = ck_generation c"
  shows "index_ok sha (ih_tables h) es s' \<and> ix_world s' = ih_elapse h (ix_world s) \<and> ix_checkpoint s' = ix_checkpoint s"
proof -
  obtain k where k: "generation_holds sha (ih_tables h) es g (ck_cursor c) k s" and n: "numbered_below s" "g < ix_next_generation s"
    using assms(2,4,5) by (auto simp: index_ok_def position_ok_def checkpoint_position_def)
  obtain r where r: "reduce (ih_tables h) (fetch_ok g (\<lambda>_. True) (ix_evidence s)) = Inr (shown_views r)" "writable (shown_views r)"
    "rfold (apply_row (ih_tables h)) (map (row_of_event \<circ> norm_event) (take k es)) no_views = Inr r"
    by (rule generation_reduced [OF k assms(3)])
  let ?s1 = "s\<lparr>ix_world := ih_elapse h (ix_world s)\<rparr>" and ?mine = "\<lambda>g'. g' = g"
  let ?s2 = "delete_views ?mine ?s1"
  have g: "g \<notin> view_gens ?s2" by (simp add: deleted_views(1))
  obtain s3 where s3: "publish g (shown_views r) ?s2 = Inr s3" "views_only ?s2 s3" "tables_show g (shown_views r) s3"
    "view_gens s3 \<subseteq> insert g (view_gens ?s2)"
    by (rule publish_shows [OF r(2) g])
  have s': "s' = prune_old_generation_views g (s3\<lparr>ix_model := Some \<lparr>mr_generation = g, mr_status = READY,
       mr_completed = max_evidence_id g (ix_evidence s3), mr_error = None\<rparr>\<rparr>)"
    using assms(1) r(1) s3(1) by (auto simp: rebuild_locked_def rbind_eq_Inr Let_def)
  have e: "ix_evidence s' = ix_evidence s" "ix_checkpoint s' = ix_checkpoint s" "ix_world s' = ih_elapse h (ix_world s)"
    "ix_next_generation s' = ix_next_generation s"
    using views_only_same [OF s3(2)] views_only_checkpoint [OF s3(2)] unfolding s'
    by (simp_all add: prune_old_generation_views_def deleted_views)
  have v: "view_gens s' = {g' \<in> view_gens s3. \<not> g' \<noteq> g}" "tables_show g (shown_views r) s'"
    using s3(3) unfolding s' by (simp_all add: prune_old_generation_views_def deleted_views(1,2))
  have "generation_holds sha (ih_tables h) es g (ck_cursor c) k s'"
    using k r(3) v(2) unfolding generation_holds_def e by blast
  moreover have "numbered_below s'" using n v(1) unfolding numbered_below_def e by auto
  ultimately show ?thesis using e assms(4,5) n(2) by (auto simp: index_ok_def position_ok_def checkpoint_position_def)
qed

lemma rebuild_models_keeps:
  assumes "watches sha logged h" and "in_index sha logged h s" and "ix_checkpoint s = Some c"
    and "rebuild_read_models h (ck_generation c) s = (r, s')"
  shows "in_index sha logged h s' \<and> later logged s s' \<and> ix_checkpoint s' = Some c"
proof -
  have ob: "observes sha logged h" and good: "\<And>w. good_log (ih_tables h) (logged w)" using assms(1) by (simp_all add: watches_def)
  let ?s0 = "settle h s" and ?t = "settle h (settle h s)"
  have s0: "in_index sha logged h ?s0" "later logged s ?s0" "ix_checkpoint ?s0 = Some c"
    using settle_in_index [OF ob assms(2)] settle_later [OF ob] assms(3) settle_same(2) [of h s] by simp_all
  have t: "in_index sha logged h ?t" "later logged s ?t" "ix_checkpoint ?t = Some c"
    using settle_in_index [OF ob s0(1)] later_trans [OF s0(2) settle_later [OF ob]] s0(3) settle_same(2) [of h ?s0] by simp_all
  consider (refused) "s' = ?s0" | (run) "transaction h (rebuild_locked h (ck_generation c)) ?s0 = (r, s')"
    using assms(4) by (auto simp: rebuild_read_models_def andthen_def Let_def split: sum.splits)
  then show ?thesis
  proof cases
    case run
    from transaction_cases [OF run] show ?thesis
    proof (elim disjE exE conjE)
      fix u assume "rebuild_locked h (ck_generation c) ?t = Inr (u, s')"
      from rebuild_keeps [OF this t(1) [unfolded in_index_def] good t(3) refl]
      have b: "index_ok sha (ih_tables h) (logged (ix_world ?t)) s'" "ix_world s' = ih_elapse h (ix_world ?t)" "ix_checkpoint s' = Some c"
        using t(3) by simp_all
      have l: "later logged ?t s'" using ob b(2) by (simp add: later_def observes_def)
      then show ?thesis using index_extends [OF _ b(1)] later_trans [OF t(2) l] b(3) by (simp add: in_index_def later_def)
    qed (use t in simp)
  qed (use s0 in simp)
qed

lemma mark_error_keeps:
  assumes "observes sha logged h" and "in_index sha logged h s" and "mark_error h g code s = (r, s')"
  shows "in_index sha logged h s' \<and> later logged s s' \<and> ix_checkpoint s' = ix_checkpoint s"
proof -
  let ?t = "settle h s"
  have "same_index ?t s' \<and> ix_checkpoint s' = ix_checkpoint ?t \<and> ix_world s' = ix_world ?t"
    using transaction_cases [OF assms(3) [unfolded mark_error_def]] by (auto simp: rbind_eq_Inr same_index_def)
  then have m: "same_index ?t s'" "ix_checkpoint s' = ix_checkpoint ?t" "later logged ?t s'" by (simp_all add: later_def)
  show ?thesis using in_index_later [OF settle_in_index [OF assms(1,2)] m] later_trans [OF settle_later [OF assms(1)] m(3)] m(2) settle_same(2)
    by simp
qed

lemma maybe_rebuild_keeps:
  assumes "watches sha logged h" and "in_index sha logged h s" and "maybe_rebuild h out s = (r, s')"
  shows "in_index sha logged h s' \<and> later logged s s' \<and> ix_checkpoint s' = ix_checkpoint s"
proof -
  have ob: "observes sha logged h" using assms(1) by (simp add: watches_def)
  have "s' = s \<or> (\<exists>c r1 s1. ix_checkpoint s = Some c \<and> rebuild_read_models h (ck_generation c) s = (r1, s1) \<and>
      (s' = s1 \<or> (\<exists>code r2. mark_error h (ck_generation c) code s1 = (r2, s'))))"
    using assms(3) by (auto simp: maybe_rebuild_def andthen_def catch_def Let_def split: option.splits if_splits prod.splits sum.splits)
  then show ?thesis
  proof (elim disjE exE conjE)
    fix c r1 s1 assume c: "ix_checkpoint s = Some c" "rebuild_read_models h (ck_generation c) s = (r1, s1)"
    note b = rebuild_models_keeps [OF assms(1,2) c]
    { assume "s' = s1" then show ?thesis using b c(1) by simp }
    { fix code r2 assume "mark_error h (ck_generation c) code s1 = (r2, s')"
      from mark_error_keeps [OF ob _ this] b c(1) show ?thesis using later_trans by fastforce }
  qed (use assms(2) in simp)
qed

lemma round_keeps:
  assumes "watches sha logged h" and "in_index sha logged h s" and "repository_round h backoff s = (r, s')"
  shows "in_index sha logged h s' \<and> later logged s s'"
proof -
  obtain r1 s1 where t: "ingest_repository_tick h s = (r1, s1)" by fastforce
  note k = tick_keeps [OF assms(1,2) t]
  consider "s' = s1" | out r2 where "maybe_rebuild h out s1 = (r2, s')"
    using assms(3) t
    by (auto simp: repository_round_def andthen_def catch_def split: sum.splits prod.splits tick_status.splits)
  then show ?thesis
  proof cases
    case 2
    from maybe_rebuild_keeps [OF assms(1) _ this] k show ?thesis using later_trans by blast
  qed (use k in simp)
qed

end
