(* ===== verification/IndexShown.thy ===== *)
theory IndexShown
  imports IndexProps
begin

text \<open>
  What the tables of the dashboard's index show after any life of the index: the strict replay of a prefix
  of the runtime's log, of all of it when a tick reports that it caught up; and what a rebuild may publish.
\<close>

section \<open>What the dashboard shows\<close>

text \<open>The life of an index: rounds of its loop, and waiting while other processes act.\<close>

inductive indexed_from :: "'w index_host \<Rightarrow> 'w \<Rightarrow> 'w index \<Rightarrow> bool" for h w where
  start: "indexed_from h w (new_index w)"
| wait: "indexed_from h w s \<Longrightarrow> indexed_from h w (settle h s)"
| round: "indexed_from h w s \<Longrightarrow> repository_round h backoff s = (r, s') \<Longrightarrow> indexed_from h w s'"

lemma new_index_ok: "index_ok sha T es (new_index w)"
  by (simp add: index_ok_def numbered_below_def position_ok_def checkpoint_position_def new_index_def view_gens_def table_gens_def)

lemma indexed_ok:
  assumes "watches sha logged h" and "indexed_from h w s"
  shows "in_index sha logged h s"
  using assms(2)
proof induction
  case start
  show ?case by (simp add: in_index_def new_index_ok)
next
  case (wait s)
  then show ?case using settle_in_index assms(1) by (auto simp: watches_def)
next
  case (round s backoff r s')
  then show ?case using round_keeps [OF assms(1)] by blast
qed

text \<open>The tables show the states of a replay, as those of the generation.\<close>

definition shows_replay :: "projection \<Rightarrow> nat \<Rightarrow> 'w index \<Rightarrow> bool" where
  "shows_replay p g s \<longleftrightarrow>
     (\<forall>i. map_option (\<lambda>v. (iv_state v, iv_inconsistent v)) (map_of (ix_issues s) (g, i)) =
        map_option (\<lambda>st. (issue_state_value st, False)) (map_of (issues p) i)) \<and>
     (\<forall>x. map_option (\<lambda>v. (de_issue v, de_state v, de_inconsistent v)) (map_of (ix_executions s) (g, x)) =
        map_option (\<lambda>v. (Some (x_issue_id v), if x_state v = EXECUTING then PENDING_RECONCILIATION
          else execution_state_value (x_state v), False)) (map_of (executions p) x)) \<and>
     (\<forall>k. map_option (\<lambda>v. (cg_workspace_key v, cg_state v, cg_inconsistent v)) (map_of (ix_containments s) (g, k)) =
        map_option (\<lambda>v. (Some (workspace_key v), containment_state_value (c_state v), False)) (map_of (containments p) k))"

lemma same_looked_up: "seen f d = seen g e \<Longrightarrow> map_option f (map_of d k) = map_option g (map_of e k)"
  by (metis seen_lookup)

lemma agrees_lookup:
  assumes "agrees p r"
  shows "map_option shown_issue (map_of (v_issues r) i) = map_option true_issue (map_of (issues p) i)"
    and "map_option shown_execution (map_of (v_executions r) x) = map_option true_execution (map_of (executions p) x)"
    and "map_option shown_containment (map_of (v_containments r) k) = map_option true_containment (map_of (containments p) k)"
  using assms unfolding agrees_def by (blast intro: same_looked_up)+

lemma generation_shows:
  assumes "generation_holds sha T es g cur k s" and "good_log T es"
  shows "k \<le> length es \<and> (\<exists>p. rebuild T (map norm_event (take k es)) empty_projection = Inr p \<and> shows_replay p g s)"
proof -
  have k: "k \<le> length es" using assms(1) by (auto simp: generation_holds_def held_def)
  obtain r where r: "rfold (apply_row T) (map (row_of_event \<circ> norm_event) (take k es)) no_views = Inr r" "tables_show g (shown_views r) s"
    by (rule generation_reduced [OF assms])
  have "log_extends (take k es) es" unfolding log_extends_def by (metis append_take_drop_id)
  from good_prefix [OF this assms(2)] have good: "good_log T (take k es)" .
  then obtain p where p: "rebuild T (map norm_event (take k es)) empty_projection = Inr p" by (auto simp: good_log_def is_ok_iff)
  have "\<forall>e \<in> set (map norm_event (take k es)). dollars_fit (payload e)"
    using good by (auto simp: good_log_def sound_row_def tame_def)
  then obtain q where q: "rfold (apply_row T) (map row_of_event (map norm_event (take k es))) no_views = Inr q" "agrees p q"
    using agrees_rebuild [OF p agrees_empty] by blast
  then have a: "agrees p r" using r(1) by (simp add: o_def)
  have pend: "(\<lambda>v. (de_issue v, de_state v, de_inconsistent v)) (pending v) =
      (\<lambda>(xi, st, bad). (xi, if \<not> bad \<and> st = execution_state_value EXECUTING then PENDING_RECONCILIATION else st, bad)) (shown_execution v)" for v
    by (simp add: shown_execution_def pending_def)
  have "map_option (\<lambda>v. (de_issue v, de_state v, de_inconsistent v)) (map_of (ix_executions s) (g, x)) =
      map_option (\<lambda>(xi, st, bad). (xi, if \<not> bad \<and> st = execution_state_value EXECUTING then PENDING_RECONCILIATION else st, bad))
        (map_option shown_execution (map_of (v_executions r) x))" for x
    using r(2) pend by (simp add: tables_show_def seen_lookup option.map_comp o_def)
  then have "map_option (\<lambda>v. (de_issue v, de_state v, de_inconsistent v)) (map_of (ix_executions s) (g, x)) =
      map_option (\<lambda>v. (Some (x_issue_id v), if x_state v = EXECUTING then PENDING_RECONCILIATION
          else execution_state_value (x_state v), False)) (map_of (executions p) x)" for x
    unfolding agrees_lookup(2) [OF a] using execution_state_value_inj [of _ EXECUTING]
    by (cases "map_of (executions p) x") (simp_all add: true_execution_def del: execution_state_value.simps)
  moreover have "map_option (\<lambda>v. (iv_state v, iv_inconsistent v)) (map_of (ix_issues s) (g, i)) =
      map_option (\<lambda>st. (issue_state_value st, False)) (map_of (issues p) i)" for i
    using agrees_lookup(1) [OF a, of i] r(2) unfolding tables_show_def shown_issue_def true_issue_def by simp
  moreover have "map_option (\<lambda>v. (cg_workspace_key v, cg_state v, cg_inconsistent v)) (map_of (ix_containments s) (g, j)) =
      map_option (\<lambda>v. (Some (workspace_key v), containment_state_value (c_state v), False)) (map_of (containments p) j)" for j
    using agrees_lookup(3) [OF a, of j] r(2) unfolding tables_show_def shown_containment_def true_containment_def
    by (cases j) simp
  ultimately show ?thesis using k p unfolding shows_replay_def by blast
qed

text \<open>
  C8: The dashboard shows what the runtime knows, whenever one looks. Whatever pages the observer returned
  or failed to return while the runtime appended to its log, wherever rounds were cut short by exceptions
  and whatever other processes did to the lease, the tables of the generation the checkpoint names show the
  issues, executions and containment boundaries of the strict replay of the first events of the log:
  the same ones, in the same states (an executing one as pending reconciliation), none inconsistent.
\<close>

theorem index_shows_runtime:
  assumes "observes sha logged h" and "\<forall>w. good_log (ih_tables h) (logged w)"
    and "indexed_from h w s" and "ix_checkpoint s = Some c"
  shows "\<exists>k p. k \<le> length (logged (ix_world s)) \<and>
    rebuild (ih_tables h) (map norm_event (take k (logged (ix_world s)))) empty_projection = Inr p \<and>
    shows_replay p (ck_generation c) s"
proof -
  have w: "watches sha logged h" using assms(1,2) by (simp add: watches_def)
  obtain k where "generation_holds sha (ih_tables h) (logged (ix_world s)) (ck_generation c) (ck_cursor c) k s"
    using indexed_ok [OF w assms(3)] assms(4) by (auto simp: in_index_def index_ok_def position_ok_def checkpoint_position_def)
  then show ?thesis using generation_shows assms(2) by blast
qed

text \<open>
  C9: A tick that reports to have caught up with an accessible log did: the tables then show the strict
  replay of at least every event that was in the log when the tick began.
\<close>

theorem caught_up_shows_all:
  assumes "observes sha logged h" and "\<forall>w. good_log (ih_tables h) (logged w)" and "indexed_from h w s"
    and "ingest_repository_tick h s = (Inr out, s')" and "caught_up out" and "log_seen s'"
  shows "\<exists>c k p. ix_checkpoint s' = Some c \<and> length (logged (ix_world s)) \<le> k \<and> k \<le> length (logged (ix_world s')) \<and>
    rebuild (ih_tables h) (map norm_event (take k (logged (ix_world s')))) empty_projection = Inr p \<and>
    shows_replay p (ck_generation c) s'"
proof -
  have w: "watches sha logged h" using assms(1,2) by (simp add: watches_def)
  have "holds_all sha (ih_tables h) (logged (ix_world s)) (logged (ix_world s')) s'"
    using tick_keeps [OF w indexed_ok [OF w assms(3)] assms(4)] assms(5,6) by blast
  then obtain c k where c: "ix_checkpoint s' = Some c" "length (logged (ix_world s)) \<le> k"
    "generation_holds sha (ih_tables h) (logged (ix_world s')) (ck_generation c) (ck_cursor c) k s'"
    unfolding holds_all_def by blast
  then show ?thesis using generation_shows [OF c(3)] assms(2) by blast
qed

section \<open>A sample\<close>

text \<open>A page over a log nobody writes to, with room for all of its lines.\<close>

lemma take_all_lines:
  assumes "\<forall>e \<in> set es. line_fits e" and "i \<le> length es" and "length es - i \<le> room"
  shows "take_records sha lineage gen room (line_records (offset_at es i) (drop i es)) =
    Inr (map (view_at sha lineage gen es) [i..<length es], None, False)"
  using assms(2,3)
proof (induction "length es - i" arbitrary: i room)
  case (Suc n)
  then obtain room' where room: "room = Suc room'" by (cases room) auto
  have i: "i < length es" using Suc.hyps(2) by simp
  have "[i..<length es] = i # [Suc i..<length es]" using i by (simp add: upt_conv_Cons)
  then show ?case using Suc.hyps(1) [of "Suc i" room'] Suc.hyps(2) Suc.prems i room record_view_line [of es i sha lineage gen] assms(1)
      offset_Suc [OF i]
    by (simp add: Cons_nth_drop_Suc [symmetric])
qed simp

lemma static_read:
  assumes "\<forall>e \<in> set es. line_fits e" and "length es \<le> limit"
  obtains page where "read_events_page sha (LogOpened dev ino (\<lambda>_. log_bytes es)) None limit = Inr page"
    and "page_generation page = generation_token dev ino" and "\<not> has_more page"
    and "availability page \<in> {''AVAILABLE'', ''EMPTY''}" and "\<forall>v \<in> set (page_records page). rec_integrity v = OK"
proof -
  let ?reads = "\<lambda>_::nat. log_bytes es" and ?gen = "generation_token dev ino"
  have grows: "appended_to ?reads" by (simp add: appended_to_def)
  obtain lineage head k where h: "read_head sha ?reads 1 [] = (lineage, head, k)" by (metis prod_cases3)
  have "\<exists>t. ?reads k = head @ t" using read_head_at [OF grows h] by simp
  then obtain t where t: "?reads k = [] @ head @ t" by auto
  have "\<exists>j\<ge>k. \<exists>u. ?reads j = [] @ head @ u \<and> stream_records ?reads k 0 head (Suc limit) = take (Suc limit) (ref_records 0 (head @ u))"
    by (rule stream_snapshot [OF grows t]) simp
  then obtain u where u: "?reads k = [] @ head @ u" "stream_records ?reads k 0 head (Suc limit) = take (Suc limit) (ref_records 0 (head @ u))"
    by blast
  have "ref_records 0 (head @ u) = line_records (offset_at es 0) (drop 0 es)"
    using ref_records_log [of es "[]" 0] assms(1) u(1) by (simp add: tail_records_def offset_at_def log_bytes_def)
  then have tk: "take_records sha lineage ?gen limit (stream_records ?reads k 0 head (Suc limit)) =
      Inr (map (view_at sha lineage ?gen es) [0..<length es], None, False)"
    using take_all_lines [OF assms(1), of 0 limit sha lineage ?gen] assms(2) by (simp only: u(2) take_records_enough)
  show thesis
    by (rule that [of "\<lparr>availability = (if length (log_bytes es) = 0 then ''EMPTY'' else ''AVAILABLE''), log_size = length (log_bytes es),
        content_lineage = lineage, page_generation = ?gen, page_records = map (view_at sha lineage ?gen es) [0..<length es],
        next_cursor = None, has_more = False\<rparr>"])
      (use h tk in \<open>simp_all add: read_events_page_def start_offset_def Let_def del: read_head.simps\<close>)
qed

lemma static_file: "log_file es es (LogOpened dev ino (\<lambda>_. log_bytes es))"
proof -
  have "\<exists>ds tail. log_extends es ds \<and> log_extends ds es \<and> LF \<notin> set tail \<and> log_bytes es = log_bytes ds @ tail"
    by (rule exI [of _ es], rule exI [of _ "[]"]) simp
  then show ?thesis by (simp add: log_file_def appended_to_def)
qed

text \<open>A host that watches a log of eleven events which nobody writes to.\<close>

definition error_code :: "observer_error \<Rightarrow> string" where
  "error_code e = (case e of ObserverInputError c \<Rightarrow> c | ObserverUnmodelled \<Rightarrow> [])"

definition watching_host :: "unit index_host" where
  "watching_host = \<lparr>ih_repository = 1, ih_tables = doc03, ih_token = ''t'',
     ih_observe = (\<lambda>after limit w. (case read_events_page id (LogOpened 1 2 (\<lambda>_. log_bytes sample_log)) after limit of
       Inl e \<Rightarrow> Inl (error_code e) | Inr page \<Rightarrow> Inr page, w)),
     ih_now = (\<lambda>_. 0), ih_elapse = id, ih_rivals = (\<lambda>_ _. Some \<lparr>ls_owner = ''t'', ls_heartbeat = 0\<rparr>)\<rparr>"

lemma watching_observes: "observes id (\<lambda>_. sample_log) watching_host"
  using static_file by (auto simp: observes_def watching_host_def split: sum.splits)

lemma sample_good: "good_log doc03 sample_log"
proof -
  have n: "map norm_event sample_log = sample_log" by code_simp
  have "list_all (\<lambda>e. length (to_line e) \<le> 400) sample_log" by code_simp
  then have "\<forall>e \<in> set sample_log. length (to_line e) \<le> MAX_RECORD_BYTES"
    by (auto simp: list_all_iff MAX_RECORD_BYTES_def)
  moreover have "\<forall>e \<in> set sample_log. wf_event e \<and> event_id e < 2 ^ 63"
    by (simp add: sample_log_def sample_event_def wf_event_def)
  ultimately have "\<forall>e \<in> set sample_log. storable e" by (simp add: storable_def line_fits_def)
  moreover have "\<forall>e \<in> set sample_log. sound_row (row_of_event e)"
    by (simp add: sample_log_def sample_event_def sound_row_def tame_def usage_fits_def dollars_fit_def dict_or_empty_def
        jget_def validate_dollars_def validate_tokens_def run_started_complete_def has_only_keys_def has_nonempty_str_def
        is_ok_def Let_def)
  moreover have "sorted (map event_id sample_log)" by code_simp
  moreover have "is_ok (rebuild doc03 (map norm_event sample_log) empty_projection)" unfolding n using sample_replays by (auto simp: is_ok_iff)
  moreover have "\<forall>e \<in> set sample_log. norm_event e = e" using n map_eq_conv [of norm_event sample_log id] by simp
  ultimately show ?thesis by (simp add: good_log_def)
qed

lemma sample_tick:
  "\<exists>out s'. ingest_repository_tick watching_host (new_index ()) = (Inr out, s') \<and> caught_up out \<and> log_seen s'"
proof -
  let ?s = "new_index ()" and ?h = watching_host
  have fits: "\<forall>e \<in> set sample_log. line_fits e" using sample_good by (simp add: good_log_def storable_def)
  have few: "length sample_log \<le> 500" by (simp add: sample_log_def)
  obtain page where page: "read_events_page id (LogOpened 1 2 (\<lambda>_. log_bytes sample_log)) None 500 = Inr page"
    "page_generation page = generation_token 1 2" "\<not> has_more page" "availability page \<in> {''AVAILABLE'', ''EMPTY''}"
    "\<forall>v \<in> set (page_records page). rec_integrity v = OK"
    by (rule static_read [OF fits few])
  have o: "observe_events ?h None 500 ?s = (Inr (Inr page), ?s)"
    using page(1) by (simp add: observe_events_def watching_host_def)
  have w: "watches id (\<lambda>_. sample_log) ?h" using watching_observes sample_good by (simp add: watches_def watching_host_def)
  have i: "in_index id (\<lambda>_. sample_log) ?h ?s" by (simp add: in_index_def new_index_ok)
  have p: "position_ok id (ih_tables ?h) sample_log (None, None, None) ?s" by (simp add: position_ok_def)
  obtain r s' where t: "transaction ?h (persist_page (ih_repository ?h) (ih_tables ?h) (None, None, None) page) ?s = (r, s')"
    by fastforce
  have "open_new_generation page (settle ?h ?s) \<noteq> Inl SqliteOverflow"
    using page(2) by (simp add: open_new_generation_def generation_token_def fits64_def Let_def)
  moreover have "numbered_below (settle ?h ?s)" "position_ok id doc03 sample_log (None, None, None) (settle ?h ?s)"
    using new_index_ok [of id doc03 sample_log "()"] same_numbered [OF settle_same(1) [of ?s ?h]]
    by (simp_all add: index_ok_def position_ok_def)
  ultimately obtain result where res: "persist_page 1 doc03 (None, None, None) page (settle ?h ?s) = Inr result"
    "page_stored id doc03 sample_log sample_log page (settle ?h ?s) result"
    using stored_page [OF static_file page(1) sample_good _ _ log_extends_refl, of None None "settle ?h ?s" 1] by blast
  obtain pos' halted s1 where rs: "result = ((pos', halted), s1)" by (metis surj_pair)
  have "\<not> halted" using res(1) rs page(5) by (auto simp: persist_page_def rbind_eq_Inr Let_def split: prod.splits)
  moreover have "log_seen s1" using res(2) rs page(4) by (auto simp: page_stored_def log_seen_def)
  moreover have "ix_checkpoint ?s = None" by (simp add: new_index_def)
  ultimately have "ingest_repository_tick ?h ?s = (Inr (stopped TickOk 1 (length (page_records page))), s1)"
    using o res(1) rs page(3)
    by (simp add: ingest_repository_tick_def andthen_def MAX_PAGES_PER_TICK_def PAGE_LIMIT_def numeral_eq_Suc transaction_def
        watching_host_def Let_def)
  then show ?thesis using \<open>log_seen s1\<close> by (auto simp: caught_up_def stopped_def MAX_PAGES_PER_TICK_def)
qed

section \<open>Publishing a rebuilt generation\<close>

definition same_tables :: "'w index \<Rightarrow> 'w index \<Rightarrow> bool" where
  "same_tables s s' \<longleftrightarrow> same_index s s' \<and> ix_model s' = ix_model s"

lemma write_executions_only:
  assumes "rfold (write_execution_view g) kvs s = Inr s'"
  shows "\<exists>e. s' = s\<lparr>ix_executions := e\<rparr> \<and> table_gens e \<subseteq> insert g (table_gens (ix_executions s))"
proof (rule rfold_invariant [OF _ _ assms])
  fix kv t t'
  assume "\<exists>e. t = s\<lparr>ix_executions := e\<rparr> \<and> table_gens e \<subseteq> insert g (table_gens (ix_executions s))"
    and w: "write_execution_view g kv t = Inr t'"
  then obtain e where e: "t = s\<lparr>ix_executions := e\<rparr>" "table_gens e \<subseteq> insert g (table_gens (ix_executions s))" by blast
  have "t' = s\<lparr>ix_executions := AList.update (g, fst kv) (snd kv) e\<rparr>"
    using w e(1) by (auto simp: write_execution_view_def Let_def split: if_splits)
  then show "\<exists>e. t' = s\<lparr>ix_executions := e\<rparr> \<and> table_gens e \<subseteq> insert g (table_gens (ix_executions s))"
    using table_gens_update [of g "fst kv" "snd kv" e] e(2) by blast
qed (auto intro: exI [of _ "ix_executions s"])

lemma publish_only:
  assumes "publish g r s = Inr s'"
  shows "views_only s s' \<and> view_gens s' \<subseteq> insert g (view_gens s)"
proof -
  let ?s1 = "s\<lparr>ix_issues := written g (v_issues r) (ix_issues s)\<rparr>"
  obtain s2 where s2: "rfold (write_execution_view g) (v_executions r) ?s1 = Inr s2"
    and s': "s' = s2\<lparr>ix_runs := written g (seen run_columns (v_runs r)) (ix_runs s2),
      ix_containments := written g (v_containments r) (ix_containments s2)\<rparr>"
    using assms by (auto simp: publish_def write_issues write_runs write_containments rbind_eq_Inr)
  obtain e where e: "s2 = ?s1\<lparr>ix_executions := e\<rparr>" "table_gens e \<subseteq> insert g (table_gens (ix_executions s))"
    using write_executions_only [OF s2] by auto
  have "views_only s s'" unfolding s' e(1) views_only_def
    by (intro exI [of _ "written g (v_issues r) (ix_issues s)"] exI [of _ e] exI) simp
  moreover have "view_gens s' \<subseteq> insert g (view_gens s)" unfolding s' e(1) view_gens_def
    using e(2) table_gens_written [of g "v_issues r" "ix_issues s"]
      table_gens_written [of g "seen run_columns (v_runs r)" "ix_runs s"]
      table_gens_written [of g "v_containments r" "ix_containments s"] by simp blast
  ultimately show ?thesis by simp
qed

lemma rebuild_locked_owned:
  assumes "rebuild_locked h g s = Inr (u, s')"
  shows "owned_lease (ih_token h) (ih_now h (ix_world s')) (ix_lease s') \<and> view_gens s' \<subseteq> {g} \<and>
    ix_evidence s' = ix_evidence s \<and> ix_model s' = Some \<lparr>mr_generation = g, mr_status = READY,
      mr_completed = max_evidence_id g (ix_evidence s), mr_error = None\<rparr>"
proof -
  let ?s1 = "s\<lparr>ix_world := ih_elapse h (ix_world s)\<rparr>"
  obtain r s3 where p: "publish g r (delete_views (\<lambda>g'. g' = g) ?s1) = Inr s3" and o: "require_owned_lease h ?s1 = Inr ()"
    and s': "s' = prune_old_generation_views g (s3\<lparr>ix_model := Some \<lparr>mr_generation = g, mr_status = READY,
       mr_completed = max_evidence_id g (ix_evidence s3), mr_error = None\<rparr>\<rparr>)"
    using assms by (auto simp: rebuild_locked_def rbind_eq_Inr Let_def)
  have v: "views_only (delete_views (\<lambda>g'. g' = g) ?s1) s3" using publish_only [OF p] by simp
  have "ix_lease s3 = ix_lease s \<and> ix_world s3 = ih_elapse h (ix_world s) \<and> ix_evidence s3 = ix_evidence s"
    using v by (auto simp: views_only_def delete_views_def)
  then show ?thesis using o unfolding s'
    by (auto simp: prune_old_generation_views_def deleted_views require_owned_lease_def require_def delete_views_def
        view_gens_def table_gens_def split: if_splits)
qed

text \<open>
  C10: A rebuilt generation is published only by the process that holds the lease. Whatever others do to the
  lease row meanwhile, a rebuild that returns found its token in a fresh row after it had computed the views,
  while it kept every other writer out; the tables then hold that generation and no other, marked ready for
  all of its evidence. A rebuild that raises leaves tables, evidence and status as they were.
\<close>

theorem publication_fenced:
  assumes "rebuild_read_models h g s = (r, s')"
  shows "case r of
    Inr _ \<Rightarrow> owned_lease (ih_token h) (ih_now h (ix_world s')) (ix_lease s') \<and> view_gens s' \<subseteq> {g} \<and>
      ix_evidence s' = ix_evidence s \<and>
      ix_model s' = Some \<lparr>mr_generation = g, mr_status = READY, mr_completed = max_evidence_id g (ix_evidence s), mr_error = None\<rparr>
  | Inl _ \<Rightarrow> same_tables s s'"
proof -
  have settled: "same_tables s (settle h s)" "same_tables s (settle h (settle h s))"
    by (simp_all add: same_tables_def same_index_def settle_def)
  show ?thesis
  proof (cases "require_owned_lease h (settle h s)")
    case (Inl e)
    then have "r = Inl e" "s' = settle h s" using assms by (simp_all add: rebuild_read_models_def andthen_def)
    then show ?thesis using settled by simp
  next
    case Inr
    then have "transaction h (rebuild_locked h g) (settle h s) = (r, s')" using assms by (simp add: rebuild_read_models_def andthen_def)
    from transaction_cases [OF this] show ?thesis
    proof (elim disjE exE conjE)
      fix u assume "r = Inr u" and "rebuild_locked h g (settle h (settle h s)) = Inr (u, s')"
      then show ?thesis using rebuild_locked_owned [of h g "settle h (settle h s)" u s'] by (simp add: settle_def)
    qed (use settled in simp)
  qed
qed

section \<open>The sample's index\<close>

theorem caught_up_shows_all_witness:
  "\<exists>s' c p k. ix_checkpoint s' = Some c \<and> rebuild doc03 (map norm_event (take k sample_log)) empty_projection = Inr p \<and>
     length sample_log \<le> k \<and> shows_replay p (ck_generation c) (s' :: unit index)"
proof -
  obtain out s' where t: "ingest_repository_tick watching_host (new_index ()) = (Inr out, s')" "caught_up out" "log_seen s'"
    using sample_tick by blast
  show ?thesis
    using caught_up_shows_all [OF watching_observes _ indexed_from.start t] sample_good by (auto simp: watching_host_def)
qed

lemma sample_round:
  obtains c s' where "indexed_from watching_host () s'" and "ix_checkpoint s' = Some c"
proof -
  obtain out s1 where t: "ingest_repository_tick watching_host (new_index ()) = (Inr out, s1)" "caught_up out" "log_seen s1"
    using sample_tick by blast
  obtain c where c: "ix_checkpoint s1 = Some c" using t(3) by (auto simp: log_seen_def split: option.splits)
  have w: "watches id (\<lambda>_. sample_log) watching_host"
    using watching_observes sample_good by (simp add: watches_def watching_host_def)
  have i: "in_index id (\<lambda>_. sample_log) watching_host (new_index ())" by (simp add: in_index_def new_index_ok)
  obtain r2 s2 where m: "maybe_rebuild watching_host out s1 = (r2, s2)" by fastforce
  have k: "ix_checkpoint s2 = Some c" using maybe_rebuild_keeps [OF w _ m] tick_keeps [OF w i t(1)] c by auto
  obtain r s' where r: "repository_round watching_host None (new_index ()) = (r, s')" by fastforce
  have "s' = s2" using r t(1,2) m
    by (auto simp: repository_round_def andthen_def catch_def caught_up_def split: sum.splits)
  then show thesis using that indexed_from.round [OF indexed_from.start r] k by simp
qed

theorem index_shows_runtime_witness:
  "\<exists>s c p k. ix_checkpoint s = Some c \<and> rebuild doc03 (map norm_event (take k sample_log)) empty_projection = Inr p \<and>
     k \<le> length sample_log \<and> shows_replay p (ck_generation c) (s :: unit index)"
proof -
  obtain c s' where s: "indexed_from watching_host () s'" "ix_checkpoint s' = Some c" by (rule sample_round)
  show ?thesis
    using index_shows_runtime [OF watching_observes _ s] sample_good s(2) by (auto simp: watching_host_def)
qed

theorem publication_fenced_witness:
  "\<exists>s' :: unit index. ix_model s' = Some \<lparr>mr_generation = 1, mr_status = READY, mr_completed = None, mr_error = None\<rparr> \<and>
     ix_lease s' = Some \<lparr>ls_owner = ''t'', ls_heartbeat = 0\<rparr>"
proof -
  obtain r s' where r: "rebuild_read_models watching_host 1 (new_index ()) = (r, s')" by fastforce
  have "r = Inr () \<and> ix_lease s' = Some \<lparr>ls_owner = ''t'', ls_heartbeat = 0\<rparr>" using r
    by (auto simp: rebuild_read_models_def rebuild_locked_def reduce_def fetch_ok_def andthen_def transaction_def settle_def
        watching_host_def new_index_def require_owned_lease_def require_def owned_lease_def TTL_def publish_def delete_views_def
        prune_old_generation_views_def apply_ok_evidence_rows_def no_views_def Let_def split: sum.splits)
  then show ?thesis using publication_fenced [OF r] by (auto simp: max_evidence_id_def new_index_def)
qed

end
