(* ===== verification/Spec2Isabelle.thy ===== *)
theory Spec2Isabelle
  imports EventLog ProjectionInv ContainmentInv LoopRun Selection IntakeRun Batch QueueAgree IndexShown
begin

text \<open>
  DrainDeck runs a coding engine over a queue of issues, one at a time, and records every decision
  in an append-only event log; everything it knows at start-up it replays from that log. This
  library models its Python sources (paths below are relative to \<open>src/\<close> of the repository) and proves
  the guarantees its documents promise.

  Parts, and how they interact

  \<^bold>\<open>The log\<close> (\<open>runtime/events\<close>). \<open>Schema\<close> has the events and their JSON line format over \<open>Json\<close> (a
  printer and a reader of the bytes) and \<open>PyFloat\<close>; \<open>EventLog\<close> the file as a list of bytes: the writer
  lease, torn-tail repair, the id scan, append, both replays. Its locale \<open>event_store\<close> states what a
  client may rely on (an append that returns adds exactly the stamped event) and is interpreted on the
  model of the file as \<open>file_store\<close>. \<open>Projection\<close> is the strict replay (\<open>projections.py\<close>), every
  handler with its refusals in source order; \<open>ProjectionInv\<close> its step relation \<open>proj_step\<close>, the
  invariant \<open>proj_ok\<close>, and what a log that replays says: histories of executions follow the document's
  diagram, commits follow the intent protocol, final issues stay final, at most one execution is open.

  \<^bold>\<open>Programs with effects\<close>. \<open>Prog\<close> is a state-and-exception program (the state at the moment of the
  exception is kept) with Hoare triples; \<open>Runtime\<close> the state recovery and the orchestrator share (log
  writer, projection, world), the repository adapter as a record of programs over an abstract world,
  \<open>emit\<close> (append first, then apply) and the invariant \<open>in_sync\<close>: the projection is the replay of the log.

  \<^bold>\<open>Recovery\<close> (\<open>runtime/recovery\<close>). \<open>Recovery\<close> models start-up containment, the reconciler and its
  bindings; \<open>RecoveryInv\<close> and \<open>ContainmentInv\<close> show, for every repository and probe, that the log still
  replays however recovery ends, that orphans are crashed and intended commits recorded when it
  returns, that a second pass changes nothing, and which boundaries are released: each releasable one of the
  workspace, with its own fact, provided their executions are open; if one is not, the log is broken for good.

  \<^bold>\<open>The orchestrator\<close> (\<open>runtime/loop.py\<close>). \<open>Pack\<close> (the prompt and the budget), \<open>Validation\<close> (the gate
  chain over an operating system given as a parameter) and \<open>Glob\<close> (\<open>fnmatch\<close>) are called by \<open>Loop\<close>, which
  has one definition per row of the step table. \<open>LoopRank\<close> defines the rank that every step lowers,
  \<open>Contained\<close> the logs in which no execution ends behind an open boundary (\<open>closed_log\<close>, from which start-up never
  breaks the log) with the contract of the engine that keeps them so, \<open>LoopInv\<close> the invariant and the triple of every row, \<open>LoopRun\<close> the step, the loop and their
  properties. \<open>run\<close> is a \<open>partial_function (option)\<close>, so that a loop that does not end would be \<open>None\<close>;
  that it ends is a theorem.

  \<^bold>\<open>Sessions\<close> (\<open>runtime/main.py\<close>). \<open>Session\<close> models the commands that open the log: start-up with its
  refusals, selection of the batch, ingestion, the baseline, the lifecycle events, the orchestrator and
  the exit code. \<open>SessionInv\<close> carries the invariants through every phase; \<open>Restart\<close> composes sessions:
  whatever sequence of runs, recoveries and crashes of one workspace wrote a log, it replays. \<open>Batch\<close> shows that a
  selected batch is drained.

  \<^bold>\<open>The queue\<close> (\<open>runtime/queue\<close>). \<open>IssuesMd\<close> is the parser with its five regular expressions written as
  functions; \<open>Selection\<close> Kahn's algorithm, its reference definition and the two planners.

  \<^bold>\<open>Intake\<close> (\<open>draindeck_intake\<close>). \<open>Intake\<close> has the canonical issue, its validation and the renderer,
  with the round trip through the runtime's parser; \<open>Sources\<close> the bounded collector (its termination
  measure, the room left below the cap, is part of the definition) and the local source; \<open>Providers\<close>
  the transport (with the handler that refuses redirects, and urllib's following of the others) and the GitHub, Linear
  and Jira adapters; \<open>IntakeRun\<close> publication under interference, with any step of it or of its clean-up failing, and
  the command. The locale \<open>paged_source\<close> (pages of a fixed content) is interpreted on the local source,
  \<open>canonical_source\<close> (every issue served is canonical) on all four.

  \<^bold>\<open>The dashboard's run queue\<close> (\<open>draindeck_dashboard\<close>). \<open>Configured\<close> has what is read before a plan is
  made (\<open>configured_issues.py\<close>, \<open>repositories.py\<close>, \<open>worktree_preflight.py\<close>) and the record \<open>host\<close> of
  everything the queue does not own; \<open>RunQueue\<close> the operations of \<open>run_queue.py\<close>, \<open>run_launcher.py\<close>,
  \<open>queue_scheduler.py\<close> and the routes of \<open>app.py\<close> that act on it. \<open>QueueMoves\<close> is the abstract queue: the
  relation \<open>qmove\<close> of what may happen to its rows, and the invariant \<open>queue_inv\<close>; \<open>QueueRun\<close> shows that
  every operation, wherever the host fails or the process dies in it, is a sequence of such moves.
  \<open>QueueProps\<close> has the properties of histories of requests, restarts included; \<open>QueueAgree\<close> that the
  runtime accepts the batch the dashboard launches.

  \<^bold>\<open>The observer\<close> (\<open>runtime/observe.py\<close>). \<open>Observe\<close> reads pages of a log in chunks; the file is a function
  from the accesses made so far to its bytes, so that the writer may append between any two of them.
  \<open>ObserveProps\<close> shows that a page is a read of one of those contents, and that cursors round trip.

  \<^bold>\<open>The dashboard's view of the log\<close>. \<open>Tolerant\<close> is the projection that never refuses (\<open>projections.py\<close>, and
  the metered usage of \<open>proxy_cost.py\<close>); \<open>TolerantProps\<close> shows that it agrees with the strict replay on
  every log the runtime accepts, and, through the locale \<open>scoped_view\<close> (interpreted on each kind of
  entity), that a view can be recomputed from the rows that name its entity.

  \<^bold>\<open>The dashboard's index\<close>. \<open>Index\<close> models what a process does with the pages of the observer: storing a
  page and recomputing what it names, replacing a generation, rebuilding and publishing one under the
  lease, and the loop of a repository (\<open>indexer.py\<close>, \<open>read_models.py\<close>, \<open>poller.py\<close>, \<open>scheduler.py\<close>, the lease
  test of \<open>lease.py\<close>). \<open>IndexLog\<close> relates stored evidence to the lines of a log that grows between reads,
  \<open>IndexViews\<close> the view tables to a projection, \<open>IndexProps\<close> carries the invariant through every
  operation, and \<open>IndexShown\<close> composes index, observer and runtime: at any moment the tables show the strict
  replay of a prefix of the log the runtime wrote. A process that dies between two transactions of a tick
  leaves what a tick leaves whose next observation fails.

  Conventions

  Fallible code returns a sum, \<open>Inl\<close> the exception, sequenced with \<open>rbind\<close> (\<open>Prelude\<close>); dictionaries
  are association lists in insertion order; a Python string is a list of code points below 256
  (\<open>PyStr\<close>); integers are unbounded, as in Python; a float is the rational it denotes, or an infinity
  or NaN; a JSON float keeps its lexeme. Messages of exceptions are not modelled; their classes and
  the state they leave are. Bounds: the JSON reader's fuel is the length of its input and
  \<open>loads_dumps\<close> shows that it suffices for every printed value; paginating GitHub is bounded by the code's
  own constant; every other recursion has a termination proof.

  Parameters, with what is assumed of them

  The transition tables (\<open>runtime/state\<close>, which the repository does not contain at this commit):
  \<open>doc03_tables\<close>, the rows of docs/03, witnessed by \<open>doc03\<close>. The repository adapter, the process probe, the
  operating system, the clock, the hash function, the network, the \<open>host\<close> of the dashboard: nothing
  (where the dashboard and the runtime are composed, that they read the same file and states). The
  \<open>index_host\<close>: that the observer answers with a page of a log file the runtime appends to or with an error
  (\<open>observes\<close>), and that the log is one the runtime wrote (\<open>good_log\<close>: it replays, its lines fit the observer's
  limit, its ids and amounts fit the 64 bits of a column); of the lease row, nothing. The engine (\<open>engine_ok\<close>: it
  emits nothing but containment facts that apply; for histories of sessions also \<open>engine_contained\<close>: with job
  containment, a call that returns a result leaves no boundary of its execution open, without it the engine emits
  nothing) and the reviewer (\<open>reviewer_ok\<close>: its feedback is
  JSON); an append that returned is on disk.

  Not modelled, and why

  Subprocess and Windows job control of the engine, git, and the lease of the workspace, which are
  effects outside the process; the read-only routes of the dashboard, SQL text, templates and
  launchers; several dashboards on one run queue (the code assumes one process, whose handlers and
  scheduler share an event loop); of the index, the attention conditions, the columns that only hold the
  time of a write, and other processes that store pages at the same time (they may do anything to the lease); argument parsing and terminal output; SHA-256, which is a parameter.
\<close>

end
